(* ===== verification/Prelude.thy ===== *)
theory Prelude
  imports Main "HOL-Library.List_Lexorder" "HOL-Library.Char_ord" "HOL-Library.Sublist"
    "HOL-Library.Multiset"
begin

text \<open>
  The shared vocabulary of the development: the types that every component names
  (identifiers, times, errors of the database), the string functions of Go's standard
  library that the modelled code calls, and the generic facts about lists, sums and
  options that carry the component proofs.

  \<^item> Go strings are byte strings, so they are \<^typ>\<open>string\<close>; Go's \<open><\<close> on
    strings is the bytewise lexicographic order, which is the order that
    \<^theory_text>\<open>HOL-Library.List_Lexorder\<close> puts on \<^typ>\<open>string\<close>.
  \<^item> A \<open>time.Time\<close> is the integer number of nanoseconds since Go's zero time, so that
    \<open>t.IsZero()\<close> is \<open>t = 0\<close> and \<open>t.After(u)\<close> is \<open>u < t\<close>.
  \<^item> A Go function returning \<open>(T, error)\<close> returns a sum: \<open>Inl\<close> the error,
    \<open>Inr\<close> the value.
\<close>

subsection \<open>Types that all components share\<close>

type_synonym id_t = string
type_synonym time = int

definition isZeroTime :: "time \<Rightarrow> bool" where
  "isZeroTime t \<longleftrightarrow> t = 0"

text \<open>A \<open>time.Duration\<close> is a number of nanoseconds in 64 bits.\<close>

definition second :: int where
  "second = 10 ^ 9"

definition wrap64 :: "int \<Rightarrow> int" where
  "wrap64 n = (n + 2 ^ 63) mod 2 ^ 64 - 2 ^ 63"

text \<open>
  The errors a database call returns: \<open>db.ErrNoEntries\<close>, \<open>db.ErrAlreadyExists\<close>,
  or anything else (a lost connection, a cancelled context), with its message.
\<close>

datatype db_error = ErrNoEntries | ErrAlreadyExists | ErrOther string

named_theorems go_defs \<open>definitions of small helpers that proofs unfold freely\<close>
named_theorems inv_intros \<open>introduction rules for component invariants\<close>

declare isZeroTime_def [go_defs]

subsection \<open>Sums as fallible results\<close>

definition is_err :: "'e + 'a \<Rightarrow> bool" where
  "is_err r \<longleftrightarrow> (case r of Inl _ \<Rightarrow> True | Inr _ \<Rightarrow> False)"

lemma is_err_simps [simp]: "is_err (Inl e)" "\<not> is_err (Inr a)"
  by (simp_all add: is_err_def)

text \<open>
  The Go sequence "call, return its error, go on with its value", on functions that thread a
  state.
\<close>

definition andThen :: "('e + 'a) \<times> 's \<Rightarrow> ('a \<Rightarrow> 's \<Rightarrow> ('e + 'b) \<times> 's) \<Rightarrow> ('e + 'b) \<times> 's" where
  "andThen r f = (case r of (Inl e, s) \<Rightarrow> (Inl e, s) | (Inr a, s) \<Rightarrow> f a s)"

lemma andThen_simps [simp]: "andThen (Inl e, s) f = (Inl e, s)" "andThen (Inr a, s) f = f a s"
  by (simp_all add: andThen_def)

subsection \<open>Case of ASCII letters\<close>

definition isUpperC :: "char \<Rightarrow> bool" where
  "isUpperC c \<longleftrightarrow> 65 \<le> (of_char c :: nat) \<and> (of_char c :: nat) \<le> 90"

definition isLowerC :: "char \<Rightarrow> bool" where
  "isLowerC c \<longleftrightarrow> 97 \<le> (of_char c :: nat) \<and> (of_char c :: nat) \<le> 122"

definition toUpperC :: "char \<Rightarrow> char" where
  "toUpperC c = (if isLowerC c then char_of ((of_char c :: nat) - 32) else c)"

definition toLowerC :: "char \<Rightarrow> char" where
  "toLowerC c = (if isUpperC c then char_of ((of_char c :: nat) + 32) else c)"

definition toLower :: "string \<Rightarrow> string" where
  "toLower s = map toLowerC s"

text \<open>\<open>strings.Contains\<close>.\<close>

definition contains :: "string \<Rightarrow> string \<Rightarrow> bool" where
  "contains sub s = list_ex (prefix sub) (suffixes s)"

subsection \<open>Strings: \<open>strings.Split\<close> and \<open>strings.Count\<close> on one separator byte\<close>

fun splitOn :: "char \<Rightarrow> string \<Rightarrow> string list" where
  "splitOn c [] = [[]]"
| "splitOn c (x # xs) =
     (if x = c then [] # splitOn c xs
      else (case splitOn c xs of [] \<Rightarrow> [[x]] | p # ps \<Rightarrow> (x # p) # ps))"

definition countSep :: "char \<Rightarrow> string \<Rightarrow> nat" where
  "countSep c s = count_list s c"

lemma splitOn_not_Nil [simp]: "splitOn c s \<noteq> []"
  by (induction s) (auto split: list.splits)

lemma length_splitOn: "length (splitOn c s) = Suc (countSep c s)"
  by (induction s) (auto simp: countSep_def split: list.splits)

fun joinWith :: "char \<Rightarrow> string list \<Rightarrow> string" where
  "joinWith c [] = []"
| "joinWith c [p] = p"
| "joinWith c (p # q # ps) = p @ c # joinWith c (q # ps)"

lemma joinWith_splitOn: "joinWith c (splitOn c s) = s"
proof (induction s)
  case (Cons x xs)
  then show ?case
    by (cases "splitOn c xs"; cases "tl (splitOn c xs)") auto
qed simp

lemma splitOn_inj: "splitOn c s = splitOn c t \<longleftrightarrow> s = t"
  by (metis joinWith_splitOn)

subsection \<open>Lists\<close>

text \<open>
  The first element satisfying a predicate is replaced; the others stay where they are.
  This is what a Go loop with \<open>break\<close> does to the element it stops at.
\<close>

fun map_first :: "('a \<Rightarrow> bool) \<Rightarrow> ('a \<Rightarrow> 'a) \<Rightarrow> 'a list \<Rightarrow> 'a list" where
  "map_first P f [] = []"
| "map_first P f (x # xs) = (if P x then f x # xs else x # map_first P f xs)"

lemma map_first_map:
  "(\<And>x. P x \<Longrightarrow> g (f x) = g x) \<Longrightarrow> map g (map_first P f xs) = map g xs"
  by (induction xs) auto

lemma map_first_none: "(\<forall>x \<in> set xs. \<not> P x) \<Longrightarrow> map_first P f xs = xs"
  by (induction xs) auto

lemma length_map_first [simp]: "length (map_first P f xs) = length xs"
  by (induction xs) auto

lemma find_Some_set: "find P xs = Some x \<Longrightarrow> x \<in> set xs \<and> P x"
  by (auto simp: find_Some_iff)

lemma find_None_set: "find P xs = None \<longleftrightarrow> (\<forall>x \<in> set xs. \<not> P x)"
  by (auto simp: find_None_iff)

lemma find_distinct_map:
  assumes "distinct (map f xs)" and "x \<in> set xs"
  shows "find (\<lambda>y. f y = f x) xs = Some x"
  using assms by (induction xs) (auto simp: rev_image_eqI)

lemma sorted_wrt_filter: "sorted_wrt R xs \<Longrightarrow> sorted_wrt R (filter P xs)"
  by (induction xs) auto

lemma sorted_key_rev_prefix:
  "sorted_wrt (\<lambda>a b. f b \<le> (f a :: nat)) (xs @ y # ys) \<Longrightarrow> x \<in> set xs \<Longrightarrow> f y \<le> f x"
  by (auto simp: sorted_wrt_append)

lemma sorted_wrt_subseq: "subseq xs ys \<Longrightarrow> sorted_wrt R ys \<Longrightarrow> sorted_wrt R xs"
proof (induction rule: list_emb.induct)
  case (list_emb_Cons2 x y xs ys)
  then show ?case using list_emb_set [of "(=)" xs ys] by auto
qed auto

lemma subseq_rev: "subseq xs ys \<Longrightarrow> subseq (rev xs) (rev ys)"
  by (induction rule: list_emb.induct) (auto intro: list_emb_append_mono subseq_append_iff)


lemma subseq_butlast: "subseq xs ys \<Longrightarrow> subseq (butlast xs) (butlast ys)"
  by (induction rule: list_emb.induct) auto

end
