(* ===== verification/SnapshotCache.thy ===== *)
theory SnapshotCache
  imports Prelude
begin

text \<open>
  The contract that the two hydrate-on-demand caches share
  (\<open>src/internal/cache/domain\<close> and \<open>src/internal/cache/headerfilter\<close>): a
  query uses the snapshot the cache holds, else it calls its loader, builds a snapshot,
  keeps it and answers from it; clearing drops the snapshot, so that the next query
  reloads. A client that clears the cache with every write to the underlying table always
  gets answers about the current table.
\<close>

datatype ('src, 'q, 'e) cacheOp = WriteClear 'src | Ask 'q "'e option"

text \<open>
  A client of such a cache: each write replaces the table and clears the cache, each
  question loads from the current table, with an error of the database where one is given.
  The answers come out in order; the outer option of a query is a panic.
\<close>

fun runClient :: "('c \<Rightarrow> 'q \<Rightarrow> 'e + 'src \<Rightarrow> ('c \<times> ('f + 'r)) option) \<Rightarrow> ('c \<Rightarrow> 'c) \<Rightarrow>
    'c \<Rightarrow> 'src \<Rightarrow> ('src, 'q, 'e) cacheOp list \<Rightarrow> ('f + 'r) list option" where
  "runClient query clear c s [] = Some []"
| "runClient query clear c s (WriteClear s' # ops) = runClient query clear (clear c) s' ops"
| "runClient query clear c s (Ask q e # ops) =
     (case query c q (case e of None \<Rightarrow> Inr s | Some err \<Rightarrow> Inl err) of
        None \<Rightarrow> None
      | Some (c', r) \<Rightarrow> map_option ((#) r) (runClient query clear c' s ops))"

text \<open>What the answers should be: the error, or the specification on the current table.\<close>

fun answers :: "('src \<Rightarrow> 'q \<Rightarrow> 'f + 'r) \<Rightarrow> ('e \<Rightarrow> 'f) \<Rightarrow> 'src \<Rightarrow>
    ('src, 'q, 'e) cacheOp list \<Rightarrow> ('f + 'r) list \<Rightarrow> bool" where
  "answers spec dberr s [] rs \<longleftrightarrow> rs = []"
| "answers spec dberr s (WriteClear s' # ops) rs \<longleftrightarrow> answers spec dberr s' ops rs"
| "answers spec dberr s (Ask q e # ops) rs \<longleftrightarrow>
     (case rs of
        [] \<Rightarrow> False
      | r # rs' \<Rightarrow>
          (r = spec s q \<or> (\<exists>err. e = Some err \<and> r = Inl (dberr err))) \<and>
          answers spec dberr s ops rs')"

locale snapshot_cache =
  fixes query :: "'c \<Rightarrow> 'q \<Rightarrow> 'e + 'src \<Rightarrow> ('c \<times> ('f + 'r)) option"
    and clear :: "'c \<Rightarrow> 'c"
    and coherent :: "'c \<Rightarrow> 'src \<Rightarrow> bool"
    and spec :: "'src \<Rightarrow> 'q \<Rightarrow> 'f + 'r"
    and dberr :: "'e \<Rightarrow> 'f"
  assumes clear_coherent: "coherent (clear c) s"
    and query_loaded:
      "coherent c s \<Longrightarrow> \<exists>c'. query c q (Inr s) = Some (c', spec s q) \<and> coherent c' s"
    and query_failed:
      "coherent c s \<Longrightarrow> \<exists>c' r. query c q (Inl e) = Some (c', r) \<and> coherent c' s \<and>
        (r = spec s q \<or> r = Inl (dberr e))"
begin

lemma query_total: "coherent c s \<Longrightarrow> src = Inr s \<or> src = Inl e \<Longrightarrow> query c q src \<noteq> None"
  using query_loaded [of c s q] query_failed [of c s q e] by auto

lemma query_result:
  "coherent c s \<Longrightarrow> query c q (Inr s) = Some (c', r) \<Longrightarrow> r = spec s q"
  using query_loaded [of c s q] by auto

lemma query_coherent:
  "coherent c s \<Longrightarrow> query c q (Inr s) = Some (c', r) \<Longrightarrow> coherent c' s"
  using query_loaded [of c s q] by auto

lemma query_failed_coherent:
  "coherent c s \<Longrightarrow> query c q (Inl e) = Some (c', r) \<Longrightarrow>
    coherent c' s \<and> (r = spec s q \<or> r = Inl (dberr e))"
  using query_failed [of c s q e] by auto

lemma runClient_answers:
  "coherent c s \<Longrightarrow> \<exists>rs. runClient query clear c s ops = Some rs \<and> answers spec dberr s ops rs"
proof (induction ops arbitrary: c s)
  case (Cons op ops)
  show ?case
  proof (cases op)
    case (WriteClear s')
    with Cons.IH [OF clear_coherent, of c s'] show ?thesis by simp
  next
    case (Ask q e)
    obtain c' r where q: "query c q (case e of None \<Rightarrow> Inr s | Some err \<Rightarrow> Inl err) = Some (c', r)"
        "coherent c' s" "r = spec s q \<or> (\<exists>err. e = Some err \<and> r = Inl (dberr err))"
      using query_loaded [OF Cons.prems, of q] query_failed [OF Cons.prems, of q "the e"]
      by (cases e) auto
    from Cons.IH [OF q(2)] q(1,3) Ask show ?thesis by auto
  qed
qed simp

end

end
