(* ===== verification/DomainCache.thy ===== *)
theory DomainCache
  imports SnapshotCache
begin

text \<open>
  The in-memory radix trie of domains in \<open>src/internal/cache/domain/domain.go\<close>
  (\<open>Cache\<close>, \<open>root\<close>, \<open>node\<close>). A \<open>node\<close> has one part of a
  domain and a slice of children; a root has the empty part. The loops that pop
  parts from the end of the slice read the reversed list from its front.
\<close>

subsection \<open>The trie\<close>

datatype node = Node (part: string) (child: "node list")

text \<open>
  \<open>node.Add\<close>: walk down from the last part of the domain, allocating children that
  are missing, and drop all children of the node of the last popped part. The loop works
  on the children of the current node; \<open>None\<close> is the panic on an empty slice.
\<close>

fun addLoop :: "node list \<Rightarrow> string list \<Rightarrow> node list" where
  "addLoop cs [] = cs"
| "addLoop cs (x # xs) =
     (case find (\<lambda>c. part c = x) cs of
        None \<Rightarrow> cs @ [Node x (if xs = [] then [] else addLoop [] xs)]
      | Some _ \<Rightarrow>
          map_first (\<lambda>c. part c = x)
            (\<lambda>c. Node (part c) (if xs = [] then [] else addLoop (child c) xs)) cs)"

definition nodeAdd :: "node \<Rightarrow> string list \<Rightarrow> node option" where
  "nodeAdd n parts =
     (if parts = [] then None else Some (Node (part n) (addLoop (child n) (rev parts))))"

text \<open>\<open>node.getChild\<close>: the binary search, with the slice indices as naturals.\<close>

function searchLoop :: "node list \<Rightarrow> string \<Rightarrow> nat \<Rightarrow> nat \<Rightarrow> nat" where
  "searchLoop cs p i j =
     (if i < j then
        (let h = (i + j) div 2 in
         if part (cs ! h) < p then searchLoop cs p (h + 1) j else searchLoop cs p i h)
      else i)"
  by pat_completeness auto
termination
  by (relation "measure (\<lambda>(cs, p, i, j). j - i)") auto

declare searchLoop.simps [simp del]

definition getChild :: "node list \<Rightarrow> string \<Rightarrow> node option" where
  "getChild cs p =
     (let i = searchLoop cs p 0 (length cs) in
      if length cs \<le> i \<or> part (cs ! i) \<noteq> p then None else Some (cs ! i))"

text \<open>\<open>node.Match\<close>: its loop over the parts, again from the last part.\<close>

fun matchLoop :: "node list \<Rightarrow> string list \<Rightarrow> bool" where
  "matchLoop cs [] = False"
| "matchLoop cs (x # xs) =
     (case getChild cs x of
        None \<Rightarrow> False
      | Some nn \<Rightarrow> if child nn = [] then True else matchLoop (child nn) xs)"

definition nodeMatch :: "node \<Rightarrow> string list \<Rightarrow> bool" where
  "nodeMatch n parts = matchLoop (child n) (rev parts)"

text \<open>\<open>node.sort\<close>: sort the children by part, then each child's children.\<close>

function (sequential) nodeSort :: "node \<Rightarrow> node" where
  "nodeSort (Node p cs) = Node p (map nodeSort (sort_key part cs))"
  by pat_completeness auto
termination
  by (relation "measure size") (auto simp: less_Suc_eq_le dest: size_list_estimation' [OF _ order_refl])

text \<open>
  \<open>node.WriteStr\<close>: the prefixes of all nodes, one per line, parents before children.
\<close>

fun writeStr :: "string \<Rightarrow> node \<Rightarrow> string" where
  "writeStr pfx (Node p cs) =
     (let pfx' = (if pfx \<noteq> [] then pfx @ ''.'' else pfx) @ p
      in pfx' @ [CHR 0x0A] @ concat (map (writeStr pfx') cs))"

subsection \<open>The cache\<close>

definition rootAdd :: "node \<Rightarrow> string \<Rightarrow> node option" where
  "rootAdd r domain = nodeAdd r (splitOn CHR ''.'' domain)"

definition rootMatch :: "node \<Rightarrow> string \<Rightarrow> bool" where
  "rootMatch r domain = nodeMatch r (splitOn CHR ''.'' domain)"

fun rootAddAll :: "node \<Rightarrow> string list \<Rightarrow> node option" where
  "rootAddAll r [] = Some r"
| "rootAddAll r (d # ds) = (case rootAdd r d of None \<Rightarrow> None | Some r' \<Rightarrow> rootAddAll r' ds)"

text \<open>
  The comparison of \<open>slices.SortFunc\<close> orders domains with more dots first. The sort of
  the library need not be stable; the stable sort stands for it here, and the
  theorems below hold for every order that puts longer domains first
  (\<open>leaves_addAll\<close>).
\<close>

definition sortByParts :: "string list \<Rightarrow> string list" where
  "sortByParts ds = sort_key (\<lambda>d. - int (countSep CHR ''.'' d)) ds"

record dcache =
  rootptr :: "node option"

definition emptyCache :: dcache where
  "emptyCache = \<lparr>rootptr = None\<rparr>"

text \<open>
  \<open>Cache.Matches\<close>: hydrate the trie from the loader if there is none, then match. The
  loader's result is an argument; the outer option is the panic of \<open>node.Add\<close>.
\<close>

definition matches :: "dcache \<Rightarrow> string \<Rightarrow> db_error + string list \<Rightarrow>
    (dcache \<times> (db_error + bool)) option" where
  "matches c domain load =
     (case rootptr c of
        Some ptr \<Rightarrow> Some (c, Inr (rootMatch ptr domain))
      | None \<Rightarrow>
          (case load of
             Inl err \<Rightarrow> Some (c, Inl err)
           | Inr domains \<Rightarrow>
               (case rootAddAll (Node [] []) (sortByParts domains) of
                  None \<Rightarrow> None
                | Some r \<Rightarrow>
                    (let ptr = nodeSort r
                     in Some (c\<lparr>rootptr := Some ptr\<rparr>, Inr (rootMatch ptr domain))))))"

definition clear :: "dcache \<Rightarrow> dcache" where
  "clear c = c\<lparr>rootptr := None\<rparr>"

definition cacheString :: "dcache \<Rightarrow> string" where
  "cacheString c = (case rootptr c of Some ptr \<Rightarrow> writeStr [] ptr | None \<Rightarrow> ''<empty>'')"

subsection \<open>Leaves, well-formedness and sortedness of the trie\<close>

text \<open>
  The reversed domains a list of children holds are the paths to its leaves. A trie is
  well formed when the parts of siblings differ, sorted when siblings are in order, which
  is what the binary search of \<open>getChild\<close> assumes.
\<close>


fun leavesN :: "node \<Rightarrow> string list set" where
  "leavesN (Node p cs) =
     (if cs = [] then {[p]} else (#) p ` (\<Union>c \<in> set cs. leavesN c))"

definition leaves :: "node list \<Rightarrow> string list set" where
  "leaves cs = (\<Union>c \<in> set cs. leavesN c)"

fun wfNode :: "node \<Rightarrow> bool" where
  "wfNode (Node p cs) \<longleftrightarrow> distinct (map part cs) \<and> (\<forall>c \<in> set cs. wfNode c)"

definition wfNodes :: "node list \<Rightarrow> bool" where
  "wfNodes cs \<longleftrightarrow> distinct (map part cs) \<and> (\<forall>c \<in> set cs. wfNode c)"

fun sortedNode :: "node \<Rightarrow> bool" where
  "sortedNode (Node p cs) \<longleftrightarrow> sorted (map part cs) \<and> (\<forall>c \<in> set cs. sortedNode c)"

definition sortedNodes :: "node list \<Rightarrow> bool" where
  "sortedNodes cs \<longleftrightarrow> sorted (map part cs) \<and> (\<forall>c \<in> set cs. sortedNode c)"

lemma wfNode_child: "wfNode c \<longleftrightarrow> wfNodes (child c)"
  by (cases c) (simp add: wfNodes_def)

lemma sortedNode_child: "sortedNode c \<longleftrightarrow> sortedNodes (child c)"
  by (cases c) (simp add: sortedNodes_def)

lemma wfNodes_child: "wfNodes cs \<Longrightarrow> c \<in> set cs \<Longrightarrow> wfNodes (child c)"
  by (simp add: wfNodes_def [of cs] wfNode_child)

lemma sortedNodes_child: "sortedNodes cs \<Longrightarrow> c \<in> set cs \<Longrightarrow> sortedNodes (child c)"
  by (simp add: sortedNodes_def [of cs] sortedNode_child)

lemma leavesN_child:
  "leavesN c = (if child c = [] then {[part c]} else (#) (part c) ` leaves (child c))"
  by (cases c) (auto simp: leaves_def)

lemma leavesN_nonempty: "leavesN c \<noteq> {}"
proof (induction c)
  case (Node p cs)
  then show ?case by (cases cs) auto
qed

lemma leavesN_Node: "leavesN (Node p cs) = (if cs = [] then {[p]} else (#) p ` leaves cs)"
  by (simp add: leaves_def)

declare leavesN.simps [simp del] and leavesN_Node [simp]

lemma leaves_eq_Nil: "leaves cs = {} \<longleftrightarrow> cs = []"
  using leavesN_nonempty by (auto simp: leaves_def)

lemma leaves_hd: "l \<in> leavesN c \<Longrightarrow> \<exists>l'. l = part c # l'"
  by (cases c) (auto split: if_splits)

lemma Nil_notin_leaves: "[] \<notin> leaves cs"
  by (auto simp: leaves_def dest: leaves_hd)

text \<open>The leaves that start with a given part are those of the child with that part.\<close>

lemma leaves_Cons_found:
  assumes "wfNodes cs" and "find (\<lambda>c. part c = x) cs = Some nn"
  shows "x # l \<in> leaves cs \<longleftrightarrow> x # l \<in> leavesN nn"
proof -
  from assms have nn: "nn \<in> set cs" "part nn = x"
    using find_Some_set by fastforce+
  have "c = nn" if "c \<in> set cs" "x # l \<in> leavesN c" for c
    using that nn leaves_hd [of "x # l" c] assms(1)
    by (auto simp: wfNodes_def distinct_map inj_on_def)
  with nn(1) show ?thesis by (auto simp: leaves_def)
qed

lemma leaves_Cons_none:
  assumes "find (\<lambda>c. part c = x) cs = None"
  shows "x # l \<notin> leaves cs"
  using assms by (auto simp: leaves_def find_None_iff dest: leaves_hd)

subsection \<open>The binary search finds what a linear search finds\<close>

lemma searchLoop_steps:
  "\<not> i < j \<Longrightarrow> searchLoop cs p i j = i"
  "i < j \<Longrightarrow> part (cs ! ((i + j) div 2)) < p \<Longrightarrow>
    searchLoop cs p i j = searchLoop cs p ((i + j) div 2 + 1) j"
  "i < j \<Longrightarrow> \<not> part (cs ! ((i + j) div 2)) < p \<Longrightarrow>
    searchLoop cs p i j = searchLoop cs p i ((i + j) div 2)"
  by (subst searchLoop.simps, simp)+

lemma searchLoop_split:
  assumes "sorted (map part cs)" and "i \<le> j" and "j \<le> length cs"
    and "\<forall>k < i. part (cs ! k) < p" and "\<forall>k. j \<le> k \<and> k < length cs \<longrightarrow> p \<le> part (cs ! k)"
  shows "(\<forall>k < searchLoop cs p i j. part (cs ! k) < p) \<and>
    (\<forall>k. searchLoop cs p i j \<le> k \<and> k < length cs \<longrightarrow> p \<le> part (cs ! k))"
  using assms
proof (induction cs p i j rule: searchLoop.induct)
  case (1 cs p i j)
  let ?h = "(i + j) div 2"
  have mono: "part (cs ! k) \<le> part (cs ! m)" if "k \<le> m" "m < length cs" for k m
    using sorted_nth_mono [OF "1.prems"(1), of k m] that by simp
  consider (stop) "\<not> i < j" | (left) "i < j" "part (cs ! ?h) < p"
    | (right) "i < j" "\<not> part (cs ! ?h) < p" by blast
  then show ?case
  proof cases
    case stop
    with "1.prems" show ?thesis by (simp add: searchLoop_steps(1))
  next
    case left
    then have h: "?h + 1 \<le> j" "?h < length cs" using "1.prems"(3) by auto
    have "\<forall>k < ?h + 1. part (cs ! k) < p"
    proof (intro allI impI)
      fix k assume "k < ?h + 1"
      with h(2) have "part (cs ! k) \<le> part (cs ! ?h)" by (intro mono) auto
      then show "part (cs ! k) < p" using left(2) by (rule le_less_trans)
    qed
    from "1.IH"(1) [OF left(1) refl left(2) "1.prems"(1) h(1) "1.prems"(3) this "1.prems"(5)]
    show ?thesis by (simp only: searchLoop_steps(2) [OF left])
  next
    case right
    then have h: "i \<le> ?h" "?h \<le> length cs" using "1.prems"(3) by auto
    have "\<forall>k. ?h \<le> k \<and> k < length cs \<longrightarrow> p \<le> part (cs ! k)"
      using mono right(2) by (meson not_le order_trans)
    from "1.IH"(2) [OF right(1) refl right(2) "1.prems"(1) h "1.prems"(4) this]
    show ?thesis by (simp only: searchLoop_steps(3) [OF right])
  qed
qed

lemma getChild_find:
  assumes "sortedNodes cs" and "wfNodes cs"
  shows "getChild cs p = find (\<lambda>c. part c = p) cs"
proof -
  let ?i = "searchLoop cs p 0 (length cs)"
  have "sorted (map part cs)" using assms(1) by (simp add: sortedNodes_def)
  note split = searchLoop_split [OF this le0 order_refl, of p]
  have s: "\<forall>k < ?i. part (cs ! k) < p"
      "\<forall>k. ?i \<le> k \<and> k < length cs \<longrightarrow> p \<le> part (cs ! k)"
    using split by (meson not_le not_less_zero)+
  show ?thesis
  proof (cases "length cs \<le> ?i \<or> part (cs ! ?i) \<noteq> p")
    case True
    have "part c \<noteq> p" if "c \<in> set cs" for c
    proof
      assume eq: "part c = p"
      from that obtain k where k: "k < length cs" "cs ! k = c" by (auto simp: in_set_conv_nth)
      with s(1) eq have ik: "?i \<le> k" by (meson less_irrefl not_le)
      with True k have "part (cs ! ?i) \<noteq> p" "?i < length cs" by auto
      moreover have "part (cs ! ?i) \<le> part (cs ! k)"
        using sorted_nth_mono [of "map part cs" ?i k] assms(1) ik k by (simp add: sortedNodes_def)
      ultimately show False using s(2) eq k by (metis antisym order_refl)
    qed
    then have "find (\<lambda>c. part c = p) cs = None" by (simp add: find_None_iff)
    with True show ?thesis by (auto simp: getChild_def Let_def)
  next
    case False
    then have "cs ! ?i \<in> set cs" and p: "part (cs ! ?i) = p" by auto
    then have "find (\<lambda>c. part c = p) cs = Some (cs ! ?i)"
      using find_distinct_map [of part cs "cs ! ?i"] assms(2) by (simp add: wfNodes_def)
    with False show ?thesis by (simp add: getChild_def Let_def)
  qed
qed

lemma matchLoop_leaves:
  "sortedNodes cs \<Longrightarrow> wfNodes cs \<Longrightarrow>
    matchLoop cs xs \<longleftrightarrow> (\<exists>l \<in> leaves cs. prefix l xs)"
proof (induction cs xs rule: matchLoop.induct)
  case (1 cs)
  then show ?case using Nil_notin_leaves by auto
next
  case (2 cs x xs)
  have g: "getChild cs x = find (\<lambda>c. part c = x) cs"
    using "2.prems" by (rule getChild_find)
  have pre: "(\<exists>l \<in> leaves cs. prefix l (x # xs)) \<longleftrightarrow>
      (\<exists>l'. x # l' \<in> leaves cs \<and> prefix l' xs)"
    using Nil_notin_leaves by (auto simp: prefix_Cons) 
  show ?case
  proof (cases "find (\<lambda>c. part c = x) cs")
    case None
    with g pre leaves_Cons_none show ?thesis by auto
  next
    case (Some nn)
    then have nn: "nn \<in> set cs" "part nn = x" using find_Some_set by fastforce+
    have c: "sortedNodes (child nn)" "wfNodes (child nn)"
      using nn "2.prems" sortedNodes_child wfNodes_child by blast+
    have "(\<exists>l'. x # l' \<in> leaves cs \<and> prefix l' xs) \<longleftrightarrow>
        (\<exists>l'. x # l' \<in> leavesN nn \<and> prefix l' xs)"
      using leaves_Cons_found [OF "2.prems"(2) Some] by simp
    also have "\<dots> \<longleftrightarrow> child nn = [] \<or> (\<exists>l' \<in> leaves (child nn). prefix l' xs)"
      using nn(2) by (auto simp: leavesN_child [of nn] leaves_def)
    finally show ?thesis
      using pre g Some "2.IH" [OF _ _ c] by (cases "child nn = []") auto
  qed
qed

subsection \<open>Adding a domain\<close>

lemma map_part_map_first:
  "map part (map_first (\<lambda>c. part c = x) (\<lambda>c. Node (part c) (f c)) cs) = map part cs"
  by (rule map_first_map) simp

lemma set_map_first_distinct:
  assumes "distinct (map part cs)" and "find (\<lambda>c. part c = x) cs = Some nn"
  shows "set (map_first (\<lambda>c. part c = x) f cs) = insert (f nn) (set cs - {nn})"
  using assms by (induction cs) (auto split: if_splits simp: rev_image_eqI dest: find_Some_set)

lemma wfNodes_addLoop: "wfNodes cs \<Longrightarrow> wfNodes (addLoop cs xs)"
proof (induction cs xs rule: addLoop.induct)
  case (2 cs x xs)
  show ?case
  proof (cases "find (\<lambda>c. part c = x) cs")
    case None
    have e: "wfNodes []" by (simp add: wfNodes_def)
    with "2.IH"(1) None have "xs \<noteq> [] \<Longrightarrow> wfNodes (addLoop [] xs)" by blast
    moreover have "\<forall>c \<in> set cs. part c \<noteq> x" using None by (simp add: find_None_iff)
    moreover have "addLoop cs (x # xs) = cs @ [Node x (if xs = [] then [] else addLoop [] xs)]"
      using None by simp
    ultimately show ?thesis using "2.prems" by (auto simp: wfNodes_def)
  next
    case (Some nn)
    let ?f = "\<lambda>c. Node (part c) (if xs = [] then [] else addLoop (child c) xs)"
    have nn: "nn \<in> set cs" using Some find_Some_set by fastforce
    then have "wfNodes (child nn)" using "2.prems" wfNodes_child by blast
    then have "wfNode (?f nn)"
      using "2.IH"(2) [OF Some] by (simp add: wfNodes_def)
    then show ?thesis
      using Some "2.prems" set_map_first_distinct [OF _ Some, of ?f]
      by (simp add: wfNodes_def map_part_map_first)
  qed
qed simp


text \<open>
  Adding a domain makes it a leaf and removes the leaves below it; the condition is that
  no leaf lies strictly above the new one, which the insertion order provides.
\<close>

lemma leaves_append: "leaves (cs @ ds) = leaves cs \<union> leaves ds"
  by (simp add: leaves_def)

lemma leaves_single: "leaves [c] = leavesN c"
  by (simp add: leaves_def)

lemma leaves_addLoop:
  "wfNodes cs \<Longrightarrow> xs \<noteq> [] \<Longrightarrow> \<forall>l \<in> leaves cs. \<not> strict_prefix l xs \<Longrightarrow>
    leaves (addLoop cs xs) = insert xs {l \<in> leaves cs. \<not> prefix xs l}"
proof (induction cs xs rule: addLoop.induct)
  case (2 cs x xs)
  show ?case
  proof (cases "find (\<lambda>c. part c = x) cs")
    case None
    have e: "leaves [] = {}" "wfNodes []" by (simp_all add: leaves_def wfNodes_def)
    have "leavesN (Node x (if xs = [] then [] else addLoop [] xs)) = {x # xs}"
    proof (cases "xs = []")
      case False
      with e "2.IH"(1) [OF None False] have l: "leaves (addLoop [] xs) = {xs}" by simp
      then have "addLoop [] xs \<noteq> []" using leaves_eq_Nil [of "addLoop [] xs"] by auto
      with l False show ?thesis
        by simp
    qed simp
    moreover have "\<not> prefix (x # xs) l" if "l \<in> leaves cs" for l
      using that leaves_Cons_none [OF None] by (auto simp: prefix_def)
    moreover have "addLoop cs (x # xs) = cs @ [Node x (if xs = [] then [] else addLoop [] xs)]"
      using None by simp
    ultimately show ?thesis by (auto simp: leaves_append leaves_single)
  next
    case (Some nn)
    let ?f = "\<lambda>c. Node (part c) (if xs = [] then [] else addLoop (child c) xs)"
    have nn: "nn \<in> set cs" "part nn = x" using Some find_Some_set by fastforce+
    have d: "distinct (map part cs)" using "2.prems"(1) by (simp add: wfNodes_def)
    have w: "wfNodes (child nn)" using "2.prems"(1) nn(1) by (rule wfNodes_child)
    have new: "leavesN (?f nn) = insert (x # xs) {l \<in> leavesN nn. \<not> prefix (x # xs) l}"
    proof (cases "xs = []")
      case True
      with nn(2) show ?thesis by (auto dest: leaves_hd)
    next
      case False
      have "child nn \<noteq> []"
      proof
        assume "child nn = []"
        then have "[x] \<in> leaves cs"
          using nn by (auto simp: leaves_def leavesN_child [of nn] intro!: bexI [of _ nn])
        with "2.prems"(3) False show False by (auto simp: strict_prefix_def)
      qed
      moreover have "\<forall>l \<in> leaves (child nn). \<not> strict_prefix l xs"
      proof
        fix l assume "l \<in> leaves (child nn)"
        then have "x # l \<in> leaves cs"
          using nn \<open>child nn \<noteq> []\<close>
          by (auto simp: leaves_def [of cs] leavesN_child [of nn] intro!: bexI [of _ nn])
        with "2.prems"(3) show "\<not> strict_prefix l xs" by (auto simp: strict_prefix_def)
      qed
      ultimately have "leaves (addLoop (child nn) xs) =
          insert xs {l \<in> leaves (child nn). \<not> prefix xs l}"
        using "2.IH"(2) [OF Some False w False] by blast
      moreover have "addLoop (child nn) xs \<noteq> []"
        using calculation leaves_eq_Nil [of "addLoop (child nn) xs"] by auto
      ultimately show ?thesis
        using False nn(2) \<open>child nn \<noteq> []\<close>
        by (auto simp: leavesN_child [of nn])
    qed
    have other: "\<not> prefix (x # xs) l" if "c \<in> set cs" "c \<noteq> nn" "l \<in> leavesN c" for c l
    proof
      assume "prefix (x # xs) l"
      then have "part c = x" using that(3) leaves_hd [of l c] by (auto simp: prefix_def)
      with that nn d show False by (auto simp: distinct_map inj_on_def)
    qed
    have "leaves (addLoop cs (x # xs)) = leavesN (?f nn) \<union> (\<Union>c \<in> set cs - {nn}. leavesN c)"
      using Some set_map_first_distinct [OF d Some, of ?f] by (simp add: leaves_def)
    also have "\<dots> = insert (x # xs) {l \<in> leaves cs. \<not> prefix (x # xs) l}"
      using nn(1) other unfolding new leaves_def by blast
    finally show ?thesis .
  qed
qed simp

subsection \<open>Sorting the trie\<close>

lemma part_nodeSort [simp]: "part (nodeSort c) = part c"
  by (cases c) simp

lemma leavesN_nodeSort [simp]: "leavesN (nodeSort c) = leavesN c"
proof (induction c rule: nodeSort.induct)
  case (1 p cs)
  have "sort_key part cs = [] \<longleftrightarrow> cs = []" by (metis set_empty set_sort)
  moreover have "leaves (map nodeSort (sort_key part cs)) = leaves cs"
    using 1 by (simp add: leaves_def)
  ultimately show ?case by simp
qed

lemma wfNode_nodeSort: "wfNode c \<Longrightarrow> wfNode (nodeSort c)"
proof (induction c rule: nodeSort.induct)
  case (1 p cs)
  have "mset (map part (sort_key part cs)) = mset (map part cs)" by simp
  then have "distinct (map part (sort_key part cs))"
    using "1.prems" by (metis mset_eq_imp_distinct_iff wfNode.simps)
  with 1 show ?case by (simp add: comp_def)
qed

lemma sortedNode_nodeSort: "sortedNode (nodeSort c)"
  by (induction c rule: nodeSort.induct) (simp add: comp_def)


subsection \<open>Hydrating the cache\<close>

definition labels :: "string \<Rightarrow> string list" where
  "labels d = rev (splitOn CHR ''.'' d)"

lemma length_labels: "length (labels d) = Suc (countSep CHR ''.'' d)"
  by (simp add: labels_def length_splitOn)

lemma labels_not_Nil [simp]: "labels d \<noteq> []"
  by (simp add: labels_def)

lemma rootAdd_Some:
  "rootAdd r d = Some (Node (part r) (addLoop (child r) (labels d)))"
  by (simp add: rootAdd_def nodeAdd_def labels_def)

definition longestFirst :: "string list \<Rightarrow> bool" where
  "longestFirst ds \<longleftrightarrow>
     sorted_wrt (\<lambda>a b. countSep CHR ''.'' b \<le> countSep CHR ''.'' a) ds"

lemma longestFirst_sortByParts: "longestFirst (sortByParts ds)"
proof -
  have "sorted (map (\<lambda>d. - int (countSep CHR ''.'' d)) (sortByParts ds))"
    unfolding sortByParts_def by (rule sorted_sort_key)
  then show ?thesis by (simp add: longestFirst_def sorted_wrt_map)
qed

lemma set_sortByParts [simp]: "set (sortByParts ds) = set ds"
  by (simp add: sortByParts_def)

lemma leaves_addAll:
  assumes "longestFirst ds" and "wfNodes (child r)"
    and "\<forall>l \<in> leaves (child r). \<forall>d \<in> set ds. length (labels d) \<le> length l"
  shows "\<exists>r'. rootAddAll r ds = Some r' \<and> wfNodes (child r') \<and>
    (\<forall>xs. (\<exists>l \<in> leaves (child r'). prefix l xs) \<longleftrightarrow>
      (\<exists>l \<in> leaves (child r). prefix l xs) \<or> (\<exists>d \<in> set ds. prefix (labels d) xs))"
  using assms
proof (induction ds arbitrary: r)
  case (Cons d ds)
  let ?r = "Node (part r) (addLoop (child r) (labels d))"
  have "\<not> strict_prefix l (labels d)" if "l \<in> leaves (child r)" for l
    using that Cons.prems(3) prefix_length_less [of l "labels d"] by force
  then have lv: "leaves (child ?r) = insert (labels d) {l \<in> leaves (child r). \<not> prefix (labels d) l}"
    using leaves_addLoop [OF Cons.prems(2), of "labels d"] by simp
  have "longestFirst ds" using Cons.prems(1) by (simp add: longestFirst_def)
  moreover have "wfNodes (child ?r)" using Cons.prems(2) by (simp add: wfNodes_addLoop)
  moreover have "\<forall>l \<in> leaves (child ?r). \<forall>d \<in> set ds. length (labels d) \<le> length l"
    using Cons.prems(1,3) unfolding lv by (auto simp: longestFirst_def length_labels)
  ultimately obtain r' where r': "rootAddAll ?r ds = Some r'" "wfNodes (child r')"
    "\<forall>xs. (\<exists>l \<in> leaves (child r'). prefix l xs) \<longleftrightarrow>
      (\<exists>l \<in> leaves (child ?r). prefix l xs) \<or> (\<exists>d \<in> set ds. prefix (labels d) xs)"
    using Cons.IH by blast
  have "(\<exists>l \<in> leaves (child ?r). prefix l xs) \<longleftrightarrow>
      (\<exists>l \<in> leaves (child r). prefix l xs) \<or> prefix (labels d) xs" for xs
    unfolding lv using prefix_order.trans by blast
  with r' show ?case by (auto simp: rootAdd_Some)
qed (simp add: wfNodes_def)

text \<open>What a list of domains covers: themselves and every subdomain of them.\<close>

definition covers :: "string list \<Rightarrow> string \<Rightarrow> bool" where
  "covers ds q \<longleftrightarrow> (\<exists>d \<in> set ds. suffix (splitOn CHR ''.'' d) (splitOn CHR ''.'' q))"

lemma covers_labels: "covers ds q \<longleftrightarrow> (\<exists>d \<in> set ds. prefix (labels d) (labels q))"
  by (simp add: covers_def labels_def suffix_to_prefix)

text \<open>A root that holds a list of domains: sorted, well formed, matching what they cover.\<close>

definition holds :: "node \<Rightarrow> string list \<Rightarrow> bool" where
  "holds r ds \<longleftrightarrow> (\<forall>q. rootMatch r q \<longleftrightarrow> covers ds q)"

lemma hydrate:
  assumes "set ds' = set ds" and "longestFirst ds'"
  shows "\<exists>r. rootAddAll (Node [] []) ds' = Some r \<and> holds (nodeSort r) ds"
proof -
  have "wfNodes (child (Node [] []))" "leaves (child (Node [] [])) = {}"
    by (simp_all add: wfNodes_def leaves_def)
  from leaves_addAll [OF assms(2) this(1)] this(2) obtain r where
    r: "rootAddAll (Node [] []) ds' = Some r" "wfNodes (child r)"
    "\<forall>xs. (\<exists>l \<in> leaves (child r). prefix l xs) \<longleftrightarrow> (\<exists>d \<in> set ds'. prefix (labels d) xs)"
    by auto
  have "wfNodes (child (nodeSort r))"
    using r(2) by (simp only: wfNode_child [symmetric] wfNode_nodeSort)
  moreover have "sortedNodes (child (nodeSort r))"
    using sortedNode_nodeSort [of r] by (simp only: sortedNode_child)
  moreover have "leaves (child (nodeSort r)) = leaves (child r)"
    by (cases r) (simp add: leaves_def)
  ultimately have "holds (nodeSort r) ds"
    using r(3) assms(1) matchLoop_leaves [of "child (nodeSort r)"]
    by (simp add: holds_def rootMatch_def nodeMatch_def covers_labels labels_def)
  with r(1) show ?thesis by blast
qed

definition dcoherent :: "dcache \<Rightarrow> string list \<Rightarrow> bool" where
  "dcoherent c ds \<longleftrightarrow> (case rootptr c of None \<Rightarrow> True | Some r \<Rightarrow> holds r ds)"

lemma dcoherent_clear [simp, intro]: "dcoherent (clear c) ds"
  by (simp add: dcoherent_def clear_def)

lemma dcoherent_empty [simp, intro]: "dcoherent emptyCache ds"
  by (simp add: dcoherent_def emptyCache_def)

lemma matches_ok:
  assumes "dcoherent c ds"
  shows "\<exists>c'. matches c q (Inr ds) = Some (c', Inr (covers ds q)) \<and> dcoherent c' ds"
proof (cases "rootptr c")
  case None
  from hydrate [of "sortByParts ds" ds] obtain r where
    "rootAddAll (Node [] []) (sortByParts ds) = Some r" "holds (nodeSort r) ds"
    using longestFirst_sortByParts by auto
  with None show ?thesis by (simp add: matches_def dcoherent_def holds_def Let_def)
next
  case (Some r)
  with assms show ?thesis by (simp add: matches_def dcoherent_def holds_def)
qed

lemma matches_err:
  assumes "dcoherent c ds"
  shows "(matches c q (Inl e) = Some (c, Inl e) \<and> rootptr c = None) \<or>
    matches c q (Inl e) = Some (c, Inr (covers ds q))"
  using assms by (cases "rootptr c") (auto simp: matches_def dcoherent_def holds_def)

subsection \<open>The cache keeps the contract of a snapshot cache\<close>

interpretation dom: snapshot_cache matches clear dcoherent "\<lambda>ds q. Inr (covers ds q)" id
proof unfold_locales
  show "dcoherent (clear c) s" for c s by simp
  show "\<exists>c'. matches c q (Inr s) = Some (c', Inr (covers s q)) \<and> dcoherent c' s"
    if "dcoherent c s" for c s q
    using that by (rule matches_ok)
  show "\<exists>c' r. matches c q (Inl e) = Some (c', r) \<and> dcoherent c' s \<and>
      (r = Inr (covers s q) \<or> r = Inl (id e))"
    if "dcoherent c s" for c s q e
    using matches_err [OF that, of q e] that by auto
qed

text \<open>
  C35. A domain cache that is empty, or was loaded from the same list, matches a domain
  exactly when the domain is one of the list or a subdomain (at a dot) of one of them: the
  radix trie with its insertion order, sorting and binary search computes that
  relation, and building it never panics.
\<close>

theorem cache_matches_covers:
  "map_option snd (matches emptyCache q (Inr ds)) =
    Some (Inr (\<exists>d \<in> set ds. suffix (splitOn CHR ''.'' d) (splitOn CHR ''.'' q)))"
  using matches_ok [of emptyCache ds q] by (auto simp: covers_def)

end
