(* ===== verification/DomainPerms.thy ===== *)
theory DomainPerms
  imports DomainCache
begin

text \<open>
  Domain permissions, \<open>src/internal/db/bundb/domain.go\<close>: the tables of domain allows
  and domain blocks, each with its domain cache, the operations that write a table and
  clear its cache, and \<open>IsDomainBlocked\<close>, which decides federation with a domain from
  both caches and the federation mode.

  Each database query takes a \<open>fault\<close>: the error it returns instead of running, if
  any. \<open>Punify\<close> (lower-casing and the punycode conversion of
  \<open>golang.org/x/net/idna\<close>) is a parameter.
\<close>

subsection \<open>State\<close>

record domainPerm =
  dpID :: id_t
  dpDomain :: string

record config =
  cfgHost :: string
  cfgAccountDomain :: string
  cfgFederationMode :: string

record domainDB =
  domainAllows :: "domainPerm list"
  domainBlocks :: "domainPerm list"
  allowCache :: dcache
  blockCache :: dcache

type_synonym punifyF = "string \<Rightarrow> db_error + string"
type_synonym fault = "db_error option"

definition newDomainDB :: domainDB where
  "newDomainDB = \<lparr>domainAllows = [], domainBlocks = [],
     allowCache = emptyCache, blockCache = emptyCache\<rparr>"

text \<open>A domain \<open>referencing *us*\<close>.\<close>

definition ownDomain :: "config \<Rightarrow> string \<Rightarrow> bool" where
  "ownDomain cfg d \<longleftrightarrow> d = [] \<or> d = cfgAccountDomain cfg \<or> d = cfgHost cfg"

subsection \<open>SQL on one table: insert under the primary key, delete and select by domain\<close>

definition insertPerm :: "fault \<Rightarrow> domainPerm \<Rightarrow> domainPerm list \<Rightarrow> db_error + domainPerm list" where
  "insertPerm f row rows =
     (case f of
        Some e \<Rightarrow> Inl e
      | None \<Rightarrow> if dpID row \<in> dpID ` set rows then Inl ErrAlreadyExists else Inr (rows @ [row]))"

definition deletePerm :: "fault \<Rightarrow> string \<Rightarrow> domainPerm list \<Rightarrow> db_error + domainPerm list" where
  "deletePerm f d rows =
     (case f of Some e \<Rightarrow> Inl e | None \<Rightarrow> Inr (filter (\<lambda>r. dpDomain r \<noteq> d) rows))"

definition selectPerm :: "fault \<Rightarrow> (domainPerm \<Rightarrow> bool) \<Rightarrow> domainPerm list \<Rightarrow> db_error + domainPerm" where
  "selectPerm f P rows =
     (case f of
        Some e \<Rightarrow> Inl e
      | None \<Rightarrow> (case find P rows of None \<Rightarrow> Inl ErrNoEntries | Some r \<Rightarrow> Inr r))"

definition selectDomains :: "fault \<Rightarrow> domainPerm list \<Rightarrow> db_error + string list" where
  "selectDomains f rows = (case f of Some e \<Rightarrow> Inl e | None \<Rightarrow> Inr (map dpDomain rows))"

subsection \<open>Operations\<close>

definition createDomainAllow ::
    "punifyF \<Rightarrow> fault \<Rightarrow> domainPerm \<Rightarrow> domainDB \<Rightarrow> domainDB \<times> (db_error + unit)" where
  "createDomainAllow punify f allow st =
     (case punify (dpDomain allow) of
        Inl e \<Rightarrow> (st, Inl e)
      | Inr d \<Rightarrow>
          (case insertPerm f (allow\<lparr>dpDomain := d\<rparr>) (domainAllows st) of
             Inl e \<Rightarrow> (st, Inl e)
           | Inr rows \<Rightarrow>
               (st\<lparr>domainAllows := rows, allowCache := clear (allowCache st)\<rparr>, Inr ())))"

definition getDomainAllow ::
    "punifyF \<Rightarrow> config \<Rightarrow> fault \<Rightarrow> string \<Rightarrow> domainDB \<Rightarrow> db_error + domainPerm" where
  "getDomainAllow punify cfg f domain st =
     (case punify domain of
        Inl e \<Rightarrow> Inl e
      | Inr d \<Rightarrow>
          if ownDomain cfg d then Inl ErrNoEntries
          else selectPerm f (\<lambda>r. dpDomain r = d) (domainAllows st))"

definition getDomainAllows :: "fault \<Rightarrow> domainDB \<Rightarrow> db_error + domainPerm list" where
  "getDomainAllows f st = (case f of Some e \<Rightarrow> Inl e | None \<Rightarrow> Inr (domainAllows st))"

definition getDomainAllowByID :: "fault \<Rightarrow> id_t \<Rightarrow> domainDB \<Rightarrow> db_error + domainPerm" where
  "getDomainAllowByID f i st = selectPerm f (\<lambda>r. dpID r = i) (domainAllows st)"

definition deleteDomainAllow ::
    "punifyF \<Rightarrow> fault \<Rightarrow> string \<Rightarrow> domainDB \<Rightarrow> domainDB \<times> (db_error + unit)" where
  "deleteDomainAllow punify f domain st =
     (case punify domain of
        Inl e \<Rightarrow> (st, Inl e)
      | Inr d \<Rightarrow>
          (case deletePerm f d (domainAllows st) of
             Inl e \<Rightarrow> (st, Inl e)
           | Inr rows \<Rightarrow>
               (st\<lparr>domainAllows := rows, allowCache := clear (allowCache st)\<rparr>, Inr ())))"

definition createDomainBlock ::
    "punifyF \<Rightarrow> fault \<Rightarrow> domainPerm \<Rightarrow> domainDB \<Rightarrow> domainDB \<times> (db_error + unit)" where
  "createDomainBlock punify f block st =
     (case punify (dpDomain block) of
        Inl e \<Rightarrow> (st, Inl e)
      | Inr d \<Rightarrow>
          (case insertPerm f (block\<lparr>dpDomain := d\<rparr>) (domainBlocks st) of
             Inl e \<Rightarrow> (st, Inl e)
           | Inr rows \<Rightarrow>
               (st\<lparr>domainBlocks := rows, blockCache := clear (blockCache st)\<rparr>, Inr ())))"

definition getDomainBlock ::
    "punifyF \<Rightarrow> config \<Rightarrow> fault \<Rightarrow> string \<Rightarrow> domainDB \<Rightarrow> db_error + domainPerm" where
  "getDomainBlock punify cfg f domain st =
     (case punify domain of
        Inl e \<Rightarrow> Inl e
      | Inr d \<Rightarrow>
          if ownDomain cfg d then Inl ErrNoEntries
          else selectPerm f (\<lambda>r. dpDomain r = d) (domainBlocks st))"

definition getDomainBlocks :: "fault \<Rightarrow> domainDB \<Rightarrow> db_error + domainPerm list" where
  "getDomainBlocks f st = (case f of Some e \<Rightarrow> Inl e | None \<Rightarrow> Inr (domainBlocks st))"

definition getDomainBlockByID :: "fault \<Rightarrow> id_t \<Rightarrow> domainDB \<Rightarrow> db_error + domainPerm" where
  "getDomainBlockByID f i st = selectPerm f (\<lambda>r. dpID r = i) (domainBlocks st)"

definition deleteDomainBlock ::
    "punifyF \<Rightarrow> fault \<Rightarrow> string \<Rightarrow> domainDB \<Rightarrow> domainDB \<times> (db_error + unit)" where
  "deleteDomainBlock punify f domain st =
     (case punify domain of
        Inl e \<Rightarrow> (st, Inl e)
      | Inr d \<Rightarrow>
          (case deletePerm f d (domainBlocks st) of
             Inl e \<Rightarrow> (st, Inl e)
           | Inr rows \<Rightarrow>
               (st\<lparr>domainBlocks := rows, blockCache := clear (blockCache st)\<rparr>, Inr ())))"

text \<open>The decision from the explicit allow, the explicit block and the federation mode.\<close>

definition federationVerdict :: "string \<Rightarrow> bool \<Rightarrow> bool \<Rightarrow> db_error + bool" where
  "federationVerdict mode explicitAllow explicitBlock =
     (if mode = ''blocklist'' then Inr (\<not> (explicitAllow \<or> \<not> explicitBlock))
      else if mode = ''allowlist'' then Inr (explicitBlock \<or> \<not> explicitAllow)
      else Inl (ErrOther (''unrecognized federation mode: '' @ mode)))"

text \<open>
  \<open>IsDomainBlocked\<close>; the two faults are those of the loaders of the allow cache and of
  the block cache. The outer option is the panic of the trie.
\<close>

definition isDomainBlocked :: "punifyF \<Rightarrow> config \<Rightarrow> fault \<Rightarrow> fault \<Rightarrow> string \<Rightarrow> domainDB \<Rightarrow>
    (domainDB \<times> (db_error + bool)) option" where
  "isDomainBlocked punify cfg fa fb domain st =
     (case punify domain of
        Inl e \<Rightarrow> Some (st, Inl e)
      | Inr d \<Rightarrow>
          if ownDomain cfg d then Some (st, Inr False)
          else
            (case matches (allowCache st) d (selectDomains fa (domainAllows st)) of
               None \<Rightarrow> None
             | Some (ac, ra) \<Rightarrow>
                 (let st1 = st\<lparr>allowCache := ac\<rparr> in
                  case ra of
                    Inl e \<Rightarrow> Some (st1, Inl e)
                  | Inr explicitAllow \<Rightarrow>
                      (case matches (blockCache st1) d (selectDomains fb (domainBlocks st1)) of
                         None \<Rightarrow> None
                       | Some (bc, rb) \<Rightarrow>
                           (let st2 = st1\<lparr>blockCache := bc\<rparr> in
                            case rb of
                              Inl e \<Rightarrow> Some (st2, Inl e)
                            | Inr explicitBlock \<Rightarrow>
                                Some (st2, federationVerdict (cfgFederationMode cfg)
                                             explicitAllow explicitBlock))))))"

text \<open>\<open>AreDomainsBlocked\<close>: stop at the first error or the first blocked domain.\<close>

fun areDomainsBlocked :: "punifyF \<Rightarrow> config \<Rightarrow> fault \<Rightarrow> fault \<Rightarrow> string list \<Rightarrow> domainDB \<Rightarrow>
    (domainDB \<times> (db_error + bool)) option" where
  "areDomainsBlocked punify cfg fa fb [] st = Some (st, Inr False)"
| "areDomainsBlocked punify cfg fa fb (d # ds) st =
     (case isDomainBlocked punify cfg fa fb d st of
        None \<Rightarrow> None
      | Some (st', Inl e) \<Rightarrow> Some (st', Inl e)
      | Some (st', Inr True) \<Rightarrow> Some (st', Inr True)
      | Some (st', Inr False) \<Rightarrow> areDomainsBlocked punify cfg fa fb ds st')"

text \<open>
  \<open>IsURIBlocked\<close> and \<open>AreURIsBlocked\<close> are the same on the hostname of a URI;
  \<open>url.URL.Hostname\<close> is the parameter \<open>hostname\<close>.
\<close>

definition isURIBlocked :: "('uri \<Rightarrow> string) \<Rightarrow> punifyF \<Rightarrow> config \<Rightarrow> fault \<Rightarrow> fault \<Rightarrow> 'uri \<Rightarrow>
    domainDB \<Rightarrow> (domainDB \<times> (db_error + bool)) option" where
  "isURIBlocked hostname punify cfg fa fb uri st =
     isDomainBlocked punify cfg fa fb (hostname uri) st"

fun areURIsBlocked :: "('uri \<Rightarrow> string) \<Rightarrow> punifyF \<Rightarrow> config \<Rightarrow> fault \<Rightarrow> fault \<Rightarrow> 'uri list \<Rightarrow>
    domainDB \<Rightarrow> (domainDB \<times> (db_error + bool)) option" where
  "areURIsBlocked hostname punify cfg fa fb [] st = Some (st, Inr False)"
| "areURIsBlocked hostname punify cfg fa fb (u # us) st =
     (case isDomainBlocked punify cfg fa fb (hostname u) st of
        None \<Rightarrow> None
      | Some (st', Inl e) \<Rightarrow> Some (st', Inl e)
      | Some (st', Inr True) \<Rightarrow> Some (st', Inr True)
      | Some (st', Inr False) \<Rightarrow> areURIsBlocked hostname punify cfg fa fb us st')"

subsection \<open>Histories of operations\<close>

datatype domainOp =
    OpCreateAllow fault domainPerm
  | OpDeleteAllow fault string
  | OpCreateBlock fault domainPerm
  | OpDeleteBlock fault string
  | OpIsBlocked fault fault string

fun domainStep :: "punifyF \<Rightarrow> config \<Rightarrow> domainOp \<Rightarrow> domainDB \<Rightarrow> domainDB option" where
  "domainStep punify cfg (OpCreateAllow f a) st = Some (fst (createDomainAllow punify f a st))"
| "domainStep punify cfg (OpDeleteAllow f d) st = Some (fst (deleteDomainAllow punify f d st))"
| "domainStep punify cfg (OpCreateBlock f b) st = Some (fst (createDomainBlock punify f b st))"
| "domainStep punify cfg (OpDeleteBlock f d) st = Some (fst (deleteDomainBlock punify f d st))"
| "domainStep punify cfg (OpIsBlocked fa fb d) st =
     map_option fst (isDomainBlocked punify cfg fa fb d st)"

fun domainRun :: "punifyF \<Rightarrow> config \<Rightarrow> domainOp list \<Rightarrow> domainDB \<Rightarrow> domainDB option" where
  "domainRun punify cfg [] st = Some st"
| "domainRun punify cfg (op # ops) st =
     (case domainStep punify cfg op st of None \<Rightarrow> None | Some st' \<Rightarrow> domainRun punify cfg ops st')"

text \<open>The invariant: each cache is empty or was loaded from the present table.\<close>

definition domainInv :: "domainDB \<Rightarrow> bool" where
  "domainInv st \<longleftrightarrow> dcoherent (allowCache st) (map dpDomain (domainAllows st)) \<and>
     dcoherent (blockCache st) (map dpDomain (domainBlocks st))"

text \<open>What \<open>IsDomainBlocked\<close> is to return, read off the tables alone.\<close>

definition blockedSpec :: "punifyF \<Rightarrow> config \<Rightarrow> domainDB \<Rightarrow> string \<Rightarrow> db_error + bool" where
  "blockedSpec punify cfg st domain =
     (case punify domain of
        Inl e \<Rightarrow> Inl e
      | Inr d \<Rightarrow>
          if ownDomain cfg d then Inr False
          else federationVerdict (cfgFederationMode cfg)
                 (covers (map dpDomain (domainAllows st)) d)
                 (covers (map dpDomain (domainBlocks st)) d))"

lemma domainInv_new: "domainInv newDomainDB"
  by (simp add: domainInv_def newDomainDB_def)

lemma domainInv_writes [inv_intros]:
  assumes "domainInv st"
  shows "domainInv (fst (createDomainAllow punify f a st))"
    and "domainInv (fst (deleteDomainAllow punify f d st))"
    and "domainInv (fst (createDomainBlock punify f a st))"
    and "domainInv (fst (deleteDomainBlock punify f d st))"
  using assms
  by (auto simp: createDomainAllow_def deleteDomainAllow_def createDomainBlock_def
      deleteDomainBlock_def domainInv_def split: sum.split)

text \<open>
  Asking never changes the tables, never panics, keeps the caches current, and answers
  as specified unless a query fails, when it may return that error instead.
\<close>

lemma isDomainBlocked_spec:
  assumes inv: "domainInv st"
  shows "\<exists>st' r. isDomainBlocked punify cfg fa fb domain st = Some (st', r) \<and> domainInv st' \<and>
    domainAllows st' = domainAllows st \<and> domainBlocks st' = domainBlocks st \<and>
    (r = blockedSpec punify cfg st domain \<or> (\<exists>e. r = Inl e \<and> (fa = Some e \<or> fb = Some e)))"
proof (cases "punify domain")
  case (Inl e)
  with inv show ?thesis by (simp add: isDomainBlocked_def blockedSpec_def)
next
  case (Inr d)
  show ?thesis
  proof (cases "ownDomain cfg d")
    case True
    with Inr inv show ?thesis by (simp add: isDomainBlocked_def blockedSpec_def)
  next
    case False
    let ?A = "map dpDomain (domainAllows st)" and ?B = "map dpDomain (domainBlocks st)"
    from inv have co: "dcoherent (allowCache st) ?A" "dcoherent (blockCache st) ?B"
      by (auto simp: domainInv_def)
    obtain ac ra where a: "matches (allowCache st) d (selectDomains fa (domainAllows st)) = Some (ac, ra)"
        "dcoherent ac ?A" "ra = Inr (covers ?A d) \<or> (\<exists>e. fa = Some e \<and> ra = Inl e)"
      using dom.query_loaded [OF co(1), of d] dom.query_failed [OF co(1), of d "the fa"]
      by (cases fa) (auto simp: selectDomains_def)
    obtain bc rb where b: "matches (blockCache st) d (selectDomains fb (domainBlocks st)) = Some (bc, rb)"
        "dcoherent bc ?B" "rb = Inr (covers ?B d) \<or> (\<exists>e. fb = Some e \<and> rb = Inl e)"
      using dom.query_loaded [OF co(2), of d] dom.query_failed [OF co(2), of d "the fb"]
      by (cases fb) (auto simp: selectDomains_def)
    from a b co Inr False show ?thesis
      by (auto simp: isDomainBlocked_def blockedSpec_def domainInv_def Let_def)
  qed
qed

lemma domainStep_inv:
  assumes "domainInv st"
  shows "\<exists>st'. domainStep punify cfg op st = Some st' \<and> domainInv st'"
proof (cases op)
  case (OpIsBlocked fa fb d)
  with isDomainBlocked_spec [OF assms, of punify cfg fa fb d] show ?thesis by auto
qed (simp_all add: domainInv_writes [OF assms])

lemma domainRun_inv:
  "domainInv st \<Longrightarrow> \<exists>st'. domainRun punify cfg ops st = Some st' \<and> domainInv st'"
proof (induction ops arbitrary: st)
  case (Cons op ops)
  obtain st' where "domainStep punify cfg op st = Some st'" "domainInv st'"
    using domainStep_inv [OF Cons.prems] by blast
  with Cons.IH show ?case by simp
qed simp

lemma isDomainBlocked_no_fault:
  assumes "domainInv st"
  shows "\<exists>st'. isDomainBlocked punify cfg None None d st = Some (st', blockedSpec punify cfg st d) \<and>
    domainInv st' \<and> domainAllows st' = domainAllows st \<and> domainBlocks st' = domainBlocks st"
  using isDomainBlocked_spec [OF assms, of punify cfg None None d] by auto

text \<open>
  C13. After any history of creating and deleting domain allows and blocks, of questions and
  of failing queries, \<open>IsDomainBlocked\<close> answers about the tables as they now are: the
  caches are never stale, and the answer is the federation mode's verdict on whether an
  allow and whether a block covers the domain (by itself or by a parent domain).
\<close>

theorem isDomainBlocked_current:
  "\<exists>st. domainRun punify cfg ops newDomainDB = Some st \<and>
    map_option snd (isDomainBlocked punify cfg None None d st) = Some (blockedSpec punify cfg st d)"
  using domainRun_inv [OF domainInv_new, of punify cfg ops]
    isDomainBlocked_no_fault [of _ punify cfg d] by fastforce

text \<open>
  \<open>AreDomainsBlocked\<close> in such a state reports a block exactly when one of the domains
  is blocked, as long as none of the domains before it gives an error.
\<close>

lemma areDomainsBlocked_inv:
  assumes "domainInv st" and "\<forall>d \<in> set ds. \<exists>b. blockedSpec punify cfg st d = Inr b"
  shows "map_option snd (areDomainsBlocked punify cfg None None ds st) =
    Some (Inr (\<exists>d \<in> set ds. blockedSpec punify cfg st d = Inr True))"
  using assms
proof (induction ds arbitrary: st)
  case (Cons d ds)
  from isDomainBlocked_no_fault [OF Cons.prems(1)] obtain st' where
    st': "isDomainBlocked punify cfg None None d st = Some (st', blockedSpec punify cfg st d)"
    "domainInv st'" "domainAllows st' = domainAllows st" "domainBlocks st' = domainBlocks st"
    by blast
  have same: "blockedSpec punify cfg st' = blockedSpec punify cfg st"
    unfolding blockedSpec_def st'(3,4) ..
  from Cons.prems(2) obtain b where b: "blockedSpec punify cfg st d = Inr b" by auto
  show ?case
  proof (cases b)
    case False
    with Cons.IH [OF st'(2)] Cons.prems(2) same st'(1) b show ?thesis by simp
  qed (use st'(1) b in simp)
qed simp

text \<open>
  Blocking a domain takes effect at once and for its subdomains: in blocklist mode, when
  \<open>CreateDomainBlock\<close> succeeds in any reachable state and no allow covers the queried
  domain, the domain itself and everything below it is reported as blocked.
\<close>

theorem createDomainBlock_effective:
  assumes "domainRun punify cfg ops newDomainDB = Some st"
    and "cfgFederationMode cfg = ''blocklist''"
    and "createDomainBlock punify f block st = (st', Inr ())"
    and "punify (dpDomain block) = Inr d" and "punify q = Inr q'" and "\<not> ownDomain cfg q'"
    and "suffix (splitOn CHR ''.'' d) (splitOn CHR ''.'' q')"
    and "\<not> covers (map dpDomain (domainAllows st)) q'"
  shows "map_option snd (isDomainBlocked punify cfg None None q st') = Some (Inr True)"
proof -
  have "domainInv st"
    using domainRun_inv [OF domainInv_new, of punify cfg ops] assms(1) by auto
  then have "domainInv st'"
    using domainInv_writes(3) [of st punify f block] assms(3) by simp
  moreover have "d \<in> dpDomain ` set (domainBlocks st')" "domainAllows st' = domainAllows st"
    using assms(3,4)
    by (auto simp: createDomainBlock_def insertPerm_def split: sum.splits option.splits if_splits)
  then have "covers (map dpDomain (domainBlocks st')) q'"
      "\<not> covers (map dpDomain (domainAllows st')) q'"
    using assms(7,8) by (auto simp: covers_def)
  ultimately show ?thesis
    using isDomainBlocked_no_fault [of st' punify cfg q] assms(2,5,6)
    by (auto simp: blockedSpec_def federationVerdict_def)
qed

definition exCfg :: config where
  "exCfg = \<lparr>cfgHost = ''gts.org'', cfgAccountDomain = ''gts.org'',
     cfgFederationMode = ''blocklist''\<rparr>"

theorem createDomainBlock_effective_witness:
  "map_option snd (isDomainBlocked Inr exCfg None None ''a.bad.org''
     (fst (createDomainBlock Inr None \<lparr>dpID = ''1'', dpDomain = ''bad.org''\<rparr> newDomainDB))) =
   Some (Inr True)"
proof (rule createDomainBlock_effective [where ops = "[]" and st = newDomainDB and f = None
      and block = "\<lparr>dpID = ''1'', dpDomain = ''bad.org''\<rparr>" and d = "''bad.org''"
      and q' = "''a.bad.org''"])
  show "createDomainBlock Inr None \<lparr>dpID = ''1'', dpDomain = ''bad.org''\<rparr> newDomainDB =
      (fst (createDomainBlock Inr None \<lparr>dpID = ''1'', dpDomain = ''bad.org''\<rparr> newDomainDB), Inr ())"
    by (simp add: createDomainBlock_def insertPerm_def newDomainDB_def)
qed (simp_all add: exCfg_def ownDomain_def newDomainDB_def covers_def suffix_def)

end
