(* ===== verification/HeaderFilters.thy ===== *)
theory HeaderFilters
  imports SnapshotCache "HOL-Library.Word"
begin

text \<open>
  HTTP request header filters: the compiled filters of \<open>src/internal/headerfilter\<close>,
  their cache in \<open>src/internal/cache/headerfilter\<close>, the two tables and operations of
  \<open>src/internal/db/bundb/headerfilter.go\<close>, and the middleware of
  \<open>src/internal/middleware/headerfilter.go\<close>.

  The engine of \<open>regexp\<close> is a parameter: \<open>compiles\<close> says whether a source text compiles,
  \<open>ms\<close> whether the expression matches a value. A compiled expression is represented by
  its source, which is what \<open>String()\<close> returns. An \<open>http.Header\<close> is a function from keys
  to the list of values, empty where the key is missing.
\<close>

subsection \<open>Canonical header keys (\<open>textproto.CanonicalMIMEHeaderKey\<close>)\<close>

definition validHeaderFieldByte :: "char \<Rightarrow> bool" where
  "validHeaderFieldByte c \<longleftrightarrow> isUpperC c \<or> isLowerC c \<or>
     (48 \<le> (of_char c :: nat) \<and> (of_char c :: nat) \<le> 57) \<or>
     c \<in> set [CHR ''!'', CHR ''#'', CHR ''$'', CHR ''%'', CHR ''&'', CHR 0x27, CHR ''*'', CHR ''+'',
              CHR ''-'', CHR ''.'', CHR ''^'', CHR ''_'', CHR 0x60, CHR ''|'', CHR ''~'']"

fun canonLoop :: "bool \<Rightarrow> string \<Rightarrow> string" where
  "canonLoop upper [] = []"
| "canonLoop upper (c # cs) =
     (if upper then toUpperC c else toLowerC c) # canonLoop (c = CHR ''-'') cs"

definition canonicalKey :: "string \<Rightarrow> string" where
  "canonicalKey k = (if list_all validHeaderFieldByte k then canonLoop True k else k)"

subsection \<open>Filters\<close>

type_synonym header = "string \<Rightarrow> string list"

record headerfilter =
  hfKey :: string
  hfExprs :: "string list"

datatype hfError = LargeHeaderValue | CompileError string | LoadError db_error

definition MaxHeaderValue :: nat where
  "MaxHeaderValue = 1024"

text \<open>
  \<open>Filters.Append\<close>. A new filter is appended before the expression is compiled, so a
  failing call leaves a filter without expressions behind, next to its error.
\<close>

definition appendFilter :: "(string \<Rightarrow> bool) \<Rightarrow> string \<Rightarrow> string \<Rightarrow> headerfilter list \<Rightarrow>
    headerfilter list \<times> (hfError + unit)" where
  "appendFilter compiles rawkey expr fs =
     (let key = canonicalKey rawkey;
          fs1 = (case find (\<lambda>f. hfKey f = key) fs of
                   Some _ \<Rightarrow> fs
                 | None \<Rightarrow> fs @ [\<lparr>hfKey = key, hfExprs = []\<rparr>])
      in if \<not> compiles expr then (fs1, Inl (CompileError expr))
         else (map_first (\<lambda>f. hfKey f = key) (\<lambda>f. f\<lparr>hfExprs := hfExprs f @ [expr]\<rparr>) fs1, Inr ()))"

text \<open>
  The three nested loops of \<open>RegularMatch\<close> and \<open>InverseMatch\<close>, which differ in the
  test alone. The inner loops return \<open>None\<close> to go on with the next item.
\<close>

fun valueLoop :: "(string \<Rightarrow> string \<Rightarrow> bool) \<Rightarrow> headerfilter \<Rightarrow> string list \<Rightarrow>
    (hfError + string \<times> string) option" where
  "valueLoop test f [] = None"
| "valueLoop test f (v # vs) =
     (if MaxHeaderValue < length v then Some (Inl LargeHeaderValue)
      else (case find (\<lambda>expr. test expr v) (hfExprs f) of
              Some expr \<Rightarrow> Some (Inr (hfKey f, expr))
            | None \<Rightarrow> valueLoop test f vs))"

fun filterLoop :: "(string \<Rightarrow> string \<Rightarrow> bool) \<Rightarrow> headerfilter list \<Rightarrow> header \<Rightarrow>
    hfError + string \<times> string" where
  "filterLoop test [] h = Inr ([], [])"
| "filterLoop test (f # fs) h =
     (case valueLoop test f (h (hfKey f)) of
        Some r \<Rightarrow> r
      | None \<Rightarrow> filterLoop test fs h)"

definition regularMatch :: "(string \<Rightarrow> string \<Rightarrow> bool) \<Rightarrow> headerfilter list \<Rightarrow> header \<Rightarrow>
    hfError + string \<times> string" where
  "regularMatch ms = filterLoop ms"

definition inverseMatch :: "(string \<Rightarrow> string \<Rightarrow> bool) \<Rightarrow> headerfilter list \<Rightarrow> header \<Rightarrow>
    hfError + string \<times> string" where
  "inverseMatch ms = filterLoop (\<lambda>expr v. \<not> ms expr v)"

subsection \<open>The cache\<close>

record hfRow =
  hfID :: id_t
  hfHeader :: string
  hfRegex :: string
  hfUpdatedAt :: time

record hcache =
  hptr :: "headerfilter list option"

fun appendRows :: "(string \<Rightarrow> bool) \<Rightarrow> hfRow list \<Rightarrow> headerfilter list \<Rightarrow>
    hfError + headerfilter list" where
  "appendRows compiles [] fs = Inr fs"
| "appendRows compiles (r # rs) fs =
     (case appendFilter compiles (hfHeader r) (hfRegex r) fs of
        (_, Inl e) \<Rightarrow> Inl e
      | (fs', Inr _) \<Rightarrow> appendRows compiles rs fs')"

definition loadFilters :: "(string \<Rightarrow> bool) \<Rightarrow> db_error + hfRow list \<Rightarrow>
    hfError + headerfilter list" where
  "loadFilters compiles load =
     (case load of Inl e \<Rightarrow> Inl (LoadError e) | Inr rows \<Rightarrow> appendRows compiles rows [])"

definition cacheRegularMatch :: "(string \<Rightarrow> bool) \<Rightarrow> (string \<Rightarrow> string \<Rightarrow> bool) \<Rightarrow> hcache \<Rightarrow> header \<Rightarrow>
    db_error + hfRow list \<Rightarrow> hcache \<times> (hfError + string \<times> string)" where
  "cacheRegularMatch compiles ms c h load =
     (case hptr c of
        Some fs \<Rightarrow> (c, regularMatch ms fs h)
      | None \<Rightarrow>
          (case loadFilters compiles load of
             Inl e \<Rightarrow> (c, Inl e)
           | Inr fs \<Rightarrow> (c\<lparr>hptr := Some fs\<rparr>, regularMatch ms fs h)))"

definition cacheInverseMatch :: "(string \<Rightarrow> bool) \<Rightarrow> (string \<Rightarrow> string \<Rightarrow> bool) \<Rightarrow> hcache \<Rightarrow> header \<Rightarrow>
    db_error + hfRow list \<Rightarrow> hcache \<times> (hfError + string \<times> string)" where
  "cacheInverseMatch compiles ms c h load =
     (case hptr c of
        Some fs \<Rightarrow> (c, inverseMatch ms fs h)
      | None \<Rightarrow>
          (case loadFilters compiles load of
             Inl e \<Rightarrow> (c, Inl e)
           | Inr fs \<Rightarrow> (c\<lparr>hptr := Some fs\<rparr>, inverseMatch ms fs h)))"

definition hclear :: "hcache \<Rightarrow> hcache" where
  "hclear c = c\<lparr>hptr := None\<rparr>"

subsection \<open>The tables and their operations\<close>

record hdrState =
  allowRows :: "hfRow list"
  blockRows :: "hfRow list"
  allowHF :: hcache
  blockHF :: hcache
  allowMatches :: "string \<Rightarrow> 64 word"
  blockMatches :: "string \<Rightarrow> 64 word"

definition newHdrState :: hdrState where
  "newHdrState = \<lparr>allowRows = [], blockRows = [], allowHF = \<lparr>hptr = None\<rparr>,
     blockHF = \<lparr>hptr = None\<rparr>, allowMatches = (\<lambda>_. 0), blockMatches = (\<lambda>_. 0)\<rparr>"

definition getRows :: "db_error option \<Rightarrow> hfRow list \<Rightarrow> db_error + hfRow list" where
  "getRows f rows = (case f of Some e \<Rightarrow> Inl e | None \<Rightarrow> Inr rows)"

definition getRow :: "db_error option \<Rightarrow> id_t \<Rightarrow> hfRow list \<Rightarrow> db_error + hfRow" where
  "getRow f i rows =
     (case f of
        Some e \<Rightarrow> Inl e
      | None \<Rightarrow> (case find (\<lambda>r. hfID r = i) rows of None \<Rightarrow> Inl ErrNoEntries | Some r \<Rightarrow> Inr r))"

definition allowHeaderRegularMatch where
  "allowHeaderRegularMatch compiles ms f h st =
     (let (c, r) = cacheRegularMatch compiles ms (allowHF st) h (getRows f (allowRows st))
      in (st\<lparr>allowHF := c\<rparr>, r))"

definition allowHeaderInverseMatch where
  "allowHeaderInverseMatch compiles ms f h st =
     (let (c, r) = cacheInverseMatch compiles ms (allowHF st) h (getRows f (allowRows st))
      in (st\<lparr>allowHF := c\<rparr>, r))"

definition blockHeaderRegularMatch where
  "blockHeaderRegularMatch compiles ms f h st =
     (let (c, r) = cacheRegularMatch compiles ms (blockHF st) h (getRows f (blockRows st))
      in (st\<lparr>blockHF := c\<rparr>, r))"

definition blockHeaderInverseMatch where
  "blockHeaderInverseMatch compiles ms f h st =
     (let (c, r) = cacheInverseMatch compiles ms (blockHF st) h (getRows f (blockRows st))
      in (st\<lparr>blockHF := c\<rparr>, r))"

definition insertRow :: "db_error option \<Rightarrow> hfRow \<Rightarrow> hfRow list \<Rightarrow> db_error + hfRow list" where
  "insertRow f row rows =
     (case f of
        Some e \<Rightarrow> Inl e
      | None \<Rightarrow> if hfID row \<in> hfID ` set rows then Inl ErrAlreadyExists else Inr (rows @ [row]))"

text \<open>
  An update by columns writes the named columns, or all of them when none is named; the
  caller's model was stamped with the current time, and \<open>updated_at\<close> is always written.
\<close>

definition updateRow :: "db_error option \<Rightarrow> time \<Rightarrow> hfRow \<Rightarrow> string list \<Rightarrow> hfRow list \<Rightarrow>
    db_error + hfRow list" where
  "updateRow f now row cols rows =
     (case f of
        Some e \<Rightarrow> Inl e
      | None \<Rightarrow> Inr (map (\<lambda>r. if hfID r = hfID row
          then r\<lparr>hfHeader := if cols = [] \<or> ''header'' \<in> set cols then hfHeader row else hfHeader r,
                 hfRegex := if cols = [] \<or> ''regex'' \<in> set cols then hfRegex row else hfRegex r,
                 hfUpdatedAt := now\<rparr>
          else r) rows))"

definition deleteRow :: "db_error option \<Rightarrow> id_t \<Rightarrow> hfRow list \<Rightarrow> db_error + hfRow list" where
  "deleteRow f i rows =
     (case f of Some e \<Rightarrow> Inl e | None \<Rightarrow> Inr (filter (\<lambda>r. hfID r \<noteq> i) rows))"

definition putAllowHeaderFilter :: "db_error option \<Rightarrow> hfRow \<Rightarrow> hdrState \<Rightarrow> hdrState \<times> (db_error + unit)" where
  "putAllowHeaderFilter f row st =
     (case insertRow f row (allowRows st) of
        Inl e \<Rightarrow> (st, Inl e)
      | Inr rows \<Rightarrow> (st\<lparr>allowRows := rows, allowHF := hclear (allowHF st)\<rparr>, Inr ()))"

definition putBlockHeaderFilter :: "db_error option \<Rightarrow> hfRow \<Rightarrow> hdrState \<Rightarrow> hdrState \<times> (db_error + unit)" where
  "putBlockHeaderFilter f row st =
     (case insertRow f row (blockRows st) of
        Inl e \<Rightarrow> (st, Inl e)
      | Inr rows \<Rightarrow> (st\<lparr>blockRows := rows, blockHF := hclear (blockHF st)\<rparr>, Inr ()))"

definition updateAllowHeaderFilter ::
    "db_error option \<Rightarrow> time \<Rightarrow> hfRow \<Rightarrow> string list \<Rightarrow> hdrState \<Rightarrow> hdrState \<times> (db_error + unit)" where
  "updateAllowHeaderFilter f now row cols st =
     (case updateRow f now row cols (allowRows st) of
        Inl e \<Rightarrow> (st, Inl e)
      | Inr rows \<Rightarrow> (st\<lparr>allowRows := rows, allowHF := hclear (allowHF st)\<rparr>, Inr ()))"

definition updateBlockHeaderFilter ::
    "db_error option \<Rightarrow> time \<Rightarrow> hfRow \<Rightarrow> string list \<Rightarrow> hdrState \<Rightarrow> hdrState \<times> (db_error + unit)" where
  "updateBlockHeaderFilter f now row cols st =
     (case updateRow f now row cols (blockRows st) of
        Inl e \<Rightarrow> (st, Inl e)
      | Inr rows \<Rightarrow> (st\<lparr>blockRows := rows, blockHF := hclear (blockHF st)\<rparr>, Inr ()))"

definition deleteAllowHeaderFilter :: "db_error option \<Rightarrow> id_t \<Rightarrow> hdrState \<Rightarrow> hdrState \<times> (db_error + unit)" where
  "deleteAllowHeaderFilter f i st =
     (case deleteRow f i (allowRows st) of
        Inl e \<Rightarrow> (st, Inl e)
      | Inr rows \<Rightarrow> (st\<lparr>allowRows := rows, allowHF := hclear (allowHF st)\<rparr>, Inr ()))"

definition deleteBlockHeaderFilter :: "db_error option \<Rightarrow> id_t \<Rightarrow> hdrState \<Rightarrow> hdrState \<times> (db_error + unit)" where
  "deleteBlockHeaderFilter f i st =
     (case deleteRow f i (blockRows st) of
        Inl e \<Rightarrow> (st, Inl e)
      | Inr rows \<Rightarrow> (st\<lparr>blockRows := rows, blockHF := hclear (blockHF st)\<rparr>, Inr ()))"

subsection \<open>The middleware\<close>

text \<open>\<open>matchstats.Add\<close>: one more match of a header and expression, a wrapping counter.\<close>

definition statsAdd :: "string \<Rightarrow> string \<Rightarrow> (string \<Rightarrow> 64 word) \<Rightarrow> (string \<Rightarrow> 64 word)" where
  "statsAdd hdr regex m = (let key = hdr @ '':'' @ regex in m(key := m key + 1))"

datatype response = PassOn | Blocked403 | InternalError500

definition isHeaderBlocked where
  "isHeaderBlocked compiles ms f h st =
     (let (st', r) = blockHeaderRegularMatch compiles ms f h st in
      case r of
        Inl LargeHeaderValue \<Rightarrow> (st', Inr True)
      | Inl e \<Rightarrow> (st', Inl e)
      | Inr (key, expr) \<Rightarrow>
          if key \<noteq> [] then
            (if expr \<noteq> [] then st'\<lparr>blockMatches := statsAdd key expr (blockMatches st')\<rparr> else st',
             Inr True)
          else (st', Inr False))"

definition isHeaderAllowed where
  "isHeaderAllowed compiles ms f h st =
     (let (st', r) = allowHeaderRegularMatch compiles ms f h st in
      case r of
        Inl LargeHeaderValue \<Rightarrow> (st', Inr False)
      | Inl e \<Rightarrow> (st', Inl e)
      | Inr (key, expr) \<Rightarrow>
          if key \<noteq> [] then
            (if expr \<noteq> [] then st'\<lparr>allowMatches := statsAdd key expr (allowMatches st')\<rparr> else st',
             Inr True)
          else (st', Inr False))"

definition isHeaderNotAllowed where
  "isHeaderNotAllowed compiles ms f h st =
     (let (st', r) = allowHeaderInverseMatch compiles ms f h st in
      case r of
        Inl LargeHeaderValue \<Rightarrow> (st', Inr True)
      | Inl e \<Rightarrow> (st', Inl e)
      | Inr (key, expr) \<Rightarrow>
          if key \<noteq> [] then
            (if expr \<noteq> [] then st'\<lparr>allowMatches := statsAdd key expr (allowMatches st')\<rparr> else st',
             Inr True)
          else (st', Inr False))"

text \<open>The faults are those of the loaders of the block filters and of the allow filters.\<close>

definition headerFilterAllowMode where
  "headerFilterAllowMode compiles ms fb fa h st =
     (let (st1, block) = isHeaderBlocked compiles ms fb h st in
      case block of
        Inl e \<Rightarrow> (st1, InternalError500)
      | Inr True \<Rightarrow> (st1, Blocked403)
      | Inr False \<Rightarrow>
          (let (st2, notAllow) = isHeaderNotAllowed compiles ms fa h st1 in
           case notAllow of
             Inl e \<Rightarrow> (st2, InternalError500)
           | Inr True \<Rightarrow> (st2, Blocked403)
           | Inr False \<Rightarrow> (st2, PassOn)))"

definition headerFilterBlockMode where
  "headerFilterBlockMode compiles ms fb fa h st =
     (let (st1, allow) = isHeaderAllowed compiles ms fa h st in
      case allow of
        Inl e \<Rightarrow> (st1, InternalError500)
      | Inr True \<Rightarrow> (st1, PassOn)
      | Inr False \<Rightarrow>
          (let (st2, block) = isHeaderBlocked compiles ms fb h st1 in
           case block of
             Inl e \<Rightarrow> (st2, InternalError500)
           | Inr True \<Rightarrow> (st2, Blocked403)
           | Inr False \<Rightarrow> (st2, PassOn)))"

text \<open>\<open>HeaderFilter\<close>: the handler of the configured mode; \<open>None\<close> is the panic.\<close>

definition headerFilter where
  "headerFilter mode compiles ms fb fa h st =
     (if mode = '''' then Some (st, PassOn)
      else if mode = ''allow'' then Some (headerFilterAllowMode compiles ms fb fa h st)
      else if mode = ''block'' then Some (headerFilterBlockMode compiles ms fb fa h st)
      else None)"

subsection \<open>What the loops compute\<close>

text \<open>The pairs of a header key and an expression that a list of filters holds.\<close>

definition pairs :: "headerfilter list \<Rightarrow> (string \<times> string) set" where
  "pairs fs = {(hfKey f, e) | f e. f \<in> set fs \<and> e \<in> set (hfExprs f)}"

lemma pairs_append: "pairs (fs @ gs) = pairs fs \<union> pairs gs"
  by (auto simp: pairs_def)

lemma pairs_Cons: "pairs (f # fs) = Pair (hfKey f) ` set (hfExprs f) \<union> pairs fs"
  by (auto simp: pairs_def)

lemma pairs_Nil [simp]: "pairs [] = {}"
  by (simp add: pairs_def)

lemma pairs_map_first:
  "\<exists>f \<in> set fs. hfKey f = k \<Longrightarrow>
    pairs (map_first (\<lambda>f. hfKey f = k) (\<lambda>f. f\<lparr>hfExprs := hfExprs f @ [e]\<rparr>) fs) =
    insert (k, e) (pairs fs)"
  by (induction fs) (auto simp: pairs_Cons)

lemma appendFilter_ok:
  assumes "compiles e"
  shows "\<exists>fs'. appendFilter compiles k e fs = (fs', Inr ()) \<and>
    pairs fs' = insert (canonicalKey k, e) (pairs fs)"
proof (cases "find (\<lambda>f. hfKey f = canonicalKey k) fs")
  case None
  with assms show ?thesis
    by (simp add: appendFilter_def pairs_map_first pairs_append pairs_Cons Let_def)
next
  case (Some f)
  then have "f \<in> set fs" "hfKey f = canonicalKey k" using find_Some_set by fastforce+
  then have "\<exists>f \<in> set fs. hfKey f = canonicalKey k" by blast
  with assms Some show ?thesis by (simp add: appendFilter_def pairs_map_first Let_def)
qed

lemma appendRows_ok:
  "\<forall>r \<in> set rows. compiles (hfRegex r) \<Longrightarrow>
    \<exists>fs'. appendRows compiles rows fs = Inr fs' \<and>
      pairs fs' = pairs fs \<union> (\<lambda>r. (canonicalKey (hfHeader r), hfRegex r)) ` set rows"
proof (induction rows arbitrary: fs)
  case (Cons r rows)
  from Cons.prems have "compiles (hfRegex r)" by simp
  from appendFilter_ok [where k = "hfHeader r" and fs = fs, of compiles, OF this] obtain fs1 where fs1:
    "appendFilter compiles (hfHeader r) (hfRegex r) fs = (fs1, Inr ())"
    "pairs fs1 = insert (canonicalKey (hfHeader r), hfRegex r) (pairs fs)" by blast
  from Cons.prems have "\<forall>r \<in> set rows. compiles (hfRegex r)" by simp
  from Cons.IH [OF this, of fs1] obtain fs2 where
    "appendRows compiles rows fs1 = Inr fs2"
    "pairs fs2 = pairs fs1 \<union> (\<lambda>r. (canonicalKey (hfHeader r), hfRegex r)) ` set rows" by blast
  with fs1 show ?case by simp
qed simp

text \<open>A header whose values under the filtered keys are all of moderate size.\<close>

definition moderate :: "headerfilter list \<Rightarrow> header \<Rightarrow> bool" where
  "moderate fs h \<longleftrightarrow> (\<forall>f \<in> set fs. \<forall>v \<in> set (h (hfKey f)). length v \<le> MaxHeaderValue)"

lemma valueLoop_moderate:
  "\<forall>v \<in> set vs. length v \<le> MaxHeaderValue \<Longrightarrow>
    valueLoop test f vs = None \<and> \<not> (\<exists>v \<in> set vs. \<exists>e \<in> set (hfExprs f). test e v) \<or>
    (\<exists>v \<in> set vs. \<exists>e \<in> set (hfExprs f). test e v \<and> valueLoop test f vs = Some (Inr (hfKey f, e)))"
proof (induction vs)
  case (Cons v vs)
  then have len: "\<not> MaxHeaderValue < length v" by simp
  show ?case
  proof (cases "find (\<lambda>e. test e v) (hfExprs f)")
    case None
    then have "\<forall>e \<in> set (hfExprs f). \<not> test e v" by (simp add: find_None_set)
    with None len Cons show ?thesis by auto
  next
    case (Some e)
    then have "e \<in> set (hfExprs f)" "test e v" using find_Some_set by fastforce+
    with Some len show ?thesis by auto
  qed
qed simp

definition hits :: "(string \<Rightarrow> string \<Rightarrow> bool) \<Rightarrow> headerfilter list \<Rightarrow> header \<Rightarrow> bool" where
  "hits test fs h \<longleftrightarrow> (\<exists>k e v. (k, e) \<in> pairs fs \<and> v \<in> set (h k) \<and> test e v)"

lemma hits_Cons:
  "hits test (f # fs) h \<longleftrightarrow>
    (\<exists>v \<in> set (h (hfKey f)). \<exists>e \<in> set (hfExprs f). test e v) \<or> hits test fs h"
  by (auto simp: hits_def pairs_Cons)

lemma filterLoop_moderate:
  "moderate fs h \<Longrightarrow>
    filterLoop test fs h = Inr ([], []) \<and> \<not> hits test fs h \<or>
    hits test fs h \<and> (\<exists>k e. (k, e) \<in> pairs fs \<and> filterLoop test fs h = Inr (k, e))"
proof (induction fs)
  case Nil
  then show ?case by (simp add: hits_def)
next
  case (Cons f fs)
  then have m: "\<forall>v \<in> set (h (hfKey f)). length v \<le> MaxHeaderValue" "moderate fs h"
    by (simp_all add: moderate_def)
  from valueLoop_moderate [OF m(1), where test = test and f = f] show ?case
  proof (elim disjE conjE bexE)
    assume "valueLoop test f (h (hfKey f)) = None"
      and "\<not> (\<exists>v \<in> set (h (hfKey f)). \<exists>e \<in> set (hfExprs f). test e v)"
    then have "filterLoop test (f # fs) h = filterLoop test fs h"
        "hits test (f # fs) h = hits test fs h"
      by (simp_all add: hits_Cons)
    with Cons.IH [OF m(2)] show ?thesis by (auto simp: pairs_Cons)
  next
    fix v e assume "v \<in> set (h (hfKey f))" "e \<in> set (hfExprs f)" "test e v"
      and "valueLoop test f (h (hfKey f)) = Some (Inr (hfKey f, e))"
    then show ?thesis by (auto simp: pairs_Cons hits_Cons)
  qed
qed

subsection \<open>The cached matches keep the contract of a snapshot cache\<close>

definition hcoherent :: "(string \<Rightarrow> bool) \<Rightarrow> hcache \<Rightarrow> hfRow list \<Rightarrow> bool" where
  "hcoherent compiles c rows \<longleftrightarrow>
     (case hptr c of None \<Rightarrow> True | Some fs \<Rightarrow> appendRows compiles rows [] = Inr fs)"

definition matchSpec :: "(string \<Rightarrow> bool) \<Rightarrow> (string \<Rightarrow> string \<Rightarrow> bool) \<Rightarrow> hfRow list \<Rightarrow> header \<Rightarrow>
    hfError + string \<times> string" where
  "matchSpec compiles test rows h =
     (case appendRows compiles rows [] of Inl e \<Rightarrow> Inl e | Inr fs \<Rightarrow> filterLoop test fs h)"

lemma hcoherent_clear [simp]: "hcoherent compiles (hclear c) rows"
  by (simp add: hcoherent_def hclear_def)

interpretation reg: snapshot_cache
  "\<lambda>c h load. Some (cacheRegularMatch compiles ms c h load)" hclear "hcoherent compiles"
  "matchSpec compiles ms" LoadError
  for compiles ms
  by unfold_locales
    (auto simp: cacheRegularMatch_def hcoherent_def hclear_def matchSpec_def loadFilters_def
      regularMatch_def split: option.splits sum.splits)

interpretation inverse: snapshot_cache
  "\<lambda>c h load. Some (cacheInverseMatch compiles ms c h load)" hclear "hcoherent compiles"
  "matchSpec compiles (\<lambda>e v. \<not> ms e v)" LoadError
  for compiles ms
  by unfold_locales
    (auto simp: cacheInverseMatch_def hcoherent_def hclear_def matchSpec_def loadFilters_def
      inverseMatch_def split: option.splits sum.splits)

definition hdrInv :: "(string \<Rightarrow> bool) \<Rightarrow> hdrState \<Rightarrow> bool" where
  "hdrInv compiles st \<longleftrightarrow> hcoherent compiles (allowHF st) (allowRows st) \<and>
     hcoherent compiles (blockHF st) (blockRows st)"


lemma hdrInv_writes [inv_intros]:
  assumes "hdrInv compiles st"
  shows "hdrInv compiles (fst (putAllowHeaderFilter f row st))"
    and "hdrInv compiles (fst (putBlockHeaderFilter f row st))"
    and "hdrInv compiles (fst (updateAllowHeaderFilter f now row cols st))"
    and "hdrInv compiles (fst (updateBlockHeaderFilter f now row cols st))"
    and "hdrInv compiles (fst (deleteAllowHeaderFilter f i st))"
    and "hdrInv compiles (fst (deleteBlockHeaderFilter f i st))"
  using assms
  by (auto simp: hdrInv_def putAllowHeaderFilter_def putBlockHeaderFilter_def
      updateAllowHeaderFilter_def updateBlockHeaderFilter_def deleteAllowHeaderFilter_def
      deleteBlockHeaderFilter_def split: sum.split)

text \<open>
  The three checks keep the invariant and the tables, and without a fault they read
  their answer off the tables.
\<close>

definition sameTables :: "hdrState \<Rightarrow> hdrState \<Rightarrow> bool" where
  "sameTables st st' \<longleftrightarrow> allowRows st' = allowRows st \<and> blockRows st' = blockRows st"

definition verdict :: "bool \<Rightarrow> hfError + string \<times> string \<Rightarrow> hfError + bool" where
  "verdict large r =
     (case r of
        Inl LargeHeaderValue \<Rightarrow> Inr large
      | Inl e \<Rightarrow> Inl e
      | Inr (key, expr) \<Rightarrow> Inr (key \<noteq> []))"

lemma blocked_check:
  assumes "hdrInv compiles st" and "isHeaderBlocked compiles ms f h st = (st', r)"
  shows "hdrInv compiles st' \<and> sameTables st st' \<and>
    (f = None \<longrightarrow> r = verdict True (matchSpec compiles ms (blockRows st) h))"
proof -
  obtain c x where q: "cacheRegularMatch compiles ms (blockHF st) h (getRows f (blockRows st)) = (c, x)"
    by fastforce
  have co: "hcoherent compiles (blockHF st) (blockRows st)" using assms(1) by (simp add: hdrInv_def)
  have "hcoherent compiles c (blockRows st) \<and> (f = None \<longrightarrow> matchSpec compiles ms (blockRows st) h = x)"
    using q reg.query_coherent [OF co] reg.query_result [OF co] reg.query_failed_coherent [OF co]
    by (cases f) (auto simp: getRows_def)
  note c = this and defs = isHeaderBlocked_def blockHeaderRegularMatch_def hdrInv_def sameTables_def verdict_def
  show ?thesis
  proof (cases x)
    case (Inl e)
    with assms q c show ?thesis by (cases e) (auto simp: defs)
  next
    case (Inr p)
    with assms q c show ?thesis by (cases p) (auto simp: defs split: if_splits)
  qed
qed

lemma allowed_check:
  assumes "hdrInv compiles st" and "isHeaderAllowed compiles ms f h st = (st', r)"
  shows "hdrInv compiles st' \<and> sameTables st st' \<and>
    (f = None \<longrightarrow> r = verdict False (matchSpec compiles ms (allowRows st) h))"
proof -
  obtain c x where q: "cacheRegularMatch compiles ms (allowHF st) h (getRows f (allowRows st)) = (c, x)"
    by fastforce
  have co: "hcoherent compiles (allowHF st) (allowRows st)" using assms(1) by (simp add: hdrInv_def)
  have "hcoherent compiles c (allowRows st) \<and> (f = None \<longrightarrow> matchSpec compiles ms (allowRows st) h = x)"
    using q reg.query_coherent [OF co] reg.query_result [OF co] reg.query_failed_coherent [OF co]
    by (cases f) (auto simp: getRows_def)
  note c = this and defs = isHeaderAllowed_def allowHeaderRegularMatch_def hdrInv_def sameTables_def verdict_def
  show ?thesis
  proof (cases x)
    case (Inl e)
    with assms q c show ?thesis by (cases e) (auto simp: defs)
  next
    case (Inr p)
    with assms q c show ?thesis by (cases p) (auto simp: defs split: if_splits)
  qed
qed

lemma notAllowed_check:
  assumes "hdrInv compiles st" and "isHeaderNotAllowed compiles ms f h st = (st', r)"
  shows "hdrInv compiles st' \<and> sameTables st st' \<and>
    (f = None \<longrightarrow> r = verdict True (matchSpec compiles (\<lambda>e v. \<not> ms e v) (allowRows st) h))"
proof -
  obtain c x where q: "cacheInverseMatch compiles ms (allowHF st) h (getRows f (allowRows st)) = (c, x)"
    by fastforce
  have co: "hcoherent compiles (allowHF st) (allowRows st)" using assms(1) by (simp add: hdrInv_def)
  have "hcoherent compiles c (allowRows st) \<and>
      (f = None \<longrightarrow> matchSpec compiles (\<lambda>e v. \<not> ms e v) (allowRows st) h = x)"
    using q inverse.query_coherent [OF co] inverse.query_result [OF co]
      inverse.query_failed_coherent [OF co]
    by (cases f) (auto simp: getRows_def)
  note c = this and defs = isHeaderNotAllowed_def allowHeaderInverseMatch_def hdrInv_def sameTables_def verdict_def
  show ?thesis
  proof (cases x)
    case (Inl e)
    with assms q c show ?thesis by (cases e) (auto simp: defs)
  next
    case (Inr p)
    with assms q c show ?thesis by (cases p) (auto simp: defs split: if_splits)
  qed
qed

subsection \<open>Histories\<close>

datatype hdrOp =
    PutAllow "db_error option" hfRow
  | PutBlock "db_error option" hfRow
  | UpdateAllow "db_error option" time hfRow "string list"
  | UpdateBlock "db_error option" time hfRow "string list"
  | DeleteAllow "db_error option" id_t
  | DeleteBlock "db_error option" id_t
  | AllowModeRequest "db_error option" "db_error option" header
  | BlockModeRequest "db_error option" "db_error option" header

fun hdrStep where
  "hdrStep compiles ms (PutAllow f r) st = fst (putAllowHeaderFilter f r st)"
| "hdrStep compiles ms (PutBlock f r) st = fst (putBlockHeaderFilter f r st)"
| "hdrStep compiles ms (UpdateAllow f t r cols) st = fst (updateAllowHeaderFilter f t r cols st)"
| "hdrStep compiles ms (UpdateBlock f t r cols) st = fst (updateBlockHeaderFilter f t r cols st)"
| "hdrStep compiles ms (DeleteAllow f i) st = fst (deleteAllowHeaderFilter f i st)"
| "hdrStep compiles ms (DeleteBlock f i) st = fst (deleteBlockHeaderFilter f i st)"
| "hdrStep compiles ms (AllowModeRequest fb fa h) st =
     fst (headerFilterAllowMode compiles ms fb fa h st)"
| "hdrStep compiles ms (BlockModeRequest fb fa h) st =
     fst (headerFilterBlockMode compiles ms fb fa h st)"

definition hdrRun where
  "hdrRun compiles ms ops = fold (hdrStep compiles ms) ops newHdrState"

lemma hdrInv_allowMode:
  assumes "hdrInv compiles st"
  shows "hdrInv compiles (fst (headerFilterAllowMode compiles ms fb fa h st))"
proof -
  obtain st1 b where b: "isHeaderBlocked compiles ms fb h st = (st1, b)" by fastforce
  obtain st2 n where n: "isHeaderNotAllowed compiles ms fa h st1 = (st2, n)" by fastforce
  from blocked_check [OF assms b] have "hdrInv compiles st1" by blast
  moreover from notAllowed_check [OF this n] have "hdrInv compiles st2" by blast
  ultimately show ?thesis
    using b n by (auto simp: headerFilterAllowMode_def split: sum.split bool.split)
qed

lemma hdrInv_blockMode:
  assumes "hdrInv compiles st"
  shows "hdrInv compiles (fst (headerFilterBlockMode compiles ms fb fa h st))"
proof -
  obtain st1 a where a: "isHeaderAllowed compiles ms fa h st = (st1, a)" by fastforce
  obtain st2 b where b: "isHeaderBlocked compiles ms fb h st1 = (st2, b)" by fastforce
  from allowed_check [OF assms a] have "hdrInv compiles st1" by blast
  moreover from blocked_check [OF this b] have "hdrInv compiles st2" by blast
  ultimately show ?thesis
    using a b by (auto simp: headerFilterBlockMode_def split: sum.split bool.split)
qed

lemma hdrInv_step: "hdrInv compiles st \<Longrightarrow> hdrInv compiles (hdrStep compiles ms op st)"
  by (cases op) (simp_all add: hdrInv_writes hdrInv_allowMode hdrInv_blockMode)

lemma hdrInv_run: "hdrInv compiles (hdrRun compiles ms ops)"
proof -
  have "hdrInv compiles st \<Longrightarrow> hdrInv compiles (fold (hdrStep compiles ms) ops st)" for st
    by (induction ops arbitrary: st) (simp_all add: hdrInv_step)
  moreover have "hdrInv compiles newHdrState"
    by (simp add: hdrInv_def newHdrState_def hcoherent_def)
  ultimately show ?thesis by (simp add: hdrRun_def)
qed

subsection \<open>What the two modes decide\<close>

text \<open>
  A row of a table matches a header when one of the values the header has under the
  row's (canonical) key satisfies the test on the row's expression.
\<close>

definition rowsMatch :: "(string \<Rightarrow> string \<Rightarrow> bool) \<Rightarrow> hfRow list \<Rightarrow> header \<Rightarrow> bool" where
  "rowsMatch test rows h \<longleftrightarrow>
     (\<exists>r \<in> set rows. \<exists>v \<in> set (h (canonicalKey (hfHeader r))). test (hfRegex r) v)"

text \<open>The tables hold named headers with expressions that compile, the header small values.\<close>

definition rowsOK :: "(string \<Rightarrow> bool) \<Rightarrow> hfRow list \<Rightarrow> header \<Rightarrow> bool" where
  "rowsOK compiles rows h \<longleftrightarrow>
     (\<forall>r \<in> set rows. compiles (hfRegex r) \<and> hfHeader r \<noteq> [] \<and>
        (\<forall>v \<in> set (h (canonicalKey (hfHeader r))). length v \<le> MaxHeaderValue))"

lemma canonLoop_Nil: "canonLoop u k = [] \<longleftrightarrow> k = []"
  by (cases k) auto

lemma canonicalKey_Nil [simp]: "canonicalKey k = [] \<longleftrightarrow> k = []"
  by (simp add: canonicalKey_def canonLoop_Nil)

lemma appendFilter_keys:
  "hfKey ` set (fst (appendFilter compiles k e fs)) \<subseteq> insert (canonicalKey k) (hfKey ` set fs)"
proof -
  have same: "hfKey ` set (map_first P (\<lambda>f. f\<lparr>hfExprs := hfExprs f @ [e]\<rparr>) gs) = hfKey ` set gs"
    for P gs
    by (simp add: map_first_map flip: set_map)
  show ?thesis
    by (cases "find (\<lambda>f. hfKey f = canonicalKey k) fs")
      (simp_all add: appendFilter_def Let_def same subset_insertI2)
qed

lemma appendRows_keys:
  "appendRows compiles rows fs = Inr fs' \<Longrightarrow>
    hfKey ` set fs' \<subseteq> hfKey ` set fs \<union> (\<lambda>r. canonicalKey (hfHeader r)) ` set rows"
proof (induction rows arbitrary: fs)
  case (Cons r rows)
  obtain fs1 x where a: "appendFilter compiles (hfHeader r) (hfRegex r) fs = (fs1, Inr x)"
      "appendRows compiles rows fs1 = Inr fs'"
    using Cons.prems by (auto split: prod.splits sum.splits)
  from appendFilter_keys [of compiles "hfHeader r" "hfRegex r" fs] a(1)
  have "hfKey ` set fs1 \<subseteq> insert (canonicalKey (hfHeader r)) (hfKey ` set fs)" by simp
  with Cons.IH [OF a(2)] show ?case by auto
qed simp

lemma verdict_rowsMatch:
  assumes "rowsOK compiles rows h"
  shows "verdict large (matchSpec compiles test rows h) = Inr (rowsMatch test rows h)"
proof -
  from assms have "\<forall>r \<in> set rows. compiles (hfRegex r)" by (simp add: rowsOK_def)
  from appendRows_ok [OF this, of "[]"] obtain fs where fs: "appendRows compiles rows [] = Inr fs"
      "pairs fs = (\<lambda>r. (canonicalKey (hfHeader r), hfRegex r)) ` set rows" by auto
  have "moderate fs h"
    using appendRows_keys [OF fs(1)] assms by (fastforce simp: moderate_def rowsOK_def)
  from filterLoop_moderate [OF this, of test]
  have "verdict large (matchSpec compiles test rows h) = Inr (hits test fs h)"
    using fs assms by (auto simp: matchSpec_def verdict_def rowsOK_def)
  moreover have "hits test fs h = rowsMatch test rows h"
    by (auto simp: hits_def rowsMatch_def fs(2))
  ultimately show ?thesis by simp
qed

text \<open>
  C34. Block mode, after any history of the filter tables and of requests: a request passes
  exactly when an allow filter matches one of its headers or no block filter does; otherwise
  it is answered with 403. (The filters compile and name a header; the filtered
  header values have at most 1024 bytes.)
\<close>

theorem blockMode_decision:
  assumes "st = hdrRun compiles ms ops"
    and "rowsOK compiles (allowRows st) h" and "rowsOK compiles (blockRows st) h"
  shows "snd (headerFilterBlockMode compiles ms None None h st) =
    (if rowsMatch ms (allowRows st) h \<or> \<not> rowsMatch ms (blockRows st) h then PassOn else Blocked403)"
proof -
  have inv: "hdrInv compiles st" unfolding assms(1) by (rule hdrInv_run)
  obtain st1 a where a: "isHeaderAllowed compiles ms None h st = (st1, a)" by fastforce
  obtain st2 b where b: "isHeaderBlocked compiles ms None h st1 = (st2, b)" by fastforce
  from allowed_check [OF inv a] have 1: "hdrInv compiles st1" "blockRows st1 = blockRows st"
      "a = Inr (rowsMatch ms (allowRows st) h)"
    using verdict_rowsMatch [OF assms(2)] by (auto simp: sameTables_def)
  from blocked_check [OF 1(1) b] 1(2) have "b = Inr (rowsMatch ms (blockRows st) h)"
    using verdict_rowsMatch [OF assms(3)] by simp
  with 1(3) a b show ?thesis by (auto simp: headerFilterBlockMode_def split: bool.split)
qed

definition exRows :: "hdrOp list" where
  "exRows = [PutAllow None \<lparr>hfID = ''1'', hfHeader = ''user-agent'', hfRegex = ''good'', hfUpdatedAt = 0\<rparr>,
     PutBlock None \<lparr>hfID = ''2'', hfHeader = ''user-agent'', hfRegex = ''bad'', hfUpdatedAt = 0\<rparr>]"

definition exHeader :: header where
  "exHeader k = (if k = ''User-Agent'' then [''bad''] else [])"

lemma exRows_state:
  "allowRows (hdrRun (\<lambda>_. True) (=) exRows) =
     [\<lparr>hfID = ''1'', hfHeader = ''user-agent'', hfRegex = ''good'', hfUpdatedAt = 0\<rparr>]"
  "blockRows (hdrRun (\<lambda>_. True) (=) exRows) =
     [\<lparr>hfID = ''2'', hfHeader = ''user-agent'', hfRegex = ''bad'', hfUpdatedAt = 0\<rparr>]"
  by (simp_all add: hdrRun_def exRows_def newHdrState_def putAllowHeaderFilter_def
      putBlockHeaderFilter_def insertRow_def)

lemma canonicalKey_example: "canonicalKey ''user-agent'' = ''User-Agent''"
  by code_simp

theorem blockMode_decision_witness:
  "snd (headerFilterBlockMode (\<lambda>_. True) (=) None None exHeader (hdrRun (\<lambda>_. True) (=) exRows)) =
    Blocked403"
proof -
  have ok: "rowsOK (\<lambda>_. True) (allowRows (hdrRun (\<lambda>_. True) (=) exRows)) exHeader"
      "rowsOK (\<lambda>_. True) (blockRows (hdrRun (\<lambda>_. True) (=) exRows)) exHeader"
    by (simp_all add: exRows_state rowsOK_def exHeader_def MaxHeaderValue_def)
  show ?thesis
    unfolding blockMode_decision [OF refl ok]
    by (simp add: exRows_state rowsMatch_def exHeader_def canonicalKey_example)
qed

text \<open>
  Allow mode, in the same states: a request passes exactly when no block filter matches
  and no value of a header that has allow filters fails one of the expressions for it. So
  a request without the filtered headers, or any request when no allow filter exists, passes
  although nothing allows it explicitly (the documentation says it is refused), and a value
  has to match every allow expression for its header.
\<close>

theorem allowMode_decision:
  assumes "st = hdrRun compiles ms ops"
    and "rowsOK compiles (allowRows st) h" and "rowsOK compiles (blockRows st) h"
  shows "snd (headerFilterAllowMode compiles ms None None h st) =
    (if \<not> rowsMatch ms (blockRows st) h \<and>
        (\<forall>r \<in> set (allowRows st). \<forall>v \<in> set (h (canonicalKey (hfHeader r))). ms (hfRegex r) v)
     then PassOn else Blocked403)"
proof -
  have inv: "hdrInv compiles st" unfolding assms(1) by (rule hdrInv_run)
  obtain st1 b where b: "isHeaderBlocked compiles ms None h st = (st1, b)" by fastforce
  obtain st2 n where n: "isHeaderNotAllowed compiles ms None h st1 = (st2, n)" by fastforce
  from blocked_check [OF inv b] have 1: "hdrInv compiles st1" "allowRows st1 = allowRows st"
      "b = Inr (rowsMatch ms (blockRows st) h)"
    using verdict_rowsMatch [OF assms(3)] by (auto simp: sameTables_def)
  from notAllowed_check [OF 1(1) n] 1(2)
  have "n = Inr (rowsMatch (\<lambda>e v. \<not> ms e v) (allowRows st) h)"
    using verdict_rowsMatch [OF assms(2)] by simp
  with 1(3) b n show ?thesis
    by (auto simp: headerFilterAllowMode_def rowsMatch_def split: bool.split)
qed

theorem allowMode_decision_witness:
  "snd (headerFilterAllowMode (\<lambda>_. True) (=) None None (\<lambda>_. []) (hdrRun (\<lambda>_. True) (=) exRows)) =
    PassOn"
proof -
  have ok: "rowsOK (\<lambda>_. True) (allowRows (hdrRun (\<lambda>_. True) (=) exRows)) (\<lambda>_. [])"
      "rowsOK (\<lambda>_. True) (blockRows (hdrRun (\<lambda>_. True) (=) exRows)) (\<lambda>_. [])"
    by (simp_all add: exRows_state rowsOK_def)
  show ?thesis
    unfolding allowMode_decision [OF refl ok] by (simp add: rowsMatch_def)
qed

end
