(* ===== verification/Paging.thy ===== *)
theory Paging
  imports Prelude
begin

text \<open>
  Paging of API results, \<open>src/internal/paging\<close> (\<open>order.go\<close>, \<open>boundary.go\<close>,
  \<open>page.go\<close>, \<open>parse.go\<close>, \<open>response.go\<close>), with the decimal conversions of
  \<open>strconv\<close> that it uses. A nil \<open>*Page\<close> is \<open>None\<close>. Go's \<open>int\<close> is an integer; the
  range of \<open>int\<close> matters in \<open>strconv.Atoi\<close> alone, which refuses larger numbers.
\<close>

subsection \<open>Orders, boundaries and pages\<close>

datatype order = OrderDefault | OrderDescending | OrderAscending

fun orderString :: "order \<Rightarrow> string" where
  "orderString OrderDescending = ''Descending''"
| "orderString OrderAscending = ''Ascending''"
| "orderString OrderDefault = ''not-specified''"

record boundary =
  bName :: string
  bValue :: string
  bOrder :: order

record page =
  pMin :: boundary
  pMax :: boundary
  pLimit :: int

definition sinceID :: "string \<Rightarrow> boundary" where
  "sinceID v = \<lparr>bName = ''min_id'', bValue = v, bOrder = OrderDescending\<rparr>"

definition minID :: "string \<Rightarrow> boundary" where
  "minID v = \<lparr>bName = ''min_id'', bValue = v, bOrder = OrderAscending\<rparr>"

definition maxID :: "string \<Rightarrow> boundary" where
  "maxID v = \<lparr>bName = ''max_id'', bValue = v, bOrder = OrderDescending\<rparr>"

definition eitherMinID :: "string \<Rightarrow> string \<Rightarrow> boundary" where
  "eitherMinID mn since = (if mn \<noteq> [] then minID mn else sinceID since)"

definition minShortcodeDomain :: "string \<Rightarrow> boundary" where
  "minShortcodeDomain v =
     \<lparr>bName = ''min_shortcode_domain'', bValue = v, bOrder = OrderAscending\<rparr>"

definition maxShortcodeDomain :: "string \<Rightarrow> boundary" where
  "maxShortcodeDomain v =
     \<lparr>bName = ''max_shortcode_domain'', bValue = v, bOrder = OrderDescending\<rparr>"

definition newBoundary :: "boundary \<Rightarrow> string \<Rightarrow> boundary" where
  "newBoundary b v = \<lparr>bName = bName b, bValue = v, bOrder = bOrder b\<rparr>"

text \<open>\<open>Boundary.Find\<close> and \<open>Boundary_FindFunc\<close>: the index of the value, or -1.\<close>

fun indexLoop :: "('a \<Rightarrow> bool) \<Rightarrow> int \<Rightarrow> 'a list \<Rightarrow> int" where
  "indexLoop P i [] = -1"
| "indexLoop P i (x # xs) = (if P x then i else indexLoop P (i + 1) xs)"

definition boundaryFind :: "boundary \<Rightarrow> string list \<Rightarrow> int" where
  "boundaryFind b xs = (if bValue b = [] then -1 else indexLoop (\<lambda>x. x = bValue b) 0 xs)"

definition boundaryFindFunc :: "boundary \<Rightarrow> 'a list \<Rightarrow> ('a \<Rightarrow> string) \<Rightarrow> int" where
  "boundaryFindFunc b xs get =
     (if bValue b = [] then -1 else indexLoop (\<lambda>x. get x = bValue b) 0 xs)"

definition getMin :: "page option \<Rightarrow> string" where
  "getMin p = (case p of None \<Rightarrow> [] | Some q \<Rightarrow> bValue (pMin q))"

definition getMax :: "page option \<Rightarrow> string" where
  "getMax p = (case p of None \<Rightarrow> [] | Some q \<Rightarrow> bValue (pMax q))"

definition getLimit :: "page option \<Rightarrow> int" where
  "getLimit p = (case p of None \<Rightarrow> 0 | Some q \<Rightarrow> if pLimit q < 0 then 0 else pLimit q)"

definition pageOrder :: "page \<Rightarrow> order" where
  "pageOrder p =
     (if bOrder (pMin p) \<noteq> OrderDefault then bOrder (pMin p)
      else if bOrder (pMax p) \<noteq> OrderDefault then bOrder (pMax p)
      else OrderDefault)"

definition getOrder :: "page option \<Rightarrow> order" where
  "getOrder p = (case p of None \<Rightarrow> OrderDefault | Some q \<Rightarrow> pageOrder q)"

text \<open>\<open>in = in[:p.Limit]\<close> where the limit is set and shorter than the slice.\<close>

definition cutLimit :: "int \<Rightarrow> 'a list \<Rightarrow> 'a list" where
  "cutLimit l xs = (if 0 < l \<and> l < int (length xs) then take (nat l) xs else xs)"

definition pageSlice :: "page option \<Rightarrow> string list \<Rightarrow> string list" where
  "pageSlice po xs =
     (case po of
        None \<Rightarrow> xs
      | Some p \<Rightarrow>
          if pageOrder p = OrderAscending then
            (let minIdx = boundaryFind (pMin p) xs;
                 xs1 = (if minIdx \<noteq> -1 then drop (nat (minIdx + 1)) xs else xs);
                 maxIdx = boundaryFind (pMax p) xs1;
                 xs2 = (if maxIdx \<noteq> -1 then take (nat maxIdx) xs1 else xs1);
                 xs3 = cutLimit (pLimit p) xs2
             in if 1 < length xs3 then rev xs3 else xs3)
          else
            (let maxIdx = boundaryFind (pMax p) xs;
                 xs1 = (if maxIdx \<noteq> -1 then drop (nat (maxIdx + 1)) xs else xs);
                 minIdx = boundaryFind (pMin p) xs1;
                 xs2 = (if minIdx \<noteq> -1 then take (nat minIdx) xs1 else xs1)
             in cutLimit (pLimit p) xs2))"

definition pageFunc :: "page option \<Rightarrow> 'a list \<Rightarrow> ('a \<Rightarrow> string) \<Rightarrow> 'a list" where
  "pageFunc po xs get =
     (case po of
        None \<Rightarrow> xs
      | Some p \<Rightarrow>
          if pageOrder p = OrderAscending then
            (let minIdx = boundaryFindFunc (pMin p) xs get;
                 xs1 = (if minIdx \<noteq> -1 then drop (nat (minIdx + 1)) xs else xs);
                 maxIdx = boundaryFindFunc (pMax p) xs1 get;
                 xs2 = (if maxIdx \<noteq> -1 then take (nat maxIdx) xs1 else xs1);
                 xs3 = cutLimit (pLimit p) xs2
             in if 1 < length xs3 then rev xs3 else xs3)
          else
            (let maxIdx = boundaryFindFunc (pMax p) xs get;
                 xs1 = (if maxIdx \<noteq> -1 then drop (nat (maxIdx + 1)) xs else xs);
                 minIdx = boundaryFindFunc (pMin p) xs1 get;
                 xs2 = (if minIdx \<noteq> -1 then take (nat minIdx) xs1 else xs1)
             in cutLimit (pLimit p) xs2))"

definition nextPage :: "page option \<Rightarrow> string \<Rightarrow> string \<Rightarrow> page option" where
  "nextPage po lo hi =
     (case po of
        None \<Rightarrow> None
      | Some p \<Rightarrow>
          if lo = [] \<or> hi = [] then None
          else Some \<lparr>pMin = (newBoundary (pMin p) [])\<lparr>bOrder := OrderDescending\<rparr>,
                     pMax = (newBoundary (pMax p) lo)\<lparr>bOrder := OrderDescending\<rparr>,
                     pLimit = pLimit p\<rparr>)"

definition prevPage :: "page option \<Rightarrow> string \<Rightarrow> string \<Rightarrow> page option" where
  "prevPage po lo hi =
     (case po of
        None \<Rightarrow> None
      | Some p \<Rightarrow>
          if lo = [] \<or> hi = [] then None
          else Some \<lparr>pMin = (newBoundary (pMin p) hi)\<lparr>bOrder := OrderDescending\<rparr>,
                     pMax = (newBoundary (pMax p) [])\<lparr>bOrder := OrderDescending\<rparr>,
                     pLimit = pLimit p\<rparr>)"

subsection \<open>Decimal numbers (\<open>strconv.Itoa\<close> and \<open>strconv.Atoi\<close>)\<close>

definition digitChar :: "nat \<Rightarrow> char" where
  "digitChar d = char_of (48 + d)"

function natDigits :: "nat \<Rightarrow> string" where
  "natDigits n = (if n < 10 then [digitChar n] else natDigits (n div 10) @ [digitChar (n mod 10)])"
  by pat_completeness auto
termination
  by (relation "measure id") auto

declare natDigits.simps [simp del]

definition itoa :: "int \<Rightarrow> string" where
  "itoa i = (if i < 0 then CHR ''-'' # natDigits (nat (- i)) else natDigits (nat i))"

definition charDigit :: "char \<Rightarrow> nat option" where
  "charDigit c =
     (let n = of_char c :: nat in if 48 \<le> n \<and> n \<le> 57 then Some (n - 48) else None)"

fun parseLoop :: "nat \<Rightarrow> string \<Rightarrow> nat option" where
  "parseLoop acc [] = Some acc"
| "parseLoop acc (c # cs) =
     (case charDigit c of None \<Rightarrow> None | Some d \<Rightarrow> parseLoop (10 * acc + d) cs)"

definition parseNat :: "string \<Rightarrow> nat option" where
  "parseNat s = (if s = [] then None else parseLoop 0 s)"

definition atoi :: "string \<Rightarrow> int option" where
  "atoi s =
     (let neg = (s \<noteq> [] \<and> hd s = CHR ''-'');
          body = (if s \<noteq> [] \<and> (hd s = CHR ''-'' \<or> hd s = CHR ''+'') then tl s else s)
      in case parseNat body of
           None \<Rightarrow> None
         | Some n \<Rightarrow>
             if neg then (if n \<le> 2 ^ 63 then Some (- int n) else None)
             else (if n < 2 ^ 63 then Some (int n) else None))"

subsection \<open>Parsing the query parameters of a request\<close>

type_synonym query = "string \<rightharpoonup> string"

datatype pageError = BadRequest

definition parseLimit :: "query \<Rightarrow> int \<Rightarrow> int \<Rightarrow> int \<Rightarrow> pageError + int" where
  "parseLimit q mn mx deflt =
     (case q ''limit'' of
        None \<Rightarrow> Inr deflt
      | Some str \<Rightarrow>
          (case atoi str of
             None \<Rightarrow> Inl BadRequest
           | Some i \<Rightarrow>
               if i = 0 then Inr deflt
               else if i < mn then Inr mn
               else if mx < i then Inr mx
               else Inr i))"

definition queryOr :: "query \<Rightarrow> string \<Rightarrow> string" where
  "queryOr q k = (case q k of None \<Rightarrow> [] | Some v \<Rightarrow> v)"

definition parseIDPage :: "query \<Rightarrow> int \<Rightarrow> int \<Rightarrow> int \<Rightarrow> pageError + page option" where
  "parseIDPage q mn mx deflt =
     (case parseLimit q mn mx deflt of
        Inl e \<Rightarrow> Inl e
      | Inr limit \<Rightarrow>
          if q ''min_id'' \<noteq> None then
            Inr (Some \<lparr>pMin = minID (queryOr q ''min_id''), pMax = maxID (queryOr q ''max_id''),
                       pLimit = limit\<rparr>)
          else if q ''max_id'' \<noteq> None \<or> q ''since_id'' \<noteq> None then
            Inr (Some \<lparr>pMin = sinceID (queryOr q ''since_id''), pMax = maxID (queryOr q ''max_id''),
                       pLimit = limit\<rparr>)
          else if limit = 0 then Inr None
          else Inr (Some \<lparr>pMin = sinceID [], pMax = maxID [], pLimit = limit\<rparr>))"

definition parseShortcodeDomainPage :: "query \<Rightarrow> int \<Rightarrow> int \<Rightarrow> int \<Rightarrow> pageError + page option" where
  "parseShortcodeDomainPage q mn mx deflt =
     (case parseLimit q mn mx deflt of
        Inl e \<Rightarrow> Inl e
      | Inr limit \<Rightarrow>
          if q ''min_shortcode_domain'' = None \<and> q ''max_shortcode_domain'' = None \<and> limit = 0
          then Inr None
          else Inr (Some \<lparr>pMin = minShortcodeDomain (queryOr q ''min_shortcode_domain''),
                          pMax = maxShortcodeDomain (queryOr q ''max_shortcode_domain''),
                          pLimit = limit\<rparr>))"

subsection \<open>Links\<close>

type_synonym urlValues = "string \<rightharpoonup> string list"

record url =
  urlScheme :: string
  urlHost :: string
  urlPath :: string
  urlQuery :: urlValues

text \<open>
  \<open>ToLinkURL\<close> keeps the query as \<open>url.Values\<close>, before \<open>Encode\<close>; the conversion of
  the URL to text (\<open>url.URL.String\<close>) is the parameter \<open>urlString\<close>. Cloning the
  caller's map is the identity here: maps are values.
\<close>

definition setIf :: "bool \<Rightarrow> string \<Rightarrow> string \<Rightarrow> urlValues \<Rightarrow> urlValues" where
  "setIf b k v q = (if b then q(k \<mapsto> [v]) else q)"

definition toLinkURL :: "page option \<Rightarrow> string \<Rightarrow> string \<Rightarrow> string \<Rightarrow> urlValues \<Rightarrow> url option" where
  "toLinkURL po proto host path params =
     (case po of
        None \<Rightarrow> None
      | Some p \<Rightarrow>
          (let q1 = setIf (bValue (pMin p) \<noteq> []) (bName (pMin p)) (bValue (pMin p)) params;
               q2 = setIf (bValue (pMax p) \<noteq> []) (bName (pMax p)) (bValue (pMax p)) q1;
               q3 = setIf (0 < pLimit p) ''limit'' (itoa (pLimit p)) q2
           in Some \<lparr>urlScheme = proto, urlHost = host, urlPath = path, urlQuery = q3\<rparr>))"

definition toLink :: "(url \<Rightarrow> string) \<Rightarrow> page option \<Rightarrow> string \<Rightarrow> string \<Rightarrow> string \<Rightarrow> urlValues \<Rightarrow> string"
  where
  "toLink urlString po proto host path params =
     (case toLinkURL po proto host path params of None \<Rightarrow> [] | Some u \<Rightarrow> urlString u)"

record 'i responseParams =
  rpItems :: "'i list"
  rpPath :: string
  rpNext :: "page option"
  rpPrev :: "page option"
  rpQuery :: urlValues

record 'i pageableResponse =
  prItems :: "'i list"
  prNextLink :: string
  prPrevLink :: string
  prLinkHeader :: string

fun joinStr :: "string \<Rightarrow> string list \<Rightarrow> string" where
  "joinStr sep [] = []"
| "joinStr sep [p] = p"
| "joinStr sep (p # q # ps) = p @ sep @ joinStr sep (q # ps)"

definition packageResponse :: "(url \<Rightarrow> string) \<Rightarrow> string \<Rightarrow> string \<Rightarrow> 'i responseParams \<Rightarrow>
    'i pageableResponse" where
  "packageResponse urlString proto host params =
     (let nextLink = toLink urlString (rpNext params) proto host (rpPath params) (rpQuery params);
          prevLink = toLink urlString (rpPrev params) proto host (rpPath params) (rpQuery params);
          parts = (if nextLink \<noteq> [] then [''<'' @ nextLink @ ''>; rel=\"next\"''] else []) @
                  (if prevLink \<noteq> [] then [''<'' @ prevLink @ ''>; rel=\"prev\"''] else [])
      in \<lparr>prItems = rpItems params, prNextLink = nextLink, prPrevLink = prevLink,
          prLinkHeader = joinStr '', '' parts\<rparr>)"

definition emptyResponse :: "'i pageableResponse" where
  "emptyResponse = \<lparr>prItems = [], prNextLink = [], prPrevLink = [], prLinkHeader = []\<rparr>"

subsection \<open>Paging a slice, in terms of the marks\<close>

definition afterMark :: "('a \<Rightarrow> string) \<Rightarrow> string \<Rightarrow> 'a list \<Rightarrow> 'a list" where
  "afterMark get v xs =
     (if v = [] \<or> v \<notin> get ` set xs then xs else tl (dropWhile (\<lambda>x. get x \<noteq> v) xs))"

definition beforeMark :: "('a \<Rightarrow> string) \<Rightarrow> string \<Rightarrow> 'a list \<Rightarrow> 'a list" where
  "beforeMark get v xs = (if v = [] then xs else takeWhile (\<lambda>x. get x \<noteq> v) xs)"

lemma indexLoop_eq:
  "indexLoop P i xs =
    (if \<exists>x \<in> set xs. P x then i + int (length (takeWhile (\<lambda>x. \<not> P x) xs)) else -1)"
  by (induction xs arbitrary: i) auto

lemma drop_after: "\<exists>x \<in> set xs. P x \<Longrightarrow>
    drop (Suc (length (takeWhile (\<lambda>x. \<not> P x) xs))) xs = tl (dropWhile (\<lambda>x. \<not> P x) xs)"
  by (induction xs) auto

lemma boundaryFindFunc_after:
  "(if boundaryFindFunc b xs get \<noteq> -1 then drop (nat (boundaryFindFunc b xs get + 1)) xs else xs) =
    afterMark get (bValue b) xs"
proof (cases "bValue b = [] \<or> bValue b \<notin> get ` set xs")
  case True
  then show ?thesis by (auto simp: boundaryFindFunc_def afterMark_def indexLoop_eq image_iff)
next
  case False
  then have ex: "\<exists>x \<in> set xs. get x = bValue b" by auto
  with False show ?thesis
    using drop_after [OF ex] by (simp add: boundaryFindFunc_def afterMark_def indexLoop_eq nat_add_distrib)
qed

lemma boundaryFindFunc_before:
  "(if boundaryFindFunc b xs get \<noteq> -1 then take (nat (boundaryFindFunc b xs get)) xs else xs) =
    beforeMark get (bValue b) xs"
proof (cases "bValue b = [] \<or> (\<exists>x \<in> set xs. get x = bValue b)")
  case True
  have "take (length (takeWhile P xs)) xs = takeWhile P xs" for P
    by (metis takeWhile_eq_take)
  with True show ?thesis by (auto simp: boundaryFindFunc_def beforeMark_def indexLoop_eq)
next
  case False
  then have "takeWhile (\<lambda>x. get x \<noteq> bValue b) xs = xs" by (simp add: takeWhile_eq_all_conv)
  from this [symmetric] False show ?thesis
    by (simp add: boundaryFindFunc_def beforeMark_def indexLoop_eq)
qed

lemma rev_if_longer: "(if 1 < length ys then rev ys else ys) = rev ys"
  by (cases ys; cases "tl ys") auto

lemma pageFunc_descending:
  assumes "pageOrder p \<noteq> OrderAscending"
  shows "pageFunc (Some p) xs get =
      cutLimit (pLimit p) (beforeMark get (bValue (pMin p)) (afterMark get (bValue (pMax p)) xs))"
  unfolding pageFunc_def option.case Let_def if_not_P [OF assms]
    boundaryFindFunc_after boundaryFindFunc_before by (rule refl)

lemma pageFunc_ascending:
  assumes "pageOrder p = OrderAscending"
  shows "pageFunc (Some p) xs get =
      rev (cutLimit (pLimit p) (beforeMark get (bValue (pMax p)) (afterMark get (bValue (pMin p)) xs)))"
  unfolding pageFunc_def option.case Let_def if_P [OF assms]
    boundaryFindFunc_after boundaryFindFunc_before rev_if_longer by (rule refl)

lemma boundaryFind_map: "boundaryFind b (map get xs) = boundaryFindFunc b xs get"
proof -
  have "indexLoop P i (map get xs) = indexLoop (\<lambda>x. P (get x)) i xs" for P i
    by (induction xs arbitrary: i) auto
  then show ?thesis by (simp add: boundaryFind_def boundaryFindFunc_def)
qed

lemma cutLimit_map: "cutLimit l (map f xs) = map f (cutLimit l xs)"
  by (simp add: cutLimit_def take_map)

text \<open>
  The generic page function and the method on string slices are the same function: paging
  items by their IDs gives the items of the page of the IDs.
\<close>

theorem pageFunc_refines_pageSlice:
  "map get (pageFunc po xs get) = pageSlice po (map get xs)"
proof (cases po)
  case (Some p)
  have d: "(if c then drop n (map get ys) else map get ys) = map get (if c then drop n ys else ys)"
      "(if c then take n (map get ys) else map get ys) = map get (if c then take n ys else ys)"
      "(if c then rev (map get ys) else map get ys) = map get (if c then rev ys else ys)"
    for c n and ys :: "'a list" by (simp_all add: drop_map take_map rev_map)
  show ?thesis
    unfolding Some pageSlice_def pageFunc_def option.case Let_def boundaryFind_map d cutLimit_map
      length_map
    by simp
qed (simp add: pageSlice_def pageFunc_def)

subsection \<open>Pages of sorted lists\<close>

lemma afterMark_sorted:
  assumes "sorted_wrt (\<lambda>x y. R (get x) (get y)) xs" and "v \<in> get ` set xs" and "v \<noteq> []"
    and irr: "\<And>a. \<not> R a a" and tr: "\<And>a b. R a b \<Longrightarrow> \<not> R b a"
  shows "afterMark get v xs = filter (\<lambda>x. R v (get x)) xs"
proof -
  from assms(2) obtain ys x zs where xs: "xs = ys @ x # zs" "get x = v" "v \<notin> get ` set ys"
    using split_list_first_prop [of xs "\<lambda>x. get x = v"] by fastforce
  have y: "\<not> R v (get y)" if "y \<in> set ys" for y
    using assms(1) that tr unfolding xs(1) xs(2) [symmetric] by (auto simp: sorted_wrt_append)
  have z: "R v (get z)" if "z \<in> set zs" for z
    using assms(1) that unfolding xs(1) xs(2) [symmetric] by (auto simp: sorted_wrt_append)
  have "dropWhile (\<lambda>x. get x \<noteq> v) xs = x # zs"
    using xs by (auto simp: dropWhile_append image_iff)
  with assms(2,3) have "afterMark get v xs = zs" by (simp add: afterMark_def)
  also have "zs = filter (\<lambda>x. R v (get x)) xs" using xs y z irr by (simp add: filter_True filter_False)
  finally show ?thesis .
qed

lemma beforeMark_sorted:
  assumes "sorted_wrt (\<lambda>x y. R (get x) (get y)) xs" and "v \<in> get ` set xs" and "v \<noteq> []"
    and irr: "\<And>a. \<not> R a a" and tr: "\<And>a b. R a b \<Longrightarrow> \<not> R b a"
  shows "beforeMark get v xs = filter (\<lambda>x. R (get x) v) xs"
proof -
  from assms(2) obtain ys x zs where xs: "xs = ys @ x # zs" "get x = v" "v \<notin> get ` set ys"
    using split_list_first_prop [of xs "\<lambda>x. get x = v"] by fastforce
  have y: "R (get y) v" if "y \<in> set ys" for y
    using assms(1) that unfolding xs(1) xs(2) [symmetric] by (auto simp: sorted_wrt_append)
  have z: "\<not> R (get z) v" if "z \<in> set zs" for z
    using assms(1) that tr unfolding xs(1) xs(2) [symmetric] by (auto simp: sorted_wrt_append)
  have "takeWhile (\<lambda>x. get x \<noteq> v) xs = ys"
    unfolding xs(1) using xs(2,3) by (subst takeWhile_append2) (auto simp: image_iff)
  with assms(3) have "beforeMark get v xs = ys" by (simp add: beforeMark_def)
  also have "ys = filter (\<lambda>x. R (get x) v) xs" using xs y z irr by (simp add: filter_True filter_False)
  finally show ?thesis .
qed

definition inRange :: "page \<Rightarrow> string \<Rightarrow> bool" where
  "inRange p x \<longleftrightarrow> (bValue (pMax p) \<noteq> [] \<longrightarrow> x < bValue (pMax p)) \<and>
     (bValue (pMin p) \<noteq> [] \<longrightarrow> bValue (pMin p) < x)"

definition boundOK :: "boundary \<Rightarrow> string list \<Rightarrow> bool" where
  "boundOK b ids \<longleftrightarrow> bValue b = [] \<or> bValue b \<in> set ids"

text \<open>
  On a list in descending order of ID, a page that is not ascending is the first
  \<open>limit\<close> items strictly between its bounds; where a bound is set, an item has that ID.
\<close>

theorem pageFunc_descending_spec:
  assumes "sorted_wrt (\<lambda>x y. get y < get x) xs" and "pageOrder p \<noteq> OrderAscending"
    and "boundOK (pMin p) (map get xs)" and "boundOK (pMax p) (map get xs)"
    and "bValue (pMax p) = [] \<or> bValue (pMin p) < bValue (pMax p)"
  shows "pageFunc (Some p) xs get = cutLimit (pLimit p) (filter (\<lambda>x. inRange p (get x)) xs)"
proof -
  let ?mx = "bValue (pMax p)" and ?mn = "bValue (pMin p)"
  have 1: "afterMark get ?mx xs = filter (\<lambda>x. ?mx \<noteq> [] \<longrightarrow> get x < ?mx) xs" (is "_ = ?ys")
    using afterMark_sorted [of "\<lambda>a b. b < a" get xs ?mx] assms(1,4)
    by (cases "?mx = []") (auto simp: boundOK_def afterMark_def filter_True)
  have "beforeMark get ?mn ?ys = filter (\<lambda>x. ?mn \<noteq> [] \<longrightarrow> ?mn < get x) ?ys"
  proof (cases "?mn = []")
    case False
    then have "?mn \<in> get ` set ?ys" using assms(3,5) by (auto simp: boundOK_def)
    then show ?thesis
      using beforeMark_sorted [of "\<lambda>a b. b < a" get ?ys ?mn] assms(1) False
      by (simp add: sorted_wrt_filter)
  qed (simp add: beforeMark_def)
  with 1 show ?thesis
    unfolding pageFunc_descending [OF assms(2)] by (simp add: inRange_def conj_commute)
qed

definition exPage :: page where
  "exPage = \<lparr>pMin = sinceID [], pMax = maxID ''c'', pLimit = 1\<rparr>"

theorem pageFunc_descending_spec_witness:
  "pageFunc (Some exPage) [''c'', ''b'', ''a''] id = [''b'']"
proof -
  have "pageFunc (Some exPage) [''c'', ''b'', ''a''] id =
      cutLimit (pLimit exPage) (filter (\<lambda>x. inRange exPage (id x)) [''c'', ''b'', ''a''])"
    by (rule pageFunc_descending_spec)
      (simp_all add: exPage_def pageOrder_def sinceID_def maxID_def boundOK_def less_char_def)
  also have "\<dots> = [''b'']"
    by (simp add: exPage_def inRange_def cutLimit_def sinceID_def maxID_def less_char_def)
  finally show ?thesis .
qed

text \<open>
  On a list in ascending order, an ascending page is the first \<open>limit\<close> items strictly
  between its bounds (those next to the minimum), returned in descending order.
\<close>

theorem pageFunc_ascending_spec:
  assumes "sorted_wrt (\<lambda>x y. get x < get y) xs" and "pageOrder p = OrderAscending"
    and "boundOK (pMin p) (map get xs)" and "boundOK (pMax p) (map get xs)"
    and "bValue (pMax p) = [] \<or> bValue (pMin p) < bValue (pMax p)"
  shows "pageFunc (Some p) xs get = rev (cutLimit (pLimit p) (filter (\<lambda>x. inRange p (get x)) xs))"
proof -
  let ?mx = "bValue (pMax p)" and ?mn = "bValue (pMin p)"
  have 1: "afterMark get ?mn xs = filter (\<lambda>x. ?mn \<noteq> [] \<longrightarrow> ?mn < get x) xs" (is "_ = ?ys")
    using afterMark_sorted [of "\<lambda>a b. a < b" get xs ?mn] assms(1,3)
    by (cases "?mn = []") (auto simp: boundOK_def afterMark_def filter_True)
  have "beforeMark get ?mx ?ys = filter (\<lambda>x. ?mx \<noteq> [] \<longrightarrow> get x < ?mx) ?ys"
  proof (cases "?mx = []")
    case False
    then have "?mx \<in> get ` set ?ys" using assms(4,5) by (auto simp: boundOK_def)
    then show ?thesis
      using beforeMark_sorted [of "\<lambda>a b. a < b" get ?ys ?mx] assms(1) False
      by (simp add: sorted_wrt_filter)
  qed (simp add: beforeMark_def)
  with 1 show ?thesis
    unfolding pageFunc_ascending [OF assms(2)] by (simp add: inRange_def conj_commute)
qed

definition exPageUp :: page where
  "exPageUp = \<lparr>pMin = minID ''a'', pMax = maxID [], pLimit = 2\<rparr>"

theorem pageFunc_ascending_spec_witness:
  "pageFunc (Some exPageUp) [''a'', ''b'', ''c'', ''d''] id = [''c'', ''b'']"
proof -
  have "pageFunc (Some exPageUp) [''a'', ''b'', ''c'', ''d''] id =
      rev (cutLimit (pLimit exPageUp)
        (filter (\<lambda>x. inRange exPageUp (id x)) [''a'', ''b'', ''c'', ''d'']))"
    by (rule pageFunc_ascending_spec)
      (simp_all add: exPageUp_def pageOrder_def minID_def maxID_def boundOK_def less_char_def)
  also have "\<dots> = [''c'', ''b'']"
    by (simp add: exPageUp_def inRange_def cutLimit_def minID_def maxID_def less_char_def)
  finally show ?thesis .
qed


subsection \<open>Walking the pages\<close>

text \<open>
  A client that follows the \<open>next\<close> links: each page is the one \<open>Next\<close> makes from the IDs
  of the last and the first item returned, until a page is empty.
\<close>

fun walkNext :: "nat \<Rightarrow> page \<Rightarrow> ('a \<Rightarrow> string) \<Rightarrow> 'a list \<Rightarrow> 'a list list" where
  "walkNext 0 p get xs = []"
| "walkNext (Suc n) p get xs =
     (case pageFunc (Some p) xs get of
        [] \<Rightarrow> []
      | y # ys \<Rightarrow>
          (y # ys) # (case nextPage (Some p) (get (last (y # ys))) (get y) of
                        None \<Rightarrow> []
                      | Some q \<Rightarrow> walkNext n q get xs))"

lemma cutLimit_split: "\<exists>zs. ys = cutLimit l ys @ zs"
  by (auto simp: cutLimit_def intro: append_take_drop_id [symmetric])

lemma cutLimit_eq_Nil: "cutLimit l ys = [] \<longleftrightarrow> ys = []"
  by (auto simp: cutLimit_def)

lemma afterMark_prefix:
  assumes "distinct (map get (us @ vs))" and "[] \<notin> get ` set us"
  shows "afterMark get (if us = [] then [] else get (last us)) (us @ vs) = vs"
proof (cases us rule: rev_cases)
  case Nil
  then show ?thesis by (simp add: afterMark_def)
next
  case (snoc ws w)
  have "dropWhile (\<lambda>x. get x \<noteq> get w) (ws @ w # vs) = w # vs"
    using assms(1) unfolding snoc by (subst dropWhile_append2) (auto simp: image_iff)
  then show ?thesis using assms(2) unfolding snoc by (auto simp: afterMark_def)
qed

lemma walkNext_concat:
  assumes "distinct (map get (us @ vs))" and "[] \<notin> get ` set (us @ vs)"
    and "pageOrder p \<noteq> OrderAscending" and "bValue (pMin p) = []"
    and "bValue (pMax p) = (if us = [] then [] else get (last us))" and "length vs < n"
  shows "concat (walkNext n p get (us @ vs)) = vs"
  using assms
proof (induction n arbitrary: p us vs)
  case (Suc n)
  have page: "pageFunc (Some p) (us @ vs) get = cutLimit (pLimit p) vs"
    unfolding pageFunc_descending [OF Suc.prems(3)] Suc.prems(4,5)
    using afterMark_prefix [of get us vs] Suc.prems(1,2) by (simp add: beforeMark_def image_Un)
  show ?case
  proof (cases "cutLimit (pLimit p) vs")
    case Nil
    with page show ?thesis by (simp add: cutLimit_eq_Nil)
  next
    case (Cons y ys)
    obtain zs where vs: "vs = (y # ys) @ zs" using cutLimit_split [of vs "pLimit p"] Cons by auto
    have "last (y # ys) \<in> set (us @ vs)" "y \<in> set (us @ vs)" by (auto simp: vs)
    with Suc.prems(2) have ne: "get (last (y # ys)) \<noteq> []" "get y \<noteq> []"
      by (metis imageI)+
    then obtain q where q: "nextPage (Some p) (get (last (y # ys))) (get y) = Some q"
      "bValue (pMin q) = []" "bValue (pMax q) = get (last (y # ys))" "pageOrder q \<noteq> OrderAscending"
      by (simp add: nextPage_def newBoundary_def pageOrder_def)
    have "concat (walkNext n q get ((us @ y # ys) @ zs)) = zs"
      by (rule Suc.IH) (use Suc.prems q in \<open>auto simp: vs\<close>)
    then show ?thesis using page Cons q(1) by (simp add: vs)
  qed
qed simp

text \<open>
  C38. A client that starts at an unbounded page and follows the next pages sees every item
  exactly once and in order, whatever the limit.
\<close>

theorem walkNext_complete:
  assumes "distinct (map get xs)" and "[] \<notin> get ` set xs"
    and "pageOrder p \<noteq> OrderAscending" and "getMin (Some p) = []" and "getMax (Some p) = []"
  shows "concat (walkNext (Suc (length xs)) p get xs) = xs"
  using walkNext_concat [of get "[]" xs p "Suc (length xs)"] assms
  by (simp add: getMin_def getMax_def del: walkNext.simps)

theorem walkNext_complete_witness:
  "walkNext 4 \<lparr>pMin = sinceID [], pMax = maxID [], pLimit = 2\<rparr> id [''c'', ''b'', ''a''] =
     [[''c'', ''b''], [''a'']] \<and>
   concat (walkNext (Suc (length [''c'', ''b'', ''a'']))
     \<lparr>pMin = sinceID [], pMax = maxID [], pLimit = 2\<rparr> id [''c'', ''b'', ''a'']) =
     [''c'', ''b'', ''a'']"
proof
  show "concat (walkNext (Suc (length [''c'', ''b'', ''a'']))
     \<lparr>pMin = sinceID [], pMax = maxID [], pLimit = 2\<rparr> id [''c'', ''b'', ''a'']) =
     [''c'', ''b'', ''a'']"
    by (rule walkNext_complete)
      (simp_all add: sinceID_def maxID_def pageOrder_def getMin_def getMax_def)
qed code_simp

subsection \<open>Links round trip\<close>

lemma charDigit_digitChar: "d < 10 \<Longrightarrow> charDigit (digitChar d) = Some d"
  by (simp add: charDigit_def digitChar_def Let_def)

lemma parseLoop_snoc: "parseLoop acc (s @ [c]) =
    (case parseLoop acc s of None \<Rightarrow> None | Some a \<Rightarrow> map_option (\<lambda>d. 10 * a + d) (charDigit c))"
  by (induction acc s rule: parseLoop.induct) (auto split: option.splits)

lemma parseLoop_natDigits: "parseLoop 0 (natDigits n) = Some n"
proof (induction n rule: natDigits.induct)
  case (1 n)
  then show ?case
    by (subst natDigits.simps) (simp add: parseLoop_snoc charDigit_digitChar)
qed

lemma natDigits_ne: "natDigits n \<noteq> []"
  by (subst natDigits.simps) simp

lemma hd_natDigits: "\<exists>d<10. hd (natDigits n) = digitChar d"
proof (induction n rule: natDigits.induct)
  case (1 n)
  then show ?case by (subst natDigits.simps) (auto simp: hd_append natDigits_ne)
qed

lemma digitChar_sign: "d < 10 \<Longrightarrow> digitChar d \<noteq> CHR ''-'' \<and> digitChar d \<noteq> CHR ''+''"
  using charDigit_digitChar [of d] by (auto simp: charDigit_def Let_def)

lemma atoi_itoa:
  assumes "- (2 ^ 63) \<le> i" and "i < 2 ^ 63"
  shows "atoi (itoa i) = Some i"
proof -
  have p: "parseNat (natDigits n) = Some n" for n
    by (simp add: parseNat_def natDigits_ne parseLoop_natDigits)
  have s: "hd (natDigits n) \<noteq> CHR ''-''" "hd (natDigits n) \<noteq> CHR ''+''" for n
    using hd_natDigits [of n] digitChar_sign by metis+
  show ?thesis
    using assms by (auto simp: atoi_def itoa_def Let_def p s natDigits_ne nat_le_iff nat_less_iff)
qed

text \<open>\<open>gin\<close>'s \<open>c.GetQuery\<close> on the parsed query: the first value of the key.\<close>

definition firstValues :: "urlValues \<Rightarrow> query" where
  "firstValues v k = (case v k of Some (x # _) \<Rightarrow> Some x | _ \<Rightarrow> None)"

definition idPage :: "page \<Rightarrow> bool" where
  "idPage p \<longleftrightarrow> bName (pMin p) = ''min_id'' \<and> bName (pMax p) = ''max_id''"

lemma parseIDPage_idPage: "parseIDPage q mn mx d = Inr (Some p) \<Longrightarrow> idPage p"
  by (auto simp: parseIDPage_def idPage_def minID_def sinceID_def maxID_def
      split: sum.splits if_splits)

lemma parseLimit_itoa:
  "q ''limit'' = Some (itoa l) \<Longrightarrow> 0 < l \<Longrightarrow> mn \<le> l \<Longrightarrow> l \<le> mx \<Longrightarrow> l < 2 ^ 63 \<Longrightarrow>
    parseLimit q mn mx d = Inr l"
  by (simp add: parseLimit_def atoi_itoa)

text \<open>
  The \<open>next\<close> link that a response carries, requested by the client, is parsed to the
  very page it was made from: no bound, name, order or limit is lost on the way.
\<close>

theorem nextLink_parses_to_nextPage:
  assumes "parseIDPage q0 mn mx d = Inr (Some p)" and "nextPage (Some p) lo hi = Some p'"
    and "0 < pLimit p" and "mn \<le> pLimit p" and "pLimit p \<le> mx" and "pLimit p < 2 ^ 63"
    and "params ''min_id'' = None" and "params ''since_id'' = None"
    and "toLinkURL (Some p') proto host path params = Some u"
  shows "parseIDPage (firstValues (urlQuery u)) mn mx d = Inr (Some p')"
proof -
  have n: "bName (pMin p) = ''min_id''" "bName (pMax p) = ''max_id''"
    using parseIDPage_idPage [OF assms(1)] by (simp_all add: idPage_def)
  from assms(2) have p': "lo \<noteq> []"
      "p' = \<lparr>pMin = sinceID [], pMax = maxID lo, pLimit = pLimit p\<rparr>"
    by (auto simp: nextPage_def newBoundary_def n sinceID_def maxID_def split: if_splits)
  have u: "urlQuery u = params(''max_id'' \<mapsto> [lo], ''limit'' \<mapsto> [itoa (pLimit p)])"
    using assms(3,9) p'(1) unfolding p'(2)
    by (auto simp: toLinkURL_def setIf_def Let_def sinceID_def maxID_def)
  have l: "parseLimit (firstValues (urlQuery u)) mn mx d = Inr (pLimit p)"
    by (rule parseLimit_itoa) (use assms u in \<open>simp_all add: firstValues_def\<close>)
  show ?thesis
    unfolding parseIDPage_def l p'(2)
    using assms(7,8) by (simp add: u firstValues_def queryOr_def)
qed

theorem nextLink_parses_to_nextPage_witness:
  "parseIDPage (firstValues [''max_id'' \<mapsto> [''b''], ''limit'' \<mapsto> [''2'']]) 1 80 20 =
     Inr (Some \<lparr>pMin = sinceID [], pMax = maxID ''b'', pLimit = 2\<rparr>)"
proof -
  have l: "itoa 2 = ''2''" by code_simp
  let ?u = "\<lparr>urlScheme = ''https'', urlHost = ''x'', urlPath = ''/f'',
    urlQuery = [''max_id'' \<mapsto> [''b''], ''limit'' \<mapsto> [''2'']]\<rparr>"
  have "parseIDPage (firstValues (urlQuery ?u)) 1 80 20 =
      Inr (Some \<lparr>pMin = sinceID [], pMax = maxID ''b'', pLimit = 2\<rparr>)"
  proof (rule nextLink_parses_to_nextPage)
    show "parseIDPage [''limit'' \<mapsto> itoa 2] 1 80 20 =
        Inr (Some \<lparr>pMin = sinceID [], pMax = maxID [], pLimit = 2\<rparr>)"
      by (simp add: parseIDPage_def parseLimit_itoa)
    show "nextPage (Some \<lparr>pMin = sinceID [], pMax = maxID [], pLimit = 2\<rparr>) ''b'' ''c'' =
        Some \<lparr>pMin = sinceID [], pMax = maxID ''b'', pLimit = 2\<rparr>"
      by (simp add: nextPage_def newBoundary_def sinceID_def maxID_def)
    show "toLinkURL (Some \<lparr>pMin = sinceID [], pMax = maxID ''b'', pLimit = 2\<rparr>) ''https'' ''x'' ''/f''
        Map.empty = Some ?u"
      by (simp add: toLinkURL_def setIf_def Let_def sinceID_def maxID_def l)
  qed simp_all
  then show ?thesis by simp
qed

end
