(* ===== verification/TimelineIndex.thy ===== *)
theory TimelineIndex
  imports Prelude
begin

text \<open>
  The index of a home or list timeline, \<open>src/internal/timeline\<close>: \<open>indexeditems.go\<close>,
  \<open>index.go\<close>, \<open>prune.go\<close>, \<open>remove.go\<close>, \<open>unprepare.go\<close>, and the skip function of
  \<open>src/internal/processing/timeline/common.go\<close>. The linked list of entries is a list, newest
  entry first; a list that is not yet initialised is the empty list, which every operation
  treats alike. A \<open>nil\<close> prepared item is \<open>None\<close>. Each operation runs under the timeline's
  lock, so it is one transition.
\<close>

subsection \<open>Items and entries\<close>

record timelineable =
  tiID :: string
  tiAccountID :: string
  tiBoostOfID :: string
  tiBoostOfAccountID :: string

record preparable =
  prID :: string
  prAccountID :: string
  prBoostOfID :: string
  prBoostOfAccountID :: string

record entry =
  itemID :: string
  boostOfID :: string
  accountID :: string
  boostOfAccountID :: string
  prepared :: "preparable option"

text \<open>
  The errors the code tells apart: the status is hidden by a filter, the database has no such
  row, anything else; and the two failures \<open>Get\<close> adds itself.
\<close>

datatype tl_error = HideStatus | NoEntries | OtherErr string | SwitchExhausted | MakeSlicePanic

type_synonym skip_fn =
  "string \<Rightarrow> string \<Rightarrow> string \<Rightarrow> string \<Rightarrow> string \<Rightarrow> string \<Rightarrow> string \<Rightarrow> string \<Rightarrow> nat \<Rightarrow> tl_error + bool"

definition idHighest :: string where
  "idHighest = ''ZZZZZZZZZZZZZZZZZZZZZZZZZZ''"

definition idLowest :: string where
  "idLowest = ''00000000000000000000000000''"

subsection \<open>Insertion\<close>

definition boostReinsertionDepth :: nat where
  "boostReinsertionDepth = 50"

definition skipInsert :: skip_fn where
  "skipInsert newItemID newItemAccountID newItemBoostOfID newItemBoostOfAccountID
     nextItemID nextItemAccountID nextItemBoostOfID nextItemBoostOfAccountID depth =
     (if newItemID = nextItemID then Inr True
      else if newItemBoostOfID \<noteq> [] then
        (if newItemBoostOfID = nextItemBoostOfID \<and> depth < boostReinsertionDepth then Inr True
         else if newItemBoostOfID = nextItemID \<and> depth < boostReinsertionDepth then Inr True
         else Inr False)
      else Inr False)"

text \<open>
  The loop of \<open>insertIndexed\<close>: \<open>i\<close> counts the elements already passed (so
  \<open>currentPosition\<close> is \<open>i + 1\<close>) and \<open>mark\<close> is the index of the element to insert before.
  The result is an error, \<open>None\<close> when the entry is to be skipped, or the mark.
\<close>

fun insertScan :: "skip_fn \<Rightarrow> entry \<Rightarrow> nat \<Rightarrow> nat option \<Rightarrow> entry list \<Rightarrow>
    tl_error + nat option option" where
  "insertScan skip new i mark [] = Inr (Some mark)"
| "insertScan skip new i mark (cur # es) =
     (case skip (itemID new) (accountID new) (boostOfID new) (boostOfAccountID new)
                (itemID cur) (accountID cur) (boostOfID cur) (boostOfAccountID cur) (i + 1) of
        Inl e \<Rightarrow> Inl e
      | Inr True \<Rightarrow> Inr None
      | Inr False \<Rightarrow>
          if mark \<noteq> None then insertScan skip new (i + 1) mark es
          else if itemID new < itemID cur then insertScan skip new (i + 1) None es
          else insertScan skip new (i + 1) (Some i) es)"

text \<open>
  \<open>insertIndexed\<close> returns the list and the index at which the entry now stands (in Go the
  caller keeps the pointer), or \<open>None\<close> when the entry was not inserted.
\<close>

definition insertIndexed :: "skip_fn \<Rightarrow> entry \<Rightarrow> entry list \<Rightarrow>
    (tl_error + nat option) \<times> entry list" where
  "insertIndexed skip new es =
     (if es = [] then (Inr (Some 0), [new])
      else
        (case insertScan skip new 0 None es of
           Inl e \<Rightarrow> (Inl e, es)
         | Inr None \<Rightarrow> (Inr None, es)
         | Inr (Some None) \<Rightarrow> (Inr (Some (length es)), es @ [new])
         | Inr (Some (Some i)) \<Rightarrow> (Inr (Some i), take i es @ new # drop i es)))"

definition newEntry :: "string \<Rightarrow> string \<Rightarrow> string \<Rightarrow> string \<Rightarrow> entry" where
  "newEntry i b a ba =
     \<lparr>itemID = i, boostOfID = b, accountID = a, boostOfAccountID = ba, prepared = None\<rparr>"

text \<open>\<open>IndexAndPrepareOne\<close>: whether the entry was inserted, the error, and the new list.\<close>

type_synonym prep_fn = "string \<Rightarrow> tl_error + preparable"

definition indexAndPrepareOne :: "skip_fn \<Rightarrow> prep_fn \<Rightarrow> string \<Rightarrow> string \<Rightarrow> string \<Rightarrow> string \<Rightarrow>
    entry list \<Rightarrow> (bool \<times> tl_error option) \<times> entry list" where
  "indexAndPrepareOne skip prep statusID boostID accID boostAccID es =
     (let new = newEntry statusID boostID accID boostAccID in
      case insertIndexed skip new es of
        (Inl e, es') \<Rightarrow> ((False, Some e), es')
      | (Inr None, es') \<Rightarrow> ((False, None), es')
      | (Inr (Some i), es') \<Rightarrow>
          (case prep statusID of
             Inl e \<Rightarrow> ((True, Some e), es')
           | Inr p \<Rightarrow> ((True, None), es'[i := new\<lparr>prepared := Some p\<rparr>])))"

subsection \<open>Grabbing and indexing more items\<close>

type_synonym grab_fn =
  "string \<Rightarrow> string \<Rightarrow> string \<Rightarrow> int \<Rightarrow> tl_error + (timelineable list \<times> bool)"

type_synonym filter_fn = "timelineable \<Rightarrow> tl_error + bool"

fun filterItems :: "filter_fn \<Rightarrow> timelineable list \<Rightarrow> tl_error + timelineable list" where
  "filterItems flt [] = Inr []"
| "filterItems flt (it # its) =
     (case flt it of
        Inl e \<Rightarrow> if e \<noteq> NoEntries then Inl e else filterItems flt its
      | Inr ok \<Rightarrow>
          (case filterItems flt its of
             Inl e \<Rightarrow> Inl e
           | Inr rest \<Rightarrow> Inr (if ok then it # rest else rest)))"

fun grabLoop :: "grab_fn \<Rightarrow> filter_fn \<Rightarrow> nat \<Rightarrow> int \<Rightarrow> string \<Rightarrow> string \<Rightarrow> bool \<Rightarrow> string \<Rightarrow> string \<Rightarrow>
    string \<Rightarrow> timelineable list \<Rightarrow> tl_error + timelineable list" where
  "grabLoop grab flt 0 amount behindID beforeID ftb mx since mn filtered = Inr filtered"
| "grabLoop grab flt (Suc attempts) amount behindID beforeID ftb mx since mn filtered =
     (if amount \<le> int (length filtered) then Inr filtered
      else
        (case grab mx since mn (amount - int (length filtered)) of
           Inl e \<Rightarrow> Inl e
         | Inr (items, stop) \<Rightarrow>
             if stop \<or> items = [] then Inr filtered
             else
               (let mx' = (if ftb then tiID (last items) else mx);
                    mn' = (if ftb then mn else tiID (hd items))
                in if (if ftb then mx' \<le> beforeID else behindID \<le> mn') then Inr filtered
                   else
                     (case filterItems flt items of
                        Inl e \<Rightarrow> Inl e
                      | Inr oks \<Rightarrow>
                          grabLoop grab flt attempts amount behindID beforeID ftb mx' since mn'
                            (filtered @ oks)))))"

definition grabItems :: "grab_fn \<Rightarrow> filter_fn \<Rightarrow> int \<Rightarrow> string \<Rightarrow> string \<Rightarrow> bool \<Rightarrow>
    tl_error + timelineable list" where
  "grabItems grab flt amount behindID beforeID ftb =
     (let since = (if ftb then beforeID else []);
          mn = (if ftb then [] else beforeID)
      in grabLoop grab flt 5 amount behindID beforeID ftb behindID since mn [])"

text \<open>The marks of \<open>indexXBetweenIDs\<close>: the positions of \<open>behindID\<close> and \<open>beforeID\<close>.\<close>

fun markScan :: "string \<Rightarrow> string \<Rightarrow> nat \<Rightarrow> nat \<Rightarrow> nat \<Rightarrow> entry list \<Rightarrow> nat \<times> nat" where
  "markScan behindID beforeID position behindPos beforePos [] = (behindPos, beforePos)"
| "markScan behindID beforeID position behindPos beforePos (e # es) =
     (let position = position + 1 in
      if behindID < itemID e then markScan behindID beforeID position behindPos beforePos es
      else
        (let behindPos = (if behindPos = 0 then position else behindPos);
             beforePos = (if beforeID \<le> itemID e then position else beforePos)
         in if itemID e \<le> beforeID then (behindPos, beforePos)
            else markScan behindID beforeID position behindPos beforePos es))"

fun insertAll :: "skip_fn \<Rightarrow> timelineable list \<Rightarrow> entry list \<Rightarrow> tl_error option \<times> entry list" where
  "insertAll skip [] es = (None, es)"
| "insertAll skip (it # its) es =
     (case insertIndexed skip (newEntry (tiID it) (tiBoostOfID it) (tiAccountID it)
                                        (tiBoostOfAccountID it)) es of
        (Inl e, es') \<Rightarrow> (Some e, es')
      | (Inr _, es') \<Rightarrow> insertAll skip its es')"

definition indexXBetweenIDs :: "skip_fn \<Rightarrow> grab_fn \<Rightarrow> filter_fn \<Rightarrow> int \<Rightarrow> string \<Rightarrow> string \<Rightarrow> bool \<Rightarrow>
    entry list \<Rightarrow> tl_error option \<times> entry list" where
  "indexXBetweenIDs skip grab flt amount behindID beforeID ftb es =
     (if behindID \<le> beforeID then (None, es)
      else
        (let (behindPos, beforePos) = markScan behindID beforeID 0 0 0 es;
             listLen = int (length es);
             grabMore = (listLen < amount \<or> int beforePos - int behindPos < amount);
             amount' = (if listLen < amount then amount - listLen else amount)
         in if \<not> grabMore then (None, es)
            else
              (case grabItems grab flt amount' behindID beforeID ftb of
                 Inl e \<Rightarrow> (Some e, es)
               | Inr items \<Rightarrow> insertAll skip items es)))"

definition indexLen :: "entry list \<Rightarrow> nat" where
  "indexLen es = length es"

definition oldestIndexedItemID :: "entry list \<Rightarrow> string" where
  "oldestIndexedItemID es = (if es = [] then [] else itemID (last es))"

subsection \<open>Removing, unpreparing, pruning\<close>

text \<open>
  \<open>Prune\<close>: the scan from the front, with the position of the element and the number pruned;
  the elements beyond the indexed length go.
\<close>

fun pruneScan :: "int \<Rightarrow> int \<Rightarrow> int \<Rightarrow> nat \<Rightarrow> entry list \<Rightarrow> nat \<times> entry list" where
  "pruneScan desPrep desIdx position pruned [] = (pruned, [])"
| "pruneScan desPrep desIdx position pruned (e # es) =
     (let position = position + 1 in
      if position \<le> desPrep then
        (let (n, rest) = pruneScan desPrep desIdx position pruned es in (n, e # rest))
      else if desIdx < position then pruneScan desPrep desIdx position (pruned + 1) es
      else if prepared e = None then
        (let (n, rest) = pruneScan desPrep desIdx position pruned es in (n, e # rest))
      else
        (let (n, rest) = pruneScan desPrep desIdx position (pruned + 1) es
         in (n, e\<lparr>prepared := None\<rparr> # rest)))"

definition pruneIndex :: "int \<Rightarrow> int \<Rightarrow> entry list \<Rightarrow> nat \<times> entry list" where
  "pruneIndex desPrep desIdx es = pruneScan desPrep desIdx 0 0 es"

text \<open>\<open>Remove\<close> and \<open>RemoveAllByOrBoosting\<close>: the relevant elements are collected, then removed.\<close>

fun relevantAt :: "(entry \<Rightarrow> bool) \<Rightarrow> nat \<Rightarrow> entry list \<Rightarrow> nat list" where
  "relevantAt P i [] = []"
| "relevantAt P i (e # es) = (if P e then i # relevantAt P (i + 1) es else relevantAt P (i + 1) es)"

definition removeAt :: "nat list \<Rightarrow> entry list \<Rightarrow> entry list" where
  "removeAt is es = nths es (- set is)"

definition removeItem :: "string \<Rightarrow> entry list \<Rightarrow> nat \<times> entry list" where
  "removeItem statusID es =
     (let toRemove = relevantAt (\<lambda>e. itemID e = statusID) 0 es
      in (length toRemove, removeAt toRemove es))"

definition removeAllByOrBoosting :: "string \<Rightarrow> entry list \<Rightarrow> nat \<times> entry list" where
  "removeAllByOrBoosting accID es =
     (let toRemove = relevantAt (\<lambda>e. accountID e = accID \<or> boostOfAccountID e = accID) 0 es
      in (length toRemove, removeAt toRemove es))"

fun unprepareItem :: "string \<Rightarrow> entry list \<Rightarrow> entry list" where
  "unprepareItem i [] = []"
| "unprepareItem i (e # es) =
     (if itemID e \<noteq> i \<and> boostOfID e \<noteq> i then e
      else if prepared e = None then e
      else e\<lparr>prepared := None\<rparr>) # unprepareItem i es"


subsection \<open>The order of the index\<close>

definition newestFirst :: "entry list \<Rightarrow> bool" where
  "newestFirst es \<longleftrightarrow> sorted_wrt (\<lambda>a b. itemID b < itemID a) es"

definition itemIDs :: "entry list \<Rightarrow> string list" where
  "itemIDs es = map itemID es"

lemma newestFirst_map: "newestFirst es \<longleftrightarrow> sorted_wrt (\<lambda>a b. b < a) (itemIDs es)"
  by (simp add: newestFirst_def itemIDs_def sorted_wrt_map)

lemma newestFirst_distinct: "newestFirst es \<Longrightarrow> distinct (itemIDs es)"
  unfolding newestFirst_def itemIDs_def by (induction es) auto

lemma newestFirst_cong: "itemIDs es = itemIDs es' \<Longrightarrow> newestFirst es \<longleftrightarrow> newestFirst es'"
  by (simp add: newestFirst_map)

lemma newestFirst_subseq: "subseq (itemIDs es') (itemIDs es) \<Longrightarrow> newestFirst es \<Longrightarrow> newestFirst es'"
  unfolding newestFirst_map by (rule sorted_wrt_subseq)

lemma newestFirst_insert:
  assumes "newestFirst es" and "itemID new \<notin> set (itemIDs es)"
  shows "newestFirst (takeWhile (\<lambda>e. itemID new < itemID e) es @ new #
            dropWhile (\<lambda>e. itemID new < itemID e) es)"
  using assms
proof (induction es)
  case (Cons e es)
  show ?case
  proof (cases "itemID new < itemID e")
    case True
    have "set (takeWhile P es @ new # dropWhile P es) = insert new (set es)" for P
      by (metis Un_insert_right list.simps(15) set_append takeWhile_dropWhile_id)
    with True Cons show ?thesis by (auto simp: newestFirst_def itemIDs_def)
  next
    case False
    with Cons.prems have "itemID e < itemID new" by (auto simp: itemIDs_def)
    with False Cons.prems show ?thesis by (auto simp: newestFirst_def intro: less_trans)
  qed
qed (simp add: newestFirst_def)

text \<open>
  The contract of the skip function, on which the index relies for being free of duplicates:
  an entry is never inserted beside one of the same ID.
\<close>

locale skip_contract =
  fixes skip :: skip_fn
  assumes skip_same: "skip i a b ba i a' b' ba' d = Inr True"
begin

lemma insertScan_marked:
  "insertScan skip new i (Some j) es = Inr (Some m) \<Longrightarrow>
    m = Some j \<and> itemID new \<notin> set (itemIDs es)"
  by (induction es arbitrary: i)
    (auto simp: itemIDs_def skip_same split: sum.splits bool.splits if_splits)

lemma insertScan_mark:
  "insertScan skip new i None es = Inr (Some m) \<Longrightarrow>
    itemID new \<notin> set (itemIDs es) \<and>
    (let k = length (takeWhile (\<lambda>e. itemID new < itemID e) es) in
     m = (if k < length es then Some (i + k) else None))"
proof (induction es arbitrary: i)
  case (Cons e es)
  have ne: "itemID new \<noteq> itemID e"
    using Cons.prems by (auto simp: skip_same)
  show ?case
  proof (cases "itemID new < itemID e")
    case True
    with Cons.prems have "insertScan skip new (Suc i) None es = Inr (Some m)"
      by (auto split: sum.splits bool.splits)
    from Cons.IH [OF this] True ne show ?thesis by (auto simp: itemIDs_def Let_def)
  next
    case False
    with Cons.prems have "insertScan skip new (Suc i) (Some i) es = Inr (Some m)"
      by (auto split: sum.splits bool.splits)
    from insertScan_marked [OF this] False ne show ?thesis by (auto simp: itemIDs_def)
  qed
qed (simp add: itemIDs_def)

lemma insertIndexed_cases:
  assumes "insertIndexed skip new es = (r, es')"
  obtains (kept) "es' = es" and "\<And>i. r \<noteq> Inr (Some i)"
  | (inserted) i where "r = Inr (Some i)" and "i < length es'" and "es' ! i = new"
      and "itemID new \<notin> set (itemIDs es)"
      and "es' = takeWhile (\<lambda>e. itemID new < itemID e) es @ new #
                 dropWhile (\<lambda>e. itemID new < itemID e) es"
proof (cases "es = []")
  case True
  with assms have "r = Inr (Some 0)" "es' = [new]" by (auto simp: insertIndexed_def)
  with True inserted [of 0] show ?thesis by (simp add: itemIDs_def)
next
  case False
  let ?k = "length (takeWhile (\<lambda>e. itemID new < itemID e) es)"
  show ?thesis
  proof (cases "insertScan skip new 0 None es")
    case (Inl e)
    with assms False kept show ?thesis by (auto simp: insertIndexed_def)
  next
    case (Inr mo)
    show ?thesis
    proof (cases mo)
      case None
      with Inr assms False kept show ?thesis by (auto simp: insertIndexed_def)
    next
      case (Some m)
      note mark = insertScan_mark [OF Inr [unfolded Some]]
      have td: "take ?k es = takeWhile (\<lambda>e. itemID new < itemID e) es"
        "drop ?k es = dropWhile (\<lambda>e. itemID new < itemID e) es"
        by (metis takeWhile_eq_take, metis dropWhile_eq_drop)
      have le: "?k \<le> length es" by (rule length_takeWhile_le)
      have m: "r = Inr (Some ?k)" "es' = take ?k es @ new # drop ?k es"
        using assms False Inr Some mark le
        by (auto simp: insertIndexed_def Let_def split: if_splits option.splits)
      show ?thesis
        by (rule inserted [of ?k]) (use m td le mark in \<open>auto simp: Let_def nth_append\<close>)
    qed
  qed
qed

lemma insertIndexed_newestFirst:
  "insertIndexed skip new es = (r, es') \<Longrightarrow> newestFirst es \<Longrightarrow> newestFirst es'"
  by (erule insertIndexed_cases) (auto intro: newestFirst_insert)

lemma insertAll_newestFirst:
  "insertAll skip its es = (r, es') \<Longrightarrow> newestFirst es \<Longrightarrow> newestFirst es'"
proof (induction its arbitrary: es)
  case (Cons it its)
  then show ?case
    by (auto split: prod.splits sum.splits dest: insertIndexed_newestFirst)
qed simp

lemma indexXBetweenIDs_newestFirst:
  "indexXBetweenIDs skip grab flt amount behindID beforeID ftb es = (r, es') \<Longrightarrow>
    newestFirst es \<Longrightarrow> newestFirst es'"
  by (auto simp: indexXBetweenIDs_def Let_def split: prod.splits sum.splits if_splits
      dest: insertAll_newestFirst)

lemma indexAndPrepareOne_newestFirst:
  assumes "indexAndPrepareOne skip prep s b a ba es = (r, es')" and "newestFirst es"
  shows "newestFirst es'"
proof (cases "insertIndexed skip (newEntry s b a ba) es")
  case (Pair q es1)
  then have n: "newestFirst es1" using insertIndexed_newestFirst assms(2) by blast
  show ?thesis
  proof (cases "\<exists>i p. q = Inr (Some i) \<and> prep s = Inr p")
    case False
    with Pair assms(1) have "es' = es1"
      by (auto simp: indexAndPrepareOne_def Let_def split: sum.splits option.splits)
    with n show ?thesis by simp
  next
    case True
    then obtain i p where ip: "q = Inr (Some i)" "prep s = Inr p" by blast
    with Pair assms(1) have es': "es' = es1[i := (newEntry s b a ba)\<lparr>prepared := Some p\<rparr>]"
      by (simp add: indexAndPrepareOne_def Let_def)
    have "es1 ! i = newEntry s b a ba"
      by (rule insertIndexed_cases [OF Pair]) (use ip(1) in blast, use ip(1) in auto)
    then have "itemIDs es' = itemIDs es1"
      unfolding es' itemIDs_def map_update
      by (cases "i < length es1") (simp_all add: list_update_same_conv list_update_beyond)
    with n show ?thesis using newestFirst_cong by blast
  qed
qed

end

interpretation boosts: skip_contract skipInsert
  by unfold_locales (simp add: skipInsert_def)


subsection \<open>What insertion, removal and pruning do\<close>

text \<open>
  When the skip function of the processor refuses an entry: one with its ID is in the index,
  or it boosts what was seen, or boosted, among the 49 newest entries.
\<close>

definition recentlySeen :: "entry \<Rightarrow> nat \<Rightarrow> entry list \<Rightarrow> bool" where
  "recentlySeen new n es \<longleftrightarrow> boostOfID new \<noteq> [] \<and>
     (\<exists>e \<in> set (take n es). boostOfID e = boostOfID new \<or> itemID e = boostOfID new)"

lemma insertScan_skipInsert:
  "insertScan skipInsert new i mark es \<noteq> Inl err"
  "insertScan skipInsert new i mark es = Inr None \<longleftrightarrow>
     itemID new \<in> set (itemIDs es) \<or> recentlySeen new (49 - i) es"
proof (induction es arbitrary: i mark)
  case (Cons e es)
  {
    case 1
    from Cons(1) show ?case by (auto simp: skipInsert_def)
  next
    case 2
    have t: "set (take (49 - i) (e # es)) =
        (if i < 49 then insert e (set (take (49 - Suc i) es)) else {})"
    proof (cases "i < 49")
      case True
      then have "49 - i = Suc (49 - Suc i)" by simp
      with True show ?thesis by (simp only: take_Suc_Cons list.set if_True)
    qed simp
    show ?case
      using Cons(2) [of "Suc i"]
      by (auto simp: skipInsert_def boostReinsertionDepth_def recentlySeen_def itemIDs_def t)
  }
qed (simp_all add: itemIDs_def recentlySeen_def)

lemma insertIndexed_skipInsert:
  "insertIndexed skipInsert new es =
    (if itemID new \<in> set (itemIDs es) \<or> recentlySeen new 49 es then (Inr None, es)
     else (Inr (Some (length (takeWhile (\<lambda>e. itemID new < itemID e) es))),
           takeWhile (\<lambda>e. itemID new < itemID e) es @ new #
           dropWhile (\<lambda>e. itemID new < itemID e) es))"
    (is "_ = (if ?skip then _ else (Inr (Some ?k), _))")
proof (cases "es = []")
  case True
  then show ?thesis by (simp add: insertIndexed_def itemIDs_def recentlySeen_def)
next
  case False
  have td: "take ?k es = takeWhile (\<lambda>e. itemID new < itemID e) es"
      "drop ?k es = dropWhile (\<lambda>e. itemID new < itemID e) es"
    by (metis takeWhile_eq_take, metis dropWhile_eq_drop)
  show ?thesis
  proof (cases "insertScan skipInsert new 0 None es")
    case (Inl e)
    then show ?thesis using insertScan_skipInsert(1) by metis
  next
    case (Inr mo)
    show ?thesis
    proof (cases mo)
      case None
      then have ?skip using Inr insertScan_skipInsert(2) [of new 0 None es] by simp
      with None Inr False show ?thesis by (simp add: insertIndexed_def)
    next
      case (Some m)
      then have "\<not> ?skip" using Inr insertScan_skipInsert(2) [of new 0 None es] by simp
      moreover have "?k \<le> length es" by (rule length_takeWhile_le)
      moreover note boosts.insertScan_mark [OF Inr [unfolded Some]]
      ultimately show ?thesis
        using Some Inr False td by (auto simp: insertIndexed_def Let_def split: if_splits)
    qed
  qed
qed

lemma relevantAt_set:
  "set (relevantAt P i es) = {j. i \<le> j \<and> j < i + length es \<and> P (es ! (j - i))}"
proof (induction es arbitrary: i)
  case (Cons e es)
  have "{j. i \<le> j \<and> j < i + length (e # es) \<and> P ((e # es) ! (j - i))} =
      (if P e then {i} else {}) \<union>
      {j. Suc i \<le> j \<and> j < Suc i + length es \<and> P (es ! (j - Suc i))}" (is "?A = ?B")
  proof (rule set_eqI)
    fix j
    show "j \<in> ?A \<longleftrightarrow> j \<in> ?B"
    proof (cases "i < j")
      case True
      then have "j - i = Suc (j - Suc i)" by simp
      with True show ?thesis by auto
    qed auto
  qed
  with Cons [of "Suc i"] show ?case by auto
qed simp

lemma removeAt_relevant: "removeAt (relevantAt P 0 es) es = filter (\<lambda>e. \<not> P e) es"
  unfolding removeAt_def relevantAt_set filter_eq_nths [of "\<lambda>e. \<not> P e"]
  unfolding nths_def by (rule arg_cong [where f = "map fst"], rule filter_cong) (auto simp: set_zip)

lemma length_relevantAt: "length (relevantAt P i es) = length (filter P es)"
  by (induction es arbitrary: i) auto

lemma removeItem_eq:
  "removeItem i es = (length (filter (\<lambda>e. itemID e = i) es), filter (\<lambda>e. itemID e \<noteq> i) es)"
  by (simp add: removeItem_def removeAt_relevant length_relevantAt Let_def)

lemma removeAllByOrBoosting_eq:
  "removeAllByOrBoosting a es =
    (length (filter (\<lambda>e. accountID e = a \<or> boostOfAccountID e = a) es),
     filter (\<lambda>e. accountID e \<noteq> a \<and> boostOfAccountID e \<noteq> a) es)"
  by (simp add: removeAllByOrBoosting_def removeAt_relevant length_relevantAt Let_def)

lemma unprepareItem_eq:
  "unprepareItem i es =
    map (\<lambda>e. if itemID e = i \<or> boostOfID e = i then e\<lparr>prepared := None\<rparr> else e) es"
  by (induction es) auto

definition unprep :: "entry \<Rightarrow> entry" where
  "unprep e = e\<lparr>prepared := None\<rparr>"

lemma unprep_none: "prepared e = None \<Longrightarrow> unprep e = e"
  by (simp add: unprep_def)

lemma pruneScan_eq:
  "pruneScan dp di pos n es =
    (let a = nat (dp - pos); b = nat (max dp di - pos) in
     (n + length (drop b es) + length (filter (\<lambda>e. prepared e \<noteq> None) (drop a (take b es))),
      take a es @ map unprep (drop a (take b es))))"
proof (induction es arbitrary: pos n)
  case (Cons e es)
  let ?p = "pos + 1"
  have S: "nat (x - pos) = Suc (nat (x - ?p))" if "?p \<le> x" for x
    using that by linarith
  have Z: "nat (x - pos) = 0" "nat (x - ?p) = 0" if "x < ?p" for x
    using that by linarith+
  consider (prep) "?p \<le> dp" | (beyond) "\<not> ?p \<le> dp" "di < ?p" | (mid) "\<not> ?p \<le> dp" "\<not> di < ?p"
    by linarith
  then show ?case
  proof cases
    case prep
    then have "nat (dp - pos) = Suc (nat (dp - ?p))"
        "nat (max dp di - pos) = Suc (nat (max dp di - ?p))"
      using S [of dp] S [of "max dp di"] by linarith+
    then show ?thesis
      unfolding pruneScan.simps Let_def Cons.IH if_P [OF prep] by simp
  next
    case beyond
    then have "max dp di < ?p" "dp < ?p" by linarith+
    then show ?thesis
      unfolding pruneScan.simps Let_def Cons.IH if_not_P [OF beyond(1)] if_P [OF beyond(2)]
      by (simp only: Z) simp
  next
    case mid
    then have "nat (dp - pos) = 0" "nat (dp - ?p) = 0"
        "nat (di - pos) = Suc (nat (di - ?p))" "max dp di = di"
      using Z [of dp] S [of di] by linarith+
    then show ?thesis
      unfolding pruneScan.simps Let_def Cons.IH if_not_P [OF mid(1)] if_not_P [OF mid(2)]
      by (cases "prepared e") (simp_all add: unprep_def)
  qed
qed simp

lemma pruneIndex_eq:
  "pruneIndex dp di es =
    (let a = nat dp; b = nat (max dp di) in
     (length (drop b es) + length (filter (\<lambda>e. prepared e \<noteq> None) (drop a (take b es))),
      take a es @ map unprep (drop a (take b es))))"
  by (simp add: pruneIndex_def pruneScan_eq Let_def)

end
