(* ===== verification/Timeline.thy ===== *)
theory Timeline
  imports TimelineIndex
begin

text \<open>
  Serving a timeline, \<open>src/internal/timeline/prepare.go\<close>, \<open>get.go\<close>, \<open>timeline.go\<close>, and the
  manager of all timelines, \<open>manager.go\<close>. The grab, filter and prepare functions that a
  timeline is created with read the database: they are arguments of each operation, so that
  two operations of a history may see different databases.
\<close>

subsection \<open>Preparing entries between two IDs\<close>

text \<open>
  The scan that collects the elements to prepare; an element is its index in the list.
\<close>

fun toPrepareDown :: "int \<Rightarrow> string \<Rightarrow> string \<Rightarrow> int \<Rightarrow> (nat \<times> entry) list \<Rightarrow> nat list" where
  "toPrepareDown amount behindID beforeID found [] = []"
| "toPrepareDown amount behindID beforeID found ((i, e) # es) =
     (if behindID < itemID e then toPrepareDown amount behindID beforeID found es
      else if itemID e < beforeID then []
      else
        (let here = (if prepared e = None then [i] else []); found = found + 1
         in if amount \<le> found then here
            else here @ toPrepareDown amount behindID beforeID found es))"

fun toPrepareUp :: "int \<Rightarrow> string \<Rightarrow> string \<Rightarrow> int \<Rightarrow> (nat \<times> entry) list \<Rightarrow> nat list" where
  "toPrepareUp amount behindID beforeID found [] = []"
| "toPrepareUp amount behindID beforeID found ((i, e) # es) =
     (if itemID e < beforeID then toPrepareUp amount behindID beforeID found es
      else if behindID < itemID e then []
      else
        (let here = (if prepared e = None then [i] else []); found = found + 1
         in if amount \<le> found then here
            else here @ toPrepareUp amount behindID beforeID found es))"

text \<open>
  The loop over the collected elements. \<open>None\<close> in the list is an element already removed;
  the order in which Go ranges over the map of elements is the argument \<open>ord\<close> of
  \<open>prepareXBetweenIDs\<close>.
\<close>

fun prepareLoop :: "prep_fn \<Rightarrow> nat list \<Rightarrow> entry option list \<Rightarrow> tl_error option \<times> entry option list"
  where
  "prepareLoop prep [] es = (None, es)"
| "prepareLoop prep (i # is) es =
     (case es ! i of
        None \<Rightarrow> prepareLoop prep is es
      | Some e \<Rightarrow>
          (case prep (itemID e) of
             Inl HideStatus \<Rightarrow> prepareLoop prep is (es[i := None])
           | Inl NoEntries \<Rightarrow> prepareLoop prep is (es[i := None])
           | Inl err \<Rightarrow> (Some err, es)
           | Inr p \<Rightarrow> prepareLoop prep is (es[i := Some (e\<lparr>prepared := Some p\<rparr>)])))"

definition compact :: "entry option list \<Rightarrow> entry list" where
  "compact es = map the (filter (\<lambda>e. e \<noteq> None) es)"

record timeline_fns =
  fnSkip :: skip_fn
  fnGrab :: grab_fn
  fnFilter :: filter_fn
  fnPrepare :: prep_fn
  fnOrd :: "nat list \<Rightarrow> nat list"

definition prepareXBetweenIDs :: "timeline_fns \<Rightarrow> int \<Rightarrow> string \<Rightarrow> string \<Rightarrow> bool \<Rightarrow> entry list \<Rightarrow>
    tl_error option \<times> entry list" where
  "prepareXBetweenIDs F amount behindID beforeID ftb es =
     (if behindID \<le> beforeID then (None, es)
      else
        (let (_, es1) = indexXBetweenIDs (fnSkip F) (fnGrab F) (fnFilter F) amount behindID beforeID
                          ftb es;
             numbered = enumerate 0 es1;
             toPrepare = (if ftb then toPrepareDown amount behindID beforeID 0 numbered
                          else toPrepareUp amount behindID beforeID 0 (rev numbered));
             (err, es2) = prepareLoop (fnPrepare F) (fnOrd F toPrepare) (map Some es1)
         in (err, compact es2)))"

subsection \<open>Serving items between two IDs\<close>

text \<open>
  Front to back: the items served, or the error that stops the loop, and the list after the
  deferred removals. An entry that cannot be prepared because it is gone is dropped.
\<close>

fun serveDown :: "prep_fn \<Rightarrow> int \<Rightarrow> string \<Rightarrow> string \<Rightarrow> int \<Rightarrow> entry list \<Rightarrow>
    (tl_error + preparable list) \<times> entry list" where
  "serveDown prep amount behindID beforeID served [] = (Inr [], [])"
| "serveDown prep amount behindID beforeID served (e # es) =
     (if behindID \<le> itemID e then
        (let (r, es') = serveDown prep amount behindID beforeID served es in (r, e # es'))
      else if itemID e \<le> beforeID then (Inr [], e # es)
      else
        (case (case prepared e of Some p \<Rightarrow> Inr p | None \<Rightarrow> prep (itemID e)) of
           Inl NoEntries \<Rightarrow> serveDown prep amount behindID beforeID served es
         | Inl err \<Rightarrow> (Inl err, e # es)
         | Inr p \<Rightarrow>
             (let e' = e\<lparr>prepared := Some p\<rparr>; served = served + 1
              in if served < amount then
                   (let (r, es') = serveDown prep amount behindID beforeID served es
                    in (map_sum id ((#) p) r, e' # es'))
                 else (Inr [p], e' # es))))"

text \<open>
  Back to front: the entries up to and including the mark, the first entry that is not newer
  than \<open>beforeID\<close> (or the last entry of the list), are ranged over from the mark upwards.
\<close>

fun uptoMark :: "string \<Rightarrow> entry list \<Rightarrow> entry list \<times> entry list" where
  "uptoMark beforeID [] = ([], [])"
| "uptoMark beforeID (e # es) =
     (if itemID e \<le> beforeID then ([e], es)
      else (let (xs, ys) = uptoMark beforeID es in (e # xs, ys)))"

fun serveUp :: "prep_fn \<Rightarrow> int \<Rightarrow> string \<Rightarrow> string \<Rightarrow> int \<Rightarrow> entry list \<Rightarrow>
    (tl_error + preparable list) \<times> entry list" where
  "serveUp prep amount behindID beforeID served [] = (Inr [], [])"
| "serveUp prep amount behindID beforeID served (e # es) =
     (if itemID e = beforeID then
        (let (r, es') = serveUp prep amount behindID beforeID served es in (r, e # es'))
      else if behindID \<le> itemID e then (Inr [], e # es)
      else
        (case (case prepared e of Some p \<Rightarrow> Inr p | None \<Rightarrow> prep (itemID e)) of
           Inl NoEntries \<Rightarrow> serveUp prep amount behindID beforeID served es
         | Inl err \<Rightarrow> (Inl err, e # es)
         | Inr p \<Rightarrow>
             (let e' = e\<lparr>prepared := Some p\<rparr>; served = served + 1
              in if amount \<le> served then (Inr [p], e' # es)
                 else
                   (let (r, es') = serveUp prep amount behindID beforeID served es
                    in (map_sum id ((#) p) r, e' # es')))))"

text \<open>
  \<open>getXBetweenIDs\<close>; \<open>make\<close> panics on a negative capacity before anything else happens. The
  items that \<open>serveUp\<close> appends are reversed at the end.
\<close>

definition getXBetweenIDs :: "timeline_fns \<Rightarrow> int \<Rightarrow> string \<Rightarrow> string \<Rightarrow> bool \<Rightarrow> entry list \<Rightarrow>
    (tl_error + preparable list) \<times> entry list" where
  "getXBetweenIDs F amount behindID beforeID ftb es =
     (if amount < 0 then (Inl MakeSlicePanic, es)
      else if behindID \<le> beforeID then (Inr [], es)
      else
        (let es1 = snd (prepareXBetweenIDs F amount behindID beforeID ftb es)
         in if ftb then serveDown (fnPrepare F) amount behindID beforeID 0 es1
            else
              (let (upper, lower) = uptoMark beforeID es1;
                   (r, upper') = serveUp (fnPrepare F) amount behindID beforeID 0 (rev upper)
               in (map_sum id rev r, rev upper' @ lower))))"

subsection \<open>Timelines\<close>

record timeline =
  tlItems :: "entry list"
  tlLastGot :: time

definition newTimeline :: timeline where
  "newTimeline = \<lparr>tlItems = [], tlLastGot = 0\<rparr>"

text \<open>
  \<open>Get\<close>. The third component of the result is the query that is prepared in the background
  (\<open>maxID\<close>, \<open>sinceID\<close>, \<open>minID\<close>), if any: the goroutine is the operation
  \<open>prepareNextQuery\<close>, which runs some time later.
\<close>

datatype next_query = NextQuery string string string

definition scheduleDown :: "bool \<Rightarrow> string \<Rightarrow> tl_error + preparable list \<Rightarrow> next_query option" where
  "scheduleDown prepareNext since r =
     (case r of
        Inl _ \<Rightarrow> None
      | Inr items \<Rightarrow>
          if prepareNext \<and> items \<noteq> [] then Some (NextQuery (prID (last items)) since []) else None)"

definition scheduleUp :: "bool \<Rightarrow> tl_error + preparable list \<Rightarrow> next_query option" where
  "scheduleUp prepareNext r =
     (case r of
        Inl _ \<Rightarrow> None
      | Inr items \<Rightarrow>
          if prepareNext \<and> items \<noteq> [] then Some (NextQuery idHighest [] (prID (hd items))) else None)"

definition getRange :: "timeline_fns \<Rightarrow> int \<Rightarrow> string \<Rightarrow> string \<Rightarrow> string \<Rightarrow> bool \<Rightarrow> entry list \<Rightarrow>
    (tl_error + preparable list) \<times> next_query option \<times> entry list" where
  "getRange F amount mx since mn prepareNext es =
     (if mx = [] \<and> since = [] \<and> mn = [] then
        (let (r, es') = getXBetweenIDs F amount idHighest idLowest True es
         in (r, scheduleDown prepareNext [] r, es'))
      else if mx \<noteq> [] \<and> since = [] \<and> mn = [] then
        (let (r, es') = getXBetweenIDs F amount mx idLowest True es
         in (r, scheduleDown prepareNext [] r, es'))
      else if mx \<noteq> [] \<and> since \<noteq> [] then
        (let (r, es') = getXBetweenIDs F amount mx since True es
         in (r, scheduleDown prepareNext idLowest r, es'))
      else if mx \<noteq> [] \<and> mn \<noteq> [] then
        (let (r, es') = getXBetweenIDs F amount mx mn False es
         in (r, scheduleUp prepareNext r, es'))
      else if mx = [] \<and> since \<noteq> [] then
        (let (r, es') = getXBetweenIDs F amount idHighest since True es
         in (r, None, es'))
      else if mx = [] \<and> mn \<noteq> [] then
        (let (r, es') = getXBetweenIDs F amount idHighest mn False es
         in (r, scheduleUp prepareNext r, es'))
      else (Inl SwitchExhausted, None, es))"

definition getItems :: "timeline_fns \<Rightarrow> time \<Rightarrow> int \<Rightarrow> string \<Rightarrow> string \<Rightarrow> string \<Rightarrow> bool \<Rightarrow> timeline \<Rightarrow>
    (tl_error + preparable list) \<times> next_query option \<times> timeline" where
  "getItems F now amount mx since mn prepareNext t =
     (let t1 = t\<lparr>tlLastGot := now\<rparr>;
          (r, q, es') = getRange F amount mx since mn prepareNext (tlItems t1)
      in (r, q, t1\<lparr>tlItems := es'\<rparr>))"

definition prepareNextQuery :: "timeline_fns \<Rightarrow> int \<Rightarrow> next_query \<Rightarrow> entry list \<Rightarrow>
    tl_error option \<times> entry list" where
  "prepareNextQuery F amount q es =
     (case q of NextQuery mx since mn \<Rightarrow>
        if mx = [] \<and> since = [] \<and> mn = [] then prepareXBetweenIDs F amount idHighest idLowest True es
        else if mx \<noteq> [] \<and> since = [] \<and> mn = [] then prepareXBetweenIDs F amount mx idLowest True es
        else if mx \<noteq> [] \<and> since \<noteq> [] then prepareXBetweenIDs F amount mx since True es
        else if mx \<noteq> [] \<and> mn \<noteq> [] then prepareXBetweenIDs F amount mx mn False es
        else if mx = [] \<and> since \<noteq> [] then prepareXBetweenIDs F amount idHighest since True es
        else if mx = [] \<and> mn \<noteq> [] then prepareXBetweenIDs F amount idHighest mn False es
        else (Some SwitchExhausted, es))"

subsection \<open>The manager\<close>

type_synonym manager = "string \<rightharpoonup> timeline"

definition getOrCreateTimeline :: "string \<Rightarrow> manager \<Rightarrow> timeline \<times> manager" where
  "getOrCreateTimeline tid m =
     (case m tid of
        Some t \<Rightarrow> (t, m)
      | None \<Rightarrow> (newTimeline, m(tid \<mapsto> newTimeline)))"

text \<open>A method call on the timeline of the manager, which is shared by pointer.\<close>

definition onItems :: "string \<Rightarrow> (entry list \<Rightarrow> 'r \<times> entry list) \<Rightarrow> manager \<Rightarrow> 'r \<times> manager" where
  "onItems tid f m =
     (let (t, m1) = getOrCreateTimeline tid m; (r, es) = f (tlItems t)
      in (r, m1(tid \<mapsto> t\<lparr>tlItems := es\<rparr>)))"

definition ingestOne :: "timeline_fns \<Rightarrow> string \<Rightarrow> timelineable \<Rightarrow> manager \<Rightarrow>
    (bool \<times> tl_error option) \<times> manager" where
  "ingestOne F tid it m =
     onItems tid (indexAndPrepareOne (fnSkip F) (fnPrepare F) (tiID it) (tiBoostOfID it)
                    (tiAccountID it) (tiBoostOfAccountID it)) m"

definition managerRemove :: "string \<Rightarrow> string \<Rightarrow> manager \<Rightarrow> nat \<times> manager" where
  "managerRemove tid i m = onItems tid (removeItem i) m"

definition removeTimeline :: "string \<Rightarrow> manager \<Rightarrow> manager" where
  "removeTimeline tid m = m(tid := None)"

definition getTimeline :: "timeline_fns \<Rightarrow> time \<Rightarrow> string \<Rightarrow> string \<Rightarrow> string \<Rightarrow> string \<Rightarrow> int \<Rightarrow> manager \<Rightarrow>
    (tl_error + preparable list) \<times> next_query option \<times> manager" where
  "getTimeline F now tid mx since mn limit m =
     (let (t, m1) = getOrCreateTimeline tid m;
          (r, q, t') = getItems F now limit mx since mn True t
      in (r, q, m1(tid \<mapsto> t')))"

definition getIndexedLength :: "string \<Rightarrow> manager \<Rightarrow> nat \<times> manager" where
  "getIndexedLength tid m = onItems tid (\<lambda>es. (indexLen es, es)) m"

definition getOldestIndexedID :: "string \<Rightarrow> manager \<Rightarrow> string \<times> manager" where
  "getOldestIndexedID tid m = onItems tid (\<lambda>es. (oldestIndexedItemID es, es)) m"

definition wipeItemFromAllTimelines :: "string \<Rightarrow> manager \<Rightarrow> manager" where
  "wipeItemFromAllTimelines i m =
     (\<lambda>tid. map_option (\<lambda>t. t\<lparr>tlItems := snd (removeItem i (tlItems t))\<rparr>) (m tid))"

definition wipeItemsFromAccountID :: "string \<Rightarrow> string \<Rightarrow> manager \<Rightarrow> manager" where
  "wipeItemsFromAccountID tid acc m = snd (onItems tid (removeAllByOrBoosting acc) m)"

definition unprepareItemFromAllTimelines :: "string \<Rightarrow> manager \<Rightarrow> manager" where
  "unprepareItemFromAllTimelines i m =
     (\<lambda>tid. map_option (\<lambda>t. t\<lparr>tlItems := unprepareItem i (tlItems t)\<rparr>) (m tid))"

definition managerUnprepareItem :: "string \<Rightarrow> string \<Rightarrow> manager \<Rightarrow> manager" where
  "managerUnprepareItem tid i m = snd (onItems tid (\<lambda>es. ((), unprepareItem i es)) m)"

definition managerPrune :: "string \<Rightarrow> int \<Rightarrow> int \<Rightarrow> manager \<Rightarrow> nat \<times> manager" where
  "managerPrune tid desPrep desIdx m = onItems tid (pruneIndex desPrep desIdx) m"

text \<open>
  The hourly job of \<open>Start\<close>: every timeline not fetched within the last hour is pruned.
\<close>

definition oneHour :: time where
  "oneHour = 3600 * 1000000000"

definition managerTick :: "time \<Rightarrow> manager \<Rightarrow> manager" where
  "managerTick now m =
     (\<lambda>tid. map_option
        (\<lambda>t. if now - tlLastGot t < oneHour then t
             else t\<lparr>tlItems := snd (pruneIndex 50 400 (tlItems t))\<rparr>) (m tid))"


subsection \<open>Invariants of the index under serving\<close>

definition preparedOK :: "entry list \<Rightarrow> bool" where
  "preparedOK es \<longleftrightarrow> (\<forall>e \<in> set es. \<forall>p. prepared e = Some p \<longrightarrow> prID p = itemID e)"

definition prepOK :: "prep_fn \<Rightarrow> bool" where
  "prepOK prep \<longleftrightarrow> (\<forall>i p. prep i = Inr p \<longrightarrow> prID p = i)"

definition tlInv :: "entry list \<Rightarrow> bool" where
  "tlInv es \<longleftrightarrow> newestFirst es \<and> preparedOK es"

lemma compact_simps [simp]:
  "compact [] = []" "compact (None # es) = compact es" "compact (Some e # es) = e # compact es"
  by (simp_all add: compact_def)

lemma compact_map_Some [simp]: "compact (map Some es) = es"
  by (induction es) auto

lemma compact_remove: "subseq (compact (es[i := None])) (compact es)"
proof (induction es arbitrary: i)
  case (Cons x es)
  then show ?case by (cases i; cases x) auto
qed simp

lemma compact_prepare:
  "es ! i = Some e \<Longrightarrow> itemID e' = itemID e \<Longrightarrow>
    itemIDs (compact (es[i := Some e'])) = itemIDs (compact es)"
proof (induction es arbitrary: i)
  case (Cons x es)
  then show ?case by (cases i; cases x) (auto simp: itemIDs_def)
qed simp

lemma set_compact: "set (compact es) = {e. Some e \<in> set es}"
  by (force simp: compact_def)

lemma subseq_itemIDs: "subseq xs ys \<Longrightarrow> subseq (itemIDs xs) (itemIDs ys)"
  unfolding itemIDs_def by (rule subseq_map)

lemma prepareLoop_subseq:
  "prepareLoop prep xs es = (r, es') \<Longrightarrow> subseq (itemIDs (compact es')) (itemIDs (compact es))"
proof (induction xs arbitrary: es)
  case (Cons i xs)
  show ?case
  proof (cases "es ! i")
    case None
    with Cons show ?thesis by simp
  next
    case (Some e)
    have rm: "subseq (itemIDs (compact (es[i := None]))) (itemIDs (compact es))"
      by (rule subseq_itemIDs, rule compact_remove)
    show ?thesis
    proof (cases "prep (itemID e)")
      case (Inl err)
      with Some Cons.prems Cons.IH [of "es[i := None]"] rm show ?thesis
        by (cases err) (auto dest: subseq_order.order_trans [OF _ rm])
    next
      case (Inr p)
      have "itemIDs (compact (es[i := Some (e\<lparr>prepared := Some p\<rparr>)])) = itemIDs (compact es)"
        by (rule compact_prepare [OF Some]) simp
      with Some Inr Cons.prems Cons.IH [of "es[i := Some (e\<lparr>prepared := Some p\<rparr>)]"]
      show ?thesis by auto
    qed
  qed
qed simp

lemma preparedOK_update:
  assumes "preparedOK (compact es)" and "es ! i = Some e" and "prepOK prep"
    and "prep (itemID e) = Inr p"
  shows "preparedOK (compact (es[i := Some (e\<lparr>prepared := Some p\<rparr>)]))"
  using assms set_update_subset_insert [of es i]
  by (fastforce simp: preparedOK_def set_compact prepOK_def)

lemma preparedOK_remove: "preparedOK (compact es) \<Longrightarrow> preparedOK (compact (es[i := None]))"
  using set_update_subset_insert [of es i None] by (auto simp: preparedOK_def set_compact)

lemma prepareLoop_preparedOK:
  assumes "prepOK prep"
  shows "prepareLoop prep xs es = (r, es') \<Longrightarrow> preparedOK (compact es) \<Longrightarrow>
    preparedOK (compact es')"
proof (induction xs arbitrary: es)
  case (Cons i xs)
  note pr = Cons.prems
  show ?case
  proof (cases "es ! i")
    case None
    with pr Cons.IH show ?thesis by simp
  next
    case (Some e)
    note rm = preparedOK_remove [OF pr(2), of i]
    show ?thesis
    proof (cases "prep (itemID e)")
      case (Inl err)
      with Some pr rm Cons.IH show ?thesis by (cases err) auto
    next
      case (Inr p)
      have "preparedOK (compact (es[i := Some (e\<lparr>prepared := Some p\<rparr>)]))"
        by (rule preparedOK_update [OF pr(2) Some assms Inr])
      with Some pr(1) Inr Cons.IH show ?thesis by simp
    qed
  qed
qed simp

lemma preparedOK_subset:
  "preparedOK es \<Longrightarrow> (\<And>e. e \<in> set es' \<Longrightarrow> prepared e = None \<or> e \<in> set es) \<Longrightarrow> preparedOK es'"
  unfolding preparedOK_def by force

lemma insertIndexed_set:
  "insertIndexed skip new es = (r, es') \<Longrightarrow> e \<in> set es' \<Longrightarrow> e = new \<or> e \<in> set es"
  by (auto simp: insertIndexed_def split: if_splits sum.splits option.splits
      dest: in_set_takeD in_set_dropD)

lemma insertAll_set:
  "insertAll skip its es = (r, es') \<Longrightarrow> e \<in> set es' \<Longrightarrow> prepared e = None \<or> e \<in> set es"
proof (induction its arbitrary: es)
  case (Cons it its)
  let ?new = "newEntry (tiID it) (tiBoostOfID it) (tiAccountID it) (tiBoostOfAccountID it)"
  obtain q es1 where q: "insertIndexed skip ?new es = (q, es1)" by fastforce
  have "prepared ?new = None" by (simp add: newEntry_def)
  then show ?case
    using Cons.prems Cons.IH [of es1] insertIndexed_set [OF q] q by (auto split: sum.splits)
qed simp

lemma indexXBetweenIDs_preparedOK:
  "indexXBetweenIDs skip grab flt amount behindID beforeID ftb es = (r, es') \<Longrightarrow>
    preparedOK es \<Longrightarrow> preparedOK es'"
  by (erule preparedOK_subset)
    (auto simp: indexXBetweenIDs_def Let_def split: prod.splits sum.splits if_splits
      dest: insertAll_set)

lemma prepareXBetweenIDs_tlInv:
  assumes "prepareXBetweenIDs F amount behindID beforeID ftb es = (r, es')"
    and "fnSkip F = skipInsert" and "prepOK (fnPrepare F)" and "tlInv es"
  shows "tlInv es'"
proof (cases "behindID \<le> beforeID")
  case False
  obtain r1 es1 where i: "indexXBetweenIDs skipInsert (fnGrab F) (fnFilter F) amount behindID
      beforeID ftb es = (r1, es1)" by fastforce
  from assms(1,2) False i obtain todo es2 where p:
      "prepareLoop (fnPrepare F) todo (map Some es1) = (r, es2)" "es' = compact es2"
    by (auto simp: prepareXBetweenIDs_def Let_def split: prod.splits)
  have "newestFirst es1" "preparedOK es1"
    using boosts.indexXBetweenIDs_newestFirst [OF i] indexXBetweenIDs_preparedOK [OF i] assms(4)
    by (simp_all add: tlInv_def)
  with prepareLoop_subseq [OF p(1)] prepareLoop_preparedOK [OF assms(3) p(1)]
  show ?thesis
    using newestFirst_subseq by (auto simp: tlInv_def p(2))
qed (use assms in \<open>simp add: prepareXBetweenIDs_def\<close>)

subsection \<open>What is served\<close>

lemma subseq_itemIDs_Cons: "subseq (itemIDs xs) (itemIDs ys) \<Longrightarrow> itemID x = itemID y \<Longrightarrow>
    subseq (itemIDs (x # xs)) (itemIDs (y # ys))"
  by (simp add: itemIDs_def)

lemma preparedOK_Cons: "preparedOK (e # es) \<longleftrightarrow>
    (\<forall>p. prepared e = Some p \<longrightarrow> prID p = itemID e) \<and> preparedOK es"
  by (auto simp: preparedOK_def)

lemma prep_value:
  assumes "(case prepared e of Some p \<Rightarrow> Inr p | None \<Rightarrow> prep (itemID e)) = Inr q"
    and "prepOK prep" and "preparedOK (e # es)"
  shows "prID q = itemID e"
  using assms by (auto simp: prepOK_def preparedOK_Cons split: option.splits)

lemma serveDown_inv:
  assumes "prepOK prep"
  shows "serveDown prep amount behindID beforeID served es = (r, es') \<Longrightarrow> preparedOK es \<Longrightarrow>
    subseq (itemIDs es') (itemIDs es) \<and> preparedOK es'"
proof (induction es arbitrary: served r es')
  case (Cons e es)
  note pr = Cons.prems
  have v: "prID q = itemID e"
    if "(case prepared e of Some p \<Rightarrow> Inr p | None \<Rightarrow> prep (itemID e)) = Inr q" for q
    using prep_value that assms pr(2) by blast
  have ok: "preparedOK es" using pr(2) by (simp add: preparedOK_Cons)
  obtain r0 es0 where IH0: "serveDown prep amount behindID beforeID served es = (r0, es0)"
    by fastforce
  obtain r1 es1 where IH1: "serveDown prep amount behindID beforeID (served + 1) es = (r1, es1)"
    by fastforce
  note IH = Cons.IH [OF IH0 ok] Cons.IH [OF IH1 ok]
  show ?case
  proof (cases "behindID \<le> itemID e \<or> itemID e \<le> beforeID")
    case True
    with pr IH IH0 show ?thesis
      by (auto simp: preparedOK_Cons itemIDs_def split: if_splits)
  next
    case False
    show ?thesis
    proof (cases "case prepared e of Some p \<Rightarrow> Inr p | None \<Rightarrow> prep (itemID e)")
      case (Inl err)
      with pr IH IH0 False show ?thesis
        by (cases err) (auto simp: itemIDs_def)
    next
      case (Inr p)
      from v [OF this] pr IH IH1 False ok Inr show ?thesis
        by (auto simp: preparedOK_Cons itemIDs_def Let_def split: if_splits)
    qed
  qed
qed simp

lemma serveDown_items:
  assumes "prepOK prep"
  shows "serveDown prep amount behindID beforeID served es = (Inr ps, es') \<Longrightarrow> preparedOK es \<Longrightarrow>
    subseq (map prID ps) (itemIDs es) \<and>
    (\<forall>p \<in> set ps. beforeID < prID p \<and> prID p < behindID) \<and>
    int (length ps) \<le> max 1 (amount - served)"
proof (induction es arbitrary: served ps es')
  case (Cons e es)
  note pr = Cons.prems
  have v: "prID q = itemID e"
    if "(case prepared e of Some p \<Rightarrow> Inr p | None \<Rightarrow> prep (itemID e)) = Inr q" for q
    using prep_value that assms pr(2) by blast
  have ok: "preparedOK es" using pr(2) by (simp add: preparedOK_Cons)
  obtain r0 es0 where IH0: "serveDown prep amount behindID beforeID served es = (r0, es0)"
    by fastforce
  obtain r1 es1 where IH1: "serveDown prep amount behindID beforeID (served + 1) es = (r1, es1)"
    by fastforce
  show ?case
  proof (cases "behindID \<le> itemID e \<or> itemID e \<le> beforeID")
    case True
    with pr Cons.IH [of served _ es0] IH0 ok show ?thesis
      by (auto simp: itemIDs_def split: if_splits)
  next
    case False
    show ?thesis
    proof (cases "case prepared e of Some p \<Rightarrow> Inr p | None \<Rightarrow> prep (itemID e)")
      case (Inl err)
      with pr Cons.IH [of served _ es0] IH0 ok False show ?thesis
        by (cases err) (auto simp: itemIDs_def)
    next
      case (Inr p)
      show ?thesis
      proof (cases "served + 1 < amount")
        case True
        with pr(1) False Inr IH1 obtain qs where "r1 = Inr qs" "ps = p # qs"
          by (cases r1) (auto simp: Let_def)
        with Cons.IH [of "served + 1" qs es1] IH1 ok v [OF Inr] False True show ?thesis
          by (auto simp: itemIDs_def)
      next
        case stop: False
        with pr(1) False Inr have "ps = [p]" by (auto simp: Let_def)
        with v [OF Inr] False show ?thesis by (auto simp: itemIDs_def)
      qed
    qed
  qed
qed simp


lemma serveUp_inv:
  assumes "prepOK prep"
  shows "serveUp prep amount behindID beforeID served es = (r, es') \<Longrightarrow> preparedOK es \<Longrightarrow>
    subseq (itemIDs es') (itemIDs es) \<and> preparedOK es'"
proof (induction es arbitrary: served r es')
  case (Cons e es)
  note pr = Cons.prems
  have v: "prID q = itemID e"
    if "(case prepared e of Some p \<Rightarrow> Inr p | None \<Rightarrow> prep (itemID e)) = Inr q" for q
    using prep_value that assms pr(2) by blast
  have ok: "preparedOK es" using pr(2) by (simp add: preparedOK_Cons)
  obtain r0 es0 where IH0: "serveUp prep amount behindID beforeID served es = (r0, es0)"
    by fastforce
  obtain r1 es1 where IH1: "serveUp prep amount behindID beforeID (served + 1) es = (r1, es1)"
    by fastforce
  note IH = Cons.IH [OF IH0 ok] Cons.IH [OF IH1 ok]
  show ?case
  proof (cases "itemID e = beforeID \<or> behindID \<le> itemID e")
    case True
    with pr IH IH0 show ?thesis
      by (auto simp: preparedOK_Cons itemIDs_def split: if_splits)
  next
    case False
    show ?thesis
    proof (cases "case prepared e of Some p \<Rightarrow> Inr p | None \<Rightarrow> prep (itemID e)")
      case (Inl err)
      with pr IH IH0 False show ?thesis
        by (cases err) (auto simp: itemIDs_def)
    next
      case (Inr p)
      from v [OF this] pr IH IH1 False ok Inr show ?thesis
        by (auto simp: preparedOK_Cons itemIDs_def Let_def split: if_splits)
    qed
  qed
qed simp

lemma serveUp_items:
  assumes "prepOK prep"
  shows "serveUp prep amount behindID beforeID served es = (Inr ps, es') \<Longrightarrow> preparedOK es \<Longrightarrow>
    subseq (map prID ps) (itemIDs es) \<and>
    (\<forall>p \<in> set ps. prID p \<noteq> beforeID \<and> prID p < behindID) \<and>
    int (length ps) \<le> max 1 (amount - served)"
proof (induction es arbitrary: served ps es')
  case (Cons e es)
  note pr = Cons.prems
  have v: "prID q = itemID e"
    if "(case prepared e of Some p \<Rightarrow> Inr p | None \<Rightarrow> prep (itemID e)) = Inr q" for q
    using prep_value that assms pr(2) by blast
  have ok: "preparedOK es" using pr(2) by (simp add: preparedOK_Cons)
  obtain r0 es0 where IH0: "serveUp prep amount behindID beforeID served es = (r0, es0)"
    by fastforce
  obtain r1 es1 where IH1: "serveUp prep amount behindID beforeID (served + 1) es = (r1, es1)"
    by fastforce
  show ?case
  proof (cases "itemID e = beforeID \<or> behindID \<le> itemID e")
    case True
    with pr Cons.IH [of served _ es0] IH0 ok show ?thesis
      by (auto simp: itemIDs_def split: if_splits)
  next
    case False
    show ?thesis
    proof (cases "case prepared e of Some p \<Rightarrow> Inr p | None \<Rightarrow> prep (itemID e)")
      case (Inl err)
      with pr Cons.IH [of served _ es0] IH0 ok False show ?thesis
        by (cases err) (auto simp: itemIDs_def)
    next
      case (Inr p)
      show ?thesis
      proof (cases "served + 1 < amount")
        case True
        with pr(1) False Inr IH1 obtain qs where "r1 = Inr qs" "ps = p # qs"
          by (cases r1) (auto simp: Let_def)
        with Cons.IH [of "served + 1" qs es1] IH1 ok v [OF Inr] False True show ?thesis
          by (auto simp: itemIDs_def)
      next
        case stop: False
        with pr(1) False Inr have "ps = [p]" by (auto simp: Let_def)
        with v [OF Inr] False show ?thesis by (auto simp: itemIDs_def)
      qed
    qed
  qed
qed simp

lemma uptoMark_append: "uptoMark b es = (xs, ys) \<Longrightarrow> es = xs @ ys"
  by (induction es arbitrary: xs) (auto split: if_splits prod.splits)

lemma uptoMark_newer: "uptoMark b es = (xs, ys) \<Longrightarrow> e \<in> set (butlast xs) \<Longrightarrow> b < itemID e"
proof (induction es arbitrary: xs)
  case (Cons x es)
  then show ?case
    by (cases "snd (uptoMark b es) = ys \<and> \<not> itemID x \<le> b"; cases "fst (uptoMark b es)")
      (auto split: if_splits prod.splits)
qed simp


lemma preparedOK_append [simp]: "preparedOK (xs @ ys) \<longleftrightarrow> preparedOK xs \<and> preparedOK ys"
  by (auto simp: preparedOK_def)

lemma preparedOK_rev [simp]: "preparedOK (rev xs) \<longleftrightarrow> preparedOK xs"
  by (simp add: preparedOK_def)

lemma itemIDs_append [simp]: "itemIDs (xs @ ys) = itemIDs xs @ itemIDs ys"
  by (simp add: itemIDs_def)

lemma itemIDs_rev [simp]: "itemIDs (rev xs) = rev (itemIDs xs)"
  by (simp add: itemIDs_def rev_map)

definition goodFns :: "timeline_fns \<Rightarrow> bool" where
  "goodFns F \<longleftrightarrow> fnSkip F = skipInsert \<and> prepOK (fnPrepare F)"

lemma getXBetweenIDs_tlInv:
  assumes "getXBetweenIDs F amount behindID beforeID ftb es = (r, es')"
    and "goodFns F" and "tlInv es"
  shows "tlInv es'"
proof (cases "amount < 0 \<or> behindID \<le> beforeID")
  case False
  obtain err es1 where p: "prepareXBetweenIDs F amount behindID beforeID ftb es = (err, es1)"
    by fastforce
  have ok: "prepOK (fnPrepare F)" using assms(2) by (simp add: goodFns_def)
  have inv: "tlInv es1"
    using prepareXBetweenIDs_tlInv [OF p] assms(2,3) by (simp add: goodFns_def)
  show ?thesis
  proof (cases ftb)
    case True
    with assms(1) False p have "serveDown (fnPrepare F) amount behindID beforeID 0 es1 = (r, es')"
      by (simp add: getXBetweenIDs_def)
    from serveDown_inv [OF ok this] inv show ?thesis
      using newestFirst_subseq by (auto simp: tlInv_def)
  next
    case ftb: False
    obtain up lo where m: "uptoMark beforeID es1 = (up, lo)" by fastforce
    obtain r1 up' where u: "serveUp (fnPrepare F) amount behindID beforeID 0 (rev up) = (r1, up')"
      by fastforce
    have es': "es' = rev up' @ lo"
      using assms(1) False ftb p m u by (simp add: getXBetweenIDs_def)
    have es1: "es1 = up @ lo" using uptoMark_append [OF m] .
    have "subseq (itemIDs up') (itemIDs (rev up)) \<and> preparedOK up'"
      using serveUp_inv [OF ok u] inv es1 by (simp add: tlInv_def)
    then have "subseq (itemIDs es') (itemIDs es1)" "preparedOK es'"
      using subseq_rev [of "itemIDs up'" "rev (itemIDs up)"] inv
      by (auto simp: es' es1 tlInv_def list_emb_append_mono)
    then show ?thesis using inv newestFirst_subseq by (auto simp: tlInv_def)
  qed
qed (use assms in \<open>auto simp: getXBetweenIDs_def split: if_splits\<close>)

lemma getXBetweenIDs_down_items:
  assumes "getXBetweenIDs F amount behindID beforeID True es = (Inr items, es')"
    and "goodFns F" and "tlInv es"
  shows "sorted_wrt (\<lambda>p q. prID q < prID p) items \<and>
    (\<forall>p \<in> set items. beforeID < prID p \<and> prID p < behindID) \<and>
    int (length items) \<le> max 1 amount"
proof (cases "behindID \<le> beforeID")
  case False
  obtain err es1 where p: "prepareXBetweenIDs F amount behindID beforeID True es = (err, es1)"
    by fastforce
  have ok: "prepOK (fnPrepare F)" using assms(2) by (simp add: goodFns_def)
  have inv: "newestFirst es1" "preparedOK es1"
    using prepareXBetweenIDs_tlInv [OF p] assms(2,3) by (simp_all add: goodFns_def tlInv_def)
  have "serveDown (fnPrepare F) amount behindID beforeID 0 es1 = (Inr items, es')"
    using assms(1) False p by (simp add: getXBetweenIDs_def split: if_splits)
  note d = serveDown_items [OF ok this inv(2)]
  then have "sorted_wrt (\<lambda>a b. b < a) (map prID items)"
    using inv(1) newestFirst_map sorted_wrt_subseq by blast
  with d show ?thesis by (simp add: sorted_wrt_map)
qed (use assms(1) in \<open>simp add: getXBetweenIDs_def split: if_splits\<close>)


lemma getXBetweenIDs_up_items:
  assumes "getXBetweenIDs F amount behindID beforeID False es = (Inr items, es')"
    and "goodFns F" and "tlInv es"
  shows "sorted_wrt (\<lambda>p q. prID q < prID p) items \<and>
    (\<forall>p \<in> set (butlast items). beforeID < prID p) \<and>
    (\<forall>p \<in> set items. prID p \<noteq> beforeID \<and> prID p < behindID) \<and>
    int (length items) \<le> max 1 amount"
proof (cases "behindID \<le> beforeID")
  case False
  obtain err es1 where p: "prepareXBetweenIDs F amount behindID beforeID False es = (err, es1)"
    by fastforce
  have ok: "prepOK (fnPrepare F)" using assms(2) by (simp add: goodFns_def)
  have inv: "newestFirst es1" "preparedOK es1"
    using prepareXBetweenIDs_tlInv [OF p] assms(2,3) by (simp_all add: goodFns_def tlInv_def)
  obtain up lo where m: "uptoMark beforeID es1 = (up, lo)" by fastforce
  have es1: "es1 = up @ lo" using uptoMark_append [OF m] .
  obtain r1 up' where u1: "serveUp (fnPrepare F) amount behindID beforeID 0 (rev up) = (r1, up')"
    by fastforce
  from assms(1) False p m u1 have "map_sum id rev r1 = Inr items"
    by (simp add: getXBetweenIDs_def split: if_splits)
  then obtain ps where u: "serveUp (fnPrepare F) amount behindID beforeID 0 (rev up) = (Inr ps, up')"
      "items = rev ps"
    using u1 by (cases r1) auto
  have d: "subseq (map prID ps) (rev (itemIDs up))"
      "\<forall>p \<in> set ps. prID p \<noteq> beforeID \<and> prID p < behindID" "int (length ps) \<le> max 1 amount"
    using serveUp_items [OF ok u(1)] inv(2) by (auto simp: es1)
  have s: "subseq (map prID items) (itemIDs up)" using subseq_rev [OF d(1)] by (simp add: u(2) rev_map)
  have "sorted_wrt (\<lambda>a b. b < a) (itemIDs up)"
    using inv(1) unfolding newestFirst_map es1 by (simp add: sorted_wrt_append)
  with s have sorted: "sorted_wrt (\<lambda>a b. b < a) (map prID items)" using sorted_wrt_subseq by blast
  have sub: "set (butlast (map prID items)) \<subseteq> set (butlast (itemIDs up))"
    using list_emb_set [OF subseq_butlast [OF s]] by blast
  have "beforeID < prID p" if "p \<in> set (butlast items)" for p
  proof -
    have "prID p \<in> set (map itemID (butlast up))"
      using sub that by (auto simp: itemIDs_def map_butlast [symmetric])
    then show ?thesis using uptoMark_newer [OF m] by auto
  qed
  with sorted d show ?thesis by (simp add: sorted_wrt_map u(2))
qed (use assms(1) in \<open>simp add: getXBetweenIDs_def split: if_splits\<close>)


lemma getRange_tlInv:
  assumes "getRange F amount mx since mn pn es = (r, q, es')" and "goodFns F" and "tlInv es"
  shows "tlInv es'"
  using assms getXBetweenIDs_tlInv [OF _ assms(2,3)]
  by (auto simp: getRange_def split: if_splits prod.splits)

lemma prepareNextQuery_tlInv:
  assumes "prepareNextQuery F amount q es = (r, es')" and "goodFns F" and "tlInv es"
  shows "tlInv es'"
  using assms prepareXBetweenIDs_tlInv [of F amount _ _ _ es r es']
  by (auto simp: prepareNextQuery_def goodFns_def split: if_splits next_query.splits)

lemma indexAndPrepareOne_tlInv:
  assumes "indexAndPrepareOne skipInsert prep s b a ba es = (r, es')" and "prepOK prep" and "tlInv es"
  shows "tlInv es'"
proof -
  obtain q es1 where i: "insertIndexed skipInsert (newEntry s b a ba) es = (q, es1)" by fastforce
  have "preparedOK es1"
  proof (rule preparedOK_subset [of es])
    show "preparedOK es" using assms(3) by (simp add: tlInv_def)
    show "prepared e = None \<or> e \<in> set es" if "e \<in> set es1" for e
      using insertIndexed_set [OF i that] by (auto simp: newEntry_def)
  qed
  moreover have "preparedOK (es1[k := (newEntry s b a ba)\<lparr>prepared := Some p\<rparr>])"
    if "prep s = Inr p" "preparedOK es1" for k p
    using that assms(2) set_update_subset_insert [of es1 k]
    by (fastforce simp: preparedOK_def prepOK_def newEntry_def)
  ultimately have "preparedOK es'"
    using assms(1) i by (auto simp: indexAndPrepareOne_def Let_def split: sum.splits option.splits)
  moreover have "newestFirst es'"
    using boosts.indexAndPrepareOne_newestFirst [OF assms(1)] assms(3) by (simp add: tlInv_def)
  ultimately show ?thesis by (simp add: tlInv_def)
qed

lemma filter_tlInv: "tlInv es \<Longrightarrow> tlInv (filter P es)"
  by (auto simp: tlInv_def preparedOK_def newestFirst_def intro: sorted_wrt_filter)

lemma removeItem_tlInv: "tlInv es \<Longrightarrow> tlInv (snd (removeItem i es))"
  by (simp add: removeItem_eq filter_tlInv)

lemma removeAllByOrBoosting_tlInv: "tlInv es \<Longrightarrow> tlInv (snd (removeAllByOrBoosting a es))"
  by (simp add: removeAllByOrBoosting_eq filter_tlInv)

lemma tlInv_same_ids:
  assumes "itemIDs es' = itemIDs es" and "preparedOK es'" and "tlInv es"
  shows "tlInv es'"
  using assms newestFirst_cong [OF assms(1)] by (simp add: tlInv_def)

lemma unprepareItem_tlInv: "tlInv es \<Longrightarrow> tlInv (unprepareItem i es)"
  by (rule tlInv_same_ids [of _ es]) (auto simp: unprepareItem_eq itemIDs_def preparedOK_def tlInv_def)

lemma tlInv_take: "tlInv es \<Longrightarrow> tlInv (take n es)"
  by (auto simp: tlInv_def preparedOK_def newestFirst_def sorted_wrt_take dest: in_set_takeD)

lemma pruneIndex_tlInv:
  assumes "tlInv es"
  shows "tlInv (snd (pruneIndex dp di es))"
proof -
  let ?a = "nat dp" and ?b = "nat (max dp di)"
  have le: "?a \<le> ?b" by simp
  have es: "take ?a es @ drop ?a (take ?b es) = take ?b es"
    using append_take_drop_id [of ?a "take ?b es"] by (simp add: min_absorb1 [OF le])
  show ?thesis
  proof (rule tlInv_same_ids)
    show "tlInv (take ?b es)" using assms by (rule tlInv_take)
    have "itemIDs (snd (pruneIndex dp di es)) = itemIDs (take ?a es @ drop ?a (take ?b es))"
      by (simp add: pruneIndex_eq itemIDs_def Let_def unprep_def)
    then show "itemIDs (snd (pruneIndex dp di es)) = itemIDs (take ?b es)" by (simp only: es)
    have "preparedOK (take ?a es)" using tlInv_take [OF assms] by (simp add: tlInv_def)
    then show "preparedOK (snd (pruneIndex dp di es))"
      by (simp add: pruneIndex_eq Let_def) (simp add: preparedOK_def unprep_def)
  qed
qed


subsection \<open>Histories of the manager\<close>

text \<open>
  One step of the manager, with any database behind the functions, as long as the prepare
  function returns the item it was asked for. A background query works on the timeline it was
  started for.
\<close>

inductive mstep :: "manager \<Rightarrow> manager \<Rightarrow> bool" where
  ingest: "goodFns F \<Longrightarrow> mstep m (snd (ingestOne F tid it m))"
| get: "goodFns F \<Longrightarrow> getTimeline F now tid mx since mn limit m = (r, q, m') \<Longrightarrow> mstep m m'"
| background: "goodFns F \<Longrightarrow> m tid = Some t \<Longrightarrow>
    mstep m (m(tid \<mapsto> t\<lparr>tlItems := snd (prepareNextQuery F amount q (tlItems t))\<rparr>))"
| remove: "mstep m (snd (managerRemove tid i m))"
| removeTimeline: "mstep m (removeTimeline tid m)"
| indexedLength: "mstep m (snd (getIndexedLength tid m))"
| oldestIndexed: "mstep m (snd (getOldestIndexedID tid m))"
| wipeItem: "mstep m (wipeItemFromAllTimelines i m)"
| wipeAccount: "mstep m (wipeItemsFromAccountID tid acc m)"
| unprepareAll: "mstep m (unprepareItemFromAllTimelines i m)"
| unprepare: "mstep m (managerUnprepareItem tid i m)"
| prune: "mstep m (snd (managerPrune tid dp di m))"
| tick: "mstep m (managerTick now m)"

inductive mreach :: "manager \<Rightarrow> bool" where
  init: "mreach Map.empty"
| step: "mreach m \<Longrightarrow> mstep m m' \<Longrightarrow> mreach m'"

definition managerInv :: "manager \<Rightarrow> bool" where
  "managerInv m \<longleftrightarrow> (\<forall>tid t. m tid = Some t \<longrightarrow> tlInv (tlItems t))"

lemma tlInv_new [simp]: "tlInv (tlItems newTimeline)"
  by (simp add: newTimeline_def tlInv_def newestFirst_def preparedOK_def)

lemma getOrCreate_inv:
  "getOrCreateTimeline tid m = (t, m1) \<Longrightarrow> managerInv m \<Longrightarrow> tlInv (tlItems t) \<and> managerInv m1"
  by (auto simp: getOrCreateTimeline_def managerInv_def split: option.splits if_splits)

lemma managerInv_upd: "managerInv m \<Longrightarrow> tlInv (tlItems t) \<Longrightarrow> managerInv (m(tid \<mapsto> t))"
  by (simp add: managerInv_def)

lemma onItems_inv:
  assumes "\<And>es. tlInv es \<Longrightarrow> tlInv (snd (f es))" and "managerInv m"
  shows "managerInv (snd (onItems tid f m))"
proof -
  obtain t m1 where g: "getOrCreateTimeline tid m = (t, m1)" by fastforce
  from getOrCreate_inv [OF g assms(2)] assms(1) [of "tlItems t"] show ?thesis
    by (auto simp: onItems_def g split: prod.splits intro!: managerInv_upd)
qed

lemma onAll_inv:
  assumes "\<And>t. tlInv (tlItems t) \<Longrightarrow> tlInv (tlItems (f t))" and "managerInv m"
  shows "managerInv (\<lambda>tid. map_option f (m tid))"
  using assms by (auto simp: managerInv_def)

lemma getTimeline_inv:
  assumes "getTimeline F now tid mx since mn limit m = (r, q, m')" and "goodFns F"
    and "managerInv m"
  shows "managerInv m'"
proof -
  obtain t m1 where g: "getOrCreateTimeline tid m = (t, m1)" by fastforce
  obtain r1 q1 es' where u: "getRange F limit mx since mn True (tlItems t) = (r1, q1, es')"
    by (metis prod.exhaust)
  from assms(1) g u have "m' = m1(tid \<mapsto> t\<lparr>tlLastGot := now, tlItems := es'\<rparr>)"
    by (simp add: getTimeline_def getItems_def)
  with getOrCreate_inv [OF g assms(3)] getRange_tlInv [OF u assms(2)] show ?thesis
    by (simp add: managerInv_upd)
qed

lemma mstep_inv: "mstep m m' \<Longrightarrow> managerInv m \<Longrightarrow> managerInv m'"
proof (induction rule: mstep.induct)
  case (ingest F m tid it)
  then have F: "fnSkip F = skipInsert" "prepOK (fnPrepare F)" by (simp_all add: goodFns_def)
  show ?case
    unfolding ingestOne_def F
    by (rule onItems_inv) (use F indexAndPrepareOne_tlInv ingest in \<open>auto simp: prod_eq_iff\<close>)
next
  case (get F now tid mx since mn limit m r q m')
  then show ?case using getTimeline_inv by blast
next
  case (background F m tid t amount q)
  then have "tlInv (tlItems t)" by (simp add: managerInv_def)
  from prepareNextQuery_tlInv [OF _ background(1) this] background(3) show ?case
    by (metis managerInv_upd prod.collapse timeline.select_convs(1) timeline.surjective
        timeline.update_convs(1))
next
  case (removeTimeline m tid)
  then show ?case by (simp add: removeTimeline_def managerInv_def)
qed (auto simp: managerRemove_def getIndexedLength_def getOldestIndexedID_def managerPrune_def
      wipeItemFromAllTimelines_def wipeItemsFromAccountID_def unprepareItemFromAllTimelines_def
      managerUnprepareItem_def managerTick_def
      intro!: onItems_inv onAll_inv removeItem_tlInv removeAllByOrBoosting_tlInv
        unprepareItem_tlInv pruneIndex_tlInv)

lemma mreach_inv: "mreach m \<Longrightarrow> managerInv m"
  by (induction rule: mreach.induct) (auto simp: managerInv_def [of Map.empty] intro: mstep_inv)


subsection \<open>Properties of timelines\<close>

text \<open>
  C33. In every state of the manager, each timeline lists its entries from newest to oldest and
  holds no item twice, whatever was ingested, grabbed, removed, pruned or served before.
\<close>

theorem timelines_newest_first:
  assumes "mreach m" and "m tid = Some t"
  shows "sorted_wrt (\<lambda>a b. itemID b < itemID a) (tlItems t) \<and> distinct (map itemID (tlItems t))"
  using mreach_inv [OF assms(1)] assms(2) newestFirst_distinct
  by (auto simp: managerInv_def tlInv_def newestFirst_def itemIDs_def)

definition exFns :: timeline_fns where
  "exFns = \<lparr>fnSkip = skipInsert, fnGrab = (\<lambda>mx since mn n. Inr ([], True)),
    fnFilter = (\<lambda>it. Inr True),
    fnPrepare = (\<lambda>i. Inr \<lparr>prID = i, prAccountID = [], prBoostOfID = [], prBoostOfAccountID = []\<rparr>),
    fnOrd = id\<rparr>"

definition exItem :: "string \<Rightarrow> timelineable" where
  "exItem i = \<lparr>tiID = i, tiAccountID = ''a'', tiBoostOfID = [], tiBoostOfAccountID = []\<rparr>"

definition exEntry :: "string \<Rightarrow> entry" where
  "exEntry i = \<lparr>itemID = i, boostOfID = [], accountID = ''a'', boostOfAccountID = [],
    prepared = Some \<lparr>prID = i, prAccountID = [], prBoostOfID = [], prBoostOfAccountID = []\<rparr>\<rparr>"

definition exManager :: manager where
  "exManager = [''t'' \<mapsto> \<lparr>tlItems = [exEntry ''3'', exEntry ''2'', exEntry ''1''], tlLastGot = 0\<rparr>]"

lemma exFns_good: "goodFns exFns"
  by (simp add: goodFns_def exFns_def prepOK_def)

lemma exManager_reach: "mreach exManager"
proof -
  let ?m1 = "[''t'' \<mapsto> \<lparr>tlItems = [exEntry ''2''], tlLastGot = 0\<rparr>]"
  let ?m2 = "[''t'' \<mapsto> \<lparr>tlItems = [exEntry ''3'', exEntry ''2''], tlLastGot = 0\<rparr>]"
  note defs = ingestOne_def onItems_def getOrCreateTimeline_def newTimeline_def exFns_def exItem_def
    indexAndPrepareOne_def insertIndexed_skipInsert newEntry_def exEntry_def exManager_def
    itemIDs_def recentlySeen_def less_char_def
  have "snd (ingestOne exFns ''t'' (exItem ''2'') Map.empty) = ?m1"
    by (simp add: defs)
  then have 1: "mreach ?m1" using mreach.step [OF mreach.init mstep.ingest [OF exFns_good]] by metis
  have "snd (ingestOne exFns ''t'' (exItem ''3'') ?m1) = ?m2"
    by (simp add: defs)
  then have 2: "mreach ?m2" using mreach.step [OF 1 mstep.ingest [OF exFns_good]] by metis
  have "snd (ingestOne exFns ''t'' (exItem ''1'') ?m2) = exManager"
    by (simp add: defs)
  then show ?thesis using mreach.step [OF 2 mstep.ingest [OF exFns_good]] by metis
qed

theorem timelines_newest_first_witness:
  "exManager ''t'' = Some \<lparr>tlItems = [exEntry ''3'', exEntry ''2'', exEntry ''1''], tlLastGot = 0\<rparr> \<and>
   distinct (map itemID [exEntry ''3'', exEntry ''2'', exEntry ''1''])"
  using timelines_newest_first [OF exManager_reach, of "''t''"] by (simp add: exManager_def)




subsection \<open>Complete pages\<close>

definition prepVal :: "prep_fn \<Rightarrow> entry \<Rightarrow> preparable" where
  "prepVal prep e = (case prepared e of Some p \<Rightarrow> p | None \<Rightarrow> projr (prep (itemID e)))"

definition prepTotal :: "prep_fn \<Rightarrow> bool" where
  "prepTotal prep \<longleftrightarrow> (\<forall>i. \<exists>p. prep i = Inr p \<and> prID p = i)"

lemma prepTotal_OK: "prepTotal prep \<Longrightarrow> prepOK prep"
  unfolding prepTotal_def prepOK_def by (metis sum.sel(2))

lemma prepTotal_val: "prepTotal prep \<Longrightarrow>
    (case prepared e of Some p \<Rightarrow> Inr p | None \<Rightarrow> prep (itemID e)) = Inr (prepVal prep e)"
  unfolding prepTotal_def prepVal_def by (metis option.case_eq_if sum.sel(2))

lemma prepVal_ids:
  assumes "prepTotal prep" and "preparedOK es"
  shows "map (\<lambda>e. prID (prepVal prep e)) es = itemIDs es"
  using assms unfolding prepTotal_def preparedOK_def prepVal_def itemIDs_def
  by (auto split: option.splits) (metis sum.sel(2))

lemma nat_max_step:
  "0 < (n::int) \<Longrightarrow> nat (max 1 (n + 1)) = Suc (nat (max 1 n))"
  "n \<le> 0 \<Longrightarrow> nat (max 1 (n + 1)) = Suc 0"
  by linarith+

lemma serveDown_total:
  assumes "prepTotal prep"
  shows "newestFirst es \<Longrightarrow> fst (serveDown prep amount behindID beforeID served es) =
    Inr (map (prepVal prep) (take (nat (max 1 (amount - served)))
      (filter (\<lambda>e. beforeID < itemID e \<and> itemID e < behindID) es)))"
proof (induction es arbitrary: served)
  case (Cons e es)
  from Cons.prems have nf: "newestFirst es" and old: "\<forall>x \<in> set es. itemID x < itemID e"
    by (simp_all add: newestFirst_def)
  note val = prepTotal_val [OF assms, of e]
  note IH = Cons.IH [OF nf]
  consider (new) "behindID \<le> itemID e" | (old) "\<not> behindID \<le> itemID e" "itemID e \<le> beforeID"
    | (serve) "\<not> behindID \<le> itemID e" "\<not> itemID e \<le> beforeID" by blast
  then show ?case
  proof cases
    case new
    with IH [of served] show ?thesis by (auto split: prod.splits)
  next
    case 2: old
    with old have "\<forall>x \<in> set es. \<not> beforeID < itemID x" by (meson less_le_trans less_not_sym)
    with 2 show ?thesis by (simp add: filter_False not_less)
  next
    case serve
    show ?thesis
    proof (cases "served + 1 < amount")
      case True
      then have "nat (max 1 (amount - served)) = Suc (nat (max 1 (amount - (served + 1))))"
        by linarith
      with True serve val IH [of "served + 1"] show ?thesis
        by (auto simp: Let_def split: prod.splits)
    next
      case False
      then have "nat (max 1 (amount - served)) = Suc 0" by linarith
      with False serve serve [unfolded not_le] val show ?thesis by (simp add: Let_def)
    qed
  qed
qed simp

lemma serveUp_total:
  assumes "prepTotal prep"
  shows "sorted_wrt (\<lambda>a b. itemID a < itemID b) es \<Longrightarrow>
    fst (serveUp prep amount behindID beforeID served es) =
    Inr (map (prepVal prep) (take (nat (max 1 (amount - served)))
      (filter (\<lambda>e. itemID e \<noteq> beforeID \<and> itemID e < behindID) es)))"
proof (induction es arbitrary: served)
  case (Cons e es)
  from Cons.prems have nf: "sorted_wrt (\<lambda>a b. itemID a < itemID b) es"
    and newer: "\<forall>x \<in> set es. itemID e < itemID x" by simp_all
  note val = prepTotal_val [OF assms, of e]
  note IH = Cons.IH [OF nf]
  consider (mark) "itemID e = beforeID" | (new) "itemID e \<noteq> beforeID" "behindID \<le> itemID e"
    | (serve) "itemID e \<noteq> beforeID" "\<not> behindID \<le> itemID e" by blast
  then show ?case
  proof cases
    case mark
    with IH [of served] show ?thesis by (auto split: prod.splits)
  next
    case new
    with newer have "\<forall>x \<in> set es. \<not> itemID x < behindID" by (meson le_less_trans less_not_sym)
    with new show ?thesis by (simp add: filter_False)
  next
    case serve
    show ?thesis
    proof (cases "amount \<le> served + 1")
      case False
      then have "nat (max 1 (amount - served)) = Suc (nat (max 1 (amount - (served + 1))))"
        by linarith
      with False serve val IH [of "served + 1"] show ?thesis
        by (auto simp: Let_def split: prod.splits)
    next
      case True
      then have "nat (max 1 (amount - served)) = Suc 0" by linarith
      with True serve val show ?thesis by (simp add: Let_def not_le)
    qed
  qed
qed simp

lemma uptoMark_filter:
  "newestFirst es \<Longrightarrow> b \<in> set (itemIDs es) \<Longrightarrow> uptoMark b es = (up, lo) \<Longrightarrow>
    filter (\<lambda>e. itemID e \<noteq> b \<and> Q e) up = filter (\<lambda>e. b < itemID e \<and> Q e) es"
proof (induction es arbitrary: up)
  case (Cons e es)
  then have old: "\<forall>x \<in> set es. itemID x < itemID e" by (simp add: newestFirst_def)
  show ?case
  proof (cases "itemID e \<le> b")
    case True
    with Cons.prems(2) old have "itemID e = b" by (force simp: itemIDs_def)
    moreover have "filter (\<lambda>x. itemID e < itemID x \<and> Q x) es = []"
      using old by (auto simp: filter_empty_conv dest: less_not_sym)
    ultimately show ?thesis using True Cons.prems(3) by auto
  next
    case False
    with Cons show ?thesis
      by (auto simp: newestFirst_def itemIDs_def split: prod.splits)
  qed
qed (simp add: itemIDs_def)

lemma prepareLoop_total:
  assumes "prepTotal prep"
  shows "prepareLoop prep xs es = (r, es') \<Longrightarrow> itemIDs (compact es') = itemIDs (compact es)"
proof (induction xs arbitrary: es)
  case (Cons i xs)
  show ?case
  proof (cases "es ! i")
    case None
    with Cons show ?thesis by simp
  next
    case (Some e)
    from assms obtain p where p: "prep (itemID e) = Inr p" by (auto simp: prepTotal_def)
    have "itemIDs (compact (es[i := Some (e\<lparr>prepared := Some p\<rparr>)])) = itemIDs (compact es)"
      by (rule compact_prepare [OF Some]) simp
    with Some p Cons.prems Cons.IH [of "es[i := Some (e\<lparr>prepared := Some p\<rparr>)]"]
    show ?thesis by simp
  qed
qed simp

definition grabNone :: "grab_fn \<Rightarrow> bool" where
  "grabNone grab \<longleftrightarrow> (\<forall>mx since mn n. \<exists>stop. grab mx since mn n = Inr ([], stop))"

lemma grabItems_none:
  assumes "grabNone grab"
  shows "grabItems grab flt amount behindID beforeID ftb = Inr []"
proof -
  have "grabLoop grab flt (Suc n) amount behindID beforeID ftb mx since mn [] = Inr []"
    for n mx since mn
  proof -
    obtain stop where "grab mx since mn (amount - 0) = Inr ([], stop)"
      using assms unfolding grabNone_def by blast
    then show ?thesis by simp
  qed
  then show ?thesis by (simp add: grabItems_def numeral_eq_Suc)
qed

lemma prepareXBetweenIDs_ids:
  assumes "prepareXBetweenIDs F amount behindID beforeID ftb es = (r, es')"
    and "grabNone (fnGrab F)" and "prepTotal (fnPrepare F)"
  shows "itemIDs es' = itemIDs es"
proof -
  have "indexXBetweenIDs (fnSkip F) (fnGrab F) (fnFilter F) amount behindID beforeID ftb es =
      (None, es)"
    by (simp add: indexXBetweenIDs_def Let_def grabItems_none [OF assms(2)] split: prod.split)
  with assms(1) show ?thesis
    using prepareLoop_total [OF assms(3)]
    by (auto simp: prepareXBetweenIDs_def Let_def split: if_splits prod.splits) fastforce?
qed


definition betweenIDs :: "string \<Rightarrow> string \<Rightarrow> string list \<Rightarrow> string list" where
  "betweenIDs lo hi is = filter (\<lambda>i. lo < i \<and> i < hi) is"

lemma take_filter_ids:
  assumes "prepTotal prep" and "preparedOK es"
  shows "map prID (map (prepVal prep) (take n (filter P es))) = itemIDs (take n (filter P es))"
proof -
  have "preparedOK (take n (filter P es))"
    using assms(2) by (auto simp: preparedOK_def dest!: in_set_takeD)
  from prepVal_ids [OF assms(1) this] show ?thesis by (simp add: comp_def)
qed

lemma itemIDs_filter: "itemIDs (filter (\<lambda>e. P (itemID e)) es) = filter P (itemIDs es)"
  by (simp add: itemIDs_def filter_map comp_def)

lemma itemIDs_take: "itemIDs (take n es) = take n (itemIDs es)"
  by (simp add: itemIDs_def take_map)

lemma getXBetweenIDs_total:
  assumes "goodFns F" and "prepTotal (fnPrepare F)" and "grabNone (fnGrab F)" and "tlInv es"
    and "0 \<le> amount" and "beforeID < behindID"
  shows "ftb \<Longrightarrow> \<exists>items. fst (getXBetweenIDs F amount behindID beforeID ftb es) = Inr items \<and>
      map prID items = take (nat (max 1 amount)) (betweenIDs beforeID behindID (itemIDs es))"
    and "\<not> ftb \<Longrightarrow> beforeID \<in> set (itemIDs es) \<Longrightarrow>
      \<exists>items. fst (getXBetweenIDs F amount behindID beforeID ftb es) = Inr items \<and>
      map prID items = rev (take (nat (max 1 amount)) (rev (betweenIDs beforeID behindID (itemIDs es))))"
proof -
  let ?n = "nat (max 1 amount)" and ?prep = "fnPrepare F"
  obtain err es1 where p: "prepareXBetweenIDs F amount behindID beforeID ftb es = (err, es1)"
    by fastforce
  have ids: "itemIDs es1 = itemIDs es" by (rule prepareXBetweenIDs_ids [OF p assms(3,2)])
  have inv: "newestFirst es1" "preparedOK es1"
    using prepareXBetweenIDs_tlInv [OF p] assms(1,4) by (simp_all add: goodFns_def tlInv_def)
  have rng: "\<not> amount < 0" "\<not> behindID \<le> beforeID" using assms(5,6) by auto
  show "\<exists>items. fst (getXBetweenIDs F amount behindID beforeID ftb es) = Inr items \<and>
      map prID items = take ?n (betweenIDs beforeID behindID (itemIDs es))" if ftb
  proof -
    let ?P = "\<lambda>e. beforeID < itemID e \<and> itemID e < behindID"
    have "fst (getXBetweenIDs F amount behindID beforeID ftb es) =
        Inr (map (prepVal ?prep) (take ?n (filter ?P es1)))"
      using that p rng serveDown_total [OF assms(2) inv(1), of amount behindID beforeID 0]
      by (simp add: getXBetweenIDs_def)
    then show ?thesis
      using take_filter_ids [OF assms(2) inv(2), of ?n ?P]
      by (simp add: itemIDs_take betweenIDs_def ids
          itemIDs_filter [of "\<lambda>i. beforeID < i \<and> i < behindID"])
  qed
  show "\<exists>items. fst (getXBetweenIDs F amount behindID beforeID ftb es) = Inr items \<and>
      map prID items = rev (take ?n (rev (betweenIDs beforeID behindID (itemIDs es))))"
    if "\<not> ftb" "beforeID \<in> set (itemIDs es)"
  proof -
    obtain up lo where m: "uptoMark beforeID es1 = (up, lo)" by fastforce
    have up: "newestFirst up" "preparedOK up"
      using inv uptoMark_append [OF m] by (auto simp: newestFirst_def sorted_wrt_append)
    then have asc: "sorted_wrt (\<lambda>a b. itemID a < itemID b) (rev up)"
      by (simp add: newestFirst_def sorted_wrt_rev)
    let ?P = "\<lambda>e. itemID e \<noteq> beforeID \<and> itemID e < behindID"
    have "fst (getXBetweenIDs F amount behindID beforeID ftb es) =
        Inr (rev (map (prepVal ?prep) (take ?n (filter ?P (rev up)))))"
      using that p rng m serveUp_total [OF assms(2) asc, of amount behindID beforeID 0]
      by (auto simp: getXBetweenIDs_def split: prod.splits)
    moreover have "filter ?P (rev up) =
        rev (filter (\<lambda>e. beforeID < itemID e \<and> itemID e < behindID) es1)"
      using uptoMark_filter [OF inv(1) _ m, of "\<lambda>e. itemID e < behindID"] that(2) ids
      by (simp add: rev_filter [symmetric])
    ultimately show ?thesis
      using take_filter_ids [OF assms(2), of "rev up" ?n ?P] up(2)
      by (simp add: itemIDs_take betweenIDs_def ids rev_map [symmetric]
          itemIDs_filter [of "\<lambda>i. beforeID < i \<and> i < behindID"])
  qed
qed

text \<open>
  A page is complete: when the database holds nothing more to index and every item can be
  prepared, paging down serves exactly the first \<open>limit\<close> indexed items strictly between the
  bounds, and none is skipped.
\<close>

theorem getTimeline_down_complete:
  assumes "mreach m" and "m tid = Some t" and "goodFns F" and "prepTotal (fnPrepare F)"
    and "grabNone (fnGrab F)" and "0 < limit" and "since \<noteq> [] \<or> mn = []"
    and "(if since = [] then idLowest else since) < (if mx = [] then idHighest else mx)"
  shows "\<exists>items. fst (getTimeline F now tid mx since mn limit m) = Inr items \<and>
    map prID items = take (nat limit)
      (betweenIDs (if since = [] then idLowest else since) (if mx = [] then idHighest else mx)
        (map itemID (tlItems t)))"
proof -
  have inv: "tlInv (tlItems t)" using mreach_inv [OF assms(1)] assms(2) by (simp add: managerInv_def)
  have "max 1 limit = limit" using assms(6) by simp
  then obtain items where i: "fst (getXBetweenIDs F limit (if mx = [] then idHighest else mx)
      (if since = [] then idLowest else since) True (tlItems t)) = Inr items"
      "map prID items = take (nat limit)
      (betweenIDs (if since = [] then idLowest else since) (if mx = [] then idHighest else mx)
        (itemIDs (tlItems t)))"
    using getXBetweenIDs_total(1) [OF assms(3-5) inv _ assms(8), of limit True] assms(6) by auto
  moreover have "fst (getTimeline F now tid mx since mn limit m) =
      fst (getXBetweenIDs F limit (if mx = [] then idHighest else mx)
        (if since = [] then idLowest else since) True (tlItems t))"
    using assms(2,7)
    by (auto simp: getTimeline_def getOrCreateTimeline_def getItems_def getRange_def Let_def
        split: prod.splits)
  ultimately show ?thesis by (auto simp: itemIDs_def)
qed

lemma exFns_total: "prepTotal (fnPrepare exFns)" "grabNone (fnGrab exFns)"
  by (auto simp: exFns_def prepTotal_def grabNone_def)

theorem getTimeline_down_complete_witness:
  "\<exists>items. fst (getTimeline exFns 5 ''t'' [] [] [] 2 exManager) = Inr items \<and>
     map prID items = [''3'', ''2'']"
proof -
  have "betweenIDs idLowest idHighest (map itemID [exEntry ''3'', exEntry ''2'', exEntry ''1'']) =
      [''3'', ''2'', ''1'']"
    by (simp add: betweenIDs_def exEntry_def idLowest_def idHighest_def less_char_def)
  moreover have "idLowest < idHighest" by (simp add: idLowest_def idHighest_def less_char_def)
  ultimately show ?thesis
    using getTimeline_down_complete [OF exManager_reach _ exFns_good exFns_total, of "''t''" _ 2
        "[]" "[]" "[]" 5]
    by (simp add: exManager_def)
qed


text \<open>
  Paging up, under the same conditions and where the item \<open>minID\<close> is still indexed: the
  \<open>limit\<close> oldest indexed items strictly between the bounds, in descending order.
\<close>

theorem getTimeline_up_complete:
  assumes "mreach m" and "m tid = Some t" and "goodFns F" and "prepTotal (fnPrepare F)"
    and "grabNone (fnGrab F)" and "0 < limit" and "mn \<noteq> []"
    and "mn \<in> set (map itemID (tlItems t))" and "mn < (if mx = [] then idHighest else mx)"
  shows "\<exists>items. fst (getTimeline F now tid mx [] mn limit m) = Inr items \<and>
    map prID items = rev (take (nat limit)
      (rev (betweenIDs mn (if mx = [] then idHighest else mx) (map itemID (tlItems t)))))"
proof -
  have inv: "tlInv (tlItems t)" using mreach_inv [OF assms(1)] assms(2) by (simp add: managerInv_def)
  have "max 1 limit = limit" using assms(6) by simp
  then obtain items where i: "fst (getXBetweenIDs F limit (if mx = [] then idHighest else mx)
      mn False (tlItems t)) = Inr items"
      "map prID items = rev (take (nat limit)
      (rev (betweenIDs mn (if mx = [] then idHighest else mx) (itemIDs (tlItems t)))))"
    using getXBetweenIDs_total(2) [OF assms(3-5) inv _ assms(9), of limit False] assms(6,8)
    by (auto simp: itemIDs_def)
  moreover have "fst (getTimeline F now tid mx [] mn limit m) =
      fst (getXBetweenIDs F limit (if mx = [] then idHighest else mx) mn False (tlItems t))"
    using assms(2,7)
    by (auto simp: getTimeline_def getOrCreateTimeline_def getItems_def getRange_def Let_def
        split: prod.splits)
  ultimately show ?thesis by (auto simp: itemIDs_def)
qed

theorem getTimeline_up_complete_witness:
  "\<exists>items. fst (getTimeline exFns 5 ''t'' [] [] ''1'' 1 exManager) = Inr items \<and>
     map prID items = [''2'']"
proof -
  have "betweenIDs ''1'' idHighest (map itemID [exEntry ''3'', exEntry ''2'', exEntry ''1'']) =
      [''3'', ''2'']"
    by (simp add: betweenIDs_def exEntry_def idHighest_def less_char_def)
  moreover have "''1'' < idHighest" by (simp add: idHighest_def less_char_def)
  ultimately show ?thesis
    using getTimeline_up_complete [OF exManager_reach _ exFns_good exFns_total, of "''t''" _ 1
        "''1''" "[]" 5]
    by (simp add: exManager_def) (simp add: exEntry_def)
qed

text \<open>
  Where the item \<open>minID\<close> is not in the index (it was deleted, or never belonged to the timeline),
  the mark is the first item older than it, and that item is served, although it lies outside
  the range that was asked for.
\<close>

definition gapManager :: manager where
  "gapManager = snd (managerRemove ''t'' ''2'' exManager)"

lemma minID_serves_older_item:
  "mreach gapManager \<and>
   map_sum id (map prID) (fst (getTimeline exFns 5 ''t'' [] [] ''2'' 10 gapManager)) =
     Inr [''3'', ''1''] \<and> ''1'' < ''2''"
proof (intro conjI)
  show "mreach gapManager"
    unfolding gapManager_def by (rule mreach.step [OF exManager_reach mstep.remove])
  show "map_sum id (map prID) (fst (getTimeline exFns 5 ''t'' [] [] ''2'' 10 gapManager)) =
     Inr [''3'', ''1'']" by code_simp
qed code_simp

subsection \<open>Ingesting, wiping, pruning\<close>

definition indexedIn :: "manager \<Rightarrow> string \<Rightarrow> entry list" where
  "indexedIn m tid = (case m tid of None \<Rightarrow> [] | Some t \<Rightarrow> tlItems t)"

text \<open>
  Ingesting an item inserts it at its place in the order unless it is already indexed or
  boosts what stands, or was boosted, among the 49 newest entries; it is reported as inserted
  exactly then, and other timelines stay as they are.
\<close>

theorem ingestOne_effect:
  assumes "fnSkip F = skipInsert" and "ingestOne F tid it m = ((inserted, err), m')"
    and "es = indexedIn m tid"
  shows "(inserted \<longleftrightarrow> tiID it \<notin> set (map itemID es) \<and>
      \<not> recentlySeen (newEntry (tiID it) (tiBoostOfID it) (tiAccountID it) (tiBoostOfAccountID it)) 49 es) \<and>
    (\<exists>t'. m' tid = Some t' \<and> map itemID (tlItems t') =
      (if inserted then takeWhile (\<lambda>i. tiID it < i) (map itemID es) @ tiID it #
                        dropWhile (\<lambda>i. tiID it < i) (map itemID es)
       else map itemID es)) \<and>
    (\<forall>tid'. tid' \<noteq> tid \<longrightarrow> m' tid' = m tid')"
proof -
  let ?new = "newEntry (tiID it) (tiBoostOfID it) (tiAccountID it) (tiBoostOfAccountID it)"
  obtain t m1 where g: "getOrCreateTimeline tid m = (t, m1)" by fastforce
  have es: "tlItems t = es" "\<forall>tid'. tid' \<noteq> tid \<longrightarrow> m1 tid' = m tid'"
    using g assms(3)
    by (auto simp: getOrCreateTimeline_def indexedIn_def newTimeline_def split: option.splits)
  let ?k = "length (takeWhile (\<lambda>e. tiID it < itemID e) es)"
  have new: "itemID ?new = tiID it" by (simp add: newEntry_def)
  obtain es' where i: "indexAndPrepareOne skipInsert (fnPrepare F) (tiID it) (tiBoostOfID it)
      (tiAccountID it) (tiBoostOfAccountID it) es = ((inserted, err), es')"
      "m' = m1(tid \<mapsto> t\<lparr>tlItems := es'\<rparr>)"
    using assms(1,2) g es(1) by (auto simp: ingestOne_def onItems_def split: prod.splits)
  show ?thesis
  proof (cases "tiID it \<in> set (map itemID es) \<or> recentlySeen ?new 49 es")
    case True
    then have "\<not> inserted \<and> es' = es"
      using i(1) new by (auto simp: indexAndPrepareOne_def insertIndexed_skipInsert itemIDs_def)
    with True i(2) es(2) show ?thesis by auto
  next
    case False
    have "inserted \<and> map itemID es' = map itemID (takeWhile (\<lambda>e. tiID it < itemID e) es @ ?new #
        dropWhile (\<lambda>e. tiID it < itemID e) es)"
      using i(1) new False
      by (auto simp: indexAndPrepareOne_def insertIndexed_skipInsert itemIDs_def Let_def
          list_update_append split: sum.splits)
    then show ?thesis
      using False i(2) es(2) new by (simp add: takeWhile_map dropWhile_map comp_def)
  qed
qed


theorem ingestOne_effect_witness:
  "fst (fst (ingestOne exFns ''t'' (exItem ''4'') exManager)) \<and>
   \<not> fst (fst (ingestOne exFns ''t'' (exItem ''2'') exManager))"
proof -
  obtain i4 e4 m4 where 4: "ingestOne exFns ''t'' (exItem ''4'') exManager = ((i4, e4), m4)"
    by (metis prod.exhaust)
  obtain i2 e2 m2 where 2: "ingestOne exFns ''t'' (exItem ''2'') exManager = ((i2, e2), m2)"
    by (metis prod.exhaust)
  have skip: "fnSkip exFns = skipInsert" using exFns_good by (simp add: goodFns_def)
  show ?thesis
    using ingestOne_effect [OF skip 4 refl] ingestOne_effect [OF skip 2 refl] 4 2
    by (simp add: indexedIn_def exManager_def exEntry_def exItem_def recentlySeen_def newEntry_def)
qed

lemma map_itemID_unprep: "map itemID (map unprep es) = map itemID es"
  by (simp add: unprep_def)

text \<open>
  After the hourly job each timeline that was fetched within the last hour is unchanged;
  of each other one the 400 newest entries are left, of which the 50 newest are as they were
  and the rest hold no prepared item.
\<close>

theorem managerTick_prunes:
  "rel_option (\<lambda>t t'.
     if now - tlLastGot t < oneHour then t' = t
     else map itemID (tlItems t') = take 400 (map itemID (tlItems t)) \<and>
       take 50 (tlItems t') = take 50 (tlItems t) \<and>
       (\<forall>e \<in> set (drop 50 (tlItems t')). prepared e = None) \<and>
       tlLastGot t' = tlLastGot t) (m tid) (managerTick now m tid)"
proof (cases "m tid")
  case (Some t)
  let ?es = "tlItems t"
  have pr: "snd (pruneIndex 50 400 ?es) = take 50 ?es @ map unprep (drop 50 (take 400 ?es))"
    by (simp add: pruneIndex_eq Let_def)
  have "take 50 ?es @ drop 50 (take 400 ?es) = take 400 ?es"
    using append_take_drop_id [of 50 "take 400 ?es"] by simp
  then have "map itemID (snd (pruneIndex 50 400 ?es)) = take 400 (map itemID ?es)"
    unfolding pr map_append map_itemID_unprep by (metis map_append take_map)
  moreover have "take 50 (snd (pruneIndex 50 400 ?es)) = take 50 ?es"
    by (cases "length ?es \<le> 50") (simp_all add: pr)
  moreover have "\<forall>e \<in> set (drop 50 (snd (pruneIndex 50 400 ?es))). prepared e = None"
    by (cases "length ?es \<le> 50") (auto simp: pr unprep_def)
  ultimately show ?thesis using Some by (simp add: managerTick_def)
qed (simp add: managerTick_def)

theorem managerTick_prunes_witness:
  "\<exists>t. managerTick oneHour exManager ''t'' = Some t \<and> map itemID (tlItems t) = [''3'', ''2'', ''1'']"
proof -
  have "exManager ''t'' = Some \<lparr>tlItems = [exEntry ''3'', exEntry ''2'', exEntry ''1''], tlLastGot = 0\<rparr>"
    by (simp add: exManager_def)
  then show ?thesis
    using managerTick_prunes [of oneHour exManager "''t''"]
    by (cases "managerTick oneHour exManager ''t''") (auto simp: exEntry_def)
qed

subsection \<open>Deleted items are not served\<close>

definition grabAvoids :: "string \<Rightarrow> grab_fn \<Rightarrow> bool" where
  "grabAvoids i grab \<longleftrightarrow>
     (\<forall>mx since mn n its stop. grab mx since mn n = Inr (its, stop) \<longrightarrow> i \<notin> tiID ` set its)"

lemma filterItems_subset: "filterItems flt its = Inr oks \<Longrightarrow> set oks \<subseteq> set its"
  by (induction its arbitrary: oks) (auto split: sum.splits if_splits)

lemma grabLoop_avoids:
  assumes "grabAvoids i grab"
  shows "grabLoop grab flt n amount behindID beforeID ftb mx since mn filtered = Inr its \<Longrightarrow>
    i \<notin> tiID ` set filtered \<Longrightarrow> i \<notin> tiID ` set its"
proof (induction n arbitrary: mx mn filtered)
  case (Suc n)
  have step: "i \<notin> tiID ` set (filtered @ oks)"
    if "grab mx since mn k = Inr (items, stop)" "filterItems flt items = Inr oks" for k items stop oks
    using assms that filterItems_subset [OF that(2)] Suc.prems(2)
    unfolding grabAvoids_def by fastforce
  show ?case
    using Suc.prems Suc.IH step
    by (auto simp: Let_def split: if_splits sum.splits prod.splits)
qed simp

lemma insertAll_ids:
  "insertAll skip its es = (r, es') \<Longrightarrow> set (itemIDs es') \<subseteq> set (itemIDs es) \<union> tiID ` set its"
proof (induction its arbitrary: es)
  case (Cons it its)
  let ?new = "newEntry (tiID it) (tiBoostOfID it) (tiAccountID it) (tiBoostOfAccountID it)"
  obtain q es1 where q: "insertIndexed skip ?new es = (q, es1)" by fastforce
  have "set (itemIDs es1) \<subseteq> insert (tiID it) (set (itemIDs es))"
    using insertIndexed_set [OF q] by (fastforce simp: itemIDs_def newEntry_def)
  then show ?case
    using Cons.prems Cons.IH [of es1] q by (auto split: sum.splits)
qed simp

lemma indexXBetweenIDs_avoids:
  assumes "indexXBetweenIDs skip grab flt amount behindID beforeID ftb es = (r, es')"
    and "grabAvoids i grab" and "i \<notin> set (itemIDs es)"
  shows "i \<notin> set (itemIDs es')"
  using assms grabLoop_avoids [OF assms(2)] insertAll_ids
  by (auto simp: indexXBetweenIDs_def Let_def grabItems_def split: if_splits sum.splits prod.splits)
    fastforce+

lemma prepareXBetweenIDs_avoids:
  assumes "prepareXBetweenIDs F amount behindID beforeID ftb es = (r, es')"
    and "grabAvoids i (fnGrab F)" and "i \<notin> set (itemIDs es)"
  shows "i \<notin> set (itemIDs es')"
proof (cases "behindID \<le> beforeID")
  case False
  obtain r1 es1 where x: "indexXBetweenIDs (fnSkip F) (fnGrab F) (fnFilter F) amount behindID
      beforeID ftb es = (r1, es1)" by fastforce
  from assms(1) False x obtain todo es2 where p:
      "prepareLoop (fnPrepare F) todo (map Some es1) = (r, es2)" "es' = compact es2"
    by (auto simp: prepareXBetweenIDs_def Let_def split: prod.splits)
  have "set (itemIDs es') \<subseteq> set (itemIDs es1)"
    using list_emb_set [OF prepareLoop_subseq [OF p(1)]] by (auto simp: p(2))
  with indexXBetweenIDs_avoids [OF x assms(2,3)] show ?thesis by blast
qed (use assms in \<open>simp add: prepareXBetweenIDs_def\<close>)

lemma getXBetweenIDs_avoids:
  assumes "getXBetweenIDs F amount behindID beforeID ftb es = (Inr items, es')"
    and "goodFns F" and "tlInv es" and "grabAvoids i (fnGrab F)" and "i \<notin> set (itemIDs es)"
  shows "i \<notin> prID ` set items"
proof (cases "behindID \<le> beforeID")
  case False
  obtain err es1 where p: "prepareXBetweenIDs F amount behindID beforeID ftb es = (err, es1)"
    by fastforce
  have ok: "prepOK (fnPrepare F)" using assms(2) by (simp add: goodFns_def)
  have inv: "preparedOK es1"
    using prepareXBetweenIDs_tlInv [OF p] assms(2,3) by (simp add: goodFns_def tlInv_def)
  have i: "i \<notin> set (itemIDs es1)" by (rule prepareXBetweenIDs_avoids [OF p assms(4,5)])
  have sub: "i \<notin> prID ` set ps"
    if "subseq (map prID ps) xs" "set xs \<subseteq> set (itemIDs es1)" for ps xs
    using list_emb_set [OF that(1)] that(2) i by (metis image_eqI list.set_map subsetD)
  show ?thesis
  proof (cases ftb)
    case True
    then have "serveDown (fnPrepare F) amount behindID beforeID 0 es1 = (Inr items, es')"
      using assms(1) False p by (simp add: getXBetweenIDs_def split: if_splits)
    from serveDown_items [OF ok this inv] show ?thesis using sub by blast
  next
    case ftb: False
    obtain up lo where m: "uptoMark beforeID es1 = (up, lo)" by fastforce
    obtain r1 up' where u: "serveUp (fnPrepare F) amount behindID beforeID 0 (rev up) = (r1, up')"
      by fastforce
    from assms(1) False ftb p m u have "map_sum id rev r1 = Inr items"
      by (simp add: getXBetweenIDs_def split: if_splits)
    then obtain ps where "r1 = Inr ps" "items = rev ps" by (cases r1) auto
    moreover have "preparedOK (rev up)" using inv uptoMark_append [OF m] by simp
    ultimately show ?thesis
      using serveUp_items [OF ok, of amount behindID beforeID 0 "rev up" ps up'] u
        sub [of ps "itemIDs (rev up)"] uptoMark_append [OF m] by auto
  qed
qed (use assms(1) in \<open>simp add: getXBetweenIDs_def split: if_splits\<close>)

text \<open>
  A status that is deleted is served no more: after it was wiped from all timelines, and
  with a database that does not return it, no page of any timeline contains it.
\<close>

theorem wiped_item_not_served:
  assumes "mreach m" and "goodFns F" and "grabAvoids i (fnGrab F)"
    and "getTimeline F now tid mx since mn limit (wipeItemFromAllTimelines i m) = (Inr items, q, m')"
  shows "i \<notin> prID ` set items"
proof -
  let ?m = "wipeItemFromAllTimelines i m"
  obtain t m1 where g: "getOrCreateTimeline tid ?m = (t, m1)" by fastforce
  have "mreach ?m" by (rule mreach.step [OF assms(1) mstep.wipeItem])
  then have inv: "tlInv (tlItems t)" using getOrCreate_inv [OF g mreach_inv] by simp
  have i: "i \<notin> set (itemIDs (tlItems t))"
    using g by (auto simp: getOrCreateTimeline_def wipeItemFromAllTimelines_def newTimeline_def
        removeItem_eq itemIDs_def split: option.splits)
  obtain es' where u: "getRange F limit mx since mn True (tlItems t) = (Inr items, q, es')"
    using assms(4) g by (auto simp: getTimeline_def getItems_def split: prod.splits)
  show ?thesis
    using u getXBetweenIDs_avoids [OF _ assms(2) inv assms(3) i]
    by (auto simp: getRange_def split: if_splits prod.splits)
qed

theorem wiped_item_not_served_witness:
  "map_sum id (map prID)
     (fst (getTimeline exFns 5 ''t'' [] [] [] 10 (wipeItemFromAllTimelines ''2'' exManager))) =
     Inr [''3'', ''1''] \<and>
   ''2'' \<notin> prID ` set (projr
     (fst (getTimeline exFns 5 ''t'' [] [] [] 10 (wipeItemFromAllTimelines ''2'' exManager))))"
proof
  show r: "map_sum id (map prID)
     (fst (getTimeline exFns 5 ''t'' [] [] [] 10 (wipeItemFromAllTimelines ''2'' exManager))) =
     Inr [''3'', ''1'']" by code_simp
  obtain r q m' where g: "getTimeline exFns 5 ''t'' [] [] [] 10
      (wipeItemFromAllTimelines ''2'' exManager) = (r, q, m')" by (metis prod.exhaust)
  moreover obtain items where "r = Inr items" using r g by (cases r) auto
  moreover have "grabAvoids ''2'' (fnGrab exFns)" by (simp add: grabAvoids_def exFns_def)
  ultimately show "''2'' \<notin> prID ` set (projr
     (fst (getTimeline exFns 5 ''t'' [] [] [] 10 (wipeItemFromAllTimelines ''2'' exManager))))"
    using wiped_item_not_served [OF exManager_reach exFns_good, of "''2''"] by auto
qed

end
