(* ===== verification/StructCache.thy ===== *)
theory StructCache
  imports Prelude
begin

text \<open>
  The cache wrapper of \<open>src/internal/cache/wrappers.go\<close> as its callers see it: a unique index
  of loaded results, where an error is a result too. \<open>LoadOne\<close> answers from the cache or runs
  the loader, which may itself load other keys; the results whose error \<open>ignore\<close> matches are
  not stored. Eviction, which bounds the size, forgets a key at any time. An invalidation forgets
  every key that matches, as the wrapper documents; \<open>Structr\<close> models the library's own index
  lists, and shows which items its \<open>Invalidate\<close> reaches.
\<close>

type_synonym ('k, 'e, 'v) cache = "'k \<Rightarrow> ('e + 'v) option"

text \<open>
  \<open>x\<close> is what the loader does to the caller's arguments, which stay as they are on a hit.
\<close>

definition loadOne :: "('e \<Rightarrow> bool) \<Rightarrow> 'k \<Rightarrow> 'x \<Rightarrow> (('k, 'e, 'v) cache \<Rightarrow> ('e + 'v) \<times> 'x \<times> ('k, 'e, 'v) cache) \<Rightarrow>
    ('k, 'e, 'v) cache \<Rightarrow> ('e + 'v) \<times> 'x \<times> ('k, 'e, 'v) cache" where
  "loadOne ignore k x load c =
     (case c k of
        Some r \<Rightarrow> (r, x, c)
      | None \<Rightarrow>
          (let (r, x', c') = load c
           in case r of
                Inl e \<Rightarrow> if ignore e then (r, x', c') else (r, x', c'(k \<mapsto> r))
              | Inr v \<Rightarrow> (r, x', c'(k \<mapsto> r))))"

definition invalidateWhere :: "('k \<Rightarrow> bool) \<Rightarrow> ('k, 'e, 'v) cache \<Rightarrow> ('k, 'e, 'v) cache" where
  "invalidateWhere P c = (\<lambda>k. if P k then None else c k)"

text \<open>
  A cache agrees with what it stands for when every cached result of a tracked key is the one
  that a lookup of the key would compute now.
\<close>

definition agrees :: "('k \<Rightarrow> bool) \<Rightarrow> ('k \<Rightarrow> 'e + 'v) \<Rightarrow> ('k, 'e, 'v) cache \<Rightarrow> bool" where
  "agrees tracked spec c \<longleftrightarrow> (\<forall>k r. tracked k \<longrightarrow> c k = Some r \<longrightarrow> r = spec k)"

lemma agrees_empty [simp]: "agrees tracked spec (\<lambda>_. None)"
  by (simp add: agrees_def)

lemma agrees_invalidate:
  assumes "agrees tracked spec c" and "\<And>k. tracked k \<Longrightarrow> \<not> P k \<Longrightarrow> spec' k = spec k"
  shows "agrees tracked spec' (invalidateWhere P c)"
  using assms by (auto simp: agrees_def invalidateWhere_def)

lemma loadOne_agrees:
  assumes "\<And>r x c'. load c = (r, x, c') \<Longrightarrow> agrees tracked spec c' \<and> (tracked k \<longrightarrow> r = spec k)"
    and "agrees tracked spec c" and "loadOne ignore k x0 load c = (r, x, c')"
  shows "agrees tracked spec c' \<and> (tracked k \<longrightarrow> r = spec k)"
proof (cases "c k")
  case (Some r0)
  with assms(2,3) show ?thesis by (auto simp: loadOne_def agrees_def)
next
  case None
  obtain r0 x0 c0 where l: "load c = (r0, x0, c0)" by (metis prod.exhaust)
  from assms(1) [OF l] None assms(3) l show ?thesis
    by (auto simp: loadOne_def agrees_def split: sum.splits if_splits)
qed

text \<open>
  The contract of a cached lookup: in a cache that agrees, the loader of a valid query computes
  the value its key stands for and leaves a cache that agrees.
\<close>

locale cached_lookup =
  fixes tracked :: "'k \<Rightarrow> bool"
    and spec :: "'k \<Rightarrow> 'e + 'v"
    and key :: "'q \<Rightarrow> 'k"
    and arg :: "'q \<Rightarrow> 'x"
    and load :: "'q \<Rightarrow> ('k, 'e, 'v) cache \<Rightarrow> ('e + 'v) \<times> 'x \<times> ('k, 'e, 'v) cache"
    and valid :: "'q \<Rightarrow> bool"
  assumes load_ok: "valid q \<Longrightarrow> agrees tracked spec c \<Longrightarrow> load q c = (r, x, c') \<Longrightarrow>
      r = spec (key q) \<and> agrees tracked spec c'"
    and key_tracked: "valid q \<Longrightarrow> tracked (key q)"
begin

lemma lookup_ok:
  assumes "valid q" and "agrees tracked spec c"
    and "loadOne ignore (key q) (arg q) (load q) c = (r, x, c')"
  shows "r = spec (key q) \<and> agrees tracked spec c'"
  using loadOne_agrees [OF _ assms(2,3)] load_ok [OF assms(1,2)] key_tracked [OF assms(1)] by blast

text \<open>A hit and a miss give the same answer.\<close>

lemma lookup_stable:
  assumes "valid q" and "agrees tracked spec c" and "agrees tracked spec d"
  shows "fst (loadOne ignore (key q) (arg q) (load q) c) = fst (loadOne ignore (key q) (arg q) (load q) d)"
  using lookup_ok [OF assms(1,2)] lookup_ok [OF assms(1,3)] by (metis prod.collapse)

end

end
