(* ===== verification/Model.thy ===== *)
theory Model
  imports StructCache
begin

text \<open>
  The rows of \<open>src/internal/gtsmodel\<close> that several components share, with the fields the
  modelled code reads, and the error classes of \<open>src/internal/cache/util.go\<close>. Go's pointers to
  booleans that are never nil in a row are booleans.
\<close>

record account =
  acID :: string
  acUsername :: string
  acDomain :: string
  acSuspendedAt :: time
  acLocked :: bool

record user =
  usDisabled :: bool
  usApproved :: bool
  usConfirmedAt :: time

record mention =
  meID :: string
  meTargetAccountID :: string

record follow =
  foID :: string
  foCreatedAt :: time
  foUpdatedAt :: time
  foURI :: string
  foAccountID :: string
  foTargetAccountID :: string
  foShowReblogs :: bool
  foNotify :: bool

record follow_request =
  frID :: string
  frUpdatedAt :: time
  frURI :: string
  frAccountID :: string
  frTargetAccountID :: string
  frShowReblogs :: bool
  frNotify :: bool

record block =
  blID :: string
  blURI :: string
  blAccountID :: string
  blTargetAccountID :: string

record list_entry =
  leID :: string
  leListID :: string
  leFollowID :: string

record notif =
  noID :: string
  noType :: string
  noTargetAccountID :: string
  noOriginAccountID :: string

datatype visibility = VisPublic | VisUnlocked | VisFollowersOnly | VisMutualsOnly | VisDirect
  | VisOther string

text \<open>The boosted status inside a boost, as far as the boost's readers use it.\<close>

record boosted =
  boMentionIDs :: "string list"
  boMentions :: "mention list"

record status =
  stID :: string
  stAccountID :: string
  stAccount :: account
  stCreatedAt :: time
  stVisibility :: visibility
  stMentionIDs :: "string list"
  stMentions :: "mention list"
  stBoostOfID :: string
  stBoostOf :: "boosted option"
  stBoostOfAccountID :: string
  stBoostOfAccount :: account
  stInReplyToID :: string
  stInReplyToURI :: string
  stBoostable :: bool

text \<open>\<open>Status.MentionsPopulated\<close> and \<open>Status.MentionsAccount\<close>, on the fields they read.\<close>

fun mentionsMatch :: "string list \<Rightarrow> mention list \<Rightarrow> bool" where
  "mentionsMatch [] ms = True"
| "mentionsMatch (i # is) (m # ms) = (meID m = i \<and> mentionsMatch is ms)"
| "mentionsMatch (i # is) [] = False"

definition mentionsPopulated :: "string list \<Rightarrow> mention list \<Rightarrow> bool" where
  "mentionsPopulated ids ms = (if length ids \<noteq> length ms then False else mentionsMatch ids ms)"

definition mentionsAccount :: "mention list \<Rightarrow> string \<Rightarrow> bool" where
  "mentionsAccount ms acc = list_ex (\<lambda>m. meTargetAccountID m = acc) ms"

record host_config =
  cfgHost :: string
  cfgAccountDomain :: string

definition isLocalAccount :: "host_config \<Rightarrow> account \<Rightarrow> bool" where
  "isLocalAccount cfg a \<longleftrightarrow>
     acDomain a = [] \<or> acDomain a = cfgHost cfg \<or> acDomain a = cfgAccountDomain cfg"

text \<open>
  The errors a lookup can end with: the two database errors that a cache may keep, the sentinel
  of a temporary failure, a nil dereference of the caller, anything else. \<open>ignoreErrors\<close> is
  true of the errors that are not cached.
\<close>

datatype lookup_error = LNoEntries | LAlreadyExists | LSentinel | LPanic | LOther string

definition ignoreErrors :: "lookup_error \<Rightarrow> bool" where
  "ignoreErrors e = (\<not> (e = LNoEntries \<or> e = LAlreadyExists))"

end
