(* ===== verification/Structr.thy ===== *)
theory Structr
  imports Model
begin

text \<open>
  The result cache of \<open>src/internal/cache/wrappers.go\<close> at the level of its items and indices:
  \<open>src/vendor/codeberg.org/gruf/go-structr\<close> (\<open>cache.go\<close>, \<open>index.go\<close>, \<open>list.go\<close>). An item is
  a value or an error with the index keys that lead to it; the cache is the list of its items,
  the most recently stored first, which is also the order of the list behind an index key. The
  order of last use, which only decides what eviction drops, is left to the eviction steps of
  the components: they drop any item.

  The tables that the caches stand for are lists of rows; \<open>cacheInv\<close> relates the two, and the
  locale \<open>indexed\<close> proves once, for every table of the program, that lookups through the cache
  answer what the table holds and that the stores and invalidations keep it so.
\<close>

subsection \<open>Items and indices\<close>

text \<open>An index key: the name of the index and the key parts; \<open>None\<close> is the empty key, which
  stands for every tuple of parts with a zero value.\<close>

type_synonym ixkey = "string \<times> string list option"

record 'v sindex =
  ixName :: string
  ixFields :: "'v \<Rightarrow> string list"
  ixMultiple :: bool
  ixAllowZero :: bool

record 'v item =
  itData :: "lookup_error + 'v"
  itKeys :: "ixkey list"

type_synonym 'v scache = "'v item list"

definition ixKey :: "'v sindex \<Rightarrow> string list \<Rightarrow> ixkey" where
  "ixKey i parts = (ixName i, if \<not> ixAllowZero i \<and> [] \<in> set parts then None else Some parts)"

definition isUnique :: "'v sindex list \<Rightarrow> ixkey \<Rightarrow> bool" where
  "isUnique ixs k = (case find (\<lambda>i. ixName i = fst k) ixs of None \<Rightarrow> False | Some i \<Rightarrow> \<not> ixMultiple i)"

definition getOne :: "ixkey \<Rightarrow> 'v scache \<Rightarrow> 'v item option" where
  "getOne k c = find (\<lambda>it. k \<in> set (itKeys it)) c"

text \<open>\<open>Index.get\<close>, with the hook of \<open>Cache.Load\<close>: the values under a key, errors left out.\<close>

definition getValues :: "ixkey \<Rightarrow> 'v scache \<Rightarrow> 'v list" where
  "getValues k c = concat (map (\<lambda>it. case itData it of Inr v \<Rightarrow> [v] | Inl _ \<Rightarrow> [])
     (filter (\<lambda>it. k \<in> set (itKeys it)) c))"

text \<open>\<open>Index.append\<close> on a unique index: the item that held the key loses it, and only it.\<close>

definition dropHead :: "ixkey \<Rightarrow> 'v scache \<Rightarrow> 'v scache" where
  "dropHead k c = map_first (\<lambda>it. k \<in> set (itKeys it)) (\<lambda>it. it\<lparr>itKeys := removeAll k (itKeys it)\<rparr>) c"

definition appendKey :: "'v sindex list \<Rightarrow> ixkey \<Rightarrow> 'v scache \<Rightarrow> 'v scache" where
  "appendKey ixs k c = (if isUnique ixs k then dropHead k c else c)"

text \<open>The keys \<open>store_value\<close> puts an item under; \<open>load\<close> is the key it was loaded by, if any.\<close>

definition valueKeys :: "'v sindex list \<Rightarrow> ixkey option \<Rightarrow> 'v \<Rightarrow> ixkey list" where
  "valueKeys ixs load v =
     (let others = filter (\<lambda>i. load = None \<or> ixName i \<noteq> fst (the load)) ixs
      in (case load of None \<Rightarrow> [] | Some k \<Rightarrow> [k])
         @ filter (\<lambda>k. snd k \<noteq> None) (map (\<lambda>i. ixKey i (ixFields i v)) others))"

definition storeValue :: "'v sindex list \<Rightarrow> ixkey option \<Rightarrow> 'v \<Rightarrow> 'v scache \<Rightarrow> 'v scache" where
  "storeValue ixs load v c =
     \<lparr>itData = Inr v, itKeys = valueKeys ixs load v\<rparr> # fold (appendKey ixs) (valueKeys ixs load v) c"

definition storeError :: "'v sindex list \<Rightarrow> ixkey \<Rightarrow> lookup_error \<Rightarrow> 'v scache \<Rightarrow> 'v scache" where
  "storeError ixs k e c = \<lparr>itData = Inl e, itKeys = [k]\<rparr> # appendKey ixs k c"

text \<open>
  \<open>Cache.LoadOne\<close>: \<open>s\<close> is the state the loader works on. An index that does not exist or is
  not unique panics.
\<close>

definition loadOneBy :: "'v sindex list \<Rightarrow> string \<Rightarrow> string list \<Rightarrow>
    ('s \<Rightarrow> (lookup_error + 'v) \<times> 's) \<Rightarrow> 's \<Rightarrow> 'v scache \<Rightarrow> (lookup_error + 'v) \<times> 's \<times> 'v scache" where
  "loadOneBy ixs name parts load s c =
     (case find (\<lambda>i. ixName i = name) ixs of
        None \<Rightarrow> (Inl LPanic, s, c)
      | Some i \<Rightarrow>
          if ixMultiple i then (Inl LPanic, s, c)
          else
            (case getOne (ixKey i parts) c of
               Some it \<Rightarrow> (itData it, s, c)
             | None \<Rightarrow>
                 (let (r, s') = load s
                  in case r of
                       Inl e \<Rightarrow> if ignoreErrors e then (r, s', c)
                                 else (r, s', storeError ixs (ixKey i parts) e c)
                     | Inr v \<Rightarrow> (r, s', storeValue ixs (Some (ixKey i parts)) v c))))"

text \<open>\<open>Cache.Load\<close> as \<open>LoadIDs\<close> calls it; the loader runs even when no ID is left to load.\<close>

definition loadIDs :: "'v sindex \<Rightarrow> 'v sindex list \<Rightarrow> string list \<Rightarrow>
    (string list \<Rightarrow> 's \<Rightarrow> (lookup_error + 'v list) \<times> 's) \<Rightarrow> 's \<Rightarrow> 'v scache \<Rightarrow>
    (lookup_error + 'v list) \<times> 's \<times> 'v scache" where
  "loadIDs i ixs ids load s c =
     (let hits = concat (map (\<lambda>x. getValues (ixKey i [x]) c) ids);
          missing = filter (\<lambda>x. getValues (ixKey i [x]) c = []) ids;
          (r, s') = load missing s
      in case r of
           Inl e \<Rightarrow> (Inl e, s', c)
         | Inr vs \<Rightarrow> (Inr (hits @ vs), s', fold (storeValue ixs None) vs c))"

text \<open>
  \<open>Index.delete\<close> as it is written: the loop \<open>for x := 0; x < l.len; x++\<close> pops the head of
  the list, and each \<open>remove\<close> shortens \<open>l.len\<close>, so of \<open>n\<close> items under the key only the first
  \<open>n - n div 2\<close> are popped and dropped. The others stay in the cache and lose the key, because
  the list is taken out of the index. Their index entries stay behind with the key; what those
  do to a later list under the same key is not followed.
\<close>

fun popLoop :: "nat \<Rightarrow> nat \<Rightarrow> nat \<Rightarrow> nat" where
  "popLoop 0 x len = 0"
| "popLoop (Suc fuel) x len = (if x < len then Suc (popLoop fuel (x + 1) (len - 1)) else 0)"

fun deleteFirst :: "nat \<Rightarrow> ixkey \<Rightarrow> 'v scache \<Rightarrow> 'v list \<times> 'v scache" where
  "deleteFirst m k [] = ([], [])"
| "deleteFirst m k (it # c) =
     (if k \<in> set (itKeys it) then
        (case m of
           0 \<Rightarrow> (let (vs, c') = deleteFirst 0 k c
                  in (vs, it\<lparr>itKeys := removeAll k (itKeys it)\<rparr> # c'))
         | Suc n \<Rightarrow> (let (vs, c') = deleteFirst n k c
                      in ((case itData it of Inr v \<Rightarrow> [v] | Inl _ \<Rightarrow> []) @ vs, c')))
      else (let (vs, c') = deleteFirst m k c in (vs, it # c')))"

definition holders :: "ixkey \<Rightarrow> 'v scache \<Rightarrow> 'v item list" where
  "holders k c = filter (\<lambda>it. k \<in> set (itKeys it)) c"

text \<open>\<open>Cache.Invalidate\<close> on one key; the values are those passed to the invalidation hook.\<close>

definition invalidateKey :: "ixkey \<Rightarrow> 'v scache \<Rightarrow> 'v list \<times> 'v scache" where
  "invalidateKey k c =
     (let n = length (holders k c) in deleteFirst (popLoop (Suc n) 0 n) k c)"

subsection \<open>The invalidation of a key that several items share\<close>

lemma popLoop_past: "len \<le> x \<Longrightarrow> popLoop fuel x len = 0"
  by (cases fuel) auto

lemma popLoop_dist: "d < fuel * 2 \<Longrightarrow> popLoop fuel x (x + d) = d - d div 2"
proof (induction fuel arbitrary: x d)
  case (Suc fuel)
  show ?case
  proof (cases "d < 2")
    case True
    then have "d = 0 \<or> d = 1" by auto
    then show ?thesis by (auto simp: popLoop_past)
  next
    case False
    then obtain e where e: "d = e + 2" by (metis le_add_diff_inverse2 not_less)
    have "popLoop (Suc fuel) x (x + d) = Suc (popLoop fuel (x + 1) ((x + 1) + e))"
      by (simp add: e)
    then show ?thesis using Suc.IH [of e "x + 1"] Suc.prems e by simp
  qed
qed simp

lemma popLoop_half: "popLoop (Suc n) 0 n = n - n div 2"
  using popLoop_dist [of n "Suc n" 0] by simp

lemma length_deleteFirst:
  "m \<le> length (holders k c) \<Longrightarrow> length (snd (deleteFirst m k c)) = length c - m"
proof (induction m k c rule: deleteFirst.induct)
  case (2 m k it c)
  have m: "m \<le> length c" if "k \<notin> set (itKeys it)"
    using that 2(4) length_filter_le [of "\<lambda>it. k \<in> set (itKeys it)" c]
    by (simp add: holders_def del: length_filter_le)
  show ?case
    using 2 m by (cases m; cases "k \<in> set (itKeys it)") (auto simp: holders_def split: prod.splits)
qed (simp add: holders_def)

lemma deleteFirst_no_holder: "holders k c = [] \<Longrightarrow> deleteFirst m k c = ([], c)"
  by (induction m k c rule: deleteFirst.induct) (auto simp: holders_def split: if_splits)

lemma length_invalidateKey:
  "length (snd (invalidateKey k c)) = length c - (length (holders k c) - length (holders k c) div 2)"
proof -
  let ?n = "length (holders k c)"
  show ?thesis
    using length_deleteFirst [of "?n - ?n div 2" k c]
    by (simp add: invalidateKey_def Let_def popLoop_half del: popLoop.simps)
qed

lemma invalidateKey_single:
  assumes "length (holders k c) \<le> 1"
  shows "snd (invalidateKey k c) = filter (\<lambda>it. k \<notin> set (itKeys it)) c"
    and "fst (invalidateKey k c) = getValues k c"
proof -
  have d: "deleteFirst (Suc 0) k c = (getValues k c, filter (\<lambda>it. k \<notin> set (itKeys it)) c)"
    if "length (holders k c) = 1" for c :: "'a scache"
    using that
  proof (induction c)
    case (Cons it c)
    show ?case
    proof (cases "k \<in> set (itKeys it)")
      case True
      then have "holders k c = []" using Cons.prems by (simp add: holders_def)
      moreover from this have "filter (\<lambda>it. k \<notin> set (itKeys it)) c = c"
        and "filter (\<lambda>it. k \<in> set (itKeys it)) c = []"
        by (auto simp: holders_def filter_id_conv filter_empty_conv)
      ultimately show ?thesis using True deleteFirst_no_holder [of k c]
        by (simp add: getValues_def)
    next
      case False
      then show ?thesis using Cons by (simp add: holders_def getValues_def)
    qed
  qed (simp add: holders_def)
  consider "holders k c = []" | "length (holders k c) = 1" using assms by (cases "holders k c") auto
  then have "snd (invalidateKey k c) = filter (\<lambda>it. k \<notin> set (itKeys it)) c \<and>
      fst (invalidateKey k c) = getValues k c"
  proof cases
    case 1
    then have "filter (\<lambda>it. k \<notin> set (itKeys it)) c = c" "getValues k c = []"
      by (auto simp: holders_def filter_id_conv filter_empty_conv getValues_def)
    then show ?thesis using 1 deleteFirst_no_holder [of k c] by (simp add: invalidateKey_def)
  next
    case 2
    then have "popLoop (Suc 1) 0 1 = Suc 0" by (simp add: numeral_2_eq_2)
    then show ?thesis using 2 d [OF 2] by (simp add: invalidateKey_def)
  qed
  then show "snd (invalidateKey k c) = filter (\<lambda>it. k \<notin> set (itKeys it)) c"
    and "fst (invalidateKey k c) = getValues k c" by auto
qed

subsection \<open>What a cache may hold\<close>

text \<open>
  The tables: no row has a zero value in an indexed column that does not allow one, and the
  columns of a unique index determine the row.
\<close>

definition tableOK :: "'v sindex list \<Rightarrow> 'v list \<Rightarrow> bool" where
  "tableOK ixs rows \<longleftrightarrow> distinct rows \<and>
     (\<forall>i \<in> set ixs. (\<forall>v \<in> set rows. snd (ixKey i (ixFields i v)) \<noteq> None) \<and>
        (\<not> ixMultiple i \<longrightarrow>
          (\<forall>v \<in> set rows. \<forall>w \<in> set rows. ixFields i v = ixFields i w \<longrightarrow> v = w)))"

text \<open>
  An item that a unique index leads to is a row, and every unique index leads to it; an error
  says that no row has its keys.
\<close>

definition itemOK :: "'v sindex list \<Rightarrow> 'v list \<Rightarrow> 'v item \<Rightarrow> bool" where
  "itemOK ixs rows it \<longleftrightarrow>
     (case itData it of
        Inr v \<Rightarrow> (\<forall>k \<in> set (itKeys it). \<exists>i \<in> set ixs. k = ixKey i (ixFields i v)) \<and>
          ((\<exists>k \<in> set (itKeys it). isUnique ixs k) \<longrightarrow>
             v \<in> set rows \<and>
             (\<forall>i \<in> set ixs. \<not> ixMultiple i \<longrightarrow> ixKey i (ixFields i v) \<in> set (itKeys it)))
      | Inl e \<Rightarrow> e = LNoEntries \<and>
          (\<forall>k \<in> set (itKeys it). isUnique ixs k \<and>
             (\<forall>i \<in> set ixs. \<forall>v \<in> set rows. k \<noteq> ixKey i (ixFields i v))))"

definition singleHolders :: "'v sindex list \<Rightarrow> 'v scache \<Rightarrow> bool" where
  "singleHolders ixs c \<longleftrightarrow> (\<forall>k. isUnique ixs k \<longrightarrow> length (holders k c) \<le> 1)"

definition cacheInv :: "'v sindex list \<Rightarrow> 'v list \<Rightarrow> 'v scache \<Rightarrow> bool" where
  "cacheInv ixs rows c \<longleftrightarrow> singleHolders ixs c \<and> (\<forall>it \<in> set c. itemOK ixs rows it)"

text \<open>What a query of the table answers.\<close>

definition rowsLookup :: "'v sindex \<Rightarrow> string list \<Rightarrow> 'v list \<Rightarrow> lookup_error + 'v" where
  "rowsLookup i parts rows =
     (case find (\<lambda>v. ixFields i v = parts) rows of None \<Rightarrow> Inl LNoEntries | Some v \<Rightarrow> Inr v)"

lemma rowsLookup_Inr: "rowsLookup i parts rows = Inr v \<Longrightarrow> v \<in> set rows \<and> ixFields i v = parts"
  by (auto simp: rowsLookup_def dest: find_Some_set split: option.splits)

lemma rowsLookup_Inl:
  "rowsLookup i parts rows = Inl e \<longleftrightarrow> e = LNoEntries \<and> (\<forall>v \<in> set rows. ixFields i v \<noteq> parts)"
  by (auto simp: rowsLookup_def find_None_set split: option.splits dest: find_Some_set)

lemma cacheInv_Nil [simp]: "cacheInv ixs rows []"
  by (simp add: cacheInv_def singleHolders_def holders_def)

subsection \<open>Stores on a cache whose unique keys have one holder\<close>

definition stripKeys :: "ixkey set \<Rightarrow> 'v scache \<Rightarrow> 'v scache" where
  "stripKeys K c = map (\<lambda>it. it\<lparr>itKeys := filter (\<lambda>k. k \<notin> K) (itKeys it)\<rparr>) c"

lemma holders_Nil [simp]: "holders k [] = []"
  by (simp add: holders_def)

lemma holders_Cons [simp]:
  "holders k (it # c) = (if k \<in> set (itKeys it) then it # holders k c else holders k c)"
  by (simp add: holders_def)

lemma holders_NilD: "holders k c = [] \<Longrightarrow> it \<in> set c \<Longrightarrow> k \<notin> set (itKeys it)"
  by (auto simp: holders_def filter_empty_conv)

lemma singleHoldersD: "singleHolders ixs c \<Longrightarrow> isUnique ixs k \<Longrightarrow> length (holders k c) \<le> 1"
  unfolding singleHolders_def by blast

lemma stripKeys_absent: "holders k c = [] \<Longrightarrow> stripKeys {k} c = c"
proof (induction c)
  case (Cons it c)
  then have "k \<notin> set (itKeys it)" and h: "holders k c = []" by (auto split: if_splits)
  then have "filter (\<lambda>x. x \<noteq> k) (itKeys it) = itKeys it" by (auto simp: filter_id_conv)
  with Cons.IH [OF h] show ?case by (simp add: stripKeys_def)
qed (simp add: stripKeys_def)

lemma dropHead_single: "length (holders k c) \<le> 1 \<Longrightarrow> dropHead k c = stripKeys {k} c"
proof (induction c)
  case (Cons it c)
  show ?case
  proof (cases "k \<in> set (itKeys it)")
    case True
    then have "holders k c = []" using Cons.prems by simp
    then have "stripKeys {k} c = c" by (rule stripKeys_absent)
    moreover have "removeAll k (itKeys it) = filter (\<lambda>x. x \<noteq> k) (itKeys it)"
      by (simp add: removeAll_filter_not_eq eq_commute)
    ultimately show ?thesis using True by (simp add: dropHead_def stripKeys_def)
  next
    case False
    then have "filter (\<lambda>x. x \<noteq> k) (itKeys it) = itKeys it" by (auto simp: filter_id_conv)
    then show ?thesis using False Cons by (simp add: dropHead_def stripKeys_def)
  qed
qed (simp add: dropHead_def stripKeys_def)

lemma holders_strip:
  "length (holders k (stripKeys K c)) = (if k \<in> K then 0 else length (holders k c))"
  by (auto simp: holders_def stripKeys_def filter_map o_def)

lemma stripKeys_strip [simp]: "stripKeys K (stripKeys L c) = stripKeys (L \<union> K) c"
  by (auto simp: stripKeys_def)

lemma stripKeys_empty [simp]: "stripKeys {} c = c"
  by (simp add: stripKeys_def)

lemma singleHolders_strip: "singleHolders ixs c \<Longrightarrow> singleHolders ixs (stripKeys K c)"
  by (simp add: singleHolders_def holders_strip)

lemma fold_appendKey:
  "singleHolders ixs c \<Longrightarrow> fold (appendKey ixs) ks c = stripKeys {k \<in> set ks. isUnique ixs k} c"
proof (induction ks arbitrary: c)
  case (Cons k ks)
  have "appendKey ixs k c = (if isUnique ixs k then stripKeys {k} c else c)"
    using dropHead_single [OF singleHoldersD [OF Cons.prems]] by (simp add: appendKey_def)
  moreover have "{j \<in> set (k # ks). isUnique ixs j} =
      (if isUnique ixs k then {k} else {}) \<union> {j \<in> set ks. isUnique ixs j}" by auto
  ultimately show ?case using Cons by (simp add: singleHolders_strip)
qed simp

lemma storeValue_strip:
  "singleHolders ixs c \<Longrightarrow> storeValue ixs load v c =
     \<lparr>itData = Inr v, itKeys = valueKeys ixs load v\<rparr> #
       stripKeys {k \<in> set (valueKeys ixs load v). isUnique ixs k} c"
  by (simp add: storeValue_def fold_appendKey)

lemma storeError_strip:
  "singleHolders ixs c \<Longrightarrow> isUnique ixs k \<Longrightarrow> storeError ixs k e c =
     \<lparr>itData = Inl e, itKeys = [k]\<rparr> # stripKeys {k} c"
  using dropHead_single [OF singleHoldersD] by (simp add: storeError_def appendKey_def)

lemma singleHoldersI: "(\<And>k. isUnique ixs k \<Longrightarrow> length (holders k c) \<le> 1) \<Longrightarrow> singleHolders ixs c"
  by (simp add: singleHolders_def)

lemma singleHolders_storeValue:
  assumes "singleHolders ixs c"
  shows "singleHolders ixs (storeValue ixs load v c)"
proof (rule singleHoldersI)
  fix k assume "isUnique ixs k"
  with singleHoldersD [OF assms this] show "length (holders k (storeValue ixs load v c)) \<le> 1"
    by (simp add: storeValue_strip [OF assms] holders_strip)
qed

lemma singleHolders_storeError:
  assumes "singleHolders ixs c" and "isUnique ixs j"
  shows "singleHolders ixs (storeError ixs j e c)"
proof (rule singleHoldersI)
  fix k assume "isUnique ixs k"
  with singleHoldersD [OF assms(1) this] show "length (holders k (storeError ixs j e c)) \<le> 1"
    by (simp add: storeError_strip [OF assms] holders_strip)
qed

lemma length_holders_filter: "length (holders k (filter P c)) \<le> length (holders k c)"
  by (induction c) auto

lemma singleHolders_filter: "singleHolders ixs c \<Longrightarrow> singleHolders ixs (filter P c)"
  by (rule singleHoldersI) (metis length_holders_filter order_trans singleHoldersD)

subsection \<open>Caches of tables\<close>

text \<open>What an operation of the cache gives back to a caller that knows the table.\<close>

definition answers :: "(lookup_error + 'v) \<Rightarrow> (lookup_error + 'v) \<Rightarrow> bool" where
  "answers r spec \<longleftrightarrow> r = spec \<or> (\<exists>e. r = Inl e \<and> ignoreErrors e)"

definition dropItem :: "nat \<Rightarrow> 'v scache \<Rightarrow> 'v scache" where
  "dropItem n c = take n c @ drop (Suc n) c"

lemma holders_append: "holders k (c @ d) = holders k c @ holders k d"
  by (simp add: holders_def)

lemma length_holders_dropItem: "length (holders k (dropItem n c)) \<le> length (holders k c)"
proof -
  have "length (holders k (drop (Suc n) c)) \<le> length (holders k (drop n c))"
    by (cases "drop n c") (simp_all add: drop_Suc tl_drop [symmetric])
  moreover have "holders k c = holders k (take n c) @ holders k (drop n c)"
    by (metis append_take_drop_id holders_append)
  ultimately show ?thesis by (simp add: dropItem_def holders_append)
qed

lemma getOneD: "getOne k c = Some it \<Longrightarrow> it \<in> set c \<and> k \<in> set (itKeys it)"
  unfolding getOne_def by (rule find_Some_set)

lemma set_dropItem: "it \<in> set (dropItem n c) \<Longrightarrow> it \<in> set c"
  unfolding dropItem_def by (auto dest: in_set_takeD in_set_dropD)

lemma ixKey_eqD:
  assumes "snd (ixKey i q) \<noteq> None" and "ixKey i p = ixKey i q"
  shows "p = q"
  using assms by (auto simp: ixKey_def split: if_splits)

lemma deleteFirst_items:
  "it \<in> set (snd (deleteFirst m k c)) \<Longrightarrow>
    \<exists>it0 \<in> set c. itData it = itData it0 \<and> set (itKeys it) = set (itKeys it0) - {k}"
proof (induction m k c rule: deleteFirst.induct)
  case (2 m k it0 c)
  show ?case
  proof (cases "k \<in> set (itKeys it0)")
    case True
    show ?thesis
    proof (cases m)
      case 0
      then have "it = it0\<lparr>itKeys := removeAll k (itKeys it0)\<rparr> \<or> it \<in> set (snd (deleteFirst 0 k c))"
        using 2(4) True by (simp split: prod.splits)
      then show ?thesis using 2(1) True 0 by fastforce
    next
      case (Suc n)
      then have "it \<in> set (snd (deleteFirst n k c))" using 2(4) True by (simp split: prod.splits)
      then show ?thesis using 2(2) True Suc by fastforce
    qed
  next
    case False
    then have "it = it0 \<or> it \<in> set (snd (deleteFirst m k c))" using 2(4) by (simp split: prod.splits)
    then show ?thesis using 2(3) False by fastforce
  qed
qed simp

lemma holders_deleteFirst: "length (holders j (snd (deleteFirst m k c))) \<le> length (holders j c)"
proof (induction m k c rule: deleteFirst.induct)
  case (2 m k it c)
  then show ?case
    by (cases m; cases "k \<in> set (itKeys it)") (auto split: prod.splits)
qed simp

text \<open>After an invalidation the key leads nowhere, and so it stays while items only go.\<close>

lemma holders_invalidateKey: "holders k (snd (invalidateKey k c)) = []"
proof -
  have "k \<notin> set (itKeys it)" if "it \<in> set (snd (deleteFirst m k c))" for it m
    using deleteFirst_items [OF that] by auto
  then show ?thesis by (auto simp: holders_def filter_empty_conv invalidateKey_def Let_def)
qed

text \<open>Items may go and keys may be lost.\<close>

definition shrunk :: "'v scache \<Rightarrow> 'v scache \<Rightarrow> bool" where
  "shrunk c c' \<longleftrightarrow> (\<forall>it' \<in> set c'. \<exists>it \<in> set c. itData it' = itData it \<and> set (itKeys it') \<subseteq> set (itKeys it))"

lemma shrunk_refl [simp]: "shrunk c c"
  by (auto simp: shrunk_def)

lemma shrunk_trans:
  assumes "shrunk c d" and "shrunk d e"
  shows "shrunk c e"
  unfolding shrunk_def
proof
  fix it assume "it \<in> set e"
  then obtain it2 where 2: "it2 \<in> set d" "itData it = itData it2" "set (itKeys it) \<subseteq> set (itKeys it2)"
    using assms(2) by (auto simp: shrunk_def)
  then obtain it1 where "it1 \<in> set c" "itData it2 = itData it1" "set (itKeys it2) \<subseteq> set (itKeys it1)"
    using assms(1) by (auto simp: shrunk_def)
  with 2 show "\<exists>it1 \<in> set c. itData it = itData it1 \<and> set (itKeys it) \<subseteq> set (itKeys it1)" by auto
qed

lemma shrunk_invalidateKey: "shrunk c (snd (invalidateKey k c))"
  unfolding shrunk_def
proof
  fix it' assume "it' \<in> set (snd (invalidateKey k c))"
  then obtain m where "it' \<in> set (snd (deleteFirst m k c))" by (auto simp: invalidateKey_def Let_def)
  from deleteFirst_items [OF this]
  show "\<exists>it \<in> set c. itData it' = itData it \<and> set (itKeys it') \<subseteq> set (itKeys it)" by blast
qed

lemma shrunk_holders: "shrunk c d \<Longrightarrow> holders k c = [] \<Longrightarrow> holders k d = []"
  by (auto simp: shrunk_def holders_def filter_empty_conv)

locale indexed =
  fixes ixs :: "'v sindex list"
  assumes distinct_names: "distinct (map ixName ixs)"
    and has_unique: "list_ex (\<lambda>i. \<not> ixMultiple i) ixs"
begin

lemma find_name: "i \<in> set ixs \<Longrightarrow> find (\<lambda>j. ixName j = ixName i) ixs = Some i"
  by (rule find_distinct_map [OF distinct_names])

lemma name_inj: "i \<in> set ixs \<Longrightarrow> j \<in> set ixs \<Longrightarrow> ixName i = ixName j \<Longrightarrow> i = j"
  using distinct_names by (simp add: distinct_map inj_on_def)

lemma isUnique_ixKey: "i \<in> set ixs \<Longrightarrow> isUnique ixs (ixKey i p) \<longleftrightarrow> \<not> ixMultiple i"
  by (simp add: isUnique_def ixKey_def find_name)

lemma ixKey_index: "i \<in> set ixs \<Longrightarrow> j \<in> set ixs \<Longrightarrow> ixKey i p = ixKey j q \<Longrightarrow> i = j"
  by (rule name_inj) (simp_all add: ixKey_def)

lemma tableOK_key: "tableOK ixs rows \<Longrightarrow> i \<in> set ixs \<Longrightarrow> v \<in> set rows \<Longrightarrow>
    snd (ixKey i (ixFields i v)) \<noteq> None"
  by (simp add: tableOK_def)

lemma tableOK_unique: "tableOK ixs rows \<Longrightarrow> i \<in> set ixs \<Longrightarrow> \<not> ixMultiple i \<Longrightarrow>
    v \<in> set rows \<Longrightarrow> w \<in> set rows \<Longrightarrow> ixFields i v = ixFields i w \<Longrightarrow> v = w"
  by (simp add: tableOK_def)

lemma set_valueKeys:
  assumes "tableOK ixs rows" and "v \<in> set rows"
    and "load = None \<or> (\<exists>j \<in> set ixs. load = Some (ixKey j (ixFields j v)))"
  shows "set (valueKeys ixs load v) = {ixKey i (ixFields i v) | i. i \<in> set ixs}"
proof -
  let ?f = "\<lambda>i. ixKey i (ixFields i v)"
  have k: "filter (\<lambda>k. snd k \<noteq> None) (map ?f is) = map ?f is" if "set is \<subseteq> set ixs" for "is"
    by (rule filter_True) (use that tableOK_key [OF assms(1) _ assms(2)] in auto)
  show ?thesis
  proof (cases load)
    case None
    then show ?thesis using k [of ixs] by (simp add: valueKeys_def) blast
  next
    case (Some l)
    then obtain j where j: "j \<in> set ixs" "l = ?f j" using assms(3) by auto
    have n: "ixName i \<noteq> fst l \<longleftrightarrow> i \<noteq> j" if "i \<in> set ixs" for i
      using name_inj [OF that j(1)] j(2) by (auto simp: ixKey_def)
    have "set (valueKeys ixs load v) = insert (?f j) (?f ` {i \<in> set ixs. ixName i \<noteq> fst l})"
      using k [of "filter (\<lambda>i. ixName i \<noteq> fst l) ixs"] Some j(2) by (simp add: valueKeys_def)
    also have "{i \<in> set ixs. ixName i \<noteq> fst l} = set ixs - {j}" using n by auto
    finally show ?thesis using j(1) by auto
  qed
qed

text \<open>
  A value is stored: \<open>rows'\<close> is the table then, which may have gained the value or lost an
  older version of it.
\<close>

lemma cacheInv_storeValue:
  assumes "cacheInv ixs rows c" and "tableOK ixs rows'" and "v \<in> set rows'"
    and "set rows' \<subseteq> insert v (set rows)"
    and "\<And>w i. w \<in> set rows \<Longrightarrow> w \<notin> set rows' \<Longrightarrow> i \<in> set ixs \<Longrightarrow> \<not> ixMultiple i \<Longrightarrow>
      ixFields i w = ixFields i v"
    and "load = None \<or> (\<exists>j \<in> set ixs. load = Some (ixKey j (ixFields j v)))"
  shows "cacheInv ixs rows' (storeValue ixs load v c)"
proof -
  let ?K = "{k \<in> set (valueKeys ixs load v). isUnique ixs k}"
  note vk = set_valueKeys [OF assms(2,3,6)]
  have sh: "singleHolders ixs c" using assms(1) by (simp add: cacheInv_def)
  have new: "itemOK ixs rows' \<lparr>itData = Inr v, itKeys = valueKeys ixs load v\<rparr>"
    using vk assms(3) by (auto simp: itemOK_def)
  have old: "itemOK ixs rows' (it\<lparr>itKeys := filter (\<lambda>k. k \<notin> ?K) (itKeys it)\<rparr>)" if "it \<in> set c" for it
  proof -
    have ok: "itemOK ixs rows it" using assms(1) that by (simp add: cacheInv_def)
    show ?thesis
    proof (cases "itData it")
      case (Inl e)
      have "k \<noteq> ixKey i (ixFields i w)" if k: "k \<in> set (itKeys it)" "k \<notin> ?K"
        and i: "i \<in> set ixs" and w: "w \<in> set rows'" for k i w
      proof (cases "w = v")
        case True
        have "isUnique ixs k" using ok Inl k(1) by (simp add: itemOK_def)
        then show ?thesis using k(2) vk True i by auto
      next
        case False
        then have "w \<in> set rows" using assms(4) w by auto
        then show ?thesis using ok Inl k(1) i by (simp add: itemOK_def)
      qed
      then show ?thesis using ok Inl by (auto simp: itemOK_def)
    next
      case (Inr w)
      have kw: "\<exists>i \<in> set ixs. k = ixKey i (ixFields i w)" if "k \<in> set (itKeys it)" for k
        using ok Inr that by (simp add: itemOK_def)
      have "w \<in> set rows' \<and> (\<forall>i \<in> set ixs. \<not> ixMultiple i \<longrightarrow>
            ixKey i (ixFields i w) \<in> set (filter (\<lambda>k. k \<notin> ?K) (itKeys it)))"
        if k: "k \<in> set (itKeys it)" "k \<notin> ?K" "isUnique ixs k" for k
      proof -
        have w: "w \<in> set rows"
          and full: "\<And>i. i \<in> set ixs \<Longrightarrow> \<not> ixMultiple i \<Longrightarrow> ixKey i (ixFields i w) \<in> set (itKeys it)"
          using ok Inr k by (auto simp: itemOK_def)
        obtain i where i: "i \<in> set ixs" "k = ixKey i (ixFields i w)" using kw [OF k(1)] by auto
        then have u: "\<not> ixMultiple i" using k(3) isUnique_ixKey by simp
        have ne: "ixFields i w \<noteq> ixFields i v" using k(2,3) i vk by auto
        then have w': "w \<in> set rows'" using assms(5) [OF w _ i(1) u] by auto
        have "ixKey j (ixFields j w) \<notin> ?K" if j: "j \<in> set ixs" "\<not> ixMultiple j" for j
        proof
          assume "ixKey j (ixFields j w) \<in> ?K"
          then obtain l where l: "l \<in> set ixs" "ixKey j (ixFields j w) = ixKey l (ixFields l v)"
            using vk by auto
          then have "l = j" using ixKey_index j(1) by metis
          then have "ixFields j w = ixFields j v"
            using l(2) ixKey_eqD [of j "ixFields j v" "ixFields j w"] tableOK_key [OF assms(2) j(1) assms(3)]
            by simp
          then have "w = v" by (rule tableOK_unique [OF assms(2) j w' assms(3)])
          then show False using ne by simp
        qed
        then show ?thesis using w' full by simp
      qed
      then show ?thesis using kw Inr by (auto simp: itemOK_def)
    qed
  qed
  have "\<forall>it \<in> set (storeValue ixs load v c). itemOK ixs rows' it"
    unfolding storeValue_strip [OF sh] using new old by (auto simp: stripKeys_def)
  then show ?thesis using singleHolders_storeValue [OF sh] by (simp add: cacheInv_def)
qed

lemma cacheInv_storeError:
  assumes "cacheInv ixs rows c" and "tableOK ixs rows" and "i \<in> set ixs" and "\<not> ixMultiple i"
    and "\<forall>v \<in> set rows. ixFields i v \<noteq> parts"
  shows "cacheInv ixs rows (storeError ixs (ixKey i parts) LNoEntries c)"
proof -
  let ?k = "ixKey i parts"
  have sh: "singleHolders ixs c" using assms(1) by (simp add: cacheInv_def)
  have u: "isUnique ixs ?k" using isUnique_ixKey assms(3,4) by simp
  have "?k \<noteq> ixKey j (ixFields j v)" if "j \<in> set ixs" "v \<in> set rows" for j v
  proof
    assume e: "?k = ixKey j (ixFields j v)"
    then have "j = i" using ixKey_index [OF assms(3) that(1) e] by simp
    then show False
      using e ixKey_eqD [of i "ixFields i v" parts] tableOK_key [OF assms(2) that] assms(5) that(2) by auto
  qed
  then have new: "itemOK ixs rows \<lparr>itData = Inl LNoEntries, itKeys = [?k]\<rparr>"
    using u by (simp add: itemOK_def)
  have old: "itemOK ixs rows (it\<lparr>itKeys := filter (\<lambda>k. k \<notin> {?k}) (itKeys it)\<rparr>)" if "it \<in> set c" for it
  proof -
    have ok: "itemOK ixs rows it" using assms(1) that by (simp add: cacheInv_def)
    show ?thesis
    proof (cases "itData it")
      case (Inl e)
      then show ?thesis using ok by (auto simp: itemOK_def)
    next
      case (Inr w)
      have "ixKey j (ixFields j w) \<noteq> ?k" if "w \<in> set rows" "j \<in> set ixs" for j
        using \<open>\<And>j v. j \<in> set ixs \<Longrightarrow> v \<in> set rows \<Longrightarrow> ?k \<noteq> ixKey j (ixFields j v)\<close> that by metis
      then show ?thesis using ok Inr by (auto simp: itemOK_def)
    qed
  qed
  have "\<forall>it \<in> set (storeError ixs ?k LNoEntries c). itemOK ixs rows it"
    unfolding storeError_strip [OF sh u] using new old by (auto simp: stripKeys_def)
  then show ?thesis using singleHolders_storeError [OF sh u] by (simp add: cacheInv_def)
qed

lemma getOne_value:
  assumes "cacheInv ixs rows c" and "tableOK ixs rows" and "i \<in> set ixs" and "\<not> ixMultiple i"
    and "getOne (ixKey i parts) c = Some it"
  shows "itData it = rowsLookup i parts rows"
proof -
  from getOneD [OF assms(5)]
  have it: "it \<in> set c" "ixKey i parts \<in> set (itKeys it)" by auto
  have ok: "itemOK ixs rows it" using assms(1) it(1) by (simp add: cacheInv_def)
  have u: "isUnique ixs (ixKey i parts)" using isUnique_ixKey assms(3,4) by simp
  show ?thesis
  proof (cases "itData it")
    case (Inl e)
    have "ixFields i v \<noteq> parts" if "v \<in> set rows" for v
      using ok Inl it(2) assms(3) that by (auto simp: itemOK_def)
    then have "rowsLookup i parts rows = Inl LNoEntries" using rowsLookup_Inl by blast
    then show ?thesis using ok Inl by (simp add: itemOK_def)
  next
    case (Inr v)
    have v: "v \<in> set rows" using ok Inr it(2) u by (auto simp: itemOK_def)
    obtain j where j: "j \<in> set ixs" "ixKey i parts = ixKey j (ixFields j v)"
      using ok Inr it(2) by (auto simp: itemOK_def)
    then have "j = i" using ixKey_index [OF assms(3)] by metis
    then have p: "parts = ixFields i v"
      using j ixKey_eqD [of i "ixFields i v" parts] tableOK_key [OF assms(2,3) v] by simp
    have "rowsLookup i parts rows = Inr v"
    proof (cases "rowsLookup i parts rows")
      case (Inl e)
      then show ?thesis using rowsLookup_Inl v p by metis
    next
      case r: (Inr w)
      from rowsLookup_Inr [OF this] have "w \<in> set rows" "ixFields i w = parts" by simp_all
      then have "w = v" using tableOK_unique [OF assms(2-4)] v p by auto
      then show ?thesis using r by simp
    qed
    then show ?thesis using Inr by simp
  qed
qed

lemma loadOneBy_ok:
  assumes "cacheInv ixs rows c" and "tableOK ixs rows" and "i \<in> set ixs" and "\<not> ixMultiple i"
    and "answers (fst (load s)) (rowsLookup i parts rows)"
    and "loadOneBy ixs (ixName i) parts load s c = (r, s', c')"
  shows "answers r (rowsLookup i parts rows)" and "cacheInv ixs rows c'"
    and "s' = s \<or> s' = snd (load s)"
    and "fst (load s) = rowsLookup i parts rows \<Longrightarrow> r = rowsLookup i parts rows"
    and "r = Inr v \<Longrightarrow> \<exists>it. getOne (ixKey i parts) c' = Some it \<and> itData it = Inr v"
proof -
  let ?k = "ixKey i parts"
  obtain r0 s0 where l: "load s = (r0, s0)" by fastforce
  have u: "isUnique ixs ?k" using isUnique_ixKey assms(3,4) by simp
  have goal: "answers r (rowsLookup i parts rows) \<and> cacheInv ixs rows c' \<and> (s' = s \<or> s' = snd (load s)) \<and>
      (fst (load s) = rowsLookup i parts rows \<longrightarrow> r = rowsLookup i parts rows) \<and>
      (r = Inr v \<longrightarrow> (\<exists>it. getOne ?k c' = Some it \<and> itData it = Inr v))"
  proof (cases "getOne ?k c")
    case (Some it)
    then have "r = itData it" "s' = s" "c' = c"
      using assms(4,6) find_name [OF assms(3)] by (auto simp: loadOneBy_def)
    then show ?thesis using getOne_value [OF assms(1-4) Some] assms(1) Some by (auto simp: answers_def)
  next
    case None
    have m: "(r, s', c') = (case r0 of
        Inl e \<Rightarrow> if ignoreErrors e then (r0, s0, c) else (r0, s0, storeError ixs ?k e c)
      | Inr w \<Rightarrow> (r0, s0, storeValue ixs (Some ?k) w c))"
      using assms(4,6) find_name [OF assms(3)] None l by (simp add: loadOneBy_def)
    show ?thesis
    proof (cases r0)
      case (Inl e)
      show ?thesis
      proof (cases "ignoreErrors e")
        case True
        then show ?thesis using m Inl l assms(1,5) by (auto simp: answers_def)
      next
        case False
        then have "Inl e = rowsLookup i parts rows" using assms(5) l Inl by (auto simp: answers_def)
        then have "e = LNoEntries" and "\<forall>v \<in> set rows. ixFields i v \<noteq> parts"
          using rowsLookup_Inl by metis+
        then show ?thesis
          using m Inl False l \<open>Inl e = _\<close> cacheInv_storeError [OF assms(1-4)] by (auto simp: answers_def)
      qed
    next
      case (Inr w)
      then have w: "rowsLookup i parts rows = Inr w" using assms(5) l by (auto simp: answers_def)
      from rowsLookup_Inr [OF w] have "w \<in> set rows" "ixFields i w = parts" by auto
      then have "cacheInv ixs rows (storeValue ixs (Some ?k) w c)"
        using cacheInv_storeValue [OF assms(1,2), of w "Some ?k"] assms(3) by auto
      moreover have "getOne ?k (storeValue ixs (Some ?k) w c) =
          Some \<lparr>itData = Inr w, itKeys = valueKeys ixs (Some ?k) w\<rparr>"
        by (simp add: storeValue_def getOne_def valueKeys_def)
      ultimately show ?thesis using m Inr w l by (auto simp: answers_def)
    qed
  qed
  show "answers r (rowsLookup i parts rows)" and "cacheInv ixs rows c'" and "s' = s \<or> s' = snd (load s)"
    and "fst (load s) = rowsLookup i parts rows \<Longrightarrow> r = rowsLookup i parts rows"
    and "r = Inr v \<Longrightarrow> \<exists>it. getOne ?k c' = Some it \<and> itData it = Inr v"
    using goal by auto
qed

text \<open>Fewer items, by eviction or invalidation.\<close>

lemma cacheInv_dropItem:
  assumes "cacheInv ixs rows c"
  shows "cacheInv ixs rows (dropItem n c)"
proof -
  have "singleHolders ixs (dropItem n c)"
    using assms by (intro singleHoldersI) (metis cacheInv_def length_holders_dropItem order_trans singleHoldersD)
  then show ?thesis using assms by (simp add: cacheInv_def) (metis set_dropItem)
qed

lemma cacheInv_filter: "cacheInv ixs rows c \<Longrightarrow> cacheInv ixs rows (filter P c)"
  by (simp add: cacheInv_def singleHolders_filter)

lemma invalidateKey_unique:
  assumes "cacheInv ixs rows c" and "isUnique ixs k"
  shows "snd (invalidateKey k c) = filter (\<lambda>it. k \<notin> set (itKeys it)) c"
    and "fst (invalidateKey k c) = getValues k c"
  using invalidateKey_single [of k c] singleHoldersD [of ixs c k] assms by (simp_all add: cacheInv_def)

lemma cacheInv_invalidate:
  "cacheInv ixs rows c \<Longrightarrow> isUnique ixs k \<Longrightarrow> cacheInv ixs rows (snd (invalidateKey k c))"
  by (simp add: invalidateKey_unique cacheInv_filter)

text \<open>A row is deleted whose key under a unique index leads nowhere.\<close>

lemma cacheInv_without:
  assumes "cacheInv ixs rows c" and "i \<in> set ixs" and "\<not> ixMultiple i"
    and "set rows' = {w \<in> set rows. w \<noteq> v}" and "holders (ixKey i (ixFields i v)) c = []"
  shows "cacheInv ixs rows' c"
proof -
  have "itemOK ixs rows' it" if "it \<in> set c" for it
  proof -
    have ok: "itemOK ixs rows it" using assms(1) that by (simp add: cacheInv_def)
    have no: "ixKey i (ixFields i v) \<notin> set (itKeys it)" by (rule holders_NilD [OF assms(5) that])
    show ?thesis
    proof (cases "itData it")
      case (Inl e)
      then show ?thesis using ok assms(4) by (auto simp: itemOK_def)
    next
      case (Inr w)
      have "w \<noteq> v" if "k \<in> set (itKeys it)" "isUnique ixs k" for k
        using ok Inr that no assms(2,3) by (auto simp: itemOK_def)
      then show ?thesis using ok Inr assms(4) by (auto simp: itemOK_def)
    qed
  qed
  then show ?thesis using assms(1) by (simp add: cacheInv_def)
qed

lemma cacheInv_delete:
  assumes "cacheInv ixs rows c" and "i \<in> set ixs" and "\<not> ixMultiple i"
    and "set rows' = {w \<in> set rows. w \<noteq> v}"
  shows "cacheInv ixs rows' (snd (invalidateKey (ixKey i (ixFields i v)) c))"
proof -
  have u: "isUnique ixs (ixKey i (ixFields i v))" using isUnique_ixKey assms(2,3) by simp
  show ?thesis
    by (rule cacheInv_without [OF cacheInv_invalidate [OF assms(1) u] assms(2-4)])
      (simp add: invalidateKey_unique [OF assms(1) u] holders_def)
qed

text \<open>What the invalidation hook is called with after the row was loaded.\<close>

lemma getValues_getOne:
  assumes "cacheInv ixs rows c" and "isUnique ixs k" and "getOne k c = Some it" and "itData it = Inr v"
  shows "getValues k c = [v]"
proof -
  have "it \<in> set (holders k c)" using getOneD [OF assms(3)] by (simp add: holders_def)
  moreover have "length (holders k c) \<le> 1" using assms(1,2) singleHoldersD unfolding cacheInv_def by blast
  ultimately have "holders k c = [it]" by (cases "holders k c") auto
  then show ?thesis using assms(4) by (simp add: getValues_def holders_def)
qed

lemma getValues_single:
  assumes "cacheInv ixs rows c" and "isUnique ixs k" and "it \<in> set c" and "k \<in> set (itKeys it)"
    and "itData it = Inr v"
  shows "getValues k c = [v]"
proof -
  have "it \<in> set (holders k c)" using assms(3,4) by (simp add: holders_def)
  moreover have "length (holders k c) \<le> 1" using assms(1,2) singleHoldersD unfolding cacheInv_def by blast
  ultimately have "holders k c = [it]" by (cases "holders k c") auto
  then show ?thesis using assms(5) by (simp add: getValues_def holders_def)
qed

text \<open>Where one unique index leads to a value, every unique index does.\<close>

lemma getValues_other:
  assumes "cacheInv ixs rows c" and "isUnique ixs k" and "getValues k c = [v]"
    and "i \<in> set ixs" and "\<not> ixMultiple i"
  shows "getValues (ixKey i (ixFields i v)) c = [v]"
proof -
  have "v \<in> set (getValues k c)" using assms(3) by simp
  then obtain it where it: "it \<in> set c" "k \<in> set (itKeys it)" "itData it = Inr v"
    by (auto simp: getValues_def split: sum.splits)
  then have "ixKey i (ixFields i v) \<in> set (itKeys it)"
    using assms(1,2,4,5) by (auto simp: cacheInv_def itemOK_def split: sum.splits)
  then show ?thesis
    using getValues_single [OF assms(1) _ it(1) _ it(3)] isUnique_ixKey assms(4,5) by simp
qed

lemma getValues_mem:
  assumes "cacheInv ixs rows c" and "tableOK ixs rows" and "i \<in> set ixs" and "\<not> ixMultiple i"
    and "v \<in> set (getValues (ixKey i parts) c)"
  shows "v \<in> set rows \<and> ixFields i v = parts"
proof -
  obtain it where it: "it \<in> set c" "ixKey i parts \<in> set (itKeys it)" "itData it = Inr v"
    using assms(5) by (auto simp: getValues_def split: sum.splits)
  have u: "isUnique ixs (ixKey i parts)" using isUnique_ixKey assms(3,4) by simp
  have ok: "itemOK ixs rows it" using assms(1) it(1) by (simp add: cacheInv_def)
  then have v: "v \<in> set rows" using it u by (auto simp: itemOK_def)
  obtain j where j: "j \<in> set ixs" "ixKey i parts = ixKey j (ixFields j v)"
    using ok it by (auto simp: itemOK_def)
  then have "j = i" using ixKey_index [OF assms(3)] by metis
  then show ?thesis
    using j v ixKey_eqD [of i "ixFields i v" parts] tableOK_key [OF assms(2,3) v] by simp
qed

lemma cacheInv_storeAll:
  assumes "cacheInv ixs rows c" and "tableOK ixs rows" and "set vs \<subseteq> set rows"
  shows "cacheInv ixs rows (fold (storeValue ixs None) vs c)"
  using assms
proof (induction vs arbitrary: c)
  case (Cons v vs)
  then have "cacheInv ixs rows (storeValue ixs None v c)"
    using cacheInv_storeValue [OF Cons.prems(1,2), of v None] by auto
  then show ?case using Cons by simp
qed simp

text \<open>The rows of a list of IDs, whatever part of them was cached.\<close>

lemma loadIDs_ok:
  assumes "cacheInv ixs rows c" and "tableOK ixs rows" and "i \<in> set ixs" and "\<not> ixMultiple i"
    and "\<And>xs. load xs s = (Inr (filter (\<lambda>v. \<exists>x \<in> set xs. ixFields i v = [x]) rows), s0) \<or>
      (\<exists>e. load xs s = (Inl e, s0))"
    and "loadIDs i ixs ids load s c = (r, s', c')"
  shows "cacheInv ixs rows c'" and "s' = s0"
    and "r = Inr vs \<Longrightarrow> set vs = {v \<in> set rows. \<exists>x \<in> set ids. ixFields i v = [x]}"
proof -
  let ?g = "\<lambda>x. getValues (ixKey i [x]) c"
  let ?miss = "filter (\<lambda>x. ?g x = []) ids"
  let ?new = "filter (\<lambda>v. \<exists>x \<in> set ?miss. ixFields i v = [x]) rows"
  have g: "v \<in> set rows \<and> ixFields i v = [x]" if "v \<in> set (?g x)" for v x
    by (rule getValues_mem [OF assms(1-4) that])
  from assms(5) [of ?miss]
  have "cacheInv ixs rows c' \<and> s' = s0 \<and>
      (r = Inr vs \<longrightarrow> set vs = {v \<in> set rows. \<exists>x \<in> set ids. ixFields i v = [x]})"
  proof
    assume l: "load ?miss s = (Inr ?new, s0)"
    then have r: "r = Inr (concat (map ?g ids) @ ?new)" "s' = s0"
        and c': "c' = fold (storeValue ixs None) ?new c"
      using assms(6) by (auto simp: loadIDs_def)
    have "v \<in> set (?g x)" if v: "v \<in> set rows" "ixFields i v = [x]" and h: "?g x \<noteq> []" for v x
    proof -
      obtain w where w: "w \<in> set (?g x)" using h by (cases "?g x") auto
      from g [OF w] tableOK_unique [OF assms(2-4) v(1), of w] v(2) w show ?thesis by auto
    qed
    note hit = this
    have "set (concat (map ?g ids) @ ?new) = {v \<in> set rows. \<exists>x \<in> set ids. ixFields i v = [x]}"
      (is "?L = ?R")
    proof
      show "?L \<subseteq> ?R"
      proof
        fix v assume "v \<in> ?L"
        then consider x where "x \<in> set ids" "v \<in> set (?g x)" | "v \<in> set ?new" by auto
        then show "v \<in> ?R"
        proof cases
          case 1
          with g [OF 1(2)] show ?thesis by blast
        next
          case 2
          then show ?thesis by auto
        qed
      qed
      show "?R \<subseteq> ?L"
      proof
        fix v assume "v \<in> ?R"
        then obtain x where x: "v \<in> set rows" "x \<in> set ids" "ixFields i v = [x]" by auto
        show "v \<in> ?L"
        proof (cases "?g x = []")
          case True
          with x show ?thesis by auto
        next
          case False
          from hit [OF x(1,3) False] x(2) show ?thesis by auto
        qed
      qed
    qed
    moreover have "cacheInv ixs rows c'" unfolding c' by (rule cacheInv_storeAll [OF assms(1,2)]) auto
    ultimately show ?thesis using r by auto
  next
    assume "\<exists>e. load ?miss s = (Inl e, s0)"
    then show ?thesis using assms(1,6) by (auto simp: loadIDs_def)
  qed
  then show "cacheInv ixs rows c'" and "s' = s0"
    and "r = Inr vs \<Longrightarrow> set vs = {v \<in> set rows. \<exists>x \<in> set ids. ixFields i v = [x]}" by auto
qed

lemma getValues_length:
  assumes "cacheInv ixs rows c" and "isUnique ixs k"
  shows "length (getValues k c) \<le> 1"
proof -
  have "length (getValues k c) \<le> length (holders k c)"
    unfolding getValues_def holders_def by (induction c) (auto split: sum.splits)
  also have "\<dots> \<le> 1" using assms singleHoldersD unfolding cacheInv_def by blast
  finally show ?thesis .
qed

lemma distinct_concat_fields:
  assumes "\<And>x v. v \<in> set (g x) \<Longrightarrow> f v = [x]" and "\<And>x. length (g x) \<le> 1" and "distinct ids"
  shows "distinct (concat (map g ids))"
  using assms(3)
proof (induction ids)
  case (Cons x xs)
  have "distinct (g x)" using assms(2) [of x] by (cases "g x") auto
  moreover have "set (g x) \<inter> set (concat (map g xs)) = {}"
  proof (rule equals0I)
    fix v assume "v \<in> set (g x) \<inter> set (concat (map g xs))"
    then obtain y where y: "v \<in> set (g x)" "y \<in> set xs" "v \<in> set (g y)" by auto
    with assms(1) [OF y(1)] assms(1) [OF y(3)] Cons.prems show False by simp
  qed
  ultimately show ?case using Cons by simp
qed simp

lemma loadIDs_distinct:
  assumes "cacheInv ixs rows c" and "tableOK ixs rows" and "i \<in> set ixs" and "\<not> ixMultiple i"
    and "\<And>xs. load xs s = (Inr (filter (\<lambda>v. \<exists>x \<in> set xs. ixFields i v = [x]) rows), s0) \<or>
      (\<exists>e. load xs s = (Inl e, s0))"
    and "loadIDs i ixs ids load s c = (Inr vs, s', c')" and "distinct ids" and "distinct rows"
  shows "distinct vs"
proof -
  let ?g = "\<lambda>x. getValues (ixKey i [x]) c"
  let ?miss = "filter (\<lambda>x. ?g x = []) ids"
  let ?new = "filter (\<lambda>v. \<exists>x \<in> set ?miss. ixFields i v = [x]) rows"
  have g: "ixFields i v = [x]" if "v \<in> set (?g x)" for v x
    using getValues_mem [OF assms(1-4) that] by simp
  have "load ?miss s = (Inr ?new, s0)" using assms(5) [of ?miss] assms(6) by (auto simp: loadIDs_def)
  then have vs: "vs = concat (map ?g ids) @ ?new" using assms(6) by (auto simp: loadIDs_def)
  have "distinct (concat (map ?g ids))"
    by (rule distinct_concat_fields [where f = "ixFields i", OF g _ assms(7)])
      (use getValues_length [OF assms(1)] isUnique_ixKey assms(3,4) in auto)
  moreover have "set (concat (map ?g ids)) \<inter> set ?new = {}"
  proof -
    have False if x: "v \<in> set (?g x)" and y: "?g y = []" "ixFields i v = [y]" for v x y
      using g [OF x] y x by simp
    then show ?thesis by fastforce
  qed
  ultimately show ?thesis using vs assms(8) by simp
qed

text \<open>The invalidation of a key that is not unique keeps what it leaves behind coherent.\<close>

lemma cacheInv_invalidateAny:
  assumes "cacheInv ixs rows c" and "\<not> isUnique ixs k"
  shows "cacheInv ixs rows (snd (invalidateKey k c))"
proof -
  obtain m where m: "invalidateKey k c = deleteFirst m k c" by (simp add: invalidateKey_def Let_def)
  have "itemOK ixs rows it" if del: "it \<in> set (snd (deleteFirst m k c))" for it
  proof -
    obtain it0 where it0: "it0 \<in> set c" "itData it = itData it0" "set (itKeys it) = set (itKeys it0) - {k}"
      using deleteFirst_items [OF del] by blast
    then have "itemOK ixs rows it0" using assms(1) by (simp add: cacheInv_def)
    then show ?thesis
      using it0 assms(2) isUnique_ixKey by (auto simp: itemOK_def split: sum.splits)
  qed
  moreover have "singleHolders ixs (snd (deleteFirst m k c))"
    by (rule singleHoldersI, rule order_trans [OF holders_deleteFirst], rule singleHoldersD [where ixs = ixs])
      (use assms(1) in \<open>simp_all add: cacheInv_def\<close>)
  ultimately show ?thesis by (simp add: cacheInv_def m)
qed

lemma cacheInv_invalidateKey:
  "cacheInv ixs rows c \<Longrightarrow> cacheInv ixs rows (snd (invalidateKey k c))"
  using cacheInv_invalidate cacheInv_invalidateAny by blast

end

text \<open>
  How far an invalidation reaches: of the \<open>n\<close> items under a key, \<open>n - n div 2\<close> are dropped from
  the cache, all of them when \<open>n\<close> is at most one; no item is found under the key afterwards, and
  everything that is left was there before.
\<close>

theorem invalidateKey_reach:
  "length c = length (snd (invalidateKey k c)) + (length (holders k c) - length (holders k c) div 2) \<and>
   holders k (snd (invalidateKey k c)) = [] \<and> itData ` set (snd (invalidateKey k c)) \<subseteq> itData ` set c"
proof (intro conjI)
  have "length (holders k c) \<le> length c" by (simp add: holders_def)
  then show "length c = length (snd (invalidateKey k c)) + (length (holders k c) - length (holders k c) div 2)"
    using length_invalidateKey [of k c] by linarith
  show "holders k (snd (invalidateKey k c)) = []" by (rule holders_invalidateKey)
  show "itData ` set (snd (invalidateKey k c)) \<subseteq> itData ` set c"
    using deleteFirst_items by (fastforce simp: invalidateKey_def Let_def)
qed

end
