(* ===== verification/Tables.thy ===== *)
theory Tables
  imports Structr
begin

text \<open>
  A database table behind a result cache, as the \<open>bundb\<close> packages use them
  (\<open>src/internal/db/bundb/relationship_follow.go\<close> and its siblings): every query may fail
  instead of running, as the next element of a stream of faults says; an empty stream is a
  database without faults. A fault is an error that the caches do not keep.
\<close>

type_synonym faults = "string option list"

definition nextFault :: "faults \<Rightarrow> lookup_error option \<times> faults" where
  "nextFault fs = (case fs of [] \<Rightarrow> (None, []) | f # fs' \<Rightarrow> (map_option LOther f, fs'))"

record 'v table =
  tbRows :: "'v list"
  tbCache :: "'v scache"

definition tblOK :: "'v sindex list \<Rightarrow> 'v table \<Rightarrow> bool" where
  "tblOK ixs t \<longleftrightarrow> tableOK ixs (tbRows t) \<and> cacheInv ixs (tbRows t) (tbCache t)"

text \<open>\<open>SELECT ... WHERE\<close> into one model.\<close>

definition selectRow :: "('v \<Rightarrow> bool) \<Rightarrow> 'v list \<Rightarrow> faults \<Rightarrow> (lookup_error + 'v) \<times> faults" where
  "selectRow P rows fs =
     (case nextFault fs of
        (Some e, fs') \<Rightarrow> (Inl e, fs')
      | (None, fs') \<Rightarrow> ((case find P rows of None \<Rightarrow> Inl LNoEntries | Some v \<Rightarrow> Inr v), fs'))"

text \<open>\<open>SELECT\<close> into a slice: no row is no error.\<close>

definition selectRows :: "('v \<Rightarrow> bool) \<Rightarrow> 'v list \<Rightarrow> faults \<Rightarrow> (lookup_error + 'v list) \<times> faults" where
  "selectRows P rows fs =
     (case nextFault fs of (Some e, fs') \<Rightarrow> (Inl e, fs') | (None, fs') \<Rightarrow> (Inr (filter P rows), fs'))"

definition loadRow :: "'v sindex list \<Rightarrow> string \<Rightarrow> string list \<Rightarrow> ('v \<Rightarrow> bool) \<Rightarrow> faults \<Rightarrow> 'v table \<Rightarrow>
    (lookup_error + 'v) \<times> faults \<times> 'v table" where
  "loadRow ixs lookup parts P fs t =
     (let (r, fs', c) = loadOneBy ixs lookup parts (selectRow P (tbRows t)) fs (tbCache t)
      in (r, fs', t\<lparr>tbCache := c\<rparr>))"

definition loadRows :: "'v sindex \<Rightarrow> 'v sindex list \<Rightarrow> string list \<Rightarrow> faults \<Rightarrow> 'v table \<Rightarrow>
    (lookup_error + 'v list) \<times> faults \<times> 'v table" where
  "loadRows i ixs ids fs t =
     (let (r, fs', c) = loadIDs i ixs ids
            (\<lambda>missing. selectRows (\<lambda>v. list_ex (\<lambda>x. ixFields i v = [x]) missing) (tbRows t)) fs (tbCache t)
      in (r, fs', t\<lparr>tbCache := c\<rparr>))"

text \<open>
  \<open>INSERT\<close>: the NOT NULL columns and the unique ones, which are those of the unique indices of
  the cache, are checked by the database.
\<close>

definition rowConflict :: "'v sindex list \<Rightarrow> 'v \<Rightarrow> 'v \<Rightarrow> bool" where
  "rowConflict ixs v w \<longleftrightarrow> list_ex (\<lambda>i. \<not> ixMultiple i \<and> ixFields i v = ixFields i w) ixs"

definition hasZero :: "'v sindex list \<Rightarrow> 'v \<Rightarrow> bool" where
  "hasZero ixs v \<longleftrightarrow> list_ex (\<lambda>i. snd (ixKey i (ixFields i v)) = None) ixs"

definition insertRow :: "'v sindex list \<Rightarrow> 'v \<Rightarrow> 'v list \<Rightarrow> faults \<Rightarrow> (lookup_error + 'v list) \<times> faults" where
  "insertRow ixs v rows fs =
     (case nextFault fs of
        (Some e, fs') \<Rightarrow> (Inl e, fs')
      | (None, fs') \<Rightarrow>
          ((if hasZero ixs v then Inl (LOther ''NOT NULL'')
            else if list_ex (rowConflict ixs v) rows then Inl LAlreadyExists
            else Inr (rows @ [v])), fs'))"

text \<open>\<open>Cache.Store\<close> up to the hook, which runs whether the query succeeded or not.\<close>

definition storeRow :: "'v sindex list \<Rightarrow> 'v \<Rightarrow> ('v list \<Rightarrow> faults \<Rightarrow> (lookup_error + 'v list) \<times> faults) \<Rightarrow>
    faults \<Rightarrow> 'v table \<Rightarrow> lookup_error option \<times> faults \<times> 'v table" where
  "storeRow ixs v stmt fs t =
     (case stmt (tbRows t) fs of
        (Inl e, fs') \<Rightarrow> (Some e, fs', t)
      | (Inr rows, fs') \<Rightarrow> (None, fs', \<lparr>tbRows = rows, tbCache = storeValue ixs None v (tbCache t)\<rparr>))"

text \<open>\<open>UPDATE ... WHERE id = ...\<close>; no matching row is no error.\<close>

definition updateRow :: "('v \<Rightarrow> bool) \<Rightarrow> ('v \<Rightarrow> 'v) \<Rightarrow> 'v list \<Rightarrow> faults \<Rightarrow>
    (lookup_error + 'v list) \<times> faults" where
  "updateRow P f rows fs =
     (case nextFault fs of
        (Some e, fs') \<Rightarrow> (Inl e, fs')
      | (None, fs') \<Rightarrow> (Inr (map (\<lambda>v. if P v then f v else v) rows), fs'))"

definition deleteRows :: "('v \<Rightarrow> bool) \<Rightarrow> 'v list \<Rightarrow> faults \<Rightarrow> (lookup_error + 'v list) \<times> faults" where
  "deleteRows P rows fs =
     (case nextFault fs of
        (Some e, fs') \<Rightarrow> (Inl e, fs') | (None, fs') \<Rightarrow> (Inr (filter (\<lambda>v. \<not> P v) rows), fs'))"

definition execDelete :: "('v \<Rightarrow> bool) \<Rightarrow> faults \<Rightarrow> 'v table \<Rightarrow> lookup_error option \<times> faults \<times> 'v table" where
  "execDelete P fs t =
     (case deleteRows P (tbRows t) fs of
        (Inl e, fs') \<Rightarrow> (Some e, fs', t) | (Inr rows, fs') \<Rightarrow> (None, fs', t\<lparr>tbRows := rows\<rparr>))"

definition dropKey :: "ixkey \<Rightarrow> 'v table \<Rightarrow> 'v list \<times> 'v table" where
  "dropKey k t = (let (vs, c) = invalidateKey k (tbCache t) in (vs, t\<lparr>tbCache := c\<rparr>))"

subsection \<open>Faults\<close>

lemma nextFault_ignored: "nextFault fs = (Some e, fs') \<Longrightarrow> ignoreErrors e"
  by (auto simp: nextFault_def ignoreErrors_def split: list.splits)

lemma nextFault_Nil [simp]: "nextFault [] = (None, [])"
  by (simp add: nextFault_def)

subsection \<open>What the operations do to a table whose cache is coherent\<close>

definition sameRows :: "'v table \<Rightarrow> 'v table \<Rightarrow> bool" where
  "sameRows t t' \<longleftrightarrow> tbRows t' = tbRows t"

context indexed
begin

lemma selectRow_answers:
  "answers (fst (selectRow (\<lambda>v. ixFields i v = parts) rows fs)) (rowsLookup i parts rows)"
  by (auto simp: selectRow_def answers_def rowsLookup_def nextFault_ignored
      split: prod.split option.splits)

lemma loadRow_ok:
  assumes "tblOK ixs t" and "i \<in> set ixs" and "\<not> ixMultiple i"
    and "loadRow ixs (ixName i) parts (\<lambda>v. ixFields i v = parts) fs t = (r, fs', t')"
  shows "answers r (rowsLookup i parts (tbRows t))" and "tblOK ixs t'" and "tbRows t' = tbRows t"
    and "fs = [] \<Longrightarrow> r = rowsLookup i parts (tbRows t) \<and> fs' = []"
    and "r = Inr v \<Longrightarrow> getValues (ixKey i parts) (tbCache t') = [v]"
proof -
  let ?load = "selectRow (\<lambda>v. ixFields i v = parts) (tbRows t)"
  obtain c where l: "loadOneBy ixs (ixName i) parts ?load fs (tbCache t) = (r, fs', c)"
      and t': "t' = t\<lparr>tbCache := c\<rparr>"
    using assms(4) by (auto simp: loadRow_def split: prod.splits)
  have inv: "cacheInv ixs (tbRows t) (tbCache t)" "tableOK ixs (tbRows t)"
    using assms(1) by (simp_all add: tblOK_def)
  note ok = loadOneBy_ok [OF inv assms(2,3) selectRow_answers l]
  show "answers r (rowsLookup i parts (tbRows t))" by (rule ok(1))
  show "tblOK ixs t'" and "tbRows t' = tbRows t" using ok(2) inv t' by (simp_all add: tblOK_def)
  show "r = rowsLookup i parts (tbRows t) \<and> fs' = []" if "fs = []"
    using ok(3,4) that by (auto simp: selectRow_def rowsLookup_def split: option.splits)
  show "getValues (ixKey i parts) (tbCache t') = [v]" if rv: "r = Inr v"
  proof -
    obtain it where "getOne (ixKey i parts) c = Some it" "itData it = Inr v"
      using ok(5) [OF rv] by auto
    then show ?thesis
      using getValues_getOne [OF ok(2)] isUnique_ixKey assms(2,3) t' by simp
  qed
qed

lemma loadRow_found:
  assumes "tblOK ixs t" and "i \<in> set ixs" and "\<not> ixMultiple i"
    and "loadRow ixs (ixName i) parts (\<lambda>v. ixFields i v = parts) fs t = (Inr v, fs', t')"
  shows "v \<in> set (tbRows t) \<and> ixFields i v = parts"
proof -
  have "rowsLookup i parts (tbRows t) = Inr v" using loadRow_ok(1) [OF assms] by (auto simp: answers_def)
  from rowsLookup_Inr [OF this] show ?thesis .
qed

lemma loadRow_missing:
  assumes "tblOK ixs t" and "i \<in> set ixs" and "\<not> ixMultiple i"
    and "loadRow ixs (ixName i) parts (\<lambda>v. ixFields i v = parts) fs t = (Inl LNoEntries, fs', t')"
  shows "\<forall>v \<in> set (tbRows t). ixFields i v \<noteq> parts"
  using loadRow_ok(1) [OF assms] rowsLookup_Inl [of i parts "tbRows t" LNoEntries]
  by (auto simp: answers_def ignoreErrors_def)

lemma loadRows_ok:
  assumes "tblOK ixs t" and "i \<in> set ixs" and "\<not> ixMultiple i"
    and "loadRows i ixs ids fs t = (r, fs', t')"
  shows "tblOK ixs t'" and "tbRows t' = tbRows t"
    and "r = Inr vs \<Longrightarrow> set vs = {v \<in> set (tbRows t). \<exists>x \<in> set ids. ixFields i v = [x]}"
    and "r = Inr vs \<Longrightarrow> distinct ids \<Longrightarrow> distinct (tbRows t) \<Longrightarrow> distinct vs"
    and "fs' = snd (nextFault fs)" and "fs = [] \<Longrightarrow> \<exists>vs. r = Inr vs"
    and "r = Inl e \<Longrightarrow> ignoreErrors e"
proof -
  let ?load = "\<lambda>missing. selectRows (\<lambda>v. list_ex (\<lambda>x. ixFields i v = [x]) missing) (tbRows t)"
  obtain c where l: "loadIDs i ixs ids ?load fs (tbCache t) = (r, fs', c)" and t': "t' = t\<lparr>tbCache := c\<rparr>"
    using assms(4) by (auto simp: loadRows_def split: prod.splits)
  have inv: "cacheInv ixs (tbRows t) (tbCache t)" "tableOK ixs (tbRows t)"
    using assms(1) by (simp_all add: tblOK_def)
  have ld: "?load xs fs = (Inr (filter (\<lambda>v. \<exists>x \<in> set xs. ixFields i v = [x]) (tbRows t)), snd (nextFault fs)) \<or>
      (\<exists>e. ?load xs fs = (Inl e, snd (nextFault fs)))" for xs
    by (auto simp: selectRows_def list_ex_iff split: prod.split option.split)
  note ok = loadIDs_ok [OF inv assms(2,3) ld l]
  show "tblOK ixs t'" and "tbRows t' = tbRows t" using ok(1) inv t' by (simp_all add: tblOK_def)
  show "set vs = {v \<in> set (tbRows t). \<exists>x \<in> set ids. ixFields i v = [x]}" if "r = Inr vs"
    by (rule ok(3) [OF that])
  show "distinct vs" if "r = Inr vs" "distinct ids" "distinct (tbRows t)"
    by (rule loadIDs_distinct [OF inv assms(2,3) ld l [unfolded that(1)] that(2,3)])
  show "fs' = snd (nextFault fs)" by (rule ok(2))
  show "ignoreErrors e" if "r = Inl e"
    using l that by (auto simp: loadIDs_def selectRows_def Let_def nextFault_ignored split: prod.splits option.splits)
  show "\<exists>vs. r = Inr vs" if "fs = []" using l that by (auto simp: loadIDs_def selectRows_def Let_def)
qed

lemma insertRow_Inr:
  assumes "insertRow ixs v rows fs = (Inr rows', fs')" and "tableOK ixs rows"
  shows "rows' = rows @ [v]" and "tableOK ixs rows'"
proof -
  have r: "rows' = rows @ [v]" and z: "\<not> hasZero ixs v" and n: "\<not> list_ex (rowConflict ixs v) rows"
    using assms(1) by (auto simp: insertRow_def split: prod.splits option.splits if_splits)
  show "rows' = rows @ [v]" by (rule r)
  have "ixFields i v \<noteq> ixFields i w" if "i \<in> set ixs" "\<not> ixMultiple i" "w \<in> set rows" for i w
    using n that by (auto simp: list_ex_iff rowConflict_def)
  note new = this
  obtain i where "i \<in> set ixs" "\<not> ixMultiple i" using has_unique by (auto simp: list_ex_iff)
  from new [OF this] have "v \<notin> set rows" by blast
  then show "tableOK ixs rows'"
    using assms(2) z new unfolding tableOK_def r
    by (simp add: hasZero_def list_ex_iff) (metis)
qed

text \<open>A stored row: the table is as the statement left it, and the cache agrees with it.\<close>

lemma storeRow_insert:
  assumes "tblOK ixs t" and "storeRow ixs v (insertRow ixs v) fs t = (e, fs', t')"
  shows "tblOK ixs t'" and "tbRows t' = (if e = None then tbRows t @ [v] else tbRows t)"
proof -
  have inv: "cacheInv ixs (tbRows t) (tbCache t)" "tableOK ixs (tbRows t)"
    using assms(1) by (simp_all add: tblOK_def)
  have "tblOK ixs t' \<and> tbRows t' = (if e = None then tbRows t @ [v] else tbRows t)"
  proof (cases "insertRow ixs v (tbRows t) fs")
    case (Pair r fs1)
    show ?thesis
    proof (cases r)
      case (Inl err)
      then show ?thesis using Pair assms by (auto simp: storeRow_def)
    next
      case (Inr rows')
      note ins = insertRow_Inr [OF Pair [unfolded Inr] inv(2)]
      have "cacheInv ixs rows' (storeValue ixs None v (tbCache t))"
        by (rule cacheInv_storeValue [OF inv(1) ins(2)]) (auto simp: ins(1))
      then show ?thesis using Inr Pair assms(2) ins by (auto simp: storeRow_def tblOK_def)
    qed
  qed
  then show "tblOK ixs t'" and "tbRows t' = (if e = None then tbRows t @ [v] else tbRows t)" by auto
qed

text \<open>An update of one row that leaves its indexed columns alone.\<close>

lemma storeRow_update:
  assumes "tblOK ixs t" and "r \<in> set (tbRows t)" and "\<And>x. x \<in> set (tbRows t) \<Longrightarrow> P x \<longleftrightarrow> x = r"
    and "g r = v" and "\<And>i. i \<in> set ixs \<Longrightarrow> ixFields i v = ixFields i r"
    and "storeRow ixs v (updateRow P g) fs t = (e, fs', t')"
  shows "tblOK ixs t'"
    and "tbRows t' = (if e = None then map (\<lambda>x. if x = r then v else x) (tbRows t) else tbRows t)"
    and "fs = [] \<Longrightarrow> e = None \<and> fs' = []"
proof -
  let ?rows = "map (\<lambda>x. if x = r then v else x) (tbRows t)"
  have inv: "cacheInv ixs (tbRows t) (tbCache t)" "tableOK ixs (tbRows t)"
    using assms(1) by (simp_all add: tblOK_def)
  have m: "map (\<lambda>x. if P x then g x else x) (tbRows t) = ?rows" using assms(3,4) by simp
  have orig: "\<exists>x \<in> set (tbRows t). y = (if x = r then v else x)" if "y \<in> set ?rows" for y
    using that by auto
  have fields: "ixFields i (if x = r then v else x) = ixFields i x" if "i \<in> set ixs" for i x
    using assms(5) [OF that] by simp
  obtain u where u: "u \<in> set ixs" "\<not> ixMultiple u" using has_unique by (auto simp: list_ex_iff)
  have "inj_on (\<lambda>x. if x = r then v else x) (set (tbRows t))"
  proof (rule inj_onI)
    fix x y assume x: "x \<in> set (tbRows t)" and y: "y \<in> set (tbRows t)"
      and "(if x = r then v else x) = (if y = r then v else y)"
    then have "ixFields u x = ixFields u y" using fields [OF u(1), of x] fields [OF u(1), of y] by simp
    then show "x = y" by (rule tableOK_unique [OF inv(2) u x y])
  qed
  then have dist: "distinct ?rows" using inv(2) by (simp add: tableOK_def distinct_map)
  have ok: "tableOK ixs ?rows"
    unfolding tableOK_def
  proof (intro ballI conjI impI)
    show "distinct ?rows" by (rule dist)
  next
    fix i y assume i: "i \<in> set ixs" and "y \<in> set ?rows"
    then obtain x where "x \<in> set (tbRows t)" "y = (if x = r then v else x)" using orig by blast
    then show "snd (ixKey i (ixFields i y)) \<noteq> None" using tableOK_key [OF inv(2) i] fields [OF i] by metis
  next
    fix i y z assume i: "i \<in> set ixs" and u: "\<not> ixMultiple i" and y: "y \<in> set ?rows" and z: "z \<in> set ?rows"
      and e: "ixFields i y = ixFields i z"
    obtain x where x: "x \<in> set (tbRows t)" "y = (if x = r then v else x)" using orig y by blast
    obtain w where w: "w \<in> set (tbRows t)" "z = (if w = r then v else w)" using orig z by blast
    have "x = w" using tableOK_unique [OF inv(2) i u x(1) w(1)] e x(2) w(2) fields [OF i] by metis
    then show "y = z" using x(2) w(2) by simp
  qed
  have "cacheInv ixs ?rows (storeValue ixs None v (tbCache t))"
    by (rule cacheInv_storeValue [OF inv(1) ok]) (use assms(2,5) in \<open>auto split: if_splits\<close>)
  then have "tblOK ixs t' \<and> tbRows t' = (if e = None then ?rows else tbRows t) \<and>
      (fs = [] \<longrightarrow> e = None \<and> fs' = [])"
    using assms(1) assms(6) [unfolded storeRow_def updateRow_def m] ok
    by (auto simp: tblOK_def split: prod.splits option.splits)
  then show "tblOK ixs t'"
    and "tbRows t' = (if e = None then ?rows else tbRows t)" and "fs = [] \<Longrightarrow> e = None \<and> fs' = []" by auto
qed

lemma dropKey_ok:
  assumes "tblOK ixs t" and "isUnique ixs k" and "dropKey k t = (vs, t')"
  shows "tblOK ixs t'" and "tbRows t' = tbRows t" and "vs = getValues k (tbCache t)"
    and "tbCache t' = filter (\<lambda>it. k \<notin> set (itKeys it)) (tbCache t)"
  using assms invalidateKey_unique [of "tbRows t" "tbCache t" k] cacheInv_invalidate [of "tbRows t" "tbCache t" k]
  by (auto simp: dropKey_def tblOK_def split: prod.splits)

end

end
