(* ===== verification/Visibility.thy ===== *)
theory Visibility
  imports Model
begin

text \<open>
  Who may see what: \<open>src/internal/filter/visibility\<close> (\<open>account.go\<close>, \<open>status.go\<close>,
  \<open>boostable.go\<close>, \<open>home_timeline.go\<close>, \<open>public_timeline.go\<close>, \<open>tag_timeline.go\<close>), its cache
  \<open>src/internal/cache/visibility.go\<close> and the invalidation hooks of
  \<open>src/internal/cache/invalidate.go\<close> that reach that cache. The database is a record of the
  lookups the filter makes. A requester that is not authenticated is \<open>None\<close>. Functions that
  may populate the status they are given return it.
\<close>

subsection \<open>The database and the cache\<close>

record vis_db =
  dbUser :: "string \<Rightarrow> lookup_error + user"
  dbDomainBlocked :: "string \<Rightarrow> lookup_error + bool"
  dbEitherBlocked :: "string \<Rightarrow> string \<Rightarrow> lookup_error + bool"
  dbFollowing :: "string \<Rightarrow> string \<Rightarrow> lookup_error + bool"
  dbMutual :: "string \<Rightarrow> string \<Rightarrow> lookup_error + bool"
  dbFollow :: "string \<Rightarrow> string \<Rightarrow> lookup_error + follow"
  dbStatus :: "string \<Rightarrow> lookup_error + status"
  dbMentions :: "string list \<Rightarrow> lookup_error + mention list"
  dbPopulate :: "status \<Rightarrow> lookup_error option \<times> status"

datatype vis_type = VtAccount | VtStatus | VtHome | VtPublic

type_synonym vis_key = "vis_type \<times> string \<times> string"

type_synonym vis_cache = "(vis_key, lookup_error, bool) cache"

definition noauth :: string where
  "noauth = ''noauth''"

definition requesterID :: "account option \<Rightarrow> string" where
  "requesterID req = (case req of None \<Rightarrow> noauth | Some a \<Rightarrow> acID a)"

subsection \<open>Accounts\<close>

definition isAccountVisible :: "host_config \<Rightarrow> vis_db \<Rightarrow> account \<Rightarrow> lookup_error + bool" where
  "isAccountVisible cfg D a =
     (let suspended = Inr (isZeroTime (acSuspendedAt a)) in
      if isLocalAccount cfg a then
        (if acUsername a = cfgHost cfg then Inr True
         else
           (case dbUser D (acID a) of
              Inl e \<Rightarrow> Inl e
            | Inr u \<Rightarrow>
                if usDisabled u \<or> \<not> usApproved u \<or> isZeroTime (usConfirmedAt u) then Inr False
                else suspended))
      else
        (case dbDomainBlocked D (acDomain a) of
           Inl e \<Rightarrow> Inl e
         | Inr blocked \<Rightarrow> if blocked then Inr False else suspended))"

definition isAccountVisibleTo :: "host_config \<Rightarrow> vis_db \<Rightarrow> account option \<Rightarrow> account \<Rightarrow>
    lookup_error + bool" where
  "isAccountVisibleTo cfg D req a =
     (case isAccountVisible cfg D a of
        Inl e \<Rightarrow> Inl e
      | Inr False \<Rightarrow> Inr False
      | Inr True \<Rightarrow>
          (case req of
             None \<Rightarrow> Inr True
           | Some r \<Rightarrow>
               (case isAccountVisible cfg D r of
                  Inl e \<Rightarrow> Inl e
                | Inr False \<Rightarrow> Inr False
                | Inr True \<Rightarrow>
                    (case dbEitherBlocked D (acID r) (acID a) of
                       Inl e \<Rightarrow> Inl e
                     | Inr blocked \<Rightarrow> Inr (\<not> blocked)))))"

definition accountVisible :: "host_config \<Rightarrow> vis_db \<Rightarrow> account option \<Rightarrow> account \<Rightarrow> vis_cache \<Rightarrow>
    (lookup_error + bool) \<times> vis_cache" where
  "accountVisible cfg D req a c =
     (let (r, _, c') = loadOne ignoreErrors (VtAccount, requesterID req, acID a) ()
                         (\<lambda>c. (isAccountVisibleTo cfg D req a, (), c)) c
      in (r, c'))"

subsection \<open>Statuses\<close>

definition areStatusAccountsVisible :: "host_config \<Rightarrow> vis_db \<Rightarrow> account option \<Rightarrow> status \<Rightarrow>
    vis_cache \<Rightarrow> (lookup_error + bool) \<times> vis_cache" where
  "areStatusAccountsVisible cfg D req st c =
     (let (r, c) = accountVisible cfg D req (stAccount st) c in
      case r of
        Inl e \<Rightarrow> (Inl e, c)
      | Inr visible \<Rightarrow>
          if \<not> visible then (Inr False, c)
          else if stBoostOfID st \<noteq> [] then
            (if stAccountID st = stBoostOfAccountID st then (Inr True, c)
             else accountVisible cfg D req (stBoostOfAccount st) c)
          else (Inr True, c))"

text \<open>The second half of \<open>isStatusVisible\<close>, once the accounts are known to be visible.\<close>

definition audienceSwitch :: "vis_db \<Rightarrow> account \<Rightarrow> status \<Rightarrow> lookup_error + bool" where
  "audienceSwitch D r st =
     (case stVisibility st of
        VisFollowersOnly \<Rightarrow> dbFollowing D (acID r) (stAccountID st)
      | VisMutualsOnly \<Rightarrow> dbMutual D (acID r) (stAccountID st)
      | _ \<Rightarrow> Inr False)"

definition statusAudience :: "vis_db \<Rightarrow> account option \<Rightarrow> status \<Rightarrow> lookup_error + bool" where
  "statusAudience D req st =
     (if stVisibility st = VisPublic then Inr True
      else
        (case req of
           None \<Rightarrow> Inr False
         | Some r \<Rightarrow>
             if stVisibility st = VisUnlocked then Inr True
             else if acID r = stAccountID st then Inr True
             else if mentionsAccount (stMentions st) (acID r) then Inr True
             else
               (case stBoostOf st of
                  None \<Rightarrow> audienceSwitch D r st
                | Some b \<Rightarrow>
                    (case (if mentionsPopulated (boMentionIDs b) (boMentions b) then Inr (boMentions b)
                           else dbMentions D (boMentionIDs b)) of
                       Inl e \<Rightarrow> Inl e
                     | Inr ms \<Rightarrow>
                         if mentionsAccount ms (acID r) then Inr True else audienceSwitch D r st))))"

definition isStatusVisible :: "host_config \<Rightarrow> vis_db \<Rightarrow> account option \<Rightarrow> status \<Rightarrow> vis_cache \<Rightarrow>
    (lookup_error + bool) \<times> status \<times> vis_cache" where
  "isStatusVisible cfg D req st c =
     (case dbPopulate D st of
        (Some e, st') \<Rightarrow> (Inl e, st', c)
      | (None, st') \<Rightarrow>
          (let (r, c') = areStatusAccountsVisible cfg D req st' c in
           case r of
             Inl e \<Rightarrow> (Inl e, st', c')
           | Inr visible \<Rightarrow>
               if \<not> visible then (Inr False, st', c') else (statusAudience D req st', st', c')))"

definition statusVisible :: "host_config \<Rightarrow> vis_db \<Rightarrow> account option \<Rightarrow> status \<Rightarrow> vis_cache \<Rightarrow>
    (lookup_error + bool) \<times> status \<times> vis_cache" where
  "statusVisible cfg D req st c =
     loadOne ignoreErrors (VtStatus, requesterID req, stID st) st (isStatusVisible cfg D req st) c"

text \<open>\<open>StatusesVisible\<close>: the visible ones, and the errors, each of which drops its status.\<close>

fun statusesVisible :: "host_config \<Rightarrow> vis_db \<Rightarrow> account option \<Rightarrow> status list \<Rightarrow> vis_cache \<Rightarrow>
    (status list \<times> lookup_error list) \<times> vis_cache" where
  "statusesVisible cfg D req [] c = (([], []), c)"
| "statusesVisible cfg D req (st # sts) c =
     (let (r, st', c) = statusVisible cfg D req st c;
          ((kept, errs), c) = statusesVisible cfg D req sts c
      in case r of
           Inl e \<Rightarrow> ((kept, e # errs), c)
         | Inr visible \<Rightarrow> (if visible then (st' # kept, errs) else (kept, errs), c))"

definition statusBoostable :: "host_config \<Rightarrow> vis_db \<Rightarrow> account option \<Rightarrow> status \<Rightarrow> vis_cache \<Rightarrow>
    (lookup_error + bool) \<times> vis_cache" where
  "statusBoostable cfg D req st c =
     (if stVisibility st = VisDirect then (Inr False, c)
      else
        (let (r, st, c) = statusVisible cfg D req st c in
         case r of
           Inl e \<Rightarrow> (Inl e, c)
         | Inr visible \<Rightarrow>
             if \<not> visible then (Inr False, c)
             else
               (case req of
                  None \<Rightarrow> (Inl LPanic, c)
                | Some a \<Rightarrow>
                    if acID a = stAccountID st then (Inr True, c)
                    else if stVisibility st = VisFollowersOnly \<or> stVisibility st = VisMutualsOnly
                    then (Inr False, c)
                    else (Inr (stBoostable st), c))))"

subsection \<open>Tag and public timelines\<close>

definition oneDay :: time where
  "oneDay = 24 * 3600 * 1000000000"

definition statusTagTimelineable :: "host_config \<Rightarrow> vis_db \<Rightarrow> time \<Rightarrow> account option \<Rightarrow> status \<Rightarrow>
    vis_cache \<Rightarrow> (lookup_error + bool) \<times> vis_cache" where
  "statusTagTimelineable cfg D now req st c =
     (if now + oneDay < stCreatedAt st then (Inr False, c)
      else if stBoostOfID st \<noteq> [] then (Inr False, c)
      else
        (let (r, _, c) = statusVisible cfg D req st c in (r, c)))"

text \<open>
  The walk up a reply chain. \<open>fuel\<close> bounds the parents fetched: \<open>None\<close> is a walk that has not
  ended yet.
\<close>

fun publicLoop :: "vis_db \<Rightarrow> status \<Rightarrow> nat \<Rightarrow> status \<Rightarrow> (lookup_error + bool) option" where
  "publicLoop D st fuel parent =
     (if stInReplyToURI parent = [] then Some (Inr True)
      else if stInReplyToID parent = [] then Some (Inl LSentinel)
      else
        (case fuel of
           0 \<Rightarrow> None
         | Suc n \<Rightarrow>
             (case dbStatus D (stInReplyToID parent) of
                Inl e \<Rightarrow> Some (Inl e)
              | Inr p \<Rightarrow>
                  if stAccountID p \<noteq> stAccountID st then Some (Inr False)
                  else publicLoop D st n p)))"

declare publicLoop.simps [simp del]

definition isStatusPublicTimelineable :: "host_config \<Rightarrow> vis_db \<Rightarrow> nat \<Rightarrow> time \<Rightarrow> account option \<Rightarrow>
    status \<Rightarrow> vis_cache \<Rightarrow> ((lookup_error + bool) \<times> vis_cache) option" where
  "isStatusPublicTimelineable cfg D fuel now req st c =
     (if now + oneDay < stCreatedAt st then Some (Inr False, c)
      else if stBoostOfID st \<noteq> [] then Some (Inr False, c)
      else
        (let (r, st, c) = statusVisible cfg D req st c in
         case r of
           Inl e \<Rightarrow> Some (Inl e, c)
         | Inr visible \<Rightarrow>
             if \<not> visible then Some (Inr False, c)
             else map_option (\<lambda>r. (r, c)) (publicLoop D st fuel st)))"

text \<open>
  A cached timeline lookup, whose loader may not return. The temporary error of a parent that
  is not fetched yet is turned into \<open>False\<close> after the cache has refused to store it.
\<close>

definition timelineLookup :: "vis_key \<Rightarrow> (vis_cache \<Rightarrow> ((lookup_error + bool) \<times> vis_cache) option) \<Rightarrow>
    vis_cache \<Rightarrow> ((lookup_error + bool) \<times> vis_cache) option" where
  "timelineLookup k load c =
     (case (if c k = None then load c else Some (Inr False, c)) of
        None \<Rightarrow> None
      | Some loaded \<Rightarrow>
          (let (r, _, c') = loadOne ignoreErrors k () (\<lambda>_. (fst loaded, (), snd loaded)) c
           in Some (if r = Inl LSentinel then Inr False else r, c')))"

definition statusPublicTimelineable :: "host_config \<Rightarrow> vis_db \<Rightarrow> nat \<Rightarrow> time \<Rightarrow> account option \<Rightarrow>
    status \<Rightarrow> vis_cache \<Rightarrow> ((lookup_error + bool) \<times> vis_cache) option" where
  "statusPublicTimelineable cfg D fuel now req st c =
     timelineLookup (VtPublic, requesterID req, stID st)
       (isStatusPublicTimelineable cfg D fuel now req st) c"


subsection \<open>Home timelines\<close>

text \<open>
  \<open>isVisibleConversation\<close>: the pair is (explicitly visible, explicitly not visible). The loop
  over the mentions stops at the first block.
\<close>

fun mentionLoop :: "vis_db \<Rightarrow> string \<Rightarrow> bool \<Rightarrow> mention list \<Rightarrow> lookup_error + (bool \<times> bool)" where
  "mentionLoop D owner follow [] = Inr (follow, False)"
| "mentionLoop D owner follow (m # ms) =
     (case dbEitherBlocked D owner (meTargetAccountID m) of
        Inl e \<Rightarrow> Inl e
      | Inr block \<Rightarrow>
          if block then Inr (False, True)
          else if \<not> follow then
            (case dbFollowing D owner (meTargetAccountID m) of
               Inl e \<Rightarrow> Inl e
             | Inr f \<Rightarrow> mentionLoop D owner f ms)
          else mentionLoop D owner follow ms)"

definition isVisibleConversation :: "host_config \<Rightarrow> vis_db \<Rightarrow> account \<Rightarrow> status \<Rightarrow> vis_cache \<Rightarrow>
    (lookup_error + (bool \<times> bool)) \<times> status \<times> vis_cache" where
  "isVisibleConversation cfg D owner st c =
     (let (r, st, c) = statusVisible cfg D (Some owner) st c in
      case r of
        Inl e \<Rightarrow> (Inl e, st, c)
      | Inr visible \<Rightarrow>
          if \<not> visible then (Inr (False, True), st, c)
          else if stVisibility st = VisUnlocked \<or> stVisibility st = VisPublic then
            (case dbFollowing D (acID owner) (stAccountID st) of
               Inl e \<Rightarrow> (Inl e, st, c)
             | Inr follow \<Rightarrow>
                 if \<not> follow then (Inr (False, False), st, c)
                 else (mentionLoop D (acID owner) False (stMentions st), st, c))
          else (mentionLoop D (acID owner) False (stMentions st), st, c))"

text \<open>
  The loop over the thread, from the status up. It leaves the function (\<open>HomeReturn\<close>) or ends
  with the flags \<open>next != status\<close>, \<open>oneAuthor\<close> and \<open>visible\<close>.
\<close>

datatype home_end = HomeReturn "lookup_error + bool" | HomeBreak bool bool bool

fun homeLoop :: "host_config \<Rightarrow> vis_db \<Rightarrow> account \<Rightarrow> status \<Rightarrow> nat \<Rightarrow> bool \<Rightarrow> bool \<Rightarrow> status \<Rightarrow>
    vis_cache \<Rightarrow> (home_end \<times> vis_cache) option" where
  "homeLoop cfg D owner st fuel moved oneAuthor next c =
     (case dbMentions D (stMentionIDs next) of
        Inl e \<Rightarrow> Some (HomeReturn (Inl e), c)
      | Inr ms \<Rightarrow>
          (let next = next\<lparr>stMentions := ms\<rparr> in
           if stAccountID next = acID owner \<or> mentionsAccount (stMentions next) (acID owner)
           then Some (HomeBreak moved oneAuthor True, c)
           else
             (let (r, next, c) = isVisibleConversation cfg D owner next c in
              case r of
                Inl e \<Rightarrow> Some (HomeReturn (Inl e), c)
              | Inr (visible, notVisible) \<Rightarrow>
                  if notVisible then Some (HomeReturn (Inr False), c)
                  else if visible then Some (HomeBreak moved oneAuthor True, c)
                  else
                    (let oneAuthor = (oneAuthor \<and> stAccountID next = stAccountID st) in
                     if stInReplyToURI next = [] then Some (HomeBreak moved oneAuthor False, c)
                     else if stInReplyToID next = [] then Some (HomeReturn (Inl LSentinel), c)
                     else
                       (case fuel of
                          0 \<Rightarrow> None
                        | Suc n \<Rightarrow>
                            (case dbStatus D (stInReplyToID next) of
                               Inl e \<Rightarrow> Some (HomeReturn (Inl e), c)
                             | Inr p \<Rightarrow> homeLoop cfg D owner st n True oneAuthor p c))))))"

declare homeLoop.simps [simp del]

definition homeFollow :: "vis_db \<Rightarrow> account \<Rightarrow> status \<Rightarrow> lookup_error + bool" where
  "homeFollow D owner st =
     (case dbFollow D (acID owner) (stAccountID st) of
        Inl e \<Rightarrow> if e \<noteq> LNoEntries then Inl e else Inr False
      | Inr f \<Rightarrow> if stBoostOfID st \<noteq> [] \<and> \<not> foShowReblogs f then Inr False else Inr True)"

definition isStatusHomeTimelineable :: "host_config \<Rightarrow> vis_db \<Rightarrow> nat \<Rightarrow> time \<Rightarrow> account option \<Rightarrow>
    status \<Rightarrow> vis_cache \<Rightarrow> ((lookup_error + bool) \<times> vis_cache) option" where
  "isStatusHomeTimelineable cfg D fuel now owner st c =
     (if now + oneDay < stCreatedAt st then Some (Inr False, c)
      else
        (let (r, st, c) = statusVisible cfg D owner st c in
         case r of
           Inl e \<Rightarrow> Some (Inl e, c)
         | Inr visible \<Rightarrow>
             if \<not> visible then Some (Inr False, c)
             else
               (case owner of
                  None \<Rightarrow> Some (Inl LPanic, c)
                | Some ow \<Rightarrow>
                    if stAccountID st = acID ow then Some (Inr True, c)
                    else if mentionsAccount (stMentions st) (acID ow) then Some (Inr True, c)
                    else
                      (case homeLoop cfg D ow st fuel False True st c of
                         None \<Rightarrow> None
                       | Some (HomeReturn r, c) \<Rightarrow> Some (r, c)
                       | Some (HomeBreak moved oneAuthor visible, c) \<Rightarrow>
                           if moved \<and> \<not> oneAuthor \<and> \<not> visible then Some (Inr False, c)
                           else Some (homeFollow D ow st, c)))))"

definition statusHomeTimelineable :: "host_config \<Rightarrow> vis_db \<Rightarrow> nat \<Rightarrow> time \<Rightarrow> account option \<Rightarrow>
    status \<Rightarrow> vis_cache \<Rightarrow> ((lookup_error + bool) \<times> vis_cache) option" where
  "statusHomeTimelineable cfg D fuel now owner st c =
     timelineLookup (VtHome, requesterID owner, stID st)
       (isStatusHomeTimelineable cfg D fuel now owner st) c"

subsection \<open>Invalidation hooks\<close>

definition visInvalidate :: "string \<Rightarrow> vis_cache \<Rightarrow> vis_cache" where
  "visInvalidate i c =
     invalidateWhere (\<lambda>(t, rid, item). rid = i) (invalidateWhere (\<lambda>(t, rid, item). item = i) c)"

definition onInvalidateAccount :: "string \<Rightarrow> vis_cache \<Rightarrow> vis_cache" where
  "onInvalidateAccount acc c = visInvalidate acc c"

definition onInvalidateBlock :: "string \<Rightarrow> string \<Rightarrow> vis_cache \<Rightarrow> vis_cache" where
  "onInvalidateBlock acc target c = visInvalidate target (visInvalidate acc c)"

definition onInvalidateFollow :: "string \<Rightarrow> string \<Rightarrow> vis_cache \<Rightarrow> vis_cache" where
  "onInvalidateFollow acc target c = visInvalidate target (visInvalidate acc c)"

definition onInvalidateStatus :: "string \<Rightarrow> vis_cache \<Rightarrow> vis_cache" where
  "onInvalidateStatus i c = invalidateWhere (\<lambda>(t, rid, item). item = i) c"

definition onInvalidateUser :: "string \<Rightarrow> vis_cache \<Rightarrow> vis_cache" where
  "onInvalidateUser acc c = visInvalidate acc c"

lemma visInvalidate_eq:
  "visInvalidate i c = invalidateWhere (\<lambda>(t, rid, item). item = i \<or> rid = i) c"
  by (rule ext) (auto simp: visInvalidate_def invalidateWhere_def)

lemma onInvalidate_pair:
  "visInvalidate b (visInvalidate a c) =
    invalidateWhere (\<lambda>(t, rid, item). rid \<in> {a, b} \<or> item \<in> {a, b}) c"
  by (rule ext) (auto simp: visInvalidate_eq invalidateWhere_def)

subsection \<open>The filter without its cache\<close>

definition statusAccountsSpec :: "host_config \<Rightarrow> vis_db \<Rightarrow> account option \<Rightarrow> status \<Rightarrow>
    lookup_error + bool" where
  "statusAccountsSpec cfg D req st =
     (case isAccountVisibleTo cfg D req (stAccount st) of
        Inr True \<Rightarrow>
          (if stBoostOfID st \<noteq> [] \<and> stAccountID st \<noteq> stBoostOfAccountID st
           then isAccountVisibleTo cfg D req (stBoostOfAccount st) else Inr True)
      | r \<Rightarrow> r)"

definition statusSpec :: "host_config \<Rightarrow> vis_db \<Rightarrow> account option \<Rightarrow> status \<Rightarrow> lookup_error + bool"
  where
  "statusSpec cfg D req st =
     (case dbPopulate D st of
        (Some e, _) \<Rightarrow> Inl e
      | (None, st') \<Rightarrow>
          (case statusAccountsSpec cfg D req st' of
             Inr True \<Rightarrow> statusAudience D req st'
           | r \<Rightarrow> r))"

text \<open>
  The rows that IDs stand for. A well-formed database populates a status with the rows of its
  accounts, and whatever the callers hold of a status is populated to the same.
\<close>

record rows =
  rowAccount :: "string \<Rightarrow> account"
  rowStatus :: "string \<Rightarrow> status"

definition validReq :: "rows \<Rightarrow> account option \<Rightarrow> bool" where
  "validReq R req \<longleftrightarrow>
     (case req of None \<Rightarrow> True | Some a \<Rightarrow> a = rowAccount R (acID a) \<and> acID a \<noteq> noauth)"

definition validAcct :: "rows \<Rightarrow> account \<Rightarrow> bool" where
  "validAcct R a \<longleftrightarrow> a = rowAccount R (acID a)"

text \<open>A status in hand is a version of its row: its own columns, populated or not.\<close>

definition sameRow :: "status \<Rightarrow> status \<Rightarrow> bool" where
  "sameRow s t \<longleftrightarrow> stAccountID s = stAccountID t \<and> stInReplyToID s = stInReplyToID t \<and>
     stInReplyToURI s = stInReplyToURI t \<and> stBoostOfID s = stBoostOfID t"

definition validStatus :: "rows \<Rightarrow> vis_db \<Rightarrow> status \<Rightarrow> bool" where
  "validStatus R D st \<longleftrightarrow> dbPopulate D st = dbPopulate D (rowStatus R (stID st)) \<and>
     sameRow st (rowStatus R (stID st))"

definition wfRows :: "rows \<Rightarrow> bool" where
  "wfRows R \<longleftrightarrow> (\<forall>i. acID (rowAccount R i) = i \<and> stID (rowStatus R i) = i)"

definition wfPopulate :: "rows \<Rightarrow> vis_db \<Rightarrow> bool" where
  "wfPopulate R D \<longleftrightarrow>
     (\<forall>st st' e. dbPopulate D st = (e, st') \<longrightarrow>
        stID st' = stID st \<and> (validStatus R D st \<longrightarrow> validStatus R D st') \<and>
        (e = None \<longrightarrow> stAccount st' = rowAccount R (stAccountID st') \<and>
           (stBoostOfID st' \<noteq> [] \<longrightarrow> stBoostOfAccount st' = rowAccount R (stBoostOfAccountID st'))))"

definition wfLookups :: "rows \<Rightarrow> vis_db \<Rightarrow> bool" where
  "wfLookups R D \<longleftrightarrow>
     (\<forall>i p. dbStatus D i = Inr p \<longrightarrow> validStatus R D p) \<and>
     (\<forall>st ms. validStatus R D st \<longrightarrow> dbMentions D (stMentionIDs st) = Inr ms \<longrightarrow>
        validStatus R D (st\<lparr>stMentions := ms\<rparr>))"

definition wfDB :: "rows \<Rightarrow> vis_db \<Rightarrow> bool" where
  "wfDB R D \<longleftrightarrow> wfRows R \<and> wfPopulate R D \<and> wfLookups R D"

definition reqOf :: "rows \<Rightarrow> string \<Rightarrow> account option" where
  "reqOf R rid = (if rid = noauth then None else Some (rowAccount R rid))"

lemma reqOf_requesterID: "validReq R req \<Longrightarrow> reqOf R (requesterID req) = req"
  by (auto simp: validReq_def reqOf_def requesterID_def split: option.splits)

fun visTracked :: "vis_key \<Rightarrow> bool" where
  "visTracked (VtAccount, _) = True"
| "visTracked (VtStatus, _) = True"
| "visTracked _ = False"

fun visSpec :: "host_config \<Rightarrow> rows \<Rightarrow> vis_db \<Rightarrow> vis_key \<Rightarrow> lookup_error + bool" where
  "visSpec cfg R D (VtAccount, rid, i) = isAccountVisibleTo cfg D (reqOf R rid) (rowAccount R i)"
| "visSpec cfg R D (VtStatus, rid, i) = statusSpec cfg D (reqOf R rid) (rowStatus R i)"
| "visSpec cfg R D (_, rid, i) = Inr False"

abbreviation visAgrees :: "host_config \<Rightarrow> rows \<Rightarrow> vis_db \<Rightarrow> vis_cache \<Rightarrow> bool" where
  "visAgrees cfg R D c \<equiv> agrees visTracked (visSpec cfg R D) c"

definition accountQuery :: "host_config \<Rightarrow> vis_db \<Rightarrow> account option \<times> account \<Rightarrow> vis_cache \<Rightarrow>
    (lookup_error + bool) \<times> unit \<times> vis_cache" where
  "accountQuery cfg D = (\<lambda>(req, a) c. (isAccountVisibleTo cfg D req a, (), c))"

interpretation accountLookup: cached_lookup visTracked "visSpec cfg R D"
  "\<lambda>(req, a). (VtAccount, requesterID req, acID a)" "\<lambda>_. ()" "accountQuery cfg D"
  "\<lambda>(req, a). validReq R req \<and> validAcct R a"
  for cfg R D
proof (unfold_locales, goal_cases)
  case (1 q c r x c')
  then show ?case
    by (cases q) (auto simp: accountQuery_def reqOf_requesterID validAcct_def)
next
  case (2 q)
  then show ?case by (cases q) simp
qed

lemma accountVisible_ok:
  assumes "validReq R req" and "validAcct R a" and "visAgrees cfg R D c"
    and "accountVisible cfg D req a c = (r, c')"
  shows "r = isAccountVisibleTo cfg D req a \<and> visAgrees cfg R D c'"
proof -
  obtain x where l: "loadOne ignoreErrors (VtAccount, requesterID req, acID a) ()
      (accountQuery cfg D (req, a)) c = (r, x, c')"
    using assms(4) by (auto simp: accountVisible_def accountQuery_def split: prod.splits)
  with accountLookup.lookup_ok [of R "(req, a)" cfg D c ignoreErrors r x c'] assms(1-3)
  show ?thesis by (simp add: reqOf_requesterID validAcct_def)
qed


lemma accountVisible_row:
  assumes "wfDB R D" and "validReq R req" and "visAgrees cfg R D c"
    and "accountVisible cfg D req (rowAccount R i) c = (r, c')"
  shows "r = isAccountVisibleTo cfg D req (rowAccount R i) \<and> visAgrees cfg R D c'"
  by (rule accountVisible_ok [OF assms(2) _ assms(3,4)])
    (use assms(1) in \<open>simp add: validAcct_def wfDB_def wfRows_def\<close>)

lemma areStatusAccountsVisible_ok:
  assumes "wfDB R D" and "dbPopulate D st = (None, st')" and "validReq R req"
    and "visAgrees cfg R D c" and "areStatusAccountsVisible cfg D req st' c = (r, c')"
  shows "r = statusAccountsSpec cfg D req st' \<and> visAgrees cfg R D c'"
proof -
  have a: "stAccount st' = rowAccount R (stAccountID st')"
    and b: "stBoostOfID st' \<noteq> [] \<Longrightarrow> stBoostOfAccount st' = rowAccount R (stBoostOfAccountID st')"
    using assms(1,2) by (auto simp: wfDB_def wfPopulate_def)
  let ?v1 = "isAccountVisibleTo cfg D req (rowAccount R (stAccountID st'))"
  let ?v2 = "isAccountVisibleTo cfg D req (rowAccount R (stBoostOfAccountID st'))"
  obtain c1 where 1: "accountVisible cfg D req (rowAccount R (stAccountID st')) c = (?v1, c1)"
      and c1: "visAgrees cfg R D c1"
    using accountVisible_row [OF assms(1,3,4)] by (metis prod.exhaust)
  obtain c2 where 2: "accountVisible cfg D req (rowAccount R (stBoostOfAccountID st')) c1 = (?v2, c2)"
      and c2: "visAgrees cfg R D c2"
    using accountVisible_row [OF assms(1,3) c1] by (metis prod.exhaust)
  note defs = areStatusAccountsVisible_def statusAccountsSpec_def a 1 2
  show ?thesis
  proof (cases ?v1)
    case (Inl e)
    from Inl have "areStatusAccountsVisible cfg D req st' c = (Inl e, c1)"
        "statusAccountsSpec cfg D req st' = Inl e" by (simp_all add: defs)
    with assms(5) c1 show ?thesis by simp
  next
    case (Inr v)
    show ?thesis
    proof (cases "v \<and> stBoostOfID st' \<noteq> [] \<and> stAccountID st' \<noteq> stBoostOfAccountID st'")
      case True
      with assms(5) Inr c2 b show ?thesis by (simp add: defs)
    next
      case False
      have "areStatusAccountsVisible cfg D req st' c = (Inr v, c1)"
        using False Inr by (cases v) (auto simp: defs)
      moreover have "statusAccountsSpec cfg D req st' = Inr v"
        using False Inr by (cases v) (auto simp: statusAccountsSpec_def a)
      ultimately show ?thesis using assms(5) c1 by simp
    qed
  qed
qed

definition validStatusQuery :: "rows \<Rightarrow> vis_db \<Rightarrow> account option \<times> status \<Rightarrow> bool" where
  "validStatusQuery R D = (\<lambda>(req, st). wfDB R D \<and> validReq R req \<and> validStatus R D st)"

interpretation statusLookup: cached_lookup visTracked "visSpec cfg R D"
  "\<lambda>(req, st). (VtStatus, requesterID req, stID st)" "\<lambda>(req, st). st"
  "\<lambda>(req, st). isStatusVisible cfg D req st" "validStatusQuery R D"
  for cfg R D
proof (unfold_locales, goal_cases)
  case (1 q c r x c')
  obtain req st where q: "q = (req, st)" by fastforce
  with 1 have v: "wfDB R D" "validReq R req" "validStatus R D st"
    by (simp_all add: validStatusQuery_def)
  have spec: "visSpec cfg R D (VtStatus, requesterID req, stID st) = statusSpec cfg D req st"
    using v(2,3) by (simp add: reqOf_requesterID statusSpec_def validStatus_def)
  obtain e st' where p: "dbPopulate D st = (e, st')" by fastforce
  show ?case
  proof (cases e)
    case (Some err)
    with 1 q p spec show ?thesis by (auto simp: isStatusVisible_def statusSpec_def)
  next
    case None
    let ?v = "statusAccountsSpec cfg D req st'"
    obtain c1 where a: "areStatusAccountsVisible cfg D req st' c = (?v, c1)"
        and c1: "visAgrees cfg R D c1"
      using areStatusAccountsVisible_ok [OF v(1) p [unfolded None] v(2) 1(2)]
      by (metis prod.exhaust)
    show ?thesis
    proof (cases ?v)
      case (Inl err)
      have "isStatusVisible cfg D req st c = (Inl err, st', c1)" "statusSpec cfg D req st = Inl err"
        using p None a Inl by (simp_all add: isStatusVisible_def statusSpec_def)
      then show ?thesis using 1(3) q spec c1 by (simp only: prod.case prod.inject)
    next
      case (Inr v)
      have "isStatusVisible cfg D req st c = (statusSpec cfg D req st, st', c1)"
        using p None a Inr by (cases v; simp add: isStatusVisible_def statusSpec_def)
      then show ?thesis using 1(3) q spec c1 by simp
    qed
  qed
next
  case (2 q)
  then show ?case by (cases q) simp
qed

lemma statusVisible_ok:
  assumes "wfDB R D" and "validReq R req" and "validStatus R D st" and "visAgrees cfg R D c"
    and "statusVisible cfg D req st c = (r, st', c')"
  shows "r = statusSpec cfg D req st" and "visAgrees cfg R D c'"
proof -
  have "validStatusQuery R D (req, st)" using assms(1-3) by (simp add: validStatusQuery_def)
  from statusLookup.lookup_ok [OF this assms(4), of ignoreErrors r st' c'] assms(5)
  have "r = visSpec cfg R D (VtStatus, requesterID req, stID st) \<and> visAgrees cfg R D c'"
    by (simp add: statusVisible_def)
  then show "r = statusSpec cfg D req st" "visAgrees cfg R D c'"
    using assms(2,3) by (simp_all add: reqOf_requesterID statusSpec_def validStatus_def)
qed

lemma statusVisible_valid:
  assumes "wfDB R D" and "validStatus R D st" and "statusVisible cfg D req st c = (r, st', c')"
  shows "validStatus R D st' \<and> stID st' = stID st \<and> (st' = st \<or> (\<exists>e. dbPopulate D st = (e, st')))"
proof (cases "c (VtStatus, requesterID req, stID st)")
  case None
  obtain e st1 where p: "dbPopulate D st = (e, st1)" by fastforce
  have "st' = st1"
    using assms(3) None p
    by (auto simp: statusVisible_def loadOne_def isStatusVisible_def split: option.splits prod.splits
        sum.splits if_splits)
  with p assms(1,2) show ?thesis by (auto simp: wfDB_def wfPopulate_def)
qed (use assms in \<open>simp add: statusVisible_def loadOne_def\<close>)


subsection \<open>Timeline lookups keep the cache right\<close>

lemma isVisibleConversation_ok:
  assumes "wfDB R D" and "validReq R (Some owner)" and "validStatus R D st"
    and "visAgrees cfg R D c" and "isVisibleConversation cfg D owner st c = (r, st', c')"
  shows "visAgrees cfg R D c' \<and> validStatus R D st'"
proof -
  obtain r1 st1 c1 where 1: "statusVisible cfg D (Some owner) st c = (r1, st1, c1)"
    by (metis prod.exhaust)
  have "st' = st1 \<and> c' = c1"
    using assms(5) 1 by (auto simp: isVisibleConversation_def split: sum.splits if_splits)
  with statusVisible_ok(2) [OF assms(1-4) 1] statusVisible_valid [OF assms(1,3) 1]
  show ?thesis by simp
qed

lemma homeLoop_agrees:
  assumes "wfDB R D" and "validReq R (Some owner)"
  shows "validStatus R D next \<Longrightarrow> visAgrees cfg R D c \<Longrightarrow>
    homeLoop cfg D owner st fuel moved oneAuthor next c = Some (e, c') \<Longrightarrow> visAgrees cfg R D c'"
proof (induction fuel arbitrary: moved oneAuthor "next" c e c')
  case 0
  note pr = 0
  show ?case
  proof (cases "dbMentions D (stMentionIDs next)")
    case (Inr ms)
    let ?n = "next\<lparr>stMentions := ms\<rparr>"
    have v: "validStatus R D ?n"
      using assms(1) pr(1) Inr by (simp add: wfDB_def wfLookups_def)
    obtain r n1 c1 where i: "isVisibleConversation cfg D owner ?n c = (r, n1, c1)"
      by (metis prod.exhaust)
    from isVisibleConversation_ok [OF assms v pr(2) i] pr(2,3) Inr i show ?thesis
      by (subst (asm) homeLoop.simps) (auto simp: Let_def split: sum.splits if_splits)
  qed (use pr in \<open>subst (asm) homeLoop.simps; auto\<close>)
next
  case (Suc n)
  note pr = Suc.prems
  show ?case
  proof (cases "dbMentions D (stMentionIDs next)")
    case (Inr ms)
    let ?n = "next\<lparr>stMentions := ms\<rparr>"
    have v: "validStatus R D ?n"
      using assms(1) pr(1) Inr by (simp add: wfDB_def wfLookups_def)
    obtain r n1 c1 where i: "isVisibleConversation cfg D owner ?n c = (r, n1, c1)"
      by (metis prod.exhaust)
    note ok = isVisibleConversation_ok [OF assms v pr(2) i]
    have step: "visAgrees cfg R D c'"
      if "dbStatus D k = Inr p" "homeLoop cfg D owner st n True one p c1 = Some (e, c')" for k p one
    proof (rule Suc.IH [OF _ _ that(2)])
      show "validStatus R D p" using assms(1) that(1) by (auto simp: wfDB_def wfLookups_def)
      show "visAgrees cfg R D c1" using ok by simp
    qed
    from ok pr(2,3) Inr i show ?thesis
      by (subst (asm) homeLoop.simps)
        (auto simp: Let_def split: sum.splits if_splits dest: step)
  qed (use pr in \<open>subst (asm) homeLoop.simps; auto\<close>)
qed

lemma isStatusHomeTimelineable_agrees:
  assumes "wfDB R D" and "validReq R owner" and "validStatus R D st" and "visAgrees cfg R D c"
    and "isStatusHomeTimelineable cfg D fuel now owner st c = Some (r, c')"
  shows "visAgrees cfg R D c'"
proof -
  obtain r1 st1 c1 where 1: "statusVisible cfg D owner st c = (r1, st1, c1)"
    by (metis prod.exhaust)
  note ok = statusVisible_ok(2) [OF assms(1-4) 1] statusVisible_valid [OF assms(1,3) 1]
  note hl = homeLoop_agrees [OF assms(1) _ conjunct1 [OF ok(2)] ok(1)]
  show ?thesis
    using assms(2,4,5) ok 1 hl
    by (auto simp: isStatusHomeTimelineable_def Let_def
        split: sum.splits if_splits option.splits home_end.splits)
qed

lemma isStatusPublicTimelineable_agrees:
  assumes "wfDB R D" and "validReq R req" and "validStatus R D st" and "visAgrees cfg R D c"
    and "isStatusPublicTimelineable cfg D fuel now req st c = Some (r, c')"
  shows "visAgrees cfg R D c'"
proof -
  obtain r1 st1 c1 where 1: "statusVisible cfg D req st c = (r1, st1, c1)"
    by (metis prod.exhaust)
  show ?thesis
    using assms(4,5) statusVisible_ok(2) [OF assms(1-4) 1] 1
    by (auto simp: isStatusPublicTimelineable_def split: sum.splits if_splits)
qed

lemma timelineLookup_agrees:
  assumes "timelineLookup k load c = Some (r, c')" and "\<not> visTracked k" and "visAgrees cfg R D c"
    and "\<And>q d. load c = Some (q, d) \<Longrightarrow> visAgrees cfg R D d"
  shows "visAgrees cfg R D c'"
proof -
  obtain loaded where l: "(if c k = None then load c else Some (Inr False, c)) = Some loaded"
    using assms(1) by (auto simp: timelineLookup_def split: option.splits)
  obtain q x d where o: "loadOne ignoreErrors k () (\<lambda>_. (fst loaded, (), snd loaded)) c = (q, x, d)"
    by (metis prod.exhaust)
  have "visAgrees cfg R D (snd loaded)"
    using l assms(3,4) by (cases loaded) (auto split: if_splits)
  then have "visAgrees cfg R D d"
    using loadOne_agrees [OF _ assms(3) o] assms(2) by auto
  moreover have "c' = d" using assms(1) l o by (simp add: timelineLookup_def)
  ultimately show ?thesis by simp
qed

subsection \<open>Histories of the filter\<close>

text \<open>
  What the filter and the database go through: lookups of every kind, blocks and follows made
  and withdrawn between two accounts, statuses created, edited and deleted, each with its
  invalidation hook, and eviction.
\<close>

inductive visReach :: "host_config \<Rightarrow> rows \<Rightarrow> vis_db \<Rightarrow> vis_cache \<Rightarrow> bool" for cfg where
  start: "wfDB R D \<Longrightarrow> visReach cfg R D (\<lambda>_. None)"
| account: "visReach cfg R D c \<Longrightarrow> validReq R req \<Longrightarrow> validAcct R a \<Longrightarrow>
    accountVisible cfg D req a c = (r, c') \<Longrightarrow> visReach cfg R D c'"
| status: "visReach cfg R D c \<Longrightarrow> validReq R req \<Longrightarrow> validStatus R D st \<Longrightarrow>
    statusVisible cfg D req st c = (r, st', c') \<Longrightarrow> visReach cfg R D c'"
| home: "visReach cfg R D c \<Longrightarrow> validReq R req \<Longrightarrow> validStatus R D st \<Longrightarrow>
    statusHomeTimelineable cfg D fuel now req st c = Some (r, c') \<Longrightarrow> visReach cfg R D c'"
| public: "visReach cfg R D c \<Longrightarrow> validReq R req \<Longrightarrow> validStatus R D st \<Longrightarrow>
    statusPublicTimelineable cfg D fuel now req st c = Some (r, c') \<Longrightarrow> visReach cfg R D c'"
| block: "visReach cfg R D c \<Longrightarrow> (\<And>x y. {x, y} \<noteq> {a, b} \<Longrightarrow> f x y = dbEitherBlocked D x y) \<Longrightarrow>
    visReach cfg R (D\<lparr>dbEitherBlocked := f\<rparr>) (onInvalidateBlock a b c)"
| follow: "visReach cfg R D c \<Longrightarrow> (\<And>x y. {x, y} \<noteq> {a, b} \<Longrightarrow> f x y = dbFollowing D x y) \<Longrightarrow>
    (\<And>x y. {x, y} \<noteq> {a, b} \<Longrightarrow> g x y = dbMutual D x y) \<Longrightarrow>
    (\<And>x y. {x, y} \<noteq> {a, b} \<Longrightarrow> h x y = dbFollow D x y) \<Longrightarrow>
    visReach cfg R (D\<lparr>dbFollowing := f, dbMutual := g, dbFollow := h\<rparr>) (onInvalidateFollow a b c)"
| statusChange: "visReach cfg R D c \<Longrightarrow> (\<And>s. stID s \<noteq> i \<Longrightarrow> pop s = dbPopulate D s) \<Longrightarrow>
    wfDB (R\<lparr>rowStatus := (rowStatus R)(i := st)\<rparr>) (D\<lparr>dbPopulate := pop, dbStatus := get\<rparr>) \<Longrightarrow>
    visReach cfg (R\<lparr>rowStatus := (rowStatus R)(i := st)\<rparr>) (D\<lparr>dbPopulate := pop, dbStatus := get\<rparr>)
      (onInvalidateStatus i c)"
| evict: "visReach cfg R D c \<Longrightarrow> visReach cfg R D (c(k := None))"

lemma vis_db_sel:
  "dbUser (D\<lparr>dbEitherBlocked := f\<rparr>) = dbUser D"
  "dbDomainBlocked (D\<lparr>dbEitherBlocked := f\<rparr>) = dbDomainBlocked D"
  "dbEitherBlocked (D\<lparr>dbEitherBlocked := f\<rparr>) = f"
  "dbFollowing (D\<lparr>dbEitherBlocked := f\<rparr>) = dbFollowing D"
  "dbMutual (D\<lparr>dbEitherBlocked := f\<rparr>) = dbMutual D"
  "dbFollow (D\<lparr>dbEitherBlocked := f\<rparr>) = dbFollow D"
  "dbStatus (D\<lparr>dbEitherBlocked := f\<rparr>) = dbStatus D"
  "dbMentions (D\<lparr>dbEitherBlocked := f\<rparr>) = dbMentions D"
  "dbPopulate (D\<lparr>dbEitherBlocked := f\<rparr>) = dbPopulate D"
  "dbUser (D\<lparr>dbFollowing := g, dbMutual := h, dbFollow := k\<rparr>) = dbUser D"
  "dbDomainBlocked (D\<lparr>dbFollowing := g, dbMutual := h, dbFollow := k\<rparr>) = dbDomainBlocked D"
  "dbEitherBlocked (D\<lparr>dbFollowing := g, dbMutual := h, dbFollow := k\<rparr>) = dbEitherBlocked D"
  "dbFollowing (D\<lparr>dbFollowing := g, dbMutual := h, dbFollow := k\<rparr>) = g"
  "dbMutual (D\<lparr>dbFollowing := g, dbMutual := h, dbFollow := k\<rparr>) = h"
  "dbFollow (D\<lparr>dbFollowing := g, dbMutual := h, dbFollow := k\<rparr>) = k"
  "dbStatus (D\<lparr>dbFollowing := g, dbMutual := h, dbFollow := k\<rparr>) = dbStatus D"
  "dbMentions (D\<lparr>dbFollowing := g, dbMutual := h, dbFollow := k\<rparr>) = dbMentions D"
  "dbPopulate (D\<lparr>dbFollowing := g, dbMutual := h, dbFollow := k\<rparr>) = dbPopulate D"
  "dbUser (D\<lparr>dbPopulate := p, dbStatus := s\<rparr>) = dbUser D"
  "dbDomainBlocked (D\<lparr>dbPopulate := p, dbStatus := s\<rparr>) = dbDomainBlocked D"
  "dbEitherBlocked (D\<lparr>dbPopulate := p, dbStatus := s\<rparr>) = dbEitherBlocked D"
  "dbFollowing (D\<lparr>dbPopulate := p, dbStatus := s\<rparr>) = dbFollowing D"
  "dbMutual (D\<lparr>dbPopulate := p, dbStatus := s\<rparr>) = dbMutual D"
  "dbFollow (D\<lparr>dbPopulate := p, dbStatus := s\<rparr>) = dbFollow D"
  "dbStatus (D\<lparr>dbPopulate := p, dbStatus := s\<rparr>) = s"
  "dbMentions (D\<lparr>dbPopulate := p, dbStatus := s\<rparr>) = dbMentions D"
  "dbPopulate (D\<lparr>dbPopulate := p, dbStatus := s\<rparr>) = p"
  by simp_all

lemma isAccountVisible_rel [simp]:
  "isAccountVisible cfg (D\<lparr>dbEitherBlocked := f\<rparr>) a = isAccountVisible cfg D a"
  "isAccountVisible cfg (D\<lparr>dbFollowing := g, dbMutual := h, dbFollow := k\<rparr>) a = isAccountVisible cfg D a"
  "isAccountVisible cfg (D\<lparr>dbPopulate := p, dbStatus := s\<rparr>) a = isAccountVisible cfg D a"
  unfolding isAccountVisible_def vis_db_sel by (rule refl)+

lemma isAccountVisibleTo_rel [simp]:
  "isAccountVisibleTo cfg (D\<lparr>dbFollowing := g, dbMutual := h, dbFollow := k\<rparr>) req a =
    isAccountVisibleTo cfg D req a"
  "isAccountVisibleTo cfg (D\<lparr>dbPopulate := p, dbStatus := s\<rparr>) req a = isAccountVisibleTo cfg D req a"
  unfolding isAccountVisibleTo_def isAccountVisible_rel vis_db_sel by (rule refl)+

lemma isAccountVisibleTo_block:
  assumes "\<And>x y. {x, y} \<noteq> {a, b} \<Longrightarrow> f x y = dbEitherBlocked D x y"
    and "\<And>r. req = Some r \<Longrightarrow> acID r \<notin> {a, b}"
  shows "isAccountVisibleTo cfg (D\<lparr>dbEitherBlocked := f\<rparr>) req acc = isAccountVisibleTo cfg D req acc"
proof (cases req)
  case (Some r)
  with assms(2) have "{acID r, y} \<noteq> {a, b}" for y by auto
  then have f: "f (acID r) y = dbEitherBlocked D (acID r) y" for y by (rule assms(1))
  show ?thesis
    unfolding isAccountVisibleTo_def isAccountVisible_rel vis_db_sel Some option.case f by (rule refl)
next
  case None
  show ?thesis unfolding isAccountVisibleTo_def isAccountVisible_rel None option.case by (rule refl)
qed

lemma statusAudience_follow:
  assumes "\<And>x y. {x, y} \<noteq> {a, b} \<Longrightarrow> g x y = dbFollowing D x y"
    and "\<And>x y. {x, y} \<noteq> {a, b} \<Longrightarrow> h x y = dbMutual D x y"
    and "\<And>r. req = Some r \<Longrightarrow> acID r \<notin> {a, b}"
  shows "statusAudience (D\<lparr>dbFollowing := g, dbMutual := h, dbFollow := k\<rparr>) req st =
    statusAudience D req st"
proof (cases req)
  case (Some r)
  with assms(3) have ne: "{acID r, y} \<noteq> {a, b}" for y by auto
  have gh: "g (acID r) y = dbFollowing D (acID r) y" "h (acID r) y = dbMutual D (acID r) y" for y
    by (rule assms(1) [OF ne], rule assms(2) [OF ne])
  show ?thesis
    unfolding statusAudience_def audienceSwitch_def vis_db_sel Some option.case gh by (rule refl)
qed (simp add: statusAudience_def)

lemma statusAudience_block [simp]:
  "statusAudience (D\<lparr>dbEitherBlocked := f\<rparr>) req st = statusAudience D req st"
  unfolding statusAudience_def audienceSwitch_def vis_db_sel by (rule refl)


lemma statusSpec_block:
  assumes "\<And>x y. {x, y} \<noteq> {a, b} \<Longrightarrow> f x y = dbEitherBlocked D x y"
    and "\<And>r. req = Some r \<Longrightarrow> acID r \<notin> {a, b}"
  shows "statusSpec cfg (D\<lparr>dbEitherBlocked := f\<rparr>) req st = statusSpec cfg D req st"
proof -
  have "isAccountVisibleTo cfg (D\<lparr>dbEitherBlocked := f\<rparr>) req acc = isAccountVisibleTo cfg D req acc"
    for acc by (rule isAccountVisibleTo_block) (use assms in auto)
  then show ?thesis
    unfolding statusSpec_def statusAccountsSpec_def statusAudience_block vis_db_sel by presburger
qed

lemma statusSpec_follow:
  assumes "\<And>x y. {x, y} \<noteq> {a, b} \<Longrightarrow> g x y = dbFollowing D x y"
    and "\<And>x y. {x, y} \<noteq> {a, b} \<Longrightarrow> h x y = dbMutual D x y"
    and "\<And>r. req = Some r \<Longrightarrow> acID r \<notin> {a, b}"
  shows "statusSpec cfg (D\<lparr>dbFollowing := g, dbMutual := h, dbFollow := k\<rparr>) req st =
    statusSpec cfg D req st"
proof -
  have "statusAudience (D\<lparr>dbFollowing := g, dbMutual := h, dbFollow := k\<rparr>) req s =
      statusAudience D req s" for s by (rule statusAudience_follow) (use assms in auto)
  then show ?thesis
    unfolding statusSpec_def statusAccountsSpec_def isAccountVisibleTo_rel vis_db_sel by presburger
qed

lemma statusAudience_populate:
  "statusAudience (D\<lparr>dbPopulate := p, dbStatus := s\<rparr>) req st = statusAudience D req st"
  unfolding statusAudience_def audienceSwitch_def vis_db_sel by (rule refl)

lemma statusSpec_populate:
  assumes "p st = dbPopulate D st"
  shows "statusSpec cfg (D\<lparr>dbPopulate := p, dbStatus := s\<rparr>) req st = statusSpec cfg D req st"
  unfolding statusSpec_def statusAccountsSpec_def isAccountVisibleTo_rel vis_db_sel
    statusAudience_populate assms by (rule refl)

lemma reqOf_id: "wfDB R D \<Longrightarrow> reqOf R rid = Some r \<Longrightarrow> acID r = rid"
  by (auto simp: reqOf_def wfDB_def wfRows_def split: if_splits)

lemma wfDB_rel:
  "wfDB R D \<Longrightarrow> wfDB R (D\<lparr>dbEitherBlocked := f\<rparr>)"
  "wfDB R D \<Longrightarrow> wfDB R (D\<lparr>dbFollowing := g, dbMutual := h, dbFollow := k\<rparr>)"
  unfolding wfDB_def wfPopulate_def wfLookups_def validStatus_def vis_db_sel by assumption+

lemma visTracked_cases:
  assumes "visTracked k"
  obtains rid i where "k = (VtAccount, rid, i)" | rid i where "k = (VtStatus, rid, i)"
  using assms by (cases k rule: visTracked.cases) auto

lemma visSpec_block:
  assumes "wfDB R D" and "\<And>x y. {x, y} \<noteq> {a, b} \<Longrightarrow> f x y = dbEitherBlocked D x y"
    and "visTracked k" and "fst (snd k) \<notin> {a, b}"
  shows "visSpec cfg R (D\<lparr>dbEitherBlocked := f\<rparr>) k = visSpec cfg R D k"
proof -
  have "acID r \<notin> {a, b}" if "reqOf R (fst (snd k)) = Some r" for r
    using reqOf_id [OF assms(1) that] assms(4) by simp
  then have "isAccountVisibleTo cfg (D\<lparr>dbEitherBlocked := f\<rparr>) (reqOf R (fst (snd k))) acc =
        isAccountVisibleTo cfg D (reqOf R (fst (snd k))) acc"
      "statusSpec cfg (D\<lparr>dbEitherBlocked := f\<rparr>) (reqOf R (fst (snd k))) st =
        statusSpec cfg D (reqOf R (fst (snd k))) st" for acc st
    using isAccountVisibleTo_block [where D = D and a = a and b = b and f = f]
      statusSpec_block [where D = D and a = a and b = b and f = f] assms(2) by blast+
  with assms(3) show ?thesis by (cases k rule: visTracked_cases) simp_all
qed

lemma visSpec_follow:
  assumes "wfDB R D" and "\<And>x y. {x, y} \<noteq> {a, b} \<Longrightarrow> g x y = dbFollowing D x y"
    and "\<And>x y. {x, y} \<noteq> {a, b} \<Longrightarrow> h x y = dbMutual D x y"
    and "visTracked k" and "fst (snd k) \<notin> {a, b}"
  shows "visSpec cfg R (D\<lparr>dbFollowing := g, dbMutual := h, dbFollow := w\<rparr>) k = visSpec cfg R D k"
proof -
  have "acID r \<notin> {a, b}" if "reqOf R (fst (snd k)) = Some r" for r
    using reqOf_id [OF assms(1) that] assms(5) by simp
  then have "statusSpec cfg (D\<lparr>dbFollowing := g, dbMutual := h, dbFollow := w\<rparr>)
        (reqOf R (fst (snd k))) st = statusSpec cfg D (reqOf R (fst (snd k))) st" for st
    using statusSpec_follow [where D = D and a = a and b = b and g = g and h = h] assms(2,3) by blast
  with assms(4) show ?thesis by (cases k rule: visTracked_cases) simp_all
qed

lemma visSpec_status:
  assumes "wfDB R D" and "\<And>s. stID s \<noteq> i \<Longrightarrow> pop s = dbPopulate D s"
    and "visTracked k" and "snd (snd k) \<noteq> i"
  shows "visSpec cfg (R\<lparr>rowStatus := (rowStatus R)(i := st)\<rparr>) (D\<lparr>dbPopulate := pop, dbStatus := get\<rparr>) k =
    visSpec cfg R D k"
proof -
  have req: "reqOf (R\<lparr>rowStatus := q\<rparr>) rid = reqOf R rid" for q rid by (simp add: reqOf_def)
  have "pop (rowStatus R j) = dbPopulate D (rowStatus R j)" if "j \<noteq> i" for j
    using assms(1,2) that by (simp add: wfDB_def wfRows_def)
  with assms(3,4) show ?thesis
    by (cases k rule: visTracked_cases) (simp_all add: req statusSpec_populate)
qed

text \<open>What the hooks drop is enough for a block or a follow that changed between two accounts.\<close>

lemma visAgrees_block:
  assumes "wfDB R D" and "visAgrees cfg R D c" and "\<And>x y. {x, y} \<noteq> {a, b} \<Longrightarrow> f x y = dbEitherBlocked D x y"
  shows "visAgrees cfg R (D\<lparr>dbEitherBlocked := f\<rparr>) (onInvalidateBlock a b c)"
proof -
  have "visSpec cfg R (D\<lparr>dbEitherBlocked := f\<rparr>) k = visSpec cfg R D k"
    if "visTracked k" "fst (snd k) \<notin> {a, b}" for k
    using visSpec_block [of R D a b f k cfg] assms that by blast
  then show ?thesis
    unfolding onInvalidateBlock_def onInvalidate_pair
    by (intro agrees_invalidate [OF assms(2)]) auto
qed

lemma visAgrees_follow:
  assumes "wfDB R D" and "visAgrees cfg R D c" and "\<And>x y. {x, y} \<noteq> {a, b} \<Longrightarrow> g x y = dbFollowing D x y"
    and "\<And>x y. {x, y} \<noteq> {a, b} \<Longrightarrow> h x y = dbMutual D x y"
  shows "visAgrees cfg R (D\<lparr>dbFollowing := g, dbMutual := h, dbFollow := w\<rparr>) (onInvalidateFollow a b c)"
proof -
  have "visSpec cfg R (D\<lparr>dbFollowing := g, dbMutual := h, dbFollow := w\<rparr>) k = visSpec cfg R D k"
    if "visTracked k" "fst (snd k) \<notin> {a, b}" for k
  proof (rule visSpec_follow [where a = a and b = b])
    show "g x y = dbFollowing D x y" if "{x, y} \<noteq> {a, b}" for x y by (rule assms(3) [OF that])
    show "h x y = dbMutual D x y" if "{x, y} \<noteq> {a, b}" for x y by (rule assms(4) [OF that])
  qed (use assms(1) that in simp_all)
  then show ?thesis
    unfolding onInvalidateFollow_def onInvalidate_pair
    by (intro agrees_invalidate [OF assms(2)]) auto
qed

lemma visReach_inv: "visReach cfg R D c \<Longrightarrow> wfDB R D \<and> visAgrees cfg R D c"
proof (induction rule: visReach.induct)
  case (account R D c req a r c')
  then show ?case using accountVisible_ok by blast
next
  case (status R D c req st r st' c')
  then show ?case using statusVisible_ok(2) by blast
next
  case (home R D c req st fuel now r c')
  then show ?case
    using timelineLookup_agrees [of _ "isStatusHomeTimelineable cfg D fuel now req st" c r c' cfg R D]
      isStatusHomeTimelineable_agrees [of R D req st cfg c fuel now]
    by (simp add: statusHomeTimelineable_def)
next
  case (public R D c req st fuel now r c')
  then show ?case
    using timelineLookup_agrees [of _ "isStatusPublicTimelineable cfg D fuel now req st" c r c' cfg R D]
      isStatusPublicTimelineable_agrees [of R D req st cfg c fuel now]
    by (simp add: statusPublicTimelineable_def)
next
  case (block R D c a b f)
  have "visAgrees cfg R (D\<lparr>dbEitherBlocked := f\<rparr>) (onInvalidateBlock a b c)"
    by (rule visAgrees_block) (use block in auto)
  with block wfDB_rel(1) show ?case by blast
next
  case (follow R D c a b f g h)
  have "visAgrees cfg R (D\<lparr>dbFollowing := f, dbMutual := g, dbFollow := h\<rparr>)
      (onInvalidateFollow a b c)"
  proof (rule visAgrees_follow)
    show "f x y = dbFollowing D x y" if "{x, y} \<noteq> {a, b}" for x y by (rule follow.hyps(2) [OF that])
    show "g x y = dbMutual D x y" if "{x, y} \<noteq> {a, b}" for x y by (rule follow.hyps(3) [OF that])
  qed (use follow.IH in simp_all)
  then show ?case by (rule conjI [OF wfDB_rel(2) [OF conjunct1 [OF follow.IH]]])
next
  case (statusChange R D c i pop st get)
  have "visSpec cfg (R\<lparr>rowStatus := (rowStatus R)(i := st)\<rparr>) (D\<lparr>dbPopulate := pop, dbStatus := get\<rparr>) k =
      visSpec cfg R D k" if "visTracked k" "snd (snd k) \<noteq> i" for k
    using visSpec_status [of R D i pop k cfg st get] statusChange that by blast
  then have "visAgrees cfg (R\<lparr>rowStatus := (rowStatus R)(i := st)\<rparr>)
      (D\<lparr>dbPopulate := pop, dbStatus := get\<rparr>) (onInvalidateStatus i c)"
    unfolding onInvalidateStatus_def
    by (intro agrees_invalidate [OF conjunct2 [OF statusChange.IH]]) auto
  with statusChange show ?case by blast
next
  case (evict R D c k)
  then show ?case by (simp add: agrees_def)
qed simp


subsection \<open>Properties of the filter\<close>


definition exAcct :: "string \<Rightarrow> account" where
  "exAcct i = \<lparr>acID = i, acUsername = ''u'', acDomain = ''remote.example'', acSuspendedAt = 0, acLocked = False\<rparr>"

definition exStatusVis :: "string \<Rightarrow> visibility" where
  "exStatusVis i = (if i = ''direct'' then VisDirect else VisFollowersOnly)"

definition exStatus :: "string \<Rightarrow> status" where
  "exStatus i = \<lparr>stID = i, stAccountID = ''a'', stAccount = exAcct ''a'', stCreatedAt = 0,
     stVisibility = exStatusVis i, stMentionIDs = [], stMentions = [], stBoostOfID = [],
     stBoostOf = None, stBoostOfAccountID = [], stBoostOfAccount = exAcct [],
     stInReplyToID = [], stInReplyToURI = [], stBoostable = True\<rparr>"

definition exRows :: rows where
  "exRows = \<lparr>rowAccount = exAcct, rowStatus = exStatus\<rparr>"

definition exDB :: vis_db where
  "exDB = \<lparr>dbUser = (\<lambda>_. Inl LNoEntries), dbDomainBlocked = (\<lambda>_. Inr False),
     dbEitherBlocked = (\<lambda>_ _. Inr False),
     dbFollowing = (\<lambda>x y. Inr (x = ''b'' \<and> y = ''a'')), dbMutual = (\<lambda>_ _. Inr False),
     dbFollow = (\<lambda>x y. if x = ''b'' \<and> y = ''a''
       then Inr \<lparr>foID = ''f'', foCreatedAt = 0, foUpdatedAt = 0, foURI = ''u'', foAccountID = x, foTargetAccountID = y, foShowReblogs = True,
                 foNotify = False\<rparr> else Inl LNoEntries),
     dbStatus = (\<lambda>i. Inr (exStatus i)), dbMentions = (\<lambda>_. Inr []),
     dbPopulate = (\<lambda>st. (None, exStatus (stID st)))\<rparr>"

definition exHost :: host_config where
  "exHost = \<lparr>cfgHost = ''here.example'', cfgAccountDomain = ''here.example''\<rparr>"

lemma exDB_wf: "wfDB exRows exDB"
  by (auto simp: wfDB_def wfRows_def wfPopulate_def wfLookups_def validStatus_def exRows_def
      exDB_def exStatus_def exAcct_def sameRow_def)

lemma exDB_reach: "visReach exHost exRows exDB (\<lambda>_. None)"
  by (rule visReach.start [OF exDB_wf])

lemma exDB_valid:
  "validReq exRows (Some (exAcct ''b''))" "validReq exRows (Some (exAcct ''z''))"
  "validStatus exRows exDB (exStatus i)"
  by (simp_all add: validReq_def validStatus_def exRows_def exAcct_def noauth_def exStatus_def
      sameRow_def)


lemma statusAccountsSpec_author:
  "statusAccountsSpec cfg D req st = Inr True \<Longrightarrow> isAccountVisibleTo cfg D req (stAccount st) = Inr True"
  by (auto simp: statusAccountsSpec_def split: sum.splits bool.splits)

lemma isAccountVisibleTo_True:
  "isAccountVisibleTo cfg D req a = Inr True \<longleftrightarrow> isAccountVisible cfg D a = Inr True \<and>
    (\<forall>r. req = Some r \<longrightarrow> isAccountVisible cfg D r = Inr True \<and>
      dbEitherBlocked D (acID r) (acID a) = Inr False)"
  by (auto simp: isAccountVisibleTo_def split: sum.splits bool.splits option.splits)

definition inAudience :: "vis_db \<Rightarrow> account \<Rightarrow> status \<Rightarrow> bool" where
  "inAudience D r st \<longleftrightarrow>
     stVisibility st = VisUnlocked \<or> acID r = stAccountID st \<or> mentionsAccount (stMentions st) (acID r) \<or>
     (\<exists>b ms. stBoostOf st = Some b \<and> (ms = boMentions b \<or> dbMentions D (boMentionIDs b) = Inr ms) \<and>
        mentionsAccount ms (acID r)) \<or>
     (stVisibility st = VisFollowersOnly \<and> dbFollowing D (acID r) (stAccountID st) = Inr True) \<or>
     (stVisibility st = VisMutualsOnly \<and> dbMutual D (acID r) (stAccountID st) = Inr True)"

lemma audienceSwitch_True:
  "audienceSwitch D r st = Inr True \<longleftrightarrow>
    (stVisibility st = VisFollowersOnly \<and> dbFollowing D (acID r) (stAccountID st) = Inr True) \<or>
    (stVisibility st = VisMutualsOnly \<and> dbMutual D (acID r) (stAccountID st) = Inr True)"
  by (auto simp: audienceSwitch_def split: visibility.splits)

lemma statusAudience_True:
  "statusAudience D req st = Inr True \<Longrightarrow>
    stVisibility st = VisPublic \<or> (\<exists>r. req = Some r \<and> inAudience D r st)"
  by (auto simp: statusAudience_def inAudience_def audienceSwitch_True
      split: option.splits if_splits sum.splits)

lemma statusSpec_True:
  assumes "statusSpec cfg D req st = Inr True"
  obtains st' where "dbPopulate D st = (None, st')"
    and "isAccountVisibleTo cfg D req (stAccount st') = Inr True"
    and "stVisibility st' = VisPublic \<or> (\<exists>r. req = Some r \<and> inAudience D r st')"
proof -
  obtain e st' where p: "dbPopulate D st = (e, st')" by fastforce
  with assms have "e = None" "statusAccountsSpec cfg D req st' = Inr True"
      "statusAudience D req st' = Inr True"
    by (auto simp: statusSpec_def split: option.splits sum.splits bool.splits)
  with p statusAccountsSpec_author statusAudience_True that show ?thesis by blast
qed




text \<open>
  A status is let into a home timeline only if it is visible to the owner now, and the owner
  wrote it, is mentioned in it, or follows its author (and wants the author's boosts, where it
  is a boost).
\<close>

theorem home_timeline_sound:
  assumes "visReach cfg R D c" and "validReq R (Some owner)" and "validStatus R D st"
    and "isStatusHomeTimelineable cfg D fuel now (Some owner) st c = Some (Inr True, c')"
  shows "statusSpec cfg D (Some owner) st = Inr True \<and>
    (\<exists>st1. (st1 = st \<or> (\<exists>e. dbPopulate D st = (e, st1))) \<and>
      (stAccountID st1 = acID owner \<or> mentionsAccount (stMentions st1) (acID owner) \<or>
       (\<exists>f. dbFollow D (acID owner) (stAccountID st1) = Inr f \<and>
          (stBoostOfID st1 \<noteq> [] \<longrightarrow> foShowReblogs f))))"
proof -
  have wf: "wfDB R D" and ag: "visAgrees cfg R D c" using visReach_inv [OF assms(1)] by blast+
  obtain r st1 c1 where 1: "statusVisible cfg D (Some owner) st c = (r, st1, c1)"
    by (metis prod.exhaust)
  note spec = statusVisible_ok(1) [OF wf assms(2,3) ag 1]
  note st1 = statusVisible_valid [OF wf assms(3) 1]
  have r: "r = Inr True"
    using assms(4) 1 by (cases r) (auto simp: isStatusHomeTimelineable_def split: if_splits)
  have "homeLoop cfg D owner st1 fuel False True st1 c1 = Some (HomeReturn q, d) \<Longrightarrow> q \<noteq> Inr True" for q d
  proof -
    have "homeLoop cfg D owner s n moved one nxt e = Some (HomeReturn q, d) \<Longrightarrow> q \<noteq> Inr True"
      for s n moved one nxt e
      by (induction n arbitrary: moved one nxt e; subst (asm) homeLoop.simps)
        (auto simp: Let_def split: sum.splits if_splits prod.splits)
    then show "homeLoop cfg D owner st1 fuel False True st1 c1 = Some (HomeReturn q, d) \<Longrightarrow> q \<noteq> Inr True"
      by blast
  qed
  then have "stAccountID st1 = acID owner \<or> mentionsAccount (stMentions st1) (acID owner) \<or>
      homeFollow D owner st1 = Inr True"
    using assms(4) 1 r
    by (auto simp: isStatusHomeTimelineable_def split: if_splits option.splits home_end.splits)
  then have "stAccountID st1 = acID owner \<or> mentionsAccount (stMentions st1) (acID owner) \<or>
      (\<exists>f. dbFollow D (acID owner) (stAccountID st1) = Inr f \<and> (stBoostOfID st1 \<noteq> [] \<longrightarrow> foShowReblogs f))"
    by (auto simp: homeFollow_def split: sum.splits if_splits)
  with spec r st1 show ?thesis by metis
qed

theorem home_timeline_sound_witness:
  "isStatusHomeTimelineable exHost exDB 0 0 (Some (exAcct ''b'')) (exStatus ''s'') (\<lambda>_. None) \<noteq> None \<and>
   statusSpec exHost exDB (Some (exAcct ''b'')) (exStatus ''s'') = Inr True"
proof -
  have "fst (the (isStatusHomeTimelineable exHost exDB 0 0 (Some (exAcct ''b'')) (exStatus ''s'')
      (\<lambda>_. None))) = Inr True"
    and n: "isStatusHomeTimelineable exHost exDB 0 0 (Some (exAcct ''b'')) (exStatus ''s'') (\<lambda>_. None) \<noteq> None"
    by (code_simp, code_simp)
  then obtain c' where "isStatusHomeTimelineable exHost exDB 0 0 (Some (exAcct ''b'')) (exStatus ''s'')
      (\<lambda>_. None) = Some (Inr True, c')" by auto
  from home_timeline_sound [OF exDB_reach exDB_valid(1) exDB_valid(3) this] n show ?thesis by simp
qed

text \<open>The statuses above a status in its thread.\<close>

inductive ancestor :: "vis_db \<Rightarrow> status \<Rightarrow> status \<Rightarrow> bool" for D where
  parent: "stInReplyToURI s \<noteq> [] \<Longrightarrow> dbStatus D (stInReplyToID s) = Inr p \<Longrightarrow> ancestor D s p"
| above: "stInReplyToURI s \<noteq> [] \<Longrightarrow> dbStatus D (stInReplyToID s) = Inr q \<Longrightarrow> ancestor D q p \<Longrightarrow>
    ancestor D s p"

inductive_cases ancestorE: "ancestor D s p"

lemma publicLoop_ancestor:
  "publicLoop D st fuel s = Some (Inr True) \<Longrightarrow> ancestor D s p \<Longrightarrow> stAccountID p = stAccountID st"
proof (induction fuel arbitrary: s)
  case 0
  from 0(2) show ?case
    by (rule ancestorE) (use 0(1) in \<open>subst (asm) publicLoop.simps; auto split: if_splits\<close>)+
next
  case (Suc n)
  from Suc.prems(2) have u: "stInReplyToURI s \<noteq> []" by (rule ancestorE)
  with Suc.prems(1) obtain q where q: "dbStatus D (stInReplyToID s) = Inr q"
      "stAccountID q = stAccountID st" "publicLoop D st n q = Some (Inr True)"
    by (subst (asm) publicLoop.simps) (auto split: if_splits sum.splits)
  from Suc.prems(2) show ?case
    by (rule ancestorE) (use q Suc.IH [OF q(3)] in auto)
qed

text \<open>
  A status is let into the public timeline only if it is no boost, is visible to the
  requester now, and everything above it in its thread was written by its own author.
\<close>

theorem public_timeline_sound:
  assumes "visReach cfg R D c" and "validReq R req" and "validStatus R D st"
    and "isStatusPublicTimelineable cfg D fuel now req st c = Some (Inr True, c')"
  shows "stBoostOfID st = [] \<and> statusSpec cfg D req st = Inr True \<and>
    (\<exists>st1. (st1 = st \<or> (\<exists>e. dbPopulate D st = (e, st1))) \<and>
      (\<forall>p. ancestor D st1 p \<longrightarrow> stAccountID p = stAccountID st1))"
proof -
  have wf: "wfDB R D" and ag: "visAgrees cfg R D c" using visReach_inv [OF assms(1)] by blast+
  obtain r st1 c1 where 1: "statusVisible cfg D req st c = (r, st1, c1)" by (metis prod.exhaust)
  note spec = statusVisible_ok(1) [OF wf assms(2,3) ag 1]
  note st1 = statusVisible_valid [OF wf assms(3) 1]
  have "r = Inr True" "stBoostOfID st = []" "publicLoop D st1 fuel st1 = Some (Inr True)"
    using assms(4) 1 by (cases r; auto simp: isStatusPublicTimelineable_def split: if_splits)+
  with spec st1 publicLoop_ancestor show ?thesis by metis
qed

theorem public_timeline_sound_witness:
  "stBoostOfID (exStatus ''s'') = [] \<and> statusSpec exHost exDB (Some (exAcct ''b'')) (exStatus ''s'') = Inr True"
proof -
  have "fst (the (isStatusPublicTimelineable exHost exDB 0 0 (Some (exAcct ''b'')) (exStatus ''s'')
      (\<lambda>_. None))) = Inr True"
    and "isStatusPublicTimelineable exHost exDB 0 0 (Some (exAcct ''b'')) (exStatus ''s'') (\<lambda>_. None) \<noteq> None"
    by (code_simp, code_simp)
  then obtain c' where "isStatusPublicTimelineable exHost exDB 0 0 (Some (exAcct ''b'')) (exStatus ''s'')
      (\<lambda>_. None) = Some (Inr True, c')" by auto
  from public_timeline_sound [OF exDB_reach exDB_valid(1) exDB_valid(3) this] show ?thesis by simp
qed


subsection \<open>The walk up the thread ends\<close>

text \<open>Every parent is nearer to the top of its thread than its reply is.\<close>

definition threadDepth :: "rows \<Rightarrow> vis_db \<Rightarrow> (string \<Rightarrow> nat) \<Rightarrow> bool" where
  "threadDepth R D depth \<longleftrightarrow>
     (\<forall>i p. stInReplyToURI (rowStatus R i) \<noteq> [] \<longrightarrow>
        dbStatus D (stInReplyToID (rowStatus R i)) = Inr p \<longrightarrow> depth (stID p) < depth i)"

lemma threadDepth_parent:
  assumes "threadDepth R D depth" and "validStatus R D s" and "stInReplyToURI s \<noteq> []"
    and "dbStatus D (stInReplyToID s) = Inr p"
  shows "depth (stID p) < depth (stID s)"
  using assms unfolding threadDepth_def validStatus_def sameRow_def by metis

lemma publicLoop_returns:
  assumes "wfDB R D" and "threadDepth R D depth"
  shows "validStatus R D s \<Longrightarrow> depth (stID s) < fuel \<Longrightarrow> publicLoop D st fuel s \<noteq> None"
proof (induction fuel arbitrary: s)
  case (Suc n)
  have "publicLoop D st n p \<noteq> None"
    if "stInReplyToURI s \<noteq> []" "dbStatus D (stInReplyToID s) = Inr p" for p
  proof (rule Suc.IH)
    show "validStatus R D p" using assms(1) that(2) by (auto simp: wfDB_def wfLookups_def)
    show "depth (stID p) < n"
      using threadDepth_parent [OF assms(2) Suc.prems(1) that] Suc.prems(2) by simp
  qed
  then show ?case by (subst publicLoop.simps) (auto split: sum.splits)
qed simp

lemma isVisibleConversation_valid:
  assumes "wfDB R D" and "validStatus R D st"
    and "isVisibleConversation cfg D owner st c = (r, st', c')"
  shows "validStatus R D st' \<and> stID st' = stID st"
proof -
  obtain r1 st1 c1 where 1: "statusVisible cfg D (Some owner) st c = (r1, st1, c1)"
    by (metis prod.exhaust)
  have "st' = st1"
    using assms(3) 1 by (auto simp: isVisibleConversation_def split: sum.splits if_splits)
  with statusVisible_valid [OF assms(1,2) 1] show ?thesis by simp
qed

lemma homeLoop_returns:
  assumes "wfDB R D" and "threadDepth R D depth"
  shows "validStatus R D s \<Longrightarrow> depth (stID s) < fuel \<Longrightarrow>
    homeLoop cfg D owner st fuel moved one s c \<noteq> None"
proof (induction fuel arbitrary: s moved one c)
  case (Suc n)
  show ?case
  proof (cases "dbMentions D (stMentionIDs s)")
    case (Inr ms)
    let ?s = "s\<lparr>stMentions := ms\<rparr>"
    have v: "validStatus R D ?s"
      using assms(1) Suc.prems(1) Inr by (simp add: wfDB_def wfLookups_def)
    obtain r n1 c1 where i: "isVisibleConversation cfg D owner ?s c = (r, n1, c1)"
      by (metis prod.exhaust)
    note n1 = isVisibleConversation_valid [OF assms(1) v i]
    have "homeLoop cfg D owner st n True o1 p c1 \<noteq> None"
      if "stInReplyToURI n1 \<noteq> []" "dbStatus D (stInReplyToID n1) = Inr p" for p o1
    proof (rule Suc.IH)
      show "validStatus R D p" using assms(1) that(2) by (auto simp: wfDB_def wfLookups_def)
      show "depth (stID p) < n"
        using threadDepth_parent [OF assms(2) conjunct1 [OF n1] that] Suc.prems(2) n1 by simp
    qed
    with Inr i show ?thesis
      by (subst homeLoop.simps) (auto simp: Let_def split: sum.splits)
  qed (subst homeLoop.simps; simp)
qed simp



text \<open>
  Without that condition the walk never ends: a status stored as a reply to itself (or a cycle of
  replies by one author) keeps it going for ever, whatever the fuel.
\<close>

lemma publicLoop_cycle:
  assumes "stInReplyToURI s \<noteq> []" and "stInReplyToID s \<noteq> []" and "dbStatus D (stInReplyToID s) = Inr s"
  shows "publicLoop D s fuel s = None"
proof (induction fuel)
  case 0
  show ?case by (subst publicLoop.simps) (simp add: assms)
next
  case (Suc n)
  then show ?case by (subst publicLoop.simps) (simp add: assms)
qed

text \<open>
  The hook of a changed user reaches the entries of the account, not those of its statuses: after
  a local author is disabled, a status that was looked up before is still shown, although a
  lookup now would say no.
\<close>

definition exLocal :: account where
  "exLocal = \<lparr>acID = ''a'', acUsername = ''u'', acDomain = [], acSuspendedAt = 0, acLocked = False\<rparr>"

definition exLocalStatus :: status where
  "exLocalStatus = (exStatus ''s'')\<lparr>stVisibility := VisPublic, stAccount := exLocal\<rparr>"

definition exLocalDB :: "bool \<Rightarrow> vis_db" where
  "exLocalDB disabled = exDB\<lparr>dbUser := (\<lambda>_. Inr \<lparr>usDisabled = disabled, usApproved = True, usConfirmedAt = 1\<rparr>),
     dbPopulate := (\<lambda>st. (None, exLocalStatus))\<rparr>"

lemma disabled_author_still_shown:
  "fst (statusVisible exHost (exLocalDB True) None exLocalStatus
     (onInvalidateUser ''a''
       (snd (snd (statusVisible exHost (exLocalDB False) None exLocalStatus (\<lambda>_. None)))))) = Inr True \<and>
   statusSpec exHost (exLocalDB True) None exLocalStatus = Inr False"
  by code_simp

end
