(* ===== verification/Relationships.thy ===== *)
theory Relationships
  imports Tables Visibility Paging
begin

text \<open>
  Follows, follow requests and blocks in the database: \<open>relationship.go\<close>,
  \<open>relationship_follow.go\<close>, \<open>relationship_follow_req.go\<close> and \<open>relationship_block.go\<close> of
  \<open>src/internal/db/bundb\<close>, with the deletion of list entries of \<open>list.go\<close> and of notifications
  of \<open>notification.go\<close> that they call, the caches of \<open>src/internal/cache/db.go\<close> in front of the
  tables, and the hooks of \<open>src/internal/cache/invalidate.go\<close> that keep the caches together.

  The state holds each table with its cache, the slice caches of IDs, the visibility cache, the
  list timelines that were dropped and the faults still to come. The rows carry no pointers:
  populating a row with its accounts is looking them up with \<open>acct\<close>, the account lookup of the
  database.
\<close>

subsection \<open>Indices and state\<close>

definition idIndex :: "('v \<Rightarrow> string) \<Rightarrow> 'v sindex" where
  "idIndex get = \<lparr>ixName = ''ID'', ixFields = (\<lambda>v. [get v]), ixMultiple = False, ixAllowZero = False\<rparr>"

definition uriIndex :: "('v \<Rightarrow> string) \<Rightarrow> 'v sindex" where
  "uriIndex get = \<lparr>ixName = ''URI'', ixFields = (\<lambda>v. [get v]), ixMultiple = False, ixAllowZero = False\<rparr>"

definition pairIndex :: "('v \<Rightarrow> string) \<Rightarrow> ('v \<Rightarrow> string) \<Rightarrow> 'v sindex" where
  "pairIndex src tgt = \<lparr>ixName = ''AccountID,TargetAccountID'', ixFields = (\<lambda>v. [src v, tgt v]),
     ixMultiple = False, ixAllowZero = False\<rparr>"

definition multiIndex :: "string \<Rightarrow> ('v \<Rightarrow> string) \<Rightarrow> 'v sindex" where
  "multiIndex name get = \<lparr>ixName = name, ixFields = (\<lambda>v. [get v]), ixMultiple = True, ixAllowZero = False\<rparr>"

definition followIxs :: "follow sindex list" where
  "followIxs = [idIndex foID, uriIndex foURI, pairIndex foAccountID foTargetAccountID,
     multiIndex ''AccountID'' foAccountID, multiIndex ''TargetAccountID'' foTargetAccountID]"

definition requestIxs :: "follow_request sindex list" where
  "requestIxs = [idIndex frID, uriIndex frURI, pairIndex frAccountID frTargetAccountID,
     multiIndex ''AccountID'' frAccountID, multiIndex ''TargetAccountID'' frTargetAccountID]"

definition blockIxs :: "block sindex list" where
  "blockIxs = [idIndex blID, uriIndex blURI, pairIndex blAccountID blTargetAccountID,
     multiIndex ''AccountID'' blAccountID, multiIndex ''TargetAccountID'' blTargetAccountID]"

definition entryIxs :: "list_entry sindex list" where
  "entryIxs = [idIndex leID, multiIndex ''ListID'' leListID, multiIndex ''FollowID'' leFollowID]"

type_synonym slices = "string \<rightharpoonup> string list"

record relstate =
  rsFollows :: "follow table"
  rsRequests :: "follow_request table"
  rsBlocks :: "block table"
  rsEntries :: "list_entry table"
  rsNotifs :: "notif list"
  rsLocalIDs :: "string list"
  rsFollowIDs :: slices
  rsRequestIDs :: slices
  rsBlockIDs :: slices
  rsVis :: vis_cache
  rsDropped :: "string list"
  rsFaults :: faults

definition key1 :: "string \<Rightarrow> string \<Rightarrow> ixkey" where
  "key1 name x = (name, if x = [] then None else Some [x])"

definition pairKey :: "string \<Rightarrow> string \<Rightarrow> ixkey" where
  "pairKey x y = (''AccountID,TargetAccountID'', if x = [] \<or> y = [] then None else Some [x, y])"

definition invalidateSlices :: "string list \<Rightarrow> slices \<Rightarrow> slices" where
  "invalidateSlices ks m = (\<lambda>k. if k \<in> set ks then None else m k)"

subsection \<open>The invalidation hooks\<close>

lemma dropKey_shrinks:
  "dropKey k t = (v # vs, t') \<Longrightarrow> length (tbCache t') < length (tbCache t)"
proof -
  assume a: "dropKey k t = (v # vs, t')"
  have "holders k (tbCache t) \<noteq> []"
  proof
    assume h: "holders k (tbCache t) = []"
    then show False using a deleteFirst_no_holder [OF h] by (simp add: dropKey_def invalidateKey_def)
  qed
  then have "0 < length (holders k (tbCache t))" by simp
  moreover have "length (holders k (tbCache t)) \<le> length (tbCache t)" by (simp add: holders_def)
  moreover have "length (tbCache t') = length (tbCache t) -
      (length (holders k (tbCache t)) - length (holders k (tbCache t)) div 2)"
    using a length_invalidateKey [of k "tbCache t"] by (auto simp: dropKey_def split: prod.splits)
  ultimately show ?thesis by linarith
qed

text \<open>
  \<open>OnInvalidateFollow\<close> and \<open>OnInvalidateFollowRequest\<close>, which call each other through the
  caches. \<open>Invalidate\<close> on the unique index of IDs hands over one value at most.
\<close>

definition followSliceKeys :: "string \<Rightarrow> string \<Rightarrow> string list" where
  "followSliceKeys a b =
     [''>'' @ a, ''l>'' @ a, ''<'' @ a, ''l<'' @ a, ''<'' @ b, ''l<'' @ b, ''>'' @ b, ''l>'' @ b]"

definition requestSliceKeys :: "string \<Rightarrow> string \<Rightarrow> string list" where
  "requestSliceKeys a b = [''>'' @ a, ''<'' @ a, ''>'' @ b, ''<'' @ b]"

definition dropRequestC :: "ixkey \<Rightarrow> relstate \<Rightarrow> follow_request list \<times> relstate" where
  "dropRequestC k st = (let (vs, t) = dropKey k (rsRequests st) in (vs, st\<lparr>rsRequests := t\<rparr>))"

definition dropFollowC :: "ixkey \<Rightarrow> relstate \<Rightarrow> follow list \<times> relstate" where
  "dropFollowC k st = (let (vs, t) = dropKey k (rsFollows st) in (vs, st\<lparr>rsFollows := t\<rparr>))"

definition followRest :: "follow \<Rightarrow> relstate \<Rightarrow> relstate" where
  "followRest f st =
     st\<lparr>rsEntries := snd (dropKey (key1 ''FollowID'' (foID f)) (rsEntries st)),
        rsVis := onInvalidateFollow (foAccountID f) (foTargetAccountID f) (rsVis st),
        rsFollowIDs := invalidateSlices (followSliceKeys (foAccountID f) (foTargetAccountID f)) (rsFollowIDs st)\<rparr>"

definition requestRest :: "follow_request \<Rightarrow> relstate \<Rightarrow> relstate" where
  "requestRest r st =
     st\<lparr>rsRequestIDs := invalidateSlices (requestSliceKeys (frAccountID r) (frTargetAccountID r)) (rsRequestIDs st)\<rparr>"

function hookFollow :: "follow \<Rightarrow> relstate \<Rightarrow> relstate"
  and hookRequest :: "follow_request \<Rightarrow> relstate \<Rightarrow> relstate" where
  "hookFollow f st =
     followRest f
       (case dropRequestC (key1 ''ID'' (foID f)) st of
          ([], st1) \<Rightarrow> st1
        | (r # _, st1) \<Rightarrow> hookRequest r st1)"
| "hookRequest r st =
     requestRest r
       (case dropFollowC (key1 ''ID'' (frID r)) st of
          ([], st1) \<Rightarrow> st1
        | (f # _, st1) \<Rightarrow> hookFollow f st1)"
  by pat_completeness auto
termination
proof (relation "measure (\<lambda>x. case x of
      Inl (_, st) \<Rightarrow> length (tbCache (rsFollows st)) + length (tbCache (rsRequests st))
    | Inr (_, st) \<Rightarrow> length (tbCache (rsFollows st)) + length (tbCache (rsRequests st)))")
qed (auto simp: dropRequestC_def dropFollowC_def dest!: dropKey_shrinks split: prod.splits)

declare hookFollow.simps [simp del] hookRequest.simps [simp del]

definition hookBlock :: "block \<Rightarrow> relstate \<Rightarrow> relstate" where
  "hookBlock b st =
     st\<lparr>rsVis := onInvalidateBlock (blAccountID b) (blTargetAccountID b) (rsVis st),
        rsBlockIDs := invalidateSlices [blAccountID b] (rsBlockIDs st)\<rparr>"

definition invalidateFollow :: "ixkey \<Rightarrow> relstate \<Rightarrow> relstate" where
  "invalidateFollow k st = (let (vs, st') = dropFollowC k st in fold hookFollow vs st')"

definition invalidateRequest :: "ixkey \<Rightarrow> relstate \<Rightarrow> relstate" where
  "invalidateRequest k st = (let (vs, st') = dropRequestC k st in fold hookRequest vs st')"

definition invalidateBlock :: "ixkey \<Rightarrow> relstate \<Rightarrow> relstate" where
  "invalidateBlock k st =
     (let (vs, t) = dropKey k (rsBlocks st) in fold hookBlock vs (st\<lparr>rsBlocks := t\<rparr>))"

subsection \<open>Lookups\<close>

text \<open>\<open>errors.Is(err, db.ErrNoEntries)\<close> turned into "no row", as most callers do.\<close>

definition noEntriesOK :: "(lookup_error + 'a) \<times> 's \<Rightarrow> (lookup_error + 'a option) \<times> 's" where
  "noEntriesOK r =
     (case r of
        (Inl e, st) \<Rightarrow> (if e = LNoEntries then Inr None else Inl e, st) | (Inr a, st) \<Rightarrow> (Inr (Some a), st))"

text \<open>The errors of both accounts are combined; \<open>errors.Is\<close> finds each of them.\<close>

definition populateErr :: "(string \<Rightarrow> lookup_error + account) \<Rightarrow> string \<Rightarrow> string \<Rightarrow> lookup_error option" where
  "populateErr acct a b =
     (case acct a of
        Inr _ \<Rightarrow> (case acct b of Inr _ \<Rightarrow> None | Inl e \<Rightarrow> Some e)
      | Inl e \<Rightarrow> (case acct b of Inr _ \<Rightarrow> Some e | Inl e' \<Rightarrow> Some (if e' = LNoEntries then e' else e)))"

definition populateFollow where
  "populateFollow acct f = populateErr acct (foAccountID f) (foTargetAccountID f)"

definition populateFollowRequest where
  "populateFollowRequest acct r = populateErr acct (frAccountID r) (frTargetAccountID r)"

definition populateBlock where
  "populateBlock acct b = populateErr acct (blAccountID b) (blTargetAccountID b)"

definition populated :: "('v \<Rightarrow> lookup_error option) \<Rightarrow> (lookup_error + 'v) \<times> 's \<Rightarrow> (lookup_error + 'v) \<times> 's" where
  "populated pop r = andThen r (\<lambda>v st. case pop v of Some e \<Rightarrow> (Inl e, st) | None \<Rightarrow> (Inr v, st))"

text \<open>
  \<open>getFollow\<close> and its siblings up to the check for a barebones context; the functions named
  after the exported ones with a prime below are the calls in such a context.
\<close>

definition loadFollow :: "string \<Rightarrow> string list \<Rightarrow> (follow \<Rightarrow> bool) \<Rightarrow> relstate \<Rightarrow> (lookup_error + follow) \<times> relstate" where
  "loadFollow lookup parts P st =
     (let (r, fs, t) = loadRow followIxs lookup parts P (rsFaults st) (rsFollows st)
      in (r, st\<lparr>rsFollows := t, rsFaults := fs\<rparr>))"

definition loadRequest :: "string \<Rightarrow> string list \<Rightarrow> (follow_request \<Rightarrow> bool) \<Rightarrow> relstate \<Rightarrow>
    (lookup_error + follow_request) \<times> relstate" where
  "loadRequest lookup parts P st =
     (let (r, fs, t) = loadRow requestIxs lookup parts P (rsFaults st) (rsRequests st)
      in (r, st\<lparr>rsRequests := t, rsFaults := fs\<rparr>))"

definition loadBlock :: "string \<Rightarrow> string list \<Rightarrow> (block \<Rightarrow> bool) \<Rightarrow> relstate \<Rightarrow> (lookup_error + block) \<times> relstate" where
  "loadBlock lookup parts P st =
     (let (r, fs, t) = loadRow blockIxs lookup parts P (rsFaults st) (rsBlocks st)
      in (r, st\<lparr>rsBlocks := t, rsFaults := fs\<rparr>))"

definition getFollowByID' where
  "getFollowByID' i = loadFollow ''ID'' [i] (\<lambda>f. foID f = i)"

definition getFollowByURI' where
  "getFollowByURI' u = loadFollow ''URI'' [u] (\<lambda>f. foURI f = u)"

definition getFollow' where
  "getFollow' src tgt = loadFollow ''AccountID,TargetAccountID'' [src, tgt]
     (\<lambda>f. foAccountID f = src \<and> foTargetAccountID f = tgt)"

definition getFollowByID where
  "getFollowByID acct i st = populated (populateFollow acct) (getFollowByID' i st)"

definition getFollowByURI where
  "getFollowByURI acct u st = populated (populateFollow acct) (getFollowByURI' u st)"

definition getFollow where
  "getFollow acct src tgt st = populated (populateFollow acct) (getFollow' src tgt st)"

definition getFollowRequestByID' where
  "getFollowRequestByID' i = loadRequest ''ID'' [i] (\<lambda>r. frID r = i)"

definition getFollowRequestByURI' where
  "getFollowRequestByURI' u = loadRequest ''URI'' [u] (\<lambda>r. frURI r = u)"

definition getFollowRequest' where
  "getFollowRequest' src tgt = loadRequest ''AccountID,TargetAccountID'' [src, tgt]
     (\<lambda>r. frAccountID r = src \<and> frTargetAccountID r = tgt)"

definition getFollowRequestByID where
  "getFollowRequestByID acct i st = populated (populateFollowRequest acct) (getFollowRequestByID' i st)"

definition getFollowRequestByURI where
  "getFollowRequestByURI acct u st = populated (populateFollowRequest acct) (getFollowRequestByURI' u st)"

definition getFollowRequest where
  "getFollowRequest acct src tgt st = populated (populateFollowRequest acct) (getFollowRequest' src tgt st)"

definition getBlockByID' where
  "getBlockByID' i = loadBlock ''ID'' [i] (\<lambda>b. blID b = i)"

definition getBlockByURI' where
  "getBlockByURI' u = loadBlock ''URI'' [u] (\<lambda>b. blURI b = u)"

definition getBlock' where
  "getBlock' src tgt = loadBlock ''AccountID,TargetAccountID'' [src, tgt]
     (\<lambda>b. blAccountID b = src \<and> blTargetAccountID b = tgt)"

definition getBlockByID where
  "getBlockByID acct i st = populated (populateBlock acct) (getBlockByID' i st)"

definition getBlockByURI where
  "getBlockByURI acct u st = populated (populateBlock acct) (getBlockByURI' u st)"

definition getBlock where
  "getBlock acct src tgt st = populated (populateBlock acct) (getBlock' src tgt st)"

definition isFollowing :: "string \<Rightarrow> string \<Rightarrow> relstate \<Rightarrow> (lookup_error + bool) \<times> relstate" where
  "isFollowing src tgt st = andThen (noEntriesOK (getFollow' src tgt st)) (\<lambda>f st'. (Inr (f \<noteq> None), st'))"

definition isMutualFollowing :: "string \<Rightarrow> string \<Rightarrow> relstate \<Rightarrow> (lookup_error + bool) \<times> relstate" where
  "isMutualFollowing a b st =
     andThen (isFollowing a b st) (\<lambda>f1 st1. if \<not> f1 then (Inr False, st1) else
       andThen (isFollowing b a st1) (\<lambda>f2 st2. if \<not> f2 then (Inr False, st2) else (Inr True, st2)))"

definition isFollowRequested :: "string \<Rightarrow> string \<Rightarrow> relstate \<Rightarrow> (lookup_error + bool) \<times> relstate" where
  "isFollowRequested src tgt st =
     andThen (noEntriesOK (getFollowRequest' src tgt st)) (\<lambda>r st'. (Inr (r \<noteq> None), st'))"

definition isBlocked :: "string \<Rightarrow> string \<Rightarrow> relstate \<Rightarrow> (lookup_error + bool) \<times> relstate" where
  "isBlocked src tgt st = andThen (noEntriesOK (getBlock' src tgt st)) (\<lambda>b st'. (Inr (b \<noteq> None), st'))"

text \<open>Go returns \<open>true\<close> with the error; callers only read the error then.\<close>

definition isEitherBlocked :: "string \<Rightarrow> string \<Rightarrow> relstate \<Rightarrow> (lookup_error + bool) \<times> relstate" where
  "isEitherBlocked a b st =
     andThen (isBlocked a b st) (\<lambda>b1 st1. if b1 then (Inr True, st1) else
       andThen (isBlocked b a st1) (\<lambda>b2 st2. if b2 then (Inr True, st2) else (Inr False, st2)))"

text \<open>\<open>util.OrderBy\<close>: rows in the order of the IDs; the last position of an ID counts.\<close>

fun lastPos :: "nat \<Rightarrow> nat \<Rightarrow> string list \<Rightarrow> string \<Rightarrow> nat" where
  "lastPos i p [] x = p"
| "lastPos i p (k # ks) x = lastPos (i + 1) (if k = x then i else p) ks x"

definition orderBy :: "string list \<Rightarrow> ('v \<Rightarrow> string) \<Rightarrow> 'v list \<Rightarrow> 'v list" where
  "orderBy ids get vs = sort_key (\<lambda>v. lastPos 0 0 ids (get v)) vs"

text \<open>Rows that cannot be populated are left out.\<close>

definition getFollowsByIDs where
  "getFollowsByIDs acct ids st =
     (let (r, fs, t) = loadRows (idIndex foID) followIxs ids (rsFaults st) (rsFollows st);
          st' = st\<lparr>rsFollows := t, rsFaults := fs\<rparr>
      in andThen (r, st') (\<lambda>vs s. (Inr (filter (\<lambda>f. populateFollow acct f = None) (orderBy ids foID vs)), s)))"

definition getFollowRequestsByIDs where
  "getFollowRequestsByIDs acct ids st =
     (let (r, fs, t) = loadRows (idIndex frID) requestIxs ids (rsFaults st) (rsRequests st);
          st' = st\<lparr>rsRequests := t, rsFaults := fs\<rparr>
      in andThen (r, st') (\<lambda>vs s. (Inr (filter (\<lambda>x. populateFollowRequest acct x = None) (orderBy ids frID vs)), s)))"

definition getBlocksByIDs where
  "getBlocksByIDs acct ids st =
     (let (r, fs, t) = loadRows (idIndex blID) blockIxs ids (rsFaults st) (rsBlocks st);
          st' = st\<lparr>rsBlocks := t, rsFaults := fs\<rparr>
      in andThen (r, st') (\<lambda>vs s. (Inr (filter (\<lambda>b. populateBlock acct b = None) (orderBy ids blID vs)), s)))"

subsection \<open>Lists of IDs\<close>

definition loadSlice :: "string \<Rightarrow> string list \<Rightarrow> faults \<Rightarrow> slices \<Rightarrow> (lookup_error + string list) \<times> faults \<times> slices" where
  "loadSlice key select fs m =
     (case m key of
        Some xs \<Rightarrow> (Inr xs, fs, m)
      | None \<Rightarrow>
          (case nextFault fs of
             (Some e, fs') \<Rightarrow> (Inl e, fs', m)
           | (None, fs') \<Rightarrow> (Inr select, fs', m(key \<mapsto> select))))"

definition loadPagedIDs :: "string \<Rightarrow> page option \<Rightarrow> string list \<Rightarrow> faults \<Rightarrow> slices \<Rightarrow>
    (lookup_error + string list) \<times> faults \<times> slices" where
  "loadPagedIDs key po select fs m =
     (case loadSlice key select fs m of
        (Inl e, fs', m') \<Rightarrow> (Inl e, fs', m')
      | (Inr ids, fs', m') \<Rightarrow>
          (Inr (pageSlice po (if getOrder po = OrderAscending then rev ids else ids)), fs', m'))"

definition descIDs :: "string list \<Rightarrow> string list" where
  "descIDs ids = rev (sort ids)"

definition byCreated :: "follow list \<Rightarrow> string list" where
  "byCreated fs = map foID (sort_key (\<lambda>f. - foCreatedAt f) fs)"

definition newSelectFollows where
  "newSelectFollows a rows = byCreated (filter (\<lambda>f. foAccountID f = a) rows)"

definition newSelectLocalFollows where
  "newSelectLocalFollows loc a rows =
     byCreated (filter (\<lambda>f. foAccountID f = a \<and> foTargetAccountID f \<in> set loc) rows)"

definition newSelectFollowers where
  "newSelectFollowers a rows = byCreated (filter (\<lambda>f. foTargetAccountID f = a) rows)"

definition newSelectLocalFollowers where
  "newSelectLocalFollowers loc a rows =
     byCreated (filter (\<lambda>f. foTargetAccountID f = a \<and> foAccountID f \<in> set loc) rows)"

definition newSelectFollowRequests where
  "newSelectFollowRequests a rows = descIDs (map frID (filter (\<lambda>r. frTargetAccountID r = a) rows))"

text \<open>As written: the column is the target account here too.\<close>

definition newSelectFollowRequesting where
  "newSelectFollowRequesting a rows = descIDs (map frID (filter (\<lambda>r. frTargetAccountID r = a) rows))"

definition newSelectBlocks where
  "newSelectBlocks a rows = descIDs (map blID (filter (\<lambda>b. blAccountID b = a) rows))"

definition withFollowIDs where
  "withFollowIDs f st = (let (r, fs, m) = f (rsFaults st) (rsFollowIDs st) in (r, st\<lparr>rsFaults := fs, rsFollowIDs := m\<rparr>))"

definition withRequestIDs where
  "withRequestIDs f st = (let (r, fs, m) = f (rsFaults st) (rsRequestIDs st) in (r, st\<lparr>rsFaults := fs, rsRequestIDs := m\<rparr>))"

definition withBlockIDs where
  "withBlockIDs f st = (let (r, fs, m) = f (rsFaults st) (rsBlockIDs st) in (r, st\<lparr>rsFaults := fs, rsBlockIDs := m\<rparr>))"

definition getAccountFollowIDs where
  "getAccountFollowIDs a po st =
     withFollowIDs (loadPagedIDs (''>'' @ a) po (newSelectFollows a (tbRows (rsFollows st)))) st"

definition getAccountLocalFollowIDs where
  "getAccountLocalFollowIDs a st =
     withFollowIDs (loadSlice (''l>'' @ a) (newSelectLocalFollows (rsLocalIDs st) a (tbRows (rsFollows st)))) st"

definition getAccountFollowerIDs where
  "getAccountFollowerIDs a po st =
     withFollowIDs (loadPagedIDs (''<'' @ a) po (newSelectFollowers a (tbRows (rsFollows st)))) st"

definition getAccountLocalFollowerIDs where
  "getAccountLocalFollowerIDs a st =
     withFollowIDs (loadSlice (''l<'' @ a) (newSelectLocalFollowers (rsLocalIDs st) a (tbRows (rsFollows st)))) st"

definition getAccountFollowRequestIDs where
  "getAccountFollowRequestIDs a po st =
     withRequestIDs (loadPagedIDs (''>'' @ a) po (newSelectFollowRequests a (tbRows (rsRequests st)))) st"

definition getAccountFollowRequestingIDs where
  "getAccountFollowRequestingIDs a po st =
     withRequestIDs (loadPagedIDs (''<'' @ a) po (newSelectFollowRequesting a (tbRows (rsRequests st)))) st"

definition getAccountBlockIDs where
  "getAccountBlockIDs a po st =
     withBlockIDs (loadPagedIDs a po (newSelectBlocks a (tbRows (rsBlocks st)))) st"

definition getAccountFollows where
  "getAccountFollows acct a po st = andThen (getAccountFollowIDs a po st) (getFollowsByIDs acct)"

definition getAccountLocalFollows where
  "getAccountLocalFollows acct a st = andThen (getAccountLocalFollowIDs a st) (getFollowsByIDs acct)"

definition getAccountFollowers where
  "getAccountFollowers acct a po st = andThen (getAccountFollowerIDs a po st) (getFollowsByIDs acct)"

definition getAccountLocalFollowers where
  "getAccountLocalFollowers acct a st = andThen (getAccountLocalFollowerIDs a st) (getFollowsByIDs acct)"

definition getAccountFollowRequests where
  "getAccountFollowRequests acct a po st = andThen (getAccountFollowRequestIDs a po st) (getFollowRequestsByIDs acct)"

definition getAccountFollowRequesting where
  "getAccountFollowRequesting acct a po st = andThen (getAccountFollowRequestingIDs a po st) (getFollowRequestsByIDs acct)"

definition getAccountBlocks where
  "getAccountBlocks acct a po st = andThen (getAccountBlockIDs a po st) (getBlocksByIDs acct)"

subsection \<open>Follows: insertion, update, deletion\<close>

definition putFollow :: "follow \<Rightarrow> relstate \<Rightarrow> lookup_error option \<times> relstate" where
  "putFollow f st =
     (let (e, fs, t) = storeRow followIxs f (insertRow followIxs f) (rsFaults st) (rsFollows st)
      in (e, hookFollow f (st\<lparr>rsFollows := t, rsFaults := fs\<rparr>)))"

text \<open>One column of an \<open>UPDATE\<close>; the columns the program names.\<close>

definition followCol :: "follow \<Rightarrow> string \<Rightarrow> follow \<Rightarrow> follow" where
  "followCol new c old =
     (if c = ''show_reblogs'' then old\<lparr>foShowReblogs := foShowReblogs new\<rparr>
      else if c = ''notify'' then old\<lparr>foNotify := foNotify new\<rparr>
      else if c = ''updated_at'' then old\<lparr>foUpdatedAt := foUpdatedAt new\<rparr>
      else if c = ''uri'' then old\<lparr>foURI := foURI new\<rparr>
      else old)"

definition updateFollow :: "time \<Rightarrow> follow \<Rightarrow> string list \<Rightarrow> relstate \<Rightarrow> lookup_error option \<times> relstate" where
  "updateFollow now f columns st =
     (let f' = f\<lparr>foUpdatedAt := now\<rparr>;
          cols = (if columns \<noteq> [] then columns @ [''updated_at''] else []);
          (e, fs, t) = storeRow followIxs f'
             (updateRow (\<lambda>r. foID r = foID f') (\<lambda>r. if cols = [] then f' else fold (followCol f') cols r))
             (rsFaults st) (rsFollows st)
      in (e, hookFollow f' (st\<lparr>rsFollows := t, rsFaults := fs\<rparr>)))"

definition deleteListEntry :: "string \<Rightarrow> relstate \<Rightarrow> lookup_error option \<times> relstate" where
  "deleteListEntry i st =
     (let (r, fs, t) = loadRow entryIxs ''ID'' [i] (\<lambda>e. leID e = i) (rsFaults st) (rsEntries st)
      in case r of
           Inl e \<Rightarrow> (if e = LNoEntries then None else Some e, st\<lparr>rsEntries := t, rsFaults := fs\<rparr>)
         | Inr en \<Rightarrow>
             (let (err, fs', t') = execDelete (\<lambda>e. leID e = i) fs t
              in (err, st\<lparr>rsEntries := snd (dropKey (key1 ''ID'' i) t'), rsFaults := fs',
                          rsDropped := rsDropped st @ [leListID en]\<rparr>)))"

fun deleteEntries :: "string list \<Rightarrow> relstate \<Rightarrow> lookup_error option \<times> relstate" where
  "deleteEntries [] st = (None, st)"
| "deleteEntries (i # is) st =
     (case deleteListEntry i st of (Some e, st') \<Rightarrow> (Some e, st') | (None, st') \<Rightarrow> deleteEntries is st')"

definition deleteListEntriesForFollowID :: "string \<Rightarrow> relstate \<Rightarrow> lookup_error option \<times> relstate" where
  "deleteListEntriesForFollowID i st =
     (case nextFault (rsFaults st) of
        (Some e, fs) \<Rightarrow> (Some e, st\<lparr>rsFaults := fs\<rparr>)
      | (None, fs) \<Rightarrow>
          deleteEntries (descIDs (map leID (filter (\<lambda>e. leFollowID e = i) (tbRows (rsEntries st)))))
            (st\<lparr>rsFaults := fs\<rparr>))"

text \<open>The unexported \<open>deleteFollow\<close>.\<close>

definition deleteFollowRow :: "string \<Rightarrow> relstate \<Rightarrow> lookup_error option \<times> relstate" where
  "deleteFollowRow i st =
     (let (e, fs, t) = execDelete (\<lambda>f. foID f = i) (rsFaults st) (rsFollows st);
          st' = st\<lparr>rsFollows := t, rsFaults := fs\<rparr>
      in case e of Some err \<Rightarrow> (Some err, st') | None \<Rightarrow> deleteListEntriesForFollowID i st')"

text \<open>The common body of the three deletions; the deferred invalidation runs on every return.\<close>

definition deleteFollowVia :: "ixkey \<Rightarrow> (lookup_error + follow) \<times> relstate \<Rightarrow> lookup_error option \<times> relstate" where
  "deleteFollowVia k found =
     (case found of
        (Inl e, st) \<Rightarrow> (if e = LNoEntries then None else Some e, st)
      | (Inr f, st) \<Rightarrow> (let (e, st') = deleteFollowRow (foID f) st in (e, invalidateFollow k st')))"

definition deleteFollow where
  "deleteFollow src tgt st = deleteFollowVia (pairKey src tgt) (getFollow' src tgt st)"

definition deleteFollowByID where
  "deleteFollowByID i st = deleteFollowVia (key1 ''ID'' i) (getFollowByID' i st)"

definition deleteFollowByURI where
  "deleteFollowByURI u st = deleteFollowVia (key1 ''URI'' u) (getFollowByURI' u st)"

fun deleteEntriesOf :: "string list \<Rightarrow> relstate \<Rightarrow> lookup_error option \<times> relstate" where
  "deleteEntriesOf [] st = (None, st)"
| "deleteEntriesOf (i # is) st =
     (case deleteListEntriesForFollowID i st of
        (Some e, st') \<Rightarrow> (Some e, st') | (None, st') \<Rightarrow> deleteEntriesOf is st')"

text \<open>\<open>err != nil && !errors.Is(err, db.ErrNoEntries)\<close>\<close>

definition realError :: "lookup_error + 'a \<Rightarrow> bool" where
  "realError r = (case r of Inl e \<Rightarrow> e \<noteq> LNoEntries | Inr _ \<Rightarrow> False)"

definition deleteAccountFollows where
  "deleteAccountFollows acct a st =
     (case nextFault (rsFaults st) of
        (Some e, fs) \<Rightarrow> (Some e, st\<lparr>rsFaults := fs\<rparr>)
      | (None, fs) \<Rightarrow>
          (let ids = map foID (filter (\<lambda>f. foAccountID f = a \<or> foTargetAccountID f = a) (tbRows (rsFollows st)));
               (e, st') =
                 (case getAccountFollows acct a None (st\<lparr>rsFaults := fs\<rparr>) of
                    (r, st1) \<Rightarrow>
                      if realError r then (Some (projl r), st1)
                      else
                        (let (e, fs2, t) = execDelete (\<lambda>f. foID f \<in> set ids) (rsFaults st1) (rsFollows st1);
                             st2 = st1\<lparr>rsFollows := t, rsFaults := fs2\<rparr>
                         in case e of Some err \<Rightarrow> (Some err, st2) | None \<Rightarrow> deleteEntriesOf ids st2))
           in (e, invalidateFollow (key1 ''TargetAccountID'' a) (invalidateFollow (key1 ''AccountID'' a) st'))))"

subsection \<open>Follow requests\<close>

definition putFollowRequest :: "follow_request \<Rightarrow> relstate \<Rightarrow> lookup_error option \<times> relstate" where
  "putFollowRequest r st =
     (let (e, fs, t) = storeRow requestIxs r (insertRow requestIxs r) (rsFaults st) (rsRequests st)
      in (e, hookRequest r (st\<lparr>rsRequests := t, rsFaults := fs\<rparr>)))"

definition requestCol :: "follow_request \<Rightarrow> string \<Rightarrow> follow_request \<Rightarrow> follow_request" where
  "requestCol new c old =
     (if c = ''show_reblogs'' then old\<lparr>frShowReblogs := frShowReblogs new\<rparr>
      else if c = ''notify'' then old\<lparr>frNotify := frNotify new\<rparr>
      else if c = ''updated_at'' then old\<lparr>frUpdatedAt := frUpdatedAt new\<rparr>
      else if c = ''uri'' then old\<lparr>frURI := frURI new\<rparr>
      else old)"

definition updateFollowRequest :: "time \<Rightarrow> follow_request \<Rightarrow> string list \<Rightarrow> relstate \<Rightarrow>
    lookup_error option \<times> relstate" where
  "updateFollowRequest now r columns st =
     (let r' = r\<lparr>frUpdatedAt := now\<rparr>;
          cols = (if columns \<noteq> [] then columns @ [''updated_at''] else []);
          (e, fs, t) = storeRow requestIxs r'
             (updateRow (\<lambda>x. frID x = frID r') (\<lambda>x. if cols = [] then r' else fold (requestCol r') cols x))
             (rsFaults st) (rsRequests st)
      in (e, hookRequest r' (st\<lparr>rsRequests := t, rsFaults := fs\<rparr>)))"

text \<open>
  \<open>DeleteNotifications\<close> on the table; the notification cache, which it tells of the deleted IDs,
  belongs to another component.
\<close>

definition deleteNotifications :: "string list \<Rightarrow> string \<Rightarrow> string \<Rightarrow> relstate \<Rightarrow> lookup_error option \<times> relstate" where
  "deleteNotifications types tgt origin st =
     (if tgt = [] \<and> origin = [] then (Some (LOther ''one of targetAccountID or originAccountID must be set''), st)
      else
        (case nextFault (rsFaults st) of
           (Some e, fs) \<Rightarrow> (Some e, st\<lparr>rsFaults := fs\<rparr>)
         | (None, fs) \<Rightarrow>
             (None, st\<lparr>rsFaults := fs, rsNotifs := filter (\<lambda>n.
                \<not> ((types \<noteq> [] \<longrightarrow> noType n \<in> set types) \<and> (tgt \<noteq> [] \<longrightarrow> noTargetAccountID n = tgt) \<and>
                   (origin \<noteq> [] \<longrightarrow> noOriginAccountID n = origin))) (rsNotifs st)\<rparr>)))"

definition notificationFollowRequest :: string where
  "notificationFollowRequest = ''follow_request''"

text \<open>
  The \<open>INSERT ... ON CONFLICT (account_id, target_account_id) DO UPDATE SET uri\<close> of
  \<open>AcceptFollowRequest\<close>.
\<close>

definition upsertFollow :: "follow \<Rightarrow> follow list \<Rightarrow> faults \<Rightarrow> (lookup_error + follow list) \<times> faults" where
  "upsertFollow f rows fs =
     (if list_ex (\<lambda>r. foAccountID r = foAccountID f \<and> foTargetAccountID r = foTargetAccountID f) rows then
        (case nextFault fs of
           (Some e, fs') \<Rightarrow> (Inl e, fs')
         | (None, fs') \<Rightarrow>
             ((if list_ex (\<lambda>r. foURI r = foURI f \<and>
                     \<not> (foAccountID r = foAccountID f \<and> foTargetAccountID r = foTargetAccountID f)) rows
               then Inl LAlreadyExists
               else Inr (map (\<lambda>r. if foAccountID r = foAccountID f \<and> foTargetAccountID r = foTargetAccountID f
                                  then r\<lparr>foURI := foURI f\<rparr> else r) rows)), fs'))
      else insertRow followIxs f rows fs)"

definition followOf :: "time \<Rightarrow> string \<Rightarrow> string \<Rightarrow> follow_request \<Rightarrow> follow" where
  "followOf now src tgt r =
     \<lparr>foID = frID r, foCreatedAt = now, foUpdatedAt = now, foURI = frURI r, foAccountID = src,
      foTargetAccountID = tgt, foShowReblogs = frShowReblogs r, foNotify = frNotify r\<rparr>"

definition acceptFollowRequest where
  "acceptFollowRequest acct now src tgt st =
     andThen (getFollowRequest acct src tgt st) (\<lambda>r st1.
       let f = followOf now src tgt r;
           (e, fs, t) = storeRow followIxs f (upsertFollow f) (rsFaults st1) (rsFollows st1);
           st2 = hookFollow f (st1\<lparr>rsFollows := t, rsFaults := fs\<rparr>)
       in case e of
            Some err \<Rightarrow> (Inl err, st2)
          | None \<Rightarrow>
              (let (e3, fs3, t3) = execDelete (\<lambda>x. frID x = frID r) (rsFaults st2) (rsRequests st2);
                   st3 = st2\<lparr>rsRequests := t3, rsFaults := fs3\<rparr>
               in case e3 of
                    Some err \<Rightarrow> (Inl err, st3)
                  | None \<Rightarrow>
                      (case deleteNotifications [notificationFollowRequest] tgt src st3 of
                         (Some err, st4) \<Rightarrow> (Inl err, st4) | (None, st4) \<Rightarrow> (Inr f, st4))))"

definition deleteRequestWhere :: "ixkey \<Rightarrow> (follow_request \<Rightarrow> follow_request \<Rightarrow> bool) \<Rightarrow>
    (lookup_error + follow_request) \<times> relstate \<Rightarrow> lookup_error option \<times> relstate" where
  "deleteRequestWhere k P found =
     (case found of
        (Inl e, st) \<Rightarrow> (if e = LNoEntries then None else Some e, st)
      | (Inr r, st) \<Rightarrow>
          (let (e, fs, t) = execDelete (P r) (rsFaults st) (rsRequests st)
           in (e, invalidateRequest k (st\<lparr>rsRequests := t, rsFaults := fs\<rparr>))))"

definition deleteFollowRequest where
  "deleteFollowRequest src tgt st =
     deleteRequestWhere (pairKey src tgt) (\<lambda>r x. frID x = frID r) (getFollowRequest' src tgt st)"

definition deleteFollowRequestByID where
  "deleteFollowRequestByID i st =
     deleteRequestWhere (key1 ''ID'' i) (\<lambda>_ x. frID x = i) (getFollowRequestByID' i st)"

definition deleteFollowRequestByURI where
  "deleteFollowRequestByURI u st =
     deleteRequestWhere (key1 ''URI'' u) (\<lambda>_ x. frURI x = u) (getFollowRequestByURI' u st)"

definition rejectFollowRequest where
  "rejectFollowRequest src tgt st =
     (case deleteFollowRequest src tgt st of
        (Some e, st1) \<Rightarrow> (Some e, st1)
      | (None, st1) \<Rightarrow> deleteNotifications [notificationFollowRequest] tgt src st1)"

definition deleteAccountFollowRequests where
  "deleteAccountFollowRequests acct a st =
     (case nextFault (rsFaults st) of
        (Some e, fs) \<Rightarrow> (Some e, st\<lparr>rsFaults := fs\<rparr>)
      | (None, fs) \<Rightarrow>
          (let ids = map frID (filter (\<lambda>r. frAccountID r = a \<or> frTargetAccountID r = a) (tbRows (rsRequests st)));
               (e, st') =
                 (case getAccountFollowRequests acct a None (st\<lparr>rsFaults := fs\<rparr>) of
                    (r, st1) \<Rightarrow>
                      if realError r then (Some (projl r), st1)
                      else
                        (let (e, fs2, t) = execDelete (\<lambda>x. frID x \<in> set ids) (rsFaults st1) (rsRequests st1)
                         in (e, st1\<lparr>rsRequests := t, rsFaults := fs2\<rparr>)))
           in (e, invalidateRequest (key1 ''TargetAccountID'' a) (invalidateRequest (key1 ''AccountID'' a) st'))))"

subsection \<open>Blocks\<close>

definition putBlock :: "block \<Rightarrow> relstate \<Rightarrow> lookup_error option \<times> relstate" where
  "putBlock b st =
     (let (e, fs, t) = storeRow blockIxs b (insertRow blockIxs b) (rsFaults st) (rsBlocks st)
      in (e, hookBlock b (st\<lparr>rsBlocks := t, rsFaults := fs\<rparr>)))"

definition deleteBlockWhere :: "ixkey \<Rightarrow> (block \<Rightarrow> bool) \<Rightarrow> (lookup_error + block) \<times> relstate \<Rightarrow>
    lookup_error option \<times> relstate" where
  "deleteBlockWhere k P found =
     (case found of
        (Inl e, st) \<Rightarrow> (if e = LNoEntries then None else Some e, st)
      | (Inr b, st) \<Rightarrow>
          (let (e, fs, t) = execDelete P (rsFaults st) (rsBlocks st)
           in (e, invalidateBlock k (st\<lparr>rsBlocks := t, rsFaults := fs\<rparr>))))"

definition deleteBlockByID where
  "deleteBlockByID i st = deleteBlockWhere (key1 ''ID'' i) (\<lambda>b. blID b = i) (getBlockByID' i st)"

definition deleteBlockByURI where
  "deleteBlockByURI u st = deleteBlockWhere (key1 ''URI'' u) (\<lambda>b. blURI b = u) (getBlockByURI' u st)"

definition deleteAccountBlocks where
  "deleteAccountBlocks acct a st =
     (case nextFault (rsFaults st) of
        (Some e, fs) \<Rightarrow> (Some e, st\<lparr>rsFaults := fs\<rparr>)
      | (None, fs) \<Rightarrow>
          (let ids = map blID (filter (\<lambda>b. blAccountID b = a \<or> blTargetAccountID b = a) (tbRows (rsBlocks st)));
               (e, st') =
                 (case getAccountBlocks acct a None (st\<lparr>rsFaults := fs\<rparr>) of
                    (r, st1) \<Rightarrow>
                      if realError r then (Some (projl r), st1)
                      else
                        (let (e, fs2, t) = execDelete (\<lambda>b. blID b \<in> set ids) (rsFaults st1) (rsBlocks st1)
                         in (e, st1\<lparr>rsBlocks := t, rsFaults := fs2\<rparr>)))
           in (e, invalidateBlock (key1 ''TargetAccountID'' a) (invalidateBlock (key1 ''AccountID'' a) st'))))"

subsection \<open>The relationship of two accounts\<close>

record relationship =
  rlID :: string
  rlFollowing :: bool
  rlShowingReblogs :: bool
  rlNotifying :: bool
  rlFollowedBy :: bool
  rlBlocking :: bool
  rlBlockedBy :: bool
  rlMuting :: bool
  rlMutingNotifications :: bool
  rlRequested :: bool
  rlRequestedBy :: bool
  rlNote :: string

record mute_info =
  muExpiresAt :: time
  muNotifications :: bool

definition muteExpired :: "mute_info \<Rightarrow> time \<Rightarrow> bool" where
  "muteExpired u now \<longleftrightarrow> \<not> isZeroTime (muExpiresAt u) \<and> \<not> now < muExpiresAt u"

text \<open>The lookups of the note and the mute, which keep their own caches, are parameters.\<close>

definition getRelationship :: "(string \<Rightarrow> string \<Rightarrow> lookup_error + string) \<Rightarrow>
    (string \<Rightarrow> string \<Rightarrow> lookup_error + mute_info) \<Rightarrow> time \<Rightarrow> string \<Rightarrow> string \<Rightarrow> relstate \<Rightarrow>
    (lookup_error + relationship) \<times> relstate" where
  "getRelationship getNote getMute now req tgt st =
     andThen (noEntriesOK (getFollow' req tgt st)) (\<lambda>follow st1.
     andThen (isFollowing tgt req st1) (\<lambda>followedBy st2.
     andThen (isFollowRequested req tgt st2) (\<lambda>requested st3.
     andThen (isFollowRequested tgt req st3) (\<lambda>requestedBy st4.
     andThen (isBlocked req tgt st4) (\<lambda>blocking st5.
     andThen (isBlocked tgt req st5) (\<lambda>blockedBy st6.
     andThen (noEntriesOK (getNote req tgt, st6)) (\<lambda>note st7.
     andThen (noEntriesOK (getMute req tgt, st7)) (\<lambda>mute st8.
       (Inr \<lparr>rlID = tgt, rlFollowing = (follow \<noteq> None),
             rlShowingReblogs = (case follow of None \<Rightarrow> False | Some f \<Rightarrow> foShowReblogs f),
             rlNotifying = (case follow of None \<Rightarrow> False | Some f \<Rightarrow> foNotify f),
             rlFollowedBy = followedBy, rlBlocking = blocking, rlBlockedBy = blockedBy,
             rlMuting = (case mute of None \<Rightarrow> False | Some u \<Rightarrow> \<not> muteExpired u now),
             rlMutingNotifications = (case mute of None \<Rightarrow> False | Some u \<Rightarrow> \<not> muteExpired u now \<and> muNotifications u),
             rlRequested = requested, rlRequestedBy = requestedBy,
             rlNote = (case note of None \<Rightarrow> [] | Some n \<Rightarrow> n)\<rparr>, st8)))))))))"

end
