(* ===== verification/RelationshipInv.thy ===== *)
theory RelationshipInv
  imports Relationships
begin

text \<open>
  The caches of \<open>Relationships\<close> agree with the tables: the invariant of the state, what the
  invalidation hooks leave alone, and what every lookup and every write does to it.
\<close>

subsection \<open>The caches of the four tables\<close>

lemmas index_defs = followIxs_def requestIxs_def blockIxs_def entryIxs_def idIndex_def uriIndex_def
  pairIndex_def multiIndex_def

interpretation fol: indexed followIxs by unfold_locales (simp_all add: index_defs)
interpretation req: indexed requestIxs by unfold_locales (simp_all add: index_defs)
interpretation blk: indexed blockIxs by unfold_locales (simp_all add: index_defs)
interpretation ent: indexed entryIxs by unfold_locales (simp_all add: index_defs)

lemma index_names [simp]:
  "ixName (idIndex g) = ''ID''" "ixName (uriIndex g) = ''URI''"
  "ixName (pairIndex g h) = ''AccountID,TargetAccountID''"
  "ixFields (idIndex g) v = [g v]" "ixFields (uriIndex g) v = [g v]" "ixFields (pairIndex g h) v = [g v, h v]"
  "\<not> ixMultiple (idIndex g)" "\<not> ixMultiple (uriIndex g)" "\<not> ixMultiple (pairIndex g h)"
  by (simp_all add: index_defs)

lemma index_mem [simp]:
  "idIndex foID \<in> set followIxs" "uriIndex foURI \<in> set followIxs"
  "pairIndex foAccountID foTargetAccountID \<in> set followIxs"
  "idIndex frID \<in> set requestIxs" "uriIndex frURI \<in> set requestIxs"
  "pairIndex frAccountID frTargetAccountID \<in> set requestIxs"
  "idIndex blID \<in> set blockIxs" "uriIndex blURI \<in> set blockIxs"
  "pairIndex blAccountID blTargetAccountID \<in> set blockIxs"
  "idIndex leID \<in> set entryIxs"
  by (simp_all add: followIxs_def requestIxs_def blockIxs_def entryIxs_def)

lemma key_ixKey:
  "key1 ''ID'' x = ixKey (idIndex g) [x]" "key1 ''URI'' x = ixKey (uriIndex h) [x]"
  "pairKey x y = ixKey (pairIndex k l) [x, y]"
  by (auto simp: key1_def pairKey_def ixKey_def index_defs)

lemma unique_keys [simp]:
  "isUnique followIxs (key1 ''ID'' x)" "isUnique followIxs (key1 ''URI'' x)" "isUnique followIxs (pairKey x y)"
  "isUnique requestIxs (key1 ''ID'' x)" "isUnique requestIxs (key1 ''URI'' x)" "isUnique requestIxs (pairKey x y)"
  "isUnique blockIxs (key1 ''ID'' x)" "isUnique blockIxs (key1 ''URI'' x)" "isUnique blockIxs (pairKey x y)"
  "isUnique entryIxs (key1 ''ID'' x)"
  by (simp_all add: isUnique_def key1_def pairKey_def index_defs)

subsection \<open>What hooks may do\<close>

text \<open>Rows stay, caches lose items, nothing else changes.\<close>

definition quietTable :: "'v sindex list \<Rightarrow> 'v table \<Rightarrow> 'v table \<Rightarrow> bool" where
  "quietTable ixs t t' \<longleftrightarrow> tbRows t' = tbRows t \<and> shrunk (tbCache t) (tbCache t') \<and>
     (\<forall>rows. cacheInv ixs rows (tbCache t) \<longrightarrow> cacheInv ixs rows (tbCache t'))"

lemma quietTable_refl [simp]: "quietTable ixs t t"
  by (simp add: quietTable_def)

lemma quietTable_trans: "quietTable ixs t u \<Longrightarrow> quietTable ixs u v \<Longrightarrow> quietTable ixs t v"
  unfolding quietTable_def using shrunk_trans by fastforce

lemma quietTable_OK: "quietTable ixs t t' \<Longrightarrow> tblOK ixs t \<Longrightarrow> tblOK ixs t'"
  by (simp add: quietTable_def tblOK_def)

context indexed
begin

lemma quiet_dropKey: "quietTable ixs t (snd (dropKey k t))"
  unfolding quietTable_def dropKey_def
  using shrunk_invalidateKey [of "tbCache t" k] cacheInv_invalidateKey [of _ "tbCache t" k]
  by (auto split: prod.splits)

end

definition quiet :: "relstate \<Rightarrow> relstate \<Rightarrow> bool" where
  "quiet st st' \<longleftrightarrow>
     quietTable followIxs (rsFollows st) (rsFollows st') \<and>
     quietTable requestIxs (rsRequests st) (rsRequests st') \<and>
     quietTable blockIxs (rsBlocks st) (rsBlocks st') \<and>
     quietTable entryIxs (rsEntries st) (rsEntries st') \<and>
     rsFollowIDs st' \<subseteq>\<^sub>m rsFollowIDs st \<and> rsRequestIDs st' \<subseteq>\<^sub>m rsRequestIDs st \<and>
     rsBlockIDs st' \<subseteq>\<^sub>m rsBlockIDs st \<and> rsVis st' \<subseteq>\<^sub>m rsVis st \<and>
     rsNotifs st' = rsNotifs st \<and> rsLocalIDs st' = rsLocalIDs st \<and> rsDropped st' = rsDropped st \<and>
     rsFaults st' = rsFaults st"

lemma quiet_refl [simp]: "quiet st st"
  by (simp add: quiet_def)

lemma quiet_trans: "quiet s t \<Longrightarrow> quiet t u \<Longrightarrow> quiet s u"
  unfolding quiet_def by (auto intro: quietTable_trans map_le_trans)

lemma invalidateSlices_le [simp]: "invalidateSlices ks m \<subseteq>\<^sub>m m"
  by (auto simp: map_le_def invalidateSlices_def split: if_splits)

lemma invalidateWhere_le: "invalidateWhere P c \<subseteq>\<^sub>m c"
  by (auto simp: map_le_def invalidateWhere_def split: if_splits)

lemma invalidateWhere_mono: "c \<subseteq>\<^sub>m d \<Longrightarrow> invalidateWhere P c \<subseteq>\<^sub>m invalidateWhere P d"
  by (auto simp: map_le_def invalidateWhere_def dom_def)

lemma onInvalidate_le [simp]: "onInvalidateFollow a b c \<subseteq>\<^sub>m c" "onInvalidateBlock a b c \<subseteq>\<^sub>m c"
  unfolding onInvalidateFollow_def onInvalidateBlock_def onInvalidate_pair by (rule invalidateWhere_le)+

lemma onInvalidate_mono:
  "c \<subseteq>\<^sub>m d \<Longrightarrow> onInvalidateFollow a b c \<subseteq>\<^sub>m onInvalidateFollow a b d"
  "c \<subseteq>\<^sub>m d \<Longrightarrow> onInvalidateBlock a b c \<subseteq>\<^sub>m onInvalidateBlock a b d"
  unfolding onInvalidateFollow_def onInvalidateBlock_def onInvalidate_pair by (rule invalidateWhere_mono; assumption)+

lemma quiet_dropFollowC: "dropFollowC k st = (vs, st') \<Longrightarrow> quiet st st'"
  using fol.quiet_dropKey [of "rsFollows st" k] by (auto simp: dropFollowC_def quiet_def split: prod.splits)

lemma quiet_dropRequestC: "dropRequestC k st = (vs, st') \<Longrightarrow> quiet st st'"
  using req.quiet_dropKey [of "rsRequests st" k] by (auto simp: dropRequestC_def quiet_def split: prod.splits)

lemma quiet_followRest: "quiet st (followRest f st)"
  using ent.quiet_dropKey [of "rsEntries st" "key1 ''FollowID'' (foID f)"]
  by (simp add: followRest_def quiet_def)

lemma quiet_requestRest: "quiet st (requestRest r st)"
  by (simp add: requestRest_def quiet_def)

lemma quiet_hookBlock: "quiet st (hookBlock b st)"
  by (simp add: hookBlock_def quiet_def)

lemma quiet_hooks: "quiet st (hookFollow f st)" "quiet st' (hookRequest r st')"
proof (induction f st and r st' rule: hookFollow_hookRequest.induct)
  case (1 f st)
  obtain vs st1 where d: "dropRequestC (key1 ''ID'' (foID f)) st = (vs, st1)" by fastforce
  have "quiet st1 (case vs of [] \<Rightarrow> st1 | r # _ \<Rightarrow> hookRequest r st1)"
    using 1 [OF d [symmetric]] by (cases vs) auto
  then have "quiet st (case vs of [] \<Rightarrow> st1 | r # _ \<Rightarrow> hookRequest r st1)"
    by (rule quiet_trans [OF quiet_dropRequestC [OF d]])
  then show ?case
    unfolding hookFollow.simps [of f st] d
    using quiet_trans [OF _ quiet_followRest] by (auto split: list.splits)
next
  case (2 r st)
  obtain vs st1 where d: "dropFollowC (key1 ''ID'' (frID r)) st = (vs, st1)" by fastforce
  have "quiet st1 (case vs of [] \<Rightarrow> st1 | f # _ \<Rightarrow> hookFollow f st1)"
    using 2 [OF d [symmetric]] by (cases vs) auto
  then have "quiet st (case vs of [] \<Rightarrow> st1 | f # _ \<Rightarrow> hookFollow f st1)"
    by (rule quiet_trans [OF quiet_dropFollowC [OF d]])
  then show ?case
    unfolding hookRequest.simps [of r st] d
    using quiet_trans [OF _ quiet_requestRest] by (auto split: list.splits)
qed

lemma quiet_fold: "(\<And>v s. quiet s (h v s)) \<Longrightarrow> quiet st (fold h vs st)"
  by (induction vs arbitrary: st) (auto intro: quiet_trans)

lemma quiet_invalidateFollow: "quiet st (invalidateFollow k st)"
  by (auto simp: invalidateFollow_def split: prod.split
      intro: quiet_trans [OF quiet_dropFollowC] quiet_fold quiet_hooks)

lemma quiet_invalidateRequest: "quiet st (invalidateRequest k st)"
  by (auto simp: invalidateRequest_def split: prod.split
      intro: quiet_trans [OF quiet_dropRequestC] quiet_fold quiet_hooks)

lemma quiet_invalidateBlock: "quiet st (invalidateBlock k st)"
proof -
  obtain vs t where d: "dropKey k (rsBlocks st) = (vs, t)" by fastforce
  have "quiet st (st\<lparr>rsBlocks := t\<rparr>)"
    using blk.quiet_dropKey [of "rsBlocks st" k] d by (simp add: quiet_def)
  then show ?thesis
    using d quiet_trans [OF _ quiet_fold [OF quiet_hookBlock]] by (simp add: invalidateBlock_def)
qed

subsection \<open>What hooks do\<close>

lemma hookFollow_form:
  "\<exists>s. hookFollow f st = followRest f s \<and> quiet st s \<and>
    holders (key1 ''ID'' (foID f)) (tbCache (rsRequests s)) = []"
proof -
  let ?k = "key1 ''ID'' (foID f)"
  obtain vs st1 where d: "dropRequestC ?k st = (vs, st1)" by fastforce
  let ?s = "case vs of [] \<Rightarrow> st1 | r # _ \<Rightarrow> hookRequest r st1"
  have h: "holders ?k (tbCache (rsRequests st1)) = []"
    using d holders_invalidateKey [of ?k "tbCache (rsRequests st)"]
    by (auto simp: dropRequestC_def dropKey_def split: prod.splits)
  have q: "quiet st1 ?s" using quiet_hooks by (cases vs) auto
  then have "shrunk (tbCache (rsRequests st1)) (tbCache (rsRequests ?s))"
    by (simp add: quiet_def quietTable_def)
  then have "holders ?k (tbCache (rsRequests ?s)) = []" using h by (rule shrunk_holders)
  moreover have "quiet st ?s" using quiet_trans [OF quiet_dropRequestC [OF d] q] .
  moreover have "hookFollow f st = followRest f ?s"
    unfolding hookFollow.simps [of f st] d by (cases vs) auto
  ultimately show ?thesis by blast
qed

lemma hookRequest_form: "\<exists>s. hookRequest r st = requestRest r s \<and> quiet st s"
proof -
  obtain vs st1 where d: "dropFollowC (key1 ''ID'' (frID r)) st = (vs, st1)" by fastforce
  let ?s = "case vs of [] \<Rightarrow> st1 | f # _ \<Rightarrow> hookFollow f st1"
  have "quiet st1 ?s" using quiet_hooks by (cases vs) auto
  then have "quiet st ?s" by (rule quiet_trans [OF quiet_dropFollowC [OF d]])
  moreover have "hookRequest r st = requestRest r ?s"
    unfolding hookRequest.simps [of r st] d by (cases vs) auto
  ultimately show ?thesis by blast
qed

lemma invalidateSlices_mono: "m \<subseteq>\<^sub>m n \<Longrightarrow> invalidateSlices ks m \<subseteq>\<^sub>m invalidateSlices ks n"
  by (auto simp: map_le_def invalidateSlices_def dom_def)

lemma hookFollow_effect:
  "rsFollowIDs (hookFollow f st) \<subseteq>\<^sub>m
     invalidateSlices (followSliceKeys (foAccountID f) (foTargetAccountID f)) (rsFollowIDs st)"
  "rsVis (hookFollow f st) \<subseteq>\<^sub>m onInvalidateFollow (foAccountID f) (foTargetAccountID f) (rsVis st)"
  "holders (key1 ''ID'' (foID f)) (tbCache (rsRequests (hookFollow f st))) = []"
proof -
  obtain s where s: "hookFollow f st = followRest f s" "quiet st s"
      "holders (key1 ''ID'' (foID f)) (tbCache (rsRequests s)) = []"
    using hookFollow_form by blast
  show "rsFollowIDs (hookFollow f st) \<subseteq>\<^sub>m
     invalidateSlices (followSliceKeys (foAccountID f) (foTargetAccountID f)) (rsFollowIDs st)"
    using s(1,2) by (simp add: followRest_def quiet_def invalidateSlices_mono)
  show "rsVis (hookFollow f st) \<subseteq>\<^sub>m onInvalidateFollow (foAccountID f) (foTargetAccountID f) (rsVis st)"
    using s(1,2) by (simp add: followRest_def quiet_def onInvalidate_mono)
  show "holders (key1 ''ID'' (foID f)) (tbCache (rsRequests (hookFollow f st))) = []"
    using s(1,3) by (simp add: followRest_def)
qed

lemma hookRequest_effect:
  "rsRequestIDs (hookRequest r st) \<subseteq>\<^sub>m
     invalidateSlices (requestSliceKeys (frAccountID r) (frTargetAccountID r)) (rsRequestIDs st)"
proof -
  obtain s where s: "hookRequest r st = requestRest r s" "quiet st s" using hookRequest_form by blast
  then show ?thesis by (simp add: requestRest_def quiet_def invalidateSlices_mono)
qed

lemma hookBlock_effect:
  "rsBlockIDs (hookBlock b st) \<subseteq>\<^sub>m invalidateSlices [blAccountID b] (rsBlockIDs st)"
  "rsVis (hookBlock b st) \<subseteq>\<^sub>m onInvalidateBlock (blAccountID b) (blTargetAccountID b) (rsVis st)"
  by (simp_all add: hookBlock_def)

subsection \<open>The invariant\<close>

definition followingIn :: "follow list \<Rightarrow> string \<Rightarrow> string \<Rightarrow> bool" where
  "followingIn rows a b \<longleftrightarrow> list_ex (\<lambda>f. foAccountID f = a \<and> foTargetAccountID f = b) rows"

definition blockedIn :: "block list \<Rightarrow> string \<Rightarrow> string \<Rightarrow> bool" where
  "blockedIn rows a b \<longleftrightarrow> list_ex (\<lambda>x. blAccountID x = a \<and> blTargetAccountID x = b) rows"

definition requestedIn :: "follow_request list \<Rightarrow> string \<Rightarrow> string \<Rightarrow> bool" where
  "requestedIn rows a b \<longleftrightarrow> list_ex (\<lambda>r. frAccountID r = a \<and> frTargetAccountID r = b) rows"

text \<open>The database the visibility filter sees: its relationship lookups read these tables.\<close>

definition relDB :: "vis_db \<Rightarrow> relstate \<Rightarrow> vis_db" where
  "relDB base st = base\<lparr>
     dbEitherBlocked := (\<lambda>a b. Inr (blockedIn (tbRows (rsBlocks st)) a b \<or> blockedIn (tbRows (rsBlocks st)) b a)),
     dbFollowing := (\<lambda>a b. Inr (followingIn (tbRows (rsFollows st)) a b)),
     dbMutual := (\<lambda>a b. Inr (followingIn (tbRows (rsFollows st)) a b \<and> followingIn (tbRows (rsFollows st)) b a)),
     dbFollow := (\<lambda>a b. rowsLookup (pairIndex foAccountID foTargetAccountID) [a, b] (tbRows (rsFollows st)))\<rparr>"

definition followSlicesOK :: "string list \<Rightarrow> follow list \<Rightarrow> slices \<Rightarrow> bool" where
  "followSlicesOK loc rows m \<longleftrightarrow> (\<forall>a xs.
     (m (''>'' @ a) = Some xs \<longrightarrow> xs = newSelectFollows a rows) \<and>
     (m (''l>'' @ a) = Some xs \<longrightarrow> xs = newSelectLocalFollows loc a rows) \<and>
     (m (''<'' @ a) = Some xs \<longrightarrow> xs = newSelectFollowers a rows) \<and>
     (m (''l<'' @ a) = Some xs \<longrightarrow> xs = newSelectLocalFollowers loc a rows))"

definition requestSlicesOK :: "follow_request list \<Rightarrow> slices \<Rightarrow> bool" where
  "requestSlicesOK rows m \<longleftrightarrow> (\<forall>a xs.
     (m (''>'' @ a) = Some xs \<longrightarrow> xs = newSelectFollowRequests a rows) \<and>
     (m (''<'' @ a) = Some xs \<longrightarrow> xs = newSelectFollowRequesting a rows))"

definition blockSlicesOK :: "block list \<Rightarrow> slices \<Rightarrow> bool" where
  "blockSlicesOK rows m \<longleftrightarrow> (\<forall>a xs. m a = Some xs \<longrightarrow> xs = newSelectBlocks a rows)"

definition relInv :: "host_config \<Rightarrow> rows \<Rightarrow> vis_db \<Rightarrow> relstate \<Rightarrow> bool" where
  "relInv cfg R base st \<longleftrightarrow>
     tblOK followIxs (rsFollows st) \<and> tblOK requestIxs (rsRequests st) \<and> tblOK blockIxs (rsBlocks st) \<and>
     tblOK entryIxs (rsEntries st) \<and>
     followSlicesOK (rsLocalIDs st) (tbRows (rsFollows st)) (rsFollowIDs st) \<and>
     requestSlicesOK (tbRows (rsRequests st)) (rsRequestIDs st) \<and>
     blockSlicesOK (tbRows (rsBlocks st)) (rsBlockIDs st) \<and>
     wfDB R base \<and> visAgrees cfg R (relDB base st) (rsVis st)"

lemma map_le_Some: "m \<subseteq>\<^sub>m n \<Longrightarrow> m k = Some x \<Longrightarrow> n k = Some x"
  by (auto simp: map_le_def dom_def)

lemma followSlicesOK_le: "followSlicesOK loc rows m \<Longrightarrow> m' \<subseteq>\<^sub>m m \<Longrightarrow> followSlicesOK loc rows m'"
  unfolding followSlicesOK_def by (blast dest: map_le_Some)

lemma requestSlicesOK_le: "requestSlicesOK rows m \<Longrightarrow> m' \<subseteq>\<^sub>m m \<Longrightarrow> requestSlicesOK rows m'"
  unfolding requestSlicesOK_def by (blast dest: map_le_Some)

lemma blockSlicesOK_le: "blockSlicesOK rows m \<Longrightarrow> m' \<subseteq>\<^sub>m m \<Longrightarrow> blockSlicesOK rows m'"
  unfolding blockSlicesOK_def by (blast dest: map_le_Some)

lemma agrees_le: "agrees tracked spec c \<Longrightarrow> c' \<subseteq>\<^sub>m c \<Longrightarrow> agrees tracked spec c'"
  unfolding agrees_def by (blast dest: map_le_Some)

lemma wfDB_relDB: "wfDB R base \<Longrightarrow> wfDB R (relDB base st)"
  unfolding relDB_def using wfDB_rel(2) [OF wfDB_rel(1)] .

text \<open>The parts of the invariant move separately.\<close>

lemma relInv_step:
  assumes "relInv cfg R base st"
    and "tblOK followIxs (rsFollows st')" "tblOK requestIxs (rsRequests st')" "tblOK blockIxs (rsBlocks st')"
      "tblOK entryIxs (rsEntries st')"
    and "followSlicesOK (rsLocalIDs st') (tbRows (rsFollows st')) (rsFollowIDs st')"
    and "requestSlicesOK (tbRows (rsRequests st')) (rsRequestIDs st')"
    and "blockSlicesOK (tbRows (rsBlocks st')) (rsBlockIDs st')"
    and "visAgrees cfg R (relDB base st') (rsVis st')"
  shows "relInv cfg R base st'"
  using assms by (simp add: relInv_def)

lemma relInv_quiet:
  assumes "relInv cfg R base st" and "quiet st st'"
  shows "relInv cfg R base st'"
proof -
  have rows: "tbRows (rsFollows st') = tbRows (rsFollows st)" "tbRows (rsRequests st') = tbRows (rsRequests st)"
      "tbRows (rsBlocks st') = tbRows (rsBlocks st)" "rsLocalIDs st' = rsLocalIDs st"
    using assms(2) by (auto simp: quiet_def quietTable_def)
  then have "relDB base st' = relDB base st" by (simp add: relDB_def)
  then show ?thesis
    using assms rows unfolding relInv_def quiet_def
    by (auto intro: quietTable_OK followSlicesOK_le requestSlicesOK_le blockSlicesOK_le agrees_le)
qed

subsection \<open>Changes between two accounts\<close>

text \<open>
  The rows of two tables differ only in those from \<open>a\<close> to \<open>b\<close>; \<open>src\<close> and \<open>tgt\<close> read the accounts
  of a row.
\<close>

definition sameExcept :: "('v \<Rightarrow> string) \<Rightarrow> ('v \<Rightarrow> string) \<Rightarrow> string \<Rightarrow> string \<Rightarrow> 'v list \<Rightarrow> 'v list \<Rightarrow> bool" where
  "sameExcept src tgt a b rows rows' \<longleftrightarrow>
     (\<forall>x. x \<noteq> a \<longrightarrow> filter (\<lambda>v. src v = x) rows' = filter (\<lambda>v. src v = x) rows) \<and>
     (\<forall>x. x \<noteq> b \<longrightarrow> filter (\<lambda>v. tgt v = x) rows' = filter (\<lambda>v. tgt v = x) rows)"

lemma sameExcept_refl [simp]: "sameExcept src tgt a b rows rows"
  by (simp add: sameExcept_def)

lemma sameExcept_append: "sameExcept src tgt (src v) (tgt v) rows (rows @ [v])"
  by (simp add: sameExcept_def)

lemma sameExcept_filter:
  assumes "\<And>w. w \<in> set rows \<Longrightarrow> \<not> P w \<Longrightarrow> src w = a \<and> tgt w = b"
  shows "sameExcept src tgt a b rows (filter P rows)"
  using assms unfolding sameExcept_def by (auto simp: filter_filter intro!: filter_cong)

lemma filter_map_same:
  assumes "\<And>w. w \<in> set ws \<Longrightarrow> g w = w \<or> h w \<noteq> x \<and> h (g w) \<noteq> (x :: string)"
  shows "filter (\<lambda>v. h v = x) (map g ws) = filter (\<lambda>v. h v = x) ws"
  using assms
proof (induction ws)
  case (Cons w ws)
  then have "filter (\<lambda>v. h v = x) (map g ws) = filter (\<lambda>v. h v = x) ws" by simp
  moreover have "g w = w \<or> h w \<noteq> x \<and> h (g w) \<noteq> x" using Cons.prems by simp
  ultimately show ?case by auto
qed simp

lemma sameExcept_map:
  assumes "\<And>w. w \<in> set rows \<Longrightarrow> g w = w \<or> src w = a \<and> tgt w = b \<and> src (g w) = a \<and> tgt (g w) = b"
  shows "sameExcept src tgt a b rows (map g rows)"
  unfolding sameExcept_def
proof (intro conjI allI impI)
  show "filter (\<lambda>v. src v = x) (map g rows) = filter (\<lambda>v. src v = x) rows" if "x \<noteq> a" for x
    by (rule filter_map_same) (use assms that in blast)
  show "filter (\<lambda>v. tgt v = x) (map g rows) = filter (\<lambda>v. tgt v = x) rows" if "x \<noteq> b" for x
    by (rule filter_map_same) (use assms that in blast)
qed

lemma filter_conj: "filter (\<lambda>v. P v \<and> Q v) xs = filter Q (filter P xs)"
  by (simp add: conj_commute)

lemma sameExcept_ex:
  assumes "sameExcept src tgt a b rows rows'" and "x \<noteq> a \<or> y \<noteq> b"
  shows "list_ex (\<lambda>v. src v = x \<and> tgt v = y) rows' = list_ex (\<lambda>v. src v = x \<and> tgt v = y) rows"
proof -
  have e: "list_ex (\<lambda>v. P v \<and> Q v) xs = list_ex Q (filter P xs)" for P Q and xs :: "'a list"
    by (auto simp: list_ex_iff)
  have e': "list_ex (\<lambda>v. P v \<and> Q v) xs = list_ex P (filter Q xs)" for P Q and xs :: "'a list"
    by (auto simp: list_ex_iff)
  show ?thesis
  proof (cases "x = a")
    case True
    then show ?thesis using assms unfolding e' by (simp add: sameExcept_def)
  next
    case False
    then show ?thesis using assms unfolding e by (simp add: sameExcept_def)
  qed
qed

lemma slice_keys_ne [simp]:
  "''>'' @ a = ''>'' @ b \<longleftrightarrow> a = b" "''<'' @ a = ''<'' @ b \<longleftrightarrow> a = b"
  "''l>'' @ a = ''l>'' @ b \<longleftrightarrow> a = b" "''l<'' @ a = ''l<'' @ b \<longleftrightarrow> a = b"
  "''>'' @ a \<noteq> ''<'' @ b" "''<'' @ a \<noteq> ''>'' @ b" "''l>'' @ a \<noteq> ''l<'' @ b" "''l<'' @ a \<noteq> ''l>'' @ b"
  "''>'' @ a \<noteq> ''l>'' @ b" "''>'' @ a \<noteq> ''l<'' @ b" "''<'' @ a \<noteq> ''l>'' @ b" "''<'' @ a \<noteq> ''l<'' @ b"
  "''l>'' @ a \<noteq> ''>'' @ b" "''l>'' @ a \<noteq> ''<'' @ b" "''l<'' @ a \<noteq> ''>'' @ b" "''l<'' @ a \<noteq> ''<'' @ b"
  by auto

lemma invalidateSlices_Some: "invalidateSlices ks m k = Some xs \<longleftrightarrow> k \<notin> set ks \<and> m k = Some xs"
  by (simp add: invalidateSlices_def)

lemma followSlicesOK_change:
  assumes "followSlicesOK loc rows m" and "sameExcept foAccountID foTargetAccountID a b rows rows'"
    and "m' \<subseteq>\<^sub>m invalidateSlices (followSliceKeys a b) m"
  shows "followSlicesOK loc rows' m'"
proof (rule followSlicesOK_le [OF _ assms(3)])
  have src: "filter (\<lambda>f. foAccountID f = x) rows' = filter (\<lambda>f. foAccountID f = x) rows" if "x \<noteq> a" for x
    using assms(2) that by (simp add: sameExcept_def)
  have tgt: "filter (\<lambda>f. foTargetAccountID f = x) rows' = filter (\<lambda>f. foTargetAccountID f = x) rows"
    if "x \<noteq> b" for x
    using assms(2) that by (simp add: sameExcept_def)
  show "followSlicesOK loc rows' (invalidateSlices (followSliceKeys a b) m)"
    unfolding followSlicesOK_def invalidateSlices_Some
  proof (intro allI conjI impI)
    fix x xs
    note old = assms(1) [unfolded followSlicesOK_def, rule_format, of x xs]
    show "xs = newSelectFollows x rows'"
      if "''>'' @ x \<notin> set (followSliceKeys a b) \<and> m (''>'' @ x) = Some xs"
      using that old src [of x] by (simp add: followSliceKeys_def newSelectFollows_def)
    show "xs = newSelectLocalFollows loc x rows'"
      if "''l>'' @ x \<notin> set (followSliceKeys a b) \<and> m (''l>'' @ x) = Some xs"
      using that old src [of x]
      by (simp add: followSliceKeys_def newSelectLocalFollows_def filter_conj del: filter_filter)
    show "xs = newSelectFollowers x rows'"
      if "''<'' @ x \<notin> set (followSliceKeys a b) \<and> m (''<'' @ x) = Some xs"
      using that old tgt [of x] by (simp add: followSliceKeys_def newSelectFollowers_def)
    show "xs = newSelectLocalFollowers loc x rows'"
      if "''l<'' @ x \<notin> set (followSliceKeys a b) \<and> m (''l<'' @ x) = Some xs"
      using that old tgt [of x]
      by (simp add: followSliceKeys_def newSelectLocalFollowers_def filter_conj del: filter_filter)
  qed
qed

lemma requestSlicesOK_change:
  assumes "requestSlicesOK rows m" and "sameExcept frAccountID frTargetAccountID a b rows rows'"
    and "m' \<subseteq>\<^sub>m invalidateSlices (requestSliceKeys a b) m"
  shows "requestSlicesOK rows' m'"
proof (rule requestSlicesOK_le [OF _ assms(3)])
  have tgt: "filter (\<lambda>r. frTargetAccountID r = x) rows' = filter (\<lambda>r. frTargetAccountID r = x) rows"
    if "x \<noteq> b" for x
    using assms(2) that by (simp add: sameExcept_def)
  show "requestSlicesOK rows' (invalidateSlices (requestSliceKeys a b) m)"
    unfolding requestSlicesOK_def invalidateSlices_Some
  proof (intro allI conjI impI)
    fix x xs
    note old = assms(1) [unfolded requestSlicesOK_def, rule_format, of x xs]
    show "xs = newSelectFollowRequests x rows'"
      if "''>'' @ x \<notin> set (requestSliceKeys a b) \<and> m (''>'' @ x) = Some xs"
      using that old tgt [of x] by (simp add: requestSliceKeys_def newSelectFollowRequests_def)
    show "xs = newSelectFollowRequesting x rows'"
      if "''<'' @ x \<notin> set (requestSliceKeys a b) \<and> m (''<'' @ x) = Some xs"
      using that old tgt [of x] by (simp add: requestSliceKeys_def newSelectFollowRequesting_def)
  qed
qed

lemma blockSlicesOK_change:
  assumes "blockSlicesOK rows m" and "sameExcept blAccountID blTargetAccountID a b rows rows'"
    and "m' \<subseteq>\<^sub>m invalidateSlices [a] m"
  shows "blockSlicesOK rows' m'"
proof (rule blockSlicesOK_le [OF _ assms(3)])
  show "blockSlicesOK rows' (invalidateSlices [a] m)"
    using assms(1,2) by (simp add: blockSlicesOK_def invalidateSlices_Some newSelectBlocks_def sameExcept_def)
qed

text \<open>A follow from \<open>a\<close> to \<open>b\<close> changed and its hook ran.\<close>

lemma relInv_follow:
  assumes "relInv cfg R base st"
    and "tblOK followIxs (rsFollows st')" "tblOK requestIxs (rsRequests st')" "tblOK entryIxs (rsEntries st')"
    and "quietTable blockIxs (rsBlocks st) (rsBlocks st')" and "rsLocalIDs st' = rsLocalIDs st"
    and "tbRows (rsRequests st') = tbRows (rsRequests st)"
    and "sameExcept foAccountID foTargetAccountID a b (tbRows (rsFollows st)) (tbRows (rsFollows st'))"
    and "rsFollowIDs st' \<subseteq>\<^sub>m invalidateSlices (followSliceKeys a b) (rsFollowIDs st)"
    and "rsRequestIDs st' \<subseteq>\<^sub>m rsRequestIDs st" "rsBlockIDs st' \<subseteq>\<^sub>m rsBlockIDs st"
    and "rsVis st' \<subseteq>\<^sub>m onInvalidateFollow a b (rsVis st)"
  shows "relInv cfg R base st'"
proof (rule relInv_step [OF assms(1-3) _ assms(4)])
  have blocks: "tbRows (rsBlocks st') = tbRows (rsBlocks st)" using assms(5) by (simp add: quietTable_def)
  show "tblOK blockIxs (rsBlocks st')" using assms(1,5) quietTable_OK by (auto simp: relInv_def)
  show "followSlicesOK (rsLocalIDs st') (tbRows (rsFollows st')) (rsFollowIDs st')"
    using followSlicesOK_change [OF _ assms(8,9)] assms(1,6) by (simp add: relInv_def)
  show "requestSlicesOK (tbRows (rsRequests st')) (rsRequestIDs st')"
    using requestSlicesOK_le [OF _ assms(10)] assms(1,7) by (simp add: relInv_def)
  show "blockSlicesOK (tbRows (rsBlocks st')) (rsBlockIDs st')"
    using blockSlicesOK_le [OF _ assms(11)] assms(1) blocks by (simp add: relInv_def)
  have ex: "followingIn (tbRows (rsFollows st')) x y = followingIn (tbRows (rsFollows st)) x y"
    if "{x, y} \<noteq> {a, b}" for x y
    unfolding followingIn_def by (rule sameExcept_ex [OF assms(8)]) (use that in auto)
  let ?D = "relDB base st"
  define g h w where "g = dbFollowing (relDB base st')" and "h = dbMutual (relDB base st')"
    and "w = dbFollow (relDB base st')"
  have D: "relDB base st' = ?D\<lparr>dbFollowing := g, dbMutual := h, dbFollow := w\<rparr>"
    using blocks by (simp add: relDB_def g_def h_def w_def)
  have "visAgrees cfg R (relDB base st') (onInvalidateFollow a b (rsVis st))"
    unfolding D
  proof (rule visAgrees_follow)
    show "wfDB R ?D" using assms(1) wfDB_relDB by (simp add: relInv_def)
    show "visAgrees cfg R ?D (rsVis st)" using assms(1) by (simp add: relInv_def)
    show "g x y = dbFollowing ?D x y" if "{x, y} \<noteq> {a, b}" for x y
      using ex [OF that] by (simp add: relDB_def g_def)
    show "h x y = dbMutual ?D x y" if "{x, y} \<noteq> {a, b}" for x y
      using ex [OF that] ex [of y x] that by (simp add: relDB_def h_def insert_commute)
  qed
  then show "visAgrees cfg R (relDB base st') (rsVis st')" using assms(12) by (rule agrees_le)
qed

lemma relInv_request:
  assumes "relInv cfg R base st"
    and "tblOK requestIxs (rsRequests st')"
    and "quiet st (st'\<lparr>rsRequests := rsRequests st, rsFaults := rsFaults st\<rparr>)"
    and "sameExcept frAccountID frTargetAccountID a b (tbRows (rsRequests st)) (tbRows (rsRequests st'))"
    and "rsRequestIDs st' \<subseteq>\<^sub>m invalidateSlices (requestSliceKeys a b) (rsRequestIDs st)"
  shows "relInv cfg R base st'"
proof -
  have q: "relInv cfg R base (st'\<lparr>rsRequests := rsRequests st, rsFaults := rsFaults st\<rparr>)"
    by (rule relInv_quiet [OF assms(1,3)])
  have "requestSlicesOK (tbRows (rsRequests st')) (rsRequestIDs st')"
    using requestSlicesOK_change [OF _ assms(4,5)] assms(1) by (simp add: relInv_def)
  then show ?thesis using q assms(2) by (simp add: relInv_def relDB_def)
qed

lemma relInv_block:
  assumes "relInv cfg R base st"
    and "tblOK blockIxs (rsBlocks st')"
    and "quiet st (st'\<lparr>rsBlocks := rsBlocks st, rsFaults := rsFaults st\<rparr>)"
    and "sameExcept blAccountID blTargetAccountID a b (tbRows (rsBlocks st)) (tbRows (rsBlocks st'))"
    and "rsBlockIDs st' \<subseteq>\<^sub>m invalidateSlices [a] (rsBlockIDs st)"
    and "rsVis st' \<subseteq>\<^sub>m onInvalidateBlock a b (rsVis st)"
  shows "relInv cfg R base st'"
proof -
  let ?q = "st'\<lparr>rsBlocks := rsBlocks st, rsFaults := rsFaults st\<rparr>"
  have q: "relInv cfg R base ?q" by (rule relInv_quiet [OF assms(1,3)])
  have follows: "tbRows (rsFollows st') = tbRows (rsFollows st)"
    using assms(3) by (simp add: quiet_def quietTable_def)
  have "blockSlicesOK (tbRows (rsBlocks st')) (rsBlockIDs st')"
    using blockSlicesOK_change [OF _ assms(4,5)] assms(1) by (simp add: relInv_def)
  moreover have "visAgrees cfg R (relDB base st') (rsVis st')"
  proof -
    have ex: "blockedIn (tbRows (rsBlocks st')) x y = blockedIn (tbRows (rsBlocks st)) x y"
      if "{x, y} \<noteq> {a, b}" for x y
      unfolding blockedIn_def by (rule sameExcept_ex [OF assms(4)]) (use that in auto)
    let ?D = "relDB base st"
    define g where "g = dbEitherBlocked (relDB base st')"
    have D: "relDB base st' = ?D\<lparr>dbEitherBlocked := g\<rparr>"
      using follows by (simp add: relDB_def g_def)
    have "visAgrees cfg R (relDB base st') (onInvalidateBlock a b (rsVis st))"
      unfolding D
    proof (rule visAgrees_block)
      show "wfDB R ?D" using assms(1) wfDB_relDB by (simp add: relInv_def)
      show "visAgrees cfg R ?D (rsVis st)" using assms(1) by (simp add: relInv_def)
      show "g x y = dbEitherBlocked ?D x y" if "{x, y} \<noteq> {a, b}" for x y
        using ex [OF that] ex [of y x] that by (simp add: relDB_def g_def insert_commute)
    qed
    then show ?thesis using assms(6) by (rule agrees_le)
  qed
  ultimately show ?thesis using q assms(2) by (simp add: relInv_def)
qed

subsection \<open>Lookups\<close>

text \<open>Two states with the same rows, whatever their caches hold.\<close>

definition sameData :: "relstate \<Rightarrow> relstate \<Rightarrow> bool" where
  "sameData st st' \<longleftrightarrow>
     tbRows (rsFollows st') = tbRows (rsFollows st) \<and> tbRows (rsRequests st') = tbRows (rsRequests st) \<and>
     tbRows (rsBlocks st') = tbRows (rsBlocks st) \<and> tbRows (rsEntries st') = tbRows (rsEntries st) \<and>
     rsNotifs st' = rsNotifs st \<and> rsLocalIDs st' = rsLocalIDs st \<and> rsDropped st' = rsDropped st \<and>
     rsVis st' = rsVis st"

lemma sameData_refl [simp]: "sameData st st"
  by (simp add: sameData_def)

lemma sameData_trans: "sameData s t \<Longrightarrow> sameData t u \<Longrightarrow> sameData s u"
  by (simp add: sameData_def)

text \<open>
  A read: it answers \<open>spec\<close>, or fails with the fault of a query; it keeps the invariant and the
  rows, and cannot fail where no query does.
\<close>

definition readOK :: "host_config \<Rightarrow> rows \<Rightarrow> vis_db \<Rightarrow> relstate \<Rightarrow> (lookup_error + 'a) \<Rightarrow>
    (lookup_error + 'a) \<times> relstate \<Rightarrow> bool" where
  "readOK cfg R base st spec m \<longleftrightarrow>
     relInv cfg R base (snd m) \<and> sameData st (snd m) \<and> answers (fst m) spec \<and>
     (rsFaults st = [] \<longrightarrow> fst m = spec \<and> rsFaults (snd m) = [])"

lemma readOK_return [simp]: "relInv cfg R base st \<Longrightarrow> readOK cfg R base st r (r, st)"
  by (simp add: readOK_def answers_def)

lemma readOK_andThen:
  assumes "readOK cfg R base st (Inr a) m"
    and "\<And>s. relInv cfg R base s \<Longrightarrow> sameData st s \<Longrightarrow> readOK cfg R base s spec (f a s)"
  shows "readOK cfg R base st spec (andThen m f)"
proof -
  obtain r s where m: "m = (r, s)" by fastforce
  show ?thesis
  proof (cases r)
    case (Inl e)
    then show ?thesis using assms(1) m by (auto simp: readOK_def answers_def)
  next
    case (Inr b)
    then have "b = a" and "relInv cfg R base s" and "sameData st s" and "rsFaults st = [] \<longrightarrow> rsFaults s = []"
      using assms(1) m by (auto simp: readOK_def answers_def)
    with assms(2) [of s] show ?thesis
      using m Inr sameData_trans by (auto simp: readOK_def)
  qed
qed

lemma readOK_noEntries:
  assumes "readOK cfg R base st spec m" and "\<And>e. spec = Inl e \<Longrightarrow> e = LNoEntries"
  shows "readOK cfg R base st (Inr (case spec of Inl _ \<Rightarrow> None | Inr v \<Rightarrow> Some v)) (noEntriesOK m)"
  using assms
  by (cases m; cases "fst m"; cases spec)
    (auto simp: readOK_def noEntriesOK_def answers_def ignoreErrors_def)

lemma relInv_followCache:
  assumes "relInv cfg R base st" and "tblOK followIxs t" and "tbRows t = tbRows (rsFollows st)"
  shows "relInv cfg R base (st\<lparr>rsFollows := t, rsFaults := fs\<rparr>)"
  using assms by (simp add: relInv_def relDB_def)

lemma relInv_requestCache:
  assumes "relInv cfg R base st" and "tblOK requestIxs t" and "tbRows t = tbRows (rsRequests st)"
  shows "relInv cfg R base (st\<lparr>rsRequests := t, rsFaults := fs\<rparr>)"
  using assms by (simp add: relInv_def relDB_def)

lemma relInv_blockCache:
  assumes "relInv cfg R base st" and "tblOK blockIxs t" and "tbRows t = tbRows (rsBlocks st)"
  shows "relInv cfg R base (st\<lparr>rsBlocks := t, rsFaults := fs\<rparr>)"
  using assms by (simp add: relInv_def relDB_def)

lemma loadFollow_ok:
  assumes "relInv cfg R base st" and "i \<in> set followIxs" and "\<not> ixMultiple i"
  obtains r t fs where
    "loadFollow (ixName i) parts (\<lambda>v. ixFields i v = parts) st = (r, st\<lparr>rsFollows := t, rsFaults := fs\<rparr>)"
    "tblOK followIxs t" "tbRows t = tbRows (rsFollows st)"
    "answers r (rowsLookup i parts (tbRows (rsFollows st)))"
    "rsFaults st = [] \<Longrightarrow> r = rowsLookup i parts (tbRows (rsFollows st)) \<and> fs = []"
    "\<And>v. r = Inr v \<Longrightarrow> getValues (ixKey i parts) (tbCache t) = [v]"
proof -
  obtain r fs t where l: "loadRow followIxs (ixName i) parts (\<lambda>v. ixFields i v = parts) (rsFaults st) (rsFollows st) =
      (r, fs, t)" by (metis prod.exhaust)
  have ok: "tblOK followIxs (rsFollows st)" using assms(1) by (simp add: relInv_def)
  show ?thesis
    using that [where r = r and t = t and fs = fs] fol.loadRow_ok [OF ok assms(2,3) l] l by (auto simp: loadFollow_def)
qed

lemma loadRequest_ok:
  assumes "relInv cfg R base st" and "i \<in> set requestIxs" and "\<not> ixMultiple i"
  obtains r t fs where
    "loadRequest (ixName i) parts (\<lambda>v. ixFields i v = parts) st = (r, st\<lparr>rsRequests := t, rsFaults := fs\<rparr>)"
    "tblOK requestIxs t" "tbRows t = tbRows (rsRequests st)"
    "answers r (rowsLookup i parts (tbRows (rsRequests st)))"
    "rsFaults st = [] \<Longrightarrow> r = rowsLookup i parts (tbRows (rsRequests st)) \<and> fs = []"
    "\<And>v. r = Inr v \<Longrightarrow> getValues (ixKey i parts) (tbCache t) = [v]"
proof -
  obtain r fs t where l: "loadRow requestIxs (ixName i) parts (\<lambda>v. ixFields i v = parts) (rsFaults st) (rsRequests st) =
      (r, fs, t)" by (metis prod.exhaust)
  have ok: "tblOK requestIxs (rsRequests st)" using assms(1) by (simp add: relInv_def)
  show ?thesis
    using that [where r = r and t = t and fs = fs] req.loadRow_ok [OF ok assms(2,3) l] l by (auto simp: loadRequest_def)
qed

lemma loadBlock_ok:
  assumes "relInv cfg R base st" and "i \<in> set blockIxs" and "\<not> ixMultiple i"
  obtains r t fs where
    "loadBlock (ixName i) parts (\<lambda>v. ixFields i v = parts) st = (r, st\<lparr>rsBlocks := t, rsFaults := fs\<rparr>)"
    "tblOK blockIxs t" "tbRows t = tbRows (rsBlocks st)"
    "answers r (rowsLookup i parts (tbRows (rsBlocks st)))"
    "rsFaults st = [] \<Longrightarrow> r = rowsLookup i parts (tbRows (rsBlocks st)) \<and> fs = []"
    "\<And>v. r = Inr v \<Longrightarrow> getValues (ixKey i parts) (tbCache t) = [v]"
proof -
  obtain r fs t where l: "loadRow blockIxs (ixName i) parts (\<lambda>v. ixFields i v = parts) (rsFaults st) (rsBlocks st) =
      (r, fs, t)" by (metis prod.exhaust)
  have ok: "tblOK blockIxs (rsBlocks st)" using assms(1) by (simp add: relInv_def)
  show ?thesis
    using that [where r = r and t = t and fs = fs] blk.loadRow_ok [OF ok assms(2,3) l] l by (auto simp: loadBlock_def)
qed

lemma readOK_loadFollow:
  assumes "relInv cfg R base st" and "i \<in> set followIxs" and "\<not> ixMultiple i"
  shows "readOK cfg R base st (rowsLookup i parts (tbRows (rsFollows st)))
    (loadFollow (ixName i) parts (\<lambda>v. ixFields i v = parts) st)"
  by (rule loadFollow_ok [OF assms, of parts])
    (use relInv_followCache [OF assms(1)] in \<open>auto simp: readOK_def sameData_def\<close>)

lemma readOK_loadRequest:
  assumes "relInv cfg R base st" and "i \<in> set requestIxs" and "\<not> ixMultiple i"
  shows "readOK cfg R base st (rowsLookup i parts (tbRows (rsRequests st)))
    (loadRequest (ixName i) parts (\<lambda>v. ixFields i v = parts) st)"
  by (rule loadRequest_ok [OF assms, of parts])
    (use relInv_requestCache [OF assms(1)] in \<open>auto simp: readOK_def sameData_def\<close>)

lemma readOK_loadBlock:
  assumes "relInv cfg R base st" and "i \<in> set blockIxs" and "\<not> ixMultiple i"
  shows "readOK cfg R base st (rowsLookup i parts (tbRows (rsBlocks st)))
    (loadBlock (ixName i) parts (\<lambda>v. ixFields i v = parts) st)"
  by (rule loadBlock_ok [OF assms, of parts])
    (use relInv_blockCache [OF assms(1)] in \<open>auto simp: readOK_def sameData_def\<close>)

text \<open>The lookups of the program are lookups of an index.\<close>

abbreviation followPair :: "follow sindex" where
  "followPair \<equiv> pairIndex foAccountID foTargetAccountID"
abbreviation requestPair :: "follow_request sindex" where
  "requestPair \<equiv> pairIndex frAccountID frTargetAccountID"
abbreviation blockPair :: "block sindex" where
  "blockPair \<equiv> pairIndex blAccountID blTargetAccountID"

lemma getFollow'_load:
  "getFollow' a b = loadFollow (ixName followPair) [a, b] (\<lambda>v. ixFields followPair v = [a, b])"
  "getFollowByID' x = loadFollow (ixName (idIndex foID)) [x] (\<lambda>v. ixFields (idIndex foID) v = [x])"
  "getFollowByURI' x = loadFollow (ixName (uriIndex foURI)) [x] (\<lambda>v. ixFields (uriIndex foURI) v = [x])"
  by (simp_all add: getFollow'_def getFollowByID'_def getFollowByURI'_def)

lemma getFollowRequest'_load:
  "getFollowRequest' a b = loadRequest (ixName requestPair) [a, b] (\<lambda>v. ixFields requestPair v = [a, b])"
  "getFollowRequestByID' x = loadRequest (ixName (idIndex frID)) [x] (\<lambda>v. ixFields (idIndex frID) v = [x])"
  "getFollowRequestByURI' x = loadRequest (ixName (uriIndex frURI)) [x] (\<lambda>v. ixFields (uriIndex frURI) v = [x])"
  by (simp_all add: getFollowRequest'_def getFollowRequestByID'_def getFollowRequestByURI'_def)

lemma getBlock'_load:
  "getBlock' a b = loadBlock (ixName blockPair) [a, b] (\<lambda>v. ixFields blockPair v = [a, b])"
  "getBlockByID' x = loadBlock (ixName (idIndex blID)) [x] (\<lambda>v. ixFields (idIndex blID) v = [x])"
  "getBlockByURI' x = loadBlock (ixName (uriIndex blURI)) [x] (\<lambda>v. ixFields (uriIndex blURI) v = [x])"
  by (simp_all add: getBlock'_def getBlockByID'_def getBlockByURI'_def)

lemma rowsLookup_error: "rowsLookup i parts rows = Inl e \<Longrightarrow> e = LNoEntries"
  using rowsLookup_Inl by metis

lemma rowsLookup_isSome:
  "((case rowsLookup i parts rows of Inl _ \<Rightarrow> None | Inr v \<Rightarrow> Some v) \<noteq> None) =
    list_ex (\<lambda>v. ixFields i v = parts) rows"
  by (auto simp: rowsLookup_def list_ex_iff find_None_set dest: find_Some_set split: option.split)

lemma readOK_isFollowing:
  assumes "relInv cfg R base st"
  shows "readOK cfg R base st (Inr (followingIn (tbRows (rsFollows st)) a b)) (isFollowing a b st)"
  unfolding isFollowing_def getFollow'_load
proof (rule readOK_andThen [OF readOK_noEntries [OF readOK_loadFollow [OF assms]]])
  fix s assume "relInv cfg R base s"
  then show "readOK cfg R base s (Inr (followingIn (tbRows (rsFollows st)) a b))
      (Inr ((case rowsLookup followPair [a, b] (tbRows (rsFollows st)) of Inl _ \<Rightarrow> None | Inr v \<Rightarrow> Some v) \<noteq> None), s)"
    unfolding rowsLookup_isSome followingIn_def by simp
qed (simp_all add: rowsLookup_error)

lemma readOK_isFollowRequested:
  assumes "relInv cfg R base st"
  shows "readOK cfg R base st (Inr (requestedIn (tbRows (rsRequests st)) a b)) (isFollowRequested a b st)"
  unfolding isFollowRequested_def getFollowRequest'_load
proof (rule readOK_andThen [OF readOK_noEntries [OF readOK_loadRequest [OF assms]]])
  fix s assume "relInv cfg R base s"
  then show "readOK cfg R base s (Inr (requestedIn (tbRows (rsRequests st)) a b))
      (Inr ((case rowsLookup requestPair [a, b] (tbRows (rsRequests st)) of Inl _ \<Rightarrow> None | Inr v \<Rightarrow> Some v) \<noteq> None), s)"
    unfolding rowsLookup_isSome requestedIn_def by simp
qed (simp_all add: rowsLookup_error)

lemma readOK_isBlocked:
  assumes "relInv cfg R base st"
  shows "readOK cfg R base st (Inr (blockedIn (tbRows (rsBlocks st)) a b)) (isBlocked a b st)"
  unfolding isBlocked_def getBlock'_load
proof (rule readOK_andThen [OF readOK_noEntries [OF readOK_loadBlock [OF assms]]])
  fix s assume "relInv cfg R base s"
  then show "readOK cfg R base s (Inr (blockedIn (tbRows (rsBlocks st)) a b))
      (Inr ((case rowsLookup blockPair [a, b] (tbRows (rsBlocks st)) of Inl _ \<Rightarrow> None | Inr v \<Rightarrow> Some v) \<noteq> None), s)"
    unfolding rowsLookup_isSome blockedIn_def by simp
qed (simp_all add: rowsLookup_error)

text \<open>The same in a later state with the same rows.\<close>

lemma readOK_later:
  "relInv cfg R base s \<Longrightarrow> sameData st s \<Longrightarrow>
    readOK cfg R base s (Inr (followingIn (tbRows (rsFollows st)) a b)) (isFollowing a b s)"
  "relInv cfg R base s \<Longrightarrow> sameData st s \<Longrightarrow>
    readOK cfg R base s (Inr (requestedIn (tbRows (rsRequests st)) a b)) (isFollowRequested a b s)"
  "relInv cfg R base s \<Longrightarrow> sameData st s \<Longrightarrow>
    readOK cfg R base s (Inr (blockedIn (tbRows (rsBlocks st)) a b)) (isBlocked a b s)"
  using readOK_isFollowing [of cfg R base s] readOK_isFollowRequested [of cfg R base s]
    readOK_isBlocked [of cfg R base s] by (simp_all add: sameData_def)

lemma readOK_isEitherBlocked:
  assumes "relInv cfg R base st"
  shows "readOK cfg R base st
    (Inr (blockedIn (tbRows (rsBlocks st)) a b \<or> blockedIn (tbRows (rsBlocks st)) b a)) (isEitherBlocked a b st)"
  unfolding isEitherBlocked_def
proof (rule readOK_andThen [OF readOK_isBlocked [OF assms]])
  fix s1 assume 1: "relInv cfg R base s1" "sameData st s1"
  have "readOK cfg R base s1 (Inr (blockedIn (tbRows (rsBlocks st)) b a))
      (andThen (isBlocked b a s1) (\<lambda>b2 st2. if b2 then (Inr True, st2) else (Inr False, st2)))"
    by (rule readOK_andThen [OF readOK_later(3) [OF 1]]) auto
  then show "readOK cfg R base s1 (Inr (blockedIn (tbRows (rsBlocks st)) a b \<or> blockedIn (tbRows (rsBlocks st)) b a))
      (if blockedIn (tbRows (rsBlocks st)) a b then (Inr True, s1)
       else andThen (isBlocked b a s1) (\<lambda>b2 st2. if b2 then (Inr True, st2) else (Inr False, st2)))"
    using 1 by auto
qed

lemma readOK_isMutualFollowing:
  assumes "relInv cfg R base st"
  shows "readOK cfg R base st
    (Inr (followingIn (tbRows (rsFollows st)) a b \<and> followingIn (tbRows (rsFollows st)) b a)) (isMutualFollowing a b st)"
  unfolding isMutualFollowing_def
proof (rule readOK_andThen [OF readOK_isFollowing [OF assms]])
  fix s1 assume 1: "relInv cfg R base s1" "sameData st s1"
  have "readOK cfg R base s1 (Inr (followingIn (tbRows (rsFollows st)) b a))
      (andThen (isFollowing b a s1) (\<lambda>f2 st2. if \<not> f2 then (Inr False, st2) else (Inr True, st2)))"
    by (rule readOK_andThen [OF readOK_later(1) [OF 1]]) auto
  then show "readOK cfg R base s1 (Inr (followingIn (tbRows (rsFollows st)) a b \<and> followingIn (tbRows (rsFollows st)) b a))
      (if \<not> followingIn (tbRows (rsFollows st)) a b then (Inr False, s1)
       else andThen (isFollowing b a s1) (\<lambda>f2 st2. if \<not> f2 then (Inr False, st2) else (Inr True, st2)))"
    using 1 by auto
qed

subsection \<open>Writes of follows\<close>

lemma relInv_hookFollow:
  assumes "relInv cfg R base st" and "tblOK followIxs t"
    and "sameExcept foAccountID foTargetAccountID (foAccountID f) (foTargetAccountID f) (tbRows (rsFollows st)) (tbRows t)"
  shows "relInv cfg R base (hookFollow f (st\<lparr>rsFollows := t, rsFaults := fs\<rparr>))"
proof -
  let ?s = "st\<lparr>rsFollows := t, rsFaults := fs\<rparr>"
  have q: "quiet ?s (hookFollow f ?s)" by (rule quiet_hooks)
  note eff = hookFollow_effect [of f ?s]
  show ?thesis
  proof (rule relInv_follow [OF assms(1), where a = "foAccountID f" and b = "foTargetAccountID f"])
    show "tblOK followIxs (rsFollows (hookFollow f ?s))" "tblOK requestIxs (rsRequests (hookFollow f ?s))"
      "tblOK entryIxs (rsEntries (hookFollow f ?s))"
      using q assms(1,2) quietTable_OK by (fastforce simp: quiet_def relInv_def)+
    show "sameExcept foAccountID foTargetAccountID (foAccountID f) (foTargetAccountID f)
        (tbRows (rsFollows st)) (tbRows (rsFollows (hookFollow f ?s)))"
      using q assms(3) by (simp add: quiet_def quietTable_def)
    show "rsFollowIDs (hookFollow f ?s) \<subseteq>\<^sub>m
        invalidateSlices (followSliceKeys (foAccountID f) (foTargetAccountID f)) (rsFollowIDs st)"
      using eff(1) by simp
    show "rsVis (hookFollow f ?s) \<subseteq>\<^sub>m onInvalidateFollow (foAccountID f) (foTargetAccountID f) (rsVis st)"
      using eff(2) by simp
  qed (use q in \<open>auto simp: quiet_def quietTable_def\<close>)
qed

text \<open>What a write leaves alone: the rows of the tables it does not name.\<close>

definition otherRows :: "relstate \<Rightarrow> relstate \<Rightarrow> bool" where
  "otherRows st st' \<longleftrightarrow> tbRows (rsBlocks st') = tbRows (rsBlocks st) \<and> rsLocalIDs st' = rsLocalIDs st"

lemma quiet_rows:
  "quiet st st' \<Longrightarrow> tbRows (rsFollows st') = tbRows (rsFollows st)"
  "quiet st st' \<Longrightarrow> tbRows (rsRequests st') = tbRows (rsRequests st)"
  "quiet st st' \<Longrightarrow> tbRows (rsBlocks st') = tbRows (rsBlocks st)"
  "quiet st st' \<Longrightarrow> tbRows (rsEntries st') = tbRows (rsEntries st)"
  "quiet st st' \<Longrightarrow> rsNotifs st' = rsNotifs st"
  "quiet st st' \<Longrightarrow> rsLocalIDs st' = rsLocalIDs st"
  "quiet st st' \<Longrightarrow> rsDropped st' = rsDropped st"
  "quiet st st' \<Longrightarrow> rsFaults st' = rsFaults st"
  by (simp_all add: quiet_def quietTable_def)

lemma hook_rows [simp]:
  "tbRows (rsFollows (hookFollow f st)) = tbRows (rsFollows st)"
  "tbRows (rsRequests (hookFollow f st)) = tbRows (rsRequests st)"
  "tbRows (rsBlocks (hookFollow f st)) = tbRows (rsBlocks st)"
  "tbRows (rsEntries (hookFollow f st)) = tbRows (rsEntries st)"
  "rsNotifs (hookFollow f st) = rsNotifs st" "rsLocalIDs (hookFollow f st) = rsLocalIDs st"
  "rsDropped (hookFollow f st) = rsDropped st" "rsFaults (hookFollow f st) = rsFaults st"
  "tbRows (rsFollows (hookRequest r st)) = tbRows (rsFollows st)"
  "tbRows (rsRequests (hookRequest r st)) = tbRows (rsRequests st)"
  "tbRows (rsBlocks (hookRequest r st)) = tbRows (rsBlocks st)"
  "tbRows (rsEntries (hookRequest r st)) = tbRows (rsEntries st)"
  "rsNotifs (hookRequest r st) = rsNotifs st" "rsLocalIDs (hookRequest r st) = rsLocalIDs st"
  "rsDropped (hookRequest r st) = rsDropped st" "rsFaults (hookRequest r st) = rsFaults st"
  using quiet_rows [OF quiet_hooks(1)] quiet_rows [OF quiet_hooks(2)] by simp_all

lemma putFollow_ok:
  assumes "relInv cfg R base st" and "putFollow f st = (e, st')"
  shows "relInv cfg R base st'"
    and "tbRows (rsFollows st') = (if e = None then tbRows (rsFollows st) @ [f] else tbRows (rsFollows st))"
    and "tbRows (rsRequests st') = tbRows (rsRequests st)" and "tbRows (rsBlocks st') = tbRows (rsBlocks st)"
    and "rsFaults st = [] \<Longrightarrow> rsFaults st' = []"
proof -
  obtain fs t where s: "storeRow followIxs f (insertRow followIxs f) (rsFaults st) (rsFollows st) = (e, fs, t)"
      and st': "st' = hookFollow f (st\<lparr>rsFollows := t, rsFaults := fs\<rparr>)"
    using assms(2) by (auto simp: putFollow_def split: prod.splits)
  have ok: "tblOK followIxs (rsFollows st)" using assms(1) by (simp add: relInv_def)
  note ins = fol.storeRow_insert [OF ok s]
  have "sameExcept foAccountID foTargetAccountID (foAccountID f) (foTargetAccountID f)
      (tbRows (rsFollows st)) (tbRows t)"
    using ins(2) sameExcept_append [of foAccountID foTargetAccountID f] by simp
  then show "relInv cfg R base st'" unfolding st' by (rule relInv_hookFollow [OF assms(1) ins(1)])
  show "tbRows (rsFollows st') = (if e = None then tbRows (rsFollows st) @ [f] else tbRows (rsFollows st))"
    and "tbRows (rsRequests st') = tbRows (rsRequests st)" and "tbRows (rsBlocks st') = tbRows (rsBlocks st)"
    using ins(2) by (simp_all add: st')
  show "rsFaults st' = []" if "rsFaults st = []"
    using s that by (auto simp: st' storeRow_def insertRow_def split: sum.splits if_splits)
qed

text \<open>The columns that the program updates alone.\<close>

definition settingsOnly :: "string list \<Rightarrow> bool" where
  "settingsOnly cols \<longleftrightarrow> cols \<noteq> [] \<and> set cols \<subseteq> {''show_reblogs'', ''notify''}"

definition followVersion :: "string list \<Rightarrow> follow \<Rightarrow> follow \<Rightarrow> bool" where
  "followVersion cols r f \<longleftrightarrow>
     (\<exists>u s n. f = r\<lparr>foUpdatedAt := u, foShowReblogs := s, foNotify := n\<rparr> \<and>
        (s \<noteq> foShowReblogs r \<longrightarrow> ''show_reblogs'' \<in> set cols) \<and> (n \<noteq> foNotify r \<longrightarrow> ''notify'' \<in> set cols))"

lemma fold_followCol:
  "set cols \<subseteq> {''show_reblogs'', ''notify'', ''updated_at''} \<Longrightarrow>
    fold (followCol f) cols r = r\<lparr>
      foUpdatedAt := if ''updated_at'' \<in> set cols then foUpdatedAt f else foUpdatedAt r,
      foShowReblogs := if ''show_reblogs'' \<in> set cols then foShowReblogs f else foShowReblogs r,
      foNotify := if ''notify'' \<in> set cols then foNotify f else foNotify r\<rparr>"
proof (induction cols arbitrary: r)
  case (Cons c cols)
  then have "c = ''show_reblogs'' \<or> c = ''notify'' \<or> c = ''updated_at''" by simp
  then show ?case using Cons by (elim disjE) (simp_all add: followCol_def)
qed simp

lemma updateFollow_ok:
  assumes "relInv cfg R base st" and "r \<in> set (tbRows (rsFollows st))" and "followVersion cols r f"
    and "settingsOnly cols" and "updateFollow now f cols st = (e, st')"
  shows "relInv cfg R base st'"
    and "tbRows (rsFollows st') = (if e = None
      then map (\<lambda>x. if x = r then f\<lparr>foUpdatedAt := now\<rparr> else x) (tbRows (rsFollows st)) else tbRows (rsFollows st))"
    and "tbRows (rsRequests st') = tbRows (rsRequests st)" and "tbRows (rsBlocks st') = tbRows (rsBlocks st)"
    and "rsFaults st = [] \<Longrightarrow> e = None \<and> rsFaults st' = []"
proof -
  let ?f = "f\<lparr>foUpdatedAt := now\<rparr>" and ?cols = "cols @ [''updated_at'']"
  let ?stmt = "updateRow (\<lambda>x. foID x = foID ?f) (\<lambda>x. fold (followCol ?f) ?cols x)"
  have ne: "cols \<noteq> []" using assms(4) by (simp add: settingsOnly_def)
  obtain fs t where s: "storeRow followIxs ?f ?stmt (rsFaults st) (rsFollows st) = (e, fs, t)"
      and st': "st' = hookFollow ?f (st\<lparr>rsFollows := t, rsFaults := fs\<rparr>)"
    using assms(5) ne by (auto simp: updateFollow_def Let_def split: prod.splits)
  have ok: "tblOK followIxs (rsFollows st)" using assms(1) by (simp add: relInv_def)
  obtain u b n where f: "f = r\<lparr>foUpdatedAt := u, foShowReblogs := b, foNotify := n\<rparr>"
      "b \<noteq> foShowReblogs r \<longrightarrow> ''show_reblogs'' \<in> set cols" "n \<noteq> foNotify r \<longrightarrow> ''notify'' \<in> set cols"
    using assms(3) by (auto simp: followVersion_def)
  have ids: "foID f = foID r" "foURI f = foURI r" "foAccountID f = foAccountID r"
      "foTargetAccountID f = foTargetAccountID r" by (simp_all add: f(1))
  have P: "foID x = foID ?f \<longleftrightarrow> x = r" if "x \<in> set (tbRows (rsFollows st))" for x
  proof
    assume "foID x = foID ?f"
    then have "ixFields (idIndex foID) x = ixFields (idIndex foID) r" by (simp add: ids)
    then show "x = r"
      using fol.tableOK_unique [of "tbRows (rsFollows st)" "idIndex foID" x r] ok that assms(2)
      by (simp add: tblOK_def)
  qed (simp add: ids)
  have g: "fold (followCol ?f) ?cols r = ?f"
  proof -
    have "set ?cols \<subseteq> {''show_reblogs'', ''notify'', ''updated_at''}"
      using assms(4) by (auto simp: settingsOnly_def)
    from fold_followCol [OF this, of ?f r] show ?thesis using f by (cases "''show_reblogs'' \<in> set cols"; cases "''notify'' \<in> set cols") simp_all
  qed
  have fields: "ixFields i ?f = ixFields i r" if "i \<in> set followIxs" for i
    using that ids by (auto simp: index_defs)
  have upd: "tblOK followIxs t"
    "tbRows t = (if e = None then map (\<lambda>x. if x = r then ?f else x) (tbRows (rsFollows st)) else tbRows (rsFollows st))"
    "rsFaults st = [] \<Longrightarrow> e = None \<and> fs = []"
    by (rule fol.storeRow_update [where P = "\<lambda>x. foID x = foID ?f", OF ok assms(2) P g fields s]; assumption)+
  have "sameExcept foAccountID foTargetAccountID (foAccountID ?f) (foTargetAccountID ?f)
      (tbRows (rsFollows st)) (tbRows t)"
    using upd(2) sameExcept_map [of "tbRows (rsFollows st)" "\<lambda>x. if x = r then ?f else x" foAccountID
        "foAccountID ?f" foTargetAccountID "foTargetAccountID ?f"]
    by (cases e) (auto simp: ids)
  then show "relInv cfg R base st'" unfolding st' by (rule relInv_hookFollow [OF assms(1) upd(1)])
  show "tbRows (rsFollows st') = (if e = None
      then map (\<lambda>x. if x = r then ?f else x) (tbRows (rsFollows st)) else tbRows (rsFollows st))"
    and "tbRows (rsRequests st') = tbRows (rsRequests st)" and "tbRows (rsBlocks st') = tbRows (rsBlocks st)"
    using upd(2) by (simp_all add: st')
  show "e = None \<and> rsFaults st' = []" if "rsFaults st = []"
    using upd(3) [OF that] by (simp add: st')
qed

subsection \<open>Deletions\<close>

lemma execDelete_cases:
  assumes "execDelete P fs t = (e, fs', t')"
  shows "tbCache t' = tbCache t" and "tbRows t' = (if e = None then filter (\<lambda>v. \<not> P v) (tbRows t) else tbRows t)"
    and "fs = [] \<Longrightarrow> e = None \<and> fs' = []"
  using assms by (auto simp: execDelete_def deleteRows_def split: sum.splits prod.splits option.splits)

context indexed
begin

text \<open>
  A row is deleted by its columns under a unique index, and the items that the index leads to
  are invalidated, before or after items went for other reasons.
\<close>

lemma tblOK_deleted:
  assumes "tblOK ixs t" and "i \<in> set ixs" and "\<not> ixMultiple i"
    and "tbRows u = filter (\<lambda>v. ixFields i v \<noteq> parts) (tbRows t) \<or> tbRows u = tbRows t"
    and "cacheInv ixs (tbRows t) (tbCache u)" and "holders (ixKey i parts) (tbCache u) = []"
  shows "tblOK ixs u"
proof -
  have tab: "tableOK ixs (tbRows t)" and inv: "cacheInv ixs (tbRows t) (tbCache t)"
    using assms(1) by (simp_all add: tblOK_def)
  have sub: "tableOK ixs rows'" if "distinct rows'" "set rows' \<subseteq> set (tbRows t)" for rows'
    using tab that unfolding tableOK_def by blast
  show ?thesis
  proof (cases "tbRows u = tbRows t")
    case True
    then show ?thesis using assms(5) tab by (simp add: tblOK_def)
  next
    case False
    then have u: "tbRows u = filter (\<lambda>v. ixFields i v \<noteq> parts) (tbRows t)" using assms(4) by simp
    with False obtain v where v: "v \<in> set (tbRows t)" "ixFields i v = parts"
      by (auto simp: filter_id_conv)
    have "set (tbRows u) = {w \<in> set (tbRows t). w \<noteq> v}"
      unfolding u using tableOK_unique [OF tab assms(2,3) _ v(1)] v(2) by auto
    then have "cacheInv ixs (tbRows u) (tbCache u)"
      using cacheInv_without [OF assms(5,2,3), of "tbRows u" v] assms(6) v(2) by simp
    moreover have "distinct (tbRows u)" using tab by (simp add: u tableOK_def)
    ultimately show ?thesis using sub [of "tbRows u"] u by (auto simp: tblOK_def)
  qed
qed

end

text \<open>List entries: their table, the faults and the dropped timelines are all that changes.\<close>

lemma deleteListEntry_ok:
  assumes "tblOK entryIxs (rsEntries st)" and "deleteListEntry i st = (e, st')"
  obtains t fs d where "st' = st\<lparr>rsEntries := t, rsFaults := fs, rsDropped := d\<rparr>" and "tblOK entryIxs t"
    and "e = None \<Longrightarrow> tbRows t = filter (\<lambda>x. leID x \<noteq> i) (tbRows (rsEntries st))"
    and "rsFaults st = [] \<Longrightarrow> e = None \<and> fs = []"
proof -
  let ?ix = "idIndex leID :: list_entry sindex"
  obtain r fs t where l0: "loadRow entryIxs ''ID'' [i] (\<lambda>x. leID x = i) (rsFaults st) (rsEntries st) = (r, fs, t)"
    by (metis prod.exhaust)
  then have l: "loadRow entryIxs (ixName ?ix) [i] (\<lambda>x. ixFields ?ix x = [i]) (rsFaults st) (rsEntries st) = (r, fs, t)"
    by simp
  note ok = ent.loadRow_ok [OF assms(1) index_mem(10) index_names(7) l]
  show ?thesis
  proof (cases r)
    case (Inl err)
    then have s: "st' = st\<lparr>rsEntries := t, rsFaults := fs, rsDropped := rsDropped st\<rparr>"
        "e = (if err = LNoEntries then None else Some err)"
      using assms(2) l0 by (auto simp: deleteListEntry_def)
    have same: "filter (\<lambda>x. leID x \<noteq> i) (tbRows (rsEntries st)) = tbRows (rsEntries st)" if "err = LNoEntries"
      using ent.loadRow_missing [OF assms(1) index_mem(10) index_names(7) l [unfolded Inl that]]
      by (simp add: filter_id_conv)
    have none: "err = LNoEntries" if "rsFaults st = []" using ok(4) [OF that] Inl rowsLookup_Inl by metis
    show ?thesis
    proof (rule that [OF s(1) ok(2)])
      show "tbRows t = filter (\<lambda>x. leID x \<noteq> i) (tbRows (rsEntries st))" if "e = None"
        using same s(2) that ok(3) by (simp split: if_splits)
      show "e = None \<and> fs = []" if "rsFaults st = []" using none ok(4) s(2) that by simp
    qed
  next
    case (Inr en)
    obtain err fs' t' where x: "execDelete (\<lambda>x. leID x = i) fs t = (err, fs', t')" by (metis prod.exhaust)
    then have s: "st' = st\<lparr>rsEntries := snd (dropKey (key1 ''ID'' i) t'), rsFaults := fs',
          rsDropped := rsDropped st @ [leListID en]\<rparr>" "e = err"
      using assms(2) l0 Inr by (auto simp: deleteListEntry_def)
    let ?u = "snd (dropKey (key1 ''ID'' i) t')"
    note del = execDelete_cases [OF x]
    note k = key_ixKey(1) [of i "leID :: list_entry \<Rightarrow> string"]
    have rows: "tbRows ?u = tbRows t'" by (simp add: dropKey_def split: prod.split)
    have cache: "tbCache ?u = snd (invalidateKey (key1 ''ID'' i) (tbCache t))"
      using del(1) by (simp add: dropKey_def split: prod.split)
    have "tblOK entryIxs ?u"
    proof (rule ent.tblOK_deleted [OF ok(2) index_mem(10) index_names(7)])
      show "tbRows ?u = filter (\<lambda>v. ixFields ?ix v \<noteq> [i]) (tbRows t) \<or> tbRows ?u = tbRows t"
        using rows del(2) by (cases err) auto
      show "cacheInv entryIxs (tbRows t) (tbCache ?u)"
        unfolding cache using ok(2) ent.cacheInv_invalidateKey by (simp add: tblOK_def)
      show "holders (ixKey ?ix [i]) (tbCache ?u) = []"
        unfolding cache k [symmetric] by (rule holders_invalidateKey)
    qed
    then show ?thesis
    proof (rule that [OF s(1)])
      show "tbRows ?u = filter (\<lambda>x. leID x \<noteq> i) (tbRows (rsEntries st))" if "e = None"
        using that s(2) rows del(2) ok(3) by simp
      show "e = None \<and> fs' = []" if "rsFaults st = []" using del(3) ok(4) s(2) that by simp
    qed
  qed
qed

lemma deleteEntries_ok:
  assumes "tblOK entryIxs (rsEntries st)" and "deleteEntries is st = (e, st')"
  shows "\<exists>t fs d. st' = st\<lparr>rsEntries := t, rsFaults := fs, rsDropped := d\<rparr> \<and> tblOK entryIxs t \<and>
    (e = None \<longrightarrow> tbRows t = filter (\<lambda>x. leID x \<notin> set is) (tbRows (rsEntries st))) \<and>
    (rsFaults st = [] \<longrightarrow> e = None \<and> fs = [])"
  using assms
proof (induction "is" arbitrary: st)
  case Nil
  then have "st' = st" "e = None" by auto
  moreover have "st = st\<lparr>rsEntries := rsEntries st, rsFaults := rsFaults st, rsDropped := rsDropped st\<rparr>" by simp
  ultimately show ?case using Nil(1) by fastforce
next
  case (Cons i "is")
  obtain e1 st1 where d: "deleteListEntry i st = (e1, st1)" by fastforce
  from Cons.prems(1) d obtain t fs d1 where 1: "st1 = st\<lparr>rsEntries := t, rsFaults := fs, rsDropped := d1\<rparr>"
    "tblOK entryIxs t" "e1 = None \<longrightarrow> tbRows t = filter (\<lambda>x. leID x \<noteq> i) (tbRows (rsEntries st))"
    "rsFaults st = [] \<longrightarrow> e1 = None \<and> fs = []"
    by (metis deleteListEntry_ok)
  show ?case
  proof (cases e1)
    case (Some err)
    then show ?thesis using Cons.prems(2) d 1 by fastforce
  next
    case None
    then have "deleteEntries is st1 = (e, st')" using Cons.prems(2) d by simp
    moreover have "tblOK entryIxs (rsEntries st1)" using 1 by simp
    ultimately obtain t2 fs2 d2 where 2: "st' = st1\<lparr>rsEntries := t2, rsFaults := fs2, rsDropped := d2\<rparr>"
      "tblOK entryIxs t2" "e = None \<longrightarrow> tbRows t2 = filter (\<lambda>x. leID x \<notin> set is) (tbRows (rsEntries st1))"
      "rsFaults st1 = [] \<longrightarrow> e = None \<and> fs2 = []"
      using Cons.IH by blast
    have "st' = st\<lparr>rsEntries := t2, rsFaults := fs2, rsDropped := d2\<rparr>" using 1(1) 2(1) by simp
    moreover have "e = None \<longrightarrow> tbRows t2 = filter (\<lambda>x. leID x \<notin> set (i # is)) (tbRows (rsEntries st))"
      using 1 2 None by (auto intro: filter_cong)
    moreover have "rsFaults st = [] \<longrightarrow> e = None \<and> fs2 = []" using 1 2 by auto
    ultimately show ?thesis using 2(2) by blast
  qed
qed

lemma deleteListEntriesForFollowID_ok:
  assumes "tblOK entryIxs (rsEntries st)" and "deleteListEntriesForFollowID i st = (e, st')"
  shows "\<exists>t fs d. st' = st\<lparr>rsEntries := t, rsFaults := fs, rsDropped := d\<rparr> \<and> tblOK entryIxs t \<and>
    (e = None \<longrightarrow> tbRows t = filter (\<lambda>x. leFollowID x \<noteq> i) (tbRows (rsEntries st))) \<and>
    (rsFaults st = [] \<longrightarrow> e = None \<and> fs = [])"
proof (cases "nextFault (rsFaults st)")
  case (Pair f fs)
  show ?thesis
  proof (cases f)
    case (Some err)
    then have "e = Some err" "st' = st\<lparr>rsEntries := rsEntries st, rsFaults := fs, rsDropped := rsDropped st\<rparr>"
      and "rsFaults st \<noteq> []"
      using assms(2) Pair by (auto simp: deleteListEntriesForFollowID_def)
    then show ?thesis using assms(1) by blast
  next
    case None
    let ?ids = "descIDs (map leID (filter (\<lambda>x. leFollowID x = i) (tbRows (rsEntries st))))"
    have d: "deleteEntries ?ids (st\<lparr>rsFaults := fs\<rparr>) = (e, st')"
      using assms(2) Pair None by (simp add: deleteListEntriesForFollowID_def)
    have ok: "tblOK entryIxs (rsEntries (st\<lparr>rsFaults := fs\<rparr>))" using assms(1) by simp
    obtain t fs2 d2 where 2: "st' = st\<lparr>rsFaults := fs\<rparr>\<lparr>rsEntries := t, rsFaults := fs2, rsDropped := d2\<rparr>"
      "tblOK entryIxs t" "e = None \<longrightarrow> tbRows t = filter (\<lambda>x. leID x \<notin> set ?ids) (tbRows (rsEntries st))"
      "fs = [] \<longrightarrow> e = None \<and> fs2 = []"
      using deleteEntries_ok [OF ok d] by auto
    have uni: "x = y" if "x \<in> set (tbRows (rsEntries st))" "y \<in> set (tbRows (rsEntries st))" "leID x = leID y" for x y
      using ent.tableOK_unique [of "tbRows (rsEntries st)" "idIndex leID" x y] assms(1) that by (simp add: tblOK_def)
    have "filter (\<lambda>x. leID x \<notin> set ?ids) (tbRows (rsEntries st)) =
        filter (\<lambda>x. leFollowID x \<noteq> i) (tbRows (rsEntries st))"
      using uni by (intro filter_cong) (auto simp: descIDs_def)
    moreover have "rsFaults st = [] \<longrightarrow> fs = []" using Pair by auto
    ultimately show ?thesis using 2 by (intro exI [of _ t] exI [of _ fs2] exI [of _ d2]) auto
  qed
qed

lemma deleteFollowRow_ok:
  assumes "tblOK entryIxs (rsEntries st)" and "deleteFollowRow i st = (e, st')"
  shows "\<exists>t fs u d. st' = st\<lparr>rsFollows := t, rsEntries := u, rsFaults := fs, rsDropped := d\<rparr> \<and>
    tblOK entryIxs u \<and> tbCache t = tbCache (rsFollows st) \<and>
    (tbRows t = filter (\<lambda>f. foID f \<noteq> i) (tbRows (rsFollows st)) \<or> e \<noteq> None \<and> tbRows t = tbRows (rsFollows st)) \<and>
    (e = None \<longrightarrow> (\<forall>x \<in> set (tbRows u). leFollowID x \<noteq> i)) \<and> (rsFaults st = [] \<longrightarrow> e = None \<and> fs = [])"
proof -
  obtain e1 fs t where x: "execDelete (\<lambda>f. foID f = i) (rsFaults st) (rsFollows st) = (e1, fs, t)"
    by (metis prod.exhaust)
  note del = execDelete_cases [OF x]
  show ?thesis
  proof (cases e1)
    case (Some err)
    have "st' = st\<lparr>rsFollows := t, rsEntries := rsEntries st, rsFaults := fs, rsDropped := rsDropped st\<rparr>"
      "e = Some err"
      using assms(2) x Some by (auto simp: deleteFollowRow_def)
    then show ?thesis using assms(1) del Some
      by (intro exI [of _ t] exI [of _ fs] exI [of _ "rsEntries st"] exI [of _ "rsDropped st"]) auto
  next
    case None
    let ?s = "st\<lparr>rsFollows := t, rsFaults := fs\<rparr>"
    have d: "deleteListEntriesForFollowID i ?s = (e, st')"
      using assms(2) x None by (simp add: deleteFollowRow_def)
    have "tblOK entryIxs (rsEntries ?s)" using assms(1) by simp
    from deleteListEntriesForFollowID_ok [OF this d] obtain u fs2 d2 where
      u: "st' = ?s\<lparr>rsEntries := u, rsFaults := fs2, rsDropped := d2\<rparr>" "tblOK entryIxs u"
      "e = None \<longrightarrow> tbRows u = filter (\<lambda>x. leFollowID x \<noteq> i) (tbRows (rsEntries ?s))"
      "rsFaults ?s = [] \<longrightarrow> e = None \<and> fs2 = []" by blast
    have "st' = st\<lparr>rsFollows := t, rsEntries := u, rsFaults := fs2, rsDropped := d2\<rparr>" using u(1) by simp
    moreover have "tbRows t = filter (\<lambda>f. foID f \<noteq> i) (tbRows (rsFollows st))" using del(2) None by simp
    moreover have "rsFaults st = [] \<longrightarrow> e = None \<and> fs2 = []" using del(3) u(4) by simp
    ultimately show ?thesis using del(1) u(2,3) by (intro exI [of _ t] exI [of _ fs2] exI [of _ u] exI [of _ d2]) auto
  qed
qed

lemma deleteFollowVia_ok:
  assumes inv: "relInv cfg R base st" and i: "i \<in> set followIxs" "\<not> ixMultiple i"
    and d: "deleteFollowVia (ixKey i parts) (loadFollow (ixName i) parts (\<lambda>v. ixFields i v = parts) st) = (e, st')"
  shows "relInv cfg R base st'"
    and "tbRows (rsFollows st') = filter (\<lambda>f. ixFields i f \<noteq> parts) (tbRows (rsFollows st)) \<or>
      e \<noteq> None \<and> tbRows (rsFollows st') = tbRows (rsFollows st)"
    and "e = None \<Longrightarrow> f \<in> set (tbRows (rsFollows st)) \<Longrightarrow> ixFields i f = parts \<Longrightarrow>
      x \<in> set (tbRows (rsEntries st')) \<Longrightarrow> leFollowID x \<noteq> foID f"
    and "tbRows (rsRequests st') = tbRows (rsRequests st)" and "tbRows (rsBlocks st') = tbRows (rsBlocks st)"
    and "rsFaults st = [] \<Longrightarrow> e = None \<and> rsFaults st' = []"
proof -
  let ?rows = "tbRows (rsFollows st)" and ?k = "ixKey i parts"
  have tab: "tableOK followIxs ?rows" using inv by (simp add: relInv_def tblOK_def)
  obtain r t fs where l: "loadFollow (ixName i) parts (\<lambda>v. ixFields i v = parts) st = (r, st\<lparr>rsFollows := t, rsFaults := fs\<rparr>)"
    and t: "tblOK followIxs t" "tbRows t = ?rows" and a: "answers r (rowsLookup i parts ?rows)"
    and nf: "rsFaults st = [] \<Longrightarrow> r = rowsLookup i parts ?rows \<and> fs = []"
    and vals: "\<And>v. r = Inr v \<Longrightarrow> getValues ?k (tbCache t) = [v]"
    by (rule loadFollow_ok [OF inv i, of parts]) (rule that)
  let ?s1 = "st\<lparr>rsFollows := t, rsFaults := fs\<rparr>"
  have inv1: "relInv cfg R base ?s1" by (rule relInv_followCache [OF inv t])
  have "relInv cfg R base st' \<and>
    (tbRows (rsFollows st') = filter (\<lambda>f. ixFields i f \<noteq> parts) ?rows \<or> e \<noteq> None \<and> tbRows (rsFollows st') = ?rows) \<and>
    (e = None \<longrightarrow> f \<in> set ?rows \<longrightarrow> ixFields i f = parts \<longrightarrow> x \<in> set (tbRows (rsEntries st')) \<longrightarrow> leFollowID x \<noteq> foID f) \<and>
    tbRows (rsRequests st') = tbRows (rsRequests st) \<and> tbRows (rsBlocks st') = tbRows (rsBlocks st) \<and>
    (rsFaults st = [] \<longrightarrow> e = None \<and> rsFaults st' = [])"
  proof (cases r)
    case (Inl err)
    then have s: "st' = ?s1" "e = (if err = LNoEntries then None else Some err)"
      using d l by (auto simp: deleteFollowVia_def)
    have no: "\<forall>v \<in> set ?rows. ixFields i v \<noteq> parts" if "err = LNoEntries"
    proof -
      have "rowsLookup i parts ?rows = Inl LNoEntries" using a Inl that by (auto simp: answers_def ignoreErrors_def)
      then show ?thesis using rowsLookup_Inl by metis
    qed
    then have "filter (\<lambda>f. ixFields i f \<noteq> parts) ?rows = ?rows" if "err = LNoEntries"
      using that by (simp add: filter_id_conv)
    moreover have "err = LNoEntries" if "rsFaults st = []" using nf [OF that] Inl rowsLookup_error by metis
    ultimately show ?thesis using inv1 s t(2) no nf by auto
  next
    case (Inr g)
    have "rowsLookup i parts ?rows = Inr g" using a Inr by (auto simp: answers_def)
    from rowsLookup_Inr [OF this] have g: "g \<in> set ?rows" "ixFields i g = parts" by simp_all
    have same: "foID w = foID g \<longleftrightarrow> ixFields i w = parts" if w: "w \<in> set ?rows" for w
      using fol.tableOK_unique [OF tab index_mem(1) index_names(7) w g(1)]
        fol.tableOK_unique [OF tab i w g(1)] g(2) by auto
    obtain e1 s3 where r3: "deleteFollowRow (foID g) ?s1 = (e1, s3)" by fastforce
    then have e: "e = e1" and st': "st' = invalidateFollow ?k s3"
      using d l Inr by (simp_all add: deleteFollowVia_def)
    have "tblOK entryIxs (rsEntries ?s1)" using inv1 by (simp add: relInv_def)
    from deleteFollowRow_ok [OF this r3] obtain t3 fs3 u3 d3 where
      s3: "s3 = ?s1\<lparr>rsFollows := t3, rsEntries := u3, rsFaults := fs3, rsDropped := d3\<rparr>"
      and u3: "tblOK entryIxs u3" and c3: "tbCache t3 = tbCache t"
      and t3: "tbRows t3 = filter (\<lambda>f. foID f \<noteq> foID g) ?rows \<or> e1 \<noteq> None \<and> tbRows t3 = ?rows"
      and en: "e1 = None \<longrightarrow> (\<forall>x \<in> set (tbRows u3). leFollowID x \<noteq> foID g)"
      and nf3: "fs = [] \<longrightarrow> e1 = None \<and> fs3 = []"
      using t(2) by auto
    have "filter (\<lambda>f. foID f \<noteq> foID g) ?rows = filter (\<lambda>f. ixFields i f \<noteq> parts) ?rows"
      using same by (intro filter_cong) auto
    then have t3': "tbRows t3 = filter (\<lambda>f. ixFields i f \<noteq> parts) ?rows \<or> e1 \<noteq> None \<and> tbRows t3 = ?rows"
      using t3 by simp
    obtain vs s4 where d4: "dropFollowC ?k s3 = (vs, s4)" by fastforce
    have u: "isUnique followIxs ?k" using fol.isUnique_ixKey i by simp
    have cinv: "cacheInv followIxs ?rows (tbCache (rsFollows s3))" using t c3 by (simp add: s3 tblOK_def)
    have vs: "vs = [g]"
      using d4 fol.invalidateKey_unique(2) [OF cinv u] vals [OF Inr] c3 s3
      by (auto simp: dropFollowC_def dropKey_def split: prod.splits)
    have h4: "holders ?k (tbCache (rsFollows s4)) = []"
      using d4 holders_invalidateKey [of ?k "tbCache (rsFollows s3)"]
      by (auto simp: dropFollowC_def dropKey_def split: prod.splits)
    have st'_hook: "st' = hookFollow g s4" using st' d4 vs by (simp add: invalidateFollow_def)
    have s4: "rsVis s4 = rsVis s3" "rsFollowIDs s4 = rsFollowIDs s3"
      using d4 by (auto simp: dropFollowC_def split: prod.splits)
    have q3: "quiet s3 st'" unfolding st' by (rule quiet_invalidateFollow)
    have q4: "quiet s4 st'" unfolding st'_hook by (rule quiet_hooks)
    have okf: "tblOK followIxs (rsFollows st')"
    proof (rule fol.tblOK_deleted [OF t(1) i])
      have "tbRows (rsFollows st') = tbRows t3" using quiet_rows(1) [OF q3] by (simp add: s3)
      then show "tbRows (rsFollows st') = filter (\<lambda>v. ixFields i v \<noteq> parts) (tbRows t) \<or>
          tbRows (rsFollows st') = tbRows t" using t3' t(2) by auto
      show "cacheInv followIxs (tbRows t) (tbCache (rsFollows st'))"
        using q3 cinv t(2) by (simp add: quiet_def quietTable_def)
      show "holders ?k (tbCache (rsFollows st')) = []"
        using q4 shrunk_holders [OF _ h4] by (simp add: quiet_def quietTable_def)
    qed
    have "relInv cfg R base st'"
    proof (rule relInv_follow [OF inv1 okf, where a = "foAccountID g" and b = "foTargetAccountID g"])
      show "tblOK requestIxs (rsRequests st')" "tblOK entryIxs (rsEntries st')"
        using q3 inv1 u3 quietTable_OK by (fastforce simp: quiet_def relInv_def s3)+
      show "quietTable blockIxs (rsBlocks ?s1) (rsBlocks st')" using q3 by (simp add: quiet_def s3)
      show "rsLocalIDs st' = rsLocalIDs ?s1" "tbRows (rsRequests st') = tbRows (rsRequests ?s1)"
        "rsRequestIDs st' \<subseteq>\<^sub>m rsRequestIDs ?s1" "rsBlockIDs st' \<subseteq>\<^sub>m rsBlockIDs ?s1"
        using q3 by (simp_all add: quiet_def quietTable_def s3)
      have gw: "foAccountID w = foAccountID g \<and> foTargetAccountID w = foTargetAccountID g"
        if "w \<in> set ?rows" "ixFields i w = parts" for w
        using fol.tableOK_unique [OF tab i that(1) g(1)] that(2) g(2) by simp
      show "sameExcept foAccountID foTargetAccountID (foAccountID g) (foTargetAccountID g)
          (tbRows (rsFollows ?s1)) (tbRows (rsFollows st'))"
        using t3' t(2) quiet_rows(1) [OF q3] gw
        by (auto simp: s3 intro!: sameExcept_filter)
      show "rsFollowIDs st' \<subseteq>\<^sub>m
          invalidateSlices (followSliceKeys (foAccountID g) (foTargetAccountID g)) (rsFollowIDs ?s1)"
        using hookFollow_effect(1) [of g s4] by (simp add: st'_hook s4 s3)
      show "rsVis st' \<subseteq>\<^sub>m onInvalidateFollow (foAccountID g) (foTargetAccountID g) (rsVis ?s1)"
        using hookFollow_effect(2) [of g s4] by (simp add: st'_hook s4 s3)
    qed
    moreover have "leFollowID x \<noteq> foID f"
      if "e = None" "f \<in> set ?rows" "ixFields i f = parts" "x \<in> set (tbRows (rsEntries st'))"
      using en that e same [of f] quiet_rows(4) [OF q3] by (simp add: s3)
    ultimately show ?thesis
      using t3' e quiet_rows [OF q3] nf nf3 by (auto simp: s3)
  qed
  then show "relInv cfg R base st'"
    and "tbRows (rsFollows st') = filter (\<lambda>f. ixFields i f \<noteq> parts) ?rows \<or> e \<noteq> None \<and> tbRows (rsFollows st') = ?rows"
    and "e = None \<Longrightarrow> f \<in> set ?rows \<Longrightarrow> ixFields i f = parts \<Longrightarrow> x \<in> set (tbRows (rsEntries st')) \<Longrightarrow>
      leFollowID x \<noteq> foID f"
    and "tbRows (rsRequests st') = tbRows (rsRequests st)" and "tbRows (rsBlocks st') = tbRows (rsBlocks st)"
    and "rsFaults st = [] \<Longrightarrow> e = None \<and> rsFaults st' = []" by auto
qed

subsection \<open>Writes of follow requests\<close>

lemma quiet_others:
  "quiet (st\<lparr>rsRequests := t, rsFaults := fs\<rparr>) st' \<Longrightarrow> quiet st (st'\<lparr>rsRequests := rsRequests st, rsFaults := rsFaults st\<rparr>)"
  "quiet (st\<lparr>rsBlocks := u, rsFaults := fs\<rparr>) st' \<Longrightarrow> quiet st (st'\<lparr>rsBlocks := rsBlocks st, rsFaults := rsFaults st\<rparr>)"
  by (simp_all add: quiet_def)

lemma relInv_hookRequest:
  assumes "relInv cfg R base st" and "tblOK requestIxs t"
    and "sameExcept frAccountID frTargetAccountID (frAccountID r) (frTargetAccountID r) (tbRows (rsRequests st)) (tbRows t)"
  shows "relInv cfg R base (hookRequest r (st\<lparr>rsRequests := t, rsFaults := fs\<rparr>))"
proof -
  let ?s = "st\<lparr>rsRequests := t, rsFaults := fs\<rparr>"
  have q: "quiet ?s (hookRequest r ?s)" by (rule quiet_hooks)
  show ?thesis
  proof (rule relInv_request [OF assms(1) _ quiet_others(1) [OF q]])
    show "tblOK requestIxs (rsRequests (hookRequest r ?s))"
      using q assms(2) quietTable_OK by (fastforce simp: quiet_def)
    show "sameExcept frAccountID frTargetAccountID (frAccountID r) (frTargetAccountID r)
        (tbRows (rsRequests st)) (tbRows (rsRequests (hookRequest r ?s)))" using assms(3) by simp
    show "rsRequestIDs (hookRequest r ?s) \<subseteq>\<^sub>m
        invalidateSlices (requestSliceKeys (frAccountID r) (frTargetAccountID r)) (rsRequestIDs st)"
      using hookRequest_effect [of r ?s] by simp
  qed
qed

lemma putFollowRequest_ok:
  assumes "relInv cfg R base st" and "putFollowRequest r st = (e, st')"
  shows "relInv cfg R base st'"
    and "tbRows (rsRequests st') = (if e = None then tbRows (rsRequests st) @ [r] else tbRows (rsRequests st))"
    and "tbRows (rsFollows st') = tbRows (rsFollows st)" and "tbRows (rsBlocks st') = tbRows (rsBlocks st)"
    and "rsFaults st = [] \<Longrightarrow> rsFaults st' = []"
proof -
  obtain fs t where s: "storeRow requestIxs r (insertRow requestIxs r) (rsFaults st) (rsRequests st) = (e, fs, t)"
      and st': "st' = hookRequest r (st\<lparr>rsRequests := t, rsFaults := fs\<rparr>)"
    using assms(2) by (auto simp: putFollowRequest_def split: prod.splits)
  have ok: "tblOK requestIxs (rsRequests st)" using assms(1) by (simp add: relInv_def)
  note ins = req.storeRow_insert [OF ok s]
  have "sameExcept frAccountID frTargetAccountID (frAccountID r) (frTargetAccountID r)
      (tbRows (rsRequests st)) (tbRows t)"
    using ins(2) sameExcept_append [of frAccountID frTargetAccountID r] by simp
  then show "relInv cfg R base st'" unfolding st' by (rule relInv_hookRequest [OF assms(1) ins(1)])
  show "tbRows (rsRequests st') = (if e = None then tbRows (rsRequests st) @ [r] else tbRows (rsRequests st))"
    and "tbRows (rsFollows st') = tbRows (rsFollows st)" and "tbRows (rsBlocks st') = tbRows (rsBlocks st)"
    using ins(2) by (simp_all add: st')
  show "rsFaults st' = []" if "rsFaults st = []"
    using s that by (auto simp: st' storeRow_def insertRow_def split: sum.splits if_splits)
qed

definition requestVersion :: "string list \<Rightarrow> follow_request \<Rightarrow> follow_request \<Rightarrow> bool" where
  "requestVersion cols r f \<longleftrightarrow>
     (\<exists>u s n. f = r\<lparr>frUpdatedAt := u, frShowReblogs := s, frNotify := n\<rparr> \<and>
        (s \<noteq> frShowReblogs r \<longrightarrow> ''show_reblogs'' \<in> set cols) \<and> (n \<noteq> frNotify r \<longrightarrow> ''notify'' \<in> set cols))"

lemma fold_requestCol:
  "set cols \<subseteq> {''show_reblogs'', ''notify'', ''updated_at''} \<Longrightarrow>
    fold (requestCol f) cols r = r\<lparr>
      frUpdatedAt := if ''updated_at'' \<in> set cols then frUpdatedAt f else frUpdatedAt r,
      frShowReblogs := if ''show_reblogs'' \<in> set cols then frShowReblogs f else frShowReblogs r,
      frNotify := if ''notify'' \<in> set cols then frNotify f else frNotify r\<rparr>"
proof (induction cols arbitrary: r)
  case (Cons c cols)
  then have "c = ''show_reblogs'' \<or> c = ''notify'' \<or> c = ''updated_at''" by simp
  then show ?case using Cons by (elim disjE) (simp_all add: requestCol_def)
qed simp

lemma updateFollowRequest_ok:
  assumes "relInv cfg R base st" and "r \<in> set (tbRows (rsRequests st))" and "requestVersion cols r f"
    and "settingsOnly cols" and "updateFollowRequest now f cols st = (e, st')"
  shows "relInv cfg R base st'"
    and "tbRows (rsRequests st') = (if e = None
      then map (\<lambda>x. if x = r then f\<lparr>frUpdatedAt := now\<rparr> else x) (tbRows (rsRequests st)) else tbRows (rsRequests st))"
    and "tbRows (rsFollows st') = tbRows (rsFollows st)" and "tbRows (rsBlocks st') = tbRows (rsBlocks st)"
    and "rsFaults st = [] \<Longrightarrow> e = None \<and> rsFaults st' = []"
proof -
  let ?f = "f\<lparr>frUpdatedAt := now\<rparr>" and ?cols = "cols @ [''updated_at'']"
  let ?stmt = "updateRow (\<lambda>x. frID x = frID ?f) (\<lambda>x. fold (requestCol ?f) ?cols x)"
  have ne: "cols \<noteq> []" using assms(4) by (simp add: settingsOnly_def)
  obtain fs t where s: "storeRow requestIxs ?f ?stmt (rsFaults st) (rsRequests st) = (e, fs, t)"
      and st': "st' = hookRequest ?f (st\<lparr>rsRequests := t, rsFaults := fs\<rparr>)"
    using assms(5) ne by (auto simp: updateFollowRequest_def Let_def split: prod.splits)
  have ok: "tblOK requestIxs (rsRequests st)" using assms(1) by (simp add: relInv_def)
  obtain u b n where f: "f = r\<lparr>frUpdatedAt := u, frShowReblogs := b, frNotify := n\<rparr>"
      "b \<noteq> frShowReblogs r \<longrightarrow> ''show_reblogs'' \<in> set cols" "n \<noteq> frNotify r \<longrightarrow> ''notify'' \<in> set cols"
    using assms(3) by (auto simp: requestVersion_def)
  have ids: "frID f = frID r" "frURI f = frURI r" "frAccountID f = frAccountID r"
      "frTargetAccountID f = frTargetAccountID r" by (simp_all add: f(1))
  have P: "frID x = frID ?f \<longleftrightarrow> x = r" if "x \<in> set (tbRows (rsRequests st))" for x
  proof
    assume "frID x = frID ?f"
    then have "ixFields (idIndex frID) x = ixFields (idIndex frID) r" by (simp add: ids)
    then show "x = r"
      using req.tableOK_unique [of "tbRows (rsRequests st)" "idIndex frID" x r] ok that assms(2)
      by (simp add: tblOK_def)
  qed (simp add: ids)
  have g: "fold (requestCol ?f) ?cols r = ?f"
  proof -
    have "set ?cols \<subseteq> {''show_reblogs'', ''notify'', ''updated_at''}"
      using assms(4) by (auto simp: settingsOnly_def)
    from fold_requestCol [OF this, of ?f r] show ?thesis
      using f by (cases "''show_reblogs'' \<in> set cols"; cases "''notify'' \<in> set cols") simp_all
  qed
  have fields: "ixFields i ?f = ixFields i r" if "i \<in> set requestIxs" for i
    using that ids by (auto simp: index_defs)
  have upd: "tblOK requestIxs t"
    "tbRows t = (if e = None then map (\<lambda>x. if x = r then ?f else x) (tbRows (rsRequests st)) else tbRows (rsRequests st))"
    "rsFaults st = [] \<Longrightarrow> e = None \<and> fs = []"
    by (rule req.storeRow_update [where P = "\<lambda>x. frID x = frID ?f", OF ok assms(2) P g fields s]; assumption)+
  have "sameExcept frAccountID frTargetAccountID (frAccountID ?f) (frTargetAccountID ?f)
      (tbRows (rsRequests st)) (tbRows t)"
    using upd(2) sameExcept_map [of "tbRows (rsRequests st)" "\<lambda>x. if x = r then ?f else x" frAccountID
        "frAccountID ?f" frTargetAccountID "frTargetAccountID ?f"]
    by (cases e) (auto simp: ids)
  then show "relInv cfg R base st'" unfolding st' by (rule relInv_hookRequest [OF assms(1) upd(1)])
  show "tbRows (rsRequests st') = (if e = None
      then map (\<lambda>x. if x = r then ?f else x) (tbRows (rsRequests st)) else tbRows (rsRequests st))"
    and "tbRows (rsFollows st') = tbRows (rsFollows st)" and "tbRows (rsBlocks st') = tbRows (rsBlocks st)"
    using upd(2) by (simp_all add: st')
  show "e = None \<and> rsFaults st' = []" if "rsFaults st = []"
    using upd(3) [OF that] by (simp add: st')
qed

text \<open>
  The three deletions: the statement deletes the rows with the key, whichever column it names.
\<close>

lemma deleteRequestWhere_ok:
  assumes inv: "relInv cfg R base st" and i: "i \<in> set requestIxs" "\<not> ixMultiple i"
    and P: "\<And>r x. r \<in> set (tbRows (rsRequests st)) \<Longrightarrow> ixFields i r = parts \<Longrightarrow>
      x \<in> set (tbRows (rsRequests st)) \<Longrightarrow> P r x \<longleftrightarrow> ixFields i x = parts"
    and d: "deleteRequestWhere (ixKey i parts) P (loadRequest (ixName i) parts (\<lambda>v. ixFields i v = parts) st) = (e, st')"
  shows "relInv cfg R base st'"
    and "tbRows (rsRequests st') = filter (\<lambda>f. ixFields i f \<noteq> parts) (tbRows (rsRequests st)) \<or>
      e \<noteq> None \<and> tbRows (rsRequests st') = tbRows (rsRequests st)"
    and "tbRows (rsFollows st') = tbRows (rsFollows st)" and "tbRows (rsBlocks st') = tbRows (rsBlocks st)"
    and "rsFaults st = [] \<Longrightarrow> e = None \<and> rsFaults st' = []"
proof -
  let ?rows = "tbRows (rsRequests st)" and ?k = "ixKey i parts"
  have tab: "tableOK requestIxs ?rows" using inv by (simp add: relInv_def tblOK_def)
  obtain r t fs where l: "loadRequest (ixName i) parts (\<lambda>v. ixFields i v = parts) st = (r, st\<lparr>rsRequests := t, rsFaults := fs\<rparr>)"
    and t: "tblOK requestIxs t" "tbRows t = ?rows" and a: "answers r (rowsLookup i parts ?rows)"
    and nf: "rsFaults st = [] \<Longrightarrow> r = rowsLookup i parts ?rows \<and> fs = []"
    and vals: "\<And>v. r = Inr v \<Longrightarrow> getValues ?k (tbCache t) = [v]"
    by (rule loadRequest_ok [OF inv i, of parts]) (rule that)
  let ?s1 = "st\<lparr>rsRequests := t, rsFaults := fs\<rparr>"
  have inv1: "relInv cfg R base ?s1" by (rule relInv_requestCache [OF inv t])
  have "relInv cfg R base st' \<and>
    (tbRows (rsRequests st') = filter (\<lambda>f. ixFields i f \<noteq> parts) ?rows \<or> e \<noteq> None \<and> tbRows (rsRequests st') = ?rows) \<and>
    tbRows (rsFollows st') = tbRows (rsFollows st) \<and> tbRows (rsBlocks st') = tbRows (rsBlocks st) \<and>
    (rsFaults st = [] \<longrightarrow> e = None \<and> rsFaults st' = [])"
  proof (cases r)
    case (Inl err)
    then have s: "st' = ?s1" "e = (if err = LNoEntries then None else Some err)"
      using d l by (auto simp: deleteRequestWhere_def)
    have no: "\<forall>v \<in> set ?rows. ixFields i v \<noteq> parts" if "err = LNoEntries"
    proof -
      have "rowsLookup i parts ?rows = Inl LNoEntries" using a Inl that by (auto simp: answers_def ignoreErrors_def)
      then show ?thesis using rowsLookup_Inl by metis
    qed
    then have "filter (\<lambda>f. ixFields i f \<noteq> parts) ?rows = ?rows" if "err = LNoEntries"
      using that by (simp add: filter_id_conv)
    moreover have "err = LNoEntries" if "rsFaults st = []" using nf [OF that] Inl rowsLookup_error by metis
    ultimately show ?thesis using inv1 s t(2) nf by auto
  next
    case (Inr g)
    have "rowsLookup i parts ?rows = Inr g" using a Inr by (auto simp: answers_def)
    from rowsLookup_Inr [OF this] have g: "g \<in> set ?rows" "ixFields i g = parts" by simp_all
    obtain e1 fs2 t2 where x: "execDelete (P g) fs t = (e1, fs2, t2)" by (metis prod.exhaust)
    note del = execDelete_cases [OF x]
    let ?s2 = "?s1\<lparr>rsRequests := t2, rsFaults := fs2\<rparr>"
    have e: "e = e1" and st': "st' = invalidateRequest ?k ?s2"
      using d l Inr x by (auto simp: deleteRequestWhere_def)
    have "filter (\<lambda>f. \<not> P g f) ?rows = filter (\<lambda>f. ixFields i f \<noteq> parts) ?rows"
      by (rule filter_cong) (use P [OF g] in auto)
    then have t2: "tbRows t2 = filter (\<lambda>f. ixFields i f \<noteq> parts) ?rows \<or> e1 \<noteq> None \<and> tbRows t2 = ?rows"
      using del(2) t(2) by (cases e1) auto
    obtain vs s4 where d4: "dropRequestC ?k ?s2 = (vs, s4)" by fastforce
    have u: "isUnique requestIxs ?k" using req.isUnique_ixKey i by simp
    have cinv: "cacheInv requestIxs ?rows (tbCache t2)" using t del(1) by (simp add: tblOK_def)
    have vs: "vs = [g]"
      using d4 req.invalidateKey_unique(2) [OF cinv u] vals [OF Inr] del(1)
      by (auto simp: dropRequestC_def dropKey_def split: prod.splits)
    have h4: "holders ?k (tbCache (rsRequests s4)) = []"
      using d4 holders_invalidateKey [of ?k "tbCache t2"]
      by (auto simp: dropRequestC_def dropKey_def split: prod.splits)
    have st'_hook: "st' = hookRequest g s4" using st' d4 vs by (simp add: invalidateRequest_def)
    have s4: "rsRequestIDs s4 = rsRequestIDs st" using d4 by (auto simp: dropRequestC_def split: prod.splits)
    have q3: "quiet ?s2 st'" unfolding st' by (rule quiet_invalidateRequest)
    have q4: "quiet s4 st'" unfolding st'_hook by (rule quiet_hooks)
    have rows': "tbRows (rsRequests st') = tbRows t2" using quiet_rows(2) [OF q3] by simp
    have "relInv cfg R base st'"
    proof (rule relInv_request [OF inv, where a = "frAccountID g" and b = "frTargetAccountID g"])
      show "tblOK requestIxs (rsRequests st')"
      proof (rule req.tblOK_deleted [OF t(1) i])
        show "tbRows (rsRequests st') = filter (\<lambda>v. ixFields i v \<noteq> parts) (tbRows t) \<or>
            tbRows (rsRequests st') = tbRows t" using t2 t(2) rows' by auto
        show "cacheInv requestIxs (tbRows t) (tbCache (rsRequests st'))"
          using q3 cinv t(2) by (simp add: quiet_def quietTable_def)
        show "holders ?k (tbCache (rsRequests st')) = []"
          using q4 shrunk_holders [OF _ h4] by (simp add: quiet_def quietTable_def)
      qed
      show "quiet st (st'\<lparr>rsRequests := rsRequests st, rsFaults := rsFaults st\<rparr>)"
        by (rule quiet_others(1) [where t = t2 and fs = fs2]) (use q3 in simp)
      have gw: "frAccountID w = frAccountID g \<and> frTargetAccountID w = frTargetAccountID g"
        if "w \<in> set ?rows" "ixFields i w = parts" for w
        using req.tableOK_unique [OF tab i that(1) g(1)] that(2) g(2) by simp
      show "sameExcept frAccountID frTargetAccountID (frAccountID g) (frTargetAccountID g)
          ?rows (tbRows (rsRequests st'))"
        using t2 rows' gw by (auto intro!: sameExcept_filter)
      show "rsRequestIDs st' \<subseteq>\<^sub>m
          invalidateSlices (requestSliceKeys (frAccountID g) (frTargetAccountID g)) (rsRequestIDs st)"
        using hookRequest_effect [of g s4] by (simp add: st'_hook s4)
    qed
    then show ?thesis
      using t2 e rows' quiet_rows [OF q3] nf del(3) by auto
  qed
  then show "relInv cfg R base st'"
    and "tbRows (rsRequests st') = filter (\<lambda>f. ixFields i f \<noteq> parts) ?rows \<or> e \<noteq> None \<and> tbRows (rsRequests st') = ?rows"
    and "tbRows (rsFollows st') = tbRows (rsFollows st)" and "tbRows (rsBlocks st') = tbRows (rsBlocks st)"
    and "rsFaults st = [] \<Longrightarrow> e = None \<and> rsFaults st' = []" by auto
qed

subsection \<open>Writes of blocks\<close>

lemma putBlock_ok:
  assumes "relInv cfg R base st" and "putBlock b st = (e, st')"
  shows "relInv cfg R base st'"
    and "tbRows (rsBlocks st') = (if e = None then tbRows (rsBlocks st) @ [b] else tbRows (rsBlocks st))"
    and "tbRows (rsFollows st') = tbRows (rsFollows st)" and "tbRows (rsRequests st') = tbRows (rsRequests st)"
    and "rsFaults st = [] \<Longrightarrow> rsFaults st' = []"
proof -
  obtain fs t where s: "storeRow blockIxs b (insertRow blockIxs b) (rsFaults st) (rsBlocks st) = (e, fs, t)"
      and st': "st' = hookBlock b (st\<lparr>rsBlocks := t, rsFaults := fs\<rparr>)"
    using assms(2) by (auto simp: putBlock_def split: prod.splits)
  let ?s = "st\<lparr>rsBlocks := t, rsFaults := fs\<rparr>"
  have ok: "tblOK blockIxs (rsBlocks st)" using assms(1) by (simp add: relInv_def)
  note ins = blk.storeRow_insert [OF ok s]
  have q: "quiet ?s st'" unfolding st' by (rule quiet_hookBlock)
  show "relInv cfg R base st'"
  proof (rule relInv_block [OF assms(1) _ quiet_others(2) [OF q]])
    show "tblOK blockIxs (rsBlocks st')" using q ins(1) quietTable_OK by (fastforce simp: quiet_def)
    show "sameExcept blAccountID blTargetAccountID (blAccountID b) (blTargetAccountID b)
        (tbRows (rsBlocks st)) (tbRows (rsBlocks st'))"
      using ins(2) sameExcept_append [of blAccountID blTargetAccountID b] by (simp add: st' hookBlock_def)
    show "rsBlockIDs st' \<subseteq>\<^sub>m invalidateSlices [blAccountID b] (rsBlockIDs st)"
      using hookBlock_effect(1) [of b ?s] by (simp add: st')
    show "rsVis st' \<subseteq>\<^sub>m onInvalidateBlock (blAccountID b) (blTargetAccountID b) (rsVis st)"
      using hookBlock_effect(2) [of b ?s] by (simp add: st')
  qed
  show "tbRows (rsBlocks st') = (if e = None then tbRows (rsBlocks st) @ [b] else tbRows (rsBlocks st))"
    and "tbRows (rsFollows st') = tbRows (rsFollows st)" and "tbRows (rsRequests st') = tbRows (rsRequests st)"
    using ins(2) by (simp_all add: st' hookBlock_def)
  show "rsFaults st' = []" if "rsFaults st = []"
    using s that by (auto simp: st' hookBlock_def storeRow_def insertRow_def split: sum.splits if_splits)
qed

lemma deleteBlockWhere_ok:
  assumes inv: "relInv cfg R base st" and i: "i \<in> set blockIxs" "\<not> ixMultiple i"
    and P: "\<And>x. P x \<longleftrightarrow> ixFields i x = parts"
    and d: "deleteBlockWhere (ixKey i parts) P (loadBlock (ixName i) parts (\<lambda>v. ixFields i v = parts) st) = (e, st')"
  shows "relInv cfg R base st'"
    and "tbRows (rsBlocks st') = filter (\<lambda>b. ixFields i b \<noteq> parts) (tbRows (rsBlocks st)) \<or>
      e \<noteq> None \<and> tbRows (rsBlocks st') = tbRows (rsBlocks st)"
    and "tbRows (rsFollows st') = tbRows (rsFollows st)" and "tbRows (rsRequests st') = tbRows (rsRequests st)"
    and "rsFaults st = [] \<Longrightarrow> e = None \<and> rsFaults st' = []"
proof -
  let ?rows = "tbRows (rsBlocks st)" and ?k = "ixKey i parts"
  have tab: "tableOK blockIxs ?rows" using inv by (simp add: relInv_def tblOK_def)
  obtain r t fs where l: "loadBlock (ixName i) parts (\<lambda>v. ixFields i v = parts) st = (r, st\<lparr>rsBlocks := t, rsFaults := fs\<rparr>)"
    and t: "tblOK blockIxs t" "tbRows t = ?rows" and a: "answers r (rowsLookup i parts ?rows)"
    and nf: "rsFaults st = [] \<Longrightarrow> r = rowsLookup i parts ?rows \<and> fs = []"
    and vals: "\<And>v. r = Inr v \<Longrightarrow> getValues ?k (tbCache t) = [v]"
    by (rule loadBlock_ok [OF inv i, of parts]) (rule that)
  let ?s1 = "st\<lparr>rsBlocks := t, rsFaults := fs\<rparr>"
  have inv1: "relInv cfg R base ?s1" by (rule relInv_blockCache [OF inv t])
  have "relInv cfg R base st' \<and>
    (tbRows (rsBlocks st') = filter (\<lambda>f. ixFields i f \<noteq> parts) ?rows \<or> e \<noteq> None \<and> tbRows (rsBlocks st') = ?rows) \<and>
    tbRows (rsFollows st') = tbRows (rsFollows st) \<and> tbRows (rsRequests st') = tbRows (rsRequests st) \<and>
    (rsFaults st = [] \<longrightarrow> e = None \<and> rsFaults st' = [])"
  proof (cases r)
    case (Inl err)
    then have s: "st' = ?s1" "e = (if err = LNoEntries then None else Some err)"
      using d l by (auto simp: deleteBlockWhere_def)
    have no: "\<forall>v \<in> set ?rows. ixFields i v \<noteq> parts" if "err = LNoEntries"
    proof -
      have "rowsLookup i parts ?rows = Inl LNoEntries" using a Inl that by (auto simp: answers_def ignoreErrors_def)
      then show ?thesis using rowsLookup_Inl by metis
    qed
    then have "filter (\<lambda>f. ixFields i f \<noteq> parts) ?rows = ?rows" if "err = LNoEntries"
      using that by (simp add: filter_id_conv)
    moreover have "err = LNoEntries" if "rsFaults st = []" using nf [OF that] Inl rowsLookup_error by metis
    ultimately show ?thesis using inv1 s t(2) nf by auto
  next
    case (Inr g)
    have "rowsLookup i parts ?rows = Inr g" using a Inr by (auto simp: answers_def)
    from rowsLookup_Inr [OF this] have g: "g \<in> set ?rows" "ixFields i g = parts" by simp_all
    obtain e1 fs2 t2 where x: "execDelete P fs t = (e1, fs2, t2)" by (metis prod.exhaust)
    note del = execDelete_cases [OF x]
    let ?s2 = "?s1\<lparr>rsBlocks := t2, rsFaults := fs2\<rparr>"
    have e: "e = e1" and st': "st' = invalidateBlock ?k ?s2"
      using d l Inr x by (auto simp: deleteBlockWhere_def)
    have t2: "tbRows t2 = filter (\<lambda>f. ixFields i f \<noteq> parts) ?rows \<or> e1 \<noteq> None \<and> tbRows t2 = ?rows"
      using del(2) t(2) P by (cases e1) auto
    obtain vs u where d4: "dropKey ?k t2 = (vs, u)" by fastforce
    let ?s4 = "?s2\<lparr>rsBlocks := u\<rparr>"
    have uk: "isUnique blockIxs ?k" using blk.isUnique_ixKey i by simp
    have cinv: "cacheInv blockIxs ?rows (tbCache t2)" using t del(1) by (simp add: tblOK_def)
    have vs: "vs = [g]"
      using d4 blk.invalidateKey_unique(2) [OF cinv uk] vals [OF Inr] del(1)
      by (auto simp: dropKey_def split: prod.splits)
    have h4: "holders ?k (tbCache u) = []"
      using d4 holders_invalidateKey [of ?k "tbCache t2"] by (auto simp: dropKey_def split: prod.splits)
    have st'_hook: "st' = hookBlock g ?s4" using st' d4 vs by (simp add: invalidateBlock_def)
    have q3: "quiet ?s2 st'" unfolding st' by (rule quiet_invalidateBlock)
    have rows': "tbRows (rsBlocks st') = tbRows t2" using quiet_rows(3) [OF q3] by simp
    have "relInv cfg R base st'"
    proof (rule relInv_block [OF inv, where a = "blAccountID g" and b = "blTargetAccountID g"])
      show "tblOK blockIxs (rsBlocks st')"
      proof (rule blk.tblOK_deleted [OF t(1) i])
        show "tbRows (rsBlocks st') = filter (\<lambda>v. ixFields i v \<noteq> parts) (tbRows t) \<or>
            tbRows (rsBlocks st') = tbRows t" using t2 t(2) rows' by auto
        show "cacheInv blockIxs (tbRows t) (tbCache (rsBlocks st'))"
          using q3 cinv t(2) by (simp add: quiet_def quietTable_def)
        show "holders ?k (tbCache (rsBlocks st')) = []" using h4 by (simp add: st'_hook hookBlock_def)
      qed
      show "quiet st (st'\<lparr>rsBlocks := rsBlocks st, rsFaults := rsFaults st\<rparr>)"
        by (rule quiet_others(2) [where u = t2 and fs = fs2]) (use q3 in simp)
      have gw: "blAccountID w = blAccountID g \<and> blTargetAccountID w = blTargetAccountID g"
        if "w \<in> set ?rows" "ixFields i w = parts" for w
        using blk.tableOK_unique [OF tab i that(1) g(1)] that(2) g(2) by simp
      show "sameExcept blAccountID blTargetAccountID (blAccountID g) (blTargetAccountID g)
          ?rows (tbRows (rsBlocks st'))"
        using t2 rows' gw by (auto intro!: sameExcept_filter)
      show "rsBlockIDs st' \<subseteq>\<^sub>m invalidateSlices [blAccountID g] (rsBlockIDs st)"
        and "rsVis st' \<subseteq>\<^sub>m onInvalidateBlock (blAccountID g) (blTargetAccountID g) (rsVis st)"
        using hookBlock_effect [of g ?s4] by (simp_all add: st'_hook)
    qed
    then show ?thesis
      using t2 e rows' quiet_rows [OF q3] nf del(3) by auto
  qed
  then show "relInv cfg R base st'"
    and "tbRows (rsBlocks st') = filter (\<lambda>f. ixFields i f \<noteq> parts) ?rows \<or> e \<noteq> None \<and> tbRows (rsBlocks st') = ?rows"
    and "tbRows (rsFollows st') = tbRows (rsFollows st)" and "tbRows (rsRequests st') = tbRows (rsRequests st)"
    and "rsFaults st = [] \<Longrightarrow> e = None \<and> rsFaults st' = []" by auto
qed

subsection \<open>Requests accepted and rejected\<close>

lemma hookFollow_request:
  assumes "cacheInv requestIxs rows (tbCache (rsRequests st))"
    and "getValues (key1 ''ID'' (foID f)) (tbCache (rsRequests st)) = [r]"
  shows "rsRequestIDs (hookFollow f st) \<subseteq>\<^sub>m
    invalidateSlices (requestSliceKeys (frAccountID r) (frTargetAccountID r)) (rsRequestIDs st)"
proof -
  obtain vs st1 where d: "dropRequestC (key1 ''ID'' (foID f)) st = (vs, st1)" by fastforce
  have "fst (invalidateKey (key1 ''ID'' (foID f)) (tbCache (rsRequests st))) = [r]"
    using req.invalidateKey_unique(2) [OF assms(1) unique_keys(4), of "foID f"] assms(2) by simp
  then have "vs = [r]" and "rsRequestIDs st1 = rsRequestIDs st"
    using d by (auto simp: dropRequestC_def dropKey_def split: prod.splits)
  then show ?thesis
    unfolding hookFollow.simps [of f st] d using hookRequest_effect [of r st1] by (simp add: followRest_def)
qed

lemma relInv_notifs: "relInv cfg R base st \<Longrightarrow> relInv cfg R base (st\<lparr>rsFaults := fs, rsNotifs := ns\<rparr>)"
  by (simp add: relInv_def relDB_def)

lemma relInv_faults [simp]: "relInv cfg R base (st\<lparr>rsFaults := fs\<rparr>) = relInv cfg R base st"
  by (simp add: relInv_def relDB_def)

lemma deleteNotifications_ok:
  assumes "relInv cfg R base st" and "deleteNotifications types tgt origin st = (e, st')"
  shows "relInv cfg R base st'" and "\<exists>fs ns. st' = st\<lparr>rsFaults := fs, rsNotifs := ns\<rparr>"
    and "rsFaults st = [] \<Longrightarrow> tgt \<noteq> [] \<Longrightarrow> e = None \<and> rsFaults st' = []"
    and "e = None \<Longrightarrow> n \<in> set (rsNotifs st') \<Longrightarrow> types \<noteq> [] \<Longrightarrow> tgt \<noteq> [] \<Longrightarrow> origin \<noteq> [] \<Longrightarrow>
      noType n \<in> set types \<Longrightarrow> noTargetAccountID n = tgt \<Longrightarrow> noOriginAccountID n \<noteq> origin"
proof -
  have s: "\<exists>fs ns. st' = st\<lparr>rsFaults := fs, rsNotifs := ns\<rparr>"
  proof (cases "tgt = [] \<and> origin = []")
    case True
    then have "st' = st\<lparr>rsFaults := rsFaults st, rsNotifs := rsNotifs st\<rparr>"
      using assms(2) by (auto simp: deleteNotifications_def)
    then show ?thesis by blast
  next
    case False
    obtain f fs where f: "nextFault (rsFaults st) = (f, fs)" by fastforce
    show ?thesis
    proof (cases f)
      case None
      with False f assms(2) show ?thesis
        by (auto simp: deleteNotifications_def) (rule exI, rule exI, rule refl)+
    next
      case (Some err)
      have "st' = st\<lparr>rsFaults := fs\<rparr>" using False f Some assms(2) by (auto simp: deleteNotifications_def)
      also have "\<dots> = st\<lparr>rsFaults := fs, rsNotifs := rsNotifs st\<rparr>" by simp
      finally show ?thesis by blast
    qed
  qed
  show "\<exists>fs ns. st' = st\<lparr>rsFaults := fs, rsNotifs := ns\<rparr>" by (rule s)
  show "relInv cfg R base st'" using s relInv_notifs [OF assms(1)] by auto
  show "rsFaults st = [] \<Longrightarrow> tgt \<noteq> [] \<Longrightarrow> e = None \<and> rsFaults st' = []"
    using assms(2) by (auto simp: deleteNotifications_def)
  show "e = None \<Longrightarrow> n \<in> set (rsNotifs st') \<Longrightarrow> types \<noteq> [] \<Longrightarrow> tgt \<noteq> [] \<Longrightarrow> origin \<noteq> [] \<Longrightarrow>
      noType n \<in> set types \<Longrightarrow> noTargetAccountID n = tgt \<Longrightarrow> noOriginAccountID n \<noteq> origin"
    using assms(2) by (auto simp: deleteNotifications_def split: prod.splits option.splits if_splits)
qed

lemma acceptFollowRequest_ok:
  assumes inv: "relInv cfg R base st" and nf: "\<not> followingIn (tbRows (rsFollows st)) src tgt"
    and a: "acceptFollowRequest acct now src tgt st = (res, st')"
  shows "relInv cfg R base st'"
    and "res = Inr f \<Longrightarrow> tbRows (rsFollows st') = tbRows (rsFollows st) @ [f] \<and>
      foAccountID f = src \<and> foTargetAccountID f = tgt \<and>
      (\<exists>r \<in> set (tbRows (rsRequests st)). frAccountID r = src \<and> frTargetAccountID r = tgt \<and> f = followOf now src tgt r) \<and>
      tbRows (rsRequests st') = filter (\<lambda>r. \<not> (frAccountID r = src \<and> frTargetAccountID r = tgt)) (tbRows (rsRequests st))"
    and "tbRows (rsBlocks st') = tbRows (rsBlocks st)"
    and "rsFaults st = [] \<Longrightarrow> rsFaults st' = []"
    and "rsFaults st = [] \<Longrightarrow> res = Inl err \<Longrightarrow>
      tbRows (rsFollows st') = tbRows (rsFollows st) \<and> tbRows (rsRequests st') = tbRows (rsRequests st)"
proof -
  let ?rows = "tbRows (rsRequests st)" and ?i = requestPair
  have tab: "tableOK requestIxs ?rows" using inv by (simp add: relInv_def tblOK_def)
  obtain r t fs where l: "loadRequest (ixName ?i) [src, tgt] (\<lambda>v. ixFields ?i v = [src, tgt]) st =
        (r, st\<lparr>rsRequests := t, rsFaults := fs\<rparr>)"
    and t: "tblOK requestIxs t" "tbRows t = ?rows" and an: "answers r (rowsLookup ?i [src, tgt] ?rows)"
    and nofs: "rsFaults st = [] \<Longrightarrow> r = rowsLookup ?i [src, tgt] ?rows \<and> fs = []"
    and vals: "\<And>v. r = Inr v \<Longrightarrow> getValues (ixKey ?i [src, tgt]) (tbCache t) = [v]"
    by (rule loadRequest_ok [OF inv index_mem(6) index_names(9), of "[src, tgt]"]) (rule that)
  let ?s1 = "st\<lparr>rsRequests := t, rsFaults := fs\<rparr>"
  have inv1: "relInv cfg R base ?s1" by (rule relInv_requestCache [OF inv t])
  have l': "getFollowRequest acct src tgt st = populated (populateFollowRequest acct) (r, ?s1)"
    using l by (simp only: getFollowRequest_def getFollowRequest'_load)
  consider (err) e where "getFollowRequest acct src tgt st = (Inl e, ?s1)"
    | (ok) g where "r = Inr g" "getFollowRequest acct src tgt st = (Inr g, ?s1)"
  proof (cases r)
    case (Inl e)
    then show ?thesis using err l' by (simp add: populated_def)
  next
    case (Inr g)
    then show ?thesis
      using err ok l' by (cases "populateFollowRequest acct g") (simp_all add: populated_def)
  qed
  then have goal: "relInv cfg R base st' \<and>
    (res = Inr f \<longrightarrow> tbRows (rsFollows st') = tbRows (rsFollows st) @ [f] \<and>
      foAccountID f = src \<and> foTargetAccountID f = tgt \<and>
      (\<exists>r \<in> set ?rows. frAccountID r = src \<and> frTargetAccountID r = tgt \<and> f = followOf now src tgt r) \<and>
      tbRows (rsRequests st') = filter (\<lambda>r. \<not> (frAccountID r = src \<and> frTargetAccountID r = tgt)) ?rows) \<and>
    tbRows (rsBlocks st') = tbRows (rsBlocks st) \<and>
    (rsFaults st = [] \<longrightarrow> rsFaults st' = [] \<and> (res = Inl err \<longrightarrow>
      tbRows (rsFollows st') = tbRows (rsFollows st) \<and> tbRows (rsRequests st') = ?rows))"
  proof cases
    case err
    then have "res = Inl e" "st' = ?s1" using a by (auto simp: acceptFollowRequest_def)
    then show ?thesis using inv1 t(2) nofs by simp
  next
    case (ok g)
    let ?f = "followOf now src tgt g"
    have "rowsLookup ?i [src, tgt] ?rows = Inr g" using an ok(1) by (auto simp: answers_def)
    from rowsLookup_Inr [OF this] have g: "g \<in> set ?rows" "frAccountID g = src" "frTargetAccountID g = tgt" by simp_all
    have acc: "foAccountID ?f = src" "foTargetAccountID ?f = tgt" "foID ?f = frID g" by (simp_all add: followOf_def)
    have ups: "upsertFollow ?f rows = insertRow followIxs ?f rows" if "rows = tbRows (rsFollows st)" for rows
      using nf that by (rule_tac ext) (auto simp: upsertFollow_def followingIn_def acc)
    obtain e2 fs2 t2 where s2: "storeRow followIxs ?f (upsertFollow ?f) fs (rsFollows st) = (e2, fs2, t2)"
      by (metis prod.exhaust)
    then have s2': "storeRow followIxs ?f (insertRow followIxs ?f) fs (rsFollows st) = (e2, fs2, t2)"
      by (simp add: storeRow_def ups)
    have okf: "tblOK followIxs (rsFollows st)" using inv by (simp add: relInv_def)
    note ins = fol.storeRow_insert [OF okf s2']
    let ?u2 = "?s1\<lparr>rsFollows := t2, rsFaults := fs2\<rparr>"
    let ?s2 = "hookFollow ?f ?u2"
    have inv2: "relInv cfg R base ?s2"
    proof (rule relInv_hookFollow [OF inv1 ins(1)])
      show "sameExcept foAccountID foTargetAccountID (foAccountID ?f) (foTargetAccountID ?f)
          (tbRows (rsFollows ?s1)) (tbRows t2)"
        using ins(2) sameExcept_append [of foAccountID foTargetAccountID ?f] by simp
    qed
    have q2: "quiet ?u2 ?s2" by (rule quiet_hooks)
    have f2: "rsFaults ?s2 = []" if "rsFaults st = []"
      using nofs [OF that] s2 by (auto simp: storeRow_def upsertFollow_def insertRow_def split: if_splits sum.splits)
    show ?thesis
    proof (cases e2)
      case (Some err)
      then have "res = Inl err" "st' = ?s2" using a ok s2 by (auto simp: acceptFollowRequest_def Let_def)
      then show ?thesis using inv2 f2 t(2) ins(2) Some by simp
    next
      case None
      obtain e3 fs3 t3 where x: "execDelete (\<lambda>x. frID x = frID g) (rsFaults ?s2) (rsRequests ?s2) = (e3, fs3, t3)"
        by (metis prod.exhaust)
      note del = execDelete_cases [OF x]
      let ?s3 = "?s2\<lparr>rsRequests := t3, rsFaults := fs3\<rparr>"
      have same: "frID w = frID g \<longleftrightarrow> frAccountID w = src \<and> frTargetAccountID w = tgt" if w: "w \<in> set ?rows" for w
        using req.tableOK_unique [OF tab index_mem(4) index_names(7) w g(1)]
          req.tableOK_unique [OF tab index_mem(6) index_names(9) w g(1)] g(2,3) by auto
      have c1: "cacheInv requestIxs ?rows (tbCache t)" using t by (simp add: tblOK_def)
      have "getValues (ixKey (idIndex frID :: follow_request sindex) (ixFields (idIndex frID) g)) (tbCache t) = [g]"
        by (rule req.getValues_other [OF c1 _ vals [OF ok(1)] index_mem(4) index_names(7)])
          (simp add: req.isUnique_ixKey)
      then have "getValues (key1 ''ID'' (frID g)) (tbCache (rsRequests ?u2)) = [g]"
        using key_ixKey(1) [of "frID g" "frID :: follow_request \<Rightarrow> string"] by simp
      then have sl: "rsRequestIDs ?s2 \<subseteq>\<^sub>m invalidateSlices (requestSliceKeys src tgt) (rsRequestIDs st)"
        using hookFollow_request [of ?rows ?u2 ?f g] c1 g acc by simp
      have rows2: "tbRows (rsRequests ?s2) = ?rows" using t(2) by simp
      have rows3: "tbRows t3 = (if e3 = None then filter (\<lambda>r. \<not> (frAccountID r = src \<and> frTargetAccountID r = tgt)) ?rows else ?rows)"
        using del(2) rows2 same by (auto intro: filter_cong)
      have inv3: "relInv cfg R base ?s3"
      proof (rule relInv_step [OF inv2])
        show "tblOK requestIxs (rsRequests ?s3)"
        proof (rule req.tblOK_deleted [OF _ index_mem(4) index_names(7), where parts = "[frID g]" and t = "rsRequests ?s2"])
          show "tblOK requestIxs (rsRequests ?s2)" using inv2 by (simp add: relInv_def)
          then show "cacheInv requestIxs (tbRows (rsRequests ?s2)) (tbCache (rsRequests ?s3))"
            using del(1) by (simp add: tblOK_def)
          show "tbRows (rsRequests ?s3) = filter (\<lambda>v. ixFields (idIndex frID) v \<noteq> [frID g]) (tbRows (rsRequests ?s2)) \<or>
              tbRows (rsRequests ?s3) = tbRows (rsRequests ?s2)"
            using del(2) by (cases e3) auto
          show "holders (ixKey (idIndex frID :: follow_request sindex) [frID g]) (tbCache (rsRequests ?s3)) = []"
            using hookFollow_effect(3) [of ?f ?u2] del(1) acc(3)
              key_ixKey(1) [of "frID g" "frID :: follow_request \<Rightarrow> string"] by simp
        qed
        show "requestSlicesOK (tbRows (rsRequests ?s3)) (rsRequestIDs ?s3)"
        proof (rule requestSlicesOK_change [where m = "rsRequestIDs st" and a = src and b = tgt and rows = ?rows])
          show "requestSlicesOK ?rows (rsRequestIDs st)" using inv by (simp add: relInv_def)
          show "sameExcept frAccountID frTargetAccountID src tgt ?rows (tbRows (rsRequests ?s3))"
            using rows3 by (auto intro!: sameExcept_filter)
          show "rsRequestIDs ?s3 \<subseteq>\<^sub>m invalidateSlices (requestSliceKeys src tgt) (rsRequestIDs st)" using sl by simp
        qed
      qed (use inv2 in \<open>simp_all add: relInv_def relDB_def\<close>)
      show ?thesis
      proof (cases e3)
        case (Some err)
        then have "res = Inl err" "st' = ?s3" using a ok s2 None x by (auto simp: acceptFollowRequest_def Let_def)
        then show ?thesis using inv3 del(3) f2 Some by auto
      next
        case n3: None
        obtain e4 s4 where n: "deleteNotifications [notificationFollowRequest] tgt src ?s3 = (e4, s4)" by fastforce
        have st': "st' = s4" and res: "res = (case e4 of Some err \<Rightarrow> Inl err | None \<Rightarrow> Inr ?f)"
          using a ok s2 None x n3 n by (auto simp: acceptFollowRequest_def Let_def split: option.splits)
        note dn = deleteNotifications_ok [OF inv3 n]
        from dn(2) obtain fs4 ns where s4: "s4 = ?s3\<lparr>rsFaults := fs4, rsNotifs := ns\<rparr>" by blast
        have "tbRows t2 = tbRows (rsFollows st) @ [?f]" using ins(2) None by simp
        then have "res = Inr f \<longrightarrow> tbRows (rsFollows st') = tbRows (rsFollows st) @ [f] \<and> f = ?f"
          using res by (auto simp: st' s4 split: option.splits)
        moreover have "tbRows (rsRequests st') = filter (\<lambda>r. \<not> (frAccountID r = src \<and> frTargetAccountID r = tgt)) ?rows"
          using rows3 n3 by (simp add: st' s4)
        moreover have "tbRows (rsBlocks st') = tbRows (rsBlocks st)" by (simp add: st' s4)
        moreover have "rsFaults st' = [] \<and> (\<exists>f. res = Inr f)" if fs: "rsFaults st = []"
        proof -
          have "ixFields ?i g = [src, tgt]" using g by simp
          then have "tgt \<noteq> []" using req.tableOK_key [OF tab index_mem(6) g(1)] by (auto simp: ixKey_def pairIndex_def)
          moreover have "rsFaults ?s3 = []" using del(3) f2 [OF fs] by simp
          ultimately have "e4 = None \<and> rsFaults s4 = []" using dn(3) by blast
          then show ?thesis using st' res by simp
        qed
        ultimately show ?thesis using dn(1) st' g acc by (cases res) blast+
      qed
    qed
  qed
  show "relInv cfg R base st'" using goal by blast
  show "tbRows (rsFollows st') = tbRows (rsFollows st) @ [f] \<and>
      foAccountID f = src \<and> foTargetAccountID f = tgt \<and>
      (\<exists>r \<in> set ?rows. frAccountID r = src \<and> frTargetAccountID r = tgt \<and> f = followOf now src tgt r) \<and>
      tbRows (rsRequests st') = filter (\<lambda>r. \<not> (frAccountID r = src \<and> frTargetAccountID r = tgt)) ?rows"
    if "res = Inr f" using goal that by blast
  show "tbRows (rsBlocks st') = tbRows (rsBlocks st)" using goal by blast
  show "rsFaults st = [] \<Longrightarrow> rsFaults st' = []" using goal by blast
  show "rsFaults st = [] \<Longrightarrow> res = Inl err \<Longrightarrow>
      tbRows (rsFollows st') = tbRows (rsFollows st) \<and> tbRows (rsRequests st') = ?rows" using goal by blast
qed

end
