(* ===== verification/RelationshipProps.thy ===== *)
theory RelationshipProps
  imports RelationshipInv
begin

text \<open>
  Histories of the relationship database: the operations of \<open>Relationships\<close>, visibility lookups
  that share its caches, faults and evictions, and what every lookup answers after any of them.
\<close>

subsection \<open>Lists of IDs, follows by their IDs, relationships\<close>

lemma relInv_slices:
  "relInv cfg R base st \<Longrightarrow> followSlicesOK (rsLocalIDs st) (tbRows (rsFollows st)) m \<Longrightarrow>
    relInv cfg R base (st\<lparr>rsFaults := fs, rsFollowIDs := m\<rparr>)"
  "relInv cfg R base st \<Longrightarrow> requestSlicesOK (tbRows (rsRequests st)) m \<Longrightarrow>
    relInv cfg R base (st\<lparr>rsFaults := fs, rsRequestIDs := m\<rparr>)"
  "relInv cfg R base st \<Longrightarrow> blockSlicesOK (tbRows (rsBlocks st)) m \<Longrightarrow>
    relInv cfg R base (st\<lparr>rsFaults := fs, rsBlockIDs := m\<rparr>)"
  by (simp_all add: relInv_def relDB_def)

lemma loadSlice_cases:
  assumes "loadSlice key sel fs m = (r, fs', m')" and "\<And>xs. m key = Some xs \<Longrightarrow> xs = sel"
  shows "answers r (Inr sel) \<and> (m' = m \<or> m' = m(key \<mapsto> sel)) \<and> (fs = [] \<longrightarrow> r = Inr sel \<and> fs' = [])"
  using assms
  by (auto simp: loadSlice_def answers_def nextFault_ignored split: option.splits prod.splits)

definition pagedIDs :: "page option \<Rightarrow> string list \<Rightarrow> string list" where
  "pagedIDs po ids = pageSlice po (if getOrder po = OrderAscending then rev ids else ids)"

lemma loadPagedIDs_cases:
  assumes "loadPagedIDs key po sel fs m = (r, fs', m')" and "\<And>xs. m key = Some xs \<Longrightarrow> xs = sel"
  shows "answers r (Inr (pagedIDs po sel)) \<and> (m' = m \<or> m' = m(key \<mapsto> sel)) \<and>
    (fs = [] \<longrightarrow> r = Inr (pagedIDs po sel) \<and> fs' = [])"
proof -
  obtain r0 fs0 m0 where l: "loadSlice key sel fs m = (r0, fs0, m0)" by (metis prod.exhaust)
  from loadSlice_cases [OF l assms(2)] show ?thesis
    using assms(1) l by (cases r0) (auto simp: loadPagedIDs_def pagedIDs_def answers_def)
qed

lemma followSlicesOK_upd:
  assumes "followSlicesOK loc rows m"
  shows "followSlicesOK loc rows (m(''>'' @ a \<mapsto> newSelectFollows a rows))"
    and "followSlicesOK loc rows (m(''l>'' @ a \<mapsto> newSelectLocalFollows loc a rows))"
    and "followSlicesOK loc rows (m(''<'' @ a \<mapsto> newSelectFollowers a rows))"
    and "followSlicesOK loc rows (m(''l<'' @ a \<mapsto> newSelectLocalFollowers loc a rows))"
  using assms by (auto simp: followSlicesOK_def)

lemma requestSlicesOK_upd:
  assumes "requestSlicesOK rows m"
  shows "requestSlicesOK rows (m(''>'' @ a \<mapsto> newSelectFollowRequests a rows))"
    and "requestSlicesOK rows (m(''<'' @ a \<mapsto> newSelectFollowRequesting a rows))"
  using assms by (auto simp: requestSlicesOK_def)

lemma blockSlicesOK_upd:
  "blockSlicesOK rows m \<Longrightarrow> blockSlicesOK rows (m(a \<mapsto> newSelectBlocks a rows))"
  by (auto simp: blockSlicesOK_def)

lemma readOK_withFollowIDs:
  assumes "relInv cfg R base st"
    and "\<And>r fs m. f (rsFaults st) (rsFollowIDs st) = (r, fs, m) \<Longrightarrow> answers r spec \<and>
      (m = rsFollowIDs st \<or> m = (rsFollowIDs st)(key \<mapsto> sel)) \<and> (rsFaults st = [] \<longrightarrow> r = spec \<and> fs = [])"
    and "followSlicesOK (rsLocalIDs st) (tbRows (rsFollows st)) ((rsFollowIDs st)(key \<mapsto> sel))"
  shows "readOK cfg R base st spec (withFollowIDs f st)"
proof -
  obtain r fs m where f: "f (rsFaults st) (rsFollowIDs st) = (r, fs, m)" by (metis prod.exhaust)
  have "followSlicesOK (rsLocalIDs st) (tbRows (rsFollows st)) m"
    using assms(2) [OF f] assms(1,3) by (auto simp: relInv_def)
  from relInv_slices(1) [OF assms(1) this] show ?thesis
    using assms(2) [OF f] f by (auto simp: readOK_def withFollowIDs_def sameData_def)
qed

lemma readOK_withRequestIDs:
  assumes "relInv cfg R base st"
    and "\<And>r fs m. f (rsFaults st) (rsRequestIDs st) = (r, fs, m) \<Longrightarrow> answers r spec \<and>
      (m = rsRequestIDs st \<or> m = (rsRequestIDs st)(key \<mapsto> sel)) \<and> (rsFaults st = [] \<longrightarrow> r = spec \<and> fs = [])"
    and "requestSlicesOK (tbRows (rsRequests st)) ((rsRequestIDs st)(key \<mapsto> sel))"
  shows "readOK cfg R base st spec (withRequestIDs f st)"
proof -
  obtain r fs m where f: "f (rsFaults st) (rsRequestIDs st) = (r, fs, m)" by (metis prod.exhaust)
  have "requestSlicesOK (tbRows (rsRequests st)) m" using assms(2) [OF f] assms(1,3) by (auto simp: relInv_def)
  from relInv_slices(2) [OF assms(1) this] show ?thesis
    using assms(2) [OF f] f by (auto simp: readOK_def withRequestIDs_def sameData_def)
qed

lemma readOK_withBlockIDs:
  assumes "relInv cfg R base st"
    and "\<And>r fs m. f (rsFaults st) (rsBlockIDs st) = (r, fs, m) \<Longrightarrow> answers r spec \<and>
      (m = rsBlockIDs st \<or> m = (rsBlockIDs st)(key \<mapsto> sel)) \<and> (rsFaults st = [] \<longrightarrow> r = spec \<and> fs = [])"
    and "blockSlicesOK (tbRows (rsBlocks st)) ((rsBlockIDs st)(key \<mapsto> sel))"
  shows "readOK cfg R base st spec (withBlockIDs f st)"
proof -
  obtain r fs m where f: "f (rsFaults st) (rsBlockIDs st) = (r, fs, m)" by (metis prod.exhaust)
  have "blockSlicesOK (tbRows (rsBlocks st)) m" using assms(2) [OF f] assms(1,3) by (auto simp: relInv_def)
  from relInv_slices(3) [OF assms(1) this] show ?thesis
    using assms(2) [OF f] f by (auto simp: readOK_def withBlockIDs_def sameData_def)
qed

lemma readOK_lists:
  assumes "relInv cfg R base st"
  shows "readOK cfg R base st (Inr (pagedIDs po (newSelectFollows a (tbRows (rsFollows st))))) (getAccountFollowIDs a po st)"
    and "readOK cfg R base st (Inr (pagedIDs po (newSelectFollowers a (tbRows (rsFollows st))))) (getAccountFollowerIDs a po st)"
    and "readOK cfg R base st (Inr (newSelectLocalFollows (rsLocalIDs st) a (tbRows (rsFollows st)))) (getAccountLocalFollowIDs a st)"
    and "readOK cfg R base st (Inr (newSelectLocalFollowers (rsLocalIDs st) a (tbRows (rsFollows st)))) (getAccountLocalFollowerIDs a st)"
    and "readOK cfg R base st (Inr (pagedIDs po (newSelectFollowRequests a (tbRows (rsRequests st))))) (getAccountFollowRequestIDs a po st)"
    and "readOK cfg R base st (Inr (pagedIDs po (newSelectFollowRequesting a (tbRows (rsRequests st))))) (getAccountFollowRequestingIDs a po st)"
    and "readOK cfg R base st (Inr (pagedIDs po (newSelectBlocks a (tbRows (rsBlocks st))))) (getAccountBlockIDs a po st)"
proof -
  have f: "followSlicesOK (rsLocalIDs st) (tbRows (rsFollows st)) (rsFollowIDs st)"
    and r: "requestSlicesOK (tbRows (rsRequests st)) (rsRequestIDs st)"
    and b: "blockSlicesOK (tbRows (rsBlocks st)) (rsBlockIDs st)"
    using assms by (simp_all add: relInv_def)
  show "readOK cfg R base st (Inr (pagedIDs po (newSelectFollows a (tbRows (rsFollows st))))) (getAccountFollowIDs a po st)"
    unfolding getAccountFollowIDs_def
    by (rule readOK_withFollowIDs [OF assms _ followSlicesOK_upd(1) [OF f]], erule loadPagedIDs_cases)
      (use f in \<open>simp add: followSlicesOK_def\<close>)
  show "readOK cfg R base st (Inr (pagedIDs po (newSelectFollowers a (tbRows (rsFollows st))))) (getAccountFollowerIDs a po st)"
    unfolding getAccountFollowerIDs_def
    by (rule readOK_withFollowIDs [OF assms _ followSlicesOK_upd(3) [OF f]], erule loadPagedIDs_cases)
      (use f in \<open>simp add: followSlicesOK_def\<close>)
  show "readOK cfg R base st (Inr (newSelectLocalFollows (rsLocalIDs st) a (tbRows (rsFollows st)))) (getAccountLocalFollowIDs a st)"
    unfolding getAccountLocalFollowIDs_def
    by (rule readOK_withFollowIDs [OF assms _ followSlicesOK_upd(2) [OF f]], erule loadSlice_cases)
      (use f in \<open>simp add: followSlicesOK_def\<close>)
  show "readOK cfg R base st (Inr (newSelectLocalFollowers (rsLocalIDs st) a (tbRows (rsFollows st)))) (getAccountLocalFollowerIDs a st)"
    unfolding getAccountLocalFollowerIDs_def
    by (rule readOK_withFollowIDs [OF assms _ followSlicesOK_upd(4) [OF f]], erule loadSlice_cases)
      (use f in \<open>simp add: followSlicesOK_def\<close>)
  show "readOK cfg R base st (Inr (pagedIDs po (newSelectFollowRequests a (tbRows (rsRequests st))))) (getAccountFollowRequestIDs a po st)"
    unfolding getAccountFollowRequestIDs_def
    by (rule readOK_withRequestIDs [OF assms _ requestSlicesOK_upd(1) [OF r]], erule loadPagedIDs_cases)
      (use r in \<open>simp add: requestSlicesOK_def\<close>)
  show "readOK cfg R base st (Inr (pagedIDs po (newSelectFollowRequesting a (tbRows (rsRequests st))))) (getAccountFollowRequestingIDs a po st)"
    unfolding getAccountFollowRequestingIDs_def
    by (rule readOK_withRequestIDs [OF assms _ requestSlicesOK_upd(2) [OF r]], erule loadPagedIDs_cases)
      (use r in \<open>simp add: requestSlicesOK_def\<close>)
  show "readOK cfg R base st (Inr (pagedIDs po (newSelectBlocks a (tbRows (rsBlocks st))))) (getAccountBlockIDs a po st)"
    unfolding getAccountBlockIDs_def
    by (rule readOK_withBlockIDs [OF assms _ blockSlicesOK_upd [OF b]], erule loadPagedIDs_cases)
      (use b in \<open>simp add: blockSlicesOK_def\<close>)
qed

text \<open>What \<open>GetRelationship\<close> answers on the tables.\<close>

definition relationshipOn :: "(string \<Rightarrow> string \<Rightarrow> lookup_error + string) \<Rightarrow>
    (string \<Rightarrow> string \<Rightarrow> lookup_error + mute_info) \<Rightarrow> time \<Rightarrow> string \<Rightarrow> string \<Rightarrow> relstate \<Rightarrow> relationship" where
  "relationshipOn getNote getMute now req tgt st =
     (let follow = find (\<lambda>f. foAccountID f = req \<and> foTargetAccountID f = tgt) (tbRows (rsFollows st));
          mute = (case getMute req tgt of Inl _ \<Rightarrow> None | Inr u \<Rightarrow> if muteExpired u now then None else Some u)
      in \<lparr>rlID = tgt, rlFollowing = (follow \<noteq> None),
          rlShowingReblogs = (case follow of None \<Rightarrow> False | Some f \<Rightarrow> foShowReblogs f),
          rlNotifying = (case follow of None \<Rightarrow> False | Some f \<Rightarrow> foNotify f),
          rlFollowedBy = followingIn (tbRows (rsFollows st)) tgt req,
          rlBlocking = blockedIn (tbRows (rsBlocks st)) req tgt, rlBlockedBy = blockedIn (tbRows (rsBlocks st)) tgt req,
          rlMuting = (mute \<noteq> None), rlMutingNotifications = (case mute of None \<Rightarrow> False | Some u \<Rightarrow> muNotifications u),
          rlRequested = requestedIn (tbRows (rsRequests st)) req tgt,
          rlRequestedBy = requestedIn (tbRows (rsRequests st)) tgt req,
          rlNote = (case getNote req tgt of Inl _ \<Rightarrow> [] | Inr n \<Rightarrow> n)\<rparr>)"

definition calmLookup :: "(lookup_error + 'a) \<Rightarrow> bool" where
  "calmLookup r \<longleftrightarrow> (case r of Inl e \<Rightarrow> e = LNoEntries | Inr _ \<Rightarrow> True)"

lemma readOK_bind:
  assumes "relInv cfg R base s" and "sameData st s"
    and "\<And>t. relInv cfg R base t \<Longrightarrow> sameData st t \<Longrightarrow> readOK cfg R base t (Inr a) (m t)"
    and "\<And>t. relInv cfg R base t \<Longrightarrow> sameData st t \<Longrightarrow> readOK cfg R base t spec (f a t)"
  shows "readOK cfg R base s spec (andThen (m s) f)"
  by (rule readOK_andThen [OF assms(3) [OF assms(1,2)]]) (blast intro: assms(2,4) sameData_trans)

lemma readOK_steps:
  assumes "relInv cfg R base s" and "sameData st s"
  shows "(\<And>t. relInv cfg R base t \<Longrightarrow> sameData st t \<Longrightarrow>
      readOK cfg R base t spec (f (followingIn (tbRows (rsFollows st)) a b) t)) \<Longrightarrow>
      readOK cfg R base s spec (andThen (isFollowing a b s) f)"
    and "(\<And>t. relInv cfg R base t \<Longrightarrow> sameData st t \<Longrightarrow>
      readOK cfg R base t spec (f (requestedIn (tbRows (rsRequests st)) a b) t)) \<Longrightarrow>
      readOK cfg R base s spec (andThen (isFollowRequested a b s) f)"
    and "(\<And>t. relInv cfg R base t \<Longrightarrow> sameData st t \<Longrightarrow>
      readOK cfg R base t spec (f (blockedIn (tbRows (rsBlocks st)) a b) t)) \<Longrightarrow>
      readOK cfg R base s spec (andThen (isBlocked a b s) f)"
  by (rule readOK_bind [OF assms readOK_later(1)] readOK_bind [OF assms readOK_later(2)]
      readOK_bind [OF assms readOK_later(3)]; assumption | blast)+

lemma readOK_calm:
  assumes "relInv cfg R base s" and "sameData st s" and "calmLookup l"
    and "\<And>t. relInv cfg R base t \<Longrightarrow> sameData st t \<Longrightarrow>
      readOK cfg R base t spec (f (case l of Inl _ \<Rightarrow> None | Inr v \<Rightarrow> Some v) t)"
  shows "readOK cfg R base s spec (andThen (noEntriesOK (l, s)) f)"
proof (rule readOK_bind [where m = "\<lambda>t. noEntriesOK (l, t)", OF assms(1,2)])
  fix t assume "relInv cfg R base t"
  then show "readOK cfg R base t (Inr (case l of Inl _ \<Rightarrow> None | Inr v \<Rightarrow> Some v)) (noEntriesOK (l, t))"
    using assms(3) by (intro readOK_noEntries) (auto simp: calmLookup_def)
qed (rule assms(4))

lemma readOK_getRelationship:
  assumes inv: "relInv cfg R base st" and calm: "calmLookup (getNote req tgt)" "calmLookup (getMute req tgt)"
  shows "readOK cfg R base st (Inr (relationshipOn getNote getMute now req tgt st)) (getRelationship getNote getMute now req tgt st)"
proof -
  have fol: "(case rowsLookup followPair [req, tgt] (tbRows (rsFollows st)) of Inl _ \<Rightarrow> None | Inr v \<Rightarrow> Some v)
      = find (\<lambda>f. foAccountID f = req \<and> foTargetAccountID f = tgt) (tbRows (rsFollows st))"
    by (simp add: rowsLookup_def split: option.split)
  show ?thesis
    unfolding getRelationship_def getFollow'_load
    apply (rule readOK_andThen [OF readOK_noEntries [OF readOK_loadFollow [OF inv]]])
       apply simp
      apply simp
     apply (erule rowsLookup_error)
    apply (rule readOK_steps readOK_calm, assumption, assumption, (rule calm)?)+
    apply (auto simp: fol relationshipOn_def Let_def intro!: readOK_return split: sum.splits option.splits)
    done
qed

subsection \<open>Lists of rows\<close>

lemma lastPos_notin: "x \<notin> set ks \<Longrightarrow> lastPos i p ks x = p"
  by (induction ks arbitrary: i p) auto

lemma lastPos_nth: "distinct ks \<Longrightarrow> k < length ks \<Longrightarrow> lastPos i p ks (ks ! k) = i + k"
proof (induction ks arbitrary: i p k)
  case (Cons x xs)
  then show ?case by (cases k) (auto simp: lastPos_notin)
qed simp

definition rowOf :: "('v \<Rightarrow> string) \<Rightarrow> 'v list \<Rightarrow> string \<Rightarrow> 'v" where
  "rowOf get rows i = the (find (\<lambda>v. get v = i) rows)"

lemma rowOf_mem:
  assumes "i \<in> get ` set rows"
  shows "rowOf get rows i \<in> set rows" and "get (rowOf get rows i) = i"
proof -
  obtain v where v: "find (\<lambda>v. get v = i) rows = Some v"
    using assms find_None_iff [of "\<lambda>v. get v = i" rows] by (cases "find (\<lambda>v. get v = i) rows") auto
  then have "v \<in> set rows" "get v = i" by (auto simp: find_Some_iff)
  then show "rowOf get rows i \<in> set rows" and "get (rowOf get rows i) = i" by (simp_all add: rowOf_def v)
qed

lemma orderBy_rows:
  assumes "distinct ids" and "distinct vs" and "set vs = {v \<in> set rows. get v \<in> set ids}"
    and "set ids \<subseteq> get ` set rows" and "inj_on get (set rows)"
  shows "orderBy ids get vs = map (rowOf get rows) ids"
proof -
  let ?F = "\<lambda>v. lastPos 0 0 ids (get v)" and ?ws = "map (rowOf get rows) ids"
  have row: "rowOf get rows i \<in> set rows" "get (rowOf get rows i) = i" if "i \<in> set ids" for i
    using rowOf_mem [of i get rows] assms(4) that by auto
  have F: "?F (rowOf get rows (ids ! k)) = k" if "k < length ids" for k
    using row(2) [of "ids ! k"] lastPos_nth [OF assms(1) that] that by simp
  have nums: "map ?F ?ws = [0..<length ids]" by (rule nth_equalityI) (simp_all add: F)
  have sets: "set vs = set ?ws"
  proof
    show "set vs \<subseteq> set ?ws"
    proof
      fix v assume "v \<in> set vs"
      then have v: "v \<in> set rows" "get v \<in> set ids" using assms(3) by auto
      then have "rowOf get rows (get v) = v" using row [OF v(2)] assms(5) by (auto dest: inj_onD)
      then show "v \<in> set ?ws" using v(2) by (force simp: image_iff)
    qed
    show "set ?ws \<subseteq> set vs" using assms(3) row by auto
  qed
  have "inj_on ?F (set ?ws)"
    by (rule distinct_map [THEN iffD1, THEN conjunct2]) (simp only: nums distinct_upt)
  then have inj: "inj_on ?F (set (orderBy ids get vs) \<union> set ?ws)" by (simp add: orderBy_def sets)
  have "map ?F (orderBy ids get vs) = map ?F ?ws"
  proof (rule sorted_distinct_set_unique)
    show "sorted (map ?F (orderBy ids get vs))" by (simp add: orderBy_def)
    show "distinct (map ?F (orderBy ids get vs))"
      using assms(2) inj by (simp add: distinct_map orderBy_def inj_on_Un)
    show "sorted (map ?F ?ws)" "distinct (map ?F ?ws)" by (simp_all only: nums sorted_upt distinct_upt)
    have "set (orderBy ids get vs) = set ?ws" using sets by (simp add: orderBy_def)
    then show "set (map ?F (orderBy ids get vs)) = set (map ?F ?ws)" by (simp only: set_map)
  qed
  then show ?thesis by (rule map_inj_on [OF _ inj])
qed

context indexed
begin

lemma loadRows_ordered:
  assumes "tblOK ixs t" and "i \<in> set ixs" and "\<not> ixMultiple i" and "\<And>v. ixFields i v = [get v]"
    and "loadRows i ixs ids fs t = (r, fs', t')" and "distinct ids"
    and "set ids \<subseteq> get ` set (tbRows t)" and "r = Inr vs"
  shows "orderBy ids get vs = map (rowOf get (tbRows t)) ids"
proof (rule orderBy_rows [OF assms(6) _ _ assms(7)])
  note ok = loadRows_ok [OF assms(1-3,5)]
  have tab: "tableOK ixs (tbRows t)" using assms(1) by (simp add: tblOK_def)
  then have d: "distinct (tbRows t)" by (simp add: tableOK_def)
  show "distinct vs" by (rule ok(4) [OF assms(8,6) d])
  show "set vs = {v \<in> set (tbRows t). get v \<in> set ids}" using ok(3) [OF assms(8)] by (simp add: assms(4))
  show "inj_on get (set (tbRows t))"
    using tableOK_unique [OF tab assms(2,3)] by (auto simp: assms(4) intro: inj_onI)
qed

lemma distinct_column:
  assumes "tblOK ixs t" and "i \<in> set ixs" and "\<not> ixMultiple i" and "\<And>v. ixFields i v = [get v]"
  shows "distinct (map get (filter P (tbRows t)))"
proof -
  have tab: "tableOK ixs (tbRows t)" using assms(1) by (simp add: tblOK_def)
  then have "distinct (tbRows t)" by (simp add: tableOK_def)
  moreover have "inj_on get (set (tbRows t))"
    using tableOK_unique [OF tab assms(2,3)] by (auto simp: assms(4) intro: inj_onI)
  ultimately show ?thesis by (simp add: distinct_map) (auto intro: inj_on_subset)
qed

end

definition rowsFor :: "('v \<Rightarrow> string) \<Rightarrow> ('v \<Rightarrow> lookup_error option) \<Rightarrow> 'v list \<Rightarrow> string list \<Rightarrow> 'v list" where
  "rowsFor get pop rows ids = filter (\<lambda>v. pop v = None) (map (rowOf get rows) ids)"

lemma readOK_getFollowsByIDs:
  assumes "relInv cfg R base st" and "distinct ids"
    and "set ids \<subseteq> foID ` set (tbRows (rsFollows st))"
  shows "readOK cfg R base st (Inr (rowsFor foID (populateFollow acct) (tbRows (rsFollows st)) ids))
    (getFollowsByIDs acct ids st)"
proof -
  obtain r fs t where l: "loadRows (idIndex foID) followIxs ids (rsFaults st) (rsFollows st) = (r, fs, t)"
    by (metis prod.exhaust)
  have ok: "tblOK followIxs (rsFollows st)" using assms(1) by (simp add: relInv_def)
  note ld = fol.loadRows_ok [OF ok index_mem(1) index_names(7) l]
  have f: "ixFields (idIndex foID) v = [foID v]" for v by simp
  note ord = fol.loadRows_ordered [OF ok index_mem(1) index_names(7) f l assms(2,3)]
  have inv: "relInv cfg R base (st\<lparr>rsFollows := t, rsFaults := fs\<rparr>)"
    by (rule relInv_followCache [OF assms(1) ld(1,2)])
  show ?thesis
    using inv ld(2,5-) ord l
    by (cases r) (auto simp: readOK_def getFollowsByIDs_def sameData_def rowsFor_def answers_def)
qed

lemma readOK_getFollowRequestsByIDs:
  assumes "relInv cfg R base st" and "distinct ids"
    and "set ids \<subseteq> frID ` set (tbRows (rsRequests st))"
  shows "readOK cfg R base st (Inr (rowsFor frID (populateFollowRequest acct) (tbRows (rsRequests st)) ids))
    (getFollowRequestsByIDs acct ids st)"
proof -
  obtain r fs t where l: "loadRows (idIndex frID) requestIxs ids (rsFaults st) (rsRequests st) = (r, fs, t)"
    by (metis prod.exhaust)
  have ok: "tblOK requestIxs (rsRequests st)" using assms(1) by (simp add: relInv_def)
  note ld = req.loadRows_ok [OF ok index_mem(4) index_names(7) l]
  have f: "ixFields (idIndex frID) v = [frID v]" for v by simp
  note ord = req.loadRows_ordered [OF ok index_mem(4) index_names(7) f l assms(2,3)]
  have inv: "relInv cfg R base (st\<lparr>rsRequests := t, rsFaults := fs\<rparr>)"
    by (rule relInv_requestCache [OF assms(1) ld(1,2)])
  show ?thesis
    using inv ld(2,5-) ord l
    by (cases r) (auto simp: readOK_def getFollowRequestsByIDs_def sameData_def rowsFor_def answers_def)
qed

lemma readOK_getBlocksByIDs:
  assumes "relInv cfg R base st" and "distinct ids"
    and "set ids \<subseteq> blID ` set (tbRows (rsBlocks st))"
  shows "readOK cfg R base st (Inr (rowsFor blID (populateBlock acct) (tbRows (rsBlocks st)) ids))
    (getBlocksByIDs acct ids st)"
proof -
  obtain r fs t where l: "loadRows (idIndex blID) blockIxs ids (rsFaults st) (rsBlocks st) = (r, fs, t)"
    by (metis prod.exhaust)
  have ok: "tblOK blockIxs (rsBlocks st)" using assms(1) by (simp add: relInv_def)
  note ld = blk.loadRows_ok [OF ok index_mem(7) index_names(7) l]
  have f: "ixFields (idIndex blID) v = [blID v]" for v by simp
  note ord = blk.loadRows_ordered [OF ok index_mem(7) index_names(7) f l assms(2,3)]
  have inv: "relInv cfg R base (st\<lparr>rsBlocks := t, rsFaults := fs\<rparr>)"
    by (rule relInv_blockCache [OF assms(1) ld(1,2)])
  show ?thesis
    using inv ld(2,5-) ord l
    by (cases r) (auto simp: readOK_def getBlocksByIDs_def sameData_def rowsFor_def answers_def)
qed

lemma pageSlice_closed:
  assumes "P xs" and "\<And>n ys. P ys \<Longrightarrow> P (take n ys)" and "\<And>n ys. P ys \<Longrightarrow> P (drop n ys)"
    and "\<And>ys. P ys \<Longrightarrow> P (rev ys)"
  shows "P (pageSlice po xs)"
proof -
  have any: "P (Let e f)" if "\<And>x. P (f x)" for e :: int and f using that by (simp add: Let_def)
  have bind: "P (Let e f)" if "P e" "\<And>x. P x \<Longrightarrow> P (f x)" for e f using that by (simp add: Let_def)
  have cond: "P (if b then x else y)" if "P x" "P y" for b x y using that by simp
  have cut: "P (cutLimit l ys)" if "P ys" for l ys using that assms(2) by (simp add: cutLimit_def)
  show ?thesis
  proof (cases po)
    case None
    then show ?thesis using assms(1) by (simp add: pageSlice_def)
  next
    case (Some p)
    show ?thesis
      unfolding pageSlice_def Some option.case
      by (intro cond any bind cut assms)
  qed
qed

lemma set_pageSlice: "set (pageSlice po xs) \<subseteq> set xs"
  by (rule pageSlice_closed) (auto dest: in_set_takeD in_set_dropD)

lemma distinct_pageSlice: "distinct xs \<Longrightarrow> distinct (pageSlice po xs)"
  by (rule pageSlice_closed) auto

lemma pagedIDs_sub:
  "set (pagedIDs po ids) \<subseteq> set ids" "distinct ids \<Longrightarrow> distinct (pagedIDs po ids)"
  using set_pageSlice [of po "rev ids"] set_pageSlice [of po ids] distinct_pageSlice [of "rev ids" po]
    distinct_pageSlice [of ids po] by (auto simp: pagedIDs_def)

end
