(* ===== verification/RelationshipHistory.thy ===== *)
theory RelationshipHistory
  imports RelationshipProps
begin

text \<open>
  Histories of the relationship database. A state is reached from tables behind empty caches by
  any sequence of the operations of \<open>Relationships\<close>, visibility lookups, faults to come and
  evictions; the caches agree with the tables in all of them. The two operations that break this
  are shown to break it at the end.
\<close>

datatype rel_op =
    OpPutFollow follow
  | OpUpdateFollow time follow "string list"
  | OpDeleteFollow string string
  | OpDeleteFollowByID string
  | OpDeleteFollowByURI string
  | OpPutFollowRequest follow_request
  | OpUpdateFollowRequest time follow_request "string list"
  | OpAcceptFollowRequest time string string
  | OpRejectFollowRequest string string
  | OpDeleteFollowRequest string string
  | OpDeleteFollowRequestByID string
  | OpDeleteFollowRequestByURI string
  | OpPutBlock block
  | OpDeleteBlockByID string
  | OpDeleteBlockByURI string
  | OpIsFollowing string string
  | OpIsFollowRequested string string
  | OpIsBlocked string string
  | OpFollows string "page option"
  | OpFollowers string "page option"
  | OpLocalFollows string
  | OpLocalFollowers string
  | OpFollowRequests string "page option"
  | OpBlocks string "page option"

fun relStep :: "(string \<Rightarrow> lookup_error + account) \<Rightarrow> rel_op \<Rightarrow> relstate \<Rightarrow> relstate" where
  "relStep acct (OpPutFollow f) st = snd (putFollow f st)"
| "relStep acct (OpUpdateFollow now f cols) st = snd (updateFollow now f cols st)"
| "relStep acct (OpDeleteFollow a b) st = snd (deleteFollow a b st)"
| "relStep acct (OpDeleteFollowByID i) st = snd (deleteFollowByID i st)"
| "relStep acct (OpDeleteFollowByURI u) st = snd (deleteFollowByURI u st)"
| "relStep acct (OpPutFollowRequest r) st = snd (putFollowRequest r st)"
| "relStep acct (OpUpdateFollowRequest now r cols) st = snd (updateFollowRequest now r cols st)"
| "relStep acct (OpAcceptFollowRequest now a b) st = snd (acceptFollowRequest acct now a b st)"
| "relStep acct (OpRejectFollowRequest a b) st = snd (rejectFollowRequest a b st)"
| "relStep acct (OpDeleteFollowRequest a b) st = snd (deleteFollowRequest a b st)"
| "relStep acct (OpDeleteFollowRequestByID i) st = snd (deleteFollowRequestByID i st)"
| "relStep acct (OpDeleteFollowRequestByURI u) st = snd (deleteFollowRequestByURI u st)"
| "relStep acct (OpPutBlock b) st = snd (putBlock b st)"
| "relStep acct (OpDeleteBlockByID i) st = snd (deleteBlockByID i st)"
| "relStep acct (OpDeleteBlockByURI u) st = snd (deleteBlockByURI u st)"
| "relStep acct (OpIsFollowing a b) st = snd (isFollowing a b st)"
| "relStep acct (OpIsFollowRequested a b) st = snd (isFollowRequested a b st)"
| "relStep acct (OpIsBlocked a b) st = snd (isBlocked a b st)"
| "relStep acct (OpFollows a po) st = snd (getAccountFollows acct a po st)"
| "relStep acct (OpFollowers a po) st = snd (getAccountFollowers acct a po st)"
| "relStep acct (OpLocalFollows a) st = snd (getAccountLocalFollows acct a st)"
| "relStep acct (OpLocalFollowers a) st = snd (getAccountLocalFollowers acct a st)"
| "relStep acct (OpFollowRequests a po) st = snd (getAccountFollowRequests acct a po st)"
| "relStep acct (OpBlocks a po) st = snd (getAccountBlocks acct a po st)"

text \<open>
  What callers see to: an update names the settings it changes of a row that exists, as
  \<open>updateFollow\<close> of \<open>src/internal/processing/account/follow.go\<close> does, and a request is accepted
  when there is no follow between the two accounts yet.
\<close>

definition relGuard :: "rel_op \<Rightarrow> relstate \<Rightarrow> bool" where
  "relGuard op st \<longleftrightarrow>
     (case op of
        OpUpdateFollow _ f cols \<Rightarrow>
          settingsOnly cols \<and> list_ex (\<lambda>r. followVersion cols r f) (tbRows (rsFollows st))
      | OpUpdateFollowRequest _ r cols \<Rightarrow>
          settingsOnly cols \<and> list_ex (\<lambda>x. requestVersion cols x r) (tbRows (rsRequests st))
      | OpAcceptFollowRequest _ a b \<Rightarrow> \<not> followingIn (tbRows (rsFollows st)) a b
      | _ \<Rightarrow> True)"

definition coldTable :: "'v sindex list \<Rightarrow> 'v table \<Rightarrow> bool" where
  "coldTable ixs t \<longleftrightarrow> tableOK ixs (tbRows t) \<and> tbCache t = []"

definition coldState :: "relstate \<Rightarrow> bool" where
  "coldState st \<longleftrightarrow>
     coldTable followIxs (rsFollows st) \<and> coldTable requestIxs (rsRequests st) \<and>
     coldTable blockIxs (rsBlocks st) \<and> coldTable entryIxs (rsEntries st) \<and>
     rsFollowIDs st = (\<lambda>_. None) \<and> rsRequestIDs st = (\<lambda>_. None) \<and> rsBlockIDs st = (\<lambda>_. None) \<and>
     rsVis st = (\<lambda>_. None)"

definition evictTable :: "('v item \<Rightarrow> bool) \<Rightarrow> 'v table \<Rightarrow> 'v table" where
  "evictTable P t = t\<lparr>tbCache := filter P (tbCache t)\<rparr>"

inductive relReach :: "host_config \<Rightarrow> rows \<Rightarrow> vis_db \<Rightarrow> (string \<Rightarrow> lookup_error + account) \<Rightarrow> relstate \<Rightarrow> bool"
  for cfg R base acct where
  start: "wfDB R base \<Longrightarrow> coldState st \<Longrightarrow> relReach cfg R base acct st"
| op: "relReach cfg R base acct st \<Longrightarrow> relGuard op st \<Longrightarrow> relReach cfg R base acct (relStep acct op st)"
| visible: "relReach cfg R base acct st \<Longrightarrow> validReq R req \<Longrightarrow> validStatus R (relDB base st) s \<Longrightarrow>
    statusVisible cfg (relDB base st) req s (rsVis st) = (r, s', c) \<Longrightarrow>
    relReach cfg R base acct (st\<lparr>rsVis := c\<rparr>)"
| faults: "relReach cfg R base acct st \<Longrightarrow> relReach cfg R base acct (st\<lparr>rsFaults := fs\<rparr>)"
| evict: "relReach cfg R base acct st \<Longrightarrow> relReach cfg R base acct
    (st\<lparr>rsFollows := evictTable F (rsFollows st), rsRequests := evictTable G (rsRequests st),
       rsBlocks := evictTable H (rsBlocks st), rsEntries := evictTable E (rsEntries st)\<rparr>)"
| evictIDs: "relReach cfg R base acct st \<Longrightarrow> relReach cfg R base acct
    (st\<lparr>rsFollowIDs := invalidateSlices ks (rsFollowIDs st), rsRequestIDs := invalidateSlices ls (rsRequestIDs st),
       rsBlockIDs := invalidateSlices ms (rsBlockIDs st), rsVis := (rsVis st)(k := None)\<rparr>)"

subsection \<open>The caches agree with the tables\<close>

lemma readOK_inv: "readOK cfg R base st spec m \<Longrightarrow> relInv cfg R base (snd m)"
  by (simp add: readOK_def)

lemma snd_andThen_inv:
  assumes "relInv cfg R base (snd m)" and "\<And>a s. fst m = Inr a \<Longrightarrow> snd m = s \<Longrightarrow> relInv cfg R base (snd (f a s))"
  shows "relInv cfg R base (snd (andThen m f))"
  using assms by (cases m; cases "fst m") auto

lemma relInv_getFollowsByIDs: "relInv cfg R base st \<Longrightarrow> relInv cfg R base (snd (getFollowsByIDs acct ids st))"
proof -
  assume inv: "relInv cfg R base st"
  obtain r fs t where l: "loadRows (idIndex foID) followIxs ids (rsFaults st) (rsFollows st) = (r, fs, t)"
    by (metis prod.exhaust)
  have "tblOK followIxs (rsFollows st)" using inv by (simp add: relInv_def)
  note ld = fol.loadRows_ok [OF this index_mem(1) index_names(7) l]
  show ?thesis
    using relInv_followCache [OF inv ld(1,2)] l by (cases r) (simp_all add: getFollowsByIDs_def)
qed

lemma relInv_getFollowRequestsByIDs:
  "relInv cfg R base st \<Longrightarrow> relInv cfg R base (snd (getFollowRequestsByIDs acct ids st))"
proof -
  assume inv: "relInv cfg R base st"
  obtain r fs t where l: "loadRows (idIndex frID) requestIxs ids (rsFaults st) (rsRequests st) = (r, fs, t)"
    by (metis prod.exhaust)
  have "tblOK requestIxs (rsRequests st)" using inv by (simp add: relInv_def)
  note ld = req.loadRows_ok [OF this index_mem(4) index_names(7) l]
  show ?thesis
    using relInv_requestCache [OF inv ld(1,2)] l by (cases r) (simp_all add: getFollowRequestsByIDs_def)
qed

lemma relInv_getBlocksByIDs: "relInv cfg R base st \<Longrightarrow> relInv cfg R base (snd (getBlocksByIDs acct ids st))"
proof -
  assume inv: "relInv cfg R base st"
  obtain r fs t where l: "loadRows (idIndex blID) blockIxs ids (rsFaults st) (rsBlocks st) = (r, fs, t)"
    by (metis prod.exhaust)
  have "tblOK blockIxs (rsBlocks st)" using inv by (simp add: relInv_def)
  note ld = blk.loadRows_ok [OF this index_mem(7) index_names(7) l]
  show ?thesis
    using relInv_blockCache [OF inv ld(1,2)] l by (cases r) (simp_all add: getBlocksByIDs_def)
qed

lemma relInv_lists:
  assumes "relInv cfg R base st"
  shows "relInv cfg R base (snd (getAccountFollows acct a po st))"
    and "relInv cfg R base (snd (getAccountFollowers acct a po st))"
    and "relInv cfg R base (snd (getAccountLocalFollows acct a st))"
    and "relInv cfg R base (snd (getAccountLocalFollowers acct a st))"
    and "relInv cfg R base (snd (getAccountFollowRequests acct a po st))"
    and "relInv cfg R base (snd (getAccountBlocks acct a po st))"
  using readOK_lists [OF assms, THEN readOK_inv]
  unfolding getAccountFollows_def getAccountFollowers_def getAccountLocalFollows_def
    getAccountLocalFollowers_def getAccountFollowRequests_def getAccountBlocks_def
  by (auto intro!: snd_andThen_inv relInv_getFollowsByIDs relInv_getFollowRequestsByIDs relInv_getBlocksByIDs)

lemma deleteFollow_forms:
  "deleteFollow a b st = deleteFollowVia (ixKey followPair [a, b])
     (loadFollow (ixName followPair) [a, b] (\<lambda>v. ixFields followPair v = [a, b]) st)"
  "deleteFollowByID i st = deleteFollowVia (ixKey (idIndex foID :: follow sindex) [i])
     (loadFollow (ixName (idIndex foID :: follow sindex)) [i] (\<lambda>v. ixFields (idIndex foID) v = [i]) st)"
  "deleteFollowByURI u st = deleteFollowVia (ixKey (uriIndex foURI :: follow sindex) [u])
     (loadFollow (ixName (uriIndex foURI :: follow sindex)) [u] (\<lambda>v. ixFields (uriIndex foURI) v = [u]) st)"
  by (simp_all add: deleteFollow_def deleteFollowByID_def deleteFollowByURI_def getFollow'_def
      getFollowByID'_def getFollowByURI'_def flip: key_ixKey)

lemma deleteRequest_forms:
  "deleteFollowRequest a b st = deleteRequestWhere (ixKey requestPair [a, b]) (\<lambda>r x. frID x = frID r)
     (loadRequest (ixName requestPair) [a, b] (\<lambda>v. ixFields requestPair v = [a, b]) st)"
  "deleteFollowRequestByID i st = deleteRequestWhere (ixKey (idIndex frID :: follow_request sindex) [i]) (\<lambda>_ x. frID x = i)
     (loadRequest (ixName (idIndex frID :: follow_request sindex)) [i] (\<lambda>v. ixFields (idIndex frID) v = [i]) st)"
  "deleteFollowRequestByURI u st = deleteRequestWhere (ixKey (uriIndex frURI :: follow_request sindex) [u]) (\<lambda>_ x. frURI x = u)
     (loadRequest (ixName (uriIndex frURI :: follow_request sindex)) [u] (\<lambda>v. ixFields (uriIndex frURI) v = [u]) st)"
  by (simp_all add: deleteFollowRequest_def deleteFollowRequestByID_def deleteFollowRequestByURI_def
      getFollowRequest'_def getFollowRequestByID'_def getFollowRequestByURI'_def flip: key_ixKey)

lemma deleteBlock_forms:
  "deleteBlockByID i st = deleteBlockWhere (ixKey (idIndex blID :: block sindex) [i]) (\<lambda>x. blID x = i)
     (loadBlock (ixName (idIndex blID :: block sindex)) [i] (\<lambda>v. ixFields (idIndex blID) v = [i]) st)"
  "deleteBlockByURI u st = deleteBlockWhere (ixKey (uriIndex blURI :: block sindex) [u]) (\<lambda>x. blURI x = u)
     (loadBlock (ixName (uriIndex blURI :: block sindex)) [u] (\<lambda>v. ixFields (uriIndex blURI) v = [u]) st)"
  by (simp_all add: deleteBlockByID_def deleteBlockByURI_def getBlockByID'_def getBlockByURI'_def
      flip: key_ixKey)

lemma relInv_deleteFollow:
  assumes "relInv cfg R base st"
  shows "relInv cfg R base (snd (deleteFollow a b st))" and "relInv cfg R base (snd (deleteFollowByID i st))"
    and "relInv cfg R base (snd (deleteFollowByURI u st))"
  unfolding deleteFollow_forms
  by (rule deleteFollowVia_ok(1) [OF assms _ _ prod.collapse [symmetric]]; simp)+

lemma request_pair_id:
  assumes "relInv cfg R base st" and "r \<in> set (tbRows (rsRequests st))" and "ixFields requestPair r = parts"
    and "x \<in> set (tbRows (rsRequests st))"
  shows "frID x = frID r \<longleftrightarrow> ixFields requestPair x = parts"
proof -
  have tab: "tableOK requestIxs (tbRows (rsRequests st))" using assms(1) by (simp add: relInv_def tblOK_def)
  show ?thesis
    using req.tableOK_unique [OF tab index_mem(4) index_names(7) assms(4,2)]
      req.tableOK_unique [OF tab index_mem(6) index_names(9) assms(4,2)] assms(3) by auto
qed

lemma relInv_deleteRequest:
  assumes "relInv cfg R base st"
  shows "relInv cfg R base (snd (deleteFollowRequest a b st))" and "relInv cfg R base (snd (deleteFollowRequestByID i st))"
    and "relInv cfg R base (snd (deleteFollowRequestByURI u st))"
proof -
  note del = deleteRequestWhere_ok(1) [OF assms _ _ _ prod.collapse [symmetric]]
  show "relInv cfg R base (snd (deleteFollowRequest a b st))"
    unfolding deleteRequest_forms
    by (rule del) (simp_all add: request_pair_id [OF assms] del: index_names(6))
  show "relInv cfg R base (snd (deleteFollowRequestByID i st))" and "relInv cfg R base (snd (deleteFollowRequestByURI u st))"
    unfolding deleteRequest_forms by (rule del; simp)+
qed

lemma relInv_deleteBlock:
  assumes "relInv cfg R base st"
  shows "relInv cfg R base (snd (deleteBlockByID i st))" and "relInv cfg R base (snd (deleteBlockByURI u st))"
  unfolding deleteBlock_forms
  by (rule deleteBlockWhere_ok(1) [OF assms _ _ _ prod.collapse [symmetric]]; simp)+

lemma relInv_rejectFollowRequest:
  assumes "relInv cfg R base st"
  shows "relInv cfg R base (snd (rejectFollowRequest a b st))"
proof -
  obtain e st1 where d: "deleteFollowRequest a b st = (e, st1)" by fastforce
  have inv: "relInv cfg R base st1" using relInv_deleteRequest(1) [OF assms, of a b] d by simp
  then show ?thesis
    using d deleteNotifications_ok(1) [OF inv prod.collapse [symmetric]]
    by (cases e) (simp_all add: rejectFollowRequest_def)
qed

lemma relInv_evict:
  assumes "relInv cfg R base st"
  shows "relInv cfg R base
    (st\<lparr>rsFollows := evictTable F (rsFollows st), rsRequests := evictTable G (rsRequests st),
       rsBlocks := evictTable H (rsBlocks st), rsEntries := evictTable E (rsEntries st)\<rparr>)"
  using assms
  by (simp add: relInv_def tblOK_def evictTable_def relDB_def fol.cacheInv_filter req.cacheInv_filter
      blk.cacheInv_filter ent.cacheInv_filter)

lemma relInv_evictIDs:
  assumes "relInv cfg R base st"
  shows "relInv cfg R base
    (st\<lparr>rsFollowIDs := invalidateSlices ks (rsFollowIDs st), rsRequestIDs := invalidateSlices ls (rsRequestIDs st),
       rsBlockIDs := invalidateSlices ms (rsBlockIDs st), rsVis := (rsVis st)(k := None)\<rparr>)"
  proof (rule relInv_quiet [OF assms])
  have "(rsVis st)(k := None) \<subseteq>\<^sub>m rsVis st" by (simp add: map_le_def)
  then show "quiet st (st\<lparr>rsFollowIDs := invalidateSlices ks (rsFollowIDs st),
      rsRequestIDs := invalidateSlices ls (rsRequestIDs st), rsBlockIDs := invalidateSlices ms (rsBlockIDs st),
      rsVis := (rsVis st)(k := None)\<rparr>)" by (simp add: quiet_def)
qed

lemma relInv_relStep:
  assumes "relInv cfg R base st" and "relGuard op st"
  shows "relInv cfg R base (relStep acct op st)"
proof (cases op)
  case (OpUpdateFollow now f cols)
  then obtain r where "r \<in> set (tbRows (rsFollows st))" "followVersion cols r f" "settingsOnly cols"
    using assms(2) by (auto simp: relGuard_def list_ex_iff)
  from updateFollow_ok(1) [OF assms(1) this prod.collapse [symmetric]] OpUpdateFollow show ?thesis by simp
next
  case (OpUpdateFollowRequest now f cols)
  then obtain r where "r \<in> set (tbRows (rsRequests st))" "requestVersion cols r f" "settingsOnly cols"
    using assms(2) by (auto simp: relGuard_def list_ex_iff)
  from updateFollowRequest_ok(1) [OF assms(1) this prod.collapse [symmetric]] OpUpdateFollowRequest show ?thesis by simp
next
  case (OpAcceptFollowRequest now a b)
  then have "\<not> followingIn (tbRows (rsFollows st)) a b" using assms(2) by (simp add: relGuard_def)
  from acceptFollowRequest_ok(1) [OF assms(1) this prod.collapse [symmetric]] OpAcceptFollowRequest show ?thesis by simp
qed (use assms(1) putFollow_ok(1) [OF assms(1) prod.collapse [symmetric]]
      putFollowRequest_ok(1) [OF assms(1) prod.collapse [symmetric]]
      putBlock_ok(1) [OF assms(1) prod.collapse [symmetric]]
      readOK_isFollowing [OF assms(1), THEN readOK_inv] readOK_isFollowRequested [OF assms(1), THEN readOK_inv]
      readOK_isBlocked [OF assms(1), THEN readOK_inv]
    in \<open>simp_all add: relInv_deleteFollow relInv_deleteRequest relInv_deleteBlock relInv_rejectFollowRequest relInv_lists\<close>)

lemma coldState_inv: "wfDB R base \<Longrightarrow> coldState st \<Longrightarrow> relInv cfg R base st"
  by (simp add: relInv_def coldState_def coldTable_def tblOK_def cacheInv_def singleHolders_def holders_def
      followSlicesOK_def requestSlicesOK_def blockSlicesOK_def agrees_def)

lemma relReach_inv: "relReach cfg R base acct st \<Longrightarrow> relInv cfg R base st"
proof (induction rule: relReach.induct)
  case (visible st req s r s' c)
  from visible.IH have wf: "wfDB R (relDB base st)" and ag: "visAgrees cfg R (relDB base st) (rsVis st)"
    using wfDB_relDB by (auto simp: relInv_def)
  have "visAgrees cfg R (relDB base st) c"
    by (rule statusVisible_ok(2) [OF wf visible.hyps(2,3) ag visible.hyps(4)])
  then show ?case using visible.IH by (simp add: relInv_def relDB_def)
qed (simp_all add: coldState_inv relInv_relStep relInv_evict relInv_evictIDs)

subsection \<open>An example\<close>

definition exFollowRow :: follow where
  "exFollowRow = \<lparr>foID = ''f1'', foCreatedAt = 1, foUpdatedAt = 1, foURI = ''u1'', foAccountID = ''b'',
     foTargetAccountID = ''a'', foShowReblogs = True, foNotify = False\<rparr>"

definition exRequestRow :: follow_request where
  "exRequestRow = \<lparr>frID = ''r1'', frUpdatedAt = 1, frURI = ''u2'', frAccountID = ''c'',
     frTargetAccountID = ''a'', frShowReblogs = True, frNotify = False\<rparr>"

definition exBlockRow :: block where
  "exBlockRow = \<lparr>blID = ''b1'', blURI = ''u3'', blAccountID = ''a'', blTargetAccountID = ''b''\<rparr>"

definition exEntryRow :: list_entry where
  "exEntryRow = \<lparr>leID = ''e1'', leListID = ''l1'', leFollowID = ''f1''\<rparr>"

definition exState :: relstate where
  "exState = \<lparr>rsFollows = \<lparr>tbRows = [exFollowRow], tbCache = []\<rparr>,
     rsRequests = \<lparr>tbRows = [exRequestRow], tbCache = []\<rparr>, rsBlocks = \<lparr>tbRows = [], tbCache = []\<rparr>,
     rsEntries = \<lparr>tbRows = [exEntryRow], tbCache = []\<rparr>,
     rsNotifs = [\<lparr>noID = ''n1'', noType = notificationFollowRequest, noTargetAccountID = ''a'', noOriginAccountID = ''c''\<rparr>],
     rsLocalIDs = [''a''], rsFollowIDs = (\<lambda>_. None), rsRequestIDs = (\<lambda>_. None), rsBlockIDs = (\<lambda>_. None),
     rsVis = (\<lambda>_. None), rsDropped = [], rsFaults = []\<rparr>"

definition exLookup :: "string \<Rightarrow> lookup_error + account" where
  "exLookup i = Inr (exAcct i)"

lemma exState_reach: "relReach exHost exRows exDB exLookup exState"
proof (rule relReach.start [OF exDB_wf])
  show "coldState exState"
    by (simp add: coldState_def coldTable_def tableOK_def exState_def index_defs ixKey_def exFollowRow_def
        exRequestRow_def exEntryRow_def)
qed

subsection \<open>Lookups after any history\<close>



lemma distinct_selects:
  assumes "relInv cfg R base st"
  shows "distinct (newSelectFollows a (tbRows (rsFollows st)))" and "distinct (newSelectFollowers a (tbRows (rsFollows st)))"
    and "distinct (newSelectFollowRequests a (tbRows (rsRequests st)))" and "distinct (newSelectBlocks a (tbRows (rsBlocks st)))"
proof -
  have ok: "tblOK followIxs (rsFollows st)" "tblOK requestIxs (rsRequests st)" "tblOK blockIxs (rsBlocks st)"
    using assms by (simp_all add: relInv_def)
  have f: "distinct (map foID (filter P (tbRows (rsFollows st))))" for P
    by (rule fol.distinct_column [OF ok(1) index_mem(1)]) simp_all
  have g: "distinct (map foID (sort_key h (filter P (tbRows (rsFollows st)))))" for P and h :: "follow \<Rightarrow> int"
    using f [of P] by (simp add: distinct_map)
  show "distinct (newSelectFollows a (tbRows (rsFollows st)))" and "distinct (newSelectFollowers a (tbRows (rsFollows st)))"
    using g by (simp_all add: newSelectFollows_def newSelectFollowers_def byCreated_def)
  show "distinct (newSelectFollowRequests a (tbRows (rsRequests st)))"
    using req.distinct_column [OF ok(2) index_mem(4), where get = frID] by (simp add: newSelectFollowRequests_def descIDs_def)
  show "distinct (newSelectBlocks a (tbRows (rsBlocks st)))"
    using blk.distinct_column [OF ok(3) index_mem(7), where get = blID] by (simp add: newSelectBlocks_def descIDs_def)
qed

lemma set_selects:
  "set (newSelectFollows a rows) \<subseteq> foID ` set rows" "set (newSelectFollowers a rows) \<subseteq> foID ` set rows"
  "set (newSelectFollowRequests a rows') \<subseteq> frID ` set rows'" "set (newSelectBlocks a rows'') \<subseteq> blID ` set rows''"
  by (auto simp: newSelectFollows_def newSelectFollowers_def newSelectFollowRequests_def newSelectBlocks_def
      byCreated_def descIDs_def)

lemma readOK_rows:
  assumes "relInv cfg R base st"
  shows "readOK cfg R base st (Inr (rowsFor foID (populateFollow acct) (tbRows (rsFollows st))
      (pagedIDs po (newSelectFollows a (tbRows (rsFollows st)))))) (getAccountFollows acct a po st)"
    and "readOK cfg R base st (Inr (rowsFor foID (populateFollow acct) (tbRows (rsFollows st))
      (pagedIDs po (newSelectFollowers a (tbRows (rsFollows st)))))) (getAccountFollowers acct a po st)"
    and "readOK cfg R base st (Inr (rowsFor frID (populateFollowRequest acct) (tbRows (rsRequests st))
      (pagedIDs po (newSelectFollowRequests a (tbRows (rsRequests st)))))) (getAccountFollowRequests acct a po st)"
    and "readOK cfg R base st (Inr (rowsFor blID (populateBlock acct) (tbRows (rsBlocks st))
      (pagedIDs po (newSelectBlocks a (tbRows (rsBlocks st)))))) (getAccountBlocks acct a po st)"
proof -
  note sub = order_trans [OF pagedIDs_sub(1) set_selects(1)] order_trans [OF pagedIDs_sub(1) set_selects(2)]
    order_trans [OF pagedIDs_sub(1) set_selects(3)] order_trans [OF pagedIDs_sub(1) set_selects(4)]
  note dis = distinct_selects [OF assms, THEN pagedIDs_sub(2)]
  have rows: "tbRows (rsFollows s) = tbRows (rsFollows st)" "tbRows (rsRequests s) = tbRows (rsRequests st)"
      "tbRows (rsBlocks s) = tbRows (rsBlocks st)" if "sameData st s" for s
    using that by (simp_all add: sameData_def)
  show "readOK cfg R base st (Inr (rowsFor foID (populateFollow acct) (tbRows (rsFollows st))
      (pagedIDs po (newSelectFollows a (tbRows (rsFollows st)))))) (getAccountFollows acct a po st)"
    unfolding getAccountFollows_def
  proof (rule readOK_andThen [OF readOK_lists(1) [OF assms]])
    fix s assume i: "relInv cfg R base s" and "sameData st s"
    note rs = rows [OF this(2)]
    from readOK_getFollowsByIDs [OF i, unfolded rs, OF dis(1) sub(1)]
    show "readOK cfg R base s (Inr (rowsFor foID (populateFollow acct) (tbRows (rsFollows st))
      (pagedIDs po (newSelectFollows a (tbRows (rsFollows st))))))
      (getFollowsByIDs acct (pagedIDs po (newSelectFollows a (tbRows (rsFollows st)))) s)" .
  qed
  show "readOK cfg R base st (Inr (rowsFor foID (populateFollow acct) (tbRows (rsFollows st))
      (pagedIDs po (newSelectFollowers a (tbRows (rsFollows st)))))) (getAccountFollowers acct a po st)"
    unfolding getAccountFollowers_def
  proof (rule readOK_andThen [OF readOK_lists(2) [OF assms]])
    fix s assume i: "relInv cfg R base s" and "sameData st s"
    note rs = rows [OF this(2)]
    from readOK_getFollowsByIDs [OF i, unfolded rs, OF dis(2) sub(2)]
    show "readOK cfg R base s (Inr (rowsFor foID (populateFollow acct) (tbRows (rsFollows st))
      (pagedIDs po (newSelectFollowers a (tbRows (rsFollows st))))))
      (getFollowsByIDs acct (pagedIDs po (newSelectFollowers a (tbRows (rsFollows st)))) s)" .
  qed
  show "readOK cfg R base st (Inr (rowsFor frID (populateFollowRequest acct) (tbRows (rsRequests st))
      (pagedIDs po (newSelectFollowRequests a (tbRows (rsRequests st)))))) (getAccountFollowRequests acct a po st)"
    unfolding getAccountFollowRequests_def
  proof (rule readOK_andThen [OF readOK_lists(5) [OF assms]])
    fix s assume i: "relInv cfg R base s" and "sameData st s"
    note rs = rows [OF this(2)]
    from readOK_getFollowRequestsByIDs [OF i, unfolded rs, OF dis(3) sub(3)]
    show "readOK cfg R base s (Inr (rowsFor frID (populateFollowRequest acct) (tbRows (rsRequests st))
      (pagedIDs po (newSelectFollowRequests a (tbRows (rsRequests st))))))
      (getFollowRequestsByIDs acct (pagedIDs po (newSelectFollowRequests a (tbRows (rsRequests st)))) s)" .
  qed
  show "readOK cfg R base st (Inr (rowsFor blID (populateBlock acct) (tbRows (rsBlocks st))
      (pagedIDs po (newSelectBlocks a (tbRows (rsBlocks st)))))) (getAccountBlocks acct a po st)"
    unfolding getAccountBlocks_def
  proof (rule readOK_andThen [OF readOK_lists(7) [OF assms]])
    fix s assume i: "relInv cfg R base s" and "sameData st s"
    note rs = rows [OF this(2)]
    from readOK_getBlocksByIDs [OF i, unfolded rs, OF dis(4) sub(4)]
    show "readOK cfg R base s (Inr (rowsFor blID (populateBlock acct) (tbRows (rsBlocks st))
      (pagedIDs po (newSelectBlocks a (tbRows (rsBlocks st))))))
      (getBlocksByIDs acct (pagedIDs po (newSelectBlocks a (tbRows (rsBlocks st)))) s)" .
  qed
qed

text \<open>
  The lists of follows, followers, follow requests and blocks of an account are current: after
  any history and without faults they are the rows of the requested page of the table's IDs, in
  the order of the page and each row once, less those whose accounts cannot be loaded.
\<close>

theorem relation_lists_current:
  assumes "relReach cfg R base acct st" and "rsFaults st = []"
  shows "fst (getAccountFollows acct a po st) = Inr (rowsFor foID (populateFollow acct) (tbRows (rsFollows st))
      (pagedIDs po (newSelectFollows a (tbRows (rsFollows st))))) \<and>
    fst (getAccountFollowers acct a po st) = Inr (rowsFor foID (populateFollow acct) (tbRows (rsFollows st))
      (pagedIDs po (newSelectFollowers a (tbRows (rsFollows st))))) \<and>
    fst (getAccountFollowRequests acct a po st) = Inr (rowsFor frID (populateFollowRequest acct) (tbRows (rsRequests st))
      (pagedIDs po (newSelectFollowRequests a (tbRows (rsRequests st))))) \<and>
    fst (getAccountBlocks acct a po st) = Inr (rowsFor blID (populateBlock acct) (tbRows (rsBlocks st))
      (pagedIDs po (newSelectBlocks a (tbRows (rsBlocks st)))))"
  using readOK_rows [OF relReach_inv [OF assms(1)], of acct po a] assms(2) by (simp add: readOK_def)

theorem relation_lists_current_witness:
  "fst (getAccountFollowers exLookup ''a'' None exState) = Inr [exFollowRow]"
proof -
  have "rsFaults exState = []" and
    r: "rowsFor foID (populateFollow exLookup) (tbRows (rsFollows exState))
      (pagedIDs None (newSelectFollowers ''a'' (tbRows (rsFollows exState)))) = [exFollowRow]"
    by code_simp+
  from relation_lists_current [OF exState_reach this(1), of "''a''" None] r show ?thesis by simp
qed

subsection \<open>Writes after any history\<close>

lemma statusSpec_blocked:
  assumes "wfDB R D" and "validStatus R D s" and "dbEitherBlocked D (acID r) (stAccountID s) = Inr True"
  shows "statusSpec cfg D (Some r) s \<noteq> Inr True"
proof
  assume "statusSpec cfg D (Some r) s = Inr True"
  then obtain s' where s': "dbPopulate D s = (None, s')" "isAccountVisibleTo cfg D (Some r) (stAccount s') = Inr True"
    by (rule statusSpec_True)
  have "stID s' = stID s" "validStatus R D s'" "acID (stAccount s') = stAccountID s'"
    using assms(1,2) s'(1) by (auto simp: wfDB_def wfPopulate_def wfRows_def)
  then have "acID (stAccount s') = stAccountID s" using assms(2) by (simp add: validStatus_def sameRow_def)
  then show False using s'(2) assms(3) by (simp add: isAccountVisibleTo_True)
qed

text \<open>
  A stored block hides at once: whatever the caches held before, neither of the two accounts
  is shown a status of the other after \<open>PutBlock\<close> returned without an error.
\<close>

theorem putBlock_hides:
  assumes "relReach cfg R base acct st" and "putBlock b st = (None, st')" and "validReq R (Some r)"
    and "validStatus R (relDB base st') s" and "{acID r, stAccountID s} = {blAccountID b, blTargetAccountID b}"
  shows "fst (statusVisible cfg (relDB base st') (Some r) s (rsVis st')) \<noteq> Inr True"
proof -
  note put = putBlock_ok [OF relReach_inv [OF assms(1)] assms(2)]
  have wf: "wfDB R (relDB base st')" and ag: "visAgrees cfg R (relDB base st') (rsVis st')"
    using put(1) wfDB_relDB by (auto simp: relInv_def)
  have "b \<in> set (tbRows (rsBlocks st'))" using put(2) by simp
  then have "dbEitherBlocked (relDB base st') (acID r) (stAccountID s) = Inr True"
    using assms(5) by (auto simp: relDB_def blockedIn_def list_ex_iff doubleton_eq_iff)
  note blocked = statusSpec_blocked [OF wf assms(4) this]
  obtain v s1 c1 where v: "statusVisible cfg (relDB base st') (Some r) s (rsVis st') = (v, s1, c1)" by (metis prod.exhaust)
  from statusVisible_ok(1) [OF wf assms(3,4) ag v] blocked v show ?thesis by simp
qed

definition exSeen :: relstate where
  "exSeen = exState\<lparr>rsVis := snd (snd (statusVisible exHost (relDB exDB exState) (Some (exAcct ''b'')) (exStatus ''s'') (rsVis exState)))\<rparr>"

lemma exValid: "validStatus exRows (relDB exDB st) (exStatus i)"
  by (simp add: validStatus_def exRows_def sameRow_def relDB_def exDB_def exStatus_def)

lemma exSeen_reach: "relReach exHost exRows exDB exLookup exSeen"
  unfolding exSeen_def
  by (rule relReach.visible [OF exState_reach exDB_valid(1) exValid,
        where c = "snd (snd c)" and r = "fst c" and s' = "fst (snd c)" for c]) simp

theorem putBlock_hides_witness:
  "fst (statusVisible exHost (relDB exDB exSeen) (Some (exAcct ''b'')) (exStatus ''s'') (rsVis exSeen)) = Inr True \<and>
   fst (statusVisible exHost (relDB exDB (snd (putBlock exBlockRow exSeen))) (Some (exAcct ''b'')) (exStatus ''s'')
     (rsVis (snd (putBlock exBlockRow exSeen)))) \<noteq> Inr True"
proof -
  have "fst (putBlock exBlockRow exSeen) = None" by code_simp
  then have p: "putBlock exBlockRow exSeen = (None, snd (putBlock exBlockRow exSeen))" by (metis prod.collapse)
  have "{acID (exAcct ''b''), stAccountID (exStatus ''s'')} = {blAccountID exBlockRow, blTargetAccountID exBlockRow}"
    by (simp add: exAcct_def exStatus_def exBlockRow_def insert_commute)
  from putBlock_hides [OF exSeen_reach p exDB_valid(1) exValid this]
  show ?thesis by (simp only: simp_thms) code_simp
qed

lemma acceptFollowRequest_notifs:
  assumes "acceptFollowRequest acct now a b st = (Inr f, st')"
  shows "\<exists>s. deleteNotifications [notificationFollowRequest] b a s = (None, st')"
  using assms
  by (cases "getFollowRequest acct a b st"; cases "fst (getFollowRequest acct a b st)")
    (auto simp: acceptFollowRequest_def Let_def split: prod.splits option.splits)

lemma deleteNotifications_gone:
  assumes "deleteNotifications types tgt origin st = (None, st')" and "n \<in> set (rsNotifs st')"
    and "noType n \<in> set types" and "noTargetAccountID n = tgt"
  shows "noOriginAccountID n \<noteq> origin"
  using assms by (auto simp: deleteNotifications_def split: if_splits prod.splits option.splits)

text \<open>
  An accepted request becomes a follow: one row is added, made of the request's own ID, URI
  and settings; the request is gone, its notification too, and the lookups say so from then on.
\<close>

theorem acceptFollowRequest_effect:
  assumes "relReach cfg R base acct st" and "\<not> followingIn (tbRows (rsFollows st)) a b"
    and "acceptFollowRequest acct now a b st = (Inr f, st')"
  shows "tbRows (rsFollows st') = tbRows (rsFollows st) @ [f] \<and>
    (\<exists>r \<in> set (tbRows (rsRequests st)). frAccountID r = a \<and> frTargetAccountID r = b \<and> f = followOf now a b r) \<and>
    \<not> requestedIn (tbRows (rsRequests st')) a b \<and>
    (\<forall>n \<in> set (rsNotifs st'). noType n = notificationFollowRequest \<longrightarrow> noTargetAccountID n = b \<longrightarrow> noOriginAccountID n \<noteq> a) \<and>
    answers (fst (isFollowing a b st')) (Inr True) \<and> answers (fst (isFollowRequested a b st')) (Inr False)"
proof (intro conjI)
  note ok = acceptFollowRequest_ok [OF relReach_inv [OF assms(1)] assms(2,3)]
  show rows: "tbRows (rsFollows st') = tbRows (rsFollows st) @ [f]" using ok(2) by blast
  show "\<exists>r \<in> set (tbRows (rsRequests st)). frAccountID r = a \<and> frTargetAccountID r = b \<and> f = followOf now a b r"
    using ok(2) by blast
  show req: "\<not> requestedIn (tbRows (rsRequests st')) a b"
    using ok(2) by (auto simp: requestedIn_def list_ex_iff)
  show "\<forall>n \<in> set (rsNotifs st'). noType n = notificationFollowRequest \<longrightarrow> noTargetAccountID n = b \<longrightarrow> noOriginAccountID n \<noteq> a"
    using acceptFollowRequest_notifs [OF assms(3)] deleteNotifications_gone by fastforce
  have "followingIn (tbRows (rsFollows st')) a b" using ok(2) by (auto simp: followingIn_def)
  then show "answers (fst (isFollowing a b st')) (Inr True)" and "answers (fst (isFollowRequested a b st')) (Inr False)"
    using readOK_isFollowing [OF ok(1), of a b] readOK_isFollowRequested [OF ok(1), of a b] req by (simp_all add: readOK_def)
qed

theorem acceptFollowRequest_effect_witness:
  "tbRows (rsFollows (snd (acceptFollowRequest exLookup 7 ''c'' ''a'' exSeen))) =
    [exFollowRow, followOf 7 ''c'' ''a'' exRequestRow]"
proof -
  have "map_sum id foID (fst (acceptFollowRequest exLookup 7 ''c'' ''a'' exSeen)) = Inr ''r1''"
    and n: "\<not> followingIn (tbRows (rsFollows exSeen)) ''c'' ''a''"
    and rows: "tbRows (rsFollows exSeen) = [exFollowRow]" "tbRows (rsRequests exSeen) = [exRequestRow]"
    by code_simp+
  then obtain f st' where acc: "acceptFollowRequest exLookup 7 ''c'' ''a'' exSeen = (Inr f, st')"
    by (cases "acceptFollowRequest exLookup 7 ''c'' ''a'' exSeen"; cases "fst (acceptFollowRequest exLookup 7 ''c'' ''a'' exSeen)") auto
  from acceptFollowRequest_effect [OF exSeen_reach n acc] rows acc show ?thesis by simp
qed

text \<open>
  A deleted follow is gone with its list entries: without faults the deletion succeeds, the
  follow's row is no longer in the table nor answered by lookups, no list has an entry for it,
  and the other follows stay.
\<close>

theorem deleteFollow_effect:
  assumes "relReach cfg R base acct st" and "rsFaults st = []"
  shows "\<exists>st'. deleteFollow a b st = (None, st') \<and>
    tbRows (rsFollows st') = filter (\<lambda>f. \<not> (foAccountID f = a \<and> foTargetAccountID f = b)) (tbRows (rsFollows st)) \<and>
    fst (isFollowing a b st') = Inr False \<and>
    (\<forall>f \<in> set (tbRows (rsFollows st)). foAccountID f = a \<and> foTargetAccountID f = b \<longrightarrow>
      (\<forall>x \<in> set (tbRows (rsEntries st')). leFollowID x \<noteq> foID f))"
proof -
  obtain e st' where d: "deleteFollow a b st = (e, st')" by fastforce
  have i: "followPair \<in> set followIxs" "\<not> ixMultiple followPair" by simp_all
  note ok = deleteFollowVia_ok [OF relReach_inv [OF assms(1)] i d [unfolded deleteFollow_forms]]
  have e: "e = None" "rsFaults st' = []" using ok(6) [OF assms(2)] by simp_all
  then have rows: "tbRows (rsFollows st') = filter (\<lambda>f. \<not> (foAccountID f = a \<and> foTargetAccountID f = b)) (tbRows (rsFollows st))"
    using ok(2) by simp
  then have "\<not> followingIn (tbRows (rsFollows st')) a b" by (auto simp: followingIn_def list_ex_iff)
  then have "fst (isFollowing a b st') = Inr False"
    using readOK_isFollowing [OF ok(1), of a b] e by (simp add: readOK_def)
  moreover have "leFollowID x \<noteq> foID f" if "f \<in> set (tbRows (rsFollows st))"
    "foAccountID f = a" "foTargetAccountID f = b" "x \<in> set (tbRows (rsEntries st'))" for f x
    using ok(3) [OF e(1) that(1) _ that(4)] that(2,3) by simp
  ultimately show ?thesis using d e rows by blast
qed

theorem deleteFollow_effect_witness:
  "tbRows (rsFollows (snd (deleteFollow ''b'' ''a'' exSeen))) = []"
proof -
  have "rsFaults exSeen = []" and rows: "tbRows (rsFollows exSeen) = [exFollowRow]" by code_simp+
  from deleteFollow_effect [OF exSeen_reach this(1), of "''b''" "''a''"] rows
  show ?thesis by (auto simp: exFollowRow_def)
qed



text \<open>
  What \<open>PutFollow\<close> reports: the fault of the database, a missing column, or
  \<open>ErrAlreadyExists\<close> when the ID, the URI or the pair of accounts is taken; with an error the
  rows are as before, without one there is one more, and lookups answer accordingly.
\<close>

theorem putFollow_outcome:
  assumes "relReach cfg R base acct st" and "putFollow f st = (e, st')"
  shows "e = (case fst (nextFault (rsFaults st)) of
        Some err \<Rightarrow> Some err
      | None \<Rightarrow> if hasZero followIxs f then Some (LOther ''NOT NULL'')
                else if list_ex (rowConflict followIxs f) (tbRows (rsFollows st)) then Some LAlreadyExists else None) \<and>
    tbRows (rsFollows st') = tbRows (rsFollows st) @ (if e = None then [f] else []) \<and>
    (\<forall>a b. answers (fst (isFollowing a b st'))
      (Inr (followingIn (tbRows (rsFollows st)) a b \<or> e = None \<and> a = foAccountID f \<and> b = foTargetAccountID f)))"
proof -
  note put = putFollow_ok [OF relReach_inv [OF assms(1)] assms(2)]
  have "e = (case fst (nextFault (rsFaults st)) of
        Some err \<Rightarrow> Some err
      | None \<Rightarrow> if hasZero followIxs f then Some (LOther ''NOT NULL'')
                else if list_ex (rowConflict followIxs f) (tbRows (rsFollows st)) then Some LAlreadyExists else None)"
    using assms(2) by (auto simp: putFollow_def storeRow_def insertRow_def split: prod.splits option.splits if_splits)
  moreover have "answers (fst (isFollowing a b st'))
      (Inr (followingIn (tbRows (rsFollows st)) a b \<or> e = None \<and> a = foAccountID f \<and> b = foTargetAccountID f))" for a b
  proof -
    have "followingIn (tbRows (rsFollows st')) a b =
        (followingIn (tbRows (rsFollows st)) a b \<or> e = None \<and> a = foAccountID f \<and> b = foTargetAccountID f)"
      using put(2) by (auto simp: followingIn_def)
    then show ?thesis using readOK_isFollowing [OF put(1), of a b] by (simp add: readOK_def)
  qed
  ultimately show ?thesis using put(2) by simp
qed

theorem putFollow_outcome_witness:
  "fst (putFollow exFollowRow exSeen) = Some LAlreadyExists \<and>
   tbRows (rsFollows (snd (putFollow exFollowRow exSeen))) = [exFollowRow]"
proof -
  have c: "fst (nextFault (rsFaults exSeen)) = None" "\<not> hasZero followIxs exFollowRow"
    "list_ex (rowConflict followIxs exFollowRow) (tbRows (rsFollows exSeen))"
    and rows: "tbRows (rsFollows exSeen) = [exFollowRow]" by code_simp+
  show ?thesis
    using putFollow_outcome [OF exSeen_reach prod.collapse [symmetric], of exFollowRow] c rows by simp
qed

subsection \<open>Where the caches go stale\<close>

text \<open>
  \<open>DeleteAccountFollows\<close> relies on invalidating the keys of the account, which reaches half of the
  cached follows only: the table is empty afterwards, and a lookup still finds a follow.
\<close>

definition exTwoFollows :: relstate where
  "exTwoFollows = exState\<lparr>rsFollows := \<lparr>tbRows = [exFollowRow,
     exFollowRow\<lparr>foID := ''f2'', foURI := ''u4'', foTargetAccountID := ''c''\<rparr>], tbCache = []\<rparr>\<rparr>"

lemma deleteAccountFollows_stale:
  "let st = snd (deleteAccountFollows exLookup ''b'' exTwoFollows)
   in tbRows (rsFollows st) = [] \<and>
      (fst (isFollowing ''b'' ''a'' st) = Inr True \<or> fst (isFollowing ''b'' ''c'' st) = Inr True)"
  by code_simp

text \<open>
  It loads the outgoing follows of the account only, so that the hooks of the incoming ones do not
  run: the list of follows of another account keeps an ID that no row has any more.
\<close>

lemma deleteAccountFollows_incoming:
  "let st0 = relStep exLookup (OpFollows ''b'' None) exState;
       st = snd (deleteAccountFollows exLookup ''a'' (st0\<lparr>rsFollows := evictTable (\<lambda>_. False) (rsFollows st0)\<rparr>))
   in tbRows (rsFollows st) = [] \<and> fst (getAccountFollowIDs ''b'' None st) = Inr [''f1'']"
  by code_simp

text \<open>
  Accepting a request where a follow exists already (the case of its \<open>ON CONFLICT\<close>) changes the URI
  of the row, but a cached follow keeps the old one and is still found by its ID.
\<close>

lemma acceptFollowRequest_conflict:
  "let st = snd (acceptFollowRequest exLookup 7 ''b'' ''a'' (relStep exLookup (OpIsFollowing ''b'' ''a'')
        (exState\<lparr>rsRequests := \<lparr>tbRows = [exRequestRow\<lparr>frAccountID := ''b''\<rparr>], tbCache = []\<rparr>\<rparr>)))
   in map foURI (tbRows (rsFollows st)) = [''u2''] \<and> map_sum id foURI (fst (getFollowByID' ''f1'' st)) = Inr ''u1''"
  by code_simp

end
