(* ===== verification/Uris.thy ===== *)
theory Uris
  imports Model
begin

text \<open>
  The ActivityPub URIs of this server: how \<open>src/internal/uris/uri.go\<close> builds them, and how it
  recognises and takes apart the paths of URLs with the regular expressions of
  \<open>src/internal/regexes/regexes.go\<close>. The expressions for paths are concatenations of literals,
  an optional first slash, and captured groups of characters, anchored at both ends; they are
  given as lists of such pieces, matched the way Go's \<open>regexp\<close> does: leftmost, the longest
  repetition first, going back to shorter ones.
\<close>

subsection \<open>Path expressions\<close>

datatype piece =
    Maybe char
  | Lit string
  | CapSome "char \<Rightarrow> bool"
  | CapExactly nat "char \<Rightarrow> bool"

fun tryTake :: "(string \<Rightarrow> string list option) \<Rightarrow> string \<Rightarrow> nat \<Rightarrow> string list option" where
  "tryTake rest s 0 = None"
| "tryTake rest s (Suc n) =
     (case rest (drop (Suc n) s) of Some caps \<Rightarrow> Some (take (Suc n) s # caps) | None \<Rightarrow> tryTake rest s n)"

text \<open>The captured groups of a match of the whole string.\<close>

primrec matchPath :: "piece list \<Rightarrow> string \<Rightarrow> string list option" where
  "matchPath [] = (\<lambda>s. if s = [] then Some [] else None)"
| "matchPath (p # ps) = (\<lambda>s.
     case p of
       Maybe c \<Rightarrow>
         (case s of
            [] \<Rightarrow> matchPath ps []
          | x # xs \<Rightarrow> if x = c then (case matchPath ps xs of Some caps \<Rightarrow> Some caps | None \<Rightarrow> matchPath ps s)
                      else matchPath ps s)
     | Lit l \<Rightarrow> if take (length l) s = l then matchPath ps (drop (length l) s) else None
     | CapSome C \<Rightarrow> tryTake (matchPath ps) s (length (takeWhile C s))
     | CapExactly n C \<Rightarrow>
         if n \<le> length s \<and> list_all C (take n s) then map_option ((#) (take n s)) (matchPath ps (drop n s)) else None)"

text \<open>The character classes \<open>[a-z0-9_\.]\<close>, \<open>[0123456789ABCDEFGHJKMNPQRSTVWXYZ]\<close>, \<open>[a-z]\<close>, \<open>[a-z0-9]\<close>.\<close>

definition lowerChar :: "char \<Rightarrow> bool" where
  "lowerChar c \<longleftrightarrow> CHR ''a'' \<le> c \<and> c \<le> CHR ''z''"

definition digitClass :: "char \<Rightarrow> bool" where
  "digitClass c \<longleftrightarrow> CHR ''0'' \<le> c \<and> c \<le> CHR ''9''"

definition userChar :: "char \<Rightarrow> bool" where
  "userChar c \<longleftrightarrow> lowerChar c \<or> digitClass c \<or> c = CHR ''_'' \<or> c = CHR ''.''"

definition ulidChar :: "char \<Rightarrow> bool" where
  "ulidChar c \<longleftrightarrow> c \<in> set ''0123456789ABCDEFGHJKMNPQRSTVWXYZ''"

definition usernameRelaxed :: "string \<Rightarrow> bool" where
  "usernameRelaxed u \<longleftrightarrow> u \<noteq> [] \<and> list_all userChar u"

definition isULID :: "string \<Rightarrow> bool" where
  "isULID s \<longleftrightarrow> length s = 26 \<and> list_all ulidChar s"

definition userPathPrefix :: "piece list" where
  "userPathPrefix = [Maybe CHR ''/'', Lit ''users/'', CapSome userChar]"

definition under :: "string \<Rightarrow> piece list" where
  "under part = userPathPrefix @ [Lit (''/'' @ part)]"

definition underULID :: "string \<Rightarrow> piece list" where
  "underULID part = userPathPrefix @ [Lit (''/'' @ part @ ''/''), CapExactly 26 ulidChar]"

definition userPath where "userPath = userPathPrefix"
definition userWebPath where "userWebPath = [Maybe CHR ''/'', Lit ''@'', CapSome userChar]"
definition publicKeyPath where "publicKeyPath = under ''main-key''"
definition inboxPath where "inboxPath = under ''inbox''"
definition outboxPath where "outboxPath = under ''outbox''"
definition followersPath where "followersPath = under ''followers''"
definition followingPath where "followingPath = under ''following''"
definition likedPath where "likedPath = under ''liked''"
definition followPath where "followPath = underULID ''follow''"
definition likePath where "likePath = underULID ''liked''"
definition statusesPath where "statusesPath = underULID ''statuses''"
definition blockPath where "blockPath = underULID ''blocks''"
definition reportPath where "reportPath = [Maybe CHR ''/'', Lit ''reports/'', CapExactly 26 ulidChar]"

definition filePath where
  "filePath = [Maybe CHR ''/'', CapExactly 26 ulidChar, Lit ''/'', CapSome lowerChar, Lit ''/'', CapSome lowerChar, Lit ''/'',
     CapExactly 26 ulidChar, Lit ''.'', CapSome (\<lambda>c. lowerChar c \<or> digitClass c)]"

definition matchesPath :: "piece list \<Rightarrow> string \<Rightarrow> bool" where
  "matchesPath ps path \<longleftrightarrow> \<not> Option.is_none (matchPath ps path)"

subsection \<open>Recognising paths\<close>

definition isUserPath where "isUserPath path = matchesPath userPath path"
definition isUserWebPath where "isUserWebPath path = matchesPath userWebPath path"
definition isInboxPath where "isInboxPath path = matchesPath inboxPath path"
definition isOutboxPath where "isOutboxPath path = matchesPath outboxPath path"
definition isFollowersPath where "isFollowersPath path = matchesPath followersPath path"
definition isFollowingPath where "isFollowingPath path = matchesPath followingPath path"
definition isFollowPath where "isFollowPath path = matchesPath followPath path"
definition isLikedPath where "isLikedPath path = matchesPath likedPath path"
definition isLikePath where "isLikePath path = matchesPath likePath path"
definition isStatusesPath where "isStatusesPath path = matchesPath statusesPath path"
definition isPublicKeyPath where "isPublicKeyPath path = matchesPath publicKeyPath path"
definition isBlockPath where "isBlockPath path = matchesPath blockPath path"
definition isReportPath where "isReportPath path = matchesPath reportPath path"

text \<open>The parse functions: \<open>None\<close> is the error on an unexpected number of groups.\<close>

definition oneGroup :: "string list option \<Rightarrow> string option" where
  "oneGroup m = (case m of Some [a] \<Rightarrow> Some a | _ \<Rightarrow> None)"

definition twoGroups :: "string list option \<Rightarrow> (string \<times> string) option" where
  "twoGroups m = (case m of Some [a, b] \<Rightarrow> Some (a, b) | _ \<Rightarrow> None)"

definition parseUserPath where "parseUserPath path = oneGroup (matchPath userPath path)"
definition parseUserWebPath where "parseUserWebPath path = oneGroup (matchPath userWebPath path)"
definition parseInboxPath where "parseInboxPath path = oneGroup (matchPath inboxPath path)"
definition parseOutboxPath where "parseOutboxPath path = oneGroup (matchPath outboxPath path)"
definition parseFollowersPath where "parseFollowersPath path = oneGroup (matchPath followersPath path)"
definition parseFollowingPath where "parseFollowingPath path = oneGroup (matchPath followingPath path)"
definition parseStatusesPath where "parseStatusesPath path = twoGroups (matchPath statusesPath path)"
definition parseLikedPath where "parseLikedPath path = twoGroups (matchPath likePath path)"
definition parseBlockPath where "parseBlockPath path = twoGroups (matchPath blockPath path)"
definition parseReportPath where "parseReportPath path = oneGroup (matchPath reportPath path)"

subsection \<open>Building URIs\<close>

definition hostURL :: "string \<Rightarrow> host_config \<Rightarrow> string" where
  "hostURL proto cfg = proto @ ''://'' @ cfgHost cfg"

definition userItemURI :: "string \<Rightarrow> host_config \<Rightarrow> string \<Rightarrow> string \<Rightarrow> string \<Rightarrow> string" where
  "userItemURI proto cfg username path item =
     proto @ ''://'' @ cfgHost cfg @ ''/users/'' @ username @ ''/'' @ path @ ''/'' @ item"

definition generateURIForFollow where
  "generateURIForFollow proto cfg username followID = userItemURI proto cfg username ''follow'' followID"

definition generateURIForLike where
  "generateURIForLike proto cfg username favedID = userItemURI proto cfg username ''liked'' favedID"

definition generateURIForBlock where
  "generateURIForBlock proto cfg username blockID = userItemURI proto cfg username ''blocks'' blockID"

definition generateURIForMove where
  "generateURIForMove proto cfg username moveID = userItemURI proto cfg username ''moves'' moveID"

definition generateURIForUpdate where
  "generateURIForUpdate proto cfg username updateID =
     hostURL proto cfg @ ''/users/'' @ username @ ''#updates/'' @ updateID"

definition generateURIForReport where
  "generateURIForReport proto cfg reportID = hostURL proto cfg @ ''/reports/'' @ reportID"

definition generateURIForEmailConfirm where
  "generateURIForEmailConfirm proto cfg token = hostURL proto cfg @ ''/confirm_email?token='' @ token"

record user_uris =
  uuHostURL :: string
  uuUserURL :: string
  uuStatusesURL :: string
  uuUserURI :: string
  uuStatusesURI :: string
  uuInboxURI :: string
  uuOutboxURI :: string
  uuFollowersURI :: string
  uuFollowingURI :: string
  uuLikedURI :: string
  uuFeaturedCollectionURI :: string
  uuPublicKeyURI :: string

definition generateURIsForAccount :: "string \<Rightarrow> host_config \<Rightarrow> string \<Rightarrow> user_uris" where
  "generateURIsForAccount proto cfg username =
     (let host = hostURL proto cfg; userURL = host @ ''/@'' @ username; userURI = host @ ''/users/'' @ username
      in \<lparr>uuHostURL = host, uuUserURL = userURL, uuStatusesURL = userURL @ ''/statuses'',
          uuUserURI = userURI, uuStatusesURI = userURI @ ''/statuses'', uuInboxURI = userURI @ ''/inbox'',
          uuOutboxURI = userURI @ ''/outbox'', uuFollowersURI = userURI @ ''/followers'',
          uuFollowingURI = userURI @ ''/following'', uuLikedURI = userURI @ ''/liked'',
          uuFeaturedCollectionURI = userURI @ ''/collections/featured'', uuPublicKeyURI = userURI @ ''/main-key''\<rparr>)"

definition storagePathForAttachment :: "string \<Rightarrow> string \<Rightarrow> string \<Rightarrow> string \<Rightarrow> string \<Rightarrow> string" where
  "storagePathForAttachment accountID mediaType mediaSize mediaID extension =
     accountID @ ''/'' @ mediaType @ ''/'' @ mediaSize @ ''/'' @ mediaID @ ''.'' @ extension"

definition uriForAttachment where
  "uriForAttachment proto cfg accountID mediaType mediaSize mediaID extension =
     hostURL proto cfg @ ''/fileserver/'' @ storagePathForAttachment accountID mediaType mediaSize mediaID extension"

definition uriForEmoji where
  "uriForEmoji proto cfg emojiID = hostURL proto cfg @ ''/emoji/'' @ emojiID"

text \<open>\<open>strings.ToLower\<close> of a name outside ASCII is the argument \<open>lower\<close>.\<close>

definition uriForTag where
  "uriForTag proto cfg lower name = hostURL proto cfg @ ''/tags/'' @ lower name"

text \<open>
  \<open>url.Parse\<close> of the standard library, as far as the path of an absolute URL with a host and
  without escapes goes: the fragment is cut off first, then the query; scheme and host end at
  the first colon and at the first slash after the two that follow it.
\<close>

definition urlPath :: "string \<Rightarrow> string" where
  "urlPath s =
     dropWhile (\<lambda>c. c \<noteq> CHR ''/'')
       (drop 3 (dropWhile (\<lambda>c. c \<noteq> CHR '':'')
          (takeWhile (\<lambda>c. c \<noteq> CHR ''?'') (takeWhile (\<lambda>c. c \<noteq> CHR ''#'') s))))"

subsection \<open>What the expressions match\<close>

lemma tryTake_None: "(\<And>k. 0 < k \<Longrightarrow> k \<le> n \<Longrightarrow> rest (drop k s) = None) \<Longrightarrow> tryTake rest s n = None"
  by (induction n) auto

lemma tryTake_Some: "tryTake rest s n = Some caps \<Longrightarrow>
    \<exists>k cs. 0 < k \<and> k \<le> n \<and> rest (drop k s) = Some cs \<and> caps = take k s # cs"
  by (induction n) (fastforce split: option.splits)+

text \<open>A repetition of a class that cannot go on where it ends.\<close>

fun stops :: "(char \<Rightarrow> bool) \<Rightarrow> piece list \<Rightarrow> bool" where
  "stops C [] = True"
| "stops C (Lit (c # l) # ps) = (\<not> C c)"
| "stops C ps = False"

lemma stops_None: "stops C ps \<Longrightarrow> C x \<Longrightarrow> matchPath ps (x # xs) = None"
  by (cases "(C, ps)" rule: stops.cases) auto

lemma matchPath_CapSome:
  assumes "u \<noteq> []" and "list_all C u" and "s = [] \<or> \<not> C (hd s)" and "stops C ps"
  shows "matchPath (CapSome C # ps) (u @ s) = map_option ((#) u) (matchPath ps s)"
proof -
  have w: "takeWhile C (u @ s) = u"
    using assms(2,3) by (cases s) (auto simp: takeWhile_append list_all_iff)
  have rest: "matchPath ps (drop k (u @ s)) = None" if k: "k < length u" for k
  proof -
    obtain x xs where x: "drop k u = x # xs" using k by (cases "drop k u") auto
    then have "C x" using assms(2) in_set_dropD[of x k u] by (simp add: list_all_iff)
    then show ?thesis using stops_None[OF assms(4)] x k by simp
  qed
  obtain n where n: "length u = Suc n" using assms(1) by (cases u) auto
  have "tryTake (matchPath ps) (u @ s) n = None"
    by (rule tryTake_None) (use rest n in simp)
  then show ?thesis using w n by (auto split: option.split)
qed

lemma matchPath_Lit: "matchPath (Lit l # ps) (l @ s) = matchPath ps s"
  by simp

lemma matchPath_CapExactly:
  "length u = n \<Longrightarrow> list_all C u \<Longrightarrow> matchPath (CapExactly n C # ps) (u @ s) = map_option ((#) u) (matchPath ps s)"
  by auto

lemma matchPath_slash:
  "(\<And>xs. matchPath ps (CHR ''/'' # xs) = None) \<Longrightarrow> matchPath (Maybe CHR ''/'' # ps) (CHR ''/'' # s) = matchPath ps s"
  by (auto split: option.split)

lemma matchPath_one_Lit: "matchPath [Lit l] s = (if s = l then Some [] else None)"
  by (auto simp: append_eq_conv_conj[symmetric])

lemma userChar_slash: "\<not> userChar CHR ''/''" "\<not> userChar CHR ''#''"
  by (simp_all add: userChar_def lowerChar_def digitClass_def less_eq_char_def)

lemma matchPath_user:
  assumes "usernameRelaxed u" and "s = [] \<or> hd s = CHR ''/''" and "stops userChar ps"
  shows "matchPath (userPathPrefix @ ps) (''/users/'' @ u @ s) = map_option ((#) u) (matchPath ps s)"
proof -
  have "matchPath (userPathPrefix @ ps) (''/users/'' @ u @ s) =
      matchPath (Lit ''users/'' # CapSome userChar # ps) (''users/'' @ u @ s)"
    using matchPath_slash[of "Lit ''users/'' # CapSome userChar # ps" "''users/'' @ u @ s"] by (simp add: userPathPrefix_def)
  then have "matchPath (userPathPrefix @ ps) (''/users/'' @ u @ s) = matchPath (CapSome userChar # ps) (u @ s)"
    by (simp only: matchPath_Lit)
  then show ?thesis
    using matchPath_CapSome[of u userChar s ps] assms userChar_slash by (auto simp: usernameRelaxed_def)
qed

text \<open>The kinds of a path of this server, by all functions that recognise one.\<close>

definition pathKinds :: "string \<Rightarrow> string list" where
  "pathKinds path = map fst (filter snd
     [(''user'', isUserPath path), (''web'', isUserWebPath path), (''inbox'', isInboxPath path), (''outbox'', isOutboxPath path),
      (''followers'', isFollowersPath path), (''following'', isFollowingPath path), (''follow'', isFollowPath path),
      (''liked'', isLikedPath path), (''like'', isLikePath path), (''status'', isStatusesPath path),
      (''key'', isPublicKeyPath path), (''block'', isBlockPath path), (''report'', isReportPath path)])"

definition ulidPart :: "string \<Rightarrow> string \<Rightarrow> string list option" where
  "ulidPart part s = matchPath [Lit (''/'' @ part @ ''/''), CapExactly 26 ulidChar] s"

lemma ulidPart_split: "isULID i \<Longrightarrow> ulidPart part (''/'' @ part @ ''/'' @ i) = Some [i]"
  by (simp add: ulidPart_def isULID_def)

lemma matchPath_userPath:
  assumes "usernameRelaxed u" and "s = [] \<or> hd s = CHR ''/''"
  shows "matchPath userPath (''/users/'' @ u @ s) = (if s = [] then Some [u] else None)"
    and "matchPath (under part) (''/users/'' @ u @ s) = (if s = ''/'' @ part then Some [u] else None)"
    and "matchPath (underULID part) (''/users/'' @ u @ s) = map_option ((#) u) (ulidPart part s)"
    and "matchPath userWebPath (''/users/'' @ u @ s) = None"
    and "matchPath reportPath (''/users/'' @ u @ s) = None"
proof -
  have st: "stops userChar []" "stops userChar [Lit (''/'' @ part)]"
      "stops userChar [Lit (''/'' @ part @ ''/''), CapExactly 26 ulidChar]"
    using userChar_slash by simp_all
  show "matchPath userPath (''/users/'' @ u @ s) = (if s = [] then Some [u] else None)"
    using matchPath_user[OF assms st(1)] by (simp add: userPath_def)
  show "matchPath (under part) (''/users/'' @ u @ s) = (if s = ''/'' @ part then Some [u] else None)"
    unfolding under_def matchPath_user[OF assms st(2)] matchPath_one_Lit by simp
  show "matchPath (underULID part) (''/users/'' @ u @ s) = map_option ((#) u) (ulidPart part s)"
    unfolding underULID_def matchPath_user[OF assms st(3)] ulidPart_def ..
  show "matchPath userWebPath (''/users/'' @ u @ s) = None" "matchPath reportPath (''/users/'' @ u @ s) = None"
    by (simp_all add: userWebPath_def reportPath_def)
qed

lemmas path_defs = isUserPath_def isUserWebPath_def isInboxPath_def isOutboxPath_def isFollowersPath_def isFollowingPath_def
  isFollowPath_def isLikedPath_def isLikePath_def isStatusesPath_def isPublicKeyPath_def isBlockPath_def isReportPath_def
  inboxPath_def outboxPath_def followersPath_def followingPath_def likedPath_def followPath_def likePath_def statusesPath_def
  publicKeyPath_def blockPath_def matchesPath_def

lemmas parse_defs = parseUserPath_def parseInboxPath_def parseOutboxPath_def parseFollowersPath_def parseFollowingPath_def
  parseStatusesPath_def parseLikedPath_def parseBlockPath_def parseReportPath_def parseUserWebPath_def
  inboxPath_def outboxPath_def followersPath_def followingPath_def likePath_def statusesPath_def blockPath_def
  oneGroup_def twoGroups_def

lemma is_none_simps: "Option.is_none (if b then Some x else None) = (\<not> b)"
  "Option.is_none (map_option f m) = Option.is_none m" "Option.is_none None = True"
  by (auto simp: Option.is_none_def)

lemma pathKinds_user:
  assumes "usernameRelaxed u" and "s = [] \<or> hd s = CHR ''/''"
  shows "pathKinds (''/users/'' @ u @ s) = map fst (filter snd
     [(''user'', s = []), (''web'', False), (''inbox'', s = ''/'' @ ''inbox''), (''outbox'', s = ''/'' @ ''outbox''),
      (''followers'', s = ''/'' @ ''followers''), (''following'', s = ''/'' @ ''following''),
      (''follow'', \<not> Option.is_none (ulidPart ''follow'' s)), (''liked'', s = ''/'' @ ''liked''),
      (''like'', \<not> Option.is_none (ulidPart ''liked'' s)), (''status'', \<not> Option.is_none (ulidPart ''statuses'' s)),
      (''key'', s = ''/'' @ ''main-key''), (''block'', \<not> Option.is_none (ulidPart ''blocks'' s)), (''report'', False)])"
  unfolding pathKinds_def path_defs matchPath_userPath[OF assms] is_none_simps not_not not_True_eq_False ..

lemma urlPath_build:
  assumes "CHR '':'' \<notin> set proto" and "set proto \<inter> {CHR ''?'', CHR ''#''} = {}" and "set host \<inter> {CHR ''?'', CHR ''#'', CHR ''/''} = {}"
    and "set s \<inter> {CHR ''?'', CHR ''#''} = {}"
  shows "urlPath (proto @ ''://'' @ host @ ''/'' @ s) = ''/'' @ s"
proof -
  let ?w = "proto @ ''://'' @ host @ ''/'' @ s"
  have w: "takeWhile (\<lambda>c. c \<noteq> x) ?w = ?w" if "x = CHR ''?'' \<or> x = CHR ''#''" for x
    using assms that by (auto simp: takeWhile_eq_all_conv)
  have d: "dropWhile (\<lambda>c. c \<noteq> CHR '':'') ?w = ''://'' @ host @ ''/'' @ s"
    using assms(1) by (subst dropWhile_append2) auto
  have h: "dropWhile (\<lambda>c. c \<noteq> CHR ''/'') (host @ ''/'' @ s) = ''/'' @ s"
    using assms(3) by (subst dropWhile_append2) auto
  have three: "drop 3 (''://'' @ host @ ''/'' @ s) = host @ ''/'' @ s" by simp
  show ?thesis
    unfolding urlPath_def w[OF disjI2[OF refl]] w[OF disjI1[OF refl]] d three h ..
qed

lemma userChar_plain: "userChar c \<Longrightarrow> c \<noteq> CHR ''?'' \<and> c \<noteq> CHR ''#'' \<and> c \<noteq> CHR ''/''"
  by (auto simp: userChar_def lowerChar_def digitClass_def less_eq_char_def)

lemma ulidChar_plain: "ulidChar c \<Longrightarrow> c \<noteq> CHR ''?'' \<and> c \<noteq> CHR ''#'' \<and> c \<noteq> CHR ''/''"
  by (auto simp: ulidChar_def)

text \<open>A protocol and a host without the characters that end them in a URL.\<close>

definition plainHost :: "string \<Rightarrow> host_config \<Rightarrow> bool" where
  "plainHost proto cfg \<longleftrightarrow> list_all (\<lambda>c. c \<notin> set '':?#'') proto \<and> list_all (\<lambda>c. c \<notin> set ''?#/'') (cfgHost cfg)"

lemma urlPath_user:
  assumes "plainHost proto cfg" and "usernameRelaxed u" and "set s \<inter> {CHR ''?'', CHR ''#''} = {}"
  shows "urlPath (proto @ ''://'' @ cfgHost cfg @ ''/users/'' @ u @ s) = ''/users/'' @ u @ s"
proof -
  have "set (''users/'' @ u @ s) \<inter> {CHR ''?'', CHR ''#''} = {}"
    using assms(2,3) by (auto simp: usernameRelaxed_def list_all_iff dest: userChar_plain)
  then show ?thesis
    using assms(1) urlPath_build[of proto "cfgHost cfg" "''users/'' @ u @ s"]
    by (simp add: plainHost_def list_all_iff) blast
qed

text \<open>The path of a URI that this server makes for one of its users, by the part after the name.\<close>

lemma userItemURI_path:
  assumes "plainHost proto cfg" and "usernameRelaxed u" and "isULID i" and "list_all (\<lambda>c. c \<noteq> CHR ''?'' \<and> c \<noteq> CHR ''#'') part"
  shows "urlPath (userItemURI proto cfg u part i) = ''/users/'' @ u @ ''/'' @ part @ ''/'' @ i"
proof -
  have "set (''/'' @ part @ ''/'' @ i) \<inter> {CHR ''?'', CHR ''#''} = {}"
    using assms(3,4) by (auto simp: isULID_def list_all_iff dest: ulidChar_plain)
  then show ?thesis
    using urlPath_user[OF assms(1,2), of "''/'' @ part @ ''/'' @ i"] by (simp add: userItemURI_def)
qed

lemma accountURI_path:
  assumes "plainHost proto cfg" and "usernameRelaxed u" and "set s \<inter> {CHR ''?'', CHR ''#''} = {}"
  shows "urlPath (hostURL proto cfg @ ''/users/'' @ u @ s) = ''/users/'' @ u @ s"
  using urlPath_user[OF assms] by (simp add: hostURL_def)

lemma item_kinds:
  assumes "usernameRelaxed u" and "isULID i" and "part \<in> {''follow'', ''liked'', ''statuses'', ''blocks''}"
  shows "pathKinds (''/users/'' @ u @ ''/'' @ part @ ''/'' @ i) =
      [if part = ''follow'' then ''follow'' else if part = ''liked'' then ''like'' else if part = ''statuses'' then ''status'' else ''block'']"
    and "matchPath (underULID part) (''/users/'' @ u @ ''/'' @ part @ ''/'' @ i) = Some [u, i]"
proof -
  have hd: "''/'' @ part @ ''/'' @ i = [] \<or> hd (''/'' @ part @ ''/'' @ i) = CHR ''/''" by simp
  show "matchPath (underULID part) (''/users/'' @ u @ ''/'' @ part @ ''/'' @ i) = Some [u, i]"
    using matchPath_userPath(3)[OF assms(1) hd, of part] ulidPart_split[OF assms(2), of part] by simp
  have i: "Option.is_none (ulidPart part (''/'' @ part @ ''/'' @ i)) = False"
    unfolding ulidPart_split[OF assms(2)] by simp
  have "i \<noteq> []" using assms(2) by (auto simp: isULID_def)
  then show "pathKinds (''/users/'' @ u @ ''/'' @ part @ ''/'' @ i) =
      [if part = ''follow'' then ''follow'' else if part = ''liked'' then ''like'' else if part = ''statuses'' then ''status'' else ''block'']"
    using assms(3) i unfolding pathKinds_user[OF assms(1) hd]
    by (elim insertE emptyE) (simp_all add: ulidPart_def)
qed



text \<open>The storage path of an attachment is one that the cleaner of the storage takes apart again.\<close>

lemma matchPath_char: "matchPath (Lit [c] # ps) (c # s) = matchPath ps s"
  by simp

lemma storagePath_roundtrip:
  assumes "isULID acc" and "isULID media" and "mtype \<noteq> []" and "list_all lowerChar mtype" and "msize \<noteq> []" and "list_all lowerChar msize"
    and "ext \<noteq> []" and "list_all (\<lambda>c. lowerChar c \<or> digitClass c) ext"
  shows "matchPath filePath (storagePathForAttachment acc mtype msize media ext) = Some [acc, mtype, msize, media, ext]"
proof -
  have stop: "\<not> lowerChar CHR ''/''" by (simp add: lowerChar_def less_eq_char_def)
  obtain c cs where acc: "acc = c # cs" "c \<noteq> CHR ''/''"
    using assms(1) ulidChar_plain by (cases acc) (auto simp: isULID_def)
  have "matchPath filePath (acc @ t) = matchPath (tl filePath) (acc @ t)" for t
    using acc by (simp add: filePath_def)
  then show ?thesis
    using assms stop matchPath_CapSome[of ext "\<lambda>c. lowerChar c \<or> digitClass c" "[]" "[]"]
    by (simp add: storagePathForAttachment_def filePath_def isULID_def matchPath_CapExactly matchPath_CapSome matchPath_char
      del: matchPath.simps(2))
qed

end
