(* ===== verification/AccountActions.thy ===== *)
theory AccountActions
  imports RelationshipHistory Uris
begin

text \<open>
  The client API's follows and blocks: \<open>follow.go\<close>, \<open>follow_request.go\<close>, \<open>block.go\<close> and the
  relationship lookup of \<open>relationships.go\<close> in \<open>src/internal/processing/account\<close>, with
  \<open>GetVisibleTargetAccount\<close> of \<open>src/internal/processing/common/account.go\<close> and the URIs of
  \<open>Uris\<close>. A handler reads and changes the relationship database, the
  visibility cache in it, and the queue of messages for the client API worker.

  The account lookup, the notes and mutes, the rest of the database that the visibility filter
  reads, the clock and the generators of IDs (of which \<open>NewRandomULID\<close> may fail) are the
  environment of a call. The asynchronous refresh
  of a remote account that \<open>GetTargetAccountBy\<close> starts belongs to another component.
\<close>

subsection \<open>State, environment, errors\<close>

text \<open>The objects a message carries. \<open>MUndo\<close> is a \<open>gtsmodel.Follow\<close> of which only the two
  accounts and the URI are set.\<close>

datatype msg_model =
    MFollow follow
  | MUndo string string string
  | MRequest follow_request
  | MBlock block

record client_msg =
  cmObject :: string
  cmActivity :: string
  cmModel :: msg_model
  cmOrigin :: account
  cmTarget :: account

record proc_state =
  psRel :: relstate
  psQueue :: "client_msg list"

record action_env =
  aeHost :: host_config
  aeProtocol :: string
  aeDB :: vis_db
  aeAccount :: "string \<Rightarrow> lookup_error + account"
  aeNote :: "string \<Rightarrow> string \<Rightarrow> lookup_error + string"
  aeMute :: "string \<Rightarrow> string \<Rightarrow> lookup_error + mute_info"
  aeNow :: time
  aeNewID :: "string option"
  aeULID :: string

text \<open>The codes of \<open>src/internal/gtserror/withcode.go\<close> that the handlers return.\<close>

datatype http_error = ErrUnauthorized | ErrForbidden | ErrNotFound | ErrNotAcceptable | ErrInternal

definition withCode :: "http_error \<Rightarrow> ('e + 'a) \<times> 's \<Rightarrow> (http_error + 'a) \<times> 's" where
  "withCode code r = (case r of (Inl _, s) \<Rightarrow> (Inl code, s) | (Inr a, s) \<Rightarrow> (Inr a, s))"

definition onRel :: "(relstate \<Rightarrow> 'r \<times> relstate) \<Rightarrow> proc_state \<Rightarrow> 'r \<times> proc_state" where
  "onRel f ps = (let (r, st) = f (psRel ps) in (r, ps\<lparr>psRel := st\<rparr>))"

definition errOption :: "'e option \<times> 's \<Rightarrow> ('e + unit) \<times> 's" where
  "errOption r = (case r of (Some e, s) \<Rightarrow> (Inl e, s) | (None, s) \<Rightarrow> (Inr (), s))"

definition pushMsgs :: "client_msg list \<Rightarrow> proc_state \<Rightarrow> proc_state" where
  "pushMsgs ms ps = ps\<lparr>psQueue := psQueue ps @ ms\<rparr>"

subsection \<open>Lookups\<close>

text \<open>
  The database as the visibility filter sees it, with the relationship lookups of the present
  state. Each is answered from that state: what they leave in the caches changes no answer.
\<close>

definition lookupDB :: "vis_db \<Rightarrow> relstate \<Rightarrow> vis_db" where
  "lookupDB base st = base\<lparr>
     dbEitherBlocked := (\<lambda>a b. fst (isEitherBlocked a b st)),
     dbFollowing := (\<lambda>a b. fst (isFollowing a b st)),
     dbMutual := (\<lambda>a b. fst (isMutualFollowing a b st)),
     dbFollow := (\<lambda>a b. fst (getFollow' a b st))\<rparr>"

definition relationshipGet :: "action_env \<Rightarrow> account \<Rightarrow> string \<Rightarrow> proc_state \<Rightarrow> (http_error + relationship) \<times> proc_state" where
  "relationshipGet env req tgt ps =
     withCode ErrInternal (onRel (getRelationship (aeNote env) (aeMute env) (aeNow env) (acID req) tgt) ps)"

definition getTargetAccountByID :: "action_env \<Rightarrow> account option \<Rightarrow> string \<Rightarrow> proc_state \<Rightarrow>
    (http_error + account \<times> bool) \<times> proc_state" where
  "getTargetAccountByID env req i ps =
     (case aeAccount env i of
        Inl e \<Rightarrow> (Inl (if e \<noteq> LNoEntries then ErrInternal else ErrNotFound), ps)
      | Inr target \<Rightarrow>
          (let st = psRel ps;
               (v, c) = accountVisible (aeHost env) (lookupDB (aeDB env) st) req target (rsVis st);
               ps' = ps\<lparr>psRel := st\<lparr>rsVis := c\<rparr>\<rparr>
           in case v of Inl _ \<Rightarrow> (Inl ErrInternal, ps') | Inr visible \<Rightarrow> (Inr (target, visible), ps')))"

definition getVisibleTargetAccount :: "action_env \<Rightarrow> account option \<Rightarrow> string \<Rightarrow> proc_state \<Rightarrow>
    (http_error + account) \<times> proc_state" where
  "getVisibleTargetAccount env req i ps =
     andThen (getTargetAccountByID env req i ps) (\<lambda>(target, visible) ps'.
       if \<not> visible then (Inl ErrNotFound, ps') else (Inr target, ps'))"

definition getFollowTarget :: "action_env \<Rightarrow> account option \<Rightarrow> string \<Rightarrow> proc_state \<Rightarrow>
    (http_error + account) \<times> proc_state" where
  "getFollowTarget env req i ps =
     (case req of
        None \<Rightarrow> (Inl ErrUnauthorized, ps)
      | Some r \<Rightarrow> if acID r = i then (Inl ErrNotAcceptable, ps) else getVisibleTargetAccount env req i ps)"

definition getBlockTarget :: "action_env \<Rightarrow> account \<Rightarrow> string \<Rightarrow> proc_state \<Rightarrow>
    (http_error + account \<times> block option) \<times> proc_state" where
  "getBlockTarget env req i ps =
     (if acID req = i then (Inl ErrNotAcceptable, ps)
      else
        (case aeAccount env i of
           Inl e \<Rightarrow> (Inl (if e \<noteq> LNoEntries then ErrInternal else ErrNotFound), ps)
         | Inr target \<Rightarrow>
             andThen (withCode ErrInternal (onRel (\<lambda>st. noEntriesOK (getBlock (aeAccount env) (acID req) i st)) ps))
               (\<lambda>b ps'. (Inr (target, b), ps'))))"

subsection \<open>Follows\<close>

record follow_form =
  ffID :: string
  ffReblogs :: "bool option"
  ffNotify :: "bool option"

definition newSetting :: "bool option \<Rightarrow> bool \<Rightarrow> bool" where
  "newSetting given current = (case given of None \<Rightarrow> current | Some b \<Rightarrow> b)"

definition changedColumns :: "follow_form \<Rightarrow> bool \<Rightarrow> bool \<Rightarrow> string list" where
  "changedColumns form reblogs notify =
     (if newSetting (ffReblogs form) reblogs \<noteq> reblogs then [''show_reblogs''] else []) @
     (if newSetting (ffNotify form) notify \<noteq> notify then [''notify''] else [])"

text \<open>
  The unexported \<open>updateFollow\<close>: \<open>update\<close> is the call on the row whose settings the new ones
  have been written to.
\<close>

definition updateSettings :: "action_env \<Rightarrow> account \<Rightarrow> follow_form \<Rightarrow> bool \<Rightarrow> bool \<Rightarrow>
    (bool \<Rightarrow> bool \<Rightarrow> string list \<Rightarrow> relstate \<Rightarrow> lookup_error option \<times> relstate) \<Rightarrow> proc_state \<Rightarrow>
    (http_error + relationship) \<times> proc_state" where
  "updateSettings env req form reblogs notify update ps =
     (if ffReblogs form = None \<and> ffNotify form = None then relationshipGet env req (ffID form) ps
      else if changedColumns form reblogs notify = [] then relationshipGet env req (ffID form) ps
      else
        andThen (withCode ErrInternal (errOption (onRel (update (newSetting (ffReblogs form) reblogs)
              (newSetting (ffNotify form) notify) (changedColumns form reblogs notify)) ps)))
          (\<lambda>_. relationshipGet env req (ffID form)))"

text \<open>
  \<open>FollowCreate\<close>. A setting that the form leaves out is stored with the default of its column,
  boosts shown and no notifications.
\<close>

definition newRequest :: "action_env \<Rightarrow> account \<Rightarrow> follow_form \<Rightarrow> string \<Rightarrow> follow_request" where
  "newRequest env req form i =
     \<lparr>frID = i, frUpdatedAt = aeNow env,
      frURI = generateURIForFollow (aeProtocol env) (aeHost env) (acUsername req) i,
      frAccountID = acID req, frTargetAccountID = ffID form,
      frShowReblogs = newSetting (ffReblogs form) True, frNotify = newSetting (ffNotify form) False\<rparr>"

definition createRequest :: "action_env \<Rightarrow> account \<Rightarrow> account \<Rightarrow> follow_form \<Rightarrow> proc_state \<Rightarrow>
    (http_error + relationship) \<times> proc_state" where
  "createRequest env req target form ps =
     (case aeNewID env of
        None \<Rightarrow> (Inl ErrInternal, ps)
      | Some i \<Rightarrow>
          (let fr = newRequest env req form i in
           andThen (withCode ErrInternal (errOption (onRel (putFollowRequest fr) ps))) (\<lambda>_ ps1.
           andThen (relationshipGet env req (ffID form) ps1) (\<lambda>rel ps2.
             (Inr (if isLocalAccount (aeHost env) target \<and> \<not> acLocked target
                   then rel\<lparr>rlRequested := False, rlFollowing := True, rlShowingReblogs := frShowReblogs fr,
                            rlNotifying := frNotify fr\<rparr>
                   else rel),
              pushMsgs [\<lparr>cmObject = ''Follow'', cmActivity = ''Create'', cmModel = MRequest fr,
                         cmOrigin = req, cmTarget = target\<rparr>] ps2)))))"

definition followCreate :: "action_env \<Rightarrow> account option \<Rightarrow> follow_form \<Rightarrow> proc_state \<Rightarrow>
    (http_error + relationship) \<times> proc_state" where
  "followCreate env requester form ps =
     andThen (getFollowTarget env requester (ffID form) ps) (\<lambda>target ps1.
       let req = the requester in
       andThen (withCode ErrInternal (onRel (\<lambda>st. noEntriesOK (getFollow' (acID req) (acID target) st)) ps1)) (\<lambda>follow ps2.
         case follow of
           Some f \<Rightarrow>
             updateSettings env req form (foShowReblogs f) (foNotify f)
               (\<lambda>rb nt cols. updateFollow (aeNow env) (f\<lparr>foShowReblogs := rb, foNotify := nt\<rparr>) cols) ps2
         | None \<Rightarrow>
             andThen (withCode ErrInternal (onRel (\<lambda>st. noEntriesOK (getFollowRequest' (acID req) (acID target) st)) ps2))
               (\<lambda>request ps3.
                  case request of
                    Some r \<Rightarrow>
                      updateSettings env req form (frShowReblogs r) (frNotify r)
                        (\<lambda>rb nt cols. updateFollowRequest (aeNow env) (r\<lparr>frShowReblogs := rb, frNotify := nt\<rparr>) cols) ps3
                  | None \<Rightarrow> createRequest env req target form ps3)))"

text \<open>\<open>unfollow\<close>: a deletion that says the row is gone ends it early.\<close>

definition undoMsg :: "account \<Rightarrow> account \<Rightarrow> string \<Rightarrow> client_msg" where
  "undoMsg origin target uri =
     \<lparr>cmObject = ''Follow'', cmActivity = ''Undo'', cmModel = MUndo (acID origin) (acID target) uri,
      cmOrigin = origin, cmTarget = target\<rparr>"

definition unfollowRequest :: "action_env \<Rightarrow> account \<Rightarrow> account \<Rightarrow> client_msg list \<Rightarrow> relstate \<Rightarrow>
    (lookup_error + client_msg list) \<times> relstate" where
  "unfollowRequest env origin target msgs st =
     andThen (noEntriesOK (getFollowRequest (aeAccount env) (acID origin) (acID target) st)) (\<lambda>request st1.
       case request of
         None \<Rightarrow> (Inr msgs, st1)
       | Some r \<Rightarrow>
           (case deleteFollowRequestByID (frID r) st1 of
              (Some e, st2) \<Rightarrow> (if e \<noteq> LNoEntries then Inl e else Inr msgs, st2)
            | (None, st2) \<Rightarrow> (Inr (msgs @ [undoMsg origin target (frURI r)]), st2)))"

definition unfollow :: "action_env \<Rightarrow> account \<Rightarrow> account \<Rightarrow> relstate \<Rightarrow> (lookup_error + client_msg list) \<times> relstate" where
  "unfollow env origin target st =
     andThen (noEntriesOK (getFollow (aeAccount env) (acID origin) (acID target) st)) (\<lambda>follow st1.
       case follow of
         None \<Rightarrow> unfollowRequest env origin target [] st1
       | Some f \<Rightarrow>
           (case deleteFollowByID (foID f) st1 of
              (Some e, st2) \<Rightarrow> (if e \<noteq> LNoEntries then Inl e else Inr [], st2)
            | (None, st2) \<Rightarrow> unfollowRequest env origin target [undoMsg origin target (foURI f)] st2))"

definition followRemove :: "action_env \<Rightarrow> account option \<Rightarrow> string \<Rightarrow> proc_state \<Rightarrow> (http_error + relationship) \<times> proc_state" where
  "followRemove env requester i ps =
     andThen (getFollowTarget env requester i ps) (\<lambda>target ps1.
     andThen (withCode ErrNotFound (onRel (unfollow env (the requester) target) ps1)) (\<lambda>msgs ps2.
       relationshipGet env (the requester) i (pushMsgs msgs ps2)))"

subsection \<open>Follow requests\<close>

definition requestMsg :: "action_env \<Rightarrow> string \<Rightarrow> msg_model \<Rightarrow> string \<Rightarrow> string \<Rightarrow> client_msg list" where
  "requestMsg env activity m src tgt =
     (case (aeAccount env src, aeAccount env tgt) of
        (Inr a, Inr b) \<Rightarrow>
          [\<lparr>cmObject = ''Follow'', cmActivity = activity, cmModel = m, cmOrigin = a, cmTarget = b\<rparr>]
      | _ \<Rightarrow> [])"

definition followRequestAccept :: "action_env \<Rightarrow> account \<Rightarrow> string \<Rightarrow> proc_state \<Rightarrow>
    (http_error + relationship) \<times> proc_state" where
  "followRequestAccept env req src ps =
     andThen (withCode ErrNotFound (onRel (acceptFollowRequest (aeAccount env) (aeNow env) src (acID req)) ps)) (\<lambda>f ps1.
       relationshipGet env req src (pushMsgs (requestMsg env ''Accept'' (MFollow f) src (acID req)) ps1))"

definition followRequestReject :: "action_env \<Rightarrow> account \<Rightarrow> string \<Rightarrow> proc_state \<Rightarrow>
    (http_error + relationship) \<times> proc_state" where
  "followRequestReject env req src ps =
     andThen (withCode ErrNotFound (onRel (getFollowRequest (aeAccount env) src (acID req)) ps)) (\<lambda>r ps1.
     andThen (withCode ErrNotFound (errOption (onRel (rejectFollowRequest src (acID req)) ps1))) (\<lambda>_ ps2.
       relationshipGet env req src (pushMsgs (requestMsg env ''Reject'' (MRequest r) src (acID req)) ps2)))"

subsection \<open>Blocks\<close>

definition newBlock :: "action_env \<Rightarrow> account \<Rightarrow> string \<Rightarrow> string \<Rightarrow> block" where
  "newBlock env req tgt i =
     \<lparr>blID = i, blURI = generateURIForBlock (aeProtocol env) (aeHost env) (acUsername req) i,
      blAccountID = acID req, blTargetAccountID = tgt\<rparr>"

definition blockMsg :: "string \<Rightarrow> account \<Rightarrow> account \<Rightarrow> block \<Rightarrow> client_msg" where
  "blockMsg activity origin target b =
     \<lparr>cmObject = ''Block'', cmActivity = activity, cmModel = MBlock b, cmOrigin = origin, cmTarget = target\<rparr>"

definition blockCreate :: "action_env \<Rightarrow> account \<Rightarrow> string \<Rightarrow> proc_state \<Rightarrow> (http_error + relationship) \<times> proc_state" where
  "blockCreate env req i ps =
     andThen (getBlockTarget env req i ps) (\<lambda>(target, existing) ps1.
       case existing of
         Some _ \<Rightarrow> relationshipGet env req i ps1
       | None \<Rightarrow>
           (let b = newBlock env req i (aeULID env) in
            andThen (withCode ErrInternal (errOption (onRel (putBlock b) ps1))) (\<lambda>_ ps2.
            andThen (withCode ErrInternal (onRel (unfollow env req target) ps2)) (\<lambda>msgs ps3.
            andThen (withCode ErrInternal (onRel (unfollow env target req) ps3)) (\<lambda>_ ps4.
              relationshipGet env req i (pushMsgs (msgs @ [blockMsg ''Create'' req target b]) ps4))))))"

definition blockRemove :: "action_env \<Rightarrow> account \<Rightarrow> string \<Rightarrow> proc_state \<Rightarrow> (http_error + relationship) \<times> proc_state" where
  "blockRemove env req i ps =
     andThen (getBlockTarget env req i ps) (\<lambda>(target, existing) ps1.
       case existing of
         None \<Rightarrow> relationshipGet env req i ps1
       | Some b \<Rightarrow>
           andThen (withCode ErrInternal (errOption (onRel (deleteBlockByID (blID b)) ps1))) (\<lambda>_ ps2.
             relationshipGet env req i (pushMsgs [blockMsg ''Undo'' req target b] ps2)))"

end
