(* ===== verification/AccountSafety.thy ===== *)
theory AccountSafety
  imports AccountActions
begin

text \<open>
  What the handlers of \<open>AccountActions\<close> guarantee together: the relationships they allow, and that
  nobody reaches an account through them that the visibility filter hides.
\<close>

subsection \<open>Running a handler without faults\<close>

definition calm :: "host_config \<Rightarrow> rows \<Rightarrow> vis_db \<Rightarrow> relstate \<Rightarrow> bool" where
  "calm cfg R base st \<longleftrightarrow> relInv cfg R base st \<and> rsFaults st = []"

abbreviation follows :: "relstate \<Rightarrow> string \<Rightarrow> string \<Rightarrow> bool" where
  "follows st \<equiv> followingIn (tbRows (rsFollows st))"

abbreviation requested :: "relstate \<Rightarrow> string \<Rightarrow> string \<Rightarrow> bool" where
  "requested st \<equiv> requestedIn (tbRows (rsRequests st))"

abbreviation blocked :: "relstate \<Rightarrow> string \<Rightarrow> string \<Rightarrow> bool" where
  "blocked st \<equiv> blockedIn (tbRows (rsBlocks st))"

definition sameEdges :: "relstate \<Rightarrow> relstate \<Rightarrow> bool" where
  "sameEdges st st' \<longleftrightarrow> follows st' = follows st \<and> requested st' = requested st \<and> blocked st' = blocked st"

lemma sameEdges_refl [simp]: "sameEdges st st"
  by (simp add: sameEdges_def)

lemma sameEdges_trans: "sameEdges s t \<Longrightarrow> sameEdges t u \<Longrightarrow> sameEdges s u"
  by (simp add: sameEdges_def)

lemma sameData_edges: "sameData st st' \<Longrightarrow> sameEdges st st'"
  by (simp add: sameData_def sameEdges_def)

lemma readD:
  assumes "readOK cfg R base st spec m" and "rsFaults st = []"
  obtains st' where "m = (spec, st')" and "calm cfg R base st'" and "sameData st st'"
  using assms by (cases m) (auto simp: readOK_def calm_def)

text \<open>
  The accounts of the environment are the rows that the visibility filter knows, notes and mutes
  are looked up without faults, and the requester is one of the accounts.
\<close>

definition envOK :: "rows \<Rightarrow> action_env \<Rightarrow> bool" where
  "envOK R env \<longleftrightarrow>
     (\<forall>i a. aeAccount env i = Inr a \<longrightarrow> a = rowAccount R i) \<and>
     (\<forall>a b. calmLookup (aeNote env a b) \<and> calmLookup (aeMute env a b))"

definition reqOK :: "rows \<Rightarrow> action_env \<Rightarrow> account \<Rightarrow> bool" where
  "reqOK R env r \<longleftrightarrow> validReq R (Some r) \<and> aeAccount env (acID r) = Inr r"

lemma envOK_account: "envOK R env \<Longrightarrow> wfRows R \<Longrightarrow> aeAccount env i = Inr a \<Longrightarrow> acID a = i \<and> a = rowAccount R i"
  unfolding envOK_def wfRows_def by metis

lemma calm_lookupDB:
  assumes "calm cfg R base st"
  shows "lookupDB base st = relDB base st"
proof -
  have c: "relInv cfg R base st" "rsFaults st = []" using assms by (simp_all add: calm_def)
  have "fst (isEitherBlocked a b st) = Inr (blocked st a b \<or> blocked st b a)"
    and "fst (isFollowing a b st) = Inr (follows st a b)"
    and "fst (isMutualFollowing a b st) = Inr (follows st a b \<and> follows st b a)"
    and "fst (getFollow' a b st) = rowsLookup followPair [a, b] (tbRows (rsFollows st))" for a b
    using readOK_isEitherBlocked [OF c(1), of a b] readOK_isFollowing [OF c(1), of a b]
      readOK_isMutualFollowing [OF c(1), of a b] c(2)
      readOK_loadFollow [OF c(1) index_mem(3) index_names(9), of "[a, b]"]
    by (simp_all only: readOK_def getFollow'_load simp_thms)
  then show ?thesis by (simp add: lookupDB_def relDB_def)
qed

lemma relInv_vis: "relInv cfg R base st \<Longrightarrow> visAgrees cfg R (relDB base st) c \<Longrightarrow> relInv cfg R base (st\<lparr>rsVis := c\<rparr>)"
  by (simp add: relInv_def relDB_def)

lemma calm_target:
  assumes "calm (aeHost env) R (aeDB env) (psRel ps)" and "envOK R env" and "validReq R req"
    and "aeAccount env i = Inr target"
  obtains ps' where "getTargetAccountByID env req i ps =
      ((case isAccountVisibleTo (aeHost env) (relDB (aeDB env) (psRel ps)) req target of
          Inl _ \<Rightarrow> Inl ErrInternal | Inr v \<Rightarrow> Inr (target, v)), ps')"
    and "calm (aeHost env) R (aeDB env) (psRel ps')" and "sameEdges (psRel ps) (psRel ps')"
    and "psQueue ps' = psQueue ps"
proof -
  let ?st = "psRel ps"
  have inv: "relInv (aeHost env) R (aeDB env) ?st" and ag: "visAgrees (aeHost env) R (relDB (aeDB env) ?st) (rsVis ?st)"
    and wf: "wfRows R"
    using assms(1) by (auto simp: calm_def relInv_def wfDB_def)
  obtain v c where v: "accountVisible (aeHost env) (relDB (aeDB env) ?st) req target (rsVis ?st) = (v, c)" by fastforce
  have "validAcct R target" using envOK_account [OF assms(2) wf assms(4)] unfolding validAcct_def by metis
  from accountVisible_ok [OF assms(3) this ag v]
  have vc: "v = isAccountVisibleTo (aeHost env) (relDB (aeDB env) ?st) req target"
    "visAgrees (aeHost env) R (relDB (aeDB env) ?st) c" by auto
  show ?thesis
  proof (rule that [of "ps\<lparr>psRel := ?st\<lparr>rsVis := c\<rparr>\<rparr>"])
    show "calm (aeHost env) R (aeDB env) (psRel (ps\<lparr>psRel := ?st\<lparr>rsVis := c\<rparr>\<rparr>))"
      using relInv_vis [OF inv vc(2)] assms(1) by (simp add: calm_def)
  qed (use v vc assms(4) in \<open>auto simp: getTargetAccountByID_def calm_lookupDB [OF assms(1)] sameEdges_def split: sum.splits\<close>)
qed

lemma isAccountVisibleTo_unblocked:
  assumes "isAccountVisibleTo cfg (relDB base st) (Some r) t = Inr True"
  shows "\<not> blocked st (acID r) (acID t)" and "\<not> blocked st (acID t) (acID r)"
  using assms by (auto simp: isAccountVisibleTo_True relDB_def)

text \<open>The target of a follow, when there is one, is another account that is visible and that
  no block separates from the requester.\<close>

lemma calm_followTarget:
  assumes "calm (aeHost env) R (aeDB env) (psRel ps)" and "envOK R env" and "validReq R (Some r)"
    and "getFollowTarget env (Some r) i ps = (res, ps')"
  shows "calm (aeHost env) R (aeDB env) (psRel ps')" and "sameEdges (psRel ps) (psRel ps')"
    and "psQueue ps' = psQueue ps"
    and "res = Inr t \<Longrightarrow> acID r \<noteq> i \<and> aeAccount env i = Inr t \<and> acID t = i \<and>
      isAccountVisibleTo (aeHost env) (relDB (aeDB env) (psRel ps)) (Some r) t = Inr True"
    and "res = Inl e \<Longrightarrow> e = (if acID r = i then ErrNotAcceptable else case aeAccount env i of
      Inl e' \<Rightarrow> (if e' = LNoEntries then ErrNotFound else ErrInternal)
    | Inr t \<Rightarrow> (case isAccountVisibleTo (aeHost env) (relDB (aeDB env) (psRel ps)) (Some r) t of
        Inl _ \<Rightarrow> ErrInternal | Inr _ \<Rightarrow> ErrNotFound))"
proof -
  have wf: "wfRows R" using assms(1) by (simp add: calm_def relInv_def wfDB_def)
  have "calm (aeHost env) R (aeDB env) (psRel ps') \<and> sameEdges (psRel ps) (psRel ps') \<and> psQueue ps' = psQueue ps \<and>
    (\<forall>t. res = Inr t \<longrightarrow> acID r \<noteq> i \<and> aeAccount env i = Inr t \<and> acID t = i \<and>
      isAccountVisibleTo (aeHost env) (relDB (aeDB env) (psRel ps)) (Some r) t = Inr True) \<and>
    (\<forall>e. res = Inl e \<longrightarrow> e = (if acID r = i then ErrNotAcceptable else case aeAccount env i of
      Inl e' \<Rightarrow> (if e' = LNoEntries then ErrNotFound else ErrInternal)
    | Inr t \<Rightarrow> (case isAccountVisibleTo (aeHost env) (relDB (aeDB env) (psRel ps)) (Some r) t of
        Inl _ \<Rightarrow> ErrInternal | Inr _ \<Rightarrow> ErrNotFound)))"
  proof (cases "acID r = i")
    case True
    then show ?thesis using assms(1,4) by (auto simp: getFollowTarget_def)
  next
    case False
    show ?thesis
    proof (cases "aeAccount env i")
      case (Inl e)
      then show ?thesis
        using False assms(1,4)
        by (auto simp: getFollowTarget_def getVisibleTargetAccount_def getTargetAccountByID_def)
    next
      case (Inr t)
      obtain ps1 where g: "getTargetAccountByID env (Some r) i ps =
          ((case isAccountVisibleTo (aeHost env) (relDB (aeDB env) (psRel ps)) (Some r) t of
              Inl _ \<Rightarrow> Inl ErrInternal | Inr v \<Rightarrow> Inr (t, v)), ps1)"
        and ps1: "calm (aeHost env) R (aeDB env) (psRel ps1)" "sameEdges (psRel ps) (psRel ps1)" "psQueue ps1 = psQueue ps"
        by (rule calm_target [OF assms(1-3) Inr])
      have "acID t = i" using envOK_account [OF assms(2) wf Inr] by (rule conjunct1)
      then show ?thesis
        using False Inr g ps1 assms(4)
        by (auto simp: getFollowTarget_def getVisibleTargetAccount_def split: sum.splits if_splits)
    qed
  qed
  then show "calm (aeHost env) R (aeDB env) (psRel ps')" and "sameEdges (psRel ps) (psRel ps')"
    and "psQueue ps' = psQueue ps"
    and "res = Inr t \<Longrightarrow> acID r \<noteq> i \<and> aeAccount env i = Inr t \<and> acID t = i \<and>
      isAccountVisibleTo (aeHost env) (relDB (aeDB env) (psRel ps)) (Some r) t = Inr True"
    and "res = Inl e \<Longrightarrow> e = (if acID r = i then ErrNotAcceptable else case aeAccount env i of
      Inl e' \<Rightarrow> (if e' = LNoEntries then ErrNotFound else ErrInternal)
    | Inr t \<Rightarrow> (case isAccountVisibleTo (aeHost env) (relDB (aeDB env) (psRel ps)) (Some r) t of
        Inl _ \<Rightarrow> ErrInternal | Inr _ \<Rightarrow> ErrNotFound))" by blast+
qed

lemma relationshipOn_data:
  "sameData st st' \<Longrightarrow> relationshipOn note mute now a b st' = relationshipOn note mute now a b st"
  by (simp add: relationshipOn_def sameData_def)

lemma calm_relationshipGet:
  assumes "calm cfg R base (psRel ps)" and "envOK R env"
  obtains rel ps' where "relationshipGet env r i ps = (Inr rel, ps')"
    and "rel = relationshipOn (aeNote env) (aeMute env) (aeNow env) (acID r) i (psRel ps')"
    and "calm cfg R base (psRel ps')" and "sameEdges (psRel ps) (psRel ps')" and "psQueue ps' = psQueue ps"
proof -
  have "readOK cfg R base (psRel ps) (Inr (relationshipOn (aeNote env) (aeMute env) (aeNow env) (acID r) i (psRel ps)))
      (getRelationship (aeNote env) (aeMute env) (aeNow env) (acID r) i (psRel ps))"
    by (rule readOK_getRelationship) (use assms in \<open>simp_all add: calm_def envOK_def\<close>)
  then obtain st' where "getRelationship (aeNote env) (aeMute env) (aeNow env) (acID r) i (psRel ps) =
      (Inr (relationshipOn (aeNote env) (aeMute env) (aeNow env) (acID r) i (psRel ps)), st')"
    "calm cfg R base st'" "sameData (psRel ps) st'"
    by (rule readD) (use assms(1) in \<open>auto simp: calm_def\<close>)
  then show ?thesis
    using that [of _ "ps\<lparr>psRel := st'\<rparr>"] sameData_edges
    by (simp add: relationshipGet_def withCode_def onRel_def relationshipOn_data)
qed

subsection \<open>Writes without faults\<close>

definition withoutEdge :: "string \<Rightarrow> string \<Rightarrow> (string \<Rightarrow> string \<Rightarrow> bool) \<Rightarrow> string \<Rightarrow> string \<Rightarrow> bool" where
  "withoutEdge a b E = (\<lambda>x y. E x y \<and> \<not> (x = a \<and> y = b))"

definition withEdge :: "string \<Rightarrow> string \<Rightarrow> (string \<Rightarrow> string \<Rightarrow> bool) \<Rightarrow> string \<Rightarrow> string \<Rightarrow> bool" where
  "withEdge a b E = (\<lambda>x y. E x y \<or> (x = a \<and> y = b))"

lemma calm_deleteFollowByID:
  assumes "calm cfg R base st" and "f \<in> set (tbRows (rsFollows st))" and "deleteFollowByID (foID f) st = (e, st')"
  shows "e = None" and "calm cfg R base st'"
    and "follows st' = withoutEdge (foAccountID f) (foTargetAccountID f) (follows st)"
    and "requested st' = requested st" and "blocked st' = blocked st"
proof -
  have inv: "relInv cfg R base st" and nf: "rsFaults st = []" using assms(1) by (simp_all add: calm_def)
  have tab: "tableOK followIxs (tbRows (rsFollows st))" using inv by (simp add: relInv_def tblOK_def)
  note ok = deleteFollowVia_ok [OF inv index_mem(1) index_names(7) assms(3) [unfolded deleteFollow_forms]]
  show "e = None" and "calm cfg R base st'" using ok(1,6) nf by (simp_all add: calm_def)
  have "tbRows (rsFollows st') = filter (\<lambda>g. foID g \<noteq> foID f) (tbRows (rsFollows st))"
    using ok(2,6) nf by auto
  moreover have "foID g = foID f \<longleftrightarrow> foAccountID g = foAccountID f \<and> foTargetAccountID g = foTargetAccountID f"
    if "g \<in> set (tbRows (rsFollows st))" for g
    using fol.tableOK_unique [OF tab index_mem(1) index_names(7) that assms(2)]
      fol.tableOK_unique [OF tab index_mem(3) index_names(9) that assms(2)] by auto
  ultimately show "follows st' = withoutEdge (foAccountID f) (foTargetAccountID f) (follows st)"
    by (auto simp: followingIn_def list_ex_iff withoutEdge_def fun_eq_iff)
  show "requested st' = requested st" and "blocked st' = blocked st" using ok(4,5) by simp_all
qed

lemma calm_deleteRequestByID:
  assumes "calm cfg R base st" and "r \<in> set (tbRows (rsRequests st))"
    and "deleteFollowRequestByID (frID r) st = (e, st')"
  shows "e = None" and "calm cfg R base st'"
    and "requested st' = withoutEdge (frAccountID r) (frTargetAccountID r) (requested st)"
    and "follows st' = follows st" and "blocked st' = blocked st"
proof -
  have inv: "relInv cfg R base st" and nf: "rsFaults st = []" using assms(1) by (simp_all add: calm_def)
  have tab: "tableOK requestIxs (tbRows (rsRequests st))" using inv by (simp add: relInv_def tblOK_def)
  note ok = deleteRequestWhere_ok [OF inv index_mem(4) index_names(7) _ assms(3) [unfolded deleteRequest_forms]]
  have P: "frID x = frID r \<longleftrightarrow> ixFields (idIndex frID) x = [frID r]" for x by simp
  show "e = None" and "calm cfg R base st'" using ok(1,5) nf P by (simp_all add: calm_def)
  have "tbRows (rsRequests st') = filter (\<lambda>g. frID g \<noteq> frID r) (tbRows (rsRequests st))"
    using ok(2,5) nf P by auto
  moreover have "frID g = frID r \<longleftrightarrow> frAccountID g = frAccountID r \<and> frTargetAccountID g = frTargetAccountID r"
    if "g \<in> set (tbRows (rsRequests st))" for g
    using req.tableOK_unique [OF tab index_mem(4) index_names(7) that assms(2)]
      req.tableOK_unique [OF tab index_mem(6) index_names(9) that assms(2)] by auto
  ultimately show "requested st' = withoutEdge (frAccountID r) (frTargetAccountID r) (requested st)"
    by (auto simp: requestedIn_def list_ex_iff withoutEdge_def fun_eq_iff)
  show "follows st' = follows st" and "blocked st' = blocked st" using ok(3,4) P by simp_all
qed

lemma withoutEdge_absent: "\<not> E a b \<Longrightarrow> withoutEdge a b E = E"
  by (auto simp: withoutEdge_def fun_eq_iff)

lemma populated_known:
  assumes "m = (spec, st')" and "\<And>v. spec = Inr v \<Longrightarrow> pop v = None"
  shows "populated pop m = (spec, st')"
  using assms by (cases spec) (simp_all add: populated_def)

lemma calm_unfollowRequest:
  assumes "calm cfg R base st" and "aeAccount env (acID a) = Inr x" and "aeAccount env (acID b) = Inr y"
  obtains ms st' where "unfollowRequest env a b msgs st = (Inr (msgs @ ms), st')" and "calm cfg R base st'"
    and "requested st' = withoutEdge (acID a) (acID b) (requested st)"
    and "follows st' = follows st" and "blocked st' = blocked st"
    and "(ms \<noteq> []) = requested st (acID a) (acID b)"
proof -
  let ?spec = "rowsLookup requestPair [acID a, acID b] (tbRows (rsRequests st))"
  have inv: "relInv cfg R base st" and nf: "rsFaults st = []" using assms(1) by (simp_all add: calm_def)
  obtain st1 where 1: "getFollowRequest' (acID a) (acID b) st = (?spec, st1)" "calm cfg R base st1" "sameData st st1"
    unfolding getFollowRequest'_load by (rule readD [OF readOK_loadRequest [OF inv index_mem(6) index_names(9)] nf])
  have g: "getFollowRequest (aeAccount env) (acID a) (acID b) st = (?spec, st1)"
    unfolding getFollowRequest_def
    by (rule populated_known [OF 1(1)]) (use assms(2,3) in \<open>auto simp: populateFollowRequest_def populateErr_def dest!: rowsLookup_Inr\<close>)
  have e: "requested st1 = requested st" "follows st1 = follows st" "blocked st1 = blocked st"
    using sameData_edges [OF 1(3)] by (simp_all add: sameEdges_def)
  show ?thesis
  proof (cases ?spec)
    case (Inl err)
    then have "err = LNoEntries" by (rule rowsLookup_error)
    moreover have no: "\<not> requested st (acID a) (acID b)"
      using Inl by (auto simp: rowsLookup_def requestedIn_def list_ex_iff find_None_iff split: option.splits)
    ultimately show ?thesis
      using g Inl 1(2) e withoutEdge_absent [of "requested st", OF no]
      by (intro that [of "[]" st1]) (simp_all add: unfollowRequest_def noEntriesOK_def)
  next
    case (Inr r)
    from rowsLookup_Inr [OF Inr] have r: "r \<in> set (tbRows (rsRequests st))" "frAccountID r = acID a" "frTargetAccountID r = acID b"
      by simp_all
    then have r1: "r \<in> set (tbRows (rsRequests st1))" using 1(3) by (simp add: sameData_def)
    obtain e2 st2 where d: "deleteFollowRequestByID (frID r) st1 = (e2, st2)" by fastforce
    note del = calm_deleteRequestByID [OF 1(2) r1 d]
    have "requested st (acID a) (acID b)" using r by (auto simp: requestedIn_def list_ex_iff)
    then show ?thesis
      using g Inr d del e r
      by (intro that [of "[undoMsg a b (frURI r)]" st2]) (simp_all add: unfollowRequest_def noEntriesOK_def)
  qed
qed

lemma calm_unfollow:
  assumes "calm cfg R base st" and "aeAccount env (acID a) = Inr x" and "aeAccount env (acID b) = Inr y"
  obtains ms st' where "unfollow env a b st = (Inr ms, st')" and "calm cfg R base st'"
    and "requested st' = withoutEdge (acID a) (acID b) (requested st)"
    and "follows st' = withoutEdge (acID a) (acID b) (follows st)" and "blocked st' = blocked st"
    and "(ms \<noteq> []) = (follows st (acID a) (acID b) \<or> requested st (acID a) (acID b))"
proof -
  let ?spec = "rowsLookup followPair [acID a, acID b] (tbRows (rsFollows st))"
  have inv: "relInv cfg R base st" and nf: "rsFaults st = []" using assms(1) by (simp_all add: calm_def)
  obtain st1 where 1: "getFollow' (acID a) (acID b) st = (?spec, st1)" "calm cfg R base st1" "sameData st st1"
    unfolding getFollow'_load by (rule readD [OF readOK_loadFollow [OF inv index_mem(3) index_names(9)] nf])
  have g: "getFollow (aeAccount env) (acID a) (acID b) st = (?spec, st1)"
    unfolding getFollow_def
    by (rule populated_known [OF 1(1)]) (use assms(2,3) in \<open>auto simp: populateFollow_def populateErr_def dest!: rowsLookup_Inr\<close>)
  have e: "requested st1 = requested st" "follows st1 = follows st" "blocked st1 = blocked st"
    using sameData_edges [OF 1(3)] by (simp_all add: sameEdges_def)
  show ?thesis
  proof (cases ?spec)
    case (Inl err)
    then have err: "err = LNoEntries" by (rule rowsLookup_error)
    have no: "\<not> follows st (acID a) (acID b)"
      using Inl by (auto simp: rowsLookup_def followingIn_def list_ex_iff find_None_iff split: option.splits)
    obtain ms st2 where "unfollowRequest env a b [] st1 = (Inr ([] @ ms), st2)" "calm cfg R base st2"
      "requested st2 = withoutEdge (acID a) (acID b) (requested st1)" "follows st2 = follows st1" "blocked st2 = blocked st1"
      "(ms \<noteq> []) = requested st1 (acID a) (acID b)"
      by (rule calm_unfollowRequest [OF 1(2) assms(2,3)])
    then show ?thesis
      using g Inl err e no withoutEdge_absent [of "follows st", OF no]
      by (intro that [of ms st2]) (simp_all add: unfollow_def noEntriesOK_def)
  next
    case (Inr f)
    from rowsLookup_Inr [OF Inr] have f: "f \<in> set (tbRows (rsFollows st))" "foAccountID f = acID a" "foTargetAccountID f = acID b"
      by simp_all
    then have f1: "f \<in> set (tbRows (rsFollows st1))" using 1(3) by (simp add: sameData_def)
    obtain e2 st2 where d: "deleteFollowByID (foID f) st1 = (e2, st2)" by fastforce
    note del = calm_deleteFollowByID [OF 1(2) f1 d]
    have yes: "follows st (acID a) (acID b)" using f by (auto simp: followingIn_def list_ex_iff)
    obtain ms st3 where "unfollowRequest env a b [undoMsg a b (foURI f)] st2 = (Inr ([undoMsg a b (foURI f)] @ ms), st3)"
      "calm cfg R base st3" "requested st3 = withoutEdge (acID a) (acID b) (requested st2)"
      "follows st3 = follows st2" "blocked st3 = blocked st2" "(ms \<noteq> []) = requested st2 (acID a) (acID b)"
      by (rule calm_unfollowRequest [OF del(2) assms(2,3)])
    then show ?thesis
      using g Inr d del e f yes
      by (intro that [of "[undoMsg a b (foURI f)] @ ms" st3]) (simp_all add: unfollow_def noEntriesOK_def)
  qed
qed

lemma changedColumns_settings: "changedColumns form s n \<noteq> [] \<Longrightarrow> settingsOnly (changedColumns form s n)"
  by (auto simp: settingsOnly_def changedColumns_def)

lemma changedColumns_version:
  "followVersion (changedColumns form (foShowReblogs f) (foNotify f)) f
     (f\<lparr>foShowReblogs := newSetting (ffReblogs form) (foShowReblogs f), foNotify := newSetting (ffNotify form) (foNotify f)\<rparr>)"
  "requestVersion (changedColumns form (frShowReblogs r) (frNotify r)) r
     (r\<lparr>frShowReblogs := newSetting (ffReblogs form) (frShowReblogs r), frNotify := newSetting (ffNotify form) (frNotify r)\<rparr>)"
  unfolding followVersion_def requestVersion_def
  by (rule exI [of _ "foUpdatedAt f"], auto simp: changedColumns_def)
    (rule exI [of _ "frUpdatedAt r"], auto simp: changedColumns_def)

lemma ex_map_same:
  assumes "\<And>x. x \<in> set xs \<Longrightarrow> P (g x) = P x"
  shows "list_ex P (map g xs) = list_ex P xs"
  using assms by (auto simp: list_ex_iff)

lemma calm_updateFollow:
  assumes "calm cfg R base st" and "f \<in> set (tbRows (rsFollows st))"
    and "changedColumns form (foShowReblogs f) (foNotify f) \<noteq> []"
    and "updateFollow now (f\<lparr>foShowReblogs := newSetting (ffReblogs form) (foShowReblogs f),
      foNotify := newSetting (ffNotify form) (foNotify f)\<rparr>) (changedColumns form (foShowReblogs f) (foNotify f)) st = (e, st')"
  shows "e = None" and "calm cfg R base st'" and "sameEdges st st'"
proof -
  have inv: "relInv cfg R base st" and nf: "rsFaults st = []" using assms(1) by (simp_all add: calm_def)
  note ok = updateFollow_ok [OF inv assms(2) changedColumns_version(1) changedColumns_settings [OF assms(3)] assms(4)]
  show "e = None" and "calm cfg R base st'" using ok(1,5) nf by (simp_all add: calm_def)
  show "sameEdges st st'"
    using ok(2-4) by (auto simp: sameEdges_def fun_eq_iff followingIn_def requestedIn_def blockedIn_def intro!: ex_map_same)
qed

lemma calm_updateRequest:
  assumes "calm cfg R base st" and "r \<in> set (tbRows (rsRequests st))"
    and "changedColumns form (frShowReblogs r) (frNotify r) \<noteq> []"
    and "updateFollowRequest now (r\<lparr>frShowReblogs := newSetting (ffReblogs form) (frShowReblogs r),
      frNotify := newSetting (ffNotify form) (frNotify r)\<rparr>) (changedColumns form (frShowReblogs r) (frNotify r)) st = (e, st')"
  shows "e = None" and "calm cfg R base st'" and "sameEdges st st'"
proof -
  have inv: "relInv cfg R base st" and nf: "rsFaults st = []" using assms(1) by (simp_all add: calm_def)
  note ok = updateFollowRequest_ok [OF inv assms(2) changedColumns_version(2) changedColumns_settings [OF assms(3)] assms(4)]
  show "e = None" and "calm cfg R base st'" using ok(1,5) nf by (simp_all add: calm_def)
  show "sameEdges st st'"
    using ok(2-4) by (auto simp: sameEdges_def fun_eq_iff followingIn_def requestedIn_def blockedIn_def intro!: ex_map_same)
qed

lemma calm_updateSettings:
  assumes "calm cfg R base (psRel ps)" and "envOK R env"
    and "\<And>e st'. changedColumns form s n \<noteq> [] \<Longrightarrow>
      update (newSetting (ffReblogs form) s) (newSetting (ffNotify form) n) (changedColumns form s n) (psRel ps) = (e, st') \<Longrightarrow>
      e = None \<and> calm cfg R base st' \<and> sameEdges (psRel ps) st'"
  obtains rel ps' where "updateSettings env r form s n update ps = (Inr rel, ps')"
    and "calm cfg R base (psRel ps')" and "sameEdges (psRel ps) (psRel ps')" and "psQueue ps' = psQueue ps"
proof (cases "(ffReblogs form = None \<and> ffNotify form = None) \<or> changedColumns form s n = []")
  case True
  then have u: "updateSettings env r form s n update ps = relationshipGet env r (ffID form) ps"
    by (auto simp: updateSettings_def)
  show ?thesis
    by (rule calm_relationshipGet [OF assms(1,2), of r "ffID form"]) (use u that in auto)
next
  case False
  obtain e st' where e: "update (newSetting (ffReblogs form) s) (newSetting (ffNotify form) n)
      (changedColumns form s n) (psRel ps) = (e, st')" by fastforce
  have up: "e = None" "calm cfg R base st'" "sameEdges (psRel ps) st'" using assms(3) [OF _ e] False by auto
  let ?ps1 = "ps\<lparr>psRel := st'\<rparr>"
  have "updateSettings env r form s n update ps = relationshipGet env r (ffID form) ?ps1"
    using False e up(1) by (auto simp: updateSettings_def onRel_def errOption_def withCode_def)
  then show ?thesis
    using calm_relationshipGet [of cfg R base ?ps1 env r "ffID form"] assms(2) up that sameEdges_trans [OF up(3)]
    by (metis proc_state.select_convs(1,2) proc_state.surjective proc_state.update_convs(1))
qed

subsection \<open>The handlers without faults\<close>

lemma calm_putFollowRequest:
  assumes "calm cfg R base st" and "putFollowRequest fr st = (e, st')"
  shows "calm cfg R base st'" and "follows st' = follows st" and "blocked st' = blocked st"
    and "requested st' = (if e = None then withEdge (frAccountID fr) (frTargetAccountID fr) (requested st) else requested st)"
proof -
  have inv: "relInv cfg R base st" and nf: "rsFaults st = []" using assms(1) by (simp_all add: calm_def)
  note ok = putFollowRequest_ok [OF inv assms(2)]
  show "calm cfg R base st'" and "follows st' = follows st" and "blocked st' = blocked st"
    using ok(1,3-5) nf by (simp_all add: calm_def)
  show "requested st' = (if e = None then withEdge (frAccountID fr) (frTargetAccountID fr) (requested st) else requested st)"
    using ok(2) by (auto simp: requestedIn_def withEdge_def fun_eq_iff)
qed

lemma calm_createRequest:
  assumes "calm cfg R base (psRel ps)" and "envOK R env" and "createRequest env r t form ps = (res, ps')"
  shows "calm cfg R base (psRel ps')" and "follows (psRel ps') = follows (psRel ps)" and "blocked (psRel ps') = blocked (psRel ps)"
    and "requested (psRel ps') = (case res of Inl _ \<Rightarrow> requested (psRel ps)
      | Inr _ \<Rightarrow> withEdge (acID r) (ffID form) (requested (psRel ps)))"
proof -
  have "calm cfg R base (psRel ps') \<and> follows (psRel ps') = follows (psRel ps) \<and> blocked (psRel ps') = blocked (psRel ps) \<and>
    requested (psRel ps') = (case res of Inl _ \<Rightarrow> requested (psRel ps)
      | Inr _ \<Rightarrow> withEdge (acID r) (ffID form) (requested (psRel ps)))"
  proof (cases "aeNewID env")
    case None
    then show ?thesis using assms(1,3) by (auto simp: createRequest_def)
  next
    case (Some i)
    let ?fr = "newRequest env r form i"
    obtain e st1 where p: "putFollowRequest ?fr (psRel ps) = (e, st1)" by fastforce
    note put = calm_putFollowRequest [OF assms(1) p]
    show ?thesis
    proof (cases e)
      case (Some err)
      then show ?thesis
        using assms(3) \<open>aeNewID env = Some i\<close> p put
        by (auto simp: createRequest_def Let_def onRel_def errOption_def withCode_def)
    next
      case None
      let ?ps1 = "ps\<lparr>psRel := st1\<rparr>"
      have c1: "calm cfg R base (psRel ?ps1)" using put(1) by simp
      obtain rel ps2 where g: "relationshipGet env r (ffID form) ?ps1 = (Inr rel, ps2)"
        and ps2: "calm cfg R base (psRel ps2)" "sameEdges (psRel ?ps1) (psRel ps2)"
        by (rule calm_relationshipGet [OF c1 assms(2), of r "ffID form"]) (rule that)
      show ?thesis
        using assms(3) Some p put g ps2 None
        by (auto simp: createRequest_def Let_def onRel_def errOption_def withCode_def pushMsgs_def sameEdges_def newRequest_def)
    qed
  qed
  then show "calm cfg R base (psRel ps')" and "follows (psRel ps') = follows (psRel ps)" and "blocked (psRel ps') = blocked (psRel ps)"
    and "requested (psRel ps') = (case res of Inl _ \<Rightarrow> requested (psRel ps)
      | Inr _ \<Rightarrow> withEdge (acID r) (ffID form) (requested (psRel ps)))" by auto
qed

lemma onRel_read:
  assumes "readOK cfg R base (psRel ps) (Inr v) (f (psRel ps))" and "rsFaults (psRel ps) = []"
  obtains ps' where "withCode code (onRel f ps) = (Inr v, ps')" and "calm cfg R base (psRel ps')"
    and "sameData (psRel ps) (psRel ps')" and "psQueue ps' = psQueue ps"
proof -
  obtain st' where st': "f (psRel ps) = (Inr v, st')" "calm cfg R base st'" "sameData (psRel ps) st'"
    by (rule readD [OF assms])
  then show ?thesis using that [of "ps\<lparr>psRel := st'\<rparr>"] by (simp add: onRel_def withCode_def)
qed

lemma rowsLookup_row:
  "(case rowsLookup i parts rows of Inl _ \<Rightarrow> None | Inr v \<Rightarrow> Some v) = Some v \<Longrightarrow> v \<in> set rows \<and> ixFields i v = parts"
  using rowsLookup_Inr [of i parts rows v] by (auto split: sum.splits)

lemma calm_lookFollow:
  assumes "calm cfg R base (psRel ps)"
  obtains v ps' where "withCode code (onRel (\<lambda>st. noEntriesOK (getFollow' a b st)) ps) = (Inr v, ps')"
    and "calm cfg R base (psRel ps')" and "sameEdges (psRel ps) (psRel ps')" and "psQueue ps' = psQueue ps"
    and "(v \<noteq> None) = follows (psRel ps) a b" and "\<And>f. v = Some f \<Longrightarrow> f \<in> set (tbRows (rsFollows (psRel ps')))"
proof -
  have c: "relInv cfg R base (psRel ps)" "rsFaults (psRel ps) = []" using assms by (simp_all add: calm_def)
  let ?v = "case rowsLookup followPair [a, b] (tbRows (rsFollows (psRel ps))) of Inl _ \<Rightarrow> None | Inr v \<Rightarrow> Some v"
  have "readOK cfg R base (psRel ps) (Inr ?v) (noEntriesOK (getFollow' a b (psRel ps)))"
    unfolding getFollow'_load
    by (rule readOK_noEntries [OF readOK_loadFollow [OF c(1) index_mem(3) index_names(9)]]) (rule rowsLookup_error)
  then obtain ps' where "withCode code (onRel (\<lambda>st. noEntriesOK (getFollow' a b st)) ps) = (Inr ?v, ps')"
    "calm cfg R base (psRel ps')" "sameData (psRel ps) (psRel ps')" "psQueue ps' = psQueue ps"
    by (rule onRel_read [OF _ c(2)])
  then show ?thesis
    using rowsLookup_row [of followPair "[a, b]" "tbRows (rsFollows (psRel ps))"]
      rowsLookup_isSome [of followPair "[a, b]" "tbRows (rsFollows (psRel ps))"]
    by (intro that [of ?v ps']) (simp_all add: sameData_edges followingIn_def sameData_def)
qed

lemma calm_lookRequest:
  assumes "calm cfg R base (psRel ps)"
  obtains v ps' where "withCode code (onRel (\<lambda>st. noEntriesOK (getFollowRequest' a b st)) ps) = (Inr v, ps')"
    and "calm cfg R base (psRel ps')" and "sameEdges (psRel ps) (psRel ps')" and "psQueue ps' = psQueue ps"
    and "(v \<noteq> None) = requested (psRel ps) a b" and "\<And>f. v = Some f \<Longrightarrow> f \<in> set (tbRows (rsRequests (psRel ps')))"
proof -
  have c: "relInv cfg R base (psRel ps)" "rsFaults (psRel ps) = []" using assms by (simp_all add: calm_def)
  let ?v = "case rowsLookup requestPair [a, b] (tbRows (rsRequests (psRel ps))) of Inl _ \<Rightarrow> None | Inr v \<Rightarrow> Some v"
  have "readOK cfg R base (psRel ps) (Inr ?v) (noEntriesOK (getFollowRequest' a b (psRel ps)))"
    unfolding getFollowRequest'_load
    by (rule readOK_noEntries [OF readOK_loadRequest [OF c(1) index_mem(6) index_names(9)]]) (rule rowsLookup_error)
  then obtain ps' where "withCode code (onRel (\<lambda>st. noEntriesOK (getFollowRequest' a b st)) ps) = (Inr ?v, ps')"
    "calm cfg R base (psRel ps')" "sameData (psRel ps) (psRel ps')" "psQueue ps' = psQueue ps"
    by (rule onRel_read [OF _ c(2)])
  then show ?thesis
    using rowsLookup_row [of requestPair "[a, b]" "tbRows (rsRequests (psRel ps))"]
      rowsLookup_isSome [of requestPair "[a, b]" "tbRows (rsRequests (psRel ps))"]
    by (intro that [of ?v ps']) (simp_all add: sameData_edges requestedIn_def sameData_def)
qed

lemma calm_lookBlock:
  assumes "calm cfg R base (psRel ps)" and "aeAccount env a = Inr x" and "aeAccount env b = Inr y"
  obtains v ps' where "withCode code (onRel (\<lambda>st. noEntriesOK (getBlock (aeAccount env) a b st)) ps) = (Inr v, ps')"
    and "calm cfg R base (psRel ps')" and "sameEdges (psRel ps) (psRel ps')" and "psQueue ps' = psQueue ps"
    and "(v \<noteq> None) = blocked (psRel ps) a b"
    and "\<And>f. v = Some f \<Longrightarrow> f \<in> set (tbRows (rsBlocks (psRel ps'))) \<and> blAccountID f = a \<and> blTargetAccountID f = b"
proof -
  have c: "relInv cfg R base (psRel ps)" "rsFaults (psRel ps) = []" using assms(1) by (simp_all add: calm_def)
  let ?l = "rowsLookup blockPair [a, b] (tbRows (rsBlocks (psRel ps)))"
  let ?v = "case ?l of Inl _ \<Rightarrow> None | Inr v \<Rightarrow> Some v"
  obtain st1 where 1: "getBlock' a b (psRel ps) = (?l, st1)" "calm cfg R base st1" "sameData (psRel ps) st1"
    unfolding getBlock'_load by (rule readD [OF readOK_loadBlock [OF c(1) index_mem(9) index_names(9)] c(2)])
  have g: "getBlock (aeAccount env) a b (psRel ps) = (?l, st1)"
    unfolding getBlock_def
    by (rule populated_known [OF 1(1)]) (use assms(2,3) in \<open>auto simp: populateBlock_def populateErr_def dest!: rowsLookup_Inr\<close>)
  have "noEntriesOK (?l, st1) = (Inr ?v, st1)"
    by (auto simp: noEntriesOK_def dest: rowsLookup_error split: sum.splits)
  then have "withCode code (onRel (\<lambda>st. noEntriesOK (getBlock (aeAccount env) a b st)) ps) = (Inr ?v, ps\<lparr>psRel := st1\<rparr>)"
    by (simp add: onRel_def withCode_def g)
  then show ?thesis
    using 1(2,3) rowsLookup_row [of blockPair "[a, b]" "tbRows (rsBlocks (psRel ps))"]
      rowsLookup_isSome [of blockPair "[a, b]" "tbRows (rsBlocks (psRel ps))"]
    by (intro that [of ?v "ps\<lparr>psRel := st1\<rparr>"]) (simp_all add: sameData_edges blockedIn_def sameData_def)
qed

lemma calm_followCreate:
  assumes "calm (aeHost env) R (aeDB env) (psRel ps)" and "envOK R env" and "validReq R (Some r)"
    and "followCreate env (Some r) form ps = (res, ps')"
  shows "calm (aeHost env) R (aeDB env) (psRel ps')" and "follows (psRel ps') = follows (psRel ps)"
    and "blocked (psRel ps') = blocked (psRel ps)"
    and "requested (psRel ps') = requested (psRel ps) \<or>
      (requested (psRel ps') = withEdge (acID r) (ffID form) (requested (psRel ps)) \<and>
       \<not> follows (psRel ps) (acID r) (ffID form) \<and>
       \<not> blocked (psRel ps) (acID r) (ffID form) \<and> \<not> blocked (psRel ps) (ffID form) (acID r))"
    and "res = Inr rel \<Longrightarrow> follows (psRel ps') (acID r) (ffID form) \<or> requested (psRel ps') (acID r) (ffID form)"
    and "fst (getFollowTarget env (Some r) (ffID form) ps) = Inl e \<Longrightarrow> res = Inl e \<and> sameEdges (psRel ps) (psRel ps') \<and> psQueue ps' = psQueue ps"
proof -
  let ?cfg = "aeHost env" and ?base = "aeDB env" and ?i = "ffID form"
  obtain tr ps1 where t: "getFollowTarget env (Some r) ?i ps = (tr, ps1)" by fastforce
  note tgt = calm_followTarget [OF assms(1-3) t]
  have goal: "calm ?cfg R ?base (psRel ps') \<and> follows (psRel ps') = follows (psRel ps) \<and> blocked (psRel ps') = blocked (psRel ps) \<and>
    (requested (psRel ps') = requested (psRel ps) \<or>
      (requested (psRel ps') = withEdge (acID r) ?i (requested (psRel ps)) \<and> \<not> follows (psRel ps) (acID r) ?i \<and>
       \<not> blocked (psRel ps) (acID r) ?i \<and> \<not> blocked (psRel ps) ?i (acID r))) \<and>
    (\<forall>rel. res = Inr rel \<longrightarrow> follows (psRel ps') (acID r) ?i \<or> requested (psRel ps') (acID r) ?i) \<and>
    (\<forall>e. tr = Inl e \<longrightarrow> res = Inl e \<and> sameEdges (psRel ps) (psRel ps') \<and> psQueue ps' = psQueue ps)"
  proof (cases tr)
    case (Inl e)
    then have "res = Inl e" "ps' = ps1" using assms(4) t by (auto simp: followCreate_def)
    then show ?thesis using tgt Inl by (simp add: sameEdges_def)
  next
    case (Inr target)
    have target: "acID target = ?i" "isAccountVisibleTo ?cfg (relDB ?base (psRel ps)) (Some r) target = Inr True"
      using tgt(4) [OF Inr] by simp_all
    have unblocked: "\<not> blocked (psRel ps) (acID r) ?i" "\<not> blocked (psRel ps) ?i (acID r)"
      using isAccountVisibleTo_unblocked [OF target(2)] target(1) by simp_all
    obtain fv ps2 where f: "withCode ErrInternal (onRel (\<lambda>st. noEntriesOK (getFollow' (acID r) ?i st)) ps1) = (Inr fv, ps2)"
      and ps2: "calm ?cfg R ?base (psRel ps2)" "sameEdges (psRel ps1) (psRel ps2)" "psQueue ps2 = psQueue ps1"
      and fv: "(fv \<noteq> None) = follows (psRel ps1) (acID r) ?i" "\<And>fl. fv = Some fl \<Longrightarrow> fl \<in> set (tbRows (rsFollows (psRel ps2)))"
      by (rule calm_lookFollow [OF tgt(1), where code = ErrInternal and a = "acID r" and b = ?i]) (rule that)
    have e2: "sameEdges (psRel ps) (psRel ps2)"
      using tgt(2) ps2(2) by (rule sameEdges_trans)
    show ?thesis
    proof (cases fv)
      case (Some fl)
      have fl: "fl \<in> set (tbRows (rsFollows (psRel ps2)))" and yes: "follows (psRel ps) (acID r) ?i"
        using fv Some tgt(2) by (simp_all add: sameEdges_def)
      let ?up = "\<lambda>rb nt cols. updateFollow (aeNow env) (fl\<lparr>foShowReblogs := rb, foNotify := nt\<rparr>) cols"
      have u: "e = None \<and> calm ?cfg R ?base st' \<and> sameEdges (psRel ps2) st'"
        if "changedColumns form (foShowReblogs fl) (foNotify fl) \<noteq> []"
          "?up (newSetting (ffReblogs form) (foShowReblogs fl)) (newSetting (ffNotify form) (foNotify fl))
            (changedColumns form (foShowReblogs fl) (foNotify fl)) (psRel ps2) = (e, st')" for e st'
        using calm_updateFollow [OF ps2(1) fl that] by blast
      obtain rel ps3 where "updateSettings env r form (foShowReblogs fl) (foNotify fl)
          (\<lambda>rb nt cols. updateFollow (aeNow env) (fl\<lparr>foShowReblogs := rb, foNotify := nt\<rparr>) cols) ps2 = (Inr rel, ps3)"
        and "calm ?cfg R ?base (psRel ps3)" "sameEdges (psRel ps2) (psRel ps3)"
        by (rule calm_updateSettings [where update = ?up and form = form and s = "foShowReblogs fl" and n = "foNotify fl"
              and r = r, OF ps2(1) assms(2)], rule u, assumption, assumption, rule that)
      moreover from this have "res = Inr rel" "ps' = ps3"
        using assms(4) t Inr f Some target(1) by (auto simp: followCreate_def Let_def)
      ultimately show ?thesis using e2 yes Inr by (simp add: sameEdges_def)
    next
      case None
      have nof: "\<not> follows (psRel ps) (acID r) ?i"
        using None fv(1) tgt(2) by (simp add: sameEdges_def)
      obtain rv ps3 where g: "withCode ErrInternal (onRel (\<lambda>st. noEntriesOK (getFollowRequest' (acID r) ?i st)) ps2) = (Inr rv, ps3)"
        and ps3: "calm ?cfg R ?base (psRel ps3)" "sameEdges (psRel ps2) (psRel ps3)" "psQueue ps3 = psQueue ps2"
        and rv: "(rv \<noteq> None) = requested (psRel ps2) (acID r) ?i" "\<And>rq. rv = Some rq \<Longrightarrow> rq \<in> set (tbRows (rsRequests (psRel ps3)))"
        by (rule calm_lookRequest [OF ps2(1), where code = ErrInternal and a = "acID r" and b = ?i]) (rule that)
      have e3: "sameEdges (psRel ps) (psRel ps3)" using e2 ps3(2) by (rule sameEdges_trans)
      show ?thesis
      proof (cases rv)
        case (Some rq)
        have rq: "rq \<in> set (tbRows (rsRequests (psRel ps3)))" and yes: "requested (psRel ps) (acID r) ?i"
          using rv Some e2 by (simp_all add: sameEdges_def)
        let ?up = "\<lambda>rb nt cols. updateFollowRequest (aeNow env) (rq\<lparr>frShowReblogs := rb, frNotify := nt\<rparr>) cols"
        have u: "e = None \<and> calm ?cfg R ?base st' \<and> sameEdges (psRel ps3) st'"
          if "changedColumns form (frShowReblogs rq) (frNotify rq) \<noteq> []"
            "?up (newSetting (ffReblogs form) (frShowReblogs rq)) (newSetting (ffNotify form) (frNotify rq))
              (changedColumns form (frShowReblogs rq) (frNotify rq)) (psRel ps3) = (e, st')" for e st'
          using calm_updateRequest [OF ps3(1) rq that] by blast
        obtain rel ps4 where "updateSettings env r form (frShowReblogs rq) (frNotify rq)
            (\<lambda>rb nt cols. updateFollowRequest (aeNow env) (rq\<lparr>frShowReblogs := rb, frNotify := nt\<rparr>) cols) ps3 = (Inr rel, ps4)"
          and "calm ?cfg R ?base (psRel ps4)" "sameEdges (psRel ps3) (psRel ps4)"
          by (rule calm_updateSettings [where update = ?up and form = form and s = "frShowReblogs rq" and n = "frNotify rq"
                and r = r, OF ps3(1) assms(2)], rule u, assumption, assumption, rule that)
        moreover from this have "res = Inr rel" "ps' = ps4"
          using assms(4) t Inr f None g Some target(1) by (auto simp: followCreate_def Let_def)
        ultimately show ?thesis using e3 yes Inr by (simp add: sameEdges_def)
      next
        case noreq: None
        have "createRequest env r target form ps3 = (res, ps')"
          using assms(4) t Inr f None g noreq target(1) by (simp add: followCreate_def Let_def)
        note cr = calm_createRequest [OF ps3(1) assms(2) this]
        show ?thesis
          using cr e3 nof unblocked Inr by (cases res) (auto simp: sameEdges_def withEdge_def)
      qed
    qed
  qed
  show "calm ?cfg R ?base (psRel ps')" and "follows (psRel ps') = follows (psRel ps)" and "blocked (psRel ps') = blocked (psRel ps)"
    and "requested (psRel ps') = requested (psRel ps) \<or>
      (requested (psRel ps') = withEdge (acID r) ?i (requested (psRel ps)) \<and> \<not> follows (psRel ps) (acID r) ?i \<and>
       \<not> blocked (psRel ps) (acID r) ?i \<and> \<not> blocked (psRel ps) ?i (acID r))"
    and "res = Inr rel \<Longrightarrow> follows (psRel ps') (acID r) ?i \<or> requested (psRel ps') (acID r) ?i"
    using goal by blast+
  show "fst (getFollowTarget env (Some r) ?i ps) = Inl e \<Longrightarrow> res = Inl e \<and> sameEdges (psRel ps) (psRel ps') \<and> psQueue ps' = psQueue ps"
    using goal t by auto
qed

lemma calm_followRemove:
  assumes "calm (aeHost env) R (aeDB env) (psRel ps)" and "envOK R env" and "reqOK R env r"
    and "followRemove env (Some r) i ps = (res, ps')"
  shows "calm (aeHost env) R (aeDB env) (psRel ps')" and "blocked (psRel ps') = blocked (psRel ps)"
    and "sameEdges (psRel ps) (psRel ps') \<or>
      follows (psRel ps') = withoutEdge (acID r) i (follows (psRel ps)) \<and>
      requested (psRel ps') = withoutEdge (acID r) i (requested (psRel ps))"
proof -
  let ?cfg = "aeHost env" and ?base = "aeDB env"
  have vr: "validReq R (Some r)" and ar: "aeAccount env (acID r) = Inr r" using assms(3) by (simp_all add: reqOK_def)
  obtain tr ps1 where t: "getFollowTarget env (Some r) i ps = (tr, ps1)" by fastforce
  note tgt = calm_followTarget [OF assms(1,2) vr t]
  have "calm ?cfg R ?base (psRel ps') \<and> blocked (psRel ps') = blocked (psRel ps) \<and> (sameEdges (psRel ps) (psRel ps') \<or>
      follows (psRel ps') = withoutEdge (acID r) i (follows (psRel ps)) \<and>
      requested (psRel ps') = withoutEdge (acID r) i (requested (psRel ps)))"
  proof (cases tr)
    case (Inl e)
    then have "ps' = ps1" using assms(4) t by (auto simp: followRemove_def)
    then show ?thesis using tgt by (simp add: sameEdges_def)
  next
    case (Inr target)
    have target: "acID target = i" "aeAccount env (acID target) = Inr target" using tgt(4) [OF Inr] by simp_all
    obtain ms st2 where u: "unfollow env r target (psRel ps1) = (Inr ms, st2)" "calm ?cfg R ?base st2"
      "requested st2 = withoutEdge (acID r) (acID target) (requested (psRel ps1))"
      "follows st2 = withoutEdge (acID r) (acID target) (follows (psRel ps1))" "blocked st2 = blocked (psRel ps1)"
      by (rule calm_unfollow [OF tgt(1) ar target(2)])
    let ?ps2 = "pushMsgs ms (ps1\<lparr>psRel := st2\<rparr>)"
    have c2: "calm ?cfg R ?base (psRel ?ps2)" using u(2) by (simp add: pushMsgs_def)
    obtain rel ps3 where g: "relationshipGet env r i ?ps2 = (Inr rel, ps3)" "calm ?cfg R ?base (psRel ps3)"
      "sameEdges (psRel ?ps2) (psRel ps3)"
      by (rule calm_relationshipGet [OF c2 assms(2), of r i]) (rule that)
    then have "ps' = ps3"
      using assms(4) t Inr u(1) by (simp add: followRemove_def onRel_def withCode_def)
    then show ?thesis using g(2,3) u(3-5) tgt(2) target(1) by (simp add: sameEdges_def pushMsgs_def)
  qed
  then show "calm ?cfg R ?base (psRel ps')" and "blocked (psRel ps') = blocked (psRel ps)" and "sameEdges (psRel ps) (psRel ps') \<or>
      follows (psRel ps') = withoutEdge (acID r) i (follows (psRel ps)) \<and>
      requested (psRel ps') = withoutEdge (acID r) i (requested (psRel ps))" by blast+
qed

lemma calm_getFollowRequest:
  assumes "calm cfg R base st" and "getFollowRequest acct a b st = (res, st')"
  shows "calm cfg R base st'" and "sameEdges st st'" and "res = Inr r \<Longrightarrow> requested st a b"
proof -
  have c: "relInv cfg R base st" "rsFaults st = []" using assms(1) by (simp_all add: calm_def)
  let ?l = "rowsLookup requestPair [a, b] (tbRows (rsRequests st))"
  obtain st1 where 1: "getFollowRequest' a b st = (?l, st1)" "calm cfg R base st1" "sameData st st1"
    unfolding getFollowRequest'_load by (rule readD [OF readOK_loadRequest [OF c(1) index_mem(6) index_names(9)] c(2)])
  have st': "st' = st1"
    using assms(2) 1(1) by (cases ?l) (auto simp: getFollowRequest_def populated_def split: option.splits)
  then show "calm cfg R base st'" and "sameEdges st st'" using 1(2) sameData_edges [OF 1(3)] by simp_all
  show "requested st a b" if "res = Inr r"
  proof (cases ?l)
    case (Inl e)
    then show ?thesis using that assms(2) 1(1) by (simp add: getFollowRequest_def populated_def)
  next
    case (Inr g)
    from rowsLookup_Inr [OF this] show ?thesis by (auto simp: requestedIn_def list_ex_iff)
  qed
qed

lemma calm_followRequestAccept:
  assumes "calm (aeHost env) R (aeDB env) (psRel ps)" and "envOK R env"
    and "\<And>a b. requested (psRel ps) a b \<Longrightarrow> \<not> follows (psRel ps) a b"
    and "followRequestAccept env r src ps = (res, ps')"
  shows "calm (aeHost env) R (aeDB env) (psRel ps')" and "blocked (psRel ps') = blocked (psRel ps)"
    and "sameEdges (psRel ps) (psRel ps') \<or> requested (psRel ps) src (acID r) \<and>
      follows (psRel ps') = withEdge src (acID r) (follows (psRel ps)) \<and>
      requested (psRel ps') = withoutEdge src (acID r) (requested (psRel ps))"
proof -
  let ?cfg = "aeHost env" and ?base = "aeDB env" and ?st = "psRel ps"
  obtain ar st1 where a: "acceptFollowRequest (aeAccount env) (aeNow env) src (acID r) ?st = (ar, st1)" by fastforce
  have acc: "calm ?cfg R ?base st1 \<and> blocked st1 = blocked ?st \<and> (sameEdges ?st st1 \<or> (\<exists>f. ar = Inr f) \<and> requested ?st src (acID r) \<and>
      follows st1 = withEdge src (acID r) (follows ?st) \<and> requested st1 = withoutEdge src (acID r) (requested ?st))"
  proof (cases "requested ?st src (acID r)")
    case False
    obtain gr s1 where g: "getFollowRequest (aeAccount env) src (acID r) ?st = (gr, s1)" by fastforce
    note get = calm_getFollowRequest [OF assms(1) g]
    have "\<exists>e. gr = Inl e" using get(3) False by (cases gr) auto
    then have "st1 = s1" using a g by (auto simp: acceptFollowRequest_def)
    then show ?thesis using get(1,2) by (auto simp: sameEdges_def)
  next
    case True
    have inv: "relInv ?cfg R ?base ?st" and nf: "rsFaults ?st = []" using assms(1) by (simp_all add: calm_def)
    note ok = acceptFollowRequest_ok [OF inv assms(3) [OF True] a]
    have c: "calm ?cfg R ?base st1" and b: "blocked st1 = blocked ?st" using ok(1,3,4) nf by (simp_all add: calm_def)
    show ?thesis
    proof (cases ar)
      case (Inl e)
      then show ?thesis using ok(5) [OF nf Inl] c b by (simp add: sameEdges_def)
    next
      case (Inr f)
      have "follows st1 = withEdge src (acID r) (follows ?st)" and "requested st1 = withoutEdge src (acID r) (requested ?st)"
        using ok(2) [OF Inr] by (auto simp: followingIn_def requestedIn_def list_ex_iff withEdge_def withoutEdge_def fun_eq_iff)
      then show ?thesis using True Inr c b by blast
    qed
  qed
  have "calm ?cfg R ?base (psRel ps') \<and> sameEdges st1 (psRel ps')"
  proof (cases ar)
    case (Inl e)
    then show ?thesis using a assms(4) acc by (auto simp: followRequestAccept_def onRel_def withCode_def)
  next
    case (Inr f)
    let ?ps1 = "pushMsgs (requestMsg env ''Accept'' (MFollow f) src (acID r)) (ps\<lparr>psRel := st1\<rparr>)"
    have c1: "calm ?cfg R ?base (psRel ?ps1)" using acc by (simp add: pushMsgs_def)
    obtain rel ps2 where "relationshipGet env r src ?ps1 = (Inr rel, ps2)" "calm ?cfg R ?base (psRel ps2)"
      "sameEdges (psRel ?ps1) (psRel ps2)"
      by (rule calm_relationshipGet [OF c1 assms(2), of r src]) (rule that)
    then show ?thesis using a assms(4) Inr by (simp add: followRequestAccept_def onRel_def withCode_def pushMsgs_def)
  qed
  then show "calm ?cfg R ?base (psRel ps')" and "blocked (psRel ps') = blocked (psRel ps)"
    and "sameEdges (psRel ps) (psRel ps') \<or> requested (psRel ps) src (acID r) \<and>
      follows (psRel ps') = withEdge src (acID r) (follows (psRel ps)) \<and>
      requested (psRel ps') = withoutEdge src (acID r) (requested (psRel ps))"
    using acc by (auto simp: sameEdges_def)
qed

lemma calm_rejectFollowRequest:
  assumes "calm cfg R base st" and "rejectFollowRequest a b st = (e, st')"
  shows "calm cfg R base st'" and "follows st' = follows st" and "blocked st' = blocked st"
    and "requested st' = withoutEdge a b (requested st)"
proof -
  have inv: "relInv cfg R base st" and nf: "rsFaults st = []" using assms(1) by (simp_all add: calm_def)
  obtain e1 st1 where d: "deleteFollowRequest a b st = (e1, st1)" by fastforce
  note ok = deleteRequestWhere_ok [OF inv index_mem(6) index_names(9) request_pair_id [OF inv] d [unfolded deleteRequest_forms]]
  have e1: "e1 = None" "rsFaults st1 = []" using ok(5) nf by simp_all
  then have rows: "tbRows (rsRequests st1) = filter (\<lambda>x. \<not> (frAccountID x = a \<and> frTargetAccountID x = b)) (tbRows (rsRequests st))"
    using ok(2) by simp
  have n: "deleteNotifications [notificationFollowRequest] b a st1 = (e, st')"
    using assms(2) d e1 by (simp add: rejectFollowRequest_def)
  note dn = deleteNotifications_ok [OF ok(1) n]
  have "rsFaults st' = []" using n e1(2) by (auto simp: deleteNotifications_def split: if_splits)
  then show "calm cfg R base st'" using dn(1) by (simp add: calm_def)
  from dn(2) obtain fs ns where st': "st' = st1\<lparr>rsFaults := fs, rsNotifs := ns\<rparr>" by blast
  show "follows st' = follows st" and "blocked st' = blocked st" using ok(3,4) st' by simp_all
  show "requested st' = withoutEdge a b (requested st)"
    using rows st' by (auto simp: requestedIn_def list_ex_iff withoutEdge_def fun_eq_iff)
qed

lemma calm_followRequestReject:
  assumes "calm (aeHost env) R (aeDB env) (psRel ps)" and "envOK R env"
    and "followRequestReject env r src ps = (res, ps')"
  shows "calm (aeHost env) R (aeDB env) (psRel ps')" and "blocked (psRel ps') = blocked (psRel ps)"
    and "follows (psRel ps') = follows (psRel ps)"
    and "requested (psRel ps') = requested (psRel ps) \<or>
      requested (psRel ps') = withoutEdge src (acID r) (requested (psRel ps))"
proof -
  let ?cfg = "aeHost env" and ?base = "aeDB env" and ?st = "psRel ps"
  obtain gr st1 where g: "getFollowRequest (aeAccount env) src (acID r) ?st = (gr, st1)" by fastforce
  note get = calm_getFollowRequest [OF assms(1) g]
  have "calm ?cfg R ?base (psRel ps') \<and> blocked (psRel ps') = blocked ?st \<and> follows (psRel ps') = follows ?st \<and>
    (requested (psRel ps') = requested ?st \<or> requested (psRel ps') = withoutEdge src (acID r) (requested ?st))"
  proof (cases gr)
    case (Inl e)
    then show ?thesis using g assms(3) get by (auto simp: followRequestReject_def onRel_def withCode_def sameEdges_def)
  next
    case (Inr rq)
    obtain e st2 where j: "rejectFollowRequest src (acID r) st1 = (e, st2)" by fastforce
    note rej = calm_rejectFollowRequest [OF get(1) j]
    show ?thesis
    proof (cases e)
      case (Some err)
      then show ?thesis
        using g Inr j assms(3) rej get(2) by (auto simp: followRequestReject_def onRel_def withCode_def errOption_def sameEdges_def)
    next
      case None
      let ?ps2 = "pushMsgs (requestMsg env ''Reject'' (MRequest rq) src (acID r)) (ps\<lparr>psRel := st2\<rparr>)"
      have c2: "calm ?cfg R ?base (psRel ?ps2)" using rej(1) by (simp add: pushMsgs_def)
      obtain rel ps3 where "relationshipGet env r src ?ps2 = (Inr rel, ps3)" "calm ?cfg R ?base (psRel ps3)"
        "sameEdges (psRel ?ps2) (psRel ps3)"
        by (rule calm_relationshipGet [OF c2 assms(2), of r src]) (rule that)
      then show ?thesis
        using g Inr j None assms(3) rej get(2)
        by (auto simp: followRequestReject_def onRel_def withCode_def errOption_def pushMsgs_def sameEdges_def)
    qed
  qed
  then show "calm ?cfg R ?base (psRel ps')" and "blocked (psRel ps') = blocked (psRel ps)"
    and "follows (psRel ps') = follows (psRel ps)"
    and "requested (psRel ps') = requested (psRel ps) \<or>
      requested (psRel ps') = withoutEdge src (acID r) (requested (psRel ps))" by blast+
qed

lemma calm_blockTarget:
  assumes "calm (aeHost env) R (aeDB env) (psRel ps)" and "envOK R env" and "reqOK R env r"
    and "getBlockTarget env r i ps = (res, ps')"
  shows "calm (aeHost env) R (aeDB env) (psRel ps')" and "sameEdges (psRel ps) (psRel ps')" and "psQueue ps' = psQueue ps"
    and "res = Inr (t, b) \<Longrightarrow> acID r \<noteq> i \<and> aeAccount env i = Inr t \<and> acID t = i \<and> (b \<noteq> None) = blocked (psRel ps) (acID r) i \<and>
      (\<forall>x. b = Some x \<longrightarrow> x \<in> set (tbRows (rsBlocks (psRel ps'))) \<and> blAccountID x = acID r \<and> blTargetAccountID x = i)"
proof -
  have wf: "wfRows R" using assms(1) by (simp add: calm_def relInv_def wfDB_def)
  have ar: "aeAccount env (acID r) = Inr r" using assms(3) by (simp add: reqOK_def)
  have "calm (aeHost env) R (aeDB env) (psRel ps') \<and> sameEdges (psRel ps) (psRel ps') \<and> psQueue ps' = psQueue ps \<and>
    (\<forall>t b. res = Inr (t, b) \<longrightarrow> acID r \<noteq> i \<and> aeAccount env i = Inr t \<and> acID t = i \<and> (b \<noteq> None) = blocked (psRel ps) (acID r) i \<and>
      (\<forall>x. b = Some x \<longrightarrow> x \<in> set (tbRows (rsBlocks (psRel ps'))) \<and> blAccountID x = acID r \<and> blTargetAccountID x = i))"
  proof (cases "acID r = i")
    case True
    then show ?thesis using assms(1,4) by (auto simp: getBlockTarget_def)
  next
    case False
    show ?thesis
    proof (cases "aeAccount env i")
      case (Inl e)
      then show ?thesis using False assms(1,4) by (auto simp: getBlockTarget_def)
    next
      case (Inr t)
      obtain v ps1 where l: "withCode ErrInternal (onRel (\<lambda>st. noEntriesOK (getBlock (aeAccount env) (acID r) i st)) ps) = (Inr v, ps1)"
        and ps1: "calm (aeHost env) R (aeDB env) (psRel ps1)" "sameEdges (psRel ps) (psRel ps1)" "psQueue ps1 = psQueue ps"
        and v: "(v \<noteq> None) = blocked (psRel ps) (acID r) i"
          "\<And>f. v = Some f \<Longrightarrow> f \<in> set (tbRows (rsBlocks (psRel ps1))) \<and> blAccountID f = acID r \<and> blTargetAccountID f = i"
        by (rule calm_lookBlock [OF assms(1) ar Inr, where code = ErrInternal]) (rule that)
      have "acID t = i" using envOK_account [OF assms(2) wf Inr] by (rule conjunct1)
      moreover have "res = Inr (t, v)" "ps' = ps1" using assms(4) False Inr l by (auto simp: getBlockTarget_def)
      ultimately show ?thesis using False Inr ps1 v by simp
    qed
  qed
  then show "calm (aeHost env) R (aeDB env) (psRel ps')" and "sameEdges (psRel ps) (psRel ps')" and "psQueue ps' = psQueue ps"
    and "res = Inr (t, b) \<Longrightarrow> acID r \<noteq> i \<and> aeAccount env i = Inr t \<and> acID t = i \<and> (b \<noteq> None) = blocked (psRel ps) (acID r) i \<and>
      (\<forall>x. b = Some x \<longrightarrow> x \<in> set (tbRows (rsBlocks (psRel ps'))) \<and> blAccountID x = acID r \<and> blTargetAccountID x = i)"
    by blast+
qed

text \<open>All that a block leaves between two accounts.\<close>

definition severed :: "string \<Rightarrow> string \<Rightarrow> relstate \<Rightarrow> relstate \<Rightarrow> bool" where
  "severed a b st st' \<longleftrightarrow>
     blocked st' = withEdge a b (blocked st) \<and>
     follows st' = withoutEdge b a (withoutEdge a b (follows st)) \<and>
     requested st' = withoutEdge b a (withoutEdge a b (requested st))"

lemma calm_blockCreate:
  assumes "calm (aeHost env) R (aeDB env) (psRel ps)" and "envOK R env" and "reqOK R env r"
    and "blockCreate env r i ps = (res, ps')"
  shows "calm (aeHost env) R (aeDB env) (psRel ps')"
    and "sameEdges (psRel ps) (psRel ps') \<or> severed (acID r) i (psRel ps) (psRel ps')"
    and "res = Inr rel \<Longrightarrow> blocked (psRel ps') (acID r) i \<and> (blocked (psRel ps) (acID r) i \<or> severed (acID r) i (psRel ps) (psRel ps')) \<and>
      rel = relationshipOn (aeNote env) (aeMute env) (aeNow env) (acID r) i (psRel ps')"
proof -
  let ?cfg = "aeHost env" and ?base = "aeDB env"
  have ar: "aeAccount env (acID r) = Inr r" using assms(3) by (simp add: reqOK_def)
  obtain tr ps1 where t: "getBlockTarget env r i ps = (tr, ps1)" by fastforce
  note tgt = calm_blockTarget [OF assms(1-3) t]
  have goal: "calm ?cfg R ?base (psRel ps') \<and> (sameEdges (psRel ps) (psRel ps') \<or> severed (acID r) i (psRel ps) (psRel ps')) \<and>
    (\<forall>rel. res = Inr rel \<longrightarrow> blocked (psRel ps') (acID r) i \<and> (blocked (psRel ps) (acID r) i \<or> severed (acID r) i (psRel ps) (psRel ps')) \<and>
      rel = relationshipOn (aeNote env) (aeMute env) (aeNow env) (acID r) i (psRel ps'))"
  proof (cases tr)
    case (Inl e)
    then have "res = Inl e" "ps' = ps1" using assms(4) t by (auto simp: blockCreate_def)
    then show ?thesis using tgt(1,2) by simp
  next
    case (Inr tb)
    obtain target ex where tb: "tb = (target, ex)" by fastforce
    note tg = tgt(4) [OF Inr [unfolded tb]]
    then have tid: "acID target = i" and at: "aeAccount env (acID target) = Inr target" by simp_all
    show ?thesis
    proof (cases ex)
      case (Some b)
      obtain rel ps2 where g: "relationshipGet env r i ps1 = (Inr rel, ps2)"
        "rel = relationshipOn (aeNote env) (aeMute env) (aeNow env) (acID r) i (psRel ps2)"
        "calm ?cfg R ?base (psRel ps2)" "sameEdges (psRel ps1) (psRel ps2)"
        by (rule calm_relationshipGet [OF tgt(1) assms(2), of r i]) (rule that)
      have "res = Inr rel" "ps' = ps2" using assms(4) t Inr tb Some g(1) by (auto simp: blockCreate_def)
      then show ?thesis
        using g(2,3) sameEdges_trans [OF tgt(2) g(4)] tg Some by (auto simp: sameEdges_def)
    next
      case None
      let ?b = "newBlock env r i (aeULID env)"
      have inv: "relInv ?cfg R ?base (psRel ps1)" and nf: "rsFaults (psRel ps1) = []" using tgt(1) by (simp_all add: calm_def)
      obtain e st2 where p: "putBlock ?b (psRel ps1) = (e, st2)" by fastforce
      note put = putBlock_ok [OF inv p]
      have c2: "calm ?cfg R ?base st2" using put(1,5) nf by (simp add: calm_def)
      show ?thesis
      proof (cases e)
        case (Some err)
        then have "res = Inl ErrInternal" "psRel ps' = st2"
          using assms(4) t Inr tb None p by (auto simp: blockCreate_def Let_def onRel_def errOption_def withCode_def)
        then show ?thesis using c2 put(2-4) Some tgt(2) by (simp add: sameEdges_def)
      next
        case noerr: None
        have b2: "blocked st2 = withEdge (acID r) i (blocked (psRel ps1))"
          using put(2) noerr by (auto simp: blockedIn_def withEdge_def newBlock_def fun_eq_iff)
        obtain ms st3 where u3: "unfollow env r target st2 = (Inr ms, st3)" "calm ?cfg R ?base st3"
          "requested st3 = withoutEdge (acID r) (acID target) (requested st2)"
          "follows st3 = withoutEdge (acID r) (acID target) (follows st2)" "blocked st3 = blocked st2"
          by (rule calm_unfollow [OF c2 ar at])
        obtain ns st4 where u4: "unfollow env target r st3 = (Inr ns, st4)" "calm ?cfg R ?base st4"
          "requested st4 = withoutEdge (acID target) (acID r) (requested st3)"
          "follows st4 = withoutEdge (acID target) (acID r) (follows st3)" "blocked st4 = blocked st3"
          by (rule calm_unfollow [OF u3(2) at ar])
        let ?ps4 = "pushMsgs (ms @ [blockMsg ''Create'' r target ?b]) (ps1\<lparr>psRel := st4\<rparr>)"
        have c4: "calm ?cfg R ?base (psRel ?ps4)" using u4(2) by (simp add: pushMsgs_def)
        obtain rel ps5 where g: "relationshipGet env r i ?ps4 = (Inr rel, ps5)"
          "rel = relationshipOn (aeNote env) (aeMute env) (aeNow env) (acID r) i (psRel ps5)"
          "calm ?cfg R ?base (psRel ps5)" "sameEdges (psRel ?ps4) (psRel ps5)"
          by (rule calm_relationshipGet [OF c4 assms(2), of r i]) (rule that)
        have res: "res = Inr rel" "ps' = ps5"
          using assms(4) t Inr tb None noerr p u3(1) u4(1) g(1)
          by (auto simp: blockCreate_def Let_def onRel_def errOption_def withCode_def)
        have "severed (acID r) i (psRel ps) (psRel ps5)"
          using g(4) u4(3-5) u3(3-5) b2 put(3,4) tgt(2) tid by (simp add: severed_def sameEdges_def pushMsgs_def)
        then show ?thesis using res g(2,3) by (auto simp: severed_def withEdge_def)
      qed
    qed
  qed
  show "calm ?cfg R ?base (psRel ps')" and "sameEdges (psRel ps) (psRel ps') \<or> severed (acID r) i (psRel ps) (psRel ps')"
    and "res = Inr rel \<Longrightarrow> blocked (psRel ps') (acID r) i \<and> (blocked (psRel ps) (acID r) i \<or> severed (acID r) i (psRel ps) (psRel ps')) \<and>
      rel = relationshipOn (aeNote env) (aeMute env) (aeNow env) (acID r) i (psRel ps')"
    using goal by blast+
qed

lemma calm_blockRemove:
  assumes "calm (aeHost env) R (aeDB env) (psRel ps)" and "envOK R env" and "reqOK R env r"
    and "blockRemove env r i ps = (res, ps')"
  shows "calm (aeHost env) R (aeDB env) (psRel ps')" and "follows (psRel ps') = follows (psRel ps)"
    and "requested (psRel ps') = requested (psRel ps)"
    and "blocked (psRel ps') = blocked (psRel ps) \<or> blocked (psRel ps') = withoutEdge (acID r) i (blocked (psRel ps))"
proof -
  let ?cfg = "aeHost env" and ?base = "aeDB env"
  obtain tr ps1 where t: "getBlockTarget env r i ps = (tr, ps1)" by fastforce
  note tgt = calm_blockTarget [OF assms(1-3) t]
  have goal: "calm ?cfg R ?base (psRel ps') \<and> follows (psRel ps') = follows (psRel ps) \<and> requested (psRel ps') = requested (psRel ps) \<and>
    (blocked (psRel ps') = blocked (psRel ps) \<or> blocked (psRel ps') = withoutEdge (acID r) i (blocked (psRel ps)))"
  proof (cases tr)
    case (Inl e)
    then have "ps' = ps1" using assms(4) t by (auto simp: blockRemove_def)
    then show ?thesis using tgt(1,2) by (simp add: sameEdges_def)
  next
    case (Inr tb)
    obtain target ex where tb: "tb = (target, ex)" by fastforce
    note tg = tgt(4) [OF Inr [unfolded tb]]
    show ?thesis
    proof (cases ex)
      case None
      obtain rel ps2 where g: "relationshipGet env r i ps1 = (Inr rel, ps2)"
        "calm ?cfg R ?base (psRel ps2)" "sameEdges (psRel ps1) (psRel ps2)"
        by (rule calm_relationshipGet [OF tgt(1) assms(2), of r i]) (rule that)
      have "ps' = ps2" using assms(4) t Inr tb None g(1) by (auto simp: blockRemove_def)
      then show ?thesis using g(2,3) tgt(2) by (simp add: sameEdges_def)
    next
      case (Some b)
      have inv: "relInv ?cfg R ?base (psRel ps1)" and nf: "rsFaults (psRel ps1) = []" using tgt(1) by (simp_all add: calm_def)
      have tab: "tableOK blockIxs (tbRows (rsBlocks (psRel ps1)))" using inv by (simp add: relInv_def tblOK_def)
      have b: "b \<in> set (tbRows (rsBlocks (psRel ps1)))" "blAccountID b = acID r" "blTargetAccountID b = i" using tg Some by auto
      obtain e st2 where d: "deleteBlockByID (blID b) (psRel ps1) = (e, st2)" by fastforce
      have P: "blID x = blID b \<longleftrightarrow> ixFields (idIndex blID) x = [blID b]" for x by simp
      note del = deleteBlockWhere_ok [OF inv index_mem(7) index_names(7) P d [unfolded deleteBlock_forms]]
      have e: "e = None" "rsFaults st2 = []" using del(5) nf by simp_all
      have c2: "calm ?cfg R ?base st2" using del(1) e by (simp add: calm_def)
      have "tbRows (rsBlocks st2) = filter (\<lambda>x. blID x \<noteq> blID b) (tbRows (rsBlocks (psRel ps1)))" using del(2) e by simp
      moreover have "blID x = blID b \<longleftrightarrow> blAccountID x = acID r \<and> blTargetAccountID x = i"
        if "x \<in> set (tbRows (rsBlocks (psRel ps1)))" for x
        using blk.tableOK_unique [OF tab index_mem(7) index_names(7) that b(1)]
          blk.tableOK_unique [OF tab index_mem(9) index_names(9) that b(1)] b(2,3) by auto
      ultimately have b2: "blocked st2 = withoutEdge (acID r) i (blocked (psRel ps1))"
        by (auto simp: blockedIn_def list_ex_iff withoutEdge_def fun_eq_iff)
      let ?ps2 = "pushMsgs [blockMsg ''Undo'' r target b] (ps1\<lparr>psRel := st2\<rparr>)"
      have c2': "calm ?cfg R ?base (psRel ?ps2)" using c2 by (simp add: pushMsgs_def)
      obtain rel ps3 where g: "relationshipGet env r i ?ps2 = (Inr rel, ps3)"
        "calm ?cfg R ?base (psRel ps3)" "sameEdges (psRel ?ps2) (psRel ps3)"
        by (rule calm_relationshipGet [OF c2' assms(2), of r i]) (rule that)
      have "ps' = ps3"
        using assms(4) t Inr tb Some d e(1) g(1) by (auto simp: blockRemove_def onRel_def errOption_def withCode_def)
      then show ?thesis using g(2,3) b2 del(3,4) tgt(2) by (simp add: sameEdges_def pushMsgs_def)
    qed
  qed
  then show "calm ?cfg R ?base (psRel ps')" and "follows (psRel ps') = follows (psRel ps)" and "requested (psRel ps') = requested (psRel ps)"
    and "blocked (psRel ps') = blocked (psRel ps) \<or> blocked (psRel ps') = withoutEdge (acID r) i (blocked (psRel ps))" by blast+
qed

subsection \<open>Histories of actions\<close>

datatype account_action =
    ActFollow follow_form
  | ActUnfollow string
  | ActAccept string
  | ActReject string
  | ActBlock string
  | ActUnblock string

fun runAction :: "action_env \<Rightarrow> account \<Rightarrow> account_action \<Rightarrow> proc_state \<Rightarrow> (http_error + relationship) \<times> proc_state" where
  "runAction env r (ActFollow form) ps = followCreate env (Some r) form ps"
| "runAction env r (ActUnfollow i) ps = followRemove env (Some r) i ps"
| "runAction env r (ActAccept i) ps = followRequestAccept env r i ps"
| "runAction env r (ActReject i) ps = followRequestReject env r i ps"
| "runAction env r (ActBlock i) ps = blockCreate env r i ps"
| "runAction env r (ActUnblock i) ps = blockRemove env r i ps"

text \<open>
  The relationships an instance may hold: where one account blocks another, neither follows the
  other nor asks to, and nobody asks to follow whom they follow.
\<close>

definition socialOK :: "relstate \<Rightarrow> bool" where
  "socialOK st \<longleftrightarrow>
     list_all (\<lambda>x. let a = blAccountID x; b = blTargetAccountID x in
        \<not> follows st a b \<and> \<not> follows st b a \<and> \<not> requested st a b \<and> \<not> requested st b a) (tbRows (rsBlocks st)) \<and>
     list_all (\<lambda>f. \<not> requested st (foAccountID f) (foTargetAccountID f)) (tbRows (rsFollows st))"

lemma socialOK_iff:
  "socialOK st \<longleftrightarrow>
     (\<forall>a b. blocked st a b \<longrightarrow> \<not> follows st a b \<and> \<not> follows st b a \<and> \<not> requested st a b \<and> \<not> requested st b a) \<and>
     (\<forall>a b. follows st a b \<longrightarrow> \<not> requested st a b)"
proof -
  have edges: "list_all (\<lambda>x. P (f x) (g x)) rows = (\<forall>a b. list_ex (\<lambda>x. f x = a \<and> g x = b) rows \<longrightarrow> P a b)"
    for P :: "string \<Rightarrow> string \<Rightarrow> bool" and f g and rows :: "'v list"
    by (auto simp: list_all_iff list_ex_iff)
  show ?thesis
    unfolding socialOK_def Let_def
      edges [of "\<lambda>a b. \<not> follows st a b \<and> \<not> follows st b a \<and> \<not> requested st a b \<and> \<not> requested st b a"
        blAccountID blTargetAccountID "tbRows (rsBlocks st)"]
      edges [of "\<lambda>a b. \<not> requested st a b" foAccountID foTargetAccountID "tbRows (rsFollows st)"]
    by (simp add: followingIn_def blockedIn_def)
qed

lemma sameEdges_social: "sameEdges st st' \<Longrightarrow> socialOK st \<Longrightarrow> socialOK st'"
  by (simp add: socialOK_iff sameEdges_def)

inductive actReach :: "host_config \<Rightarrow> rows \<Rightarrow> vis_db \<Rightarrow> proc_state \<Rightarrow> bool" for cfg R base where
  start: "wfDB R base \<Longrightarrow> coldState (psRel ps) \<Longrightarrow> rsFaults (psRel ps) = [] \<Longrightarrow> socialOK (psRel ps) \<Longrightarrow>
    actReach cfg R base ps"
| act: "actReach cfg R base ps \<Longrightarrow> aeHost env = cfg \<Longrightarrow> aeDB env = base \<Longrightarrow> envOK R env \<Longrightarrow> reqOK R env r \<Longrightarrow>
    actReach cfg R base (snd (runAction env r act ps))"
| evict: "actReach cfg R base ps \<Longrightarrow> actReach cfg R base (ps\<lparr>psRel := (psRel ps)
    \<lparr>rsFollows := evictTable F (rsFollows (psRel ps)), rsRequests := evictTable G (rsRequests (psRel ps)),
     rsBlocks := evictTable H (rsBlocks (psRel ps)), rsEntries := evictTable E (rsEntries (psRel ps))\<rparr>\<rparr>)"
| pop: "actReach cfg R base ps \<Longrightarrow> actReach cfg R base (ps\<lparr>psQueue := tl (psQueue ps)\<rparr>)"

lemma runAction_safe:
  assumes "calm (aeHost env) R (aeDB env) (psRel ps)" and "socialOK (psRel ps)" and "envOK R env" and "reqOK R env r"
  shows "calm (aeHost env) R (aeDB env) (psRel (snd (runAction env r act ps))) \<and> socialOK (psRel (snd (runAction env r act ps)))"
proof -
  let ?st = "psRel ps" and ?st' = "psRel (snd (runAction env r act ps))"
  have vr: "validReq R (Some r)" using assms(4) by (simp add: reqOK_def)
  have excl: "\<not> follows ?st a b" if "requested ?st a b" for a b using assms(2) that by (auto simp: socialOK_iff)
  note soc = assms(2) [unfolded socialOK_iff]
  show ?thesis
  proof (cases act)
    case (ActFollow form)
    note h = calm_followCreate [OF assms(1,3) vr prod.collapse [symmetric], of form]
    have "socialOK ?st'"
      using h(2-4) soc ActFollow unfolding socialOK_iff by (auto simp: withEdge_def)
    then show ?thesis using h(1) ActFollow by simp
  next
    case (ActUnfollow i)
    note h = calm_followRemove [OF assms(1,3,4) prod.collapse [symmetric], of i]
    have "socialOK ?st'"
      using h(2,3) soc ActUnfollow unfolding socialOK_iff by (auto simp: withoutEdge_def sameEdges_def)
    then show ?thesis using h(1) ActUnfollow by simp
  next
    case (ActAccept i)
    note h = calm_followRequestAccept [OF assms(1,3) excl prod.collapse [symmetric], of r i]
    have "socialOK ?st'"
      using h(2,3) soc ActAccept unfolding socialOK_iff by (auto simp: withoutEdge_def withEdge_def sameEdges_def)
    then show ?thesis using h(1) ActAccept by simp
  next
    case (ActReject i)
    note h = calm_followRequestReject [OF assms(1,3) prod.collapse [symmetric], of r i]
    have "socialOK ?st'"
      using h(2-4) soc ActReject unfolding socialOK_iff by (auto simp: withoutEdge_def)
    then show ?thesis using h(1) ActReject by simp
  next
    case (ActBlock i)
    note h = calm_blockCreate [OF assms(1,3,4) prod.collapse [symmetric], of i]
    have "socialOK ?st'"
      using h(2) soc ActBlock unfolding socialOK_iff by (auto simp: withoutEdge_def withEdge_def sameEdges_def severed_def)
    then show ?thesis using h(1) ActBlock by simp
  next
    case (ActUnblock i)
    note h = calm_blockRemove [OF assms(1,3,4) prod.collapse [symmetric], of i]
    have "socialOK ?st'"
      using h(2-4) soc ActUnblock unfolding socialOK_iff by (auto simp: withoutEdge_def)
    then show ?thesis using h(1) ActUnblock by simp
  qed
qed

lemma actReach_safe: "actReach cfg R base ps \<Longrightarrow> calm cfg R base (psRel ps) \<and> socialOK (psRel ps)"
proof (induction rule: actReach.induct)
  case (start ps)
  then show ?case by (simp add: calm_def coldState_inv)
next
  case (act ps env r act)
  then show ?case using runAction_safe [of env R ps r act] by simp
next
  case (evict ps)
  have "socialOK (psRel ps\<lparr>rsFollows := evictTable F (rsFollows (psRel ps)), rsRequests := evictTable G (rsRequests (psRel ps)),
     rsBlocks := evictTable H (rsBlocks (psRel ps)), rsEntries := evictTable E (rsEntries (psRel ps))\<rparr>)" for F G H E
    using evict by (simp add: socialOK_def evictTable_def)
  then show ?case using evict relInv_evict by (simp add: calm_def)
qed simp

subsection \<open>Properties\<close>

definition exEnv :: action_env where
  "exEnv = \<lparr>aeHost = exHost, aeProtocol = ''https'', aeDB = exDB, aeAccount = exLookup,
     aeNote = (\<lambda>_ _. Inl LNoEntries), aeMute = (\<lambda>_ _. Inl LNoEntries), aeNow = 5, aeNewID = Some ''n1'', aeULID = ''n2''\<rparr>"

definition exProc :: proc_state where
  "exProc = \<lparr>psRel = exState, psQueue = []\<rparr>"

lemma exEnv_ok: "envOK exRows exEnv" "aeHost exEnv = exHost" "aeDB exEnv = exDB"
  by (simp_all add: envOK_def exEnv_def exRows_def exLookup_def calmLookup_def)

lemma exEnv_req: "i \<noteq> noauth \<Longrightarrow> reqOK exRows exEnv (exAcct i)"
  by (simp add: reqOK_def validReq_def exRows_def exEnv_def exLookup_def exAcct_def)

lemma exReqs: "reqOK exRows exEnv (exAcct ''a'')" "reqOK exRows exEnv (exAcct ''b'')"
  by (simp_all add: exEnv_req noauth_def)

lemma exProc_reach: "actReach exHost exRows exDB exProc"
proof (rule actReach.start [OF exDB_wf])
  show "coldState (psRel exProc)"
    by (simp add: coldState_def coldTable_def tableOK_def exState_def exProc_def index_defs ixKey_def exFollowRow_def
        exRequestRow_def exEntryRow_def)
  show "rsFaults (psRel exProc) = []" and "socialOK (psRel exProc)" by code_simp+
qed





text \<open>
  An account that the requester may not see answers a follow like one that does not exist:
  not found, nothing stored, nobody told. Two accounts with a block between them are such a case.
\<close>

theorem followCreate_hidden:
  assumes "actReach (aeHost env) R (aeDB env) ps" and "envOK R env" and "validReq R (Some r)" and "acID r \<noteq> ffID form"
    and "aeAccount env (ffID form) = Inl LNoEntries \<or> (\<exists>t. aeAccount env (ffID form) = Inr t \<and>
      isAccountVisibleTo (aeHost env) (relDB (aeDB env) (psRel ps)) (Some r) t = Inr False)"
  shows "fst (followCreate env (Some r) form ps) = Inl ErrNotFound \<and>
    sameEdges (psRel ps) (psRel (snd (followCreate env (Some r) form ps))) \<and>
    psQueue (snd (followCreate env (Some r) form ps)) = psQueue ps"
proof -
  have c: "calm (aeHost env) R (aeDB env) (psRel ps)" using actReach_safe [OF assms(1)] by simp
  obtain tr ps1 where t: "getFollowTarget env (Some r) (ffID form) ps = (tr, ps1)" by fastforce
  note tgt = calm_followTarget [OF c assms(2,3) t]
  have "tr = Inl ErrNotFound"
  proof (cases tr)
    case (Inl e)
    then show ?thesis using tgt(5) assms(4,5) by auto
  next
    case (Inr x)
    then show ?thesis using tgt(4) assms(5) by auto
  qed
  then have "fst (getFollowTarget env (Some r) (ffID form) ps) = Inl ErrNotFound" using t by simp
  from calm_followCreate(6) [OF c assms(2,3) prod.collapse [symmetric] this] show ?thesis by simp
qed

definition exForm :: "string \<Rightarrow> follow_form" where
  "exForm i = \<lparr>ffID = i, ffReblogs = None, ffNotify = Some True\<rparr>"

theorem followCreate_hidden_witness:
  "fst (followCreate exEnv (Some (exAcct ''b'')) (exForm ''a'')
     (snd (runAction exEnv (exAcct ''a'') (ActBlock ''b'') exProc))) = Inl ErrNotFound"
proof -
  let ?ps = "snd (runAction exEnv (exAcct ''a'') (ActBlock ''b'') exProc)"
  have r: "actReach (aeHost exEnv) exRows (aeDB exEnv) ?ps"
    unfolding exEnv_ok(2,3) by (rule actReach.act [OF exProc_reach exEnv_ok(2,3,1) exReqs(1)])
  have v: "validReq exRows (Some (exAcct ''b''))" using exReqs(2) by (simp add: reqOK_def)
  have "isAccountVisibleTo (aeHost exEnv) (relDB (aeDB exEnv) (psRel ?ps)) (Some (exAcct ''b'')) (exAcct ''a'') = Inr False"
    by code_simp
  then have h: "aeAccount exEnv (ffID (exForm ''a'')) = Inl LNoEntries \<or> (\<exists>t. aeAccount exEnv (ffID (exForm ''a'')) = Inr t \<and>
      isAccountVisibleTo (aeHost exEnv) (relDB (aeDB exEnv) (psRel ?ps)) (Some (exAcct ''b'')) t = Inr False)"
    by (simp add: exEnv_def exLookup_def exForm_def)
  show ?thesis using followCreate_hidden [OF r exEnv_ok(1) v _ h] by (simp add: exAcct_def exForm_def)
qed

text \<open>
  A follow that succeeds leaves the requester following the account or asking to, only where
  no block stands between them or the follow was there before; it takes no relationship away and
  adds none but that request.
\<close>

theorem followCreate_effect:
  assumes "actReach (aeHost env) R (aeDB env) ps" and "envOK R env" and "validReq R (Some r)"
    and "followCreate env (Some r) form ps = (Inr rel, ps')"
  shows "(follows (psRel ps') (acID r) (ffID form) \<or> requested (psRel ps') (acID r) (ffID form)) \<and>
    follows (psRel ps') = follows (psRel ps) \<and> blocked (psRel ps') = blocked (psRel ps) \<and>
    (\<forall>a b. requested (psRel ps') a b \<longleftrightarrow> requested (psRel ps) a b \<or>
      a = acID r \<and> b = ffID form \<and> \<not> follows (psRel ps) a b \<and> \<not> blocked (psRel ps) a b \<and> \<not> blocked (psRel ps) b a)"
proof -
  have c: "calm (aeHost env) R (aeDB env) (psRel ps)" and soc: "socialOK (psRel ps)" using actReach_safe [OF assms(1)] by simp_all
  note h = calm_followCreate [OF c assms(2-4)]
  have reached: "follows (psRel ps') (acID r) (ffID form) \<or> requested (psRel ps') (acID r) (ffID form)" using h(5) by blast
  have "requested (psRel ps') a b \<longleftrightarrow> requested (psRel ps) a b \<or>
      a = acID r \<and> b = ffID form \<and> \<not> follows (psRel ps) a b \<and> \<not> blocked (psRel ps) a b \<and> \<not> blocked (psRel ps) b a" for a b
    using h(2,4) reached by (auto simp: withEdge_def)
  then show ?thesis using h(2,3) reached by blast
qed

theorem followCreate_effect_witness:
  "requested (psRel (snd (followCreate exEnv (Some (exAcct ''a'')) (exForm ''b'') exProc))) ''a'' ''b''"
proof -
  have "isl (fst (followCreate exEnv (Some (exAcct ''a'')) (exForm ''b'') exProc)) = False" and n: "\<not> follows (psRel exProc) ''a'' ''b''"
    by code_simp+
  then obtain rel ps' where f: "followCreate exEnv (Some (exAcct ''a'')) (exForm ''b'') exProc = (Inr rel, ps')"
    by (cases "followCreate exEnv (Some (exAcct ''a'')) (exForm ''b'') exProc";
        cases "fst (followCreate exEnv (Some (exAcct ''a'')) (exForm ''b'') exProc)") auto
  have r: "actReach (aeHost exEnv) exRows (aeDB exEnv) exProc" using exProc_reach exEnv_ok by simp
  have v: "validReq exRows (Some (exAcct ''a''))" using exReqs(1) by (simp add: reqOK_def)
  from followCreate_effect [OF r exEnv_ok(1) v f] f n show ?thesis by (auto simp: exAcct_def exForm_def)
qed

end
