(* ===== verification/Streams.thy ===== *)
theory Streams
  imports Model
begin

text \<open>
  The live streams of the API: \<open>src/internal/stream/stream.go\<close>, the posts of
  \<open>src/internal/processing/stream\<close> and the two ends of a websocket in
  \<open>src/internal/api/client/streaming/stream.go\<close>.

  The goroutines interleave: a post computes its receivers under the lock and sends to them
  one by one afterwards, a subscription is a loop around a compare-and-swap, and closing a
  stream first closes its channel \<open>done\<close> and then takes the lock to unlink it. Each of these
  atomic actions is an event of \<open>sstep\<close>. A stream pointer is the position in \<open>smHeap\<close>; the
  pointer to a read-only map of types carries a number of its own, which is what
  \<open>CompareAndSwap\<close> compares.
\<close>

subsection \<open>Messages, streams, subscriptions\<close>

record message =
  msgStream :: "string list"
  msgEvent :: string
  msgPayload :: string

text \<open>The number beside a queued message is that of its post, for the statements only.\<close>

record stream =
  strOwner :: string
  strTypes :: "(nat \<times> string set) option"
  strDone :: bool
  strCh :: "(nat \<times> message) list"

record streams =
  smHeap :: "stream list"
  smMap :: "string \<Rightarrow> nat list"
  smNextPtr :: nat

definition allStatusTimelines :: "string list" where
  "allStatusTimelines = [''public:local'', ''public'', ''user'', ''direct'', ''list'']"

datatype sub_op = Subscribe string | Unsubscribe string

text \<open>The modifier functions handed to \<open>cas\<close>; \<open>None\<close> is the return value \<open>false\<close>.\<close>

fun modifier :: "sub_op \<Rightarrow> string set \<Rightarrow> string set option" where
  "modifier (Subscribe t) m = (if t \<in> m then None else Some (insert t m))"
| "modifier (Unsubscribe t) m = (if t \<notin> m then None else Some (m - {t}))"

definition typesOf :: "(nat \<times> string set) option \<Rightarrow> string set" where
  "typesOf ptr = (case ptr of None \<Rightarrow> {} | Some (_, m) \<Rightarrow> m)"

fun firstIn :: "string set \<Rightarrow> string list \<Rightarrow> string" where
  "firstIn m [] = []"
| "firstIn m (t # ts) = (if t \<in> m then t else firstIn m ts)"

definition getStreamType :: "string list \<Rightarrow> stream \<Rightarrow> string" where
  "getStreamType ts str = (case strTypes str of None \<Rightarrow> [] | Some (_, m) \<Rightarrow> firstIn m ts)"

text \<open>\<open>cas\<close> on a stream that no other goroutine knows yet: one round is enough.\<close>

definition casAlone :: "sub_op \<Rightarrow> (nat \<times> string set) option \<times> nat \<Rightarrow> (nat \<times> string set) option \<times> nat" where
  "casAlone u = (\<lambda>(ptr, n).
     case modifier u (typesOf ptr) of None \<Rightarrow> (ptr, n) | Some m \<Rightarrow> (Some (n, m), Suc n))"

text \<open>\<open>Open\<close>; \<open>None\<close> is its panic.\<close>

definition openStream :: "string \<Rightarrow> string list \<Rightarrow> streams \<Rightarrow> (nat \<times> streams) option" where
  "openStream acc types sm =
     (if types = [] then None
      else
        (let (ptr, n) = fold casAlone (map Subscribe types) (None, smNextPtr sm);
             s = length (smHeap sm);
             str = \<lparr>strOwner = acc, strTypes = ptr, strDone = False, strCh = []\<rparr>
         in Some (s, \<lparr>smHeap = smHeap sm @ [str],
                      smMap = (smMap sm)(acc := smMap sm acc @ [s]), smNextPtr = n\<rparr>)))"

text \<open>The loop of \<open>Post\<close> over the streams of an account.\<close>

fun deferredSends :: "message \<Rightarrow> stream list \<Rightarrow> nat list \<Rightarrow> (nat \<times> message) list" where
  "deferredSends msg heap [] = []"
| "deferredSends msg heap (s # ss) =
     (let stype = getStreamType (msgStream msg) (heap ! s)
      in if stype \<noteq> [] then
           (s, \<lparr>msgStream = [stype], msgEvent = msgEvent msg, msgPayload = msgPayload msg\<rparr>)
             # deferredSends msg heap ss
         else deferredSends msg heap ss)"

definition postSends :: "string \<Rightarrow> message \<Rightarrow> streams \<Rightarrow> (nat \<times> message) list" where
  "postSends acc msg sm = deferredSends msg (smHeap sm) (smMap sm acc)"

text \<open>\<open>order\<close> is the order in which Go ranges over the map of accounts.\<close>

definition coversStreams :: "string list \<Rightarrow> streams \<Rightarrow> bool" where
  "coversStreams order sm =
     (distinct order \<and>
      list_all (\<lambda>s. s \<in> set (smMap sm (strOwner (smHeap sm ! s))) \<longrightarrow> strOwner (smHeap sm ! s) \<in> set order)
        [0..<length (smHeap sm)])"

definition postAllSends :: "string list \<Rightarrow> message \<Rightarrow> streams \<Rightarrow> (nat \<times> message) list" where
  "postAllSends order msg sm = concat (map (\<lambda>acc. postSends acc msg sm) order)"

subsection \<open>Goroutines\<close>

text \<open>
  A call of \<open>Post\<close> or \<open>PostAll\<close> that is executing its deferred sends, or has returned \<open>poOK\<close> when
  none is left; a call of \<open>cas\<close>, between its load and its swap when \<open>caNew\<close> is there.
\<close>

record posting =
  poNumber :: nat
  poTodo :: "(nat \<times> message) list"
  poOK :: bool

record swapping =
  caStream :: nat
  caOp :: sub_op
  caNew :: "((nat \<times> string set) option \<times> string set) option"

record world =
  wStreams :: streams
  wPosts :: "posting list"
  wSwaps :: "swapping list"
  wClosing :: "nat list"
  wLog :: "(string option \<times> message \<times> nat list) list"
  wReceived :: "(nat \<times> nat \<times> message) list"
  wDropped :: "(nat \<times> nat) list"
  wApplied :: "(nat \<times> sub_op) list"

datatype send_outcome = SendClosed | SendCancelled | SendPosted

datatype stream_event =
    EvOpen string "string list"
  | EvChange nat sub_op
  | EvLoad nat
  | EvSwap nat
  | EvPost string message
  | EvPostAll "string list" message
  | EvSend nat send_outcome
  | EvRecv nat
  | EvDone nat
  | EvUnlink nat

definition updStream :: "nat \<Rightarrow> (stream \<Rightarrow> stream) \<Rightarrow> streams \<Rightarrow> streams" where
  "updStream s f sm = sm\<lparr>smHeap := (smHeap sm)[s := f (smHeap sm ! s)]\<rparr>"

definition startPost :: "string option \<Rightarrow> message \<Rightarrow> (nat \<times> message) list \<Rightarrow> world \<Rightarrow> world" where
  "startPost target msg todo w =
     w\<lparr>wPosts := wPosts w @ [\<lparr>poNumber = length (wLog w), poTodo = todo, poOK = False\<rparr>],
       wLog := wLog w @ [(target, msg, map fst todo)]\<rparr>"

text \<open>
  The first action of a round of \<open>cas\<close>: the load, the clone and the modifier. A modifier that
  returns \<open>false\<close> ends the call.
\<close>

definition casLoad :: "nat \<Rightarrow> swapping \<Rightarrow> world \<Rightarrow> world" where
  "casLoad i c w =
     (let ptr = strTypes (smHeap (wStreams w) ! caStream c)
      in case modifier (caOp c) (typesOf ptr) of
           None \<Rightarrow> w\<lparr>wSwaps := take i (wSwaps w) @ drop (Suc i) (wSwaps w),
                      wApplied := wApplied w @ [(caStream c, caOp c)]\<rparr>
         | Some m \<Rightarrow> w\<lparr>wSwaps := (wSwaps w)[i := c\<lparr>caNew := Some (ptr, m)\<rparr>]\<rparr>)"

text \<open>\<open>CompareAndSwap\<close>: the numbers of the two pointers are compared. A failure is another round.\<close>

definition samePtr :: "(nat \<times> string set) option \<Rightarrow> (nat \<times> string set) option \<Rightarrow> bool" where
  "samePtr p q \<longleftrightarrow> map_option fst p = map_option fst q"

definition casSwap :: "nat \<Rightarrow> swapping \<Rightarrow> (nat \<times> string set) option \<Rightarrow> string set \<Rightarrow> world \<Rightarrow> world" where
  "casSwap i c old m w =
     (let sm = wStreams w; s = caStream c
      in if samePtr (strTypes (smHeap sm ! s)) old then
           w\<lparr>wStreams := (updStream s (\<lambda>str. str\<lparr>strTypes := Some (smNextPtr sm, m)\<rparr>) sm)
                            \<lparr>smNextPtr := Suc (smNextPtr sm)\<rparr>,
             wSwaps := take i (wSwaps w) @ drop (Suc i) (wSwaps w),
             wApplied := wApplied w @ [(s, caOp c)]\<rparr>
         else w\<lparr>wSwaps := (wSwaps w)[i := c\<lparr>caNew := None\<rparr>]\<rparr>)"

text \<open>The capacity of a stream's channel.\<close>

definition chanCap :: nat where
  "chanCap = 50"

text \<open>
  \<open>send\<close>: the \<open>select\<close> takes any case that is ready; the context may be cancelled at any time.
  The message is handed over or the send gives up; then \<open>ok = ok && v\<close>.
\<close>

definition sendReady :: "send_outcome \<Rightarrow> stream \<Rightarrow> bool" where
  "sendReady out str =
     (case out of
        SendClosed \<Rightarrow> strDone str
      | SendCancelled \<Rightarrow> True
      | SendPosted \<Rightarrow> length (strCh str) < chanCap)"

definition sendOne :: "nat \<Rightarrow> posting \<Rightarrow> send_outcome \<Rightarrow> nat \<times> message \<Rightarrow> (nat \<times> message) list \<Rightarrow> world \<Rightarrow> world" where
  "sendOne i p out sm_msg rest w =
     (let (s, m) = sm_msg;
          w' = w\<lparr>wPosts := (wPosts w)[i := p\<lparr>poTodo := rest, poOK := (poOK p \<and> out = SendPosted)\<rparr>]\<rparr>
      in if out = SendPosted then
           w'\<lparr>wStreams := updStream s (\<lambda>str. str\<lparr>strCh := strCh str @ [(poNumber p, m)]\<rparr>) (wStreams w)\<rparr>
         else w'\<lparr>wDropped := wDropped w @ [(s, poNumber p)]\<rparr>)"

definition closeDone :: "nat \<Rightarrow> world \<Rightarrow> world" where
  "closeDone s w =
     w\<lparr>wStreams := updStream s (\<lambda>str. str\<lparr>strDone := True\<rparr>) (wStreams w), wClosing := s # wClosing w\<rparr>"

definition closeUnlink :: "nat \<Rightarrow> world \<Rightarrow> world" where
  "closeUnlink s w =
     (let sm = wStreams w; acc = strOwner (smHeap sm ! s)
      in w\<lparr>wStreams := sm\<lparr>smMap := (smMap sm)(acc := filter (\<lambda>x. x \<noteq> s) (smMap sm acc))\<rparr>,
           wClosing := filter (\<lambda>x. x \<noteq> s) (wClosing w)\<rparr>)"

text \<open>\<open>None\<close> is an action that is not possible in the state.\<close>

fun sstep :: "stream_event \<Rightarrow> world \<Rightarrow> world option" where
  "sstep (EvOpen acc types) w =
     (case openStream acc types (wStreams w) of
        None \<Rightarrow> None
      | Some (s, sm) \<Rightarrow>
          Some (w\<lparr>wStreams := sm, wApplied := wApplied w @ map (\<lambda>t. (s, Subscribe t)) types\<rparr>))"
| "sstep (EvChange s u) w =
     (if s < length (smHeap (wStreams w)) then
        Some (w\<lparr>wSwaps := wSwaps w @ [\<lparr>caStream = s, caOp = u, caNew = None\<rparr>]\<rparr>)
      else None)"
| "sstep (EvLoad i) w =
     (if i < length (wSwaps w) \<and> caNew (wSwaps w ! i) = None then Some (casLoad i (wSwaps w ! i) w)
      else None)"
| "sstep (EvSwap i) w =
     (if i < length (wSwaps w) then
        (case caNew (wSwaps w ! i) of
           None \<Rightarrow> None
         | Some (old, m) \<Rightarrow> Some (casSwap i (wSwaps w ! i) old m w))
      else None)"
| "sstep (EvPost acc msg) w = Some (startPost (Some acc) msg (postSends acc msg (wStreams w)) w)"
| "sstep (EvPostAll order msg) w =
     (if coversStreams order (wStreams w) then Some (startPost None msg (postAllSends order msg (wStreams w)) w) else None)"
| "sstep (EvSend i out) w =
     (if i < length (wPosts w) then
        (case poTodo (wPosts w ! i) of
           [] \<Rightarrow> None
         | (s, m) # rest \<Rightarrow>
             if sendReady out (smHeap (wStreams w) ! s) then Some (sendOne i (wPosts w ! i) out (s, m) rest w)
             else None)
      else None)"
| "sstep (EvRecv s) w =
     (if s < length (smHeap (wStreams w)) then
        (case strCh (smHeap (wStreams w) ! s) of
           [] \<Rightarrow> None
         | (p, m) # rest \<Rightarrow>
             Some (w\<lparr>wStreams := updStream s (\<lambda>str. str\<lparr>strCh := rest\<rparr>) (wStreams w),
                     wReceived := wReceived w @ [(s, p, m)]\<rparr>))
      else None)"
| "sstep (EvDone s) w =
     (if s < length (smHeap (wStreams w)) \<and> \<not> strDone (smHeap (wStreams w) ! s) then Some (closeDone s w)
      else None)"
| "sstep (EvUnlink s) w = (if s \<in> set (wClosing w) then Some (closeUnlink s w) else None)"

fun srun :: "stream_event list \<Rightarrow> world \<Rightarrow> world option" where
  "srun [] w = Some w"
| "srun (e # es) w = (case sstep e w of None \<Rightarrow> None | Some w' \<Rightarrow> srun es w')"

definition newWorld :: world where
  "newWorld = \<lparr>wStreams = \<lparr>smHeap = [], smMap = (\<lambda>_. []), smNextPtr = 0\<rparr>, wPosts = [], wSwaps = [],
     wClosing = [], wLog = [], wReceived = [], wDropped = [], wApplied = []\<rparr>"

inductive sreach :: "world \<Rightarrow> bool" where
  start: "sreach newWorld"
| step: "sreach w \<Longrightarrow> sstep e w = Some w' \<Longrightarrow> sreach w'"

subsection \<open>Posts of the processor\<close>

text \<open>The payload of the first three is the JSON of their argument; \<open>None\<close> is a failed marshalling.\<close>

definition notifyEvent :: "string \<Rightarrow> string option \<Rightarrow> stream_event option" where
  "notifyEvent acc json = map_option (\<lambda>b. EvPost acc
     \<lparr>msgStream = [''user:notification'', ''user''], msgEvent = ''notification'', msgPayload = b\<rparr>) json"

definition updateEvent :: "string \<Rightarrow> string option \<Rightarrow> string \<Rightarrow> stream_event option" where
  "updateEvent acc json streamType = map_option (\<lambda>b. EvPost acc
     \<lparr>msgStream = [streamType], msgEvent = ''update'', msgPayload = b\<rparr>) json"

definition statusUpdateEvent :: "string \<Rightarrow> string option \<Rightarrow> string \<Rightarrow> stream_event option" where
  "statusUpdateEvent acc json streamType = map_option (\<lambda>b. EvPost acc
     \<lparr>msgStream = [streamType], msgEvent = ''status.update'', msgPayload = b\<rparr>) json"

definition deleteMsg :: "string \<Rightarrow> message" where
  "deleteMsg statusID =
     \<lparr>msgStream = allStatusTimelines, msgEvent = ''delete'', msgPayload = statusID\<rparr>"

definition filtersChangedEvent :: "string \<Rightarrow> stream_event" where
  "filtersChangedEvent acc = EvPost acc
     \<lparr>msgStream = [''user''], msgEvent = ''filters_changed'', msgPayload = []\<rparr>"

subsection \<open>The websocket\<close>

text \<open>
  \<open>Authorize\<close>: the lookups of the token's user ID, the user's account ID and the account.
\<close>

datatype stream_error = StreamUnauthorized | StreamInternal | StreamMoved

definition authorizeStream :: "(string \<Rightarrow> string + string) \<Rightarrow> (string \<Rightarrow> lookup_error + string) \<Rightarrow>
    (string \<Rightarrow> lookup_error + account) \<Rightarrow> string \<Rightarrow> stream_error + account" where
  "authorizeStream loadToken userAccount getAccount token =
     (case loadToken token of
        Inl _ \<Rightarrow> Inl StreamUnauthorized
      | Inr uid \<Rightarrow>
          if uid = [] then Inl StreamUnauthorized
          else
            (case userAccount uid of
               Inl e \<Rightarrow> Inl (if e = LNoEntries then StreamUnauthorized else StreamInternal)
             | Inr accID \<Rightarrow>
                 (case getAccount accID of
                    Inl e \<Rightarrow> Inl (if e = LNoEntries then StreamUnauthorized else StreamInternal)
                  | Inr acc \<Rightarrow> Inr acc)))"

text \<open>The parameters of the request, an absent one being empty.\<close>

record stream_query =
  sqToken :: string
  sqHeader :: string
  sqStream :: string
  sqList :: string
  sqTag :: string

definition requestedType :: "stream_query \<Rightarrow> string" where
  "requestedType q =
     (if sqList q \<noteq> [] then sqStream q @ '':'' @ sqList q
      else if sqTag q \<noteq> [] then sqStream q @ '':'' @ sqTag q
      else sqStream q)"

text \<open>\<open>StreamGETHandler\<close> up to the upgrade; \<open>authed\<close> is the account of the OAuth middleware.\<close>

definition streamGET :: "(string \<Rightarrow> stream_error + account) \<Rightarrow> account option \<Rightarrow> (account \<Rightarrow> bool) \<Rightarrow>
    stream_query \<Rightarrow> streams \<Rightarrow> (stream_error + nat) \<times> streams" where
  "streamGET authorize authed isMoving q sm =
     (let token = (if sqToken q = [] then sqHeader q else sqToken q);
          account = (if token \<noteq> [] then authorize token
                     else case authed of None \<Rightarrow> Inl StreamUnauthorized | Some a \<Rightarrow> Inr a)
      in case account of
           Inl e \<Rightarrow> (Inl e, sm)
         | Inr a \<Rightarrow>
             if isMoving a then (Inl StreamMoved, sm)
             else
               (case openStream (acID a) [requestedType q] sm of
                  None \<Rightarrow> (Inl StreamInternal, sm)
                | Some (s, sm') \<Rightarrow> (Inr s, sm')))"

text \<open>One control message in \<open>readFromWSConn\<close>; \<open>None\<close> is a message that is ignored.\<close>

definition controlOp :: "string \<Rightarrow> string \<Rightarrow> string \<Rightarrow> sub_op option" where
  "controlOp mtype mstream mlist =
     (if mstream \<notin> set allStatusTimelines then None
      else
        (let t = (if mlist \<noteq> [] then mstream @ '':'' @ mlist else mstream)
         in if mtype = ''subscribe'' then Some (Subscribe t)
            else if mtype = ''unsubscribe'' then Some (Unsubscribe t)
            else None))"

text \<open>
  One round of \<open>writeToWSConn\<close>. \<open>recvd\<close> is the message \<open>Recv\<close> returned, if it returned one;
  \<open>pinged\<close> says that the context with the ping timeout has ended. The result is what is written
  to the connection, and whether the loop goes on. A \<open>break\<close> inside the \<open>switch\<close> leaves the
  \<open>switch\<close> only.
\<close>

datatype ws_frame = WsPing | WsJSON message

definition zeroMessage :: message where
  "zeroMessage = \<lparr>msgStream = [], msgEvent = [], msgPayload = []\<rparr>"

definition writeRound :: "message option \<Rightarrow> bool \<Rightarrow> bool \<Rightarrow> ws_frame list \<times> bool" where
  "writeRound recvd pinged writeOK =
     (let msg = (case recvd of None \<Rightarrow> zeroMessage | Some m \<Rightarrow> m)
      in if recvd = None \<and> pinged then ([WsPing, WsJSON msg], writeOK)
         else if recvd = None then ([], False)
         else ([WsJSON msg], writeOK))"

end
