(* ===== verification/StreamSafety.thy ===== *)
theory StreamSafety
  imports Streams
begin

text \<open>
  What the goroutines of \<open>Streams\<close> keep to in every interleaving: each message reaches the streams
  it was posted for and only those, once, and concurrent subscriptions take effect one after
  the other.
\<close>

subsection \<open>Lists that are built from the positions of a list\<close>

lemma nth_upd: "j < length xs \<Longrightarrow> xs[i := x] ! j = (if i = j then x else xs ! j)"
  by auto

definition flat :: "(nat \<Rightarrow> 'a \<Rightarrow> 'b list) \<Rightarrow> 'a list \<Rightarrow> 'b list" where
  "flat f xs = concat (map (\<lambda>(i, x). f i x) (enumerate 0 xs))"

lemma flat_Nil [simp]: "flat f [] = []"
  by (simp add: flat_def)

lemma flat_snoc [simp]: "flat f (xs @ [x]) = flat f xs @ f (length xs) x"
  by (simp add: flat_def enumerate_append_eq)

lemma set_flat: "x \<in> set (flat f xs) \<longleftrightarrow> (\<exists>i < length xs. x \<in> set (f i (xs ! i)))"
  by (force simp: flat_def set_conv_nth[of "enumerate 0 xs"] nth_enumerate_eq)

lemma enumerate_update: "enumerate 0 (xs[i := y]) = (enumerate 0 xs)[i := (i, y)]"
  by (cases "i < length xs") (auto intro!: nth_equalityI simp: nth_enumerate_eq nth_list_update)

lemma mset_concat_update:
  "i < length xs \<Longrightarrow>
    mset (concat (map f (xs[i := y]))) + mset (f (xs ! i)) = mset (concat (map f xs)) + mset (f y)"
proof (induction xs arbitrary: i)
  case (Cons x xs)
  then show ?case by (cases i) (auto simp: ac_simps)
qed simp

lemma flat_update:
  assumes "i < length xs"
  shows "mset (flat f (xs[i := y])) + mset (f i (xs ! i)) = mset (flat f xs) + mset (f i y)"
  using mset_concat_update[of i "enumerate 0 xs" "\<lambda>(i, x). f i x" "(i, y)"] assms
  by (simp add: flat_def enumerate_update nth_enumerate_eq)

lemma mset_update_diff:
  assumes "i < length xs"
  shows "mset (map g (flat f (xs[i := y]))) + mset (map g (f i (xs ! i))) =
    mset (map g (flat f xs)) + mset (map g (f i y))"
  using arg_cong[OF flat_update[OF assms, of f y], of "image_mset g"] by simp

subsection \<open>Where the messages are\<close>

definition pendingMsgs :: "world \<Rightarrow> (nat \<times> nat \<times> message) list" where
  "pendingMsgs w = flat (\<lambda>_ p. map (\<lambda>(s, m). (s, poNumber p, m)) (poTodo p)) (wPosts w)"

definition waitingMsgs :: "world \<Rightarrow> (nat \<times> nat \<times> message) list" where
  "waitingMsgs w = flat (\<lambda>s str. map (\<lambda>(p, m). (s, p, m)) (strCh str)) (smHeap (wStreams w))"

text \<open>Of every message its stream and its post: all that were sent, and all that had to be.\<close>

definition tagOf :: "nat \<times> nat \<times> message \<Rightarrow> nat \<times> nat" where
  "tagOf x = (fst x, fst (snd x))"

definition traffic :: "world \<Rightarrow> (nat \<times> nat) multiset" where
  "traffic w = mset (map tagOf (pendingMsgs w)) + mset (map tagOf (waitingMsgs w)) +
     mset (map tagOf (wReceived w)) + mset (wDropped w)"

definition owed :: "world \<Rightarrow> (nat \<times> nat) multiset" where
  "owed w = mset (flat (\<lambda>p (target, orig, ts). map (\<lambda>s. (s, p)) ts) (wLog w))"

lemmas traffic_defs = traffic_def owed_def pendingMsgs_def waitingMsgs_def

subsection \<open>The invariant\<close>

text \<open>The map holds the streams of each account, each once, and not those that are closed.\<close>

definition mapOK :: "world \<Rightarrow> bool" where
  "mapOK w \<longleftrightarrow>
     (\<forall>acc. distinct (smMap (wStreams w) acc) \<and>
        (\<forall>s \<in> set (smMap (wStreams w) acc).
           s < length (smHeap (wStreams w)) \<and> strOwner (smHeap (wStreams w) ! s) = acc \<and>
           (strDone (smHeap (wStreams w) ! s) \<longrightarrow> s \<in> set (wClosing w)))) \<and>
     (\<forall>s \<in> set (wClosing w). s < length (smHeap (wStreams w)))"

definition msgOK :: "world \<Rightarrow> nat \<times> nat \<times> message \<Rightarrow> bool" where
  "msgOK w = (\<lambda>(s, p, m).
     p < length (wLog w) \<and> s < length (smHeap (wStreams w)) \<and>
     (case wLog w ! p of (target, orig, ts) \<Rightarrow>
        s \<in> set ts \<and> (target = None \<or> target = Some (strOwner (smHeap (wStreams w) ! s))) \<and>
        (\<exists>t \<in> set (msgStream orig). t \<noteq> [] \<and> m = orig\<lparr>msgStream := [t]\<rparr>)))"

definition messagesOK :: "world \<Rightarrow> bool" where
  "messagesOK w \<longleftrightarrow>
     (\<forall>x \<in> set (pendingMsgs w) \<union> set (waitingMsgs w) \<union> set (wReceived w). msgOK w x) \<and>
     (\<forall>(target, orig, ts) \<in> set (wLog w). distinct ts) \<and>
     (\<forall>str \<in> set (smHeap (wStreams w)). length (strCh str) \<le> chanCap) \<and>
     (\<forall>p \<in> set (wPosts w). \<not> poOK p)"

definition applyOp :: "sub_op \<Rightarrow> string set \<Rightarrow> string set" where
  "applyOp u m = (case u of Subscribe t \<Rightarrow> insert t m | Unsubscribe t \<Rightarrow> m - {t})"

text \<open>The changes of a stream that have taken effect, in their order.\<close>

definition appliedTo :: "nat \<Rightarrow> (nat \<times> sub_op) list \<Rightarrow> sub_op list" where
  "appliedTo s us = map snd (filter (\<lambda>u. fst u = s) us)"

definition ptrOK :: "nat \<Rightarrow> (nat \<times> string set) option \<Rightarrow> bool" where
  "ptrOK n ptr \<longleftrightarrow> (case ptr of None \<Rightarrow> True | Some (v, _) \<Rightarrow> v < n)"

definition typesOK :: "world \<Rightarrow> bool" where
  "typesOK w \<longleftrightarrow>
     (\<forall>s < length (smHeap (wStreams w)).
        ptrOK (smNextPtr (wStreams w)) (strTypes (smHeap (wStreams w) ! s)) \<and>
        typesOf (strTypes (smHeap (wStreams w) ! s)) = fold applyOp (appliedTo s (wApplied w)) {}) \<and>
     (\<forall>(s, u) \<in> set (wApplied w). s < length (smHeap (wStreams w))) \<and>
     (\<forall>c \<in> set (wSwaps w). caStream c < length (smHeap (wStreams w)) \<and>
        (\<forall>old m. caNew c = Some (old, m) \<longrightarrow>
           ptrOK (smNextPtr (wStreams w)) old \<and> modifier (caOp c) (typesOf old) = Some m \<and>
           (samePtr (strTypes (smHeap (wStreams w) ! caStream c)) old \<longrightarrow>
              strTypes (smHeap (wStreams w) ! caStream c) = old)))"

subsection \<open>The map of streams\<close>

lemma updStream_simps [simp]:
  "smMap (updStream s f sm) = smMap sm" "smNextPtr (updStream s f sm) = smNextPtr sm"
  "smHeap (updStream s f sm) = (smHeap sm)[s := f (smHeap sm ! s)]"
  by (simp_all add: updStream_def)

lemma openStream_Some:
  assumes "openStream acc types sm = Some (s, sm')"
  obtains ptr n where "s = length (smHeap sm)" "types \<noteq> []"
    "fold casAlone (map Subscribe types) (None, smNextPtr sm) = (ptr, n)"
    "sm' = \<lparr>smHeap = smHeap sm @ [\<lparr>strOwner = acc, strTypes = ptr, strDone = False, strCh = []\<rparr>],
            smMap = (smMap sm)(acc := smMap sm acc @ [s]), smNextPtr = n\<rparr>"
  using assms by (auto simp: openStream_def Let_def split: if_splits prod.splits)

lemma mapOK_step: "sstep e w = Some w' \<Longrightarrow> mapOK w \<Longrightarrow> mapOK w'"
proof (induction e w rule: sstep.induct)
  case (1 acc types w)
  then obtain s sm where o: "openStream acc types (wStreams w) = Some (s, sm)"
    and w': "w' = w\<lparr>wStreams := sm, wApplied := wApplied w @ map (\<lambda>t. (s, Subscribe t)) types\<rparr>"
    by (auto split: option.splits)
  have "length (smHeap (wStreams w)) \<notin> set (smMap (wStreams w) a)" for a
    using 1(2) unfolding mapOK_def by (meson less_irrefl)
  then show ?case
    using o 1(2) by (auto elim!: openStream_Some simp: w' mapOK_def nth_append less_Suc_eq split: if_splits)
next
  case (3 i w)
  then show ?case
    by (auto simp: casLoad_def Let_def mapOK_def split: if_splits option.splits)
next
  case (4 i w)
  then show ?case
    by (auto simp: casSwap_def Let_def mapOK_def nth_upd split: if_splits option.splits)
next
  case (7 i out w)
  then show ?case
    by (auto simp: sendOne_def Let_def mapOK_def nth_upd split: if_splits list.splits)
next
  case (8 s w)
  then show ?case
    by (auto simp: mapOK_def nth_upd split: if_splits list.splits)
next
  case (9 s w)
  then show ?case
    by (auto simp: closeDone_def mapOK_def nth_upd split: if_splits)
next
  case (10 s w)
  then show ?case
    by (auto simp: closeUnlink_def mapOK_def Let_def split: if_splits)
qed (auto simp: mapOK_def startPost_def split: if_splits)

subsection \<open>Sends of a post\<close>

lemma firstIn_in: "firstIn m ts \<noteq> [] \<Longrightarrow> firstIn m ts \<in> set ts \<and> firstIn m ts \<in> m"
  by (induction ts) (auto split: if_splits)

lemma getStreamType_in:
  assumes "getStreamType ts str \<noteq> []"
  shows "getStreamType ts str \<in> set ts" "getStreamType ts str \<in> typesOf (strTypes str)"
  using assms by (auto simp: getStreamType_def typesOf_def firstIn_in split: option.splits prod.splits)

lemma deferredSends_in:
  "(s, m) \<in> set (deferredSends msg heap ss) \<Longrightarrow>
    s \<in> set ss \<and> getStreamType (msgStream msg) (heap ! s) \<noteq> [] \<and>
    m = msg\<lparr>msgStream := [getStreamType (msgStream msg) (heap ! s)]\<rparr>"
  by (induction ss) (auto simp: Let_def split: if_splits)

lemma deferredSends_targets:
  "map fst (deferredSends msg heap ss) = filter (\<lambda>s. getStreamType (msgStream msg) (heap ! s) \<noteq> []) ss"
  by (induction ss) (auto simp: Let_def)

definition postTargets :: "string \<Rightarrow> message \<Rightarrow> streams \<Rightarrow> nat list" where
  "postTargets acc msg sm =
     filter (\<lambda>s. getStreamType (msgStream msg) (smHeap sm ! s) \<noteq> []) (smMap sm acc)"

lemma postSends_targets: "map fst (postSends acc msg sm) = postTargets acc msg sm"
  by (simp add: postSends_def postTargets_def deferredSends_targets)

lemma postAllSends_targets:
  "map fst (postAllSends order msg sm) = concat (map (\<lambda>acc. postTargets acc msg sm) order)"
  by (simp add: postAllSends_def map_concat postSends_targets comp_def)

lemma mapOK_owner: "mapOK w \<Longrightarrow> s \<in> set (smMap (wStreams w) acc) \<Longrightarrow> strOwner (smHeap (wStreams w) ! s) = acc"
  by (auto simp: mapOK_def)

lemma mapOK_bound: "mapOK w \<Longrightarrow> s \<in> set (smMap (wStreams w) acc) \<Longrightarrow> s < length (smHeap (wStreams w))"
  by (auto simp: mapOK_def)

lemma mapOK_distinct: "mapOK w \<Longrightarrow> distinct (smMap (wStreams w) acc)"
  by (auto simp: mapOK_def)

lemma distinct_postTargets: "mapOK w \<Longrightarrow> distinct (postTargets acc msg (wStreams w))"
  by (simp add: postTargets_def mapOK_distinct)

lemma distinct_postAllTargets:
  assumes m: "mapOK w"
  shows "distinct order \<Longrightarrow> distinct (concat (map (\<lambda>acc. postTargets acc msg (wStreams w)) order))"
proof (induction order)
  case (Cons acc order)
  have "x \<notin> set (postTargets acc msg (wStreams w))" if "x \<in> set (postTargets b msg (wStreams w))" "b \<in> set order" for x b
    using that Cons.prems mapOK_owner[OF m] by (auto simp: postTargets_def)
  with Cons show ?case by (auto simp: distinct_postTargets[OF m])
qed simp

subsection \<open>Messages only where they belong\<close>

text \<open>An action that keeps the streams and the posts known so far keeps what is said of a message.\<close>

definition extends :: "world \<Rightarrow> world \<Rightarrow> bool" where
  "extends w w' \<longleftrightarrow>
     (\<exists>ls. wLog w' = wLog w @ ls) \<and> length (smHeap (wStreams w)) \<le> length (smHeap (wStreams w')) \<and>
     (\<forall>s < length (smHeap (wStreams w)). strOwner (smHeap (wStreams w') ! s) = strOwner (smHeap (wStreams w) ! s))"

lemma msgOK_extends: "extends w w' \<Longrightarrow> msgOK w x \<Longrightarrow> msgOK w' x"
  by (auto simp: extends_def msgOK_def nth_append split: prod.splits)

lemma step_extends: "sstep e w = Some w' \<Longrightarrow> extends w w'"
proof (induction e w rule: sstep.induct)
  case (1 acc types w)
  then show ?case
    by (auto simp: extends_def nth_append elim!: openStream_Some split: option.splits)
qed (auto simp: extends_def startPost_def casLoad_def casSwap_def sendOne_def closeDone_def closeUnlink_def
      Let_def nth_upd split: if_splits option.splits list.splits)

lemma pendingMsgs_startPost:
  "pendingMsgs (startPost target msg todo w) =
    pendingMsgs w @ map (\<lambda>(s, m). (s, length (wLog w), m)) todo"
  by (simp add: pendingMsgs_def startPost_def)

lemma pendingMsgs_cong: "wPosts w = wPosts w' \<Longrightarrow> pendingMsgs w = pendingMsgs w'"
  by (simp add: pendingMsgs_def)

lemma waitingMsgs_cong: "map strCh (smHeap (wStreams w)) = map strCh (smHeap (wStreams w')) \<Longrightarrow> waitingMsgs w = waitingMsgs w'"
proof -
  assume a: "map strCh (smHeap (wStreams w)) = map strCh (smHeap (wStreams w'))"
  have "flat (\<lambda>s str. map (\<lambda>(p, m). (s, p, m)) (strCh str)) h = flat (\<lambda>s ch. map (\<lambda>(p, m). (s, p, m)) ch) (map strCh h)" for h
    by (induction h rule: rev_induct) simp_all
  from this[of "smHeap (wStreams w)"] this[of "smHeap (wStreams w')"] a
  show ?thesis unfolding waitingMsgs_def by (simp only:)
qed

lemma set_pending:
  "(s, n, m) \<in> set (pendingMsgs w) \<longleftrightarrow> (\<exists>p \<in> set (wPosts w). poNumber p = n \<and> (s, m) \<in> set (poTodo p))"
  by (force simp: pendingMsgs_def set_flat set_conv_nth[of "wPosts w"])

lemma set_waiting:
  "(s, p, m) \<in> set (waitingMsgs w) \<longleftrightarrow> s < length (smHeap (wStreams w)) \<and> (p, m) \<in> set (strCh (smHeap (wStreams w) ! s))"
  by (auto simp: waitingMsgs_def set_flat)

text \<open>What an event adds to the messages in the world: those of a new post.\<close>

definition allMsgs :: "world \<Rightarrow> (nat \<times> nat \<times> message) set" where
  "allMsgs w = set (pendingMsgs w) \<union> set (waitingMsgs w) \<union> set (wReceived w)"

definition newMsgs :: "stream_event \<Rightarrow> world \<Rightarrow> (nat \<times> message) list" where
  "newMsgs e w =
     (case e of
        EvPost acc msg \<Rightarrow> postSends acc msg (wStreams w)
      | EvPostAll order msg \<Rightarrow> postAllSends order msg (wStreams w)
      | _ \<Rightarrow> [])"

lemma allMsgs_step:
  assumes "sstep e w = Some w'"
  shows "allMsgs w' \<subseteq> allMsgs w \<union> (\<lambda>(s, m). (s, length (wLog w), m)) ` set (newMsgs e w)"
  using assms
proof (induction e w rule: sstep.induct)
  case (1 acc types w)
  then show ?case
    by (auto simp: allMsgs_def newMsgs_def set_pending set_waiting nth_append elim!: openStream_Some
        split: option.splits if_splits)
next
  case (7 i out w)
  then obtain s m rest where i: "i < length (wPosts w)" "poTodo (wPosts w ! i) = (s, m) # rest"
    and w': "w' = sendOne i (wPosts w ! i) out (s, m) rest w"
    by (auto split: if_splits list.splits)
  have pend: "set (pendingMsgs w') \<subseteq> set (pendingMsgs w)"
  proof (safe)
    fix a n b
    assume "(a, n, b) \<in> set (pendingMsgs w')"
    then obtain p where p: "p \<in> set (wPosts w')" "poNumber p = n" "(a, b) \<in> set (poTodo p)"
      by (auto simp: set_pending)
    have "wPosts w' = (wPosts w)[i := (wPosts w ! i)\<lparr>poTodo := rest, poOK := poOK (wPosts w ! i) \<and> out = SendPosted\<rparr>]"
      by (simp add: w' sendOne_def Let_def)
    with p(1) have "p \<in> set (wPosts w) \<or>
        p = (wPosts w ! i)\<lparr>poTodo := rest, poOK := poOK (wPosts w ! i) \<and> out = SendPosted\<rparr>"
      using set_update_subset_insert by fastforce
    with p i nth_mem[OF i(1)] show "(a, n, b) \<in> set (pendingMsgs w)"
      unfolding set_pending
      by (elim disjE) (blast, rule bexI[of _ "wPosts w ! i"], auto)
  qed
  have "(s, poNumber (wPosts w ! i), m) \<in> set (pendingMsgs w)"
    using i nth_mem[OF i(1)] unfolding set_pending by (intro bexI[of _ "wPosts w ! i"]) auto
  then have "set (waitingMsgs w') \<subseteq> set (waitingMsgs w) \<union> set (pendingMsgs w)"
    by (auto simp: w' sendOne_def Let_def set_waiting nth_upd split: if_splits)
  moreover have "wReceived w' = wReceived w"
    by (simp add: w' sendOne_def Let_def)
  ultimately show ?case
    using pend by (auto simp: allMsgs_def)
next
  case (8 s w)
  then show ?case
    by (auto simp: allMsgs_def newMsgs_def set_pending set_waiting nth_upd split: if_splits list.splits)
qed (auto simp: allMsgs_def newMsgs_def set_pending set_waiting startPost_def casLoad_def casSwap_def
      closeDone_def closeUnlink_def Let_def nth_upd split: if_splits option.splits)

lemma newMsgs_ok:
  assumes m: "mapOK w" and e: "sstep e w = Some w'" and x: "(s, m) \<in> set (newMsgs e w)"
  shows "msgOK w' (s, length (wLog w), m)"
proof -
  have sends: "s \<in> set (smMap (wStreams w) acc) \<and> getStreamType (msgStream msg) (smHeap (wStreams w) ! s) \<noteq> [] \<and>
      m = msg\<lparr>msgStream := [getStreamType (msgStream msg) (smHeap (wStreams w) ! s)]\<rparr>"
    if "(s, m) \<in> set (postSends acc msg (wStreams w))" for acc msg
    using that unfolding postSends_def by (rule deferredSends_in)
  note facts = sends mapOK_owner[OF m] mapOK_bound[OF m] getStreamType_in(1)
  have log: "wLog w' = wLog w @ [(target, msg, map fst (newMsgs e w))] \<and> wStreams w' = wStreams w"
    if "e = EvPost acc msg \<and> target = Some acc \<or> e = EvPostAll order msg \<and> target = None" for target acc order msg
    using that e by (auto simp: newMsgs_def startPost_def split: if_splits)
  have tgt: "s \<in> set (map fst (newMsgs e w))"
    using x by force
  show ?thesis
  proof (cases e)
    case (EvPost acc msg)
    with x have "(s, m) \<in> set (postSends acc msg (wStreams w))" by (simp add: newMsgs_def)
    from sends[OF this] EvPost tgt log[of acc msg "Some acc"] facts show ?thesis
      by (auto simp: msgOK_def)
  next
    case (EvPostAll order msg)
    with x obtain acc where "(s, m) \<in> set (postSends acc msg (wStreams w))"
      by (auto simp: newMsgs_def postAllSends_def)
    from sends[OF this] EvPostAll tgt log[of "[]" msg None order] facts show ?thesis
      by (auto simp: msgOK_def)
  qed (use x in \<open>simp_all add: newMsgs_def\<close>)
qed

lemma capOK_step:
  assumes "sstep e w = Some w'" and "\<forall>str \<in> set (smHeap (wStreams w)). length (strCh str) \<le> chanCap"
  shows "\<forall>str \<in> set (smHeap (wStreams w')). length (strCh str) \<le> chanCap"
proof -
  have nth: "\<And>h :: stream list. (\<forall>str \<in> set h. length (strCh str) \<le> chanCap) \<longleftrightarrow>
      (\<forall>s < length h. length (strCh (h ! s)) \<le> chanCap)"
    by (simp add: all_set_conv_all_nth)
  show ?thesis
    using assms
  proof (induction e w rule: sstep.induct)
    case (1 acc types w)
    then show ?case by (auto elim!: openStream_Some split: option.splits)
  next
    case (8 s w)
    then show ?case
      unfolding nth by (fastforce simp: nth_upd split: if_splits list.splits)
  qed (auto simp: nth nth_upd startPost_def casLoad_def casSwap_def sendOne_def sendReady_def closeDone_def
       closeUnlink_def Let_def split: if_splits option.splits list.splits)
qed

lemma poOK_step:
  assumes "sstep e w = Some w'" and "\<forall>p \<in> set (wPosts w). \<not> poOK p"
  shows "\<forall>p \<in> set (wPosts w'). \<not> poOK p"
  using assms
proof (induction e w rule: sstep.induct)
  case (7 i out w)
  then show ?case
    by (auto simp: sendOne_def Let_def split: if_splits list.splits dest!: set_update_subset_insert[THEN subsetD])
qed (auto simp: startPost_def casLoad_def casSwap_def closeDone_def closeUnlink_def Let_def
     split: if_splits option.splits list.splits)

lemma startPost_sel [simp]:
  "wStreams (startPost t msg todo w) = wStreams w" "wReceived (startPost t msg todo w) = wReceived w"
  "wDropped (startPost t msg todo w) = wDropped w"
  "wLog (startPost t msg todo w) = wLog w @ [(t, msg, map fst todo)]"
  by (simp_all add: startPost_def)

lemma log_step:
  "sstep e w = Some w' \<Longrightarrow>
    wLog w' = wLog w @ (case e of EvPost acc msg \<Rightarrow> [(Some acc, msg, map fst (newMsgs e w))]
      | EvPostAll order msg \<Rightarrow> [(None, msg, map fst (newMsgs e w))] | _ \<Rightarrow> [])"
  by (cases e)
     (auto simp: newMsgs_def casLoad_def casSwap_def sendOne_def closeDone_def closeUnlink_def Let_def
       split: if_splits option.splits list.splits)

lemma newMsgs_distinct:
  assumes "mapOK w" and "sstep e w = Some w'"
  shows "distinct (map fst (newMsgs e w))"
  using assms
  by (cases e) (auto simp: newMsgs_def postSends_targets postAllSends_targets distinct_postTargets coversStreams_def
    intro!: distinct_postAllTargets split: if_splits)

lemma logOK_step:
  assumes "sstep e w = Some w'" and "mapOK w" and "\<forall>(target, orig, ts) \<in> set (wLog w). distinct ts"
  shows "\<forall>(target, orig, ts) \<in> set (wLog w'). distinct ts"
  using assms(3) newMsgs_distinct[OF assms(2,1)] unfolding log_step[OF assms(1)] by (cases e) auto

lemma messagesOK_step:
  assumes e: "sstep e w = Some w'" and m: "mapOK w" and ok: "messagesOK w"
  shows "messagesOK w'"
proof -
  have "msgOK w' x" if "x \<in> allMsgs w'" for x
  proof -
    from that allMsgs_step[OF e] consider "x \<in> allMsgs w"
      | s m where "x = (s, length (wLog w), m)" "(s, m) \<in> set (newMsgs e w)" by auto
    then show ?thesis
    proof cases
      case 1
      then show ?thesis
        using ok msgOK_extends[OF step_extends[OF e]] by (auto simp: messagesOK_def allMsgs_def)
    next
      case 2
      then show ?thesis using newMsgs_ok[OF m e] by simp
    qed
  qed
  then show ?thesis
    using ok capOK_step[OF e] poOK_step[OF e] logOK_step[OF e m] by (auto simp: messagesOK_def allMsgs_def)
qed

subsection \<open>Every message once\<close>

lemma traffic_startPost:
  assumes "traffic w = owed w"
  shows "traffic (startPost t msg todo w) = owed (startPost t msg todo w)"
proof -
  have "waitingMsgs (startPost t msg todo w) = waitingMsgs w"
    by (rule waitingMsgs_cong) simp
  then have "traffic (startPost t msg todo w) = traffic w + mset (map (\<lambda>x. (fst x, length (wLog w))) todo)"
    by (simp add: traffic_def pendingMsgs_startPost tagOf_def case_prod_unfold comp_def)
  moreover have "owed (startPost t msg todo w) = owed w + mset (map (\<lambda>x. (fst x, length (wLog w))) todo)"
    by (simp add: owed_def comp_def)
  ultimately show ?thesis using assms by simp
qed

lemma pending_sent:
  assumes "i < length (wPosts w)" "poTodo (wPosts w ! i) = (s, m) # rest"
    and "wPosts w' = (wPosts w)[i := (wPosts w ! i)\<lparr>poTodo := rest, poOK := b\<rparr>]"
  shows "mset (map tagOf (pendingMsgs w)) = add_mset (s, poNumber (wPosts w ! i)) (mset (map tagOf (pendingMsgs w')))"
  using mset_update_diff[OF assms(1), of tagOf "\<lambda>_ p. map (\<lambda>(s, m). (s, poNumber p, m)) (poTodo p)"
      "(wPosts w ! i)\<lparr>poTodo := rest, poOK := b\<rparr>"] assms(2,3)
  by (simp add: pendingMsgs_def tagOf_def comp_def case_prod_unfold)

lemma waiting_updated:
  assumes "s < length (smHeap (wStreams w))" and "wStreams w' = updStream s f (wStreams w)"
  shows "mset (map tagOf (waitingMsgs w')) + mset (map (\<lambda>x. (s, fst x)) (strCh (smHeap (wStreams w) ! s))) =
    mset (map tagOf (waitingMsgs w)) + mset (map (\<lambda>x. (s, fst x)) (strCh (f (smHeap (wStreams w) ! s))))"
  using mset_update_diff[OF assms(1), of tagOf "\<lambda>s str. map (\<lambda>(p, m). (s, p, m)) (strCh str)"
      "f (smHeap (wStreams w) ! s)"] assms(2)
  by (simp add: waitingMsgs_def tagOf_def comp_def case_prod_unfold)

lemma map_strCh_upd: "strCh (f (h ! s)) = strCh (h ! s) \<Longrightarrow> map strCh (h[s := f (h ! s)]) = map strCh h"
  by (metis list_update_id map_update)

text \<open>The events that move no message.\<close>

definition quiet :: "stream_event \<Rightarrow> bool" where
  "quiet e = (case e of EvChange _ _ \<Rightarrow> True | EvLoad _ \<Rightarrow> True | EvSwap _ \<Rightarrow> True | EvDone _ \<Rightarrow> True
     | EvUnlink _ \<Rightarrow> True | _ \<Rightarrow> False)"

lemma quiet_step:
  assumes "sstep e w = Some w'" and "quiet e"
  shows "wPosts w' = wPosts w \<and> wReceived w' = wReceived w \<and> wDropped w' = wDropped w \<and> wLog w' = wLog w \<and>
    map strCh (smHeap (wStreams w')) = map strCh (smHeap (wStreams w))"
  using assms
  by (cases e) (auto simp: quiet_def casLoad_def casSwap_def closeDone_def closeUnlink_def Let_def map_strCh_upd
    split: if_splits option.splits)

lemma traffic_quiet:
  assumes "sstep e w = Some w'" and "quiet e" and "traffic w = owed w"
  shows "traffic w' = owed w'"
  using quiet_step[OF assms(1,2)] assms(3) pendingMsgs_cong[of w' w] waitingMsgs_cong[of w' w]
  by (simp add: traffic_def owed_def)

lemma traffic_step:
  assumes "sstep e w = Some w'" and "messagesOK w" "traffic w = owed w"
  shows "traffic w' = owed w'"
  using assms
proof (induction e w rule: sstep.induct)
  case (1 acc types w)
  then show ?case
    by (auto simp: traffic_defs elim!: openStream_Some split: option.splits)
next
  case (7 i out w)
  then obtain s m rest where i: "i < length (wPosts w)" "poTodo (wPosts w ! i) = (s, m) # rest"
    and w': "w' = sendOne i (wPosts w ! i) out (s, m) rest w"
    by (auto split: if_splits list.splits)
  let ?n = "poNumber (wPosts w ! i)"
  have "(s, ?n, m) \<in> set (pendingMsgs w)"
    using i nth_mem[OF i(1)] unfolding set_pending by (intro bexI[of _ "wPosts w ! i"]) auto
  then have s: "s < length (smHeap (wStreams w))"
    using 7(2) by (auto simp: messagesOK_def msgOK_def)
  have "wPosts w' = (wPosts w)[i := (wPosts w ! i)\<lparr>poTodo := rest, poOK := poOK (wPosts w ! i) \<and> out = SendPosted\<rparr>]"
    by (simp add: w' sendOne_def Let_def)
  note p = pending_sent[OF i this]
  show ?case
  proof (cases "out = SendPosted")
    case True
    have "wStreams w' = updStream s (\<lambda>str. str\<lparr>strCh := strCh str @ [(?n, m)]\<rparr>) (wStreams w)"
      by (simp add: w' sendOne_def Let_def True)
    from waiting_updated[OF s this] have "mset (map tagOf (waitingMsgs w')) = add_mset (s, ?n) (mset (map tagOf (waitingMsgs w)))"
      by simp
    with p 7(3) show ?thesis
      by (simp add: traffic_def owed_def w' sendOne_def Let_def True)
  next
    case False
    then have "waitingMsgs w' = waitingMsgs w"
      by (intro waitingMsgs_cong) (simp add: w' sendOne_def Let_def)
    with p 7(3) False show ?thesis
      by (simp add: traffic_def owed_def w' sendOne_def Let_def)
  qed
next
  case (8 s w)
  then obtain n m rest where s: "s < length (smHeap (wStreams w))" "strCh (smHeap (wStreams w) ! s) = (n, m) # rest"
    and w': "w' = w\<lparr>wStreams := updStream s (\<lambda>str. str\<lparr>strCh := rest\<rparr>) (wStreams w), wReceived := wReceived w @ [(s, n, m)]\<rparr>"
    by (auto split: if_splits list.splits)
  have "wStreams w' = updStream s (\<lambda>str. str\<lparr>strCh := rest\<rparr>) (wStreams w)"
    by (simp add: w')
  from waiting_updated[OF s(1) this] s(2)
  have "mset (map tagOf (waitingMsgs w)) = add_mset (s, n) (mset (map tagOf (waitingMsgs w')))"
    by simp
  moreover have "pendingMsgs w' = pendingMsgs w"
    by (rule pendingMsgs_cong) (simp add: w')
  ultimately show ?case
    using 8(3) by (simp add: traffic_def owed_def w' tagOf_def)
next
  case (5 acc msg w)
  then show ?case by (auto intro: traffic_startPost)
next
  case (6 order msg w)
  then show ?case by (auto intro: traffic_startPost split: if_splits)
qed (erule traffic_quiet, simp add: quiet_def, assumption)+

subsection \<open>Concurrent subscriptions\<close>

lemma modifier_applyOp: "modifier u m = Some m' \<Longrightarrow> m' = applyOp u m" "modifier u m = None \<Longrightarrow> applyOp u m = m"
  by (cases u; auto simp: applyOp_def split: if_splits)+

lemma casAlone_types:
  "ptrOK n ptr \<Longrightarrow> fold casAlone us (ptr, n) = (ptr', n') \<Longrightarrow>
    typesOf ptr' = fold applyOp us (typesOf ptr) \<and> ptrOK n' ptr' \<and> n \<le> n'"
proof (induction us arbitrary: ptr n)
  case (Cons u us)
  show ?case
  proof (cases "modifier u (typesOf ptr)")
    case None
    with Cons show ?thesis by (auto simp: casAlone_def modifier_applyOp(2))
  next
    case (Some m)
    with Cons.prems Cons.IH[of "Suc n" "Some (n, m)"] show ?thesis
      by (auto simp: casAlone_def ptrOK_def typesOf_def modifier_applyOp(1)[OF Some])
  qed
qed simp

lemma ptrOK_mono: "ptrOK n ptr \<Longrightarrow> n \<le> n' \<Longrightarrow> ptrOK n' ptr"
  by (auto simp: ptrOK_def split: option.splits)

lemma appliedTo_append [simp]: "appliedTo s (us @ vs) = appliedTo s us @ appliedTo s vs"
  by (simp add: appliedTo_def)

lemma appliedTo_single: "appliedTo s [(s', u)] = (if s = s' then [u] else [])"
  by (simp add: appliedTo_def)

lemma appliedTo_opened: "appliedTo s (map (\<lambda>t. (s', Subscribe t)) ts) = (if s = s' then map Subscribe ts else [])"
  by (induction ts) (auto simp: appliedTo_def)

lemma appliedTo_none: "\<forall>(s', u) \<in> set us. s' < n \<Longrightarrow> appliedTo n us = []"
  by (auto simp: appliedTo_def filter_empty_conv)

definition swapOK :: "streams \<Rightarrow> swapping \<Rightarrow> bool" where
  "swapOK sm c \<longleftrightarrow> caStream c < length (smHeap sm) \<and>
     (\<forall>old m. caNew c = Some (old, m) \<longrightarrow>
        ptrOK (smNextPtr sm) old \<and> modifier (caOp c) (typesOf old) = Some m \<and>
        (samePtr (strTypes (smHeap sm ! caStream c)) old \<longrightarrow> strTypes (smHeap sm ! caStream c) = old))"

definition histOK :: "streams \<Rightarrow> (nat \<times> sub_op) list \<Rightarrow> bool" where
  "histOK sm us \<longleftrightarrow>
     (\<forall>s < length (smHeap sm). ptrOK (smNextPtr sm) (strTypes (smHeap sm ! s)) \<and>
        typesOf (strTypes (smHeap sm ! s)) = fold applyOp (appliedTo s us) {}) \<and>
     (\<forall>(s, u) \<in> set us. s < length (smHeap sm))"

lemma typesOK_alt: "typesOK w \<longleftrightarrow> histOK (wStreams w) (wApplied w) \<and> (\<forall>c \<in> set (wSwaps w). swapOK (wStreams w) c)"
  by (auto simp: typesOK_def swapOK_def histOK_def)

lemma strTypes_kept:
  assumes "map strTypes (smHeap sm') = map strTypes (smHeap sm)" and "smNextPtr sm' = smNextPtr sm"
  shows "histOK sm' us = histOK sm us" "swapOK sm' c = swapOK sm c"
proof -
  have len: "length (smHeap sm') = length (smHeap sm)"
    using assms(1) map_eq_imp_length_eq by blast
  moreover have "s < length (smHeap sm) \<Longrightarrow> strTypes (smHeap sm' ! s) = strTypes (smHeap sm ! s)" for s
    using arg_cong[OF assms(1), of "\<lambda>xs. xs ! s"] len by simp
  ultimately show "histOK sm' us = histOK sm us" "swapOK sm' c = swapOK sm c"
    by (auto simp: histOK_def swapOK_def assms(2))
qed

lemma map_strTypes_upd: "strTypes (f (h ! s)) = strTypes (h ! s) \<Longrightarrow> map strTypes (h[s := f (h ! s)]) = map strTypes h"
  by (metis list_update_id map_update)

lemma typesOK_open:
  assumes o: "openStream acc types sm = Some (s, sm')"
  shows "histOK sm us \<Longrightarrow> histOK sm' (us @ map (\<lambda>t. (s, Subscribe t)) types)" "swapOK sm c \<Longrightarrow> swapOK sm' c"
proof -
  from o obtain ptr n where s: "s = length (smHeap sm)"
    and f: "fold casAlone (map Subscribe types) (None, smNextPtr sm) = (ptr, n)"
    and sm': "sm' = \<lparr>smHeap = smHeap sm @ [\<lparr>strOwner = acc, strTypes = ptr, strDone = False, strCh = []\<rparr>],
            smMap = (smMap sm)(acc := smMap sm acc @ [s]), smNextPtr = n\<rparr>"
    by (auto elim!: openStream_Some)
  have t: "typesOf ptr = fold applyOp (map Subscribe types) {}" "ptrOK n ptr" "smNextPtr sm \<le> n"
    using casAlone_types[OF _ f] by (simp_all add: ptrOK_def typesOf_def)
  show "swapOK sm c \<Longrightarrow> swapOK sm' c"
    using t(3) by (auto simp: swapOK_def sm' nth_append intro: ptrOK_mono)
  assume h: "histOK sm us"
  then have "\<forall>(s', u) \<in> set us. s' < s"
    by (auto simp: histOK_def s)
  from appliedTo_none[OF this] have none: "appliedTo s us = []" .
  show "histOK sm' (us @ map (\<lambda>t. (s, Subscribe t)) types)"
    using h t none ptrOK_mono[OF _ t(3)]
    by (auto simp: histOK_def sm' nth_append appliedTo_opened less_Suc_eq s[symmetric])
qed

lemma typesOK_load:
  assumes ok: "typesOK w" and i: "i < length (wSwaps w)"
  shows "typesOK (casLoad i (wSwaps w ! i) w)"
proof -
  let ?c = "wSwaps w ! i" and ?sm = "wStreams w"
  let ?ptr = "strTypes (smHeap ?sm ! caStream ?c)"
  have c: "swapOK ?sm ?c" and h: "histOK ?sm (wApplied w)" and cs: "\<forall>c \<in> set (wSwaps w). swapOK ?sm c"
    using ok i by (simp_all add: typesOK_alt)
  show ?thesis
  proof (cases "modifier (caOp ?c) (typesOf ?ptr)")
    case None
    have "histOK ?sm (wApplied w @ [(caStream ?c, caOp ?c)])"
      using h c modifier_applyOp(2)[OF None] by (auto simp: histOK_def swapOK_def appliedTo_single)
    with cs None show ?thesis
      by (auto simp: typesOK_alt casLoad_def Let_def dest: in_set_takeD in_set_dropD)
  next
    case (Some m)
    have "swapOK ?sm (?c\<lparr>caNew := Some (?ptr, m)\<rparr>)"
      using c h Some by (auto simp: swapOK_def histOK_def)
    with cs h Some show ?thesis
      by (auto simp: typesOK_alt casLoad_def Let_def dest!: set_update_subset_insert[THEN subsetD])
  qed
qed

lemma typesOK_swap:
  assumes ok: "typesOK w" and i: "i < length (wSwaps w)" and new: "caNew (wSwaps w ! i) = Some (old, m)"
  shows "typesOK (casSwap i (wSwaps w ! i) old m w)"
proof -
  let ?c = "wSwaps w ! i" and ?sm = "wStreams w"
  let ?s = "caStream ?c"
  have c: "swapOK ?sm ?c" and h: "histOK ?sm (wApplied w)" and cs: "\<forall>c \<in> set (wSwaps w). swapOK ?sm c"
    using ok i by (simp_all add: typesOK_alt)
  show ?thesis
  proof (cases "samePtr (strTypes (smHeap ?sm ! ?s)) old")
    case True
    with c new have old: "strTypes (smHeap ?sm ! ?s) = old" and m: "m = applyOp (caOp ?c) (typesOf old)"
      and s: "?s < length (smHeap ?sm)"
      by (auto simp: swapOK_def dest: modifier_applyOp(1))
    let ?sm' = "(updStream ?s (\<lambda>str. str\<lparr>strTypes := Some (smNextPtr ?sm, m)\<rparr>) ?sm)\<lparr>smNextPtr := Suc (smNextPtr ?sm)\<rparr>"
    have mono: "ptrOK (smNextPtr ?sm) ptr \<Longrightarrow> ptrOK (Suc (smNextPtr ?sm)) ptr" for ptr
      by (erule ptrOK_mono) simp
    have fresh: "samePtr (Some (smNextPtr ?sm, m)) old' \<Longrightarrow> \<not> ptrOK (smNextPtr ?sm) old'" for old'
      by (cases old') (auto simp: samePtr_def ptrOK_def)
    have "swapOK ?sm' d" if "swapOK ?sm d" for d
      using that mono fresh by (auto simp: swapOK_def nth_upd)
    moreover have "histOK ?sm' (wApplied w @ [(?s, caOp ?c)])"
      using h m old s mono by (auto simp: histOK_def nth_upd appliedTo_single ptrOK_def typesOf_def)
    ultimately show ?thesis
      using cs True by (auto simp: typesOK_alt casSwap_def Let_def dest: in_set_takeD in_set_dropD)
  next
    case False
    have "swapOK ?sm (?c\<lparr>caNew := None\<rparr>)"
      using c by (auto simp: swapOK_def)
    with cs h False show ?thesis
      by (auto simp: typesOK_alt casSwap_def Let_def dest!: set_update_subset_insert[THEN subsetD])
  qed
qed

lemma typesOK_kept:
  assumes "typesOK w" and "map strTypes (smHeap (wStreams w')) = map strTypes (smHeap (wStreams w))"
    and "smNextPtr (wStreams w') = smNextPtr (wStreams w)" "wSwaps w' = wSwaps w" "wApplied w' = wApplied w"
  shows "typesOK w'"
  using assms strTypes_kept[OF assms(2,3)] by (simp add: typesOK_alt)

lemma typesOK_step:
  assumes "sstep e w = Some w'" and "typesOK w"
  shows "typesOK w'"
  using assms
proof (induction e w rule: sstep.induct)
  case (1 acc types w)
  then show ?case
    by (auto simp: typesOK_alt typesOK_open split: option.splits)
next
  case (2 s u w)
  then show ?case by (auto simp: typesOK_alt swapOK_def split: if_splits)
next
  case (3 i w)
  then show ?case by (auto simp: typesOK_load split: if_splits)
next
  case (4 i w)
  then show ?case by (auto simp: typesOK_swap split: if_splits option.splits)
next
  case (7 i out w)
  show ?case
    by (rule typesOK_kept[OF 7(2)]; insert 7(1))
       (auto simp: sendOne_def Let_def map_strTypes_upd split: if_splits list.splits)
next
  case (8 s w)
  show ?case
    by (rule typesOK_kept[OF 8(2)]; insert 8(1)) (auto simp: map_strTypes_upd split: if_splits list.splits)
next
  case (5 acc msg w)
  then show ?case by (auto simp: typesOK_alt startPost_def)
next
  case (6 order msg w)
  then show ?case by (auto simp: typesOK_alt startPost_def split: if_splits)
next
  case (9 s w)
  show ?case
    by (rule typesOK_kept[OF 9(2)]; insert 9(1)) (auto simp: closeDone_def map_strTypes_upd split: if_splits)
next
  case (10 s w)
  show ?case
    by (rule typesOK_kept[OF 10(2)]; insert 10(1)) (auto simp: closeUnlink_def Let_def split: if_splits)
qed

lemma newWorld_ok: "mapOK newWorld" "messagesOK newWorld" "typesOK newWorld" "traffic newWorld = owed newWorld"
  by (simp_all add: newWorld_def mapOK_def messagesOK_def typesOK_def traffic_defs)

lemma sreach_ok: "sreach w \<Longrightarrow> mapOK w \<and> messagesOK w \<and> typesOK w \<and> traffic w = owed w"
  by (induction rule: sreach.induct)
     (simp_all add: newWorld_ok, blast intro: mapOK_step messagesOK_step typesOK_step traffic_step)

lemma srun_reach: "sreach w \<Longrightarrow> srun es w = Some w' \<Longrightarrow> sreach w'"
  by (induction es arbitrary: w) (auto split: option.splits intro: sreach.step)

subsection \<open>Deliveries\<close>

lemma count_map_Pair: "count_list (map (\<lambda>s. (s, i)) ts) (s, p) = (if i = p then count_list ts s else 0)"
  by (induction ts) auto

lemma count_owed:
  assumes "p < length (wLog w)"
  shows "count (owed w) (s, p) = count_list (snd (snd (wLog w ! p))) s"
proof -
  have "count_list (flat (\<lambda>p (target, orig, ts). map (\<lambda>s. (s, p)) ts) l) (s, p) =
      (if p < length l then count_list (snd (snd (l ! p))) s else 0)"
    for l :: "(string option \<times> message \<times> nat list) list"
    by (induction l rule: rev_induct) (auto simp: count_map_Pair nth_append less_Suc_eq split: prod.splits)
  from this[of "wLog w"] assms show ?thesis
    by (simp add: owed_def count_mset)
qed

lemma count_list_distinct: "distinct xs \<Longrightarrow> count_list xs x = (if x \<in> set xs then 1 else 0)"
  by (induction xs) auto

text \<open>
  C25. In every interleaving of opens, posts, sends, receives, closes and subscriptions, a
  message that was posted for an account (or for all, when \<open>target\<close> is \<open>None\<close>) is, for each stream
  it was meant for, in exactly one place: still to be sent, waiting in the channel, received, or
  given up because the stream closed or the context ended; and it is nowhere else. What a stream
  holds is the posted message with one of its stream types, the stream belongs to the account it
  was posted for, and no channel holds more than its capacity.
\<close>

theorem stream_deliveries:
  assumes "sreach w" and "p < length (wLog w)" and "wLog w ! p = (target, orig, ts)"
  shows "(\<forall>s. count (traffic w) (s, p) = (if s \<in> set ts then 1 else 0)) \<and>
    (\<forall>s m. (s, p, m) \<in> allMsgs w \<longrightarrow>
       s \<in> set ts \<and> (target = None \<or> target = Some (strOwner (smHeap (wStreams w) ! s))) \<and>
       (\<exists>t \<in> set (msgStream orig). m = orig\<lparr>msgStream := [t]\<rparr>)) \<and>
    (\<forall>str \<in> set (smHeap (wStreams w)). length (strCh str) \<le> 50)"
proof -
  note ok = sreach_ok[OF assms(1)]
  from ok have m: "messagesOK w" and t: "traffic w = owed w" by auto
  from m assms(2,3) have "distinct ts"
    unfolding messagesOK_def using nth_mem[OF assms(2)] by fastforce
  with t count_owed[OF assms(2)] assms(3)
  have "\<forall>s. count (traffic w) (s, p) = (if s \<in> set ts then 1 else 0)"
    by (simp add: count_list_distinct)
  moreover have "s \<in> set ts \<and> (target = None \<or> target = Some (strOwner (smHeap (wStreams w) ! s))) \<and>
      (\<exists>t \<in> set (msgStream orig). m = orig\<lparr>msgStream := [t]\<rparr>)" if "(s, p, m) \<in> allMsgs w" for s m
  proof -
    have "msgOK w (s, p, m)" using m that by (simp add: messagesOK_def allMsgs_def)
    then show ?thesis using assms(3) by (auto simp: msgOK_def)
  qed
  moreover have "\<forall>str \<in> set (smHeap (wStreams w)). length (strCh str) \<le> 50"
    using m by (simp add: messagesOK_def chanCap_def)
  ultimately show ?thesis by blast
qed

definition demoMsg :: message where
  "demoMsg = \<lparr>msgStream = [''user:notification'', ''user''], msgEvent = ''notification'', msgPayload = ''{}''\<rparr>"

definition demoEvents :: "stream_event list" where
  "demoEvents = [EvOpen ''A'' [''user''], EvOpen ''B'' [''user''], EvOpen ''A'' [''public''],
     EvPost ''A'' demoMsg, EvChange 0 (Subscribe ''direct''), EvChange 0 (Unsubscribe ''user''),
     EvLoad 0, EvLoad 1, EvSwap 1, EvSwap 0, EvLoad 0, EvSwap 0, EvSend 0 SendPosted]"

definition demoWorld :: world where
  "demoWorld = the (srun demoEvents newWorld)"

lemma demoWorld_reach: "sreach demoWorld"
proof -
  have "\<not> Option.is_none (srun demoEvents newWorld)" by code_simp
  then obtain w where "srun demoEvents newWorld = Some w"
    by (auto simp: Option.is_none_def)
  then show ?thesis
    using srun_reach[OF sreach.start, of demoEvents w] by (simp add: demoWorld_def)
qed

theorem stream_deliveries_witness:
  "(\<forall>s. count (traffic demoWorld) (s, 0) = (if s \<in> set [0] then 1 else 0)) \<and>
   (\<exists>m. (0, 0, m) \<in> allMsgs demoWorld)"
proof -
  have "0 < length (wLog demoWorld)" "wLog demoWorld ! 0 = (Some ''A'', demoMsg, [0])"
    by code_simp+
  from stream_deliveries[OF demoWorld_reach this]
  have "\<forall>s. count (traffic demoWorld) (s, 0) = (if s \<in> set [0] then 1 else 0)" by blast
  moreover have "list_ex (\<lambda>(s, p, m). s = 0 \<and> p = 0) (waitingMsgs demoWorld)"
    by code_simp
  ultimately show ?thesis
    by (auto simp: allMsgs_def list_ex_iff)
qed

subsection \<open>Changes of subscriptions\<close>

text \<open>The calls of \<open>cas\<close> so far, done and in progress, and those that an event starts.\<close>

definition callsOf :: "world \<Rightarrow> (nat \<times> sub_op) multiset" where
  "callsOf w = mset (wApplied w) + mset (map (\<lambda>c. (caStream c, caOp c)) (wSwaps w))"

definition startedBy :: "stream_event \<Rightarrow> world \<Rightarrow> (nat \<times> sub_op) list" where
  "startedBy e w =
     (case e of
        EvOpen acc types \<Rightarrow> map (\<lambda>t. (length (smHeap (wStreams w)), Subscribe t)) types
      | EvChange s u \<Rightarrow> [(s, u)]
      | _ \<Rightarrow> [])"

lemma mset_remove_nth: "i < length xs \<Longrightarrow> mset xs = add_mset (xs ! i) (mset (take i xs @ drop (Suc i) xs))"
  by (subst id_take_nth_drop[of i xs]) simp_all

lemma mset_map_remove:
  "i < length xs \<Longrightarrow> image_mset f (mset xs) = add_mset (f (xs ! i)) (image_mset f (mset (take i xs @ drop (Suc i) xs)))"
  by (simp only: mset_remove_nth[of i xs] image_mset_add_mset)

lemma map_upd_same: "f y = f (xs ! i) \<Longrightarrow> map f (xs[i := y]) = map f xs"
  by (metis list_update_id map_update)

lemma calls_step:
  assumes "sstep e w = Some w'"
  shows "callsOf w' = callsOf w + mset (startedBy e w)"
  using assms
proof (induction e w rule: sstep.induct)
  case (1 acc types w)
  then show ?case
    by (auto simp: callsOf_def startedBy_def elim!: openStream_Some split: option.splits)
next
  case (3 i w)
  then show ?case
    using mset_map_remove[of i "wSwaps w" "\<lambda>c. (caStream c, caOp c)"]
    by (auto simp: callsOf_def startedBy_def casLoad_def Let_def map_upd_same split: if_splits option.splits
        simp flip: mset_map)
next
  case (4 i w)
  then show ?case
    using mset_map_remove[of i "wSwaps w" "\<lambda>c. (caStream c, caOp c)"]
    by (auto simp: callsOf_def startedBy_def casSwap_def Let_def map_upd_same split: if_splits option.splits
        simp flip: mset_map)
qed (auto simp: callsOf_def startedBy_def startPost_def sendOne_def closeDone_def closeUnlink_def Let_def
     split: if_splits list.splits)

lemma applied_step: "sstep e w = Some w' \<Longrightarrow> \<exists>us. wApplied w' = wApplied w @ us"
  by (cases e) (auto simp: startPost_def casLoad_def casSwap_def sendOne_def closeDone_def closeUnlink_def Let_def
     split: if_splits option.splits list.splits)

text \<open>
  Concurrent changes of a stream's subscriptions are linearizable: in every reachable
  state its types are the changes that have taken effect, applied one after the other to no types
  at all. A step only appends to these changes, and every call of \<open>Subscribe\<close> or \<open>Unsubscribe\<close> is
  either still in progress or has taken effect exactly once.
\<close>

theorem subscriptions_linearizable:
  assumes "sreach w" and "s < length (smHeap (wStreams w))" and "sstep e w = Some w'"
  shows "typesOf (strTypes (smHeap (wStreams w) ! s)) = fold applyOp (appliedTo s (wApplied w)) {} \<and>
    (\<exists>us. wApplied w' = wApplied w @ us) \<and> callsOf w' = callsOf w + mset (startedBy e w)"
  using sreach_ok[OF assms(1)] assms(2) applied_step[OF assms(3)] calls_step[OF assms(3)]
  by (auto simp: typesOK_def)

theorem subscriptions_linearizable_witness:
  "typesOf (strTypes (smHeap (wStreams demoWorld) ! 0)) =
     fold applyOp [Subscribe ''user'', Unsubscribe ''user'', Subscribe ''direct''] {}"
proof -
  have "0 < length (smHeap (wStreams demoWorld))" by code_simp
  from subscriptions_linearizable[OF demoWorld_reach this, of "EvPost [] demoMsg"]
  have "typesOf (strTypes (smHeap (wStreams demoWorld) ! 0)) = fold applyOp (appliedTo 0 (wApplied demoWorld)) {}"
    by simp
  moreover have "appliedTo 0 (wApplied demoWorld) = [Subscribe ''user'', Unsubscribe ''user'', Subscribe ''direct'']"
    by code_simp
  ultimately show ?thesis by simp
qed

subsection \<open>What a post returns, and which streams it misses\<close>

text \<open>A stream that has been closed is no target of later posts.\<close>

lemma closed_not_targeted:
  assumes "sreach w" and "strDone (smHeap (wStreams w) ! s)" and "s \<notin> set (wClosing w)"
  shows "s \<notin> set (postTargets acc msg (wStreams w))"
  using sreach_ok[OF assms(1)] assms(2,3) by (auto simp: mapOK_def postTargets_def)

text \<open>\<open>Post\<close> and \<open>PostAll\<close> report a failure whatever became of their sends.\<close>

lemma post_never_ok: "sreach w \<Longrightarrow> \<forall>p \<in> set (wPosts w). \<not> poOK p"
  using sreach_ok by (auto simp: messagesOK_def)

text \<open>A stream of one list subscribes to the list's own type, which deletions do not name.\<close>

lemma list_stream_misses_deletions:
  assumes "typesOf (strTypes str) = {''list:'' @ i}"
  shows "getStreamType (msgStream (deleteMsg statusID)) str = []"
  using assms by (auto simp: getStreamType_def deleteMsg_def allStatusTimelines_def typesOf_def split: option.splits)

text \<open>A keep-alive ping is followed by a message without type, event and payload.\<close>

lemma ping_writes_empty_message:
  "writeRound None True ok = ([WsPing, WsJSON \<lparr>msgStream = [], msgEvent = [], msgPayload = []\<rparr>], ok)"
  by (simp add: writeRound_def zeroMessage_def)

lemma notifications_not_subscribable: "controlOp mtype ''user:notification'' l = None"
  by (simp add: controlOp_def allStatusTimelines_def)

end
