(* ===== verification/Polls.thy ===== *)
theory Polls
  imports Relationships
begin

text \<open>
  Polls and their votes: the rows and counters of \<open>src/internal/gtsmodel/poll.go\<close>, every
  operation of \<open>src/internal/db/bundb/poll.go\<close>, the two caches and the list of vote IDs in front
  of the tables (\<open>src/internal/cache/db.go\<close>), and the hooks \<open>OnInvalidatePoll\<close> and
  \<open>OnInvalidatePollVote\<close> of \<open>src/internal/cache/invalidate.go\<close>, which call each other.

  A statement in a transaction may fail like any other query, and so may the beginning and
  the commit; the tables are then as they were. Of the statuses only the IDs of those that
  belong to a poll and the column \<open>updated_at\<close> are here.
\<close>

subsection \<open>Rows and counters\<close>

record poll =
  plID :: string
  plMultiple :: bool
  plHideCounts :: bool
  plOptions :: "string list"
  plVotes :: "int list option"
  plVoters :: "int option"
  plStatusID :: string
  plExpiresAt :: time
  plClosedAt :: time
  plClosing :: bool

record poll_vote =
  pvID :: string
  pvChoices :: "int list"
  pvAccountID :: string
  pvPollID :: string
  pvCreatedAt :: time

text \<open>\<open>strings.EqualFold\<close> is the argument \<open>eqFold\<close>.\<close>

fun choiceFrom :: "(string \<Rightarrow> string \<Rightarrow> bool) \<Rightarrow> string \<Rightarrow> int \<Rightarrow> string list \<Rightarrow> int" where
  "choiceFrom eqFold name i [] = -1"
| "choiceFrom eqFold name i (opt # opts) = (if eqFold opt name then i else choiceFrom eqFold name (i + 1) opts)"

definition getChoice :: "(string \<Rightarrow> string \<Rightarrow> bool) \<Rightarrow> string \<Rightarrow> poll \<Rightarrow> int" where
  "getChoice eqFold name p = choiceFrom eqFold name 0 (plOptions p)"

definition pollExpired :: "time \<Rightarrow> poll \<Rightarrow> bool" where
  "pollExpired now p = (plExpiresAt p \<noteq> 0 \<and> plExpiresAt p < now)"

definition pollClosed :: "time \<Rightarrow> poll \<Rightarrow> bool" where
  "pollClosed now p = (plClosedAt p \<noteq> 0 \<and> plClosedAt p < now)"

definition zeroVotes :: "poll \<Rightarrow> int list" where
  "zeroVotes p = replicate (length (plOptions p)) 0"

definition checkVotes :: "poll \<Rightarrow> poll" where
  "checkVotes p =
     (let p1 = (if plVotes p = None then p\<lparr>plVotes := Some (zeroVotes p)\<rparr> else p)
      in if plVoters p1 = None then p1\<lparr>plVoters := Some 0\<rparr> else p1)"

definition resetVotes :: "poll \<Rightarrow> poll" where
  "resetVotes p = p\<lparr>plVotes := Some (zeroVotes p), plVoters := Some 0\<rparr>"

text \<open>The loops over the choices; \<open>None\<close> is the panic of an index that is out of range.\<close>

definition inRange :: "int \<Rightarrow> int list \<Rightarrow> bool" where
  "inRange c vs \<longleftrightarrow> 0 \<le> c \<and> c < int (length vs)"

fun addChoices :: "int list \<Rightarrow> int list \<Rightarrow> int list option" where
  "addChoices [] vs = Some vs"
| "addChoices (c # cs) vs =
     (if inRange c vs then addChoices cs (vs[nat c := vs ! nat c + 1]) else None)"

fun subChoices :: "int list \<Rightarrow> int list \<Rightarrow> int list option" where
  "subChoices [] vs = Some vs"
| "subChoices (c # cs) vs =
     (if inRange c vs then
        subChoices cs (if vs ! nat c \<noteq> 0 then vs[nat c := vs ! nat c - 1] else vs)
      else None)"

definition incrementVotes :: "int list \<Rightarrow> poll \<Rightarrow> poll option" where
  "incrementVotes choices p =
     (if choices = [] then Some p
      else
        (let p = checkVotes p
         in case addChoices choices (the (plVotes p)) of
              None \<Rightarrow> None
            | Some vs \<Rightarrow> Some (p\<lparr>plVotes := Some vs, plVoters := Some (the (plVoters p) + 1)\<rparr>)))"

definition decrementVotes :: "int list \<Rightarrow> poll \<Rightarrow> poll option" where
  "decrementVotes choices p =
     (if choices = [] then Some p
      else
        (let p = checkVotes p; n = the (plVoters p)
         in case subChoices choices (the (plVotes p)) of
              None \<Rightarrow> None
            | Some vs \<Rightarrow> Some (p\<lparr>plVotes := Some vs, plVoters := Some (if n \<noteq> 0 then n - 1 else n)\<rparr>)))"

subsection \<open>Tables, caches, hooks\<close>

definition pollIxs :: "poll sindex list" where
  "pollIxs = [idIndex plID,
     \<lparr>ixName = ''StatusID'', ixFields = (\<lambda>p. [plStatusID p]), ixMultiple = False, ixAllowZero = False\<rparr>]"

definition voteIxs :: "poll_vote sindex list" where
  "voteIxs = [idIndex pvID, multiIndex ''PollID'' pvPollID,
     \<lparr>ixName = ''PollID,AccountID'', ixFields = (\<lambda>v. [pvPollID v, pvAccountID v]), ixMultiple = False,
      ixAllowZero = False\<rparr>]"

record pollstate =
  psPolls :: "poll table"
  psVotes :: "poll_vote table"
  psVoteIDs :: slices
  psLocalPolls :: "string list"
  psUpdatedAt :: "string \<Rightarrow> time"
  psFaults :: faults

text \<open>The copy that the cache keeps of a poll.\<close>

definition copyPoll :: "poll \<Rightarrow> poll" where
  "copyPoll p = p\<lparr>plClosing := False\<rparr>"

text \<open>
  The hooks as a stack of calls: a call of \<open>OnInvalidatePoll\<close>, of \<open>OnInvalidatePollVote\<close>, or the
  last line of one of them.
\<close>

datatype hook_call = CallPoll string | CallVote string | CallVoteIDs string

definition callSize :: "hook_call \<Rightarrow> nat" where
  "callSize h = (case h of CallVoteIDs _ \<Rightarrow> 1 | _ \<Rightarrow> 2)"

lemma deleteFirst_length: "length (fst (deleteFirst m k c)) + length (snd (deleteFirst m k c)) \<le> length c"
proof (induction m k c rule: deleteFirst.induct)
  case (2 m k it c)
  show ?case
  proof (cases "k \<in> set (itKeys it)")
    case True
    with 2 show ?thesis by (cases m) (auto split: prod.splits sum.splits)
  next
    case False
    with 2 show ?thesis by (auto split: prod.splits)
  qed
qed simp

lemma dropKey_length: "dropKey k t = (vs, t') \<Longrightarrow> length vs + length (tbCache t') \<le> length (tbCache t)"
  using deleteFirst_length [of _ k "tbCache t"] by (auto simp: dropKey_def invalidateKey_def Let_def split: prod.splits)
    (metis fst_conv snd_conv)

lemma callSize_sum: "(\<And>x. callSize (f x) = 2) \<Longrightarrow> sum_list (map (callSize \<circ> f) xs) = 2 * length xs"
  by (induction xs) auto

function runHooks :: "hook_call list \<Rightarrow> pollstate \<Rightarrow> pollstate" where
  "runHooks [] st = st"
| "runHooks (CallPoll i # hs) st =
     (case dropKey (key1 ''PollID'' i) (psVotes st) of
        (vs, t) \<Rightarrow> runHooks (map (\<lambda>v. CallVote (pvPollID v)) vs @ CallVoteIDs i # hs) (st\<lparr>psVotes := t\<rparr>))"
| "runHooks (CallVote i # hs) st =
     (case dropKey (key1 ''ID'' i) (psPolls st) of
        (ps, t) \<Rightarrow> runHooks (map (\<lambda>p. CallPoll (plID p)) ps @ CallVoteIDs i # hs) (st\<lparr>psPolls := t\<rparr>))"
| "runHooks (CallVoteIDs i # hs) st =
     runHooks hs (st\<lparr>psVoteIDs := invalidateSlices [i] (psVoteIDs st)\<rparr>)"
  by pat_completeness auto
termination
proof (relation "measure (\<lambda>(hs, st). sum_list (map callSize hs) +
      3 * (length (tbCache (psPolls st)) + length (tbCache (psVotes st))))")
  fix i :: string and hs st vs t
  assume d: "(vs, t) = dropKey (key1 ''PollID'' i) (psVotes st)"
  from dropKey_length[OF d[symmetric]]
  show "((map (\<lambda>v. CallVote (pvPollID v)) vs @ CallVoteIDs i # hs, st\<lparr>psVotes := t\<rparr>), CallPoll i # hs, st) \<in>
      measure (\<lambda>(hs, st). sum_list (map callSize hs) + 3 * (length (tbCache (psPolls st)) + length (tbCache (psVotes st))))"
    using callSize_sum[of "\<lambda>v. CallVote (pvPollID v)" vs] by (simp add: callSize_def)
next
  fix i :: string and hs st ps t
  assume d: "(ps, t) = dropKey (key1 ''ID'' i) (psPolls st)"
  from dropKey_length[OF d[symmetric]]
  show "((map (\<lambda>p. CallPoll (plID p)) ps @ CallVoteIDs i # hs, st\<lparr>psPolls := t\<rparr>), CallVote i # hs, st) \<in>
      measure (\<lambda>(hs, st). sum_list (map callSize hs) + 3 * (length (tbCache (psPolls st)) + length (tbCache (psVotes st))))"
    using callSize_sum[of "\<lambda>p. CallPoll (plID p)" ps] by (simp add: callSize_def)
qed (simp_all add: callSize_def)

declare runHooks.simps(2-4) [simp del]

definition invalidatePoll :: "string \<Rightarrow> pollstate \<Rightarrow> pollstate" where
  "invalidatePoll i st =
     (let (ps, t) = dropKey (key1 ''ID'' i) (psPolls st)
      in runHooks (map (\<lambda>p. CallPoll (plID p)) ps) (st\<lparr>psPolls := t\<rparr>))"

definition invalidateVotes :: "ixkey \<Rightarrow> pollstate \<Rightarrow> pollstate" where
  "invalidateVotes k st =
     (let (vs, t) = dropKey k (psVotes st)
      in runHooks (map (\<lambda>v. CallVote (pvPollID v)) vs) (st\<lparr>psVotes := t\<rparr>))"

definition invalidateVoteIDs :: "string \<Rightarrow> pollstate \<Rightarrow> pollstate" where
  "invalidateVoteIDs i st = st\<lparr>psVoteIDs := invalidateSlices [i] (psVoteIDs st)\<rparr>"

subsection \<open>Lookups\<close>

text \<open>As before, a prime stands for the call in a barebones context, without populating.\<close>

definition loadPoll :: "string \<Rightarrow> string list \<Rightarrow> (poll \<Rightarrow> bool) \<Rightarrow> pollstate \<Rightarrow> (lookup_error + poll) \<times> pollstate" where
  "loadPoll lookup parts P st =
     (let query = (\<lambda>fs. case selectRow P (tbRows (psPolls st)) fs of
            (Inl e, fs') \<Rightarrow> (Inl e, fs') | (Inr p, fs') \<Rightarrow> (Inr (checkVotes p), fs'));
          (r, fs, c) = loadOneBy pollIxs lookup parts query (psFaults st) (tbCache (psPolls st))
      in (r, st\<lparr>psPolls := (psPolls st)\<lparr>tbCache := c\<rparr>, psFaults := fs\<rparr>))"

definition getPollByID' :: "string \<Rightarrow> pollstate \<Rightarrow> (lookup_error + poll) \<times> pollstate" where
  "getPollByID' i = loadPoll ''ID'' [i] (\<lambda>p. plID p = i)"

text \<open>\<open>status\<close> is the lookup of statuses.\<close>

definition populatePoll :: "(string \<Rightarrow> lookup_error + status) \<Rightarrow> poll \<Rightarrow> lookup_error option" where
  "populatePoll status p = (case status (plStatusID p) of Inl e \<Rightarrow> Some e | Inr _ \<Rightarrow> None)"

definition getPollByID where
  "getPollByID status i st = populated (populatePoll status) (getPollByID' i st)"

text \<open>The polls of \<open>GetOpenPolls\<close>: an error of one of them is logged.\<close>

fun collectPolls :: "string list \<Rightarrow> pollstate \<Rightarrow> poll list \<times> pollstate" where
  "collectPolls [] st = ([], st)"
| "collectPolls (i # is) st =
     (case getPollByID' i st of
        (Inl e, st1) \<Rightarrow> collectPolls is st1
      | (Inr p, st1) \<Rightarrow> (let (ps, st2) = collectPolls is st1 in (p # ps, st2)))"

definition getOpenPolls :: "pollstate \<Rightarrow> (lookup_error + poll list) \<times> pollstate" where
  "getOpenPolls st =
     (case nextFault (psFaults st) of
        (Some e, fs) \<Rightarrow> (Inl e, st\<lparr>psFaults := fs\<rparr>)
      | (None, fs) \<Rightarrow>
          (let ids = map plID (filter (\<lambda>p. plID p \<in> set (psLocalPolls st) \<and> plClosedAt p = 0) (tbRows (psPolls st)));
               (ps, st') = collectPolls ids (st\<lparr>psFaults := fs\<rparr>)
           in (Inr ps, st')))"

definition loadVote :: "string \<Rightarrow> string list \<Rightarrow> (poll_vote \<Rightarrow> bool) \<Rightarrow> pollstate \<Rightarrow> (lookup_error + poll_vote) \<times> pollstate" where
  "loadVote lookup parts P st =
     (let (r, fs, t) = loadRow voteIxs lookup parts P (psFaults st) (psVotes st)
      in (r, st\<lparr>psVotes := t, psFaults := fs\<rparr>))"

definition getPollVoteByID' where
  "getPollVoteByID' i = loadVote ''ID'' [i] (\<lambda>v. pvID v = i)"

definition getPollVoteBy' where
  "getPollVoteBy' pollID accountID = loadVote ''PollID,AccountID'' [pollID, accountID]
     (\<lambda>v. pvPollID v = pollID \<and> pvAccountID v = accountID)"

text \<open>Both lookups are made; the errors are combined, and \<open>errors.Is\<close> finds each of them.\<close>

definition combineErr :: "lookup_error option \<Rightarrow> lookup_error option \<Rightarrow> lookup_error option" where
  "combineErr e e' =
     (case e of None \<Rightarrow> e' | Some x \<Rightarrow> (case e' of None \<Rightarrow> e | Some y \<Rightarrow> if y = LNoEntries then e' else e))"

definition errOf :: "lookup_error + 'a \<Rightarrow> lookup_error option" where
  "errOf r = (case r of Inl e \<Rightarrow> Some e | Inr _ \<Rightarrow> None)"

definition populatePollVote :: "(string \<Rightarrow> lookup_error + account) \<Rightarrow> poll_vote \<Rightarrow> pollstate \<Rightarrow>
    lookup_error option \<times> pollstate" where
  "populatePollVote acct v st =
     (let (r, st') = getPollByID' (pvPollID v) st
      in (combineErr (errOf (acct (pvAccountID v))) (errOf r), st'))"

definition populatedVote where
  "populatedVote acct r = andThen r (\<lambda>v st.
     case populatePollVote acct v st of (Some e, st') \<Rightarrow> (Inl e, st') | (None, st') \<Rightarrow> (Inr v, st'))"

definition getPollVoteByID where
  "getPollVoteByID acct i st = populatedVote acct (getPollVoteByID' i st)"

definition getPollVoteBy where
  "getPollVoteBy acct pollID accountID st = populatedVote acct (getPollVoteBy' pollID accountID st)"

definition newSelectPollVotes :: "string \<Rightarrow> poll_vote list \<Rightarrow> string list" where
  "newSelectPollVotes i rows = descIDs (map pvID (filter (\<lambda>v. pvPollID v = i) rows))"

text \<open>\<open>slices.DeleteFunc\<close> with \<open>PopulatePollVote\<close>, which looks polls up.\<close>

fun keepPopulated :: "(string \<Rightarrow> lookup_error + account) \<Rightarrow> poll_vote list \<Rightarrow> pollstate \<Rightarrow> poll_vote list \<times> pollstate" where
  "keepPopulated acct [] st = ([], st)"
| "keepPopulated acct (v # vs) st =
     (case populatePollVote acct v st of
        (Some e, st1) \<Rightarrow> keepPopulated acct vs st1
      | (None, st1) \<Rightarrow> (let (ws, st2) = keepPopulated acct vs st1 in (v # ws, st2)))"

definition getPollVotes' :: "string \<Rightarrow> pollstate \<Rightarrow> (lookup_error + poll_vote list) \<times> pollstate" where
  "getPollVotes' i st =
     (let (r, fs, m) = loadSlice i (newSelectPollVotes i (tbRows (psVotes st))) (psFaults st) (psVoteIDs st)
      in andThen (r, st\<lparr>psFaults := fs, psVoteIDs := m\<rparr>) (\<lambda>ids st1.
           let (r, fs, t) = loadRows (idIndex pvID) voteIxs ids (psFaults st1) (psVotes st1)
           in andThen (r, st1\<lparr>psVotes := t, psFaults := fs\<rparr>) (\<lambda>vs st2. (Inr (orderBy ids pvID vs), st2))))"

definition getPollVotes where
  "getPollVotes acct i st =
     andThen (getPollVotes' i st) (\<lambda>vs st1. let (ws, st2) = keepPopulated acct vs st1 in (Inr ws, st2))"

subsection \<open>Transactions\<close>

definition runInTx :: "(faults \<Rightarrow> (lookup_error + 'a) \<times> faults) \<Rightarrow> faults \<Rightarrow> (lookup_error + 'a) \<times> faults" where
  "runInTx body fs =
     (case nextFault fs of
        (Some e, fs1) \<Rightarrow> (Inl e, fs1)
      | (None, fs1) \<Rightarrow> andThen (body fs1) (\<lambda>a fs2.
          case nextFault fs2 of (Some e, fs3) \<Rightarrow> (Inl e, fs3) | (None, fs3) \<Rightarrow> (Inr a, fs3)))"

text \<open>\<open>UPDATE polls SET votes, voters WHERE id\<close>.\<close>

definition setCounts :: "string \<Rightarrow> poll \<Rightarrow> poll list \<Rightarrow> faults \<Rightarrow> (lookup_error + poll list) \<times> faults" where
  "setCounts i new = updateRow (\<lambda>p. plID p = i) (\<lambda>p. p\<lparr>plVotes := plVotes new, plVoters := plVoters new\<rparr>)"

subsection \<open>Changes\<close>

definition putPoll :: "poll \<Rightarrow> pollstate \<Rightarrow> lookup_error option \<times> pollstate" where
  "putPoll p0 st =
     (let p = copyPoll (checkVotes p0);
          (e, fs, t) = storeRow pollIxs p (insertRow pollIxs p) (psFaults st) (psPolls st)
      in (e, runHooks [CallPoll (plID p)] (st\<lparr>psPolls := t, psFaults := fs\<rparr>)))"

text \<open>One column of an \<open>UPDATE\<close>; the columns the program names.\<close>

definition pollCol :: "poll \<Rightarrow> string \<Rightarrow> poll \<Rightarrow> poll" where
  "pollCol new c old =
     (if c = ''closed_at'' then old\<lparr>plClosedAt := plClosedAt new\<rparr>
      else if c = ''votes'' then old\<lparr>plVotes := plVotes new\<rparr>
      else if c = ''voters'' then old\<lparr>plVoters := plVoters new\<rparr>
      else old)"

definition pollCols :: "string list \<Rightarrow> poll \<Rightarrow> poll \<Rightarrow> poll" where
  "pollCols cols new old = fold (pollCol new) cols old"

definition updatePollTx :: "time \<Rightarrow> string list \<Rightarrow> poll \<Rightarrow> poll list \<Rightarrow> (string \<Rightarrow> time) \<Rightarrow> faults \<Rightarrow>
    (lookup_error + (poll list \<times> (string \<Rightarrow> time))) \<times> faults" where
  "updatePollTx now cols p rows upd = runInTx (\<lambda>fs.
     case nextFault fs of
       (Some e, fs1) \<Rightarrow> (Inl e, fs1)
     | (None, fs1) \<Rightarrow>
         andThen (updateRow (\<lambda>x. plID x = plID p) (pollCols cols p) rows fs1) (\<lambda>rows' fs2.
           (Inr (rows', upd(plStatusID p := now)), fs2)))"

definition updatePoll :: "time \<Rightarrow> poll \<Rightarrow> string list \<Rightarrow> pollstate \<Rightarrow> lookup_error option \<times> pollstate" where
  "updatePoll now p0 cols st =
     (let p = checkVotes p0
      in case updatePollTx now cols p (tbRows (psPolls st)) (psUpdatedAt st) (psFaults st) of
           (Inl e, fs) \<Rightarrow> (Some e, runHooks [CallPoll (plID p)] (st\<lparr>psFaults := fs\<rparr>))
         | (Inr (rows, upd), fs) \<Rightarrow>
             (None, runHooks [CallPoll (plID p)]
               (st\<lparr>psFaults := fs, psUpdatedAt := upd,
                  psPolls := \<lparr>tbRows = rows,
                    tbCache = storeValue pollIxs None (copyPoll p) (tbCache (psPolls st))\<rparr>\<rparr>)))"

definition deletePollByID :: "string \<Rightarrow> pollstate \<Rightarrow> lookup_error option \<times> pollstate" where
  "deletePollByID i st =
     (let (e, fs, t) = execDelete (\<lambda>p. plID p = i) (psFaults st) (psPolls st);
          st1 = st\<lparr>psPolls := t, psFaults := fs\<rparr>
      in case e of
           Some err \<Rightarrow> (Some err, st1)
         | None \<Rightarrow> (None, invalidateVoteIDs i (invalidatePoll i st1)))"

definition putPollVoteTx :: "poll_vote \<Rightarrow> poll list \<Rightarrow> poll_vote list \<Rightarrow> faults \<Rightarrow>
    (lookup_error + (poll list \<times> poll_vote list)) \<times> faults" where
  "putPollVoteTx v polls votes = runInTx (\<lambda>fs.
     andThen (insertRow voteIxs v votes fs) (\<lambda>votes' fs1.
     andThen (selectRow (\<lambda>p. plID p = pvPollID v) polls fs1) (\<lambda>p fs2.
       case incrementVotes (pvChoices v) p of
         None \<Rightarrow> (Inl LPanic, fs2)
       | Some p' \<Rightarrow>
           andThen (setCounts (pvPollID v) p' polls fs2) (\<lambda>polls' fs3. (Inr (polls', votes'), fs3)))))"

text \<open>A panic unwinds past the hook; any other error does not.\<close>

definition putPollVote :: "poll_vote \<Rightarrow> pollstate \<Rightarrow> lookup_error option \<times> pollstate" where
  "putPollVote v st =
     (case putPollVoteTx v (tbRows (psPolls st)) (tbRows (psVotes st)) (psFaults st) of
        (Inl e, fs) \<Rightarrow>
          (Some e, if e = LPanic then st\<lparr>psFaults := fs\<rparr>
                   else runHooks [CallVote (pvPollID v)] (st\<lparr>psFaults := fs\<rparr>))
      | (Inr (polls, votes), fs) \<Rightarrow>
          (None, runHooks [CallVote (pvPollID v)]
            (st\<lparr>psFaults := fs, psPolls := (psPolls st)\<lparr>tbRows := polls\<rparr>,
               psVotes := \<lparr>tbRows = votes, tbCache = storeValue voteIxs None v (tbCache (psVotes st))\<rparr>\<rparr>)))"

definition deletePollVotesTx :: "string \<Rightarrow> poll list \<Rightarrow> poll_vote list \<Rightarrow> faults \<Rightarrow>
    (lookup_error + (poll list \<times> poll_vote list)) \<times> faults" where
  "deletePollVotesTx i polls votes = runInTx (\<lambda>fs.
     andThen (deleteRows (\<lambda>v. pvPollID v = i) votes fs) (\<lambda>votes' fs1.
       if votes' = votes then (Inr (polls, votes), fs1)
       else
         (case selectRow (\<lambda>p. plID p = i) polls fs1 of
            (Inl e, fs2) \<Rightarrow> (if e = LNoEntries then Inr (polls, votes') else Inl e, fs2)
          | (Inr p, fs2) \<Rightarrow>
              andThen (setCounts i (resetVotes p) polls fs2) (\<lambda>polls' fs3. (Inr (polls', votes'), fs3)))))"

definition deletePollVotes :: "string \<Rightarrow> pollstate \<Rightarrow> lookup_error option \<times> pollstate" where
  "deletePollVotes i st =
     (case deletePollVotesTx i (tbRows (psPolls st)) (tbRows (psVotes st)) (psFaults st) of
        (Inl e, fs) \<Rightarrow> (Some e, st\<lparr>psFaults := fs\<rparr>)
      | (Inr (polls, votes), fs) \<Rightarrow>
          (None, invalidateVoteIDs i (invalidateVotes (key1 ''PollID'' i) (invalidatePoll i
             (st\<lparr>psFaults := fs, psPolls := (psPolls st)\<lparr>tbRows := polls\<rparr>,
                psVotes := (psVotes st)\<lparr>tbRows := votes\<rparr>\<rparr>)))))"

text \<open>\<open>DELETE ... RETURNING choices\<close>, then the counters of the poll, if there is one still.\<close>

definition deletePollVoteByTx :: "string \<Rightarrow> string \<Rightarrow> poll list \<Rightarrow> poll_vote list \<Rightarrow> faults \<Rightarrow>
    (lookup_error + (poll list \<times> poll_vote list)) \<times> faults" where
  "deletePollVoteByTx i a polls votes = runInTx (\<lambda>fs.
     let P = (\<lambda>v. pvPollID v = i \<and> pvAccountID v = a); choicesSlice = map pvChoices (filter P votes) in
     andThen (deleteRows P votes fs) (\<lambda>votes' fs1.
       if length choicesSlice \<noteq> 1 then (Inr (polls, votes'), fs1)
       else
         (case selectRow (\<lambda>p. plID p = i) polls fs1 of
            (Inl e, fs2) \<Rightarrow> (if e = LNoEntries then Inr (polls, votes') else Inl e, fs2)
          | (Inr p, fs2) \<Rightarrow>
              (case decrementVotes (hd choicesSlice) p of
                 None \<Rightarrow> (Inl LPanic, fs2)
               | Some p' \<Rightarrow> andThen (setCounts i p' polls fs2) (\<lambda>polls' fs3. (Inr (polls', votes'), fs3))))))"

definition votePairKey :: "string \<Rightarrow> string \<Rightarrow> ixkey" where
  "votePairKey i a = (''PollID,AccountID'', if i = [] \<or> a = [] then None else Some [i, a])"

definition deletePollVoteBy :: "string \<Rightarrow> string \<Rightarrow> pollstate \<Rightarrow> lookup_error option \<times> pollstate" where
  "deletePollVoteBy i a st =
     (case deletePollVoteByTx i a (tbRows (psPolls st)) (tbRows (psVotes st)) (psFaults st) of
        (Inl e, fs) \<Rightarrow> (Some e, st\<lparr>psFaults := fs\<rparr>)
      | (Inr (polls, votes), fs) \<Rightarrow>
          (None, invalidateVoteIDs i (invalidateVotes (votePairKey i a) (invalidatePoll i
             (st\<lparr>psFaults := fs, psPolls := (psPolls st)\<lparr>tbRows := polls\<rparr>,
                psVotes := (psVotes st)\<lparr>tbRows := votes\<rparr>\<rparr>)))))"

text \<open>An error of one deletion is logged; a panic is not an error.\<close>

fun deleteVotesIn :: "string list \<Rightarrow> string \<Rightarrow> pollstate \<Rightarrow> lookup_error option \<times> pollstate" where
  "deleteVotesIn [] a st = (None, st)"
| "deleteVotesIn (i # is) a st =
     (let (e, st') = deletePollVoteBy i a st
      in if e = Some LPanic then (e, st') else deleteVotesIn is a st')"

definition deletePollVotesByAccountID :: "string \<Rightarrow> pollstate \<Rightarrow> lookup_error option \<times> pollstate" where
  "deletePollVotesByAccountID a st =
     (case nextFault (psFaults st) of
        (Some e, fs) \<Rightarrow> (Some e, st\<lparr>psFaults := fs\<rparr>)
      | (None, fs) \<Rightarrow>
          deleteVotesIn (map pvPollID (filter (\<lambda>v. pvAccountID v = a) (tbRows (psVotes st)))) a
            (st\<lparr>psFaults := fs\<rparr>))"

end
