(* ===== verification/PollProps.thy ===== *)
theory PollProps
  imports Polls RelationshipProps
begin

text \<open>
  The caches of \<open>Polls\<close> agree with the tables, and the counters of a poll are the sums of its
  votes: what the hooks, the lookups and the changes do to both.
\<close>

subsection \<open>Rows that change under a cache\<close>

context indexed
begin

lemma inj_on_same_fields:
  assumes "tableOK ixs rows" and "\<And>x i. x \<in> set rows \<Longrightarrow> i \<in> set ixs \<Longrightarrow> ixFields i (g x) = ixFields i x"
  shows "inj_on g (set rows)"
proof (rule inj_onI)
  obtain u where u: "u \<in> set ixs" "\<not> ixMultiple u" using has_unique by (auto simp: list_ex_iff)
  fix x y assume x: "x \<in> set rows" and y: "y \<in> set rows" and g: "g x = g y"
  then have "ixFields u x = ixFields u y" using assms(2)[OF x u(1)] assms(2)[OF y u(1)] by simp
  then show "x = y" by (rule tableOK_unique[OF assms(1) u x y])
qed

lemma tableOK_map:
  assumes "tableOK ixs rows" and "\<And>x i. x \<in> set rows \<Longrightarrow> i \<in> set ixs \<Longrightarrow> ixFields i (g x) = ixFields i x"
  shows "tableOK ixs (map g rows)"
proof -
  have "distinct (map g rows)"
    using inj_on_same_fields[OF assms] assms(1) by (simp add: tableOK_def distinct_map)
  then show ?thesis
    using assms unfolding tableOK_def by (simp add: distinct_map) metis
qed

text \<open>The cache of a table of which some rows change, none of them cached.\<close>

lemma cacheInv_map:
  assumes "cacheInv ixs rows c" and "u \<in> set ixs" and "\<not> ixMultiple u"
    and "\<And>x i. x \<in> set rows \<Longrightarrow> i \<in> set ixs \<Longrightarrow> ixFields i (g x) = ixFields i x"
    and "\<And>x. x \<in> set rows \<Longrightarrow> g x \<noteq> x \<Longrightarrow> holders (ixKey u (ixFields u x)) c = []"
  shows "cacheInv ixs (map g rows) c"
proof -
  have "itemOK ixs (map g rows) it" if it: "it \<in> set c" for it
  proof -
    have ok: "itemOK ixs rows it" using assms(1) it by (simp add: cacheInv_def)
    show ?thesis
    proof (cases "itData it")
      case (Inl e)
      then show ?thesis using ok assms(4) by (auto simp: itemOK_def)
    next
      case (Inr w)
      have "w \<in> g ` set rows" if "k \<in> set (itKeys it)" "isUnique ixs k" for k
      proof -
        have w: "w \<in> set rows" "ixKey u (ixFields u w) \<in> set (itKeys it)"
          using ok Inr that assms(2,3) by (auto simp: itemOK_def)
        then have "holders (ixKey u (ixFields u w)) c \<noteq> []" using it holders_NilD by blast
        then have "g w = w" using assms(5) w(1) by blast
        then show ?thesis using w(1) by force
      qed
      then show ?thesis using ok Inr by (auto simp: itemOK_def)
    qed
  qed
  then show ?thesis using assms(1) by (simp add: cacheInv_def)
qed

end

interpretation pol: indexed pollIxs
  by unfold_locales (simp_all add: pollIxs_def idIndex_def)

interpretation vot: indexed voteIxs
  by unfold_locales (simp_all add: voteIxs_def idIndex_def multiIndex_def)

abbreviation pollID :: "poll sindex" where
  "pollID \<equiv> idIndex plID"

abbreviation voteID :: "poll_vote sindex" where
  "voteID \<equiv> idIndex pvID"

definition votePair :: "poll_vote sindex" where
  "votePair = \<lparr>ixName = ''PollID,AccountID'', ixFields = (\<lambda>v. [pvPollID v, pvAccountID v]), ixMultiple = False,
      ixAllowZero = False\<rparr>"

lemma poll_indices [simp]:
  "pollID \<in> set pollIxs" "voteID \<in> set voteIxs" "votePair \<in> set voteIxs"
  "ixName votePair = ''PollID,AccountID''" "ixFields votePair v = [pvPollID v, pvAccountID v]"
  "\<not> ixMultiple votePair"
  by (simp_all add: pollIxs_def voteIxs_def votePair_def)

lemma poll_keys:
  "key1 ''ID'' i = ixKey pollID [i]" "key1 ''ID'' i = ixKey voteID [i]" "votePairKey i a = ixKey votePair [i, a]"
  by (auto simp: key1_def votePairKey_def ixKey_def idIndex_def votePair_def)

lemma poll_fields: "ixFields i p = ixFields i q" if "i \<in> set pollIxs" "plID p = plID q" "plStatusID p = plStatusID q"
  using that by (auto simp: pollIxs_def idIndex_def)

subsection \<open>The invariant of the caches\<close>

definition pollRowOK :: "poll \<Rightarrow> bool" where
  "pollRowOK p \<longleftrightarrow> plVotes p \<noteq> None \<and> plVoters p \<noteq> None \<and> \<not> plClosing p"

definition voteSlicesOK :: "poll_vote list \<Rightarrow> slices \<Rightarrow> bool" where
  "voteSlicesOK votes m \<longleftrightarrow> (\<forall>i ids. m i = Some ids \<longrightarrow> ids = newSelectPollVotes i votes)"

definition pollInv :: "pollstate \<Rightarrow> bool" where
  "pollInv st \<longleftrightarrow> tblOK pollIxs (psPolls st) \<and> tblOK voteIxs (psVotes st) \<and>
     (\<forall>p \<in> set (tbRows (psPolls st)). pollRowOK p) \<and>
     voteSlicesOK (tbRows (psVotes st)) (psVoteIDs st)"

lemma checkVotes_row [simp]: "pollRowOK p \<Longrightarrow> checkVotes p = p"
  by (auto simp: checkVotes_def pollRowOK_def)

lemma checkVotes_sel [simp]:
  "plID (checkVotes p) = plID p" "plStatusID (checkVotes p) = plStatusID p" "plOptions (checkVotes p) = plOptions p"
  "plMultiple (checkVotes p) = plMultiple p" "plClosedAt (checkVotes p) = plClosedAt p"
  "plVotes (checkVotes p) \<noteq> None" "plVoters (checkVotes p) \<noteq> None"
  by (auto simp: checkVotes_def)

lemma pollRowOK_copy [simp]: "pollRowOK (copyPoll (checkVotes p))"
  by (auto simp: pollRowOK_def copyPoll_def checkVotes_def)

subsection \<open>What the hooks do\<close>

definition pquiet :: "pollstate \<Rightarrow> pollstate \<Rightarrow> bool" where
  "pquiet st st' \<longleftrightarrow>
     quietTable pollIxs (psPolls st) (psPolls st') \<and> quietTable voteIxs (psVotes st) (psVotes st') \<and>
     psVoteIDs st' \<subseteq>\<^sub>m psVoteIDs st \<and> psLocalPolls st' = psLocalPolls st \<and>
     psUpdatedAt st' = psUpdatedAt st \<and> psFaults st' = psFaults st"

lemma pquiet_refl [simp]: "pquiet st st"
  by (simp add: pquiet_def)

lemma pquiet_trans: "pquiet s t \<Longrightarrow> pquiet t u \<Longrightarrow> pquiet s u"
  unfolding pquiet_def by (auto intro: quietTable_trans map_le_trans)

lemma pquiet_dropVotes: "dropKey k (psVotes st) = (vs, t) \<Longrightarrow> pquiet st (st\<lparr>psVotes := t\<rparr>)"
  using vot.quiet_dropKey[of "psVotes st" k] by (simp add: pquiet_def)

lemma pquiet_dropPolls: "dropKey k (psPolls st) = (ps, t) \<Longrightarrow> pquiet st (st\<lparr>psPolls := t\<rparr>)"
  using pol.quiet_dropKey[of "psPolls st" k] by (simp add: pquiet_def)

lemma pquiet_voteIDs: "pquiet st (invalidateVoteIDs i st)"
  by (simp add: pquiet_def invalidateVoteIDs_def)

lemma pquiet_runHooks: "pquiet st (runHooks hs st)"
proof (induction hs st rule: runHooks.induct)
  case (2 i hs st)
  obtain vs t where d: "dropKey (key1 ''PollID'' i) (psVotes st) = (vs, t)" by fastforce
  show ?case
    using pquiet_trans[OF pquiet_dropVotes[OF d] 2[OF d[symmetric]]] by (simp add: runHooks.simps(2) d)
next
  case (3 i hs st)
  obtain ps t where d: "dropKey (key1 ''ID'' i) (psPolls st) = (ps, t)" by fastforce
  show ?case
    using pquiet_trans[OF pquiet_dropPolls[OF d] 3[OF d[symmetric]]] by (simp add: runHooks.simps(3) d)
next
  case (4 i hs st)
  then show ?case
    using pquiet_trans[OF pquiet_voteIDs] by (simp add: runHooks.simps(4) invalidateVoteIDs_def)
qed simp

lemma dropKey_no_holders: "dropKey k t = (vs, t') \<Longrightarrow> holders k (tbCache t') = []"
  using holders_invalidateKey[of k "tbCache t"] by (auto simp: dropKey_def split: prod.splits)

lemma pquiet_holders:
  "pquiet st st' \<Longrightarrow> holders k (tbCache (psPolls st)) = [] \<Longrightarrow> holders k (tbCache (psPolls st')) = []"
  "pquiet st st' \<Longrightarrow> holders k' (tbCache (psVotes st)) = [] \<Longrightarrow> holders k' (tbCache (psVotes st')) = []"
  unfolding pquiet_def quietTable_def using shrunk_holders by blast+

lemma pquiet_IDs: "pquiet st st' \<Longrightarrow> psVoteIDs st i = None \<Longrightarrow> psVoteIDs st' i = None"
  unfolding pquiet_def map_le_def by (metis domIff)

text \<open>Whatever a hook is called for, it forgets the list of vote IDs, and that of a vote the poll.\<close>

lemma runHooks_IDs:
  "CallVote i \<in> set hs \<or> CallPoll i \<in> set hs \<or> CallVoteIDs i \<in> set hs \<Longrightarrow> psVoteIDs (runHooks hs st) i = None"
proof (induction hs st rule: runHooks.induct)
  case (2 j hs st)
  obtain vs t where d: "dropKey (key1 ''PollID'' j) (psVotes st) = (vs, t)" by fastforce
  show ?case
    using 2(1)[OF d[symmetric]] 2(2) by (auto simp: runHooks.simps(2) d)
next
  case (3 j hs st)
  obtain ps t where d: "dropKey (key1 ''ID'' j) (psPolls st) = (ps, t)" by fastforce
  show ?case
    using 3(1)[OF d[symmetric]] 3(2) by (auto simp: runHooks.simps(3) d)
next
  case (4 j hs st)
  show ?case
  proof (cases "CallVote i \<in> set hs \<or> CallPoll i \<in> set hs \<or> CallVoteIDs i \<in> set hs")
    case True
    then show ?thesis using 4(1) by (simp add: runHooks.simps(4))
  next
    case False
    with 4(2) have "j = i" by auto
    then show ?thesis
      using pquiet_IDs[OF pquiet_runHooks, of "st\<lparr>psVoteIDs := invalidateSlices [j] (psVoteIDs st)\<rparr>" i hs]
      by (simp add: runHooks.simps(4) invalidateSlices_def)
  qed
qed simp

lemma runHooks_vote:
  "CallVote i \<in> set hs \<Longrightarrow> holders (key1 ''ID'' i) (tbCache (psPolls (runHooks hs st))) = []"
proof (induction hs st rule: runHooks.induct)
  case (2 j hs st)
  obtain vs t where d: "dropKey (key1 ''PollID'' j) (psVotes st) = (vs, t)" by fastforce
  show ?case
    using 2(1)[OF d[symmetric]] 2(2) by (auto simp: runHooks.simps(2) d)
next
  case (3 j hs st)
  obtain ps t where d: "dropKey (key1 ''ID'' j) (psPolls st) = (ps, t)" by fastforce
  show ?case
  proof (cases "CallVote i \<in> set hs")
    case True
    then show ?thesis using 3(1)[OF d[symmetric]] by (auto simp: runHooks.simps(3) d)
  next
    case False
    with 3(2) have "j = i" by auto
    with dropKey_no_holders[OF d]
    have "holders (key1 ''ID'' i) (tbCache (psPolls (st\<lparr>psPolls := t\<rparr>))) = []" by simp
    from pquiet_holders(1)[OF pquiet_runHooks this] show ?thesis
      by (simp add: runHooks.simps(3) d)
  qed
next
  case (4 j hs st)
  then show ?case by (auto simp: runHooks.simps(4))
qed simp

lemma pquiet_inv: "pquiet st st' \<Longrightarrow> pollInv st \<Longrightarrow> pollInv st'"
  unfolding pollInv_def pquiet_def voteSlicesOK_def
  by (metis (no_types, lifting) domI map_le_def quietTable_OK quietTable_def)

lemma pquiet_invalidate:
  "pquiet st (invalidatePoll i st)" "pquiet st (invalidateVotes k st)"
proof -
  obtain ps t where d: "dropKey (key1 ''ID'' i) (psPolls st) = (ps, t)" by fastforce
  show "pquiet st (invalidatePoll i st)"
    using pquiet_trans[OF pquiet_dropPolls[OF d] pquiet_runHooks] by (simp add: invalidatePoll_def d)
  obtain vs u where e: "dropKey k (psVotes st) = (vs, u)" by fastforce
  show "pquiet st (invalidateVotes k st)"
    using pquiet_trans[OF pquiet_dropVotes[OF e] pquiet_runHooks] by (simp add: invalidateVotes_def e)
qed

lemma invalidatePoll_gone: "holders (key1 ''ID'' i) (tbCache (psPolls (invalidatePoll i st))) = []"
proof -
  obtain ps t where d: "dropKey (key1 ''ID'' i) (psPolls st) = (ps, t)" by fastforce
  then have "holders (key1 ''ID'' i) (tbCache (psPolls (st\<lparr>psPolls := t\<rparr>))) = []"
    using dropKey_no_holders[OF d] by simp
  from pquiet_holders(1)[OF pquiet_runHooks this] show ?thesis by (simp add: invalidatePoll_def d)
qed

lemma invalidateVotes_gone: "holders k (tbCache (psVotes (invalidateVotes k st))) = []"
proof -
  obtain vs t where d: "dropKey k (psVotes st) = (vs, t)" by fastforce
  then have "holders k (tbCache (psVotes (st\<lparr>psVotes := t\<rparr>))) = []"
    using dropKey_no_holders[OF d] by simp
  from pquiet_holders(2)[OF pquiet_runHooks this] show ?thesis by (simp add: invalidateVotes_def d)
qed

subsection \<open>Lookups answer what the tables hold\<close>

definition samePolls :: "pollstate \<Rightarrow> pollstate \<Rightarrow> bool" where
  "samePolls st st' \<longleftrightarrow> tbRows (psPolls st') = tbRows (psPolls st) \<and> tbRows (psVotes st') = tbRows (psVotes st) \<and>
     psLocalPolls st' = psLocalPolls st \<and> psUpdatedAt st' = psUpdatedAt st"

definition preadOK :: "pollstate \<Rightarrow> lookup_error + 'a \<Rightarrow> (lookup_error + 'a) \<times> pollstate \<Rightarrow> bool" where
  "preadOK st spec m \<longleftrightarrow> answers (fst m) spec \<and> pollInv (snd m) \<and> samePolls st (snd m) \<and>
     (psFaults st = [] \<longrightarrow> fst m = spec \<and> psFaults (snd m) = [])"

lemma samePolls_refl [simp]: "samePolls st st"
  by (simp add: samePolls_def)

lemma samePolls_trans: "samePolls s t \<Longrightarrow> samePolls t u \<Longrightarrow> samePolls s u"
  by (simp add: samePolls_def)

definition pollRow :: "pollstate \<Rightarrow> string \<Rightarrow> lookup_error + poll" where
  "pollRow st i = rowsLookup pollID [i] (tbRows (psPolls st))"

definition voteRow :: "pollstate \<Rightarrow> string \<Rightarrow> string \<Rightarrow> lookup_error + poll_vote" where
  "voteRow st i a = rowsLookup votePair [i, a] (tbRows (psVotes st))"

lemma pollInv_faults [simp]: "pollInv (st\<lparr>psFaults := fs\<rparr>) = pollInv st"
  by (simp add: pollInv_def)

lemma ixFields_poll [simp]: "ixFields pollID p = [plID p]" "ixFields voteID v = [pvID v]"
  "ixName pollID = ''ID''" "ixName voteID = ''ID''" "\<not> ixMultiple pollID" "\<not> ixMultiple voteID"
  by (simp_all add: idIndex_def)

lemma selectRow_cases:
  obtains e where "selectRow P rows fs = (Inl e, snd (nextFault fs))" "ignoreErrors e" "fs \<noteq> []"
  | "selectRow P rows fs = ((case find P rows of None \<Rightarrow> Inl LNoEntries | Some v \<Rightarrow> Inr v), snd (nextFault fs))"
proof (cases "nextFault fs")
  case (Pair f fs')
  show ?thesis
  proof (cases f)
    case None
    then show ?thesis using that(2) Pair by (simp add: selectRow_def)
  next
    case (Some e)
    then show ?thesis using that(1) Pair nextFault_ignored[of fs e fs'] by (cases fs) (auto simp: selectRow_def)
  qed
qed

lemma loadPoll_query:
  assumes "\<forall>p \<in> set rows. pollRowOK p"
  shows "(case selectRow P rows fs of (Inl e, fs') \<Rightarrow> (Inl e, fs') | (Inr p, fs') \<Rightarrow> (Inr (checkVotes p), fs')) =
    selectRow P rows fs"
proof -
  obtain r fs' where s: "selectRow P rows fs = (r, fs')" by fastforce
  have "checkVotes p = p" if "r = Inr p" for p
    using s that assms by (auto simp: selectRow_def find_Some_iff split: prod.splits option.splits)
  then show ?thesis using s by (cases r) auto
qed

lemma getPollByID'_ok:
  assumes inv: "pollInv st"
  shows "preadOK st (pollRow st i) (getPollByID' i st)"
proof -
  obtain r fs t where l: "loadRow pollIxs (ixName pollID) [i] (\<lambda>p. ixFields pollID p = [i]) (psFaults st) (psPolls st) = (r, fs, t)"
    by (metis prod.exhaust)
  have tb: "tblOK pollIxs (psPolls st)" using inv by (simp add: pollInv_def)
  note ok = pol.loadRow_ok[OF tb poll_indices(1) ixFields_poll(5) l]
  have "getPollByID' i st = (r, st\<lparr>psPolls := t, psFaults := fs\<rparr>)"
    using l inv by (auto simp: getPollByID'_def loadPoll_def loadRow_def pollInv_def loadPoll_query Let_def split: prod.splits)
  then show ?thesis
    using ok inv by (simp add: preadOK_def pollRow_def samePolls_def pollInv_def)
qed

lemma getPollVoteBy'_ok:
  assumes inv: "pollInv st"
  shows "preadOK st (voteRow st i a) (getPollVoteBy' i a st)"
proof -
  have eq: "(\<lambda>v. pvPollID v = i \<and> pvAccountID v = a) = (\<lambda>v. ixFields votePair v = [i, a])" by auto
  obtain r fs t where l: "loadRow voteIxs (ixName votePair) [i, a] (\<lambda>v. ixFields votePair v = [i, a]) (psFaults st) (psVotes st) = (r, fs, t)"
    by (metis prod.exhaust)
  have tb: "tblOK voteIxs (psVotes st)" using inv by (simp add: pollInv_def)
  note ok = vot.loadRow_ok[OF tb poll_indices(3) poll_indices(6) l]
  have "getPollVoteBy' i a st = (r, st\<lparr>psVotes := t, psFaults := fs\<rparr>)"
    using l unfolding getPollVoteBy'_def loadVote_def eq by simp
  then show ?thesis
    using ok inv by (simp add: preadOK_def voteRow_def samePolls_def pollInv_def)
qed

lemma getPollVoteByID'_ok:
  assumes inv: "pollInv st"
  shows "preadOK st (rowsLookup voteID [i] (tbRows (psVotes st))) (getPollVoteByID' i st)"
proof -
  have eq: "(\<lambda>v. pvID v = i) = (\<lambda>v. ixFields voteID v = [i])" by auto
  obtain r fs t where l: "loadRow voteIxs (ixName voteID) [i] (\<lambda>v. ixFields voteID v = [i]) (psFaults st) (psVotes st) = (r, fs, t)"
    by (metis prod.exhaust)
  have tb: "tblOK voteIxs (psVotes st)" using inv by (simp add: pollInv_def)
  note ok = vot.loadRow_ok[OF tb poll_indices(2) ixFields_poll(6) l]
  have "getPollVoteByID' i st = (r, st\<lparr>psVotes := t, psFaults := fs\<rparr>)"
    using l unfolding getPollVoteByID'_def loadVote_def eq by simp
  then show ?thesis
    using ok inv by (simp add: preadOK_def samePolls_def pollInv_def)
qed

text \<open>The votes of a poll, the newest first.\<close>

definition votesOf :: "pollstate \<Rightarrow> string \<Rightarrow> poll_vote list" where
  "votesOf st i = map (rowOf pvID (tbRows (psVotes st))) (newSelectPollVotes i (tbRows (psVotes st)))"

lemma distinct_descIDs [simp]: "distinct (descIDs ids) = distinct ids" "set (descIDs ids) = set ids"
  by (simp_all add: descIDs_def)

lemma getPollVotes'_ok:
  assumes inv: "pollInv st"
  shows "preadOK st (Inr (votesOf st i)) (getPollVotes' i st)"
proof -
  let ?rows = "tbRows (psVotes st)"
  let ?ids = "newSelectPollVotes i ?rows"
  obtain r fs m where s: "loadSlice i ?ids (psFaults st) (psVoteIDs st) = (r, fs, m)"
    by (metis prod.exhaust)
  have tb: "tblOK voteIxs (psVotes st)" and sl: "voteSlicesOK ?rows (psVoteIDs st)"
    using inv by (simp_all add: pollInv_def)
  have c: "answers r (Inr ?ids) \<and> (m = psVoteIDs st \<or> m = (psVoteIDs st)(i \<mapsto> ?ids)) \<and>
      (psFaults st = [] \<longrightarrow> r = Inr ?ids \<and> fs = [])"
    by (rule loadSlice_cases[OF s]) (use sl in \<open>auto simp: voteSlicesOK_def\<close>)
  have m: "voteSlicesOK ?rows m"
    using c sl by (auto simp: voteSlicesOK_def split: if_splits)
  let ?st1 = "st\<lparr>psFaults := fs, psVoteIDs := m\<rparr>"
  have inv1: "pollInv ?st1" using inv m by (simp add: pollInv_def)
  show ?thesis
  proof (cases r)
    case (Inl e)
    then show ?thesis
      using c inv1 s by (simp add: preadOK_def getPollVotes'_def answers_def samePolls_def)
  next
    case (Inr ids)
    then have ids: "ids = ?ids" using c by (auto simp: answers_def)
    obtain r' fs' t where l: "loadRows voteID voteIxs ids fs (psVotes st) = (r', fs', t)"
      by (metis prod.exhaust)
    note ld = vot.loadRows_ok[OF tb poll_indices(2) ixFields_poll(6) l]
    have sub: "set ids \<subseteq> pvID ` set ?rows" and dist: "distinct ids"
      using vot.distinct_column[OF tb poll_indices(2) ixFields_poll(6) ixFields_poll(2)]
      by (auto simp: ids newSelectPollVotes_def)
    note ord = vot.loadRows_ordered[OF tb poll_indices(2) ixFields_poll(6) ixFields_poll(2) l dist sub]
    show ?thesis
      using ld ord inv1 c s l Inr
      by (cases r') (auto simp: preadOK_def getPollVotes'_def answers_def samePolls_def votesOf_def ids pollInv_def)
  qed
qed

subsection \<open>Changes keep the caches coherent\<close>

context indexed
begin

lemma cacheInv_unless:
  assumes "cacheInv ixs rows c" and "u \<in> set ixs" and "\<not> ixMultiple u"
    and "set rows' = {w \<in> set rows. ixFields u w \<noteq> parts}" and "holders (ixKey u parts) c = []"
  shows "cacheInv ixs rows' c"
proof -
  have "itemOK ixs rows' it" if it: "it \<in> set c" for it
  proof -
    have ok: "itemOK ixs rows it" using assms(1) it by (simp add: cacheInv_def)
    have no: "ixKey u parts \<notin> set (itKeys it)" by (rule holders_NilD[OF assms(5) it])
    show ?thesis
    proof (cases "itData it")
      case (Inl e)
      then show ?thesis using ok assms(4) by (auto simp: itemOK_def)
    next
      case (Inr w)
      have "ixFields u w \<noteq> parts" if "k \<in> set (itKeys it)" "isUnique ixs k" for k
        using ok Inr that no assms(2,3) by (auto simp: itemOK_def)
      then show ?thesis using ok Inr assms(4) by (auto simp: itemOK_def)
    qed
  qed
  then show ?thesis using assms(1) by (simp add: cacheInv_def)
qed

lemma tableOK_subset: "tableOK ixs rows \<Longrightarrow> tableOK ixs (filter P rows)"
  by (auto simp: tableOK_def)

end

lemma pquiet_rows:
  assumes "pquiet st st'"
  shows "tbRows (psPolls st') = tbRows (psPolls st)" "tbRows (psVotes st') = tbRows (psVotes st)"
    "cacheInv pollIxs R (tbCache (psPolls st)) \<Longrightarrow> cacheInv pollIxs R (tbCache (psPolls st'))"
    "cacheInv voteIxs S (tbCache (psVotes st)) \<Longrightarrow> cacheInv voteIxs S (tbCache (psVotes st'))"
    "psFaults st' = psFaults st" "psLocalPolls st' = psLocalPolls st" "psUpdatedAt st' = psUpdatedAt st"
  using assms by (auto simp: pquiet_def quietTable_def)

lemma pquiet_some: "pquiet st st' \<Longrightarrow> psVoteIDs st' i = Some ids \<Longrightarrow> psVoteIDs st i = Some ids"
  unfolding pquiet_def map_le_def by (metis domI)

text \<open>
  What the three changes of votes have in common: \<open>st0\<close> is the state after the transaction, \<open>st'\<close>
  the one after the invalidations.
\<close>

lemma pollInv_change:
  assumes inv: "pollInv st"
    and g: "\<And>p. p \<in> set (tbRows (psPolls st)) \<Longrightarrow> plID (g p) = plID p \<and> plStatusID (g p) = plStatusID p \<and> pollRowOK (g p)"
    and keep: "\<And>p. p \<in> set (tbRows (psPolls st)) \<Longrightarrow> plID p \<noteq> i \<Longrightarrow> g p = p"
    and polls: "psPolls st0 = (psPolls st)\<lparr>tbRows := map g (tbRows (psPolls st))\<rparr>"
    and ids: "psVoteIDs st0 = psVoteIDs st" and q: "pquiet st0 st'"
    and gone: "holders (key1 ''ID'' i) (tbCache (psPolls st')) = []" "psVoteIDs st' i = None"
    and votes: "tbRows (psVotes st0) = votes'" "tableOK voteIxs votes'" "cacheInv voteIxs votes' (tbCache (psVotes st'))"
    and other: "\<And>j. j \<noteq> i \<Longrightarrow> newSelectPollVotes j votes' = newSelectPollVotes j (tbRows (psVotes st))"
  shows "pollInv st'"
proof -
  let ?rows = "tbRows (psPolls st)"
  have tb: "tableOK pollIxs ?rows" "cacheInv pollIxs ?rows (tbCache (psPolls st))"
    using inv by (simp_all add: pollInv_def tblOK_def)
  have fields: "ixFields ix (g p) = ixFields ix p" if "p \<in> set ?rows" "ix \<in> set pollIxs" for p ix
    by (rule poll_fields[OF that(2)]) (use g[OF that(1)] in simp_all)
  have "cacheInv pollIxs ?rows (tbCache (psPolls st'))"
    using pquiet_rows(3)[OF q] tb(2) polls by simp
  then have "cacheInv pollIxs (map g ?rows) (tbCache (psPolls st'))"
  proof (rule pol.cacheInv_map[OF _ poll_indices(1) ixFields_poll(5) fields])
    fix p assume "p \<in> set ?rows" "g p \<noteq> p"
    with keep have "plID p = i" by blast
    then show "holders (ixKey pollID (ixFields pollID p)) (tbCache (psPolls st')) = []"
      using gone(1) by (simp add: poll_keys(1))
  qed
  moreover have "tableOK pollIxs (map g ?rows)"
    by (rule pol.tableOK_map[OF tb(1) fields])
  moreover have "voteSlicesOK votes' (psVoteIDs st')"
    unfolding voteSlicesOK_def
  proof (intro allI impI)
    fix j xs assume xs: "psVoteIDs st' j = Some xs"
    then have "j \<noteq> i" using gone(2) by auto
    moreover have "psVoteIDs st j = Some xs" using pquiet_some[OF q xs] ids by simp
    ultimately show "xs = newSelectPollVotes j votes'"
      using inv other by (simp add: pollInv_def voteSlicesOK_def)
  qed
  ultimately show ?thesis
    using pquiet_rows(1,2)[OF q] polls votes g by (simp add: pollInv_def tblOK_def)
qed

definition setCountsRow :: "string \<Rightarrow> poll \<Rightarrow> poll \<Rightarrow> poll" where
  "setCountsRow i new p = (if plID p = i then p\<lparr>plVotes := plVotes new, plVoters := plVoters new\<rparr> else p)"

lemma setCounts_Inr: "setCounts i new polls fs = (Inr polls', fs') \<Longrightarrow> polls' = map (setCountsRow i new) polls"
  by (auto simp: setCounts_def updateRow_def setCountsRow_def split: prod.splits option.splits)

lemma runInTx_Inr:
  assumes "runInTx body fs = (Inr a, fs')"
  obtains fs1 fs2 where "nextFault fs = (None, fs1)" "body fs1 = (Inr a, fs2)" "nextFault fs2 = (None, fs')"
  using assms by (auto simp: runInTx_def andThen_def split: prod.splits option.splits sum.splits)

lemma andThen_Inr:
  assumes "andThen m f = (Inr b, s)"
  obtains a s1 where "m = (Inr a, s1)" "f a s1 = (Inr b, s)"
  using assms by (auto simp: andThen_def split: prod.splits sum.splits)

lemma selectRow_Inr: "selectRow P rows fs = (Inr v, fs') \<Longrightarrow> v \<in> set rows \<and> P v"
  by (auto simp: selectRow_def find_Some_iff split: prod.splits option.splits)

lemma putPollVoteTx_Inr:
  assumes "putPollVoteTx v polls votes fs = (Inr (polls', votes'), fs')" and "tableOK voteIxs votes"
  obtains p p' where "votes' = votes @ [v]" "tableOK voteIxs votes'" "p \<in> set polls" "plID p = pvPollID v"
    "incrementVotes (pvChoices v) p = Some p'" "polls' = map (setCountsRow (pvPollID v) p') polls"
proof -
  from assms(1) obtain fs1 fs2 fs3 fs4 vs p where i: "insertRow voteIxs v votes fs1 = (Inr vs, fs2)"
    and s: "selectRow (\<lambda>p. plID p = pvPollID v) polls fs2 = (Inr p, fs4)"
    and c: "(case incrementVotes (pvChoices v) p of
         None \<Rightarrow> (Inl LPanic, fs4)
       | Some p' \<Rightarrow>
           andThen (setCounts (pvPollID v) p' polls fs4) (\<lambda>polls' fs3. (Inr (polls', vs), fs3))) = (Inr (polls', votes'), fs3)"
    unfolding putPollVoteTx_def by (elim runInTx_Inr andThen_Inr) (rule that)
  from c obtain p' fs5 where p': "incrementVotes (pvChoices v) p = Some p'"
    "setCounts (pvPollID v) p' polls fs4 = (Inr polls', fs5)" "votes' = vs"
    by (auto split: option.splits elim!: andThen_Inr)
  show ?thesis
    using that[of p p'] vot.insertRow_Inr[OF i assms(2)] selectRow_Inr[OF s] p' setCounts_Inr by simp
qed

lemma incrementVotes_sel:
  "incrementVotes cs p = Some p' \<Longrightarrow> pollRowOK p \<Longrightarrow> plVotes p' \<noteq> None \<and> plVoters p' \<noteq> None"
  by (auto simp: incrementVotes_def pollRowOK_def Let_def split: if_splits option.splits)

lemma decrementVotes_sel:
  "decrementVotes cs p = Some p' \<Longrightarrow> pollRowOK p \<Longrightarrow> plVotes p' \<noteq> None \<and> plVoters p' \<noteq> None"
  by (auto simp: decrementVotes_def pollRowOK_def Let_def split: if_splits option.splits)

lemma setCountsRow_keeps:
  "plID (setCountsRow i q p) = plID p" "plStatusID (setCountsRow i q p) = plStatusID p"
  "plID p \<noteq> i \<Longrightarrow> setCountsRow i q p = p"
  "pollRowOK p \<Longrightarrow> plVotes q \<noteq> None \<and> plVoters q \<noteq> None \<Longrightarrow> pollRowOK (setCountsRow i q p)"
  by (auto simp: setCountsRow_def pollRowOK_def)

text \<open>The effect of a vote on the tables.\<close>

definition voted :: "poll_vote \<Rightarrow> pollstate \<Rightarrow> pollstate \<Rightarrow> bool" where
  "voted v st st' \<longleftrightarrow>
     (\<exists>p p'. p \<in> set (tbRows (psPolls st)) \<and> plID p = pvPollID v \<and> incrementVotes (pvChoices v) p = Some p' \<and>
        tbRows (psPolls st') = map (setCountsRow (pvPollID v) p') (tbRows (psPolls st))) \<and>
     tbRows (psVotes st') = tbRows (psVotes st) @ [v]"

definition sameRest :: "pollstate \<Rightarrow> pollstate \<Rightarrow> bool" where
  "sameRest st st' \<longleftrightarrow> psLocalPolls st' = psLocalPolls st \<and> psUpdatedAt st' = psUpdatedAt st"

lemma putPollVote_ok:
  assumes inv: "pollInv st" and p: "putPollVote v st = (e, st')"
  shows "pollInv st'" and "if e = None then voted v st st' \<and> sameRest st st' else samePolls st st'"
proof -
  obtain r fs where tx: "putPollVoteTx v (tbRows (psPolls st)) (tbRows (psVotes st)) (psFaults st) = (r, fs)"
    by fastforce
  have "pollInv st' \<and> (if e = None then voted v st st' \<and> sameRest st st' else samePolls st st')"
  proof (cases r)
    case (Inl err)
    have q: "pquiet (st\<lparr>psFaults := fs\<rparr>) st'" and e: "e = Some err"
      using p tx Inl pquiet_runHooks[of "st\<lparr>psFaults := fs\<rparr>"] by (auto simp: putPollVote_def split: if_splits)
    show ?thesis
      using pquiet_inv[OF q] inv pquiet_rows[OF q] e by (simp add: samePolls_def)
  next
    case (Inr pv)
    obtain polls votes where pv: "pv = (polls, votes)" by fastforce
    have tb: "tblOK voteIxs (psVotes st)" "tableOK voteIxs (tbRows (psVotes st))"
      using inv by (simp_all add: pollInv_def tblOK_def)
    from putPollVoteTx_Inr[OF tx[unfolded Inr pv] tb(2)] obtain q q'
      where t: "votes = tbRows (psVotes st) @ [v]" "tableOK voteIxs votes" "q \<in> set (tbRows (psPolls st))"
        "plID q = pvPollID v" "incrementVotes (pvChoices v) q = Some q'"
        "polls = map (setCountsRow (pvPollID v) q') (tbRows (psPolls st))" by metis
    let ?st0 = "st\<lparr>psFaults := fs, psPolls := (psPolls st)\<lparr>tbRows := polls\<rparr>,
               psVotes := \<lparr>tbRows = votes, tbCache = storeValue voteIxs None v (tbCache (psVotes st))\<rparr>\<rparr>"
    have st': "st' = runHooks [CallVote (pvPollID v)] ?st0" and e: "e = None"
      using p tx Inr pv by (auto simp: putPollVote_def)
    have quiet: "pquiet ?st0 st'" unfolding st' by (rule pquiet_runHooks)
    have "cacheInv voteIxs votes (storeValue voteIxs None v (tbCache (psVotes st)))"
      by (rule vot.cacheInv_storeValue[of "tbRows (psVotes st)"])
         (use tb t(2) in \<open>auto simp: t(1) tblOK_def\<close>)
    then have cv: "cacheInv voteIxs votes (tbCache (psVotes st'))"
      using pquiet_rows(4)[OF quiet] by simp
    have q': "plVotes q' \<noteq> None \<and> plVoters q' \<noteq> None"
      using incrementVotes_sel[OF t(5)] inv t(3) by (simp add: pollInv_def)
    have "pollInv st'"
    proof (rule pollInv_change[OF inv _ _ _ _ quiet _ _ _ t(2) cv])
      show "psPolls ?st0 = (psPolls st)\<lparr>tbRows := map (setCountsRow (pvPollID v) q') (tbRows (psPolls st))\<rparr>"
        by (simp add: t(6))
      show "holders (key1 ''ID'' (pvPollID v)) (tbCache (psPolls st')) = []"
        unfolding st' by (rule runHooks_vote) simp
      show "psVoteIDs st' (pvPollID v) = None"
        unfolding st' by (rule runHooks_IDs) simp
    qed (use inv q' in \<open>auto simp: setCountsRow_keeps pollInv_def newSelectPollVotes_def t(1)\<close>)
    moreover have "voted v st st'" "sameRest st st'"
      using pquiet_rows[OF quiet] t by (auto simp: voted_def sameRest_def)
    ultimately show ?thesis using e by simp
  qed
  then show "pollInv st'" and "if e = None then voted v st st' \<and> sameRest st st' else samePolls st st'" by auto
qed

text \<open>The vote of an account in a poll: there is one at most.\<close>

lemma vote_unique:
  assumes "tableOK voteIxs votes" and "v \<in> set votes" and "w \<in> set votes"
    and "pvPollID v = pvPollID w" and "pvAccountID v = pvAccountID w"
  shows "v = w"
  using vot.tableOK_unique[OF assms(1) poll_indices(3) poll_indices(6) assms(2,3)] assms(4,5) by simp

lemma poll_unique:
  assumes "tableOK pollIxs polls" and "p \<in> set polls" and "q \<in> set polls" and "plID p = plID q"
  shows "p = q"
  using pol.tableOK_unique[OF assms(1) poll_indices(1) ixFields_poll(5) assms(2,3)] assms(4) by simp

text \<open>The effect of the deletion of a vote on the tables.\<close>

definition unvoted :: "string \<Rightarrow> string \<Rightarrow> pollstate \<Rightarrow> pollstate \<Rightarrow> bool" where
  "unvoted i a st st' \<longleftrightarrow>
     tbRows (psVotes st') = filter (\<lambda>v. \<not> (pvPollID v = i \<and> pvAccountID v = a)) (tbRows (psVotes st)) \<and>
     (tbRows (psPolls st') = tbRows (psPolls st) \<and>
        (tbRows (psVotes st') = tbRows (psVotes st) \<or> i \<notin> plID ` set (tbRows (psPolls st))) \<or>
      (\<exists>v p p'. v \<in> set (tbRows (psVotes st)) \<and> pvPollID v = i \<and> pvAccountID v = a \<and>
        p \<in> set (tbRows (psPolls st)) \<and> plID p = i \<and> decrementVotes (pvChoices v) p = Some p' \<and>
        tbRows (psPolls st') = map (setCountsRow i p') (tbRows (psPolls st))))"

lemma deletePollVoteByTx_Inr:
  assumes tx: "deletePollVoteByTx i a polls votes fs = (Inr (polls', votes'), fs')" and tb: "tableOK voteIxs votes"
  shows "votes' = filter (\<lambda>v. \<not> (pvPollID v = i \<and> pvAccountID v = a)) votes"
    and "polls' = polls \<and> (votes' = votes \<or> i \<notin> plID ` set polls) \<or>
      (\<exists>v p p'. v \<in> set votes \<and> pvPollID v = i \<and> pvAccountID v = a \<and> p \<in> set polls \<and> plID p = i \<and>
         decrementVotes (pvChoices v) p = Some p' \<and> polls' = map (setCountsRow i p') polls)"
proof -
  let ?P = "\<lambda>v. pvPollID v = i \<and> pvAccountID v = a"
  let ?cs = "map pvChoices (filter ?P votes)"
  from tx obtain fs1 fs2 fs3 vs where d: "deleteRows ?P votes fs1 = (Inr vs, fs2)"
    and c: "(if length ?cs \<noteq> 1 then (Inr (polls, vs), fs2)
       else
         (case selectRow (\<lambda>p. plID p = i) polls fs2 of
            (Inl e, fs2) \<Rightarrow> (if e = LNoEntries then Inr (polls, vs) else Inl e, fs2)
          | (Inr p, fs2) \<Rightarrow>
              (case decrementVotes (hd ?cs) p of
                 None \<Rightarrow> (Inl LPanic, fs2)
               | Some p' \<Rightarrow> andThen (setCounts i p' polls fs2) (\<lambda>polls' fs3. (Inr (polls', vs), fs3))))) =
       (Inr (polls', votes'), fs3)"
    unfolding deletePollVoteByTx_def Let_def by (elim runInTx_Inr andThen_Inr) (rule that)
  have vs: "vs = filter (\<lambda>v. \<not> ?P v) votes"
    using d by (auto simp: deleteRows_def split: prod.splits option.splits)
  have "votes' = vs \<and> (polls' = polls \<and> (votes' = votes \<or> i \<notin> plID ` set polls) \<or>
      (\<exists>v p p'. v \<in> set votes \<and> pvPollID v = i \<and> pvAccountID v = a \<and> p \<in> set polls \<and> plID p = i \<and>
         decrementVotes (pvChoices v) p = Some p' \<and> polls' = map (setCountsRow i p') polls))"
  proof (cases "length (filter ?P votes) = 1")
    case False
    have "filter ?P votes = []"
    proof (rule ccontr)
      assume "filter ?P votes \<noteq> []"
      then obtain v ws where f: "filter ?P votes = v # ws" by (cases "filter ?P votes") auto
      have "distinct (filter ?P votes)" using tb by (simp add: tableOK_def)
      moreover have "w = v" if "w \<in> set ws" for w
      proof -
        have "w \<in> set (filter ?P votes)" "v \<in> set (filter ?P votes)" using that f by auto
        then show ?thesis using vote_unique[OF tb, of w v] by simp
      qed
      ultimately have "ws = []" using f by (cases ws) auto
      then show False using False f by simp
    qed
    then have "vs = votes" by (simp add: vs filter_empty_conv filter_id_conv)
    then show ?thesis using c False by simp
  next
    case True
    then obtain v where f: "filter ?P votes = [v]" by (auto simp: length_Suc_conv)
    then have "v \<in> set (filter ?P votes)" by simp
    then have v: "v \<in> set votes" "pvPollID v = i" "pvAccountID v = a" by simp_all
    obtain r fs4 where s: "selectRow (\<lambda>p. plID p = i) polls fs2 = (r, fs4)" by fastforce
    show ?thesis
    proof (cases r)
      case (Inl e)
      then have e: "e = LNoEntries" "polls' = polls" "votes' = vs"
        using c s f by (auto split: if_splits)
      have "i \<notin> plID ` set polls"
        using s Inl e(1) nextFault_ignored
        by (fastforce simp: selectRow_def find_None_iff ignoreErrors_def split: prod.splits option.splits)
      then show ?thesis using e by simp
    next
      case (Inr p)
      then obtain p' fs5 where p': "decrementVotes (pvChoices v) p = Some p'" "votes' = vs"
          "setCounts i p' polls fs4 = (Inr polls', fs5)"
        using c s f by (auto split: option.splits elim!: andThen_Inr)
      then show ?thesis using setCounts_Inr[OF p'(3)] selectRow_Inr[OF s[unfolded Inr]] v by blast
    qed
  qed
  then show "votes' = filter (\<lambda>v. \<not> (pvPollID v = i \<and> pvAccountID v = a)) votes"
    and "polls' = polls \<and> (votes' = votes \<or> i \<notin> plID ` set polls) \<or>
      (\<exists>v p p'. v \<in> set votes \<and> pvPollID v = i \<and> pvAccountID v = a \<and> p \<in> set polls \<and> plID p = i \<and>
         decrementVotes (pvChoices v) p = Some p' \<and> polls' = map (setCountsRow i p') polls)"
    using vs by auto
qed

lemma deletePollVoteBy_ok:
  assumes inv: "pollInv st" and d: "deletePollVoteBy i a st = (e, st')"
  shows "pollInv st'" and "if e = None then unvoted i a st st' \<and> sameRest st st' else samePolls st st'"
proof -
  obtain r fs where tx: "deletePollVoteByTx i a (tbRows (psPolls st)) (tbRows (psVotes st)) (psFaults st) = (r, fs)"
    by fastforce
  have "pollInv st' \<and> (if e = None then unvoted i a st st' \<and> sameRest st st' else samePolls st st')"
  proof (cases r)
    case (Inl err)
    then show ?thesis using d tx inv by (auto simp: deletePollVoteBy_def samePolls_def)
  next
    case (Inr pv)
    obtain polls votes where pv: "pv = (polls, votes)" by fastforce
    have tb: "tableOK voteIxs (tbRows (psVotes st))" "cacheInv voteIxs (tbRows (psVotes st)) (tbCache (psVotes st))"
      using inv by (simp_all add: pollInv_def tblOK_def)
    note t = deletePollVoteByTx_Inr[OF tx[unfolded Inr pv] tb(1)]
    let ?st0 = "st\<lparr>psFaults := fs, psPolls := (psPolls st)\<lparr>tbRows := polls\<rparr>,
               psVotes := (psVotes st)\<lparr>tbRows := votes\<rparr>\<rparr>"
    let ?st1 = "invalidatePoll i ?st0"
    let ?st2 = "invalidateVotes (votePairKey i a) ?st1"
    have st': "st' = invalidateVoteIDs i ?st2" and e: "e = None"
      using d tx Inr pv by (auto simp: deletePollVoteBy_def)
    have q12: "pquiet ?st1 st'" unfolding st'
      by (rule pquiet_trans[OF pquiet_invalidate(2) pquiet_voteIDs])
    have quiet: "pquiet ?st0 st'"
      by (rule pquiet_trans[OF pquiet_invalidate(1) q12])
    have "holders (votePairKey i a) (tbCache (psVotes ?st2)) = []"
      by (rule invalidateVotes_gone)
    from pquiet_holders(2)[OF pquiet_voteIDs this, of i]
    have gone: "holders (ixKey votePair [i, a]) (tbCache (psVotes st')) = []"
      unfolding st' poll_keys(3) .
    have "cacheInv voteIxs (tbRows (psVotes st)) (tbCache (psVotes st'))"
      using pquiet_rows(4)[OF quiet] tb(2) by simp
    then have cv: "cacheInv voteIxs votes (tbCache (psVotes st'))"
      by (rule vot.cacheInv_unless[OF _ poll_indices(3) poll_indices(6) _ gone]) (auto simp: t(1))
    obtain g where g: "polls = map g (tbRows (psPolls st))"
      "\<And>p. p \<in> set (tbRows (psPolls st)) \<Longrightarrow> plID (g p) = plID p \<and> plStatusID (g p) = plStatusID p \<and> pollRowOK (g p)"
      "\<And>p. p \<in> set (tbRows (psPolls st)) \<Longrightarrow> plID p \<noteq> i \<Longrightarrow> g p = p"
      using t(2)
    proof (elim disjE)
      assume "polls = tbRows (psPolls st) \<and> (votes = tbRows (psVotes st) \<or> i \<notin> plID ` set (tbRows (psPolls st)))"
      then show ?thesis using that[of "\<lambda>p. p"] inv by (simp add: pollInv_def)
    next
      assume "\<exists>v p p'. v \<in> set (tbRows (psVotes st)) \<and> pvPollID v = i \<and> pvAccountID v = a \<and> p \<in> set (tbRows (psPolls st)) \<and>
         plID p = i \<and> decrementVotes (pvChoices v) p = Some p' \<and> polls = map (setCountsRow i p') (tbRows (psPolls st))"
      then obtain v p p' where p: "p \<in> set (tbRows (psPolls st))" "decrementVotes (pvChoices (v :: poll_vote)) p = Some p'"
        "polls = map (setCountsRow i p') (tbRows (psPolls st))" by blast
      have "plVotes p' \<noteq> None \<and> plVoters p' \<noteq> None"
        using decrementVotes_sel[OF p(2)] inv p(1) by (simp add: pollInv_def)
      then show ?thesis using that[of "setCountsRow i p'"] p(3) inv by (simp add: setCountsRow_keeps pollInv_def)
    qed
    have "pollInv st'"
    proof (rule pollInv_change[OF inv g(2,3) _ _ quiet _ _ _ _ cv])
      show "psPolls ?st0 = (psPolls st)\<lparr>tbRows := map g (tbRows (psPolls st))\<rparr>" by (simp add: g(1))
      show "holders (key1 ''ID'' i) (tbCache (psPolls st')) = []"
        by (rule pquiet_holders(1)[OF q12 invalidatePoll_gone])
      show "psVoteIDs st' i = None" by (simp add: st' invalidateVoteIDs_def invalidateSlices_def)
      show "tableOK voteIxs votes" unfolding t(1) by (rule vot.tableOK_subset[OF tb(1)])
      show "newSelectPollVotes j votes = newSelectPollVotes j (tbRows (psVotes st))" if "j \<noteq> i" for j
      proof -
        have "filter (\<lambda>v. pvPollID v = j) votes = filter (\<lambda>v. pvPollID v = j) (tbRows (psVotes st))"
          unfolding t(1) filter_filter by (rule filter_cong) (use that in auto)
        then show ?thesis by (simp add: newSelectPollVotes_def)
      qed
    qed simp_all
    moreover have "unvoted i a st st'" "sameRest st st'"
      using pquiet_rows[OF quiet] t by (auto simp: unvoted_def sameRest_def)
    ultimately show ?thesis using e by simp
  qed
  then show "pollInv st'" and "if e = None then unvoted i a st st' \<and> sameRest st st' else samePolls st st'" by auto
qed

end
