(* ===== verification/PollHistory.thy ===== *)
theory PollHistory
  imports PollProps RelationshipHistory
begin

text \<open>
  Histories of the poll tables: any sequence of the operations of \<open>Polls\<close> with faults and
  evictions. The caches agree with the tables in all of them, and the counters of a local poll
  are the sums of its votes. Two operations are shown to break the caches at the end.
\<close>

subsection \<open>Polls that come, change and go\<close>

definition pollPut :: "poll \<Rightarrow> poll" where
  "pollPut p = copyPoll (checkVotes p)"

lemma putPoll_ok:
  assumes inv: "pollInv st" and p: "putPoll p st = (e, st')"
  shows "pollInv st' \<and> sameRest st st' \<and> tbRows (psVotes st') = tbRows (psVotes st) \<and>
    tbRows (psPolls st') = (if e = None then tbRows (psPolls st) @ [pollPut p] else tbRows (psPolls st))"
proof -
  obtain fs t where s: "storeRow pollIxs (pollPut p) (insertRow pollIxs (pollPut p)) (psFaults st) (psPolls st) = (e, fs, t)"
      and st': "st' = runHooks [CallPoll (plID (pollPut p))] (st\<lparr>psPolls := t, psFaults := fs\<rparr>)"
    using p by (auto simp: putPoll_def pollPut_def Let_def split: prod.splits)
  have "tblOK pollIxs (psPolls st)" using inv by (simp add: pollInv_def)
  note t = pol.storeRow_insert[OF this s]
  have q: "pquiet (st\<lparr>psPolls := t, psFaults := fs\<rparr>) st'" unfolding st' by (rule pquiet_runHooks)
  have "pollInv (st\<lparr>psPolls := t, psFaults := fs\<rparr>)"
    using inv t by (auto simp: pollInv_def pollPut_def)
  from pquiet_inv[OF q this] show ?thesis
    using pquiet_rows[OF q] t(2) by (simp add: sameRest_def)
qed

lemma pollCols_keeps:
  "plID (pollCols cols p x) = plID x" "plStatusID (pollCols cols p x) = plStatusID x"
  "pollRowOK x \<Longrightarrow> plVotes p \<noteq> None \<Longrightarrow> plVoters p \<noteq> None \<Longrightarrow> pollRowOK (pollCols cols p x)"
  by (induction cols arbitrary: x) (auto simp: pollCols_def pollCol_def pollRowOK_def)

text \<open>The poll handed to an update is its row, but for the columns that are set.\<close>

definition pollVersion :: "string list \<Rightarrow> poll \<Rightarrow> poll \<Rightarrow> bool" where
  "pollVersion cols r p \<longleftrightarrow> pollCols cols (checkVotes p) r = pollPut p"

definition pollUpdated :: "poll \<Rightarrow> string list \<Rightarrow> poll \<Rightarrow> poll" where
  "pollUpdated p cols x = (if plID x = plID p then pollCols cols (checkVotes p) x else x)"

lemma pollUpdated_ok: "pollRowOK x \<Longrightarrow> pollRowOK (pollUpdated p cols x)"
  by (simp add: pollUpdated_def pollCols_keeps(3) checkVotes_sel(6,7))

lemma updatePollTx_Inr:
  "updatePollTx now cols p rows upd fs = (Inr (rows', upd'), fs') \<Longrightarrow>
    rows' = map (\<lambda>x. if plID x = plID p then pollCols cols p x else x) rows \<and> upd' = upd(plStatusID p := now)"
  unfolding updatePollTx_def
  by (elim runInTx_Inr) (auto simp: updateRow_def andThen_def split: prod.splits option.splits sum.splits)

lemma updatePoll_ok:
  assumes inv: "pollInv st" and r: "r \<in> set (tbRows (psPolls st))" "pollVersion cols r p"
    and u: "updatePoll now p cols st = (e, st')"
  shows "pollInv st' \<and> tbRows (psVotes st') = tbRows (psVotes st) \<and> psLocalPolls st' = psLocalPolls st \<and>
    tbRows (psPolls st') = (if e = None then map (pollUpdated p cols) (tbRows (psPolls st)) else tbRows (psPolls st))"
proof -
  let ?p = "checkVotes p" and ?rows = "tbRows (psPolls st)"
  obtain res fs where tx: "updatePollTx now cols ?p ?rows (psUpdatedAt st) (psFaults st) = (res, fs)" by fastforce
  show ?thesis
  proof (cases res)
    case (Inl err)
    have q: "pquiet (st\<lparr>psFaults := fs\<rparr>) st'" and e: "e = Some err"
      using u tx Inl pquiet_runHooks[of "st\<lparr>psFaults := fs\<rparr>"] by (auto simp: updatePoll_def Let_def)
    show ?thesis using pquiet_inv[OF q] inv pquiet_rows[OF q] e by simp
  next
    case (Inr ru)
    obtain rows upd where ru: "ru = (rows, upd)" by fastforce
    have rows: "rows = map (pollUpdated p cols) ?rows"
      using updatePollTx_Inr[OF tx[unfolded Inr ru]] by (simp add: pollUpdated_def)
    let ?st0 = "st\<lparr>psFaults := fs, psUpdatedAt := upd,
                  psPolls := \<lparr>tbRows = rows, tbCache = storeValue pollIxs None (pollPut p) (tbCache (psPolls st))\<rparr>\<rparr>"
    have st': "st' = runHooks [CallPoll (plID ?p)] ?st0" and e: "e = None"
      using u tx Inr ru by (auto simp: updatePoll_def Let_def pollPut_def)
    have tb: "tableOK pollIxs ?rows" "cacheInv pollIxs ?rows (tbCache (psPolls st))"
      using inv by (simp_all add: pollInv_def tblOK_def)
    have id: "plID r = plID p" and sid: "plStatusID r = plStatusID p"
      using arg_cong[OF r(2)[unfolded pollVersion_def], of plID] arg_cong[OF r(2)[unfolded pollVersion_def], of plStatusID]
      by (simp_all add: pollCols_keeps pollPut_def copyPoll_def)
    have one: "x = r" if "x \<in> set ?rows" "plID x = plID p" for x
      using poll_unique[OF tb(1) that(1) r(1)] that(2) id by simp
    have row: "pollUpdated p cols x = (if x = r then pollPut p else x)" if "x \<in> set ?rows" for x
    proof (cases "x = r")
      case True
      then show ?thesis using id r(2) by (simp only: pollUpdated_def pollVersion_def if_True simp_thms)
    next
      case False
      then have "plID x \<noteq> plID p" using one[OF that] by blast
      then show ?thesis using False by (simp add: pollUpdated_def)
    qed
    have fields: "ixFields i (pollUpdated p cols x) = ixFields i x" if "i \<in> set pollIxs" for i x
      by (rule poll_fields[OF that]) (simp_all add: pollUpdated_def pollCols_keeps)
    have tab: "tableOK pollIxs rows"
      unfolding rows by (rule pol.tableOK_map[OF tb(1)]) (rule fields)
    have c: "cacheInv pollIxs rows (storeValue pollIxs None (pollPut p) (tbCache (psPolls st)))"
    proof (rule pol.cacheInv_storeValue[OF tb(2) tab])
      show "pollPut p \<in> set rows" using r(1) row unfolding rows by force
      show "set rows \<subseteq> insert (pollPut p) (set ?rows)" using row unfolding rows by auto
      fix w i assume "w \<in> set ?rows" "w \<notin> set rows" "i \<in> set pollIxs" "\<not> ixMultiple i"
      then have "w = r" using row unfolding rows by (metis image_eqI list.set_map)
      then show "ixFields i w = ixFields i (pollPut p)"
        using poll_fields[OF \<open>i \<in> set pollIxs\<close>, of r "pollPut p"] id sid by (simp add: pollPut_def copyPoll_def)
    qed simp
    have "pollInv ?st0"
      using inv c tab by (auto simp: pollInv_def tblOK_def rows pollUpdated_ok)
    moreover have q: "pquiet ?st0 st'" unfolding st' by (rule pquiet_runHooks)
    ultimately show ?thesis
      using pquiet_inv[OF q] pquiet_rows[OF q] e rows by simp
  qed
qed

lemma deletePollByID_ok:
  assumes inv: "pollInv st" and d: "deletePollByID i st = (e, st')"
  shows "pollInv st' \<and> sameRest st st' \<and> tbRows (psVotes st') = tbRows (psVotes st) \<and>
    tbRows (psPolls st') = (if e = None then filter (\<lambda>p. plID p \<noteq> i) (tbRows (psPolls st)) else tbRows (psPolls st))"
proof -
  let ?rows = "tbRows (psPolls st)"
  obtain r fs where del: "deleteRows (\<lambda>p. plID p = i) ?rows (psFaults st) = (r, fs)" by fastforce
  show ?thesis
  proof (cases r)
    case (Inl err)
    then show ?thesis using d del inv by (auto simp: deletePollByID_def execDelete_def Let_def sameRest_def pollInv_def)
  next
    case (Inr rows)
    then have rows: "rows = filter (\<lambda>p. plID p \<noteq> i) ?rows"
      using del by (auto simp: deleteRows_def split: prod.splits option.splits)
    let ?st0 = "st\<lparr>psPolls := (psPolls st)\<lparr>tbRows := rows\<rparr>, psFaults := fs\<rparr>"
    have st': "st' = invalidateVoteIDs i (invalidatePoll i ?st0)" and e: "e = None"
      using d del Inr by (auto simp: deletePollByID_def execDelete_def Let_def)
    have tb: "tableOK pollIxs ?rows" "cacheInv pollIxs ?rows (tbCache (psPolls st))"
      using inv by (simp_all add: pollInv_def tblOK_def)
    have q: "pquiet ?st0 st'" unfolding st' by (rule pquiet_trans[OF pquiet_invalidate(1) pquiet_voteIDs])
    have gone: "holders (ixKey pollID [i]) (tbCache (psPolls st')) = []"
      unfolding st' poll_keys(1)[symmetric] by (rule pquiet_holders(1)[OF pquiet_voteIDs invalidatePoll_gone])
    have "cacheInv pollIxs ?rows (tbCache (psPolls st'))"
      using pquiet_rows(3)[OF q] tb(2) by simp
    then have "cacheInv pollIxs rows (tbCache (psPolls st'))"
      by (rule pol.cacheInv_unless[OF _ poll_indices(1) ixFields_poll(5) _ gone]) (auto simp: rows)
    moreover have "tableOK pollIxs rows" unfolding rows by (rule pol.tableOK_subset[OF tb(1)])
    moreover have "pollInv (st\<lparr>psFaults := fs\<rparr>)" using inv by simp
    then have "tblOK voteIxs (psVotes st')" "voteSlicesOK (tbRows (psVotes st')) (psVoteIDs st')"
      using pquiet_rows(2)[OF q] pquiet_rows(4)[OF q] pquiet_some[OF q] by (auto simp: pollInv_def tblOK_def voteSlicesOK_def)
    ultimately show ?thesis
      using pquiet_rows[OF q] inv rows e by (simp add: pollInv_def tblOK_def sameRest_def)
  qed
qed

subsection \<open>Lookups that look further rows up\<close>

lemma collectPolls_ok:
  assumes "pollInv st" and "collectPolls is st = (ps, st')"
  shows "pollInv st' \<and> samePolls st st' \<and> (psFaults st = [] \<longrightarrow> psFaults st' = [] \<and>
    ps = concat (map (\<lambda>i. case pollRow st i of Inl _ \<Rightarrow> [] | Inr p \<Rightarrow> [p]) is))"
  using assms
proof (induction "is" arbitrary: st ps st')
  case (Cons i "is")
  obtain r st1 where g: "getPollByID' i st = (r, st1)" by fastforce
  from getPollByID'_ok[OF Cons.prems(1), of i] have
    ok: "pollInv st1" "samePolls st st1" "psFaults st = [] \<longrightarrow> r = pollRow st i \<and> psFaults st1 = []"
    unfolding g preadOK_def by simp_all
  obtain qs st2 where c: "collectPolls is st1 = (qs, st2)" by fastforce
  have row: "pollRow st1 = pollRow st" using ok(2) by (auto simp: samePolls_def pollRow_def)
  have st': "st' = st2" "ps = (case r of Inl _ \<Rightarrow> qs | Inr p \<Rightarrow> p # qs)"
    using Cons.prems(2) g c by (auto split: sum.splits)
  show ?case
    using Cons.IH[OF ok(1) c] ok(2,3) samePolls_trans[OF ok(2)] row st' by (auto split: sum.splits)
qed simp

lemma populatePollVote_ok:
  assumes "pollInv st" and "populatePollVote acct v st = (e, st')"
  shows "pollInv st' \<and> samePolls st st'"
  using getPollByID'_ok[OF assms(1), of "pvPollID v"] assms(2)
  by (auto simp: populatePollVote_def preadOK_def split: prod.splits)

lemma keepPopulated_ok:
  assumes "pollInv st" and "keepPopulated acct vs st = (ws, st')"
  shows "pollInv st' \<and> samePolls st st' \<and> set ws \<subseteq> set vs"
  using assms
proof (induction vs arbitrary: st ws st')
  case (Cons v vs)
  obtain e st1 where p: "populatePollVote acct v st = (e, st1)" by fastforce
  obtain us st2 where k: "keepPopulated acct vs st1 = (us, st2)" by fastforce
  note ok = populatePollVote_ok[OF Cons.prems(1) p]
  have "st' = st2" "set ws \<subseteq> insert v (set us)"
    using Cons.prems(2) p k by (auto split: option.splits)
  then show ?case
    using Cons.IH[of st1 us] ok k samePolls_trans[of st st1 st2] by auto
qed simp

lemma getOpenPolls_ok:
  assumes "pollInv st" and "getOpenPolls st = (r, st')"
  shows "pollInv st' \<and> samePolls st st'"
proof (cases "nextFault (psFaults st)")
  case (Pair f fs)
  show ?thesis
  proof (cases f)
    case None
    let ?ids = "map plID (filter (\<lambda>p. plID p \<in> set (psLocalPolls st) \<and> plClosedAt p = 0) (tbRows (psPolls st)))"
    obtain ps st1 where c: "collectPolls ?ids (st\<lparr>psFaults := fs\<rparr>) = (ps, st1)" by fastforce
    have "pollInv (st\<lparr>psFaults := fs\<rparr>)" using assms(1) by simp
    from collectPolls_ok[OF this c] show ?thesis
      using assms(2) Pair None c by (simp add: getOpenPolls_def samePolls_def)
  next
    case (Some e)
    then show ?thesis using assms Pair by (auto simp: getOpenPolls_def samePolls_def)
  qed
qed

lemma getPollVoteBy_ok:
  assumes "pollInv st" and "getPollVoteBy acct i a st = (r, st')"
  shows "pollInv st' \<and> samePolls st st'"
proof -
  obtain r0 st1 where g: "getPollVoteBy' i a st = (r0, st1)" by fastforce
  from getPollVoteBy'_ok[OF assms(1), of i a] have ok: "pollInv st1" "samePolls st st1"
    unfolding g preadOK_def by simp_all
  show ?thesis
  proof (cases r0)
    case (Inl e)
    then show ?thesis using assms(2) g ok by (simp add: getPollVoteBy_def populatedVote_def)
  next
    case (Inr v)
    obtain e st2 where p: "populatePollVote acct v st1 = (e, st2)" by fastforce
    from populatePollVote_ok[OF ok(1) p] show ?thesis
      using assms(2) g ok Inr p samePolls_trans[of st st1 st2]
      by (auto simp: getPollVoteBy_def populatedVote_def split: option.splits)
  qed
qed

lemma getPollVotes_ok:
  assumes "pollInv st" and "getPollVotes acct i st = (r, st')"
  shows "pollInv st' \<and> samePolls st st'"
proof -
  obtain r0 st1 where g: "getPollVotes' i st = (r0, st1)" by fastforce
  from getPollVotes'_ok[OF assms(1), of i] have ok: "pollInv st1" "samePolls st st1"
    unfolding g preadOK_def by simp_all
  show ?thesis
  proof (cases r0)
    case (Inl e)
    then show ?thesis using assms(2) g ok by (simp add: getPollVotes_def)
  next
    case (Inr vs)
    obtain ws st2 where k: "keepPopulated acct vs st1 = (ws, st2)" by fastforce
    from keepPopulated_ok[OF ok(1) k] show ?thesis
      using assms(2) g ok Inr k samePolls_trans[of st st1 st2] by (auto simp: getPollVotes_def)
  qed
qed

subsection \<open>Counters and votes\<close>

definition tally :: "string \<Rightarrow> nat \<Rightarrow> poll_vote list \<Rightarrow> nat" where
  "tally i k votes = sum_list (map (\<lambda>v. count_list (pvChoices v) (int k)) (filter (\<lambda>v. pvPollID v = i) votes))"

definition votersOf :: "string \<Rightarrow> poll_vote list \<Rightarrow> nat" where
  "votersOf i votes = length (filter (\<lambda>v. pvPollID v = i \<and> pvChoices v \<noteq> []) votes)"

definition countsOK :: "poll_vote list \<Rightarrow> poll \<Rightarrow> bool" where
  "countsOK votes p \<longleftrightarrow>
     plVotes p = Some (map (\<lambda>k. int (tally (plID p) k votes)) [0..<length (plOptions p)]) \<and>
     plVoters p = Some (int (votersOf (plID p) votes)) \<and>
     (\<forall>v \<in> set votes. pvPollID v = plID p \<longrightarrow>
        (\<forall>c \<in> set (pvChoices v). 0 \<le> c \<and> c < int (length (plOptions p))))"

definition countsInv :: "pollstate \<Rightarrow> bool" where
  "countsInv st \<longleftrightarrow> (\<forall>p \<in> set (tbRows (psPolls st)). countsOK (tbRows (psVotes st)) p)"

lemma map_upd_upt: "c < n \<Longrightarrow> (map f [0..<n])[c := x] = map (f(c := x)) [0..<n]"
  by (rule nth_equalityI) (auto simp: nth_list_update)

lemma addChoices_counts:
  "addChoices cs (map f [0..<n]) = Some vs \<Longrightarrow>
    vs = map (\<lambda>k. f k + int (count_list cs (int k))) [0..<n] \<and> (\<forall>c \<in> set cs. 0 \<le> c \<and> c < int n)"
proof (induction cs arbitrary: f)
  case (Cons c cs)
  from Cons.prems have r: "0 \<le> c" "nat c < n"
    by (auto simp: inRange_def split: if_splits)
  have "addChoices cs (map (f(nat c := f (nat c) + 1)) [0..<n]) = Some vs"
    using Cons.prems r by (simp add: map_upd_upt split: if_splits)
  from Cons.IH[OF this] r show ?case by (auto simp: nat_eq_iff)
qed simp

lemma subChoices_counts:
  "(\<And>k. count_list cs (int k) \<le> f k) \<Longrightarrow> (\<forall>c \<in> set cs. 0 \<le> c \<and> c < int n) \<Longrightarrow>
    subChoices cs (map (\<lambda>k. int (f k)) [0..<n]) = Some (map (\<lambda>k. int (f k - count_list cs (int k))) [0..<n])"
proof (induction cs arbitrary: f)
  case (Cons c cs)
  let ?f = "f(nat c := f (nat c) - 1)"
  have r: "0 \<le> c" "nat c < n" using Cons.prems(2) by auto
  have pos: "f (nat c) \<noteq> 0" using Cons.prems(1)[of "nat c"] r(1) by simp
  have "count_list cs (int k) \<le> ?f k" for k
    using Cons.prems(1)[of k] r(1) by (auto split: if_splits)
  moreover have "\<forall>c \<in> set cs. 0 \<le> c \<and> c < int n" using Cons.prems(2) by simp
  ultimately have "subChoices cs (map (\<lambda>k. int (?f k)) [0..<n]) = Some (map (\<lambda>k. int (?f k - count_list cs (int k))) [0..<n])"
    by (rule Cons.IH)
  moreover have "(map (\<lambda>k. int (f k)) [0..<n])[nat c := int (f (nat c)) - 1] = map (\<lambda>k. int (?f k)) [0..<n]"
    using r pos by (subst map_upd_upt) (auto simp: of_nat_diff)
  moreover have "map (\<lambda>k. int (?f k - count_list cs (int k))) [0..<n] =
      map (\<lambda>k. int (f k - count_list (c # cs) (int k))) [0..<n]"
    using r(1) by auto
  ultimately show ?case using r pos by (simp add: inRange_def)
qed simp

lemma incrementVotes_counts:
  assumes "incrementVotes cs p = Some p'" and "pollRowOK p" and "plVotes p = Some (map f [0..<n])"
  shows "plVotes p' = Some (map (\<lambda>k. f k + int (count_list cs (int k))) [0..<n])"
    and "plVoters p' = Some (the (plVoters p) + (if cs = [] then 0 else 1))"
    and "\<forall>c \<in> set cs. 0 \<le> c \<and> c < int n"
  using assms addChoices_counts[of cs f n] by (auto simp: incrementVotes_def pollRowOK_def split: if_splits option.splits)

lemma decrementVotes_counts:
  assumes "decrementVotes cs p = Some p'" and "pollRowOK p" and "plVotes p = Some (map (\<lambda>k. int (f k)) [0..<n])"
    and "plVoters p = Some (int m)"
    and "\<And>k. count_list cs (int k) \<le> f k" and "\<forall>c \<in> set cs. 0 \<le> c \<and> c < int n"
  shows "plVotes p' = Some (map (\<lambda>k. int (f k - count_list cs (int k))) [0..<n])"
    and "plVoters p' = Some (int (if cs = [] then m else m - 1))"
  using assms(1-4) subChoices_counts[OF assms(5,6)]
  by (auto simp: decrementVotes_def pollRowOK_def of_nat_diff Let_def split: if_splits option.splits)

lemma countsOK_other:
  assumes "countsOK votes p"
    and "filter (\<lambda>v. pvPollID v = plID p) votes' = filter (\<lambda>v. pvPollID v = plID p) votes"
  shows "countsOK votes' p"
proof -
  have f: "filter (\<lambda>v. pvPollID v = i \<and> pvChoices v \<noteq> []) vs =
      filter (\<lambda>v. pvChoices v \<noteq> []) (filter (\<lambda>v. pvPollID v = i) vs)" for i vs
    by (simp add: conj_commute)
  have "tally (plID p) k votes' = tally (plID p) k votes" for k
    by (simp only: tally_def assms(2))
  moreover have "votersOf (plID p) votes' = votersOf (plID p) votes"
    by (simp only: votersOf_def f assms(2))
  moreover have "\<forall>v \<in> set votes'. pvPollID v = plID p \<longrightarrow>
      (\<forall>c \<in> set (pvChoices v). 0 \<le> c \<and> c < int (length (plOptions p)))"
  proof (intro ballI impI)
    fix v c assume v: "v \<in> set votes'" "pvPollID v = plID p" and c: "c \<in> set (pvChoices v)"
    then have "v \<in> set votes" using arg_cong[OF assms(2), of set] by auto
    then show "0 \<le> c \<and> c < int (length (plOptions p))"
      using assms(1) v(2) c by (simp add: countsOK_def)
  qed
  ultimately show ?thesis
    using assms(1) by (simp add: countsOK_def)
qed

lemma setCountsRow_sel [simp]:
  "plOptions (setCountsRow i q p) = plOptions p" "plID (setCountsRow i q p) = plID p"
  by (simp_all add: setCountsRow_def)

lemma countsInv_voted:
  assumes inv: "pollInv st" and c: "countsInv st" and v: "voted v st st'"
  shows "countsInv st'"
proof -
  let ?polls = "tbRows (psPolls st)" and ?votes = "tbRows (psVotes st)"
  from v obtain p p' where p: "p \<in> set ?polls" "plID p = pvPollID v" "incrementVotes (pvChoices v) p = Some p'"
    and polls: "tbRows (psPolls st') = map (setCountsRow (pvPollID v) p') ?polls"
    and votes: "tbRows (psVotes st') = ?votes @ [v]"
    by (auto simp: voted_def)
  have tb: "tableOK pollIxs ?polls" and row: "pollRowOK p"
    using inv p(1) by (simp_all add: pollInv_def tblOK_def)
  have cp: "countsOK ?votes p" using c p(1) by (simp add: countsInv_def)
  then have pv: "plVotes p = Some (map (\<lambda>k. int (tally (plID p) k ?votes)) [0..<length (plOptions p)])"
    by (simp add: countsOK_def)
  note inc = incrementVotes_counts[OF p(3) row pv]
  have "countsOK (?votes @ [v]) (setCountsRow (pvPollID v) p' q)" if q: "q \<in> set ?polls" for q
  proof (cases "plID q = pvPollID v")
    case True
    with poll_unique[OF tb q p(1)] p(2) have "q = p" by simp
    then show ?thesis
      using inc cp p(2) by (auto simp: countsOK_def setCountsRow_def tally_def votersOf_def)
  next
    case False
    have "countsOK (?votes @ [v]) q"
      by (rule countsOK_other[of ?votes]) (use c q False in \<open>auto simp: countsInv_def\<close>)
    then show ?thesis using False by (simp add: setCountsRow_def)
  qed
  then show ?thesis by (simp add: countsInv_def polls votes)
qed

lemma sum_list_split:
  fixes g :: "'a \<Rightarrow> nat"
  shows "sum_list (map g (filter P xs)) =
    sum_list (map g (filter (\<lambda>x. P x \<and> Q x) xs)) + sum_list (map g (filter (\<lambda>x. P x \<and> \<not> Q x) xs))"
  by (induction xs) auto

lemma single_vote:
  assumes "tableOK voteIxs votes" and "v \<in> set votes"
  shows "filter (\<lambda>w. pvPollID w = pvPollID v \<and> pvAccountID w = pvAccountID v) votes = [v]"
proof -
  have "filter (\<lambda>w. pvPollID w = pvPollID v \<and> pvAccountID w = pvAccountID v) votes = filter (\<lambda>w. w = v) votes"
    by (rule filter_cong) (use vote_unique[OF assms(1) _ assms(2)] in auto)
  also have "\<dots> = [v]"
  proof -
    have "filter (\<lambda>w. w = v) vs = (if v \<in> set vs then [v] else [])" if "distinct vs" for vs
      using that by (induction vs) auto
    then show ?thesis using assms by (simp add: tableOK_def)
  qed
  finally show ?thesis .
qed

lemma countsInv_unvoted:
  assumes inv: "pollInv st" and c: "countsInv st" and u: "unvoted i a st st'"
  shows "countsInv st'"
proof -
  let ?polls = "tbRows (psPolls st)" and ?votes = "tbRows (psVotes st)" and ?votes' = "tbRows (psVotes st')"
  have votes: "?votes' = filter (\<lambda>v. \<not> (pvPollID v = i \<and> pvAccountID v = a)) ?votes"
    using u by (simp add: unvoted_def)
  have other: "countsOK ?votes' q" if "q \<in> set ?polls" "plID q \<noteq> i" for q
  proof (rule countsOK_other[of ?votes])
    show "countsOK ?votes q" using c that by (simp add: countsInv_def)
    show "filter (\<lambda>v. pvPollID v = plID q) ?votes' = filter (\<lambda>v. pvPollID v = plID q) ?votes"
      unfolding votes filter_filter by (rule filter_cong) (use that in auto)
  qed
  from u consider
      (same) "tbRows (psPolls st') = ?polls" "?votes' = ?votes \<or> i \<notin> plID ` set ?polls"
    | (less) v p p' where "v \<in> set ?votes" "pvPollID v = i" "pvAccountID v = a" "p \<in> set ?polls" "plID p = i"
        "decrementVotes (pvChoices v) p = Some p'" "tbRows (psPolls st') = map (setCountsRow i p') ?polls"
    unfolding unvoted_def by blast
  then show ?thesis
  proof cases
    case same
    show ?thesis
      unfolding countsInv_def same(1)
    proof
      fix q assume q: "q \<in> set ?polls"
      show "countsOK ?votes' q"
        using same(2) other[OF q] c q by (auto simp: countsInv_def)
    qed
  next
    case less
    have tb: "tableOK pollIxs ?polls" "tableOK voteIxs ?votes" and row: "pollRowOK p"
      using inv less(4) by (simp_all add: pollInv_def tblOK_def)
    have cp: "countsOK ?votes p" using c less(4) by (simp add: countsInv_def)
    have one: "filter (\<lambda>w. pvPollID w = i \<and> pvAccountID w = a) ?votes = [v]"
      using single_vote[OF tb(2) less(1)] less(2,3) by simp
    have part: "filter (\<lambda>w. pvPollID w = i) ?votes' = filter (\<lambda>w. pvPollID w = i \<and> \<not> pvAccountID w = a) ?votes"
      unfolding votes filter_filter by (rule filter_cong) auto
    have t: "tally i k ?votes = count_list (pvChoices v) (int k) + tally i k ?votes'" for k
      unfolding tally_def part using sum_list_split[of _ "\<lambda>w. pvPollID w = i" ?votes "\<lambda>w. pvAccountID w = a"] one by simp
    have n: "votersOf i ?votes = (if pvChoices v = [] then 0 else 1) + votersOf i ?votes'"
    proof -
      have len: "length (filter (\<lambda>v. pvPollID v = i \<and> pvChoices v \<noteq> []) vs) =
          sum_list (map (\<lambda>v. if pvChoices v = [] then 0 else 1) (filter (\<lambda>v. pvPollID v = i) vs))" for vs
        by (induction vs) auto
      show ?thesis
        unfolding votersOf_def len part
        using sum_list_split[of _ "\<lambda>w. pvPollID w = i" ?votes "\<lambda>w. pvAccountID w = a"] one by simp
    qed
    have pv: "plVotes p = Some (map (\<lambda>k. int (tally i k ?votes)) [0..<length (plOptions p)])"
        "plVoters p = Some (int (votersOf i ?votes))" "\<forall>c \<in> set (pvChoices v). 0 \<le> c \<and> c < int (length (plOptions p))"
      using cp less(1,2,5) by (auto simp: countsOK_def)
    have le: "count_list (pvChoices v) (int k) \<le> tally i k ?votes" for k using t by simp
    note dec = decrementVotes_counts[OF less(6) row pv(1,2) le pv(3)]
    have "countsOK ?votes' (setCountsRow i p' q)" if q: "q \<in> set ?polls" for q
    proof (cases "plID q = i")
      case True
      with poll_unique[OF tb(1) q less(4)] less(5) have "q = p" by simp
      then show ?thesis
        using dec t n cp less(5) votes by (auto simp: countsOK_def setCountsRow_def)
    next
      case False
      then show ?thesis using other[OF q] by (simp add: setCountsRow_def)
    qed
    then show ?thesis by (simp add: countsInv_def less(7))
  qed
qed

subsection \<open>Histories\<close>

datatype poll_op =
    OpPutPoll poll
  | OpUpdatePoll time poll "string list"
  | OpDeletePoll string
  | OpPutVote poll_vote
  | OpDeleteVote string string
  | OpDeleteVotesOf string
  | OpGetPoll string
  | OpGetVote string string
  | OpGetVotes string
  | OpOpenPolls

fun pollStep :: "(string \<Rightarrow> lookup_error + status) \<Rightarrow> (string \<Rightarrow> lookup_error + account) \<Rightarrow> poll_op \<Rightarrow>
    pollstate \<Rightarrow> pollstate" where
  "pollStep status acct (OpPutPoll p) st = snd (putPoll p st)"
| "pollStep status acct (OpUpdatePoll now p cols) st = snd (updatePoll now p cols st)"
| "pollStep status acct (OpDeletePoll i) st = snd (deletePollByID i st)"
| "pollStep status acct (OpPutVote v) st = snd (putPollVote v st)"
| "pollStep status acct (OpDeleteVote i a) st = snd (deletePollVoteBy i a st)"
| "pollStep status acct (OpDeleteVotesOf a) st = snd (deletePollVotesByAccountID a st)"
| "pollStep status acct (OpGetPoll i) st = snd (getPollByID status i st)"
| "pollStep status acct (OpGetVote i a) st = snd (getPollVoteBy acct i a st)"
| "pollStep status acct (OpGetVotes i) st = snd (getPollVotes acct i st)"
| "pollStep status acct OpOpenPolls st = snd (getOpenPolls st)"

text \<open>
  What the callers keep to. An update is made with a current copy of the poll; a poll of this
  server starts without votes, under an ID that no vote names, and its counters are not among
  the columns of an update.
\<close>

definition pollGuard :: "poll_op \<Rightarrow> pollstate \<Rightarrow> bool" where
  "pollGuard op st \<longleftrightarrow>
     (case op of
        OpUpdatePoll _ p cols \<Rightarrow> list_ex (\<lambda>r. pollVersion cols r p) (tbRows (psPolls st))
      | _ \<Rightarrow> True)"

definition localGuard :: "poll_op \<Rightarrow> pollstate \<Rightarrow> bool" where
  "localGuard op st \<longleftrightarrow>
     (case op of
        OpPutPoll p \<Rightarrow> (plVotes p = None \<or> plVotes p = Some (zeroVotes p)) \<and> (plVoters p = None \<or> plVoters p = Some 0) \<and>
          list_all (\<lambda>v. pvPollID v \<noteq> plID p) (tbRows (psVotes st))
      | OpUpdatePoll _ p cols \<Rightarrow> list_all (\<lambda>c. c \<noteq> ''votes'' \<and> c \<noteq> ''voters'') cols
      | _ \<Rightarrow> True)"

definition coldPolls :: "pollstate \<Rightarrow> bool" where
  "coldPolls st \<longleftrightarrow> tbRows (psPolls st) = [] \<and> tbRows (psVotes st) = [] \<and> tbCache (psPolls st) = [] \<and>
     tbCache (psVotes st) = [] \<and> psVoteIDs st = (\<lambda>_. None)"

text \<open>\<open>own\<close> says that all polls are of this server.\<close>

inductive pollReach :: "bool \<Rightarrow> (string \<Rightarrow> lookup_error + status) \<Rightarrow> (string \<Rightarrow> lookup_error + account) \<Rightarrow> pollstate \<Rightarrow> bool"
  for own status acct where
  start: "coldPolls st \<Longrightarrow> pollReach own status acct st"
| op: "pollReach own status acct st \<Longrightarrow> pollGuard op st \<Longrightarrow> (own \<Longrightarrow> localGuard op st) \<Longrightarrow>
    pollReach own status acct (pollStep status acct op st)"
| faults: "pollReach own status acct st \<Longrightarrow> pollReach own status acct (st\<lparr>psFaults := fs, psLocalPolls := ls\<rparr>)"
| evict: "pollReach own status acct st \<Longrightarrow> pollReach own status acct
    (st\<lparr>psPolls := evictTable F (psPolls st), psVotes := evictTable G (psVotes st),
       psVoteIDs := invalidateSlices ks (psVoteIDs st)\<rparr>)"

lemma countsInv_same: "countsInv st \<Longrightarrow> samePolls st st' \<Longrightarrow> countsInv st'"
  by (simp add: countsInv_def samePolls_def)

lemma putPollVote_counts:
  assumes inv: "pollInv st" and c: "countsInv st" and p: "putPollVote v st = (e, st')"
  shows "countsInv st'"
proof (cases e)
  case None
  then have "voted v st st'" using putPollVote_ok(2)[OF inv p] by simp
  then show ?thesis by (rule countsInv_voted[OF inv c])
next
  case (Some err)
  then have "samePolls st st'" using putPollVote_ok(2)[OF inv p] by simp
  then show ?thesis by (rule countsInv_same[OF c])
qed

lemma deletePollVoteBy_counts:
  assumes inv: "pollInv st" and c: "countsInv st" and d: "deletePollVoteBy i a st = (e, st')"
  shows "countsInv st'"
proof (cases e)
  case None
  then have "unvoted i a st st'" using deletePollVoteBy_ok(2)[OF inv d] by simp
  then show ?thesis by (rule countsInv_unvoted[OF inv c])
next
  case (Some err)
  then have "samePolls st st'" using deletePollVoteBy_ok(2)[OF inv d] by simp
  then show ?thesis by (rule countsInv_same[OF c])
qed

lemma deleteVotesIn_ok:
  "pollInv st \<Longrightarrow> pollInv (snd (deleteVotesIn is a st)) \<and> (countsInv st \<longrightarrow> countsInv (snd (deleteVotesIn is a st)))"
proof (induction "is" arbitrary: st)
  case (Cons i "is")
  obtain e st1 where d: "deletePollVoteBy i a st = (e, st1)" by fastforce
  note ok = deletePollVoteBy_ok(1)[OF Cons.prems d]
  show ?case
    using Cons.IH[OF ok] ok d deletePollVoteBy_counts[OF Cons.prems _ d] by auto
qed simp

lemma countsOK_cong:
  "plID q = plID p \<Longrightarrow> plOptions q = plOptions p \<Longrightarrow> plVotes q = plVotes p \<Longrightarrow> plVoters q = plVoters p \<Longrightarrow>
    countsOK votes q = countsOK votes p"
  by (simp add: countsOK_def)

lemma pollCols_counts:
  "list_all (\<lambda>c. c \<noteq> ''votes'' \<and> c \<noteq> ''voters'') cols \<Longrightarrow>
    plVotes (pollCols cols p x) = plVotes x \<and> plVoters (pollCols cols p x) = plVoters x \<and>
    plOptions (pollCols cols p x) = plOptions x"
  by (induction cols arbitrary: x) (auto simp: pollCols_def pollCol_def)

lemma countsInv_updated:
  assumes "countsInv st" and "list_all (\<lambda>c. c \<noteq> ''votes'' \<and> c \<noteq> ''voters'') cols"
    and "tbRows (psVotes st') = tbRows (psVotes st)" and "tbRows (psPolls st') = map (pollUpdated p cols) (tbRows (psPolls st))"
  shows "countsInv st'"
proof -
  have "countsOK votes (pollUpdated p cols x) = countsOK votes x" for x votes
    by (rule countsOK_cong) (use pollCols_counts[OF assms(2)] in \<open>simp_all add: pollUpdated_def pollCols_keeps\<close>)
  then show ?thesis using assms(1,3,4) by (simp add: countsInv_def)
qed

lemma countsOK_fresh:
  assumes "plVotes p = None \<or> plVotes p = Some (zeroVotes p)" and "plVoters p = None \<or> plVoters p = Some 0"
    and "list_all (\<lambda>v. pvPollID v \<noteq> plID p) votes"
  shows "countsOK votes (pollPut p)"
proof -
  have f: "filter (\<lambda>v. pvPollID v = plID p) votes = []" "filter (\<lambda>v. pvPollID v = plID p \<and> pvChoices v \<noteq> []) votes = []"
    using assms(3) by (auto simp: filter_empty_conv list_all_iff)
  have z: "map (\<lambda>k. int (tally (plID p) k votes)) [0..<length (plOptions p)] = zeroVotes p"
    by (simp add: tally_def f zeroVotes_def map_replicate_const)
  have "plVotes (pollPut p) = Some (zeroVotes p)" "plVoters (pollPut p) = Some 0"
       "plID (pollPut p) = plID p" "plOptions (pollPut p) = plOptions p"
    using assms(1,2) by (auto simp: pollPut_def copyPoll_def checkVotes_def)
  then show ?thesis
    using assms(3) z by (auto simp: countsOK_def votersOf_def f list_all_iff)
qed

lemma pollStep_inv:
  assumes inv: "pollInv st" and g: "pollGuard op st"
  shows "pollInv (pollStep status acct op st)"
    and "localGuard op st \<Longrightarrow> countsInv st \<Longrightarrow> countsInv (pollStep status acct op st)"
proof -
  have "pollInv (pollStep status acct op st) \<and> (localGuard op st \<longrightarrow> countsInv st \<longrightarrow> countsInv (pollStep status acct op st))"
  proof (cases op)
    case (OpPutPoll p)
    obtain e st' where o: "putPoll p st = (e, st')" by fastforce
    note ok = putPoll_ok[OF inv o]
    have "countsInv st'" if "localGuard op st" "countsInv st"
      using ok that OpPutPoll countsOK_fresh[of p] by (auto simp: localGuard_def countsInv_def split: if_splits)
    then show ?thesis using ok OpPutPoll o by simp
  next
    case (OpUpdatePoll now p cols)
    obtain e st' where o: "updatePoll now p cols st = (e, st')" by fastforce
    from g OpUpdatePoll obtain r where r: "r \<in> set (tbRows (psPolls st))" "pollVersion cols r p"
      by (auto simp: pollGuard_def list_ex_iff)
    note ok = updatePoll_ok[OF inv r o]
    have "countsInv st'" if "localGuard op st" "countsInv st"
    proof (cases e)
      case None
      then show ?thesis
        using ok that OpUpdatePoll countsInv_updated[of st cols st' p] by (simp add: localGuard_def)
    next
      case (Some err)
      then show ?thesis using ok that by (simp add: countsInv_def)
    qed
    then show ?thesis using ok OpUpdatePoll o by simp
  next
    case (OpDeletePoll i)
    obtain e st' where o: "deletePollByID i st = (e, st')" by fastforce
    note ok = deletePollByID_ok[OF inv o]
    then have "countsInv st \<Longrightarrow> countsInv st'" by (auto simp: countsInv_def split: if_splits)
    then show ?thesis using ok OpDeletePoll o by simp
  next
    case (OpPutVote v)
    obtain e st' where o: "putPollVote v st = (e, st')" by fastforce
    from putPollVote_ok(1)[OF inv o] putPollVote_counts[OF inv _ o] show ?thesis
      using OpPutVote o by simp
  next
    case (OpDeleteVote i a)
    obtain e st' where o: "deletePollVoteBy i a st = (e, st')" by fastforce
    from deletePollVoteBy_ok(1)[OF inv o] deletePollVoteBy_counts[OF inv _ o] show ?thesis
      using OpDeleteVote o by simp
  next
    case (OpDeleteVotesOf a)
    have f: "pollInv (st\<lparr>psFaults := fs\<rparr>) \<and> countsInv (st\<lparr>psFaults := fs\<rparr>) = countsInv st" for fs
      using inv by (simp add: countsInv_def)
    show ?thesis
      using OpDeleteVotesOf f deleteVotesIn_ok
      by (auto simp: deletePollVotesByAccountID_def split: prod.splits option.splits)
  next
    case (OpGetPoll i)
    obtain r st' where o: "getPollByID' i st = (r, st')" by fastforce
    from getPollByID'_ok[OF inv, of i] have "pollInv st'" "samePolls st st'" by (simp_all add: preadOK_def o)
    moreover have "snd (getPollByID status i st) = st'"
      by (simp add: getPollByID_def populated_def o andThen_def split: sum.splits option.splits)
    ultimately show ?thesis using OpGetPoll countsInv_same by auto
  next
    case (OpGetVote i a)
    obtain r st' where o: "getPollVoteBy acct i a st = (r, st')" by fastforce
    from getPollVoteBy_ok[OF inv o] show ?thesis using OpGetVote o countsInv_same by auto
  next
    case (OpGetVotes i)
    obtain r st' where o: "getPollVotes acct i st = (r, st')" by fastforce
    from getPollVotes_ok[OF inv o] show ?thesis using OpGetVotes o countsInv_same by auto
  next
    case OpOpenPolls
    obtain r st' where o: "getOpenPolls st = (r, st')" by fastforce
    from getOpenPolls_ok[OF inv o] show ?thesis using OpOpenPolls o countsInv_same by auto
  qed
  then show "pollInv (pollStep status acct op st)"
    and "localGuard op st \<Longrightarrow> countsInv st \<Longrightarrow> countsInv (pollStep status acct op st)" by auto
qed

lemma pollReach_inv: "pollReach own status acct st \<Longrightarrow> pollInv st \<and> (own \<longrightarrow> countsInv st)"
proof (induction rule: pollReach.induct)
  case (start st)
  then show ?case
    by (auto simp: coldPolls_def pollInv_def tblOK_def tableOK_def voteSlicesOK_def countsInv_def)
next
  case (op st op)
  then show ?case using pollStep_inv by blast
next
  case (faults st fs ls)
  then show ?case by (simp add: pollInv_def countsInv_def)
next
  case (evict st F G ks)
  then show ?case
    using pol.cacheInv_filter vot.cacheInv_filter
    by (auto simp: pollInv_def countsInv_def tblOK_def evictTable_def voteSlicesOK_def invalidateSlices_def split: if_splits)
qed

text \<open>A sequence of operations that all keep to their guards.\<close>

fun pollRun :: "(string \<Rightarrow> lookup_error + status) \<Rightarrow> (string \<Rightarrow> lookup_error + account) \<Rightarrow> poll_op list \<Rightarrow>
    pollstate \<Rightarrow> pollstate option" where
  "pollRun status acct [] st = Some st"
| "pollRun status acct (op # ops) st =
     (if pollGuard op st \<and> localGuard op st then pollRun status acct ops (pollStep status acct op st) else None)"

lemma pollRun_reach:
  "pollReach own status acct st \<Longrightarrow> pollRun status acct ops st = Some st' \<Longrightarrow> pollReach own status acct st'"
  by (induction ops arbitrary: st) (auto intro: pollReach.op split: if_splits)

end
