(* ===== verification/PollActions.thy ===== *)
theory PollActions
  imports PollHistory
begin

text \<open>
  Who votes, and how a poll closes: \<open>src/internal/processing/polls\<close>, the votes that arrive by
  federation (\<open>ExtractPollOptionables\<close> of \<open>src/internal/ap/extract.go\<close>, \<open>createPollOptionables\<close> of
  \<open>src/internal/federation/federatingdb/create.go\<close> and \<open>CreatePollVote\<close> of
  \<open>src/internal/processing/workers/fromfediapi.go\<close>), and the polls of refreshed remote statuses
  (\<open>fetchStatusPoll\<close> in \<open>src/internal/federation/dereferencing/status.go\<close>).

  Visibility, the lookups of statuses and accounts, the clock and the generator of IDs are the
  environment of a call. The conversion of the poll to its API document is left out: a handler
  returns the poll it would convert.
\<close>

subsection \<open>State and environment\<close>

datatype poll_msg =
    VoteCreated poll_vote poll account
  | PollClosedMsg poll
  | FediVote poll_vote poll
  | FederateUpdate poll

record pollproc =
  ppState :: pollstate
  ppTasks :: "(string \<times> time) list"
  ppQueue :: "poll_msg list"

text \<open>A poll's status as \<open>createPollOptionables\<close> reads it.\<close>

record poll_source =
  poURI :: string
  poPollID :: string
  poLocal :: bool

record poll_env =
  peStatusByPoll :: "string \<Rightarrow> lookup_error + status"
  peStatus :: "string \<Rightarrow> lookup_error + status"
  pePopulate :: "status \<Rightarrow> lookup_error option \<times> bool"
  peVisible :: "account option \<Rightarrow> status \<Rightarrow> lookup_error + bool"
  peSourceByURI :: "string \<Rightarrow> lookup_error + poll_source"
  peEqualFold :: "string \<Rightarrow> string \<Rightarrow> bool"
  peStatusLocal :: "status \<Rightarrow> bool"
  peNewID :: string
  peNow :: time

datatype poll_error = PollNotFound | PollInternal | PollUnprocessable | PollBadRequest | PollPanic

definition onPolls :: "(pollstate \<Rightarrow> 'r \<times> pollstate) \<Rightarrow> pollproc \<Rightarrow> 'r \<times> pollproc" where
  "onPolls f pp = (let (r, st) = f (ppState pp) in (r, pp\<lparr>ppState := st\<rparr>))"

definition pushPoll :: "poll_msg \<Rightarrow> pollproc \<Rightarrow> pollproc" where
  "pushPoll m pp = pp\<lparr>ppQueue := ppQueue pp @ [m]\<rparr>"

subsection \<open>Votes of the client API\<close>

text \<open>
  \<open>getTargetPoll\<close>. The status that \<open>GetStatusByPollID\<close> finds is populated, which looks its poll
  up; an error of that is an error of the whole. The refresh of a remote status runs elsewhere.
\<close>

definition getTargetPoll :: "poll_env \<Rightarrow> account option \<Rightarrow> string \<Rightarrow> pollproc \<Rightarrow>
    (poll_error + status \<times> poll) \<times> pollproc" where
  "getTargetPoll env req i pp =
     (case peStatusByPoll env i of
        Inl e \<Rightarrow> (Inl (if e \<noteq> LNoEntries then PollInternal else PollNotFound), pp)
      | Inr status \<Rightarrow>
          (case onPolls (getPollByID' i) pp of
             (Inl e, pp1) \<Rightarrow> (Inl (if e \<noteq> LNoEntries then PollInternal else PollNotFound), pp1)
           | (Inr poll, pp1) \<Rightarrow>
               (case peVisible env req status of
                  Inl _ \<Rightarrow> (Inl PollInternal, pp1)
                | Inr visible \<Rightarrow> if \<not> visible then (Inl PollNotFound, pp1) else (Inr (status, poll), pp1))))"

definition pollGet :: "poll_env \<Rightarrow> account option \<Rightarrow> string \<Rightarrow> pollproc \<Rightarrow> (poll_error + poll) \<times> pollproc" where
  "pollGet env req i pp = andThen (getTargetPoll env req i pp) (\<lambda>(status, poll) pp1. (Inr poll, pp1))"

text \<open>The time of a new vote is the default of its column.\<close>

definition newVote :: "poll_env \<Rightarrow> account \<Rightarrow> string \<Rightarrow> int list \<Rightarrow> poll_vote" where
  "newVote env req i choices =
     \<lparr>pvID = peNewID env, pvChoices = choices, pvAccountID = acID req, pvPollID = i, pvCreatedAt = peNow env\<rparr>"

definition pollVote :: "poll_env \<Rightarrow> account \<Rightarrow> string \<Rightarrow> int list \<Rightarrow> pollproc \<Rightarrow> (poll_error + poll) \<times> pollproc" where
  "pollVote env req i choices pp =
     andThen (getTargetPoll env (Some req) i pp) (\<lambda>(status, poll) pp1.
       if acID req = stAccountID status then (Inl PollUnprocessable, pp1)
       else if pollClosed (peNow env) poll then (Inl PollUnprocessable, pp1)
       else if choices = [] \<or> (\<not> plMultiple poll \<and> length choices > 1) then (Inl PollBadRequest, pp1)
       else if list_ex (\<lambda>c. c < 0 \<or> c \<ge> int (length (plOptions poll))) choices then (Inl PollBadRequest, pp1)
       else
         (let vote = newVote env req i choices
          in case onPolls (putPollVote vote) pp1 of
               (Some e, pp2) \<Rightarrow>
                 (Inl (if e = LAlreadyExists then PollUnprocessable else if e = LPanic then PollPanic else PollInternal), pp2)
             | (None, pp2) \<Rightarrow>
                 (case incrementVotes choices poll of
                    None \<Rightarrow> (Inl PollPanic, pp2)
                  | Some poll' \<Rightarrow> (Inr poll', pushPoll (VoteCreated vote poll' req) pp2))))"

subsection \<open>Expiry\<close>

definition addOnce :: "string \<Rightarrow> time \<Rightarrow> pollproc \<Rightarrow> bool \<times> pollproc" where
  "addOnce i at pp =
     (if i \<in> set (map fst (ppTasks pp)) then (False, pp)
      else (True, pp\<lparr>ppTasks := ppTasks pp @ [(i, at)]\<rparr>))"

definition scheduleExpiry :: "poll \<Rightarrow> pollproc \<Rightarrow> bool \<times> pollproc" where
  "scheduleExpiry p pp =
     (if plClosedAt p \<noteq> 0 then (False, pp)
      else addOnce (plID p) (plExpiresAt p) pp)"

text \<open>The errors of \<open>ScheduleAll\<close> are collected: the result says whether there was none.\<close>

fun scheduleEach :: "poll list \<Rightarrow> pollproc \<Rightarrow> bool \<times> pollproc" where
  "scheduleEach [] pp = (True, pp)"
| "scheduleEach (p # ps) pp =
     (let (ok, pp1) = scheduleExpiry p pp; (oks, pp2) = scheduleEach ps pp1 in (ok \<and> oks, pp2))"

definition scheduleAll :: "pollproc \<Rightarrow> bool \<times> pollproc" where
  "scheduleAll pp =
     (case onPolls getOpenPolls pp of
        (Inl e, pp1) \<Rightarrow> (False, pp1)
      | (Inr ps, pp1) \<Rightarrow> scheduleEach ps pp1)"

text \<open>
  \<open>onExpiry\<close>. \<open>pePopulate\<close> populates the status: an error, and whether its account is there.
\<close>

definition onExpiry :: "poll_env \<Rightarrow> string \<Rightarrow> pollproc \<Rightarrow> pollproc" where
  "onExpiry env i pp =
     (case onPolls (getPollByID (peStatus env) i) pp of
        (Inl e, pp1) \<Rightarrow> pp1
      | (Inr p, pp1) \<Rightarrow>
          if plClosedAt p \<noteq> 0 then pp1
          else
            (let (err, hasAccount) = (case peStatus env (plStatusID p) of Inl e \<Rightarrow> (Some e, False) | Inr s \<Rightarrow> pePopulate env s)
             in if err \<noteq> None \<and> \<not> hasAccount then pp1
                else
                  (let p' = p\<lparr>plClosedAt := peNow env, plClosing := True\<rparr>
                   in case onPolls (updatePoll (peNow env) p' [''closed_at'']) pp1 of
                        (Some e, pp2) \<Rightarrow> pp2
                      | (None, pp2) \<Rightarrow> pushPoll (PollClosedMsg p') pp2)))"

subsection \<open>Votes that arrive by federation\<close>

text \<open>
  \<open>ExtractPollOptionables\<close> and its two siblings: \<open>cast\<close> says what an object is taken for. The
  loop drops an object it takes by \<open>copy(arr[:i], arr[i+1:])\<close>, as written.
\<close>

definition copyDrop :: "nat \<Rightarrow> 'a list \<Rightarrow> 'a list" where
  "copyDrop i arr =
     (let m = min i (length arr - Suc i) in butlast (take m (drop (Suc i) arr) @ drop m arr))"

lemma length_copyDrop: "i < length arr \<Longrightarrow> length (copyDrop i arr) = length arr - 1"
  by (auto simp: copyDrop_def Let_def min_def)

function extractLoop :: "('a \<Rightarrow> 'b option) \<Rightarrow> nat \<Rightarrow> 'a list \<Rightarrow> 'b list \<times> 'a list" where
  "extractLoop cast i arr =
     (if i < length arr then
        (case cast (arr ! i) of
           None \<Rightarrow> extractLoop cast (i + 1) arr
         | Some x \<Rightarrow> (let (xs, rest) = extractLoop cast (i + 1) (copyDrop i arr) in (x # xs, rest)))
      else ([], arr))"
  by pat_completeness auto
termination
  by (relation "measure (\<lambda>(cast, i, arr). length arr - i)") (auto simp: length_copyDrop)

declare extractLoop.simps [simp del]

definition extractPollOptionables :: "('a \<Rightarrow> 'b option) \<Rightarrow> 'a list \<Rightarrow> 'b list \<times> 'a list" where
  "extractPollOptionables cast arr = extractLoop cast 0 arr"

text \<open>
  An option: the URIs of its \<open>inReplyTo\<close> and its name. The first one finds the poll; \<open>None\<close> in
  the result is the silent return for an account that has voted already.
\<close>

datatype fedi_error = FediError | FediPanic

fun optionChoices :: "poll_env \<Rightarrow> poll_source \<Rightarrow> poll \<Rightarrow> (string list \<times> string) list \<Rightarrow> fedi_error + int list" where
  "optionChoices env src poll [] = Inr []"
| "optionChoices env src poll ((uris, name) # opts) =
     (if length uris \<noteq> 1 then Inl FediError
      else if hd uris \<noteq> poURI src then Inl FediError
      else
        (let choice = getChoice (peEqualFold env) name poll
         in if choice = -1 then Inl FediError
            else (case optionChoices env src poll opts of Inl e \<Rightarrow> Inl e | Inr cs \<Rightarrow> Inr (choice # cs))))"

definition createPollOptionables :: "poll_env \<Rightarrow> account \<Rightarrow> (string list \<times> string) list \<Rightarrow> pollproc \<Rightarrow>
    (fedi_error + unit) \<times> pollproc" where
  "createPollOptionables env requester options pp =
     (case options of
        [] \<Rightarrow> (Inl FediPanic, pp)
      | (uris, name) # _ \<Rightarrow>
          if length uris \<noteq> 1 then (Inl FediError, pp)
          else
            (case peSourceByURI env (hd uris) of
               Inl e \<Rightarrow> (Inl FediError, pp)
             | Inr src \<Rightarrow>
                 if poPollID src = [] then (Inl FediError, pp)
                 else if \<not> poLocal src then (Inl FediError, pp)
                 else
                   (case onPolls (getPollByID' (poPollID src)) pp of
                      (Inl e, pp1) \<Rightarrow> (Inl FediError, pp1)
                    | (Inr poll, pp1) \<Rightarrow>
                        (case onPolls (getPollVoteBy' (poPollID src) (acID requester)) pp1 of
                           (Inl e, pp2) \<Rightarrow>
                             if e \<noteq> LNoEntries then (Inl FediError, pp2)
                             else
                               (case optionChoices env src poll options of
                                  Inl err \<Rightarrow> (Inl err, pp2)
                                | Inr choices \<Rightarrow>
                                    (Inr (), pushPoll (FediVote (newVote env requester (poPollID src) choices) poll) pp2))
                         | (Inr _, pp2) \<Rightarrow> (Inr (), pp2)))))"

text \<open>
  \<open>fediAPI.CreatePollVote\<close>. The vote of the message has its account and its poll, so there is
  nothing for \<open>PopulatePollVote\<close> to look up. What is uncached from timelines is left out.
\<close>

definition fediCreatePollVote :: "poll_env \<Rightarrow> poll_vote \<Rightarrow> poll \<Rightarrow> pollproc \<Rightarrow> lookup_error option \<times> pollproc" where
  "fediCreatePollVote env v p pp =
     (case onPolls (putPollVote v) pp of
        (Some e, pp1) \<Rightarrow> (Some e, pp1)
      | (None, pp1) \<Rightarrow>
          (case peStatus env (plStatusID p) of
             Inl e \<Rightarrow> (Some e, pp1)
           | Inr status \<Rightarrow>
               if \<not> peStatusLocal env status then (None, pp1)
               else
                 (case incrementVotes (pvChoices v) p of
                    None \<Rightarrow> (Some LPanic, pp1)
                  | Some p' \<Rightarrow> (None, pushPoll (FederateUpdate p') pp1))))"

subsection \<open>The poll of a refreshed status\<close>

definition pollChanged :: "poll \<Rightarrow> poll \<Rightarrow> bool" where
  "pollChanged existing latest \<longleftrightarrow> plOptions existing \<noteq> plOptions latest \<or> plExpiresAt existing \<noteq> plExpiresAt latest"

text \<open>A nil list of votes equals an empty one; a nil pointer to the voters panics.\<close>

definition votesOrNil :: "poll \<Rightarrow> int list" where
  "votesOrNil p = (case plVotes p of None \<Rightarrow> [] | Some vs \<Rightarrow> vs)"

definition pollRefreshed :: "poll \<Rightarrow> poll \<Rightarrow> bool option" where
  "pollRefreshed existing latest =
     (case (plVoters existing, plVoters latest) of
        (Some m, Some n) \<Rightarrow>
          Some (m \<noteq> n \<or> votesOrNil existing \<noteq> votesOrNil latest \<or> plClosedAt existing \<noteq> plClosedAt latest)
      | _ \<Rightarrow> None)"

definition pollJustClosed :: "time \<Rightarrow> poll \<Rightarrow> poll \<Rightarrow> bool" where
  "pollJustClosed now existing latest \<longleftrightarrow> plClosedAt existing = 0 \<and> pollClosed now latest"

text \<open>\<open>newID\<close> is the ID made from the status' date, or from now; the result is the status' poll.\<close>

definition insertStatusPoll :: "string \<Rightarrow> string \<Rightarrow> poll \<Rightarrow> pollstate \<Rightarrow> (lookup_error + poll option) \<times> pollstate" where
  "insertStatusPoll newID statusID p st =
     (let p' = p\<lparr>plID := newID, plStatusID := statusID\<rparr>
      in case putPoll p' st of (Some e, st1) \<Rightarrow> (Inl e, st1) | (None, st1) \<Rightarrow> (Inr (Some (checkVotes p')), st1))"

definition deleteStatusPoll :: "string \<Rightarrow> pollstate \<Rightarrow> lookup_error option \<times> pollstate" where
  "deleteStatusPoll i st =
     (case deletePollByID i st of (Some e, st1) \<Rightarrow> (Some e, st1) | (None, st1) \<Rightarrow> deletePollVotes i st1)"

definition fetchStatusPoll :: "time \<Rightarrow> string \<Rightarrow> string \<Rightarrow> poll option \<Rightarrow> poll option \<Rightarrow> pollstate \<Rightarrow>
    (lookup_error + poll option) \<times> pollstate" where
  "fetchStatusPoll now newID statusID existing latest st =
     (case existing of
        None \<Rightarrow> (case latest of None \<Rightarrow> (Inr None, st) | Some p \<Rightarrow> insertStatusPoll newID statusID p st)
      | Some old \<Rightarrow>
          (case latest of
             None \<Rightarrow> (case deleteStatusPoll (plID old) st of (Some e, st1) \<Rightarrow> (Inl e, st1) | (None, st1) \<Rightarrow> (Inr None, st1))
           | Some p \<Rightarrow>
               if pollChanged old p then
                 (case deleteStatusPoll (plID old) st of
                    (Some e, st1) \<Rightarrow> (Inl e, st1)
                  | (None, st1) \<Rightarrow> insertStatusPoll newID statusID p st1)
               else
                 (case pollRefreshed old p of
                    None \<Rightarrow> (Inl LPanic, st)
                  | Some True \<Rightarrow>
                      (let new = old\<lparr>plClosing := pollJustClosed now old p, plClosedAt := plClosedAt p,
                                   plVoters := plVoters p, plVotes := plVotes p\<rparr>
                       in case updatePoll now new [''closed_at'', ''voters'', ''votes''] st of
                            (Some e, st1) \<Rightarrow> (Inl e, st1) | (None, st1) \<Rightarrow> (Inr (Some (checkVotes new)), st1))
                  | Some False \<Rightarrow> (Inr (Some old), st))))"

end
