(* ===== verification/PollSafety.thy ===== *)
theory PollSafety
  imports PollActions
begin

text \<open>
  What holds of polls in every history, and what a vote through the client API does.
\<close>

subsection \<open>Histories\<close>


definition demoPoll :: poll where
  "demoPoll = \<lparr>plID = ''P1'', plMultiple = True, plHideCounts = False, plOptions = [''yes'', ''no''],
     plVotes = None, plVoters = None, plStatusID = ''S1'', plExpiresAt = 1000, plClosedAt = 0, plClosing = False\<rparr>"

definition demoVote :: "string \<Rightarrow> string \<Rightarrow> int list \<Rightarrow> poll_vote" where
  "demoVote i a cs = \<lparr>pvID = i, pvChoices = cs, pvAccountID = a, pvPollID = ''P1'', pvCreatedAt = 5\<rparr>"

definition demoStart :: pollstate where
  "demoStart = \<lparr>psPolls = \<lparr>tbRows = [], tbCache = []\<rparr>, psVotes = \<lparr>tbRows = [], tbCache = []\<rparr>,
     psVoteIDs = (\<lambda>_. None), psLocalPolls = [''P1''], psUpdatedAt = (\<lambda>_. 0), psFaults = []\<rparr>"

definition demoOps :: "poll_op list" where
  "demoOps = [OpPutPoll demoPoll, OpPutVote (demoVote ''V1'' ''A'' [0]), OpPutVote (demoVote ''V2'' ''B'' [0, 1]),
     OpGetPoll ''P1'', OpPutVote (demoVote ''V3'' ''A'' [1]), OpGetVote ''P1'' ''A'', OpDeleteVote ''P1'' ''A'']"

abbreviation noStatus :: "string \<Rightarrow> lookup_error + status" where
  "noStatus \<equiv> (\<lambda>_. Inl LNoEntries)"

abbreviation noAccount :: "string \<Rightarrow> lookup_error + account" where
  "noAccount \<equiv> (\<lambda>_. Inl LNoEntries)"

definition demoState :: pollstate where
  "demoState = the (pollRun noStatus noAccount demoOps demoStart)"

lemma demoState_reach: "pollReach own noStatus noAccount demoState"
proof -
  have "\<not> Option.is_none (pollRun noStatus noAccount demoOps demoStart)" by code_simp
  then obtain st where "pollRun noStatus noAccount demoOps demoStart = Some st"
    by (auto simp: Option.is_none_def)
  moreover have "coldPolls demoStart" by (simp add: coldPolls_def demoStart_def)
  then have "pollReach own noStatus noAccount demoStart" by (rule pollReach.start)
  ultimately show ?thesis
    using pollRun_reach by (simp add: demoState_def)
qed

definition demoRow :: poll where
  "demoRow = demoPoll\<lparr>plVotes := Some [1, 1], plVoters := Some 1\<rparr>"

lemma demoState_rows: "tbRows (psPolls demoState) = [demoRow]" "tbRows (psVotes demoState) = [demoVote ''V2'' ''B'' [0, 1]]"
  by code_simp+


text \<open>
  After any history of polls and votes, with faults of the database and evictions from the
  caches, the lookups of a poll, of an account's vote and of the votes of a poll answer what the
  tables hold now, or a fault; without faults they answer the tables, and they change no table.
\<close>

theorem poll_lookups_current:
  assumes "pollReach own status acct st"
  shows "preadOK st (pollRow st i) (getPollByID' i st) \<and> preadOK st (voteRow st i a) (getPollVoteBy' i a st) \<and>
    preadOK st (Inr (votesOf st i)) (getPollVotes' i st)"
proof -
  have "pollInv st" using pollReach_inv[OF assms] by simp
  then show ?thesis using getPollByID'_ok getPollVoteBy'_ok getPollVotes'_ok by blast
qed

theorem poll_lookups_current_witness:
  "fst (getPollVotes' ''P1'' demoState) = Inr [demoVote ''V2'' ''B'' [0, 1]]"
proof -
  have "psFaults demoState = []" "votesOf demoState ''P1'' = [demoVote ''V2'' ''B'' [0, 1]]" by code_simp+
  with poll_lookups_current[OF demoState_reach, of "''P1''" "[]"] show ?thesis by (simp add: preadOK_def)
qed

subsection \<open>A vote through the client API\<close>

lemma onPolls_eq: "onPolls f pp = (r, pp') \<longleftrightarrow> (\<exists>st'. f (ppState pp) = (r, st') \<and> pp' = pp\<lparr>ppState := st'\<rparr>)"
  by (auto simp: onPolls_def split: prod.splits)

lemma getTargetPoll_ok:
  assumes inv: "pollInv (ppState pp)" and g: "getTargetPoll env req i pp = (r, pp1)"
  shows "pollInv (ppState pp1) \<and> samePolls (ppState pp) (ppState pp1) \<and> ppQueue pp1 = ppQueue pp \<and> ppTasks pp1 = ppTasks pp \<and>
    (case r of Inl e \<Rightarrow> e \<noteq> PollPanic
     | Inr (s, p) \<Rightarrow> peStatusByPoll env i = Inr s \<and> peVisible env req s = Inr True \<and>
         p \<in> set (tbRows (psPolls (ppState pp))) \<and> plID p = i)"
proof (cases "peStatusByPoll env i")
  case (Inl e)
  then show ?thesis using g inv by (auto simp: getTargetPoll_def)
next
  case (Inr s)
  obtain x st1 where x: "getPollByID' i (ppState pp) = (x, st1)" by fastforce
  from getPollByID'_ok[OF inv, of i] have
    ok: "pollInv st1" "samePolls (ppState pp) st1" "answers x (pollRow (ppState pp) i)"
    unfolding x preadOK_def by simp_all
  have o: "onPolls (getPollByID' i) pp = (x, pp\<lparr>ppState := st1\<rparr>)" by (simp add: onPolls_def x)
  show ?thesis
  proof (cases x)
    case (Inl e)
    then show ?thesis using g ok Inr o by (auto simp: getTargetPoll_def)
  next
    case x: (Inr p)
    have "pollRow (ppState pp) i = Inr p" using ok(3) x by (auto simp: answers_def)
    from rowsLookup_Inr[OF this[unfolded pollRow_def]] have "p \<in> set (tbRows (psPolls (ppState pp)))" "plID p = i" by auto
    then show ?thesis
      using g ok Inr o x by (auto simp: getTargetPoll_def split: sum.splits if_splits)
  qed
qed

text \<open>A poll of this server has counters for its options: a choice in range is counted.\<close>

lemma incrementVotes_range:
  assumes "\<not> list_ex (\<lambda>c. c < 0 \<or> c \<ge> int (length (plOptions p))) cs" and "plVotes p = Some (map f [0..<length (plOptions p)])"
  shows "incrementVotes cs p \<noteq> None"
proof -
  have "addChoices cs (map f [0..<n]) \<noteq> None" if "\<not> list_ex (\<lambda>c. c < 0 \<or> c \<ge> int n) cs" for n f
    using that by (induction cs arbitrary: f) (auto simp: inRange_def map_upd_upt)
  from this[OF assms(1), of f] have a: "addChoices cs (map f [0..<length (plOptions p)]) \<noteq> None" .
  have "plVotes (checkVotes p) = Some (map f [0..<length (plOptions p)])"
    using assms(2) by (simp add: checkVotes_def)
  then show ?thesis
    using a by (auto simp: incrementVotes_def Let_def split: option.split)
qed

lemma putPollVote_quiet:
  assumes "pollInv st" and "psFaults st = []" and "p \<in> set (tbRows (psPolls st))" and "plID p = pvPollID v"
    and "\<not> hasZero voteIxs v"
  shows "fst (putPollVote v st) =
    (if list_ex (rowConflict voteIxs v) (tbRows (psVotes st)) then Some LAlreadyExists
     else if incrementVotes (pvChoices v) p = None then Some LPanic else None)"
proof -
  have tb: "tableOK pollIxs (tbRows (psPolls st))" using assms(1) by (simp add: pollInv_def tblOK_def)
  have "find (\<lambda>q. plID q = pvPollID v) (tbRows (psPolls st)) = Some p"
  proof (cases "find (\<lambda>q. plID q = pvPollID v) (tbRows (psPolls st))")
    case None
    then show ?thesis using assms(3,4) by (auto simp: find_None_iff)
  next
    case (Some q)
    then have "q \<in> set (tbRows (psPolls st))" "plID q = pvPollID v" by (auto simp: find_Some_iff)
    then show ?thesis using Some poll_unique[OF tb _ assms(3)] assms(4) by simp
  qed
  then show ?thesis
    using assms(2,5)
    by (simp add: putPollVote_def putPollVoteTx_def runInTx_def andThen_def nextFault_def insertRow_def selectRow_def
      setCounts_def updateRow_def split: option.split)
qed

lemma voteConflict:
  "\<not> hasZero voteIxs v \<Longrightarrow> rowConflict voteIxs v w \<longleftrightarrow>
    pvID w = pvID v \<or> pvPollID w = pvPollID v \<and> pvAccountID w = pvAccountID v"
  by (auto simp: rowConflict_def hasZero_def voteIxs_def idIndex_def multiIndex_def ixKey_def)

text \<open>What the checks before the vote is stored say of a vote on a poll of a status.\<close>

definition voteChecks :: "poll_env \<Rightarrow> account \<Rightarrow> status \<Rightarrow> poll \<Rightarrow> int list \<Rightarrow> poll_error option" where
  "voteChecks env req s p choices =
     (if acID req = stAccountID s \<or> pollClosed (peNow env) p then Some PollUnprocessable
      else if choices = [] \<or> (\<not> plMultiple p \<and> length choices > 1) \<or>
          list_ex (\<lambda>c. c < 0 \<or> c \<ge> int (length (plOptions p))) choices then Some PollBadRequest
      else None)"

lemma voteChecks_None:
  "voteChecks env req s p choices = None \<longleftrightarrow>
    stAccountID s \<noteq> acID req \<and> \<not> pollClosed (peNow env) p \<and> choices \<noteq> [] \<and> (plMultiple p \<or> length choices = 1) \<and>
    (\<forall>c \<in> set choices. 0 \<le> c \<and> c < int (length (plOptions p)))"
proof -
  have "list_ex (\<lambda>c. c < 0 \<or> c \<ge> int n) cs = (\<not> (\<forall>c \<in> set cs. 0 \<le> c \<and> c < int n))" for cs n
    by (auto simp: list_ex_iff not_less not_le)
  moreover have "length choices > 1 \<longleftrightarrow> choices \<noteq> [] \<and> length choices \<noteq> 1"
    by (cases choices) auto
  ultimately show ?thesis by (auto simp: voteChecks_def)
qed

lemma pollVote_checked:
  assumes "getTargetPoll env (Some req) i pp = (Inr (s, p), pp1)"
  shows "voteChecks env req s p choices = Some e \<Longrightarrow> pollVote env req i choices pp = (Inl e, pp1)"
    and "voteChecks env req s p choices = None \<Longrightarrow> pollVote env req i choices pp =
      (case putPollVote (newVote env req i choices) (ppState pp1) of
         (Some e, st) \<Rightarrow>
           (Inl (if e = LAlreadyExists then PollUnprocessable else if e = LPanic then PollPanic else PollInternal), pp1\<lparr>ppState := st\<rparr>)
       | (None, st) \<Rightarrow>
           (case incrementVotes choices p of
              None \<Rightarrow> (Inl PollPanic, pp1\<lparr>ppState := st\<rparr>)
            | Some p' \<Rightarrow> (Inr p', pushPoll (VoteCreated (newVote env req i choices) p' req) (pp1\<lparr>ppState := st\<rparr>))))"
  using assms
  by (auto simp: pollVote_def andThen_def voteChecks_def onPolls_def Let_def split: if_splits prod.splits option.splits)

lemma addChoices_length: "addChoices cs vs = Some ws \<Longrightarrow> length ws = length vs"
  by (induction cs arbitrary: vs) (auto split: if_splits)

lemma incrementVotes_row:
  assumes "incrementVotes cs p = Some p'" and "pollRowOK p" and "plID p = i"
  shows "setCountsRow i p' p = p'"
  using assms by (auto simp: incrementVotes_def pollRowOK_def setCountsRow_def Let_def split: if_splits option.splits)

lemma putPollVote_panic:
  assumes "putPollVote v st = (Some LPanic, st')"
  obtains p where "p \<in> set (tbRows (psPolls st))" "plID p = pvPollID v" "incrementVotes (pvChoices v) p = None"
proof -
  obtain fs where tx: "putPollVoteTx v (tbRows (psPolls st)) (tbRows (psVotes st)) (psFaults st) = (Inl LPanic, fs)"
    using assms by (auto simp: putPollVote_def split: prod.splits sum.splits)
  have f: "nextFault fs \<noteq> (Some LPanic, fs')" for fs fs'
    by (cases fs) (auto simp: nextFault_def)
  have "\<exists>p. find (\<lambda>p. plID p = pvPollID v) (tbRows (psPolls st)) = Some p \<and> incrementVotes (pvChoices v) p = None"
    using tx f
    by (auto simp: putPollVoteTx_def runInTx_def andThen_def insertRow_def selectRow_def setCounts_def updateRow_def
      split: prod.splits sum.splits option.splits if_splits)
  then show ?thesis using that by (auto dest: find_Some_set)
qed

text \<open>A vote that passed the checks.\<close>

lemma pollVote_cast:
  assumes inv: "pollInv st" and p: "p \<in> set (tbRows (psPolls st))" "plID p = pvPollID v"
    and put: "putPollVote v st = (None, st')"
  obtains p' where "incrementVotes (pvChoices v) p = Some p'" "tbRows (psVotes st') = tbRows (psVotes st) @ [v]"
    "tbRows (psPolls st') = map (\<lambda>q. if plID q = pvPollID v then p' else q) (tbRows (psPolls st))"
    "\<forall>w \<in> set (tbRows (psVotes st)). pvPollID w = pvPollID v \<longrightarrow> pvAccountID w \<noteq> pvAccountID v"
proof -
  note tb = inv[unfolded pollInv_def tblOK_def]
  from putPollVote_ok(2)[OF inv put] obtain q p' where q: "q \<in> set (tbRows (psPolls st))" "plID q = pvPollID v"
      "incrementVotes (pvChoices v) q = Some p'"
      "tbRows (psPolls st') = map (setCountsRow (pvPollID v) p') (tbRows (psPolls st))"
      "tbRows (psVotes st') = tbRows (psVotes st) @ [v]"
    by (auto simp: voted_def)
  have one: "x = p" if "x \<in> set (tbRows (psPolls st))" "plID x = pvPollID v" for x
    by (rule poll_unique[of "tbRows (psPolls st)"]) (use tb that p in auto)
  have "pollRowOK p" using tb p(1) by simp
  have inc: "incrementVotes (pvChoices v) p = Some p'" using q(3) one[OF q(1,2)] by simp
  have rows: "setCountsRow (pvPollID v) p' x = (if plID x = pvPollID v then p' else x)" if "x \<in> set (tbRows (psPolls st))" for x
    using one[OF that] incrementVotes_row[OF inc \<open>pollRowOK p\<close> p(2)] by (auto simp: setCountsRow_def)
  have new: "tableOK voteIxs (tbRows (psVotes st) @ [v])"
    using putPollVote_ok(1)[OF inv put] q(5) by (simp add: pollInv_def tblOK_def)
  have "pvAccountID w \<noteq> pvAccountID v" if "w \<in> set (tbRows (psVotes st))" "pvPollID w = pvPollID v" for w
  proof
    assume "pvAccountID w = pvAccountID v"
    then have "w = v" using vote_unique[OF new, of w v] that by simp
    then show False using new that(1) by (simp add: tableOK_def)
  qed
  then show ?thesis
    using that[OF inc q(5)] q(4) rows by (auto cong: map_cong)
qed

text \<open>
  C27. A vote that the client API accepts is one of the votes of its poll from then on, and the
  only change of the votes; it was given by someone else than the author of a status that the
  voter may see, while the poll was open, for options the poll has, for one only unless the poll
  allows several, and by an account without a vote in the poll; the poll that is answered has
  the counters that are stored. A vote that is refused leaves polls and votes as they were and
  sends nothing; and no vote on a poll of this server ends in a panic.
\<close>

theorem pollVote_effect:
  assumes "pollReach own status acct (ppState pp)" and "pollVote env req i choices pp = (r, pp')"
  shows "case r of
      Inl e \<Rightarrow> samePolls (ppState pp) (ppState pp') \<and> ppQueue pp' = ppQueue pp \<and> (own \<longrightarrow> e \<noteq> PollPanic)
    | Inr p' \<Rightarrow> \<exists>s p. peStatusByPoll env i = Inr s \<and> peVisible env (Some req) s = Inr True \<and> stAccountID s \<noteq> acID req \<and>
        p \<in> set (tbRows (psPolls (ppState pp))) \<and> plID p = i \<and> \<not> pollClosed (peNow env) p \<and>
        choices \<noteq> [] \<and> (plMultiple p \<or> length choices = 1) \<and>
        (\<forall>c \<in> set choices. 0 \<le> c \<and> c < int (length (plOptions p))) \<and>
        (\<forall>v \<in> set (tbRows (psVotes (ppState pp))). pvPollID v = i \<longrightarrow> pvAccountID v \<noteq> acID req) \<and>
        tbRows (psVotes (ppState pp')) = tbRows (psVotes (ppState pp)) @ [newVote env req i choices] \<and>
        incrementVotes choices p = Some p' \<and>
        tbRows (psPolls (ppState pp')) = map (\<lambda>q. if plID q = i then p' else q) (tbRows (psPolls (ppState pp))) \<and>
        ppQueue pp' = ppQueue pp @ [VoteCreated (newVote env req i choices) p' req]"
proof -
  let ?st = "ppState pp" and ?v = "newVote env req i choices"
  have inv: "pollInv ?st" and c: "own \<longrightarrow> countsInv ?st" using pollReach_inv[OF assms(1)] by auto
  obtain t pp1 where g: "getTargetPoll env (Some req) i pp = (t, pp1)" by fastforce
  note ok = getTargetPoll_ok[OF inv g]
  show ?thesis
  proof (cases t)
    case (Inl e)
    then show ?thesis using assms(2) ok g by (auto simp: pollVote_def andThen_def)
  next
    case (Inr sp)
    obtain s p where sp: "sp = (s, p)" by fastforce
    have same: "samePolls ?st (ppState pp1)" and inv1: "pollInv (ppState pp1)" and q: "ppQueue pp1 = ppQueue pp"
      and p: "p \<in> set (tbRows (psPolls ?st))" "plID p = i"
      and s: "peStatusByPoll env i = Inr s" "peVisible env (Some req) s = Inr True"
      using ok Inr sp by auto
    have rows: "tbRows (psPolls (ppState pp1)) = tbRows (psPolls ?st)" "tbRows (psVotes (ppState pp1)) = tbRows (psVotes ?st)"
      using same by (simp_all add: samePolls_def)
    note checked = pollVote_checked[OF g[unfolded Inr sp]]
    show ?thesis
    proof (cases "voteChecks env req s p choices")
      case (Some e)
      then have "e \<noteq> PollPanic" by (auto simp: voteChecks_def split: if_splits)
      then show ?thesis using checked(1)[OF Some] assms(2) same q by auto
    next
      case None
      note ne = None[unfolded voteChecks_None]
      obtain e st2 where put: "putPollVote ?v (ppState pp1) = (e, st2)" by fastforce
      show ?thesis
      proof (cases e)
        case (Some err)
        then have r: "r = Inl (if err = LAlreadyExists then PollUnprocessable else if err = LPanic then PollPanic else PollInternal)"
            "pp' = pp1\<lparr>ppState := st2\<rparr>"
          using checked(2)[OF None] put assms(2) by simp_all
        have "samePolls (ppState pp1) st2" using putPollVote_ok(2)[OF inv1 put] Some by simp
        then have "samePolls ?st st2" by (rule samePolls_trans[OF same])
        moreover have "err \<noteq> LPanic" if own
        proof
          assume "err = LPanic"
          then obtain x where x: "x \<in> set (tbRows (psPolls ?st))" "plID x = i" "incrementVotes choices x = None"
            using putPollVote_panic[of ?v "ppState pp1" st2] put Some rows by (auto simp: newVote_def)
          have "x = p" by (rule poll_unique[of "tbRows (psPolls ?st)"]) (use inv x p in \<open>auto simp: pollInv_def tblOK_def\<close>)
          moreover have "plVotes p = Some (map (\<lambda>k. int (tally (plID p) k (tbRows (psVotes ?st)))) [0..<length (plOptions p)])"
            using c that p(1) by (simp add: countsInv_def countsOK_def)
          moreover have "\<not> list_ex (\<lambda>c. c < 0 \<or> c \<ge> int (length (plOptions p))) choices"
            using None by (auto simp: voteChecks_def split: if_splits)
          ultimately show False using x(3) incrementVotes_range by blast
        qed
        ultimately show ?thesis using r q by simp
      next
        case e: None
        have v: "pvPollID ?v = i" "pvChoices ?v = choices" "pvAccountID ?v = acID req" by (simp_all add: newVote_def)
        obtain p' where "incrementVotes (pvChoices ?v) p = Some p'" "tbRows (psVotes st2) = tbRows (psVotes (ppState pp1)) @ [?v]"
            "tbRows (psPolls st2) = map (\<lambda>q. if plID q = pvPollID ?v then p' else q) (tbRows (psPolls (ppState pp1)))"
            "\<forall>w \<in> set (tbRows (psVotes (ppState pp1))). pvPollID w = pvPollID ?v \<longrightarrow> pvAccountID w \<noteq> pvAccountID ?v"
          by (rule pollVote_cast[OF inv1 _ _ put[unfolded e]]) (use p rows v in auto)
        note p' = this[unfolded v rows]
        have "r = Inr p'" "pp' = pushPoll (VoteCreated ?v p' req) (pp1\<lparr>ppState := st2\<rparr>)"
          using checked(2)[OF None] put e p' assms(2) by simp_all
        then show ?thesis
          using ne s p p' q by (auto simp: pushPoll_def)
      qed
    qed
  qed
qed

definition demoAccount :: "string \<Rightarrow> account" where
  "demoAccount i = \<lparr>acID = i, acUsername = ''u'', acDomain = [], acSuspendedAt = 0, acLocked = False\<rparr>"

definition demoStatus :: status where
  "demoStatus = \<lparr>stID = ''S1'', stAccountID = ''C'', stAccount = demoAccount ''C'', stCreatedAt = 0, stVisibility = VisPublic,
     stMentionIDs = [], stMentions = [], stBoostOfID = [], stBoostOf = None, stBoostOfAccountID = [],
     stBoostOfAccount = demoAccount ''C'', stInReplyToID = [], stInReplyToURI = [], stBoostable = True\<rparr>"

definition demoEnv :: poll_env where
  "demoEnv = \<lparr>peStatusByPoll = (\<lambda>_. Inr demoStatus), peStatus = (\<lambda>_. Inr demoStatus), pePopulate = (\<lambda>_. (None, True)),
     peVisible = (\<lambda>_ _. Inr True), peSourceByURI = (\<lambda>_. Inr \<lparr>poURI = ''u'', poPollID = ''P1'', poLocal = True\<rparr>),
     peEqualFold = (=), peStatusLocal = (\<lambda>_. True), peNewID = ''V9'', peNow = 7\<rparr>"

definition demoProc :: pollproc where
  "demoProc = \<lparr>ppState = demoState, ppTasks = [], ppQueue = []\<rparr>"

lemma demoProc_reach: "pollReach own noStatus noAccount (ppState demoProc)"
  using demoState_reach by (simp add: demoProc_def)

theorem pollVote_effect_witness:
  "samePolls (ppState demoProc) (ppState (snd (pollVote demoEnv (demoAccount ''B'') ''P1'' [1] demoProc)))"
proof -
  have "fst (pollVote demoEnv (demoAccount ''B'') ''P1'' [1] demoProc) = Inl PollUnprocessable" by code_simp
  then obtain pp' where "pollVote demoEnv (demoAccount ''B'') ''P1'' [1] demoProc = (Inl PollUnprocessable, pp')"
    by (metis prod.collapse)
  from pollVote_effect[OF demoProc_reach this] this show ?thesis by simp
qed

text \<open>
  While the database answers, what a vote on a poll that the voter may see is told depends
  only on the rows: unprocessable for the author and for a closed poll, a bad request for no
  choice, too many of them or one out of range, unprocessable again for an account that has a
  vote in the poll, and otherwise the poll with the vote counted.
\<close>

theorem pollVote_decision:
  assumes "pollReach own status acct (ppState pp)" and "psFaults (ppState pp) = []"
    and "peStatusByPoll env i = Inr s" and "peVisible env (Some req) s = Inr True"
    and "p \<in> set (tbRows (psPolls (ppState pp)))" and "plID p = i"
    and "i \<noteq> []" and "acID req \<noteq> []" and "peNewID env \<noteq> []" and "peNewID env \<notin> pvID ` set (tbRows (psVotes (ppState pp)))"
  shows "fst (pollVote env req i choices pp) =
    (if acID req = stAccountID s \<or> pollClosed (peNow env) p then Inl PollUnprocessable
     else if choices = [] \<or> (\<not> plMultiple p \<and> length choices > 1) \<or>
         list_ex (\<lambda>c. c < 0 \<or> c \<ge> int (length (plOptions p))) choices then Inl PollBadRequest
     else if list_ex (\<lambda>v. pvPollID v = i \<and> pvAccountID v = acID req) (tbRows (psVotes (ppState pp))) then Inl PollUnprocessable
     else case incrementVotes choices p of None \<Rightarrow> Inl PollPanic | Some p' \<Rightarrow> Inr p')"
proof -
  let ?st = "ppState pp" and ?v = "newVote env req i choices"
  have inv: "pollInv ?st" using pollReach_inv[OF assms(1)] by simp
  obtain x st1 where x: "getPollByID' i ?st = (x, st1)" by fastforce
  from getPollByID'_ok[OF inv, of i] have
    ok: "pollInv st1" "samePolls ?st st1" "x = pollRow ?st i" "psFaults st1 = []"
    using assms(2) unfolding x preadOK_def by simp_all
  have tb: "tableOK pollIxs (tbRows (psPolls ?st))" using inv by (simp add: pollInv_def tblOK_def)
  have row: "pollRow ?st i = Inr p"
  proof (cases "pollRow ?st i")
    case (Inl e)
    then show ?thesis using assms(5,6) by (auto simp: pollRow_def rowsLookup_Inl)
  next
    case (Inr q)
    from rowsLookup_Inr[OF this[unfolded pollRow_def]] have "q \<in> set (tbRows (psPolls ?st))" "plID q = plID p"
      using assms(6) by auto
    then show ?thesis using Inr poll_unique[OF tb _ assms(5)] by simp
  qed
  let ?pp1 = "pp\<lparr>ppState := st1\<rparr>"
  have g: "getTargetPoll env (Some req) i pp = (Inr (s, p), ?pp1)"
    using assms(3,4) x ok(3) row by (simp add: getTargetPoll_def onPolls_def)
  have rows: "tbRows (psPolls st1) = tbRows (psPolls ?st)" "tbRows (psVotes st1) = tbRows (psVotes ?st)"
    using ok(2) by (simp_all add: samePolls_def)
  note checked = pollVote_checked[OF g]
  have nz: "\<not> hasZero voteIxs ?v"
    using assms(7,8,9) by (simp add: hasZero_def voteIxs_def idIndex_def multiIndex_def ixKey_def newVote_def)
  have confl: "list_ex (rowConflict voteIxs ?v) (tbRows (psVotes ?st)) \<longleftrightarrow>
      list_ex (\<lambda>v. pvPollID v = i \<and> pvAccountID v = acID req) (tbRows (psVotes ?st))"
    using assms(10) unfolding list_ex_iff voteConflict[OF nz] by (force simp: newVote_def)
  have put: "fst (putPollVote ?v st1) =
      (if list_ex (rowConflict voteIxs ?v) (tbRows (psVotes ?st)) then Some LAlreadyExists
       else if incrementVotes choices p = None then Some LPanic else None)"
    using putPollVote_quiet[OF ok(1,4), of p ?v] nz assms(5,6) rows by (simp add: newVote_def)
  show ?thesis
  proof (cases "voteChecks env req s p choices")
    case (Some e)
    then show ?thesis using checked(1)[OF Some] by (auto simp: voteChecks_def split: if_splits)
  next
    case None
    then have "\<not> (acID req = stAccountID s \<or> pollClosed (peNow env) p)" "\<not> (choices = [] \<or> (\<not> plMultiple p \<and> length choices > 1) \<or>
         list_ex (\<lambda>c. c < 0 \<or> c \<ge> int (length (plOptions p))) choices)"
      by (auto simp: voteChecks_def split: if_splits)
    then show ?thesis
      using checked(2)[OF None] put confl by (auto split: prod.splits option.splits if_splits)
  qed
qed

theorem pollVote_decision_witness:
  "fst (pollVote demoEnv (demoAccount ''A'') ''P1'' [1, 1] demoProc) = Inr (demoRow\<lparr>plVotes := Some [1, 3], plVoters := Some 2\<rparr>)"
proof -
  have s: "psFaults (ppState demoProc) = []" "demoRow \<in> set (tbRows (psPolls (ppState demoProc)))"
      "peNewID demoEnv \<notin> pvID ` set (tbRows (psVotes (ppState demoProc)))"
    by (simp_all add: demoProc_def demoState_rows demoEnv_def demoVote_def) code_simp
  show ?thesis
    by (subst pollVote_decision[OF demoProc_reach, of demoEnv "''P1''" demoStatus "demoAccount ''A''" demoRow "[1, 1]"])
      (use s in \<open>simp_all add: demoEnv_def demoAccount_def demoProc_def demoState_rows demoVote_def demoStatus_def
         demoRow_def demoPoll_def pollClosed_def incrementVotes_def checkVotes_def inRange_def\<close>)
qed

subsection \<open>Where the code falls short\<close>

text \<open>
  A choice that is repeated counts each time: the checks of \<open>PollVote\<close> bound the number of
  choices by nothing but \<open>Multiple\<close>, and the voter of a poll with several choices may name one
  option as often as it likes.
\<close>

lemma repeated_choice_counts:
  assumes "stAccountID s \<noteq> acID req" and "\<not> pollClosed (peNow env) p" and "plMultiple p" and "k < length (plOptions p)" and "0 < n"
  shows "voteChecks env req s p (replicate n (int k)) = None"
  using assms by (simp add: voteChecks_None)

text \<open>The extraction of votes loses the second of two, and leaves the first among the rest.\<close>

lemma extractLoop_step:
  "extractLoop cast i arr =
     (if i < length arr then
        (case cast (arr ! i) of
           None \<Rightarrow> extractLoop cast (i + 1) arr
         | Some x \<Rightarrow> (let (xs, rest) = extractLoop cast (i + 1) (copyDrop i arr) in (x # xs, rest)))
      else ([], arr))"
  by (rule extractLoop.simps)

lemma extract_loses_a_vote: "extractPollOptionables Some [a, b] = ([a], [a])"
  by (simp add: extractPollOptionables_def extractLoop_step[of Some] copyDrop_def)

text \<open>A vote that comes by federation is checked neither for the number of choices nor for the poll being open.\<close>

lemma fediVote_unchecked:
  "optionChoices env src (p\<lparr>plMultiple := m, plClosedAt := c, plExpiresAt := x\<rparr>) opts = optionChoices env src p opts"
  by (induction opts) (auto simp: getChoice_def Let_def)

text \<open>
  \<open>DeletePollVotes\<close> drops the cached votes under the poll's ID, and half of those stay
  (\<open>invalidateKey_reach\<close> in \<open>Structr\<close>): a vote is found though no table holds one.
\<close>

definition fourVotes :: pollstate where
  "fourVotes = the (pollRun noStatus noAccount
     [OpPutPoll demoPoll, OpPutVote (demoVote ''V1'' ''A'' [0]), OpPutVote (demoVote ''V2'' ''B'' [0, 1]),
      OpPutVote (demoVote ''V3'' ''C'' [0]), OpPutVote (demoVote ''V4'' ''D'' [1]), OpGetVotes ''P1''] demoStart)"

lemma deletePollVotes_stale:
  "tbRows (psVotes (snd (deletePollVotes ''P1'' fourVotes))) = []"
  "list_ex (\<lambda>a. Option.is_none (errOf (fst (getPollVoteBy' ''P1'' a (snd (deletePollVotes ''P1'' fourVotes))))))
     [''A'', ''B'', ''C'', ''D'']"
  by code_simp+

text \<open>
  \<open>onExpiry\<close> reads the poll and stores it later: of a vote in between the table has the count,
  but not the cache, which answers the poll as it was read.
\<close>

definition closedLate :: pollstate where
  "closedLate =
     (let st = snd (putPoll demoPoll demoStart);
          p = (case getPollByID' ''P1'' st of (Inr p, _) \<Rightarrow> p | _ \<Rightarrow> demoPoll);
          st1 = snd (putPollVote (demoVote ''V1'' ''A'' [0]) st)
      in snd (updatePoll 8 (p\<lparr>plClosedAt := 8, plClosing := True\<rparr>) [''closed_at''] st1))"

lemma updatePoll_race:
  "map plVotes (tbRows (psPolls closedLate)) = [Some [1, 0]]"
  "(case fst (getPollByID' ''P1'' closedLate) of Inr p \<Rightarrow> plVotes p = Some [0, 0] \<and> plVoters p = Some 0 | Inl _ \<Rightarrow> False)"
  by code_simp+

end
