(* ===== verification/Inbox.thy ===== *)
theory Inbox
  imports RelationshipHistory DomainPerms Uris "HOL-Library.AList"
begin

text \<open>
  What other servers send: an activity posted to the inbox of an account, from the check of
  blocks (\<open>PostInboxRequestBodyHook\<close> and \<open>Blocked\<close> of
  \<open>src/internal/federation/federatingprotocol.go\<close>, \<open>PostInboxScheme\<close> of \<open>federatingactor.go\<close>) over the
  callbacks of \<open>src/internal/federation/federatingdb\<close> that change relationships (\<open>accept.go\<close>,
  \<open>reject.go\<close>, \<open>undo.go\<close>, and follows and blocks of \<open>create.go\<close>) to the worker that ends the
  job (\<open>src/internal/processing/workers/fromfediapi.go\<close>). The converters of
  \<open>src/internal/typeutils/astointernal.go\<close> and the accessors of \<open>src/internal/ap\<close> that they use are
  included.

  Authentication by HTTP signature comes first and is an argument of the call: it gives the
  account that owns the key. The library that serves the inbox calls the callback of the
  activity's type, and then, when it looks for whom to forward the activity to, \<open>Create\<close> with the
  activity itself, for any type and with its errors only logged.
\<close>

subsection \<open>Activities\<close>

text \<open>
  An element of an actor or object property: an IRI, a thing with the ID it has, or neither.
\<close>

datatype as_ref = RefIRI string | RefThing "string option" | RefUnknown

record as_thing =
  atType :: string
  atID :: "string option"
  atActor :: "as_ref list option"
  atObject :: "as_ref list option"
  atReplyTo :: "string option"
  atTo :: "string list"
  atCc :: "string list"

datatype as_object = ObjIRI string | ObjThing as_thing | ObjUnknown

record activity =
  avType :: string
  avID :: "string option"
  avActor :: "as_ref list option"
  avReplyTo :: "string option"
  avTo :: "string list"
  avCc :: "string list"
  avObjects :: "as_object list"

text \<open>\<open>extractIRIs\<close> of \<open>properties.go\<close>.\<close>

fun refID :: "as_ref \<Rightarrow> string list" where
  "refID (RefIRI u) = [u]"
| "refID (RefThing (Some u)) = [u]"
| "refID _ = []"

definition extractIRIs :: "as_ref list option \<Rightarrow> string list" where
  "extractIRIs prop = (case prop of None \<Rightarrow> [] | Some refs \<Rightarrow> concat (map refID refs))"

text \<open>\<open>sameActor\<close>: the inner loop ends the search at the first element that is no IRI.\<close>

definition refIRI :: "as_ref \<Rightarrow> string option" where
  "refIRI r = (case r of RefIRI u \<Rightarrow> Some u | _ \<Rightarrow> None)"

fun sameActorIn :: "as_ref \<Rightarrow> as_ref list \<Rightarrow> bool option" where
  "sameActorIn x [] = None"
| "sameActorIn x (y # ys) =
     (case refIRI x of
        None \<Rightarrow> Some False
      | Some u \<Rightarrow>
          (case refIRI y of
             None \<Rightarrow> Some False
           | Some v \<Rightarrow> if u = v then Some True else sameActorIn x ys))"

fun sameActorLoop :: "as_ref list \<Rightarrow> as_ref list \<Rightarrow> bool" where
  "sameActorLoop [] ys = False"
| "sameActorLoop (x # xs) ys = (case sameActorIn x ys of Some b \<Rightarrow> b | None \<Rightarrow> sameActorLoop xs ys)"

definition sameActor :: "as_ref list option \<Rightarrow> as_ref list option \<Rightarrow> bool" where
  "sameActor a b = (case (a, b) of (Some xs, Some ys) \<Rightarrow> sameActorLoop xs ys | _ \<Rightarrow> False)"

subsection \<open>State and environment\<close>

datatype fedi_model = FediRequest follow_request | FediFollow follow | FediBlock block

record fedi_msg =
  fmObject :: string
  fmActivity :: string
  fmModel :: fedi_model
  fmReceiving :: account
  fmRequesting :: account

text \<open>What leaves these components: notifications, an accept to be sent, one more or less in the statistics
  of an account, timelines to be wiped.\<close>

datatype fedi_effect =
    NotifyFollowRequest follow_request
  | NotifyFollow follow
  | FederateAccept follow
  | CountRequest account
  | UncountRequest account
  | CountFollower account
  | CountFollowing account
  | WipeHome string string
  | WipeLists string string

record inbox_state =
  ibRel :: relstate
  ibDomains :: domainDB
  ibQueue :: "fedi_msg list"
  ibEffects :: "fedi_effect list"

datatype inbox_error =
    IMalformed | INotReceiver | INotRequester | IWrongType | IDB lookup_error | IDomainDB | IMany | IOtherBlocked | IUnhandled

text \<open>
  \<open>ieUndoLike\<close> is the answer of \<open>undoLike\<close>, which works on faves, and \<open>ieOther\<close> that of the callbacks
  of the types that have none here; \<open>ieDeref\<close> fetches an object from its server. The order in which Go ranges over a
  map is \<open>ieOrder\<close>.
\<close>

record inbox_env =
  ieByURI :: "string \<Rightarrow> lookup_error + account"
  ieStatusAuthor :: "string \<Rightarrow> lookup_error + string"
  ieAccount :: "string \<Rightarrow> lookup_error + account"
  ieMoving :: "account \<Rightarrow> bool"
  ieUndoLike :: "as_thing \<Rightarrow> bool"
  ieDeref :: "string \<Rightarrow> inbox_error + as_thing"
  ieOther :: "activity \<Rightarrow> inbox_error + unit"
  ieNow :: time
  ieULID :: string
  ieHost :: "string \<Rightarrow> string"
  ieHostname :: "string \<Rightarrow> string"
  ieOurHost :: string
  iePunify :: punifyF
  ieConfig :: config
  ieOrder :: "(string \<times> string) list \<Rightarrow> (string \<times> string) list"

definition onInbox :: "(relstate \<Rightarrow> (lookup_error + 'a) \<times> relstate) \<Rightarrow> inbox_state \<Rightarrow> (inbox_error + 'a) \<times> inbox_state" where
  "onInbox f ib =
     (case f (ibRel ib) of
        (Inl e, st) \<Rightarrow> (Inl (IDB e), ib\<lparr>ibRel := st\<rparr>)
      | (Inr a, st) \<Rightarrow> (Inr a, ib\<lparr>ibRel := st\<rparr>))"

definition execInbox :: "(relstate \<Rightarrow> lookup_error option \<times> relstate) \<Rightarrow> inbox_state \<Rightarrow> (inbox_error + unit) \<times> inbox_state" where
  "execInbox f = onInbox (\<lambda>st. case f st of (Some e, st') \<Rightarrow> (Inl e, st') | (None, st') \<Rightarrow> (Inr (), st'))"

definition pushFedi :: "fedi_msg \<Rightarrow> inbox_state \<Rightarrow> inbox_state" where
  "pushFedi m ib = ib\<lparr>ibQueue := ibQueue ib @ [m]\<rparr>"

definition effect :: "fedi_effect list \<Rightarrow> inbox_state \<Rightarrow> inbox_state" where
  "effect es ib = ib\<lparr>ibEffects := ibEffects ib @ es\<rparr>"

subsection \<open>From things to rows\<close>

definition accountOf :: "inbox_env \<Rightarrow> as_ref list option \<Rightarrow> inbox_error + account" where
  "accountOf env prop =
     (case extractIRIs prop of
        [] \<Rightarrow> Inl IMalformed
      | u # _ \<Rightarrow> (case ieByURI env u of Inl e \<Rightarrow> Inl (IDB e) | Inr a \<Rightarrow> Inr a))"

text \<open>The URI and the IDs of the two accounts, which is all that a converted follow or block holds.\<close>

definition asParties :: "inbox_env \<Rightarrow> as_thing \<Rightarrow> inbox_error + (string \<times> string \<times> string)" where
  "asParties env t =
     (case atID t of
        None \<Rightarrow> Inl IMalformed
      | Some uri \<Rightarrow>
          (case accountOf env (atActor t) of
             Inl e \<Rightarrow> Inl e
           | Inr origin \<Rightarrow>
               (case accountOf env (atObject t) of
                  Inl e \<Rightarrow> Inl e
                | Inr target \<Rightarrow> Inr (uri, acID origin, acID target))))"

definition asFollowToFollowRequest :: "inbox_env \<Rightarrow> as_thing \<Rightarrow> inbox_error + follow_request" where
  "asFollowToFollowRequest env t =
     (case asParties env t of
        Inl e \<Rightarrow> Inl e
      | Inr (uri, a, b) \<Rightarrow>
          Inr \<lparr>frID = ieULID env, frUpdatedAt = ieNow env, frURI = uri, frAccountID = a, frTargetAccountID = b,
               frShowReblogs = True, frNotify = False\<rparr>)"

definition asBlockToBlock :: "inbox_env \<Rightarrow> as_thing \<Rightarrow> inbox_error + block" where
  "asBlockToBlock env t =
     (case asParties env t of
        Inl e \<Rightarrow> Inl e
      | Inr (uri, a, b) \<Rightarrow> Inr \<lparr>blID = ieULID env, blURI = uri, blAccountID = a, blTargetAccountID = b\<rparr>)"

subsection \<open>Accept\<close>

definition fediMsg :: "string \<Rightarrow> string \<Rightarrow> fedi_model \<Rightarrow> account \<Rightarrow> account \<Rightarrow> fedi_msg" where
  "fediMsg object act m recv req =
     \<lparr>fmObject = object, fmActivity = act, fmModel = m, fmReceiving = recv, fmRequesting = req\<rparr>"

definition acceptRequest :: "inbox_env \<Rightarrow> account \<Rightarrow> account \<Rightarrow> string \<Rightarrow> string \<Rightarrow> inbox_state \<Rightarrow>
    (inbox_error + unit) \<times> inbox_state" where
  "acceptRequest env recv req a b ib =
     (if a \<noteq> acID recv then (Inl INotReceiver, ib)
      else if b \<noteq> acID req then (Inl INotRequester, ib)
      else
        andThen (onInbox (acceptFollowRequest (ieAccount env) (ieNow env) a b) ib) (\<lambda>f ib1.
          (Inr (), pushFedi (fediMsg ''Follow'' ''Accept'' (FediFollow f) recv req) ib1)))"

fun acceptObject :: "inbox_env \<Rightarrow> account \<Rightarrow> account \<Rightarrow> as_object \<Rightarrow> inbox_state \<Rightarrow> (inbox_error + unit) \<times> inbox_state" where
  "acceptObject env recv req (ObjThing t) ib =
     (if atType t = ''Follow'' then
        (case asParties env t of Inl e \<Rightarrow> (Inl e, ib) | Inr (_, a, b) \<Rightarrow> acceptRequest env recv req a b ib)
      else (Inr (), ib))"
| "acceptObject env recv req (ObjIRI u) ib =
     (if \<not> isFollowPath (urlPath u) then (Inr (), ib)
      else
        andThen (onInbox (getFollowRequestByURI (ieAccount env) u) ib) (\<lambda>r ib1.
          acceptRequest env recv req (frAccountID r) (frTargetAccountID r) ib1))"
| "acceptObject env recv req ObjUnknown ib = (Inr (), ib)"

fun acceptObjects :: "inbox_env \<Rightarrow> account \<Rightarrow> account \<Rightarrow> as_object list \<Rightarrow> inbox_state \<Rightarrow> (inbox_error + unit) \<times> inbox_state" where
  "acceptObjects env recv req [] ib = (Inr (), ib)"
| "acceptObjects env recv req (x # xs) ib =
     andThen (acceptObject env recv req x ib) (\<lambda>_ ib1. acceptObjects env recv req xs ib1)"

text \<open>\<open>None\<close> for the receiving account: the activity comes from inside.\<close>

definition fediAccept :: "inbox_env \<Rightarrow> account option \<Rightarrow> account \<Rightarrow> activity \<Rightarrow> inbox_state \<Rightarrow> (inbox_error + unit) \<times> inbox_state" where
  "fediAccept env receiving req act ib =
     (case receiving of
        None \<Rightarrow> (Inr (), ib)
      | Some recv \<Rightarrow> if ieMoving env req then (Inr (), ib) else acceptObjects env recv req (avObjects act) ib)"

subsection \<open>Reject\<close>

definition rejectRequest :: "account \<Rightarrow> account \<Rightarrow> string \<Rightarrow> string \<Rightarrow> inbox_state \<Rightarrow> (inbox_error + unit) \<times> inbox_state" where
  "rejectRequest recv req a b ib =
     (if a \<noteq> acID recv then (Inl INotReceiver, ib)
      else if b \<noteq> acID req then (Inl INotRequester, ib)
      else execInbox (rejectFollowRequest a b) ib)"

text \<open>The first follow found ends the loop.\<close>

fun rejectObjects :: "inbox_env \<Rightarrow> account \<Rightarrow> account \<Rightarrow> as_object list \<Rightarrow> inbox_state \<Rightarrow> (inbox_error + unit) \<times> inbox_state" where
  "rejectObjects env recv req [] ib = (Inr (), ib)"
| "rejectObjects env recv req (ObjIRI u # xs) ib =
     (if isFollowPath (urlPath u) then
        andThen (onInbox (getFollowRequestByURI (ieAccount env) u) ib) (\<lambda>r ib1.
          rejectRequest recv req (frAccountID r) (frTargetAccountID r) ib1)
      else rejectObjects env recv req xs ib)"
| "rejectObjects env recv req (ObjThing t # xs) ib =
     (if atType t \<noteq> ''Follow'' then (Inl IWrongType, ib)
      else (case asParties env t of Inl e \<Rightarrow> (Inl e, ib) | Inr (_, a, b) \<Rightarrow> rejectRequest recv req a b ib))"
| "rejectObjects env recv req (ObjUnknown # xs) ib = rejectObjects env recv req xs ib"

definition fediReject :: "inbox_env \<Rightarrow> account option \<Rightarrow> account \<Rightarrow> activity \<Rightarrow> inbox_state \<Rightarrow> (inbox_error + unit) \<times> inbox_state" where
  "fediReject env receiving req act ib =
     (case receiving of
        None \<Rightarrow> (Inr (), ib)
      | Some recv \<Rightarrow> rejectObjects env recv req (avObjects act) ib)"

subsection \<open>Undo\<close>

text \<open>The errors of the objects are collected: the result of one says whether there was none.\<close>

definition okExcept :: "lookup_error option \<times> relstate \<Rightarrow> bool \<times> relstate" where
  "okExcept r = (case r of (Some e, st) \<Rightarrow> (e = LNoEntries, st) | (None, st) \<Rightarrow> (True, st))"

definition undoFollow :: "inbox_env \<Rightarrow> account \<Rightarrow> account \<Rightarrow> activity \<Rightarrow> as_thing \<Rightarrow> relstate \<Rightarrow> bool \<times> relstate" where
  "undoFollow env recv req act t st =
     (if \<not> sameActor (avActor act) (atActor t) then (True, st)
      else
        (case asParties env t of
           Inl e \<Rightarrow> (False, st)
         | Inr (uri, a, b) \<Rightarrow>
             if b \<noteq> acID recv then (True, st)
             else if a \<noteq> acID req then (True, st)
             else
               (let (ok, st1) = okExcept (deleteFollowByURI uri st)
                in if \<not> ok then (False, st1) else okExcept (deleteFollowRequestByURI uri st1))))"

definition undoBlock :: "inbox_env \<Rightarrow> account \<Rightarrow> account \<Rightarrow> activity \<Rightarrow> as_thing \<Rightarrow> relstate \<Rightarrow> bool \<times> relstate" where
  "undoBlock env recv req act t st =
     (if \<not> sameActor (avActor act) (atActor t) then (True, st)
      else
        (case asParties env t of
           Inl e \<Rightarrow> (False, st)
         | Inr (uri, a, b) \<Rightarrow>
             if b \<noteq> acID recv then (True, st)
             else if a \<noteq> acID req then (True, st)
             else okExcept (deleteBlockByURI uri st)))"

definition undoObject :: "inbox_env \<Rightarrow> account \<Rightarrow> account \<Rightarrow> activity \<Rightarrow> as_object \<Rightarrow> relstate \<Rightarrow> bool \<times> relstate" where
  "undoObject env recv req act x st =
     (case x of
        ObjThing t \<Rightarrow>
          if atType t = ''Follow'' then undoFollow env recv req act t st
          else if atType t = ''Like'' then (ieUndoLike env t, st)
          else if atType t = ''Block'' then undoBlock env recv req act t st
          else (True, st)
      | _ \<Rightarrow> (True, st))"

fun undoObjects :: "inbox_env \<Rightarrow> account \<Rightarrow> account \<Rightarrow> activity \<Rightarrow> as_object list \<Rightarrow> relstate \<Rightarrow> bool \<times> relstate" where
  "undoObjects env recv req act [] st = (True, st)"
| "undoObjects env recv req act (x # xs) st =
     (let (ok, st1) = undoObject env recv req act x st; (oks, st2) = undoObjects env recv req act xs st1
      in (ok \<and> oks, st2))"

definition fediUndo :: "inbox_env \<Rightarrow> account option \<Rightarrow> account \<Rightarrow> activity \<Rightarrow> inbox_state \<Rightarrow> (inbox_error + unit) \<times> inbox_state" where
  "fediUndo env receiving req act ib =
     (case receiving of
        None \<Rightarrow> (Inr (), ib)
      | Some recv \<Rightarrow>
          (let (ok, st) = undoObjects env recv req act (avObjects act) (ibRel ib)
           in (if ok then Inr () else Inl IMany, ib\<lparr>ibRel := st\<rparr>)))"

subsection \<open>Follows and blocks\<close>

text \<open>The activity as the thing that is created: a follow or a block is its own object.\<close>

definition objectRef :: "as_object \<Rightarrow> as_ref" where
  "objectRef x = (case x of ObjIRI u \<Rightarrow> RefIRI u | ObjThing t \<Rightarrow> RefThing (atID t) | ObjUnknown \<Rightarrow> RefUnknown)"

definition asThing :: "activity \<Rightarrow> as_thing" where
  "asThing act =
     \<lparr>atType = avType act, atID = avID act, atActor = avActor act, atObject = Some (map objectRef (avObjects act)),
      atReplyTo = avReplyTo act, atTo = avTo act, atCc = avCc act\<rparr>"

definition activityFollow :: "inbox_env \<Rightarrow> account \<Rightarrow> account \<Rightarrow> as_thing \<Rightarrow> inbox_state \<Rightarrow> (inbox_error + unit) \<times> inbox_state" where
  "activityFollow env recv req t ib =
     (case asFollowToFollowRequest env t of
        Inl e \<Rightarrow> (Inl e, ib)
      | Inr fr \<Rightarrow>
          if frAccountID fr \<noteq> acID req then (Inl INotRequester, ib)
          else if frTargetAccountID fr \<noteq> acID recv then (Inl INotReceiver, ib)
          else
            andThen (execInbox (putFollowRequest fr) ib) (\<lambda>_ ib1.
              (Inr (), pushFedi (fediMsg ''Follow'' ''Create'' (FediRequest fr) recv req) ib1)))"

definition activityBlock :: "inbox_env \<Rightarrow> account \<Rightarrow> account \<Rightarrow> as_thing \<Rightarrow> inbox_state \<Rightarrow> (inbox_error + unit) \<times> inbox_state" where
  "activityBlock env recv req t ib =
     (case asBlockToBlock env t of
        Inl e \<Rightarrow> (Inl e, ib)
      | Inr b \<Rightarrow>
          if blAccountID b \<noteq> acID req then (Inl INotRequester, ib)
          else if blTargetAccountID b \<noteq> acID recv then (Inl INotReceiver, ib)
          else
            andThen (execInbox (putBlock b) ib) (\<lambda>_ ib1.
              (Inr (), pushFedi (fediMsg ''Block'' ''Create'' (FediBlock b) recv req) ib1)))"

text \<open>\<open>Create\<close>; the other types work on other tables.\<close>

definition fediCreate :: "inbox_env \<Rightarrow> account option \<Rightarrow> account \<Rightarrow> as_thing \<Rightarrow> inbox_state \<Rightarrow> (inbox_error + unit) \<times> inbox_state" where
  "fediCreate env receiving req t ib =
     (case receiving of
        None \<Rightarrow> (Inr (), ib)
      | Some recv \<Rightarrow>
          if ieMoving env req then (Inr (), ib)
          else if atType t = ''Block'' then activityBlock env recv req t ib
          else if atType t = ''Follow'' then activityFollow env recv req t ib
          else (Inr (), ib))"

subsection \<open>The worker\<close>

definition createFollowReq :: "inbox_env \<Rightarrow> account \<Rightarrow> account \<Rightarrow> follow_request \<Rightarrow> inbox_state \<Rightarrow> (inbox_error + unit) \<times> inbox_state" where
  "createFollowReq env recv req fr ib =
     (case populateFollowRequest (ieAccount env) fr of
        Some e \<Rightarrow> (Inl (IDB e), ib)
      | None \<Rightarrow>
          (case ieAccount env (frTargetAccountID fr) of
             Inl e \<Rightarrow> (Inl (IDB e), ib)
           | Inr target \<Rightarrow>
               if acLocked target then (Inr (), effect [NotifyFollowRequest fr, CountRequest recv] ib)
               else
                 andThen (onInbox (acceptFollowRequest (ieAccount env) (ieNow env) (frAccountID fr) (frTargetAccountID fr)) ib)
                   (\<lambda>f ib1. (Inr (), effect [CountFollower recv, CountFollowing req, FederateAccept f, NotifyFollow f] ib1))))"

text \<open>\<open>CreateBlock\<close>: errors are logged only.\<close>

definition ignoreErr :: "(relstate \<Rightarrow> lookup_error option \<times> relstate) \<Rightarrow> inbox_state \<Rightarrow> inbox_state" where
  "ignoreErr f ib = ib\<lparr>ibRel := snd (f (ibRel ib))\<rparr>"

definition createBlock :: "block \<Rightarrow> inbox_state \<Rightarrow> inbox_state" where
  "createBlock b ib =
     (let x = blAccountID b; y = blTargetAccountID b
      in ignoreErr (deleteFollowRequest y x) (ignoreErr (deleteFollowRequest x y)
           (ignoreErr (deleteFollow y x) (ignoreErr (deleteFollow x y)
             (effect [WipeHome x y, WipeHome y x, WipeLists x y, WipeLists y x] ib)))))"

definition acceptFollow :: "account \<Rightarrow> account \<Rightarrow> inbox_state \<Rightarrow> inbox_state" where
  "acceptFollow recv req ib = effect [UncountRequest req, CountFollower req, CountFollowing recv] ib"

text \<open>\<open>ProcessFromFediAPI\<close> on the jobs that the callbacks above queue.\<close>

definition processFromFediAPI :: "inbox_env \<Rightarrow> fedi_msg \<Rightarrow> inbox_state \<Rightarrow> (inbox_error + unit) \<times> inbox_state" where
  "processFromFediAPI env m ib =
     (if fmActivity m = ''Create'' \<and> fmObject m = ''Follow'' then
        (case fmModel m of
           FediRequest fr \<Rightarrow> createFollowReq env (fmReceiving m) (fmRequesting m) fr ib
         | _ \<Rightarrow> (Inl IWrongType, ib))
      else if fmActivity m = ''Create'' \<and> fmObject m = ''Block'' then
        (case fmModel m of FediBlock b \<Rightarrow> (Inr (), createBlock b ib) | _ \<Rightarrow> (Inl IWrongType, ib))
      else if fmActivity m = ''Accept'' \<and> fmObject m = ''Follow'' then (Inr (), acceptFollow (fmReceiving m) (fmRequesting m) ib)
      else (Inl IUnhandled, ib))"

subsection \<open>Blocks\<close>

definition publicIRIs :: "string list" where
  "publicIRIs = [''https://www.w3.org/ns/activitystreams#Public'', ''Public'', ''as:Public'']"

text \<open>\<open>UniqueURIs\<close> keeps the first of equal URIs.\<close>

fun uniqueURIs :: "string list \<Rightarrow> string list \<Rightarrow> string list" where
  "uniqueURIs keys [] = []"
| "uniqueURIs keys (u # us) = (if u \<in> set keys then uniqueURIs keys us else u # uniqueURIs (u # keys) us)"

definition optURI :: "string option \<Rightarrow> string list" where
  "optURI u = (case u of None \<Rightarrow> [] | Some x \<Rightarrow> [x])"

definition objectIRIs :: "as_object \<Rightarrow> string list" where
  "objectIRIs x =
     (case x of
        ObjIRI u \<Rightarrow> [u]
      | ObjThing t \<Rightarrow> optURI (atID t) @ optURI (atReplyTo t) @ atTo t @ atCc t
      | ObjUnknown \<Rightarrow> [])"

definition postInboxRequestBodyHook :: "activity \<Rightarrow> string list" where
  "postInboxRequestBodyHook act =
     uniqueURIs [] (filter (\<lambda>u. u \<notin> set publicIRIs)
       (optURI (avID act) @ optURI (avReplyTo act) @ avTo act @ avCc act @ concat (map objectIRIs (avObjects act))))"

text \<open>The map from the owners of the other IRIs to the hosts of those.\<close>

fun ownersOf :: "inbox_env \<Rightarrow> string list \<Rightarrow> (string \<times> string) list \<Rightarrow> inbox_error + (string \<times> string) list" where
  "ownersOf env [] m = Inr m"
| "ownersOf env (u # us) m =
     (case ieByURI env u of
        Inr a \<Rightarrow> ownersOf env us (AList.update (acID a) (ieHost env u) m)
      | Inl e \<Rightarrow>
          if e \<noteq> LNoEntries then Inl (IDB e)
          else
            (case ieStatusAuthor env u of
               Inr a \<Rightarrow> ownersOf env us (AList.update a (ieHost env u) m)
             | Inl e' \<Rightarrow> if e' \<noteq> LNoEntries then Inl (IDB e') else ownersOf env us m))"

fun checkOwners :: "inbox_env \<Rightarrow> account \<Rightarrow> account \<Rightarrow> (string \<times> string) list \<Rightarrow> inbox_state \<Rightarrow> (inbox_error + unit) \<times> inbox_state" where
  "checkOwners env recv req [] ib = (Inr (), ib)"
| "checkOwners env recv req ((a, host) # m) ib =
     andThen (onInbox (isBlocked (acID recv) a) ib) (\<lambda>blocked ib1.
       if blocked then (Inl IOtherBlocked, ib1)
       else if host = ieOurHost env then
         andThen (onInbox (isBlocked a (acID req)) ib1) (\<lambda>blocked ib2.
           if blocked then (Inl IOtherBlocked, ib2) else checkOwners env recv req m ib2)
       else checkOwners env recv req m ib1)"

text \<open>A panic in the domain cache (\<open>None\<close>) ends the request.\<close>

definition urisBlocked :: "inbox_env \<Rightarrow> fault \<Rightarrow> string list \<Rightarrow> inbox_state \<Rightarrow> (inbox_error + bool) \<times> inbox_state" where
  "urisBlocked env f us ib =
     (case areURIsBlocked (ieHostname env) (iePunify env) (ieConfig env) f f us (ibDomains ib) of
        None \<Rightarrow> (Inl IDomainDB, ib)
      | Some (db, Inl e) \<Rightarrow> (Inl IDomainDB, ib\<lparr>ibDomains := db\<rparr>)
      | Some (db, Inr b) \<Rightarrow> (Inr b, ib\<lparr>ibDomains := db\<rparr>))"

definition fediBlocked :: "inbox_env \<Rightarrow> fault \<times> fault \<Rightarrow> account \<Rightarrow> account \<Rightarrow> string list \<Rightarrow> string list \<Rightarrow> inbox_state \<Rightarrow>
    (inbox_error + bool) \<times> inbox_state" where
  "fediBlocked env fs recv req actors others ib =
     andThen (urisBlocked env (fst fs) actors ib) (\<lambda>blocked ib1.
       if blocked then (Inr True, ib1)
       else
         andThen (onInbox (isBlocked (acID recv) (acID req)) ib1) (\<lambda>blocked ib2.
           if blocked then (Inr True, ib2)
           else
             andThen (urisBlocked env (snd fs) others ib2) (\<lambda>blocked ib3.
               if blocked then (Inl IOtherBlocked, ib3)
               else
                 (case ownersOf env others [] of
                    Inl e \<Rightarrow> (Inl e, ib3)
                  | Inr m \<Rightarrow> andThen (checkOwners env recv req (ieOrder env m) ib3) (\<lambda>_ ib4. (Inr False, ib4))))))"

subsection \<open>A post to the inbox\<close>

text \<open>
  The actors that \<open>Blocked\<close> is asked about: for an embedded actor the library takes the ID of the
  activity.
\<close>

fun actorIRIs :: "string option \<Rightarrow> as_ref list \<Rightarrow> inbox_error + string list" where
  "actorIRIs aid [] = Inr []"
| "actorIRIs aid (r # rs) =
     (case (case r of RefIRI u \<Rightarrow> Some u | RefThing _ \<Rightarrow> aid | RefUnknown \<Rightarrow> None) of
        None \<Rightarrow> Inl IMalformed
      | Some u \<Rightarrow> (case actorIRIs aid rs of Inl e \<Rightarrow> Inl e | Inr us \<Rightarrow> Inr (u # us)))"

datatype inbox_answer = Accepted202 | Forbidden403 | Failed inbox_error

text \<open>
  The library's own callback for a creation calls \<open>Create\<close> for each object, an IRI dereferenced first.
\<close>

definition createObject :: "inbox_env \<Rightarrow> account option \<Rightarrow> account \<Rightarrow> as_object \<Rightarrow> inbox_state \<Rightarrow> (inbox_error + unit) \<times> inbox_state" where
  "createObject env receiving req x ib =
     (case (case x of ObjThing t \<Rightarrow> Inr t | ObjIRI u \<Rightarrow> ieDeref env u | ObjUnknown \<Rightarrow> Inl IMalformed) of
        Inl e \<Rightarrow> (Inl e, ib)
      | Inr t \<Rightarrow> if atID t = None then (Inl IMalformed, ib) else fediCreate env receiving req t ib)"

fun createObjects :: "inbox_env \<Rightarrow> account option \<Rightarrow> account \<Rightarrow> as_object list \<Rightarrow> inbox_state \<Rightarrow>
    (inbox_error + unit) \<times> inbox_state" where
  "createObjects env receiving req [] ib = (Inr (), ib)"
| "createObjects env receiving req (x # xs) ib =
     andThen (createObject env receiving req x ib) (\<lambda>_ ib1. createObjects env receiving req xs ib1)"

text \<open>Which callback runs; those of the other types touch no relationship, and may fail.\<close>

definition sideEffects :: "inbox_env \<Rightarrow> account option \<Rightarrow> account \<Rightarrow> activity \<Rightarrow> inbox_state \<Rightarrow> (inbox_error + unit) \<times> inbox_state" where
  "sideEffects env receiving req act ib =
     (if avType act = ''Undo'' then fediUndo env receiving req act ib
      else if avType act = ''Accept'' then fediAccept env receiving req act ib
      else if avType act = ''Reject'' then fediReject env receiving req act ib
      else if avType act \<in> {''Create'', ''Follow'', ''Block''} \<and> avObjects act = [] then (Inl IMalformed, ib)
      else if avType act = ''Create'' then createObjects env receiving req (avObjects act) ib
      else if avType act \<in> {''Follow'', ''Block''} then (Inr (), ib)
      else (ieOther env act, ib))"

text \<open>\<open>recv\<close> is the owner of the inbox and \<open>req\<close> the account whose signature was verified.\<close>

definition postInboxScheme :: "inbox_env \<Rightarrow> fault \<times> fault \<Rightarrow> account \<Rightarrow> account \<Rightarrow> activity \<Rightarrow> inbox_state \<Rightarrow>
    inbox_answer \<times> inbox_state" where
  "postInboxScheme env fs recv req act ib =
     (case (case avActor act of None \<Rightarrow> Inl IMalformed | Some rs \<Rightarrow> actorIRIs (avID act) rs) of
        Inl e \<Rightarrow> (Failed e, ib)
      | Inr actors \<Rightarrow>
          (case fediBlocked env fs recv req actors (postInboxRequestBodyHook act) ib of
             (Inl e, ib1) \<Rightarrow> (if e = IOtherBlocked then Accepted202 else Failed e, ib1)
           | (Inr True, ib1) \<Rightarrow> (Forbidden403, ib1)
           | (Inr False, ib1) \<Rightarrow>
               (case sideEffects env (Some recv) req act ib1 of
                  (Inl e, ib2) \<Rightarrow> (Failed e, ib2)
                | (Inr _, ib2) \<Rightarrow> (Accepted202, snd (fediCreate env (Some recv) req (asThing act) ib2)))))"

end
