(* ===== verification/InboxSafety.thy ===== *)
theory InboxSafety
  imports Inbox AccountSafety
begin

text \<open>
  What a post to an inbox can do: which relationships it changes, when it is refused, and what
  the worker makes of a follow or a block that was accepted.
\<close>

subsection \<open>What one activity changes\<close>

text \<open>
  Between two states: of the relationships only those between the receiver and the requester
  may differ, and only in the direction that is the requester's to change. The requester may
  accept or end a request of the receiver, ask to follow it, and block it.
\<close>

definition inboxOnly :: "string \<Rightarrow> string \<Rightarrow> relstate \<Rightarrow> relstate \<Rightarrow> bool" where
  "inboxOnly recv req st st' \<longleftrightarrow>
     (\<forall>a b. (a, b) \<noteq> (recv, req) \<longrightarrow> follows st' a b = follows st a b) \<and>
     (follows st' recv req \<longrightarrow> follows st recv req \<or> requested st recv req) \<and>
     (\<forall>a b. (a, b) \<noteq> (recv, req) \<longrightarrow> (a, b) \<noteq> (req, recv) \<longrightarrow> requested st' a b = requested st a b) \<and>
     (recv \<noteq> req \<longrightarrow> requested st' recv req \<longrightarrow> requested st recv req) \<and>
     (\<forall>a b. (a, b) \<noteq> (req, recv) \<longrightarrow> blocked st' a b = blocked st a b)"

lemma inboxOnly_refl [simp]: "inboxOnly recv req st st"
  by (simp add: inboxOnly_def)

lemma inboxOnly_edges: "sameEdges st st' \<Longrightarrow> inboxOnly recv req st st'"
  by (simp add: inboxOnly_def sameEdges_def)

lemma inboxOnly_then: "inboxOnly recv req s t \<Longrightarrow> sameEdges t u \<Longrightarrow> inboxOnly recv req s u"
  by (simp add: inboxOnly_def sameEdges_def)

lemma sameEdges_then: "sameEdges s t \<Longrightarrow> inboxOnly recv req t u \<Longrightarrow> inboxOnly recv req s u"
  by (simp add: inboxOnly_def sameEdges_def)

text \<open>An acceptance, whatever fails in between.\<close>

lemma accept_rows:
  assumes "acceptFollowRequest acct now src tgt st = (res, st')" and g: "getFollowRequest acct src tgt st = (Inr r, st1)"
    and same: "sameData st st1"
  shows "follows st' = follows st \<or> follows st' = withEdge src tgt (follows st)"
    and "tbRows (rsRequests st') = tbRows (rsRequests st) \<or>
      tbRows (rsRequests st') = filter (\<lambda>x. frID x \<noteq> frID r) (tbRows (rsRequests st))"
proof -
  let ?f = "followOf now src tgt r"
  obtain e fs t where s: "storeRow followIxs ?f (upsertFollow ?f) (rsFaults st1) (rsFollows st1) = (e, fs, t)"
    by (metis prod.exhaust)
  let ?st2 = "hookFollow ?f (st1\<lparr>rsFollows := t, rsFaults := fs\<rparr>)"
  have q: "quiet (st1\<lparr>rsFollows := t, rsFaults := fs\<rparr>) ?st2" by (rule quiet_hooks)
  have rows: "tbRows (rsFollows st1) = tbRows (rsFollows st)" "tbRows (rsRequests st1) = tbRows (rsRequests st)"
    using same by (simp_all add: sameData_def)
  have q2: "tbRows (rsFollows ?st2) = tbRows t" "tbRows (rsRequests ?st2) = tbRows (rsRequests st)"
    using q rows by (simp_all add: quiet_def quietTable_def)
  have acc: "foAccountID ?f = src" "foTargetAccountID ?f = tgt" by (simp_all add: followOf_def)
  have up: "followingIn (tbRows t) = follows st \<or> followingIn (tbRows t) = withEdge src tgt (follows st)"
  proof (cases "e = None")
    case False
    then show ?thesis using s rows by (auto simp: storeRow_def split: prod.splits sum.splits)
  next
    case True
    then have t: "(Inr (tbRows t), fs) = upsertFollow ?f (tbRows (rsFollows st)) (rsFaults st1)"
      using s rows by (auto simp: storeRow_def split: prod.splits sum.splits)
    show ?thesis
    proof (cases "follows st src tgt")
      case True
      then have "tbRows t = map (\<lambda>x. if foAccountID x = src \<and> foTargetAccountID x = tgt then x\<lparr>foURI := foURI ?f\<rparr> else x) (tbRows (rsFollows st))"
        using t acc by (auto simp: upsertFollow_def followingIn_def list_ex_iff split: option.splits prod.splits if_splits)
      moreover have "list_ex P (map g xs) = list_ex P xs" if "\<And>x. P (g x) = P x" for P and g :: "follow \<Rightarrow> follow" and xs
        using that by (induction xs) auto
      ultimately have "followingIn (tbRows t) = follows st"
        by (simp add: followingIn_def fun_eq_iff)
      then show ?thesis ..
    next
      case False
      then have "tbRows t = tbRows (rsFollows st) @ [?f]"
        using t acc by (auto simp: upsertFollow_def followingIn_def list_ex_iff insertRow_def split: option.splits prod.splits if_splits)
      then have "followingIn (tbRows t) = withEdge src tgt (follows st)"
        using acc by (auto simp: followingIn_def withEdge_def fun_eq_iff)
      then show ?thesis ..
    qed
  qed
  obtain e3 fs3 t3 where x: "execDelete (\<lambda>x. frID x = frID r) (rsFaults ?st2) (rsRequests ?st2) = (e3, fs3, t3)"
    by (metis prod.exhaust)
  note del = execDelete_cases(2) [OF x]
  have dn: "deleteNotifications ts b a s = (e4, s4) \<Longrightarrow> rsFollows s4 = rsFollows s \<and> rsRequests s4 = rsRequests s" for ts b a s e4 s4
    by (auto simp: deleteNotifications_def split: if_splits prod.splits option.splits)
  have "(rsFollows st' = rsFollows ?st2) \<and> (rsRequests st' = rsRequests ?st2 \<or> rsRequests st' = t3)"
    using assms(1) g s x dn by (auto simp: acceptFollowRequest_def Let_def split: option.splits prod.splits)
  then show "follows st' = follows st \<or> follows st' = withEdge src tgt (follows st)"
    and "tbRows (rsRequests st') = tbRows (rsRequests st) \<or>
      tbRows (rsRequests st') = filter (\<lambda>x. frID x \<noteq> frID r) (tbRows (rsRequests st))"
    using up q2 del by (auto split: if_splits)
qed

lemma read_getFollowRequest:
  assumes "relInv cfg R base st" and "getFollowRequest acct a b st = (res, st')"
  shows "relInv cfg R base st'" and "sameData st st'"
    and "res = Inr r \<Longrightarrow> r \<in> set (tbRows (rsRequests st)) \<and> frAccountID r = a \<and> frTargetAccountID r = b"
proof -
  obtain x st1 where l: "getFollowRequest' a b st = (x, st1)" by fastforce
  from readOK_loadRequest [OF assms(1) index_mem(6) index_names(9), of "[a, b]"] l
  have ok: "relInv cfg R base st1" "sameData st st1" "Structr.answers x (rowsLookup requestPair [a, b] (tbRows (rsRequests st)))"
    by (simp_all add: readOK_def getFollowRequest'_load)
  have "st' = st1" "res = Inr r \<longrightarrow> x = Inr r"
    using assms(2) l by (cases x; auto simp: getFollowRequest_def populated_def split: option.splits)+
  moreover have "r \<in> set (tbRows (rsRequests st)) \<and> frAccountID r = a \<and> frTargetAccountID r = b" if "x = Inr r"
  proof -
    have "rowsLookup requestPair [a, b] (tbRows (rsRequests st)) = Inr r" using ok(3) that by (auto simp: Structr.answers_def)
    from rowsLookup_Inr [OF this] show ?thesis by simp
  qed
  ultimately show "relInv cfg R base st'" and "sameData st st'"
    and "res = Inr r \<Longrightarrow> r \<in> set (tbRows (rsRequests st)) \<and> frAccountID r = a \<and> frTargetAccountID r = b"
    using ok by auto
qed

lemma accept_only:
  assumes inv: "relInv cfg R base st" and g: "\<not> (follows st src tgt \<and> requested st src tgt)"
    and a: "acceptFollowRequest acct now src tgt st = (res, st')"
  shows "relInv cfg R base st'" and "inboxOnly src tgt st st'" and "res = Inr f \<Longrightarrow> \<not> requested st' src tgt"
proof -
  obtain x st1 where x: "getFollowRequest acct src tgt st = (x, st1)" by fastforce
  note get = read_getFollowRequest [OF inv x]
  have "relInv cfg R base st' \<and> inboxOnly src tgt st st' \<and> (res = Inr f \<longrightarrow> \<not> requested st' src tgt)"
  proof (cases x)
    case (Inl e)
    then have "st' = st1" "res = Inl e" using a x by (auto simp: acceptFollowRequest_def)
    then show ?thesis using get(1) inboxOnly_edges [OF sameData_edges [OF get(2)]] by simp
  next
    case (Inr r)
    from get(3) [OF Inr] have r: "r \<in> set (tbRows (rsRequests st))" "frAccountID r = src" "frTargetAccountID r = tgt" by simp_all
    then have req: "requested st src tgt" by (auto simp: requestedIn_def list_ex_iff)
    then have nf: "\<not> follows st src tgt" using g by simp
    note ok = acceptFollowRequest_ok [OF inv nf a]
    note rows = accept_rows [OF a x [unfolded Inr] get(2)]
    have tab: "tableOK requestIxs (tbRows (rsRequests st))" using inv by (simp add: relInv_def tblOK_def)
    have same: "frID w = frID r \<longleftrightarrow> frAccountID w = src \<and> frTargetAccountID w = tgt" if w: "w \<in> set (tbRows (rsRequests st))" for w
      using req.tableOK_unique [OF tab index_mem(4) index_names(7) w r(1)]
        req.tableOK_unique [OF tab index_mem(6) index_names(9) w r(1)] r(2,3) by auto
    have "requested st' = requested st \<or> requested st' = withoutEdge src tgt (requested st)"
      using rows(2) same by (auto simp: requestedIn_def list_ex_iff withoutEdge_def fun_eq_iff)
    moreover have "blocked st' = blocked st" using ok(3) by simp
    ultimately have "inboxOnly src tgt st st'"
      using rows(1) req by (auto simp: inboxOnly_def withEdge_def withoutEdge_def)
    moreover have "res = Inr f \<Longrightarrow> \<not> requested st' src tgt" using ok(2) [of f] by (auto simp: requestedIn_def list_ex_iff)
    ultimately show ?thesis using ok(1) by blast
  qed
  then show "relInv cfg R base st'" and "inboxOnly src tgt st st'" and "res = Inr f \<Longrightarrow> \<not> requested st' src tgt" by blast+
qed

subsection \<open>Accept and reject\<close>

text \<open>\<open>ibOnly\<close> bundles what every handler keeps: the invariant, the domains, and the scope.\<close>

definition ibOnly :: "host_config \<Rightarrow> rows \<Rightarrow> vis_db \<Rightarrow> account \<Rightarrow> account \<Rightarrow> inbox_state \<Rightarrow> inbox_state \<Rightarrow> bool" where
  "ibOnly cfg R base recv req ib ib' \<longleftrightarrow>
     relInv cfg R base (ibRel ib') \<and> inboxOnly (acID recv) (acID req) (ibRel ib) (ibRel ib')"

definition acceptable :: "account \<Rightarrow> account \<Rightarrow> inbox_state \<Rightarrow> bool" where
  "acceptable recv req ib \<longleftrightarrow> \<not> (follows (ibRel ib) (acID recv) (acID req) \<and> requested (ibRel ib) (acID recv) (acID req))"

lemma ibOnly_refl: "relInv cfg R base (ibRel ib) \<Longrightarrow> ibOnly cfg R base recv req ib ib"
  by (simp add: ibOnly_def)

lemma acceptRequest_only:
  assumes "relInv cfg R base (ibRel ib)" and "acceptable recv req ib" and "acceptRequest env recv req a b ib = (res, ib')"
  shows "ibOnly cfg R base recv req ib ib'" and "res = Inr u \<Longrightarrow> acceptable recv req ib'"
proof -
  have "ibOnly cfg R base recv req ib ib' \<and> (res = Inr u \<longrightarrow> acceptable recv req ib')"
  proof (cases "a = acID recv \<and> b = acID req")
    case False
    then have "ib' = ib" using assms(3) by (auto simp: acceptRequest_def split: if_splits)
    then show ?thesis using assms(1,2) ibOnly_refl by simp
  next
    case True
    obtain r st where acc: "acceptFollowRequest (ieAccount env) (ieNow env) (acID recv) (acID req) (ibRel ib) = (r, st)" by fastforce
    note ok = accept_only [OF assms(1) assms(2)[unfolded acceptable_def] acc]
    have "ibRel ib' = st" "(\<exists>u. res = Inr u) = (\<exists>f. r = Inr f)"
      using assms(3) True acc by (cases r; auto simp: acceptRequest_def onInbox_def pushFedi_def)+
    then show ?thesis using ok by (auto simp: ibOnly_def acceptable_def)
  qed
  then show "ibOnly cfg R base recv req ib ib'" and "res = Inr u \<Longrightarrow> acceptable recv req ib'" by auto
qed

lemma read_requestByURI:
  assumes "relInv cfg R base (ibRel ib)" and "onInbox (getFollowRequestByURI acct u) ib = (res, ib')"
  shows "relInv cfg R base (ibRel ib')" and "sameEdges (ibRel ib) (ibRel ib')"
proof -
  obtain x st1 where l: "getFollowRequestByURI' u (ibRel ib) = (x, st1)" by fastforce
  have "getFollowRequestByURI' u (ibRel ib) = loadRequest (ixName (uriIndex frURI :: follow_request sindex)) [u]
      (\<lambda>v. ixFields (uriIndex frURI) v = [u]) (ibRel ib)"
    by (simp add: getFollowRequestByURI'_def)
  with readOK_loadRequest [OF assms(1) index_mem(5) index_names(8), of "[u]"] l
  have "relInv cfg R base st1" "sameData (ibRel ib) st1" by (simp_all add: readOK_def)
  moreover have "ibRel ib' = st1"
    using assms(2) l by (cases x; auto simp: onInbox_def getFollowRequestByURI_def populated_def split: option.splits)+
  ultimately show "relInv cfg R base (ibRel ib')" and "sameEdges (ibRel ib) (ibRel ib')"
    using sameData_edges by auto
qed

lemma ibOnly_after:
  "sameEdges (ibRel ib) (ibRel ib1) \<Longrightarrow> ibOnly cfg R base recv req ib1 ib' \<Longrightarrow> ibOnly cfg R base recv req ib ib'"
  unfolding ibOnly_def using sameEdges_then by blast

lemma acceptable_after: "sameEdges (ibRel ib) (ibRel ib1) \<Longrightarrow> acceptable recv req ib \<Longrightarrow> acceptable recv req ib1"
  by (simp add: acceptable_def sameEdges_def)

lemma acceptObject_only:
  assumes "relInv cfg R base (ibRel ib)" and "acceptable recv req ib" and "acceptObject env recv req x ib = (res, ib')"
  shows "ibOnly cfg R base recv req ib ib' \<and> (res = Inr u \<longrightarrow> acceptable recv req ib')"
proof (cases x)
  case (ObjThing t)
  show ?thesis
  proof (cases "atType t = ''Follow'' \<and> (\<exists>p. asParties env t = Inr p)")
    case True
    then obtain uri a b where "asParties env t = Inr (uri, a, b)" by auto
    then have "acceptRequest env recv req a b ib = (res, ib')" using assms(3) ObjThing True by simp
    from acceptRequest_only [OF assms(1,2) this] show ?thesis by blast
  next
    case False
    then have "ib' = ib" using assms(3) ObjThing by (auto split: if_splits sum.splits)
    then show ?thesis using assms(1,2) ibOnly_refl by simp
  qed
next
  case (ObjIRI uri)
  show ?thesis
  proof (cases "isFollowPath (urlPath uri)")
    case False
    then show ?thesis using assms ObjIRI ibOnly_refl by auto
  next
    case True
    obtain y ib1 where g: "onInbox (getFollowRequestByURI (ieAccount env) uri) ib = (y, ib1)" by fastforce
    note read = read_requestByURI [OF assms(1) g]
    show ?thesis
    proof (cases y)
      case (Inl e)
      then have "ib' = ib1" "res = Inl e" using assms(3) ObjIRI True g by simp_all
      then show ?thesis using ibOnly_after [OF read(2) ibOnly_refl [OF read(1)]] by simp
    next
      case (Inr r)
      then have "acceptRequest env recv req (frAccountID r) (frTargetAccountID r) ib1 = (res, ib')"
        using assms(3) ObjIRI True g by simp
      from acceptRequest_only [OF read(1) acceptable_after [OF read(2) assms(2)] this] show ?thesis
        using ibOnly_after [OF read(2)] by blast
    qed
  qed
qed (use assms ibOnly_refl in auto)

text \<open>Steps of the same two parties add up.\<close>

lemma inboxOnly_trans:
  assumes ne: "recv \<noteq> req" and st: "inboxOnly recv req s t" and tu: "inboxOnly recv req t u"
  shows "inboxOnly recv req s u"
  unfolding inboxOnly_def
proof (intro conjI allI impI)
  note a = st[unfolded inboxOnly_def] and b = tu[unfolded inboxOnly_def]
  have other: "requested t recv req \<Longrightarrow> requested s recv req" using a ne by simp
  show "follows u x y = follows s x y" if "(x, y) \<noteq> (recv, req)" for x y using a b that by simp
  show "requested u x y = requested s x y" if "(x, y) \<noteq> (recv, req)" "(x, y) \<noteq> (req, recv)" for x y using a b that by simp
  show "blocked u x y = blocked s x y" if "(x, y) \<noteq> (req, recv)" for x y using a b that by simp
  show "follows s recv req \<or> requested s recv req" if "follows u recv req" using b that a other by metis
  show "requested s recv req" if "requested u recv req" using b that ne other by simp
qed

lemma ibOnly_trans:
  "acID recv \<noteq> acID req \<Longrightarrow> ibOnly cfg R base recv req ib ib1 \<Longrightarrow> ibOnly cfg R base recv req ib1 ib2 \<Longrightarrow>
    ibOnly cfg R base recv req ib ib2"
  unfolding ibOnly_def using inboxOnly_trans by blast

lemma ibOnly_inv: "ibOnly cfg R base recv req ib ib' \<Longrightarrow> relInv cfg R base (ibRel ib')"
  by (simp add: ibOnly_def)

lemma acceptObjects_only:
  assumes "acID recv \<noteq> acID req"
  shows "relInv cfg R base (ibRel ib) \<Longrightarrow> acceptable recv req ib \<Longrightarrow> acceptObjects env recv req xs ib = (res, ib') \<Longrightarrow>
    ibOnly cfg R base recv req ib ib'"
proof (induction xs arbitrary: ib)
  case (Cons x xs)
  obtain r ib1 where x: "acceptObject env recv req x ib = (r, ib1)" by fastforce
  note ok = acceptObject_only [OF Cons.prems(1,2) x]
  show ?case
  proof (cases r)
    case (Inl e)
    then show ?thesis using Cons.prems(3) x ok by auto
  next
    case (Inr u)
    then have "acceptObjects env recv req xs ib1 = (res, ib')" "acceptable recv req ib1"
      using Cons.prems(3) x ok by auto
    moreover have "relInv cfg R base (ibRel ib1)" using ok by (simp add: ibOnly_def)
    ultimately show ?thesis using Cons.IH [of ib1] ok ibOnly_trans [OF assms] by blast
  qed
qed (use ibOnly_refl in auto)

lemma reject_only:
  assumes inv: "relInv cfg R base st" and r: "rejectFollowRequest a b st = (e, st')"
  shows "relInv cfg R base st'" and "inboxOnly a b st st'"
proof -
  show "relInv cfg R base st'" using relInv_rejectFollowRequest [OF inv, of a b] r by simp
  obtain e1 st1 where d: "deleteFollowRequest a b st = (e1, st1)" by fastforce
  note ok = deleteRequestWhere_ok [OF inv index_mem(6) index_names(9) request_pair_id [OF inv] d [unfolded deleteRequest_forms]]
  have req: "requested st1 = requested st \<or> requested st1 = withoutEdge a b (requested st)"
    using ok(2) by (auto simp: requestedIn_def list_ex_iff withoutEdge_def fun_eq_iff)
  have "sameEdges st1 st'"
  proof (cases e1)
    case None
    then have "deleteNotifications [notificationFollowRequest] b a st1 = (e, st')"
      using r d by (simp add: rejectFollowRequest_def)
    from deleteNotifications_ok(2) [OF ok(1) this] show ?thesis by (auto simp: sameEdges_def)
  next
    case (Some x)
    then show ?thesis using r d by (simp add: rejectFollowRequest_def)
  qed
  then show "inboxOnly a b st st'"
    using req ok(3,4) by (auto simp: inboxOnly_def sameEdges_def withoutEdge_def)
qed

lemma rejectRequest_only:
  assumes "relInv cfg R base (ibRel ib)" and "rejectRequest recv req a b ib = (res, ib')"
  shows "ibOnly cfg R base recv req ib ib'"
proof (cases "a = acID recv \<and> b = acID req")
  case False
  then have "ib' = ib" using assms(2) by (auto simp: rejectRequest_def split: if_splits)
  then show ?thesis using assms(1) ibOnly_refl by simp
next
  case True
  obtain e st where r: "rejectFollowRequest (acID recv) (acID req) (ibRel ib) = (e, st)" by fastforce
  have "ibRel ib' = st"
    using assms(2) True r by (cases e) (auto simp: rejectRequest_def execInbox_def onInbox_def)
  then show ?thesis using reject_only [OF assms(1) r] by (simp add: ibOnly_def)
qed

lemma rejectObjects_only:
  assumes "relInv cfg R base (ibRel ib)" and "rejectObjects env recv req xs ib = (res, ib')"
  shows "ibOnly cfg R base recv req ib ib'"
  using assms
proof (induction xs arbitrary: ib)
  case (Cons x xs)
  show ?case
  proof (cases x)
    case (ObjIRI uri)
    show ?thesis
    proof (cases "isFollowPath (urlPath uri)")
      case True
      obtain y ib1 where g: "onInbox (getFollowRequestByURI (ieAccount env) uri) ib = (y, ib1)" by fastforce
      note read = read_requestByURI [OF Cons.prems(1) g]
      show ?thesis
      proof (cases y)
        case (Inl e)
        then have "ib' = ib1" using Cons.prems(2) ObjIRI True g by simp
        then show ?thesis using ibOnly_after [OF read(2) ibOnly_refl [OF read(1)]] by simp
      next
        case (Inr r)
        then have "rejectRequest recv req (frAccountID r) (frTargetAccountID r) ib1 = (res, ib')"
          using Cons.prems(2) ObjIRI True g by simp
        from rejectRequest_only [OF read(1) this] show ?thesis using ibOnly_after [OF read(2)] by blast
      qed
    next
      case False
      then show ?thesis using Cons ObjIRI by simp
    qed
  next
    case (ObjThing t)
    show ?thesis
    proof (cases "atType t = ''Follow'' \<and> (\<exists>p. asParties env t = Inr p)")
      case True
      then obtain uri a b where "asParties env t = Inr (uri, a, b)" by auto
      then have "rejectRequest recv req a b ib = (res, ib')" using Cons.prems(2) ObjThing True by simp
      from rejectRequest_only [OF Cons.prems(1) this] show ?thesis .
    next
      case False
      then have "ib' = ib" using Cons.prems(2) ObjThing by (auto split: if_splits sum.splits)
      then show ?thesis using Cons.prems(1) ibOnly_refl by simp
    qed
  qed (use Cons in simp)
qed (use ibOnly_refl in auto)

subsection \<open>Follows, blocks, and the check of blocks\<close>

lemma activityFollow_only:
  assumes "relInv cfg R base (ibRel ib)" and "activityFollow env recv req t ib = (res, ib')"
  shows "ibOnly cfg R base recv req ib ib'"
proof (cases "asFollowToFollowRequest env t")
  case (Inl e)
  then show ?thesis using assms ibOnly_refl by (simp add: activityFollow_def)
next
  case (Inr fr)
  show ?thesis
  proof (cases "frAccountID fr = acID req \<and> frTargetAccountID fr = acID recv")
    case False
    then have "ib' = ib" using assms(2) Inr by (auto simp: activityFollow_def split: if_splits)
    then show ?thesis using assms(1) ibOnly_refl by simp
  next
    case True
    obtain e st where p: "putFollowRequest fr (ibRel ib) = (e, st)" by fastforce
    note ok = putFollowRequest_ok [OF assms(1) p]
    have "ibRel ib' = st"
      using assms(2) True Inr p by (cases e) (auto simp: activityFollow_def execInbox_def onInbox_def pushFedi_def)
    moreover have "requested st a b = (requested (ibRel ib) a b \<or> e = None \<and> (a, b) = (acID req, acID recv))" for a b
      using ok(2) True by (auto simp: requestedIn_def)
    ultimately show ?thesis
      using ok(1,3,4) by (auto simp: ibOnly_def inboxOnly_def)
  qed
qed

lemma activityBlock_only:
  assumes "relInv cfg R base (ibRel ib)" and "activityBlock env recv req t ib = (res, ib')"
  shows "ibOnly cfg R base recv req ib ib'"
proof (cases "asBlockToBlock env t")
  case (Inl e)
  then show ?thesis using assms ibOnly_refl by (simp add: activityBlock_def)
next
  case (Inr b)
  show ?thesis
  proof (cases "blAccountID b = acID req \<and> blTargetAccountID b = acID recv")
    case False
    then have "ib' = ib" using assms(2) Inr by (auto simp: activityBlock_def split: if_splits)
    then show ?thesis using assms(1) ibOnly_refl by simp
  next
    case True
    obtain e st where p: "putBlock b (ibRel ib) = (e, st)" by fastforce
    note ok = putBlock_ok [OF assms(1) p]
    have "ibRel ib' = st"
      using assms(2) True Inr p by (cases e) (auto simp: activityBlock_def execInbox_def onInbox_def pushFedi_def)
    moreover have "blocked st x y = (blocked (ibRel ib) x y \<or> e = None \<and> (x, y) = (acID req, acID recv))" for x y
      using ok(2) True by (auto simp: blockedIn_def)
    ultimately show ?thesis
      using ok(1,3,4) by (auto simp: ibOnly_def inboxOnly_def)
  qed
qed

lemma fediCreate_only:
  assumes "relInv cfg R base (ibRel ib)"
  shows "ibOnly cfg R base recv req ib (snd (fediCreate env (Some recv) req t ib))"
  using ibOnly_refl [OF assms] activityBlock_only [OF assms prod.collapse [symmetric]]
    activityFollow_only [OF assms prod.collapse [symmetric]]
  by (simp add: fediCreate_def)

text \<open>What only reads: the rest of the state stays.\<close>

definition ibRead :: "host_config \<Rightarrow> rows \<Rightarrow> vis_db \<Rightarrow> inbox_state \<Rightarrow> inbox_state \<Rightarrow> bool" where
  "ibRead cfg R base ib ib' \<longleftrightarrow>
     relInv cfg R base (ibRel ib') \<and> sameData (ibRel ib) (ibRel ib') \<and> ibQueue ib' = ibQueue ib \<and> ibEffects ib' = ibEffects ib \<and>
     (rsFaults (ibRel ib) = [] \<longrightarrow> rsFaults (ibRel ib') = [])"

lemma ibRead_trans: "ibRead cfg R base s t \<Longrightarrow> ibRead cfg R base t u \<Longrightarrow> ibRead cfg R base s u"
  by (simp add: ibRead_def sameData_def)

lemma urisBlocked_read: "relInv cfg R base (ibRel ib) \<Longrightarrow> urisBlocked env f us ib = (r, ib') \<Longrightarrow> ibRead cfg R base ib ib'"
  by (auto simp: urisBlocked_def ibRead_def split: option.splits prod.splits sum.splits)

lemma isBlocked_read:
  assumes "relInv cfg R base (ibRel ib)" and "onInbox (isBlocked a b) ib = (r, ib')"
  shows "ibRead cfg R base ib ib'" and "r = Inr x \<Longrightarrow> x = blocked (ibRel ib) a b"
    and "rsFaults (ibRel ib) = [] \<Longrightarrow> r = Inr (blocked (ibRel ib) a b)"
proof -
  obtain y st where b: "isBlocked a b (ibRel ib) = (y, st)" by fastforce
  from readOK_isBlocked [OF assms(1), of a b] b
  have ok: "relInv cfg R base st" "sameData (ibRel ib) st" "Structr.answers y (Inr (blocked (ibRel ib) a b))"
    "rsFaults (ibRel ib) = [] \<longrightarrow> y = Inr (blocked (ibRel ib) a b) \<and> rsFaults st = []"
    by (simp_all add: readOK_def)
  have "ibRel ib' = st" "ibQueue ib' = ibQueue ib" "ibEffects ib' = ibEffects ib" and y: "r = (case y of Inl e \<Rightarrow> Inl (IDB e) | Inr v \<Rightarrow> Inr v)"
    using assms(2) b by (auto simp: onInbox_def split: sum.splits)
  then show "ibRead cfg R base ib ib'" using ok by (simp add: ibRead_def)
  show "r = Inr x \<Longrightarrow> x = blocked (ibRel ib) a b" using y ok(3) by (auto simp: Structr.answers_def split: sum.splits)
  show "rsFaults (ibRel ib) = [] \<Longrightarrow> r = Inr (blocked (ibRel ib) a b)" using y ok(4) by simp
qed

lemma checkOwners_read:
  "relInv cfg R base (ibRel ib) \<Longrightarrow> checkOwners env recv req m ib = (r, ib') \<Longrightarrow> ibRead cfg R base ib ib'"
proof (induction m arbitrary: ib)
  case Nil
  then show ?case by (simp add: ibRead_def)
next
  case (Cons x m)
  obtain a host where x: "x = (a, host)" by fastforce
  obtain r1 ib1 where 1: "onInbox (isBlocked (acID recv) a) ib = (r1, ib1)" by fastforce
  note read1 = isBlocked_read(1) [OF Cons.prems(1) 1]
  then have inv1: "relInv cfg R base (ibRel ib1)" by (simp add: ibRead_def)
  obtain r2 ib2 where 2: "onInbox (isBlocked a (acID req)) ib1 = (r2, ib2)" by fastforce
  note read2 = isBlocked_read(1) [OF inv1 2]
  then have inv2: "relInv cfg R base (ibRel ib2)" by (simp add: ibRead_def)
  from Cons.prems(2) consider "ib' = ib1" | "ib' = ib2" | "checkOwners env recv req m ib1 = (r, ib')"
    | "checkOwners env recv req m ib2 = (r, ib')"
    using 1 2 x by (cases r1; cases r2) (auto split: if_splits)
  then show ?case
    using read1 ibRead_trans [OF read1 read2] Cons.IH [OF inv1] Cons.IH [OF inv2] ibRead_trans by cases blast+
qed

lemma fediBlocked_read:
  assumes inv: "relInv cfg R base (ibRel ib)" and b: "fediBlocked env fs recv req actors others ib = (r, ib')"
  shows "ibRead cfg R base ib ib'"
proof -
  obtain r1 ib1 where 1: "urisBlocked env (fst fs) actors ib = (r1, ib1)" by fastforce
  note read1 = urisBlocked_read [OF inv 1]
  then have inv1: "relInv cfg R base (ibRel ib1)" by (simp add: ibRead_def)
  obtain r2 ib2 where 2: "onInbox (isBlocked (acID recv) (acID req)) ib1 = (r2, ib2)" by fastforce
  note read2 = ibRead_trans [OF read1 isBlocked_read(1) [OF inv1 2]]
  then have inv2: "relInv cfg R base (ibRel ib2)" by (simp add: ibRead_def)
  obtain r3 ib3 where 3: "urisBlocked env (snd fs) others ib2 = (r3, ib3)" by fastforce
  note read3 = ibRead_trans [OF read2 urisBlocked_read [OF inv2 3]]
  then have inv3: "relInv cfg R base (ibRel ib3)" by (simp add: ibRead_def)
  have read4: "ibRead cfg R base ib ib4" if "checkOwners env recv req m ib3 = (r4, ib4)" for m r4 ib4
    by (rule ibRead_trans [OF read3 checkOwners_read [OF inv3 that]])
  have "ib' \<in> {ib1, ib2, ib3} \<or> (\<exists>m r4. checkOwners env recv req m ib3 = (r4, ib'))"
  proof (cases "r1 = Inr False \<and> r2 = Inr False \<and> r3 = Inr False")
    case True
    then have "(case ownersOf env others [] of Inl e \<Rightarrow> (Inl e, ib3)
        | Inr m \<Rightarrow> andThen (checkOwners env recv req (ieOrder env m) ib3) (\<lambda>_ ib4. (Inr False, ib4))) = (r, ib')"
      using b 1 2 3 by (simp add: fediBlocked_def)
    then show ?thesis by (auto simp: andThen_def split: sum.splits prod.splits)
  next
    case False
    then show ?thesis using b 1 2 3 by (cases r1; cases r2; cases r3) (auto simp: fediBlocked_def split: if_splits)
  qed
  then show ?thesis using read1 read2 read3 read4 by blast
qed

end
