(* ===== verification/InboxProps.thy ===== *)
theory InboxProps
  imports InboxSafety
begin

text \<open>
  The properties of the inbox: the scope of a post, its refusal on account of blocks, the rows
  that an undo removes, and what the worker makes of a follow or a block that was accepted.
\<close>

subsection \<open>A post that is let through\<close>

lemma ibRead_same: "ibRead cfg R base ib ib' \<Longrightarrow> sameEdges (ibRel ib) (ibRel ib')"
  by (simp add: ibRead_def sameData_edges)

lemma ibRead_inv: "ibRead cfg R base ib ib' \<Longrightarrow> relInv cfg R base (ibRel ib')"
  by (simp add: ibRead_def)

lemma createObjects_only:
  assumes "acID recv \<noteq> acID req"
  shows "relInv cfg R base (ibRel ib) \<Longrightarrow> createObjects env (Some recv) req xs ib = (res, ib') \<Longrightarrow> ibOnly cfg R base recv req ib ib'"
proof (induction xs arbitrary: ib)
  case (Cons x xs)
  obtain r ib1 where x: "createObject env (Some recv) req x ib = (r, ib1)" by fastforce
  have "ib1 = ib \<or> (\<exists>t. ib1 = snd (fediCreate env (Some recv) req t ib))"
    using x by (auto simp: createObject_def split: sum.splits as_object.splits if_splits) (metis snd_conv)+
  then have only: "ibOnly cfg R base recv req ib ib1"
    using ibOnly_refl [OF Cons.prems(1)] fediCreate_only [OF Cons.prems(1)] by auto
  show ?case
  proof (cases r)
    case (Inl e)
    then show ?thesis using Cons.prems(2) x only by simp
  next
    case (Inr u)
    then have "createObjects env (Some recv) req xs ib1 = (res, ib')" using Cons.prems(2) x by simp
    from ibOnly_trans [OF assms only Cons.IH [OF ibOnly_inv [OF only] this]] show ?thesis .
  qed
qed (use ibOnly_refl in auto)

lemma sideEffects_only:
  assumes "acID recv \<noteq> acID req" and "relInv cfg R base (ibRel ib)" and "acceptable recv req ib"
    and "avType act \<noteq> ''Undo''" and "sideEffects env (Some recv) req act ib = (res, ib')"
  shows "ibOnly cfg R base recv req ib ib'"
  using assms ibOnly_refl [OF assms(2), of recv req] acceptObjects_only [OF assms(1-3), of env "avObjects act" res ib']
    rejectObjects_only [OF assms(2), of env recv req "avObjects act" res ib']
    createObjects_only [OF assms(1,2), of env "avObjects act" res ib']
  by (simp add: sideEffects_def fediAccept_def fediReject_def split: if_splits)

lemma postInboxScheme_only:
  assumes ne: "acID recv \<noteq> acID req" and inv: "relInv cfg R base (ibRel ib)" and g: "acceptable recv req ib"
    and ty: "avType act \<noteq> ''Undo''" and p: "postInboxScheme env fs recv req act ib = (ans, ib')"
  shows "ibOnly cfg R base recv req ib ib'"
proof (cases "case avActor act of None \<Rightarrow> Inl IMalformed | Some rs \<Rightarrow> actorIRIs (avID act) rs")
  case (Inl e)
  then show ?thesis using p ibOnly_refl [OF inv] by (simp add: postInboxScheme_def)
next
  case (Inr actors)
  obtain r ib1 where b: "fediBlocked env fs recv req actors (postInboxRequestBodyHook act) ib = (r, ib1)" by fastforce
  note read = fediBlocked_read [OF inv b]
  note edges = ibRead_same [OF read] and inv1 = ibRead_inv [OF read]
  show ?thesis
  proof (cases "r = Inr False")
    case False
    then have "ib' = ib1"
      using p Inr b by (auto simp: postInboxScheme_def split: sum.splits bool.splits)
    then show ?thesis using ibOnly_after [OF edges ibOnly_refl [OF inv1]] by simp
  next
    case True
    obtain s ib2 where s: "sideEffects env (Some recv) req act ib1 = (s, ib2)" by fastforce
    note side = sideEffects_only [OF ne inv1 acceptable_after [OF edges g] ty s]
    have "ib' = (case s of Inl _ \<Rightarrow> ib2 | Inr _ \<Rightarrow> snd (fediCreate env (Some recv) req (asThing act) ib2))"
      using p Inr b True s by (simp add: postInboxScheme_def split: sum.splits)
    then show ?thesis
      using ibOnly_after [OF edges side] ibOnly_after [OF edges ibOnly_trans [OF ne side fediCreate_only [OF ibOnly_inv [OF side]]]]
      by (cases s) simp_all
  qed
qed

text \<open>
  C28. What a remote account can change by posting to an inbox, by any activity but an undo and
  whatever fails in between: nothing between other accounts; of the follows only that of the
  receiver to it, which it can make out of a request of the receiver and not out of nothing; of the
  requests, that it ends the receiver's or makes its own; of the blocks only its own, against the
  receiver.
\<close>

theorem inbox_scope:
  assumes "relReach cfg R base acct (ibRel ib)" and "acID recv \<noteq> acID req" and "avType act \<noteq> ''Undo''"
    and "\<not> (follows (ibRel ib) (acID recv) (acID req) \<and> requested (ibRel ib) (acID recv) (acID req))"
    and "postInboxScheme env fs recv req act ib = (ans, ib')"
  shows "inboxOnly (acID recv) (acID req) (ibRel ib) (ibRel ib')"
  using postInboxScheme_only [OF assms(2) relReach_inv [OF assms(1)] _ assms(3,5)] assms(4)
  by (simp add: ibOnly_def acceptable_def)

definition exInbox :: inbox_state where
  "exInbox = \<lparr>ibRel = exState, ibDomains = newDomainDB, ibQueue = [], ibEffects = []\<rparr>"

definition exInEnv :: inbox_env where
  "exInEnv = \<lparr>ieByURI = (\<lambda>u. if take 2 u = ''u/'' then Inr (exAcct [last u]) else Inl LNoEntries), ieStatusAuthor = (\<lambda>_. Inl LNoEntries), ieAccount = exLookup,
     ieMoving = (\<lambda>_. False), ieUndoLike = (\<lambda>_. True), ieDeref = (\<lambda>_. Inl IMalformed), ieOther = (\<lambda>_. Inr ()),
     ieNow = 5, ieULID = ''r9'', ieHost = (\<lambda>u. u), ieHostname = (\<lambda>u. u),
     ieOurHost = ''x.org'', iePunify = (\<lambda>d. Inr d), ieConfig = exCfg, ieOrder = (\<lambda>m. m)\<rparr>"

definition exThing :: "string \<Rightarrow> string \<Rightarrow> string \<Rightarrow> string \<Rightarrow> as_thing" where
  "exThing ty u a b = \<lparr>atType = ty, atID = Some u, atActor = Some [RefIRI a], atObject = Some [RefIRI b],
     atReplyTo = None, atTo = [], atCc = []\<rparr>"

definition exActivity :: "string \<Rightarrow> string \<Rightarrow> string \<Rightarrow> as_object \<Rightarrow> activity" where
  "exActivity ty u a x = \<lparr>avType = ty, avID = Some u, avActor = Some [RefIRI a], avReplyTo = None, avTo = [], avCc = [],
     avObjects = [x]\<rparr>"

text \<open>The account \<open>c\<close> has asked to follow \<open>a\<close>; \<open>a\<close> accepts in the inbox of \<open>c\<close>.\<close>

definition exAccept :: activity where
  "exAccept = exActivity ''Accept'' ''x/a'' ''u/a'' (ObjThing (exThing ''Follow'' ''u2'' ''u/c'' ''u/a''))"

definition exAccepted :: "inbox_answer \<times> inbox_state" where
  "exAccepted = postInboxScheme exInEnv (None, None) (exAcct ''c'') (exAcct ''a'') exAccept exInbox"

theorem inbox_scope_witness:
  "fst exAccepted = Accepted202 \<and> follows (ibRel (snd exAccepted)) ''c'' ''a'' \<and>
   follows (ibRel (snd exAccepted)) ''b'' ''a'' \<and> \<not> requested (ibRel (snd exAccepted)) ''c'' ''a''"
proof -
  have r: "relReach exHost exRows exDB exLookup (ibRel exInbox)" using exState_reach by (simp add: exInbox_def)
  have c: "acID (exAcct ''c'') = ''c''" "acID (exAcct ''a'') = ''a''" by (simp_all add: exAcct_def)
  have n: "\<not> follows (ibRel exInbox) ''c'' ''a''" "follows (ibRel exInbox) ''b'' ''a''" by code_simp+
  have ev: "fst exAccepted = Accepted202" "follows (ibRel (snd exAccepted)) ''c'' ''a''"
    "\<not> requested (ibRel (snd exAccepted)) ''c'' ''a''" by code_simp+
  have ty: "avType exAccept \<noteq> ''Undo''" by (simp add: exAccept_def exActivity_def)
  have "inboxOnly ''c'' ''a'' (ibRel exInbox) (ibRel (snd exAccepted))"
    using inbox_scope [OF r _ ty _ prod.collapse [symmetric], of "exAcct ''c''" "exAcct ''a''" exInEnv "(None, None)"] c n
    by (simp add: exAccepted_def)
  then have "follows (ibRel (snd exAccepted)) ''b'' ''a''" using n(2) by (simp add: inboxOnly_def)
  then show ?thesis using ev by blast
qed

subsection \<open>What an undo removes\<close>

definition undoneBy :: "inbox_env \<Rightarrow> account \<Rightarrow> account \<Rightarrow> activity \<Rightarrow> as_object list \<Rightarrow> string \<Rightarrow> string \<Rightarrow> bool" where
  "undoneBy env recv req act xs ty u \<longleftrightarrow>
     list_ex (\<lambda>x. case x of
        ObjThing t \<Rightarrow> atType t = ty \<and> sameActor (avActor act) (atActor t) \<and> asParties env t = Inr (u, acID req, acID recv)
      | _ \<Rightarrow> False) xs"

text \<open>The rows that are left when those whose URI satisfies a predicate are gone.\<close>

definition undoOnly :: "(string \<Rightarrow> string \<Rightarrow> bool) \<Rightarrow> relstate \<Rightarrow> relstate \<Rightarrow> bool" where
  "undoOnly U st st' \<longleftrightarrow>
     tbRows (rsFollows st') = filter (\<lambda>f. \<not> U ''Follow'' (foURI f)) (tbRows (rsFollows st)) \<and>
     tbRows (rsRequests st') = filter (\<lambda>r. \<not> U ''Follow'' (frURI r)) (tbRows (rsRequests st)) \<and>
     tbRows (rsBlocks st') = filter (\<lambda>b. \<not> U ''Block'' (blURI b)) (tbRows (rsBlocks st))"

lemma undoOnly_none: "undoOnly (\<lambda>_ _. False) st st"
  by (simp add: undoOnly_def)

lemma undoOnly_trans: "undoOnly U s t \<Longrightarrow> undoOnly V t u \<Longrightarrow> undoOnly (\<lambda>ty x. U ty x \<or> V ty x) s u"
  by (simp add: undoOnly_def)

lemma undoneBy_Cons:
  "undoneBy env recv req act (x # xs) ty u \<longleftrightarrow> undoneBy env recv req act [x] ty u \<or> undoneBy env recv req act xs ty u"
  by (simp add: undoneBy_def)

lemma undoneBy_thing:
  "undoneBy env recv req act [ObjThing t] ty u \<longleftrightarrow>
     atType t = ty \<and> sameActor (avActor act) (atActor t) \<and> asParties env t = Inr (u, acID req, acID recv)"
  by (simp add: undoneBy_def)

lemma calm_undoFollowRows:
  assumes "calm cfg R base st" and "deleteFollowByURI u st = (e, st1)" and "deleteFollowRequestByURI u st1 = (e', st')"
  shows "calm cfg R base st'" and "e = None" and "e' = None"
    and "undoOnly (\<lambda>ty x. ty = ''Follow'' \<and> x = u) st st'"
proof -
  have inv: "relInv cfg R base st" and nf: "rsFaults st = []" using assms(1) by (simp_all add: calm_def)
  have fi: "(uriIndex foURI :: follow sindex) \<in> set followIxs" "\<not> ixMultiple (uriIndex foURI :: follow sindex)"
    and ri: "(uriIndex frURI :: follow_request sindex) \<in> set requestIxs" "\<not> ixMultiple (uriIndex frURI :: follow_request sindex)"
    by simp_all
  note f = deleteFollowVia_ok [OF inv fi assms(2) [unfolded deleteFollow_forms]]
  note r = deleteRequestWhere_ok [OF f(1) ri _ assms(3) [unfolded deleteRequest_forms]]
  have P: "frURI x = u \<longleftrightarrow> ixFields (uriIndex frURI) x = [u]" for x by simp
  have nf1: "e = None" "rsFaults st1 = []" using f(6) [OF nf] by simp_all
  have nf2: "e' = None" "rsFaults st' = []" using r(5) [OF _ nf1(2)] P by simp_all
  show "e = None" and "e' = None" and "calm cfg R base st'" using nf1 nf2 r(1) P by (simp_all add: calm_def)
  have "tbRows (rsFollows st1) = filter (\<lambda>x. foURI x \<noteq> u) (tbRows (rsFollows st))" using f(2) nf1 by simp
  moreover have "tbRows (rsRequests st') = filter (\<lambda>x. frURI x \<noteq> u) (tbRows (rsRequests st1))" using r(2) P nf2 by simp
  ultimately show "undoOnly (\<lambda>ty x. ty = ''Follow'' \<and> x = u) st st'"
    using f(4,5) r(3,4) P by (simp add: undoOnly_def)
qed

lemma calm_undoBlockRows:
  assumes "calm cfg R base st" and "deleteBlockByURI u st = (e, st')"
  shows "calm cfg R base st'" and "e = None" and "undoOnly (\<lambda>ty x. ty = ''Block'' \<and> x = u) st st'"
proof -
  have inv: "relInv cfg R base st" and nf: "rsFaults st = []" using assms(1) by (simp_all add: calm_def)
  have i: "(uriIndex blURI :: block sindex) \<in> set blockIxs" "\<not> ixMultiple (uriIndex blURI :: block sindex)" by simp_all
  have P: "blURI x = u \<longleftrightarrow> ixFields (uriIndex blURI) x = [u]" for x by simp
  note ok = deleteBlockWhere_ok [OF inv i P assms(2) [unfolded deleteBlock_forms]]
  show "e = None" and "calm cfg R base st'" using ok(1,5) nf by (simp_all add: calm_def)
  then show "undoOnly (\<lambda>ty x. ty = ''Block'' \<and> x = u) st st'" using ok(2-4) by (simp add: undoOnly_def)
qed

lemma calm_undoObject:
  assumes c: "calm cfg R base st" and u: "undoObject env recv req act x st = (b, st')"
  shows "calm cfg R base st'" and "undoOnly (undoneBy env recv req act [x]) st st'"
proof -
  have none: "calm cfg R base st' \<and> undoOnly (undoneBy env recv req act [x]) st st'"
    if "st' = st" "\<And>ty v. ty = ''Follow'' \<or> ty = ''Block'' \<Longrightarrow> \<not> undoneBy env recv req act [x] ty v"
    using c that by (simp add: undoOnly_def)
  have "calm cfg R base st' \<and> undoOnly (undoneBy env recv req act [x]) st st'"
  proof (cases "\<exists>t. x = ObjThing t \<and> (atType t = ''Follow'' \<or> atType t = ''Block'') \<and> sameActor (avActor act) (atActor t) \<and>
      (\<exists>v. asParties env t = Inr (v, acID req, acID recv))")
    case False
    then show ?thesis
      using u by (intro none) (auto simp: undoObject_def undoFollow_def undoBlock_def undoneBy_def split: as_object.splits if_splits sum.splits)
  next
    case True
    then obtain t v where t: "x = ObjThing t" "atType t = ''Follow'' \<or> atType t = ''Block''" "sameActor (avActor act) (atActor t)"
      "asParties env t = Inr (v, acID req, acID recv)" by blast
    have U: "undoneBy env recv req act [x] = (\<lambda>ty y. ty = atType t \<and> y = v)"
      using t by (auto simp: undoneBy_thing fun_eq_iff)
    from t(2) show ?thesis
    proof
      assume f: "atType t = ''Follow''"
      obtain e st1 where 1: "deleteFollowByURI v st = (e, st1)" by fastforce
      obtain e' st2 where 2: "deleteFollowRequestByURI v st1 = (e', st2)" by fastforce
      note ok = calm_undoFollowRows [OF c 1 2]
      have "st' = st2" using u t f 1 2 ok(2,3) by (simp add: undoObject_def undoFollow_def okExcept_def)
      then show ?thesis using ok U f by simp
    next
      assume f: "atType t = ''Block''"
      obtain e st1 where 1: "deleteBlockByURI v st = (e, st1)" by fastforce
      note ok = calm_undoBlockRows [OF c 1]
      have "st' = st1" using u t f 1 ok(2) by (simp add: undoObject_def undoBlock_def okExcept_def)
      then show ?thesis using ok U f by simp
    qed
  qed
  then show "calm cfg R base st'" and "undoOnly (undoneBy env recv req act [x]) st st'" by blast+
qed

lemma calm_undoObjects:
  "calm cfg R base st \<Longrightarrow> undoObjects env recv req act xs st = (b, st') \<Longrightarrow> undoOnly (undoneBy env recv req act xs) st st'"
proof (induction xs arbitrary: st st' b)
  case Nil
  then show ?case by (simp add: undoneBy_def undoOnly_def)
next
  case (Cons x xs)
  obtain b1 st1 where 1: "undoObject env recv req act x st = (b1, st1)" by fastforce
  obtain b2 st2 where 2: "undoObjects env recv req act xs st1 = (b2, st2)" by fastforce
  have st': "st' = st2" using Cons.prems(2) 1 2 by simp
  note ok = calm_undoObject [OF Cons.prems(1) 1]
  have U: "undoneBy env recv req act (x # xs) = (\<lambda>ty y. undoneBy env recv req act [x] ty y \<or> undoneBy env recv req act xs ty y)"
    by (simp only: fun_eq_iff undoneBy_Cons [of env recv req act x xs] simp_thms)
  show ?case unfolding U st' by (rule undoOnly_trans [OF ok(2) Cons.IH [OF ok(1) 2]])
qed

text \<open>
  C30. What an undo removes: of the follows and requests exactly those whose URI is the ID of one of
  its follows from the requester to the receiver, and of the blocks those whose URI is the ID of such a
  block. That the rows of these URIs are between the two accounts is nowhere asked.
\<close>

theorem fediUndo_effect:
  assumes "relReach cfg R base acct (ibRel ib)" and "rsFaults (ibRel ib) = []"
    and "fediUndo env (Some recv) req act ib = (res, ib')"
  shows "undoOnly (undoneBy env recv req act (avObjects act)) (ibRel ib) (ibRel ib')"
proof -
  obtain b st' where "undoObjects env recv req act (avObjects act) (ibRel ib) = (b, st')" by fastforce
  moreover have "calm cfg R base (ibRel ib)" using relReach_inv [OF assms(1)] assms(2) by (simp add: calm_def)
  ultimately show ?thesis using calm_undoObjects assms(3) by (auto simp: fediUndo_def)
qed

text \<open>The account \<open>b\<close> follows \<open>a\<close>, and sends an undo of that to the inbox of \<open>a\<close>.\<close>

definition exUndo :: activity where
  "exUndo = exActivity ''Undo'' ''x/b'' ''u/b'' (ObjThing (exThing ''Follow'' ''u1'' ''u/b'' ''u/a''))"

theorem fediUndo_effect_witness:
  "tbRows (rsFollows (ibRel exInbox)) = [exFollowRow] \<and>
   tbRows (rsFollows (ibRel (snd (fediUndo exInEnv (Some (exAcct ''a'')) (exAcct ''b'') exUndo exInbox)))) = []"
proof -
  have r: "relReach exHost exRows exDB exLookup (ibRel exInbox)" using exState_reach by (simp add: exInbox_def)
  have f: "rsFaults (ibRel exInbox) = []" and row: "tbRows (rsFollows (ibRel exInbox)) = [exFollowRow]" by code_simp+
  have u: "undoneBy exInEnv (exAcct ''a'') (exAcct ''b'') exUndo (avObjects exUndo) ''Follow'' (foURI exFollowRow)" by code_simp
  from fediUndo_effect [OF r f prod.collapse [symmetric], of exInEnv "exAcct ''a''" "exAcct ''b''" exUndo] row u
  show ?thesis by (simp add: undoOnly_def)
qed

text \<open>
  The account \<open>a\<close> blocks \<open>b\<close>. Another account \<open>c\<close> lifts that block, by an undo of a block of its own
  with the URI of the block of \<open>a\<close>, of which the home of \<open>b\<close> was told.
\<close>

definition exBlocked :: inbox_state where
  "exBlocked = exInbox\<lparr>ibRel := snd (putBlock exBlockRow exState)\<rparr>"

definition exLift :: activity where
  "exLift = exActivity ''Undo'' ''x/c'' ''u/c'' (ObjThing (exThing ''Block'' ''u3'' ''u/c'' ''u/a''))"

lemma foreign_undo_lifts_block:
  "blocked (ibRel exBlocked) ''a'' ''b'' \<and>
   (case postInboxScheme exInEnv (None, None) (exAcct ''a'') (exAcct ''c'') exLift exBlocked of
      (ans, ib) \<Rightarrow> ans = Accepted202 \<and> \<not> blocked (ibRel ib) ''a'' ''b'')"
  by code_simp

subsection \<open>A post that is refused\<close>

lemma areURIsBlocked_calm:
  assumes "domainInv db" and "\<forall>u \<in> set us. \<exists>b. blockedSpec punify cfg db (host u) = Inr b"
  shows "\<exists>db'. areURIsBlocked host punify cfg None None us db = Some (db', Inr (\<exists>u \<in> set us. blockedSpec punify cfg db (host u) = Inr True))"
  using assms
proof (induction us arbitrary: db)
  case (Cons u us)
  from isDomainBlocked_no_fault [OF Cons.prems(1)] obtain db1 where
    db: "isDomainBlocked punify cfg None None (host u) db = Some (db1, blockedSpec punify cfg db (host u))"
      "domainInv db1" "domainAllows db1 = domainAllows db" "domainBlocks db1 = domainBlocks db"
    by blast
  have same: "blockedSpec punify cfg db1 = blockedSpec punify cfg db"
    unfolding blockedSpec_def db(3,4) ..
  obtain b where b: "blockedSpec punify cfg db (host u) = Inr b" using Cons.prems(2) by auto
  show ?case
  proof (cases b)
    case True
    then show ?thesis using db(1) b by simp
  next
    case False
    then show ?thesis using Cons.IH [OF db(2)] Cons.prems(2) same db(1) b by simp
  qed
qed simp

lemma urisBlocked_calm:
  assumes "domainInv (ibDomains ib)" and "\<forall>u \<in> set us. \<exists>b. blockedSpec (iePunify env) (ieConfig env) (ibDomains ib) (ieHostname env u) = Inr b"
  shows "\<exists>db. urisBlocked env None us ib =
    (Inr (\<exists>u \<in> set us. blockedSpec (iePunify env) (ieConfig env) (ibDomains ib) (ieHostname env u) = Inr True), ib\<lparr>ibDomains := db\<rparr>)"
  using areURIsBlocked_calm [OF assms] by (auto simp: urisBlocked_def)

text \<open>
  C29. A blocked account and a blocked instance are refused: when the receiver blocks the account that
  signed, or the domain permissions block the host of one of the actors, a post to the inbox is
  answered with Forbidden, and neither tables nor queue nor effects change.
\<close>

theorem inbox_blocked:
  assumes "relReach cfg R base acct (ibRel ib)" and "rsFaults (ibRel ib) = []" and "domainInv (ibDomains ib)"
    and "avActor act = Some rs" and "actorIRIs (avID act) rs = Inr actors"
    and "\<forall>u \<in> set actors. \<exists>b. blockedSpec (iePunify env) (ieConfig env) (ibDomains ib) (ieHostname env u) = Inr b"
    and "blocked (ibRel ib) (acID recv) (acID req) \<or>
      (\<exists>u \<in> set actors. blockedSpec (iePunify env) (ieConfig env) (ibDomains ib) (ieHostname env u) = Inr True)"
    and "postInboxScheme env (None, f) recv req act ib = (ans, ib')"
  shows "ans = Forbidden403 \<and> sameData (ibRel ib) (ibRel ib') \<and> ibQueue ib' = ibQueue ib \<and> ibEffects ib' = ibEffects ib"
proof -
  let ?bad = "\<exists>u \<in> set actors. blockedSpec (iePunify env) (ieConfig env) (ibDomains ib) (ieHostname env u) = Inr True"
  have inv: "relInv cfg R base (ibRel ib)" by (rule relReach_inv [OF assms(1)])
  obtain db where u: "urisBlocked env None actors ib = (Inr ?bad, ib\<lparr>ibDomains := db\<rparr>)"
    using urisBlocked_calm [OF assms(3,6)] by blast
  obtain r ib1 where b: "fediBlocked env (None, f) recv req actors (postInboxRequestBodyHook act) ib = (r, ib1)" by fastforce
  have read: "ibRead cfg R base ib ib1" by (rule fediBlocked_read [OF inv b])
  have "r = Inr True"
  proof (cases ?bad)
    case True
    then show ?thesis using b u by (simp add: fediBlocked_def)
  next
    case False
    let ?ib = "ib\<lparr>ibDomains := db\<rparr>"
    obtain y ib2 where 2: "onInbox (isBlocked (acID recv) (acID req)) ?ib = (y, ib2)" by fastforce
    have "y = Inr True" using isBlocked_read(3) [OF _ 2, of cfg R base] inv assms(2,7) False by simp
    then show ?thesis using b u False 2 by (simp add: fediBlocked_def)
  qed
  then have "ans = Forbidden403" "ib' = ib1" using assms(4,5,8) b by (simp_all add: postInboxScheme_def)
  then show ?thesis using read by (simp add: ibRead_def)
qed

text \<open>The account \<open>a\<close> blocks \<open>b\<close>, which then asks to follow it.\<close>

definition exAskAgain :: activity where
  "exAskAgain = exActivity ''Follow'' ''x/b'' ''u/b'' (ObjIRI ''u/a'')"

lemma exBlocked_reach: "relReach exHost exRows exDB exLookup (ibRel exBlocked)"
proof -
  have "ibRel exBlocked = relStep exLookup (OpPutBlock exBlockRow) exState" by (simp add: exBlocked_def)
  then show ?thesis using relReach.op [OF exState_reach, of "OpPutBlock exBlockRow"] by (simp add: relGuard_def)
qed

theorem inbox_blocked_witness:
  "fst (postInboxScheme exInEnv (None, None) (exAcct ''a'') (exAcct ''b'') exAskAgain exBlocked) = Forbidden403"
proof -
  have ids: "acID (exAcct ''a'') = ''a''" "acID (exAcct ''b'') = ''b''" by (simp_all add: exAcct_def)
  have a: "avActor exAskAgain = Some [RefIRI ''u/b'']" "actorIRIs (avID exAskAgain) [RefIRI ''u/b''] = Inr [''u/b'']"
    by (simp_all add: exAskAgain_def exActivity_def)
  have d: "domainInv (ibDomains exBlocked)" by (simp add: exBlocked_def exInbox_def domainInv_new)
  have s: "\<forall>u \<in> set [''u/b'']. \<exists>b. blockedSpec (iePunify exInEnv) (ieConfig exInEnv) (ibDomains exBlocked) (ieHostname exInEnv u) = Inr b"
    by (auto simp: blockedSpec_def exInEnv_def exCfg_def federationVerdict_def)
  have f: "rsFaults (ibRel exBlocked) = []" "blocked (ibRel exBlocked) (acID (exAcct ''a'')) (acID (exAcct ''b''))"
    unfolding ids by code_simp+
  from inbox_blocked [OF exBlocked_reach f(1) d a s disjI1 [OF f(2)] prod.collapse [symmetric]]
  show ?thesis by blast
qed

subsection \<open>What the worker makes of a follow and of a block\<close>

lemma execInbox_simps:
  "f (ibRel ib) = (None, st) \<Longrightarrow> execInbox f ib = (Inr (), ib\<lparr>ibRel := st\<rparr>)"
  "f (ibRel ib) = (Some e, st) \<Longrightarrow> execInbox f ib = (Inl (IDB e), ib\<lparr>ibRel := st\<rparr>)"
  by (simp_all add: execInbox_def onInbox_def)

lemma onInbox_simps:
  "f (ibRel ib) = (Inr a, st) \<Longrightarrow> onInbox f ib = (Inr a, ib\<lparr>ibRel := st\<rparr>)"
  "f (ibRel ib) = (Inl e, st) \<Longrightarrow> onInbox f ib = (Inl (IDB e), ib\<lparr>ibRel := st\<rparr>)"
  by (simp_all add: onInbox_def)

lemma effect_simps [simp]:
  "ibRel (effect es ib) = ibRel ib" "ibQueue (effect es ib) = ibQueue ib" "ibEffects (effect es ib) = ibEffects ib @ es"
  by (simp_all add: effect_def)

lemma ignoreErr_rel [simp]: "ibRel (ignoreErr f ib) = snd (f (ibRel ib))"
  by (simp add: ignoreErr_def)

lemma activityFollow_queued:
  assumes "relInv cfg R base (ibRel ib)" and "activityFollow env recv req t ib = (Inr u, ib1)"
  obtains fr st1 where "frAccountID fr = acID req" "frTargetAccountID fr = acID recv"
    "ib1 = pushFedi (fediMsg ''Follow'' ''Create'' (FediRequest fr) recv req) (ib\<lparr>ibRel := st1\<rparr>)"
    "relInv cfg R base st1" "tbRows (rsRequests st1) = tbRows (rsRequests (ibRel ib)) @ [fr]"
    "tbRows (rsFollows st1) = tbRows (rsFollows (ibRel ib))" "rsFaults (ibRel ib) = [] \<longrightarrow> rsFaults st1 = []"
proof -
  obtain fr where fr: "asFollowToFollowRequest env t = Inr fr" "frAccountID fr = acID req" "frTargetAccountID fr = acID recv"
    using assms(2) by (auto simp: activityFollow_def split: sum.splits if_splits)
  obtain e st1 where p: "putFollowRequest fr (ibRel ib) = (e, st1)" by fastforce
  note put = putFollowRequest_ok [OF assms(1) p]
  have e: "e = None"
    using assms(2) fr p by (cases e) (simp_all add: activityFollow_def execInbox_def onInbox_def)
  have "ib1 = pushFedi (fediMsg ''Follow'' ''Create'' (FediRequest fr) recv req) (ib\<lparr>ibRel := st1\<rparr>)"
    using assms(2) fr p e by (simp add: activityFollow_def execInbox_def onInbox_def)
  then show thesis using that [OF fr(2,3)] put e by simp
qed

text \<open>
  A follow from another server, through the inbox and the worker: a locked account is told of
  the request, which stays; for an account that is not locked the request becomes a follow, the
  statistics count it, the accept is sent and the follower is notified, unless the database
  refuses the row, and then the request stays.
\<close>

theorem remoteFollow_effect:
  assumes "relReach cfg R base acct (ibRel ib)" and "rsFaults (ibRel ib) = []"
    and "\<not> follows (ibRel ib) (acID req) (acID recv)"
    and "activityFollow env recv req t ib = (Inr u, ib1)"
    and "ieAccount env (acID req) = Inr x" and "ieAccount env (acID recv) = Inr target"
    and "processFromFediAPI env (last (ibQueue ib1)) ib1 = (res, ib2)"
  shows "if acLocked target
    then requested (ibRel ib2) (acID req) (acID recv) \<and> \<not> follows (ibRel ib2) (acID req) (acID recv) \<and>
      (\<exists>fr. res = Inr () \<and> ibEffects ib2 = ibEffects ib @ [NotifyFollowRequest fr, CountRequest recv])
    else (case res of
      Inr _ \<Rightarrow> follows (ibRel ib2) (acID req) (acID recv) \<and> \<not> requested (ibRel ib2) (acID req) (acID recv) \<and>
        (\<exists>f. foAccountID f = acID req \<and> foTargetAccountID f = acID recv \<and>
          ibEffects ib2 = ibEffects ib @ [CountFollower recv, CountFollowing req, FederateAccept f, NotifyFollow f])
    | Inl _ \<Rightarrow> requested (ibRel ib2) (acID req) (acID recv) \<and> \<not> follows (ibRel ib2) (acID req) (acID recv) \<and>
        ibEffects ib2 = ibEffects ib)"
proof -
  from activityFollow_queued [OF relReach_inv [OF assms(1)] assms(4)] obtain fr st1 where
    fr: "frAccountID fr = acID req" "frTargetAccountID fr = acID recv"
    and ib1: "ib1 = pushFedi (fediMsg ''Follow'' ''Create'' (FediRequest fr) recv req) (ib\<lparr>ibRel := st1\<rparr>)"
    and st1: "relInv cfg R base st1" "tbRows (rsRequests st1) = tbRows (rsRequests (ibRel ib)) @ [fr]"
      "tbRows (rsFollows st1) = tbRows (rsFollows (ibRel ib))" "rsFaults (ibRel ib) = [] \<longrightarrow> rsFaults st1 = []"
    by metis
  have rel1: "ibRel ib1 = st1" "ibEffects ib1 = ibEffects ib" by (simp_all add: ib1 pushFedi_def)
  have req1: "requested st1 (acID req) (acID recv)" and nf1: "\<not> follows st1 (acID req) (acID recv)"
    using st1(2,3) fr assms(3) by (simp_all add: requestedIn_def)
  have pop: "populateFollowRequest (ieAccount env) fr = None"
    using assms(5,6) fr by (simp add: populateFollowRequest_def populateErr_def)
  have w: "createFollowReq env recv req fr ib1 = (res, ib2)"
    using assms(7) by (simp add: ib1 pushFedi_def fediMsg_def processFromFediAPI_def)
  show ?thesis
  proof (cases "acLocked target")
    case True
    then have "res = Inr ()" "ib2 = effect [NotifyFollowRequest fr, CountRequest recv] ib1"
      using w pop assms(6) fr by (simp_all add: createFollowReq_def)
    then show ?thesis using True req1 nf1 rel1 by simp
  next
    case False
    obtain r st2 where a: "acceptFollowRequest (ieAccount env) (ieNow env) (acID req) (acID recv) st1 = (r, st2)" by fastforce
    note acc = acceptFollowRequest_ok [OF st1(1) nf1 a]
    have eq: "(res, ib2) = andThen (onInbox (acceptFollowRequest (ieAccount env) (ieNow env) (acID req) (acID recv)) ib1)
        (\<lambda>f ib1. (Inr (), effect [CountFollower recv, CountFollowing req, FederateAccept f, NotifyFollow f] ib1))"
      using w pop assms(6) fr False by (simp add: createFollowReq_def)
    show ?thesis
    proof (cases r)
      case (Inl e)
      then have "res = Inl (IDB e)" "ibRel ib2 = st2" "ibEffects ib2 = ibEffects ib"
        using eq a rel1 by (simp_all add: onInbox_simps)
      moreover have "follows st2 = follows st1" "requested st2 = requested st1"
        using acc(5) [OF _ Inl] st1(4) assms(2) by simp_all
      ultimately show ?thesis using False req1 nf1 by simp
    next
      case (Inr f)
      then have "res = Inr ()" "ibRel ib2 = st2"
        "ibEffects ib2 = ibEffects ib @ [CountFollower recv, CountFollowing req, FederateAccept f, NotifyFollow f]"
        using eq a rel1 by (simp_all add: onInbox_simps)
      moreover have "foAccountID f = acID req" "foTargetAccountID f = acID recv"
        "follows st2 (acID req) (acID recv)" "\<not> requested st2 (acID req) (acID recv)"
        using acc(2) [OF Inr] by (auto simp: followingIn_def requestedIn_def list_ex_iff)
      ultimately show ?thesis using False by simp
    qed
  qed
qed

text \<open>The account \<open>d\<close> asks to follow \<open>a\<close>, which is not locked.\<close>

definition exFollowing :: "(inbox_error + unit) \<times> inbox_state" where
  "exFollowing = activityFollow exInEnv (exAcct ''a'') (exAcct ''d'') (exThing ''Follow'' ''x/d'' ''u/d'' ''u/a'') exInbox"

theorem remoteFollow_effect_witness:
  "follows (ibRel (snd (processFromFediAPI exInEnv (last (ibQueue (snd exFollowing))) (snd exFollowing)))) ''d'' ''a''"
proof -
  let ?p = "processFromFediAPI exInEnv (last (ibQueue (snd exFollowing))) (snd exFollowing)"
  have ids: "acID (exAcct ''a'') = ''a''" "acID (exAcct ''d'') = ''d''" "\<not> acLocked (exAcct ''a'')" by (simp_all add: exAcct_def)
  have r: "relReach exHost exRows exDB exLookup (ibRel exInbox)" using exState_reach by (simp add: exInbox_def)
  have f: "rsFaults (ibRel exInbox) = []" "\<not> follows (ibRel exInbox) (acID (exAcct ''d'')) (acID (exAcct ''a''))"
    unfolding ids by code_simp+
  have ok: "fst exFollowing = Inr ()" and nerr: "\<not> isl (fst ?p)" by code_simp+
  have a: "activityFollow exInEnv (exAcct ''a'') (exAcct ''d'') (exThing ''Follow'' ''x/d'' ''u/d'' ''u/a'') exInbox =
      (Inr (), snd exFollowing)"
    using ok by (metis exFollowing_def prod.collapse)
  have l: "ieAccount exInEnv (acID (exAcct ''d'')) = Inr (exAcct ''d'')" "ieAccount exInEnv (acID (exAcct ''a'')) = Inr (exAcct ''a'')"
    using ids by (simp_all add: exInEnv_def exLookup_def)
  from remoteFollow_effect [OF r f a l prod.collapse [symmetric]] nerr ids show ?thesis
    by (auto split: sum.splits)
qed

lemma calm_deleteFollow:
  assumes "calm cfg R base st" and "deleteFollow a b st = (e, st')"
  shows "calm cfg R base st'" and "follows st' = withoutEdge a b (follows st)"
    and "requested st' = requested st" and "blocked st' = blocked st"
proof -
  have inv: "relInv cfg R base st" and nf: "rsFaults st = []" using assms(1) by (simp_all add: calm_def)
  have i: "followPair \<in> set followIxs" "\<not> ixMultiple followPair" by simp_all
  note ok = deleteFollowVia_ok [OF inv i assms(2) [unfolded deleteFollow_forms]]
  show "calm cfg R base st'" using ok(1,6) nf by (simp add: calm_def)
  have "tbRows (rsFollows st') = filter (\<lambda>f. \<not> (foAccountID f = a \<and> foTargetAccountID f = b)) (tbRows (rsFollows st))"
    using ok(2,6) nf by simp
  then show "follows st' = withoutEdge a b (follows st)"
    by (auto simp: followingIn_def list_ex_iff withoutEdge_def fun_eq_iff)
  show "requested st' = requested st" and "blocked st' = blocked st" using ok(4,5) by simp_all
qed

lemma calm_deleteRequest:
  assumes "calm cfg R base st" and "deleteFollowRequest a b st = (e, st')"
  shows "calm cfg R base st'" and "requested st' = withoutEdge a b (requested st)"
    and "follows st' = follows st" and "blocked st' = blocked st"
proof -
  have inv: "relInv cfg R base st" and nf: "rsFaults st = []" using assms(1) by (simp_all add: calm_def)
  note ok = deleteRequestWhere_ok [OF inv index_mem(6) index_names(9) request_pair_id [OF inv] assms(2) [unfolded deleteRequest_forms]]
  show "calm cfg R base st'" using ok(1,5) nf by (simp add: calm_def)
  have "tbRows (rsRequests st') = filter (\<lambda>x. \<not> (frAccountID x = a \<and> frTargetAccountID x = b)) (tbRows (rsRequests st))"
    using ok(2,5) nf by simp
  then show "requested st' = withoutEdge a b (requested st)"
    by (auto simp: requestedIn_def list_ex_iff withoutEdge_def fun_eq_iff)
  show "follows st' = follows st" and "blocked st' = blocked st" using ok(3,4) by simp_all
qed

lemma calm_createBlock:
  assumes "calm cfg R base (ibRel ib)"
  shows "follows (ibRel (createBlock b ib)) =
      withoutEdge (blTargetAccountID b) (blAccountID b) (withoutEdge (blAccountID b) (blTargetAccountID b) (follows (ibRel ib)))"
    and "requested (ibRel (createBlock b ib)) =
      withoutEdge (blTargetAccountID b) (blAccountID b) (withoutEdge (blAccountID b) (blTargetAccountID b) (requested (ibRel ib)))"
    and "blocked (ibRel (createBlock b ib)) = blocked (ibRel ib)"
proof -
  let ?x = "blAccountID b" and ?y = "blTargetAccountID b"
  obtain e1 s1 where 1: "deleteFollow ?x ?y (ibRel ib) = (e1, s1)" by fastforce
  note ok1 = calm_deleteFollow [OF assms 1]
  obtain e2 s2 where 2: "deleteFollow ?y ?x s1 = (e2, s2)" by fastforce
  note ok2 = calm_deleteFollow [OF ok1(1) 2]
  obtain e3 s3 where 3: "deleteFollowRequest ?x ?y s2 = (e3, s3)" by fastforce
  note ok3 = calm_deleteRequest [OF ok2(1) 3]
  obtain e4 s4 where 4: "deleteFollowRequest ?y ?x s3 = (e4, s4)" by fastforce
  note ok4 = calm_deleteRequest [OF ok3(1) 4]
  have "ibRel (createBlock b ib) = s4" by (simp add: createBlock_def Let_def 1 2 3 4)
  then show "follows (ibRel (createBlock b ib)) = withoutEdge ?y ?x (withoutEdge ?x ?y (follows (ibRel ib)))"
    and "requested (ibRel (createBlock b ib)) = withoutEdge ?y ?x (withoutEdge ?x ?y (requested (ibRel ib)))"
    and "blocked (ibRel (createBlock b ib)) = blocked (ibRel ib)"
    using ok1(2-4) ok2(2-4) ok3(2-4) ok4(2-4) by simp_all
qed

text \<open>
  C31. A block from another server, through the inbox and the worker, leaves the same as a block of
  an account of this one: the block, and neither follow nor request between the two accounts, with
  everything between others as it was.
\<close>

theorem remoteBlock_severs:
  assumes "relReach cfg R base acct (ibRel ib)" and "rsFaults (ibRel ib) = []"
    and "activityBlock env recv req t ib = (Inr u, ib1)"
    and "processFromFediAPI env (last (ibQueue ib1)) ib1 = (res, ib2)"
  shows "severed (acID req) (acID recv) (ibRel ib) (ibRel ib2)"
proof -
  note inv = relReach_inv [OF assms(1)]
  obtain b where b: "asBlockToBlock env t = Inr b" "blAccountID b = acID req" "blTargetAccountID b = acID recv"
    using assms(3) by (auto simp: activityBlock_def split: sum.splits if_splits)
  obtain e st1 where p: "putBlock b (ibRel ib) = (e, st1)" by fastforce
  note put = putBlock_ok [OF inv p]
  have e: "e = None"
    using assms(3) b p by (cases e) (simp_all add: activityBlock_def execInbox_def onInbox_def)
  have ib1: "ib1 = pushFedi (fediMsg ''Block'' ''Create'' (FediBlock b) recv req) (ib\<lparr>ibRel := st1\<rparr>)"
    using assms(3) b p e by (simp add: activityBlock_def execInbox_def onInbox_def)
  have "calm cfg R base (ibRel ib1)" using put(1,5) assms(2) by (simp add: calm_def ib1 pushFedi_def)
  note cb = calm_createBlock [OF this, of b]
  have "ib2 = createBlock b ib1"
    using assms(4) by (simp add: ib1 pushFedi_def fediMsg_def processFromFediAPI_def)
  moreover have "blocked st1 = withEdge (acID req) (acID recv) (blocked (ibRel ib))"
    using put(2) e b by (auto simp: blockedIn_def withEdge_def fun_eq_iff)
  ultimately show ?thesis
    using cb b put(3,4) by (simp add: severed_def ib1 pushFedi_def)
qed

text \<open>The account \<open>b\<close>, which follows \<open>a\<close>, is blocked by \<open>a\<close>, seen from the home of \<open>b\<close>.\<close>

definition exRemoteBlock :: "(inbox_error + unit) \<times> inbox_state" where
  "exRemoteBlock = activityBlock exInEnv (exAcct ''b'') (exAcct ''a'') (exThing ''Block'' ''x/a'' ''u/a'' ''u/b'') exInbox"

theorem remoteBlock_severs_witness:
  "follows (ibRel exInbox) ''b'' ''a'' \<and>
   \<not> follows (ibRel (snd (processFromFediAPI exInEnv (last (ibQueue (snd exRemoteBlock))) (snd exRemoteBlock)))) ''b'' ''a''"
proof -
  have ids: "acID (exAcct ''a'') = ''a''" "acID (exAcct ''b'') = ''b''" by (simp_all add: exAcct_def)
  have r: "relReach exHost exRows exDB exLookup (ibRel exInbox)" using exState_reach by (simp add: exInbox_def)
  have f: "rsFaults (ibRel exInbox) = []" "follows (ibRel exInbox) ''b'' ''a''" by code_simp+
  have "fst exRemoteBlock = Inr ()" by code_simp
  then have a: "activityBlock exInEnv (exAcct ''b'') (exAcct ''a'') (exThing ''Block'' ''x/a'' ''u/a'' ''u/b'') exInbox =
      (Inr (), snd exRemoteBlock)"
    by (metis exRemoteBlock_def prod.collapse)
  from remoteBlock_severs [OF r f(1) a prod.collapse [symmetric]] ids f(2) show ?thesis
    by (simp add: severed_def withoutEdge_def)
qed

end
