(* ===== verification/Feeds.thy ===== *)
theory Feeds
  imports Tables Uris
begin

text \<open>
  The feeds (\<open>src/internal/rss\<close>): an account is made for each RSS or Atom feed that a webfinger
  query asks for (\<open>feed.go\<close>, \<open>user.go\<close>, \<open>src/internal/api/wellknown/webfinger/webfingerget.go\<close>), and a poll every few
  minutes posts the new items of the feeds of followed accounts as their statuses (\<open>poller.go\<close>,
  \<open>db.go\<close>, \<open>status.go\<close>).

  The network and the libraries are a record of functions: what a server answers, how feeds and
  HTML are parsed and what is found in them, hashes, keys and media. The rest is modelled as it
  is written. Strings are ASCII.
\<close>

subsection \<open>Feeds and documents\<close>

record feed_item =
  fiLink :: string
  fiTitle :: string
  fiDescription :: string
  fiContent :: string
  fiPublished :: "time option"

record feed =
  fdTitle :: string
  fdDescription :: string
  fdLink :: string
  fdImage :: "string option"
  fdItems :: "feed_item list"

text \<open>
  A page with what the queries on it find: the links to Atom and RSS feeds, the description of
  its head, and the relation and target of the links to PNG images.
\<close>

record html_doc =
  hdAtom :: "string option"
  hdRss :: "string option"
  hdDescription :: "string option"
  hdIcons :: "(string \<times> string) list"

record parsed_url =
  puString :: string
  puHostname :: string
  puPath :: string
  puRawQuery :: string

record http_resp =
  hrStatus :: nat
  hrEtag :: string
  hrLastModified :: string
  hrUncompressed :: bool
  hrEncoding :: string
  hrBody :: string
  hrCloseError :: bool

subsection \<open>Rows\<close>

record feed_account =
  raID :: string
  raUsername :: string
  raDomain :: "string option"
  raDisplayName :: string
  raNote :: string
  raBot :: bool
  raLocked :: bool
  raDiscoverable :: bool
  raURL :: string
  raActorType :: string
  raURI :: string
  raAvatarRemoteURL :: string
  raPublicKeyURI :: string
  raInboxURI :: string
  raOutboxURI :: string
  raFollowersURI :: string
  raFollowingURI :: string
  raFeaturedCollectionURI :: string
  raFields :: "(string \<times> string) list"
  raFetchedAt :: time

record attachment =
  atRemoteURL :: string
  atDescription :: string

record feed_status =
  fsID :: string
  fsURI :: string
  fsURL :: string
  fsAttachments :: "attachment list"
  fsCreatedAt :: time
  fsUpdatedAt :: time
  fsAccountID :: string
  fsAccountURI :: string
  fsContent :: string
  fsText :: string
  fsVisibility :: visibility
  fsFederated :: bool
  fsBoostable :: bool
  fsReplyable :: bool
  fsLikeable :: bool
  fsThreadID :: string

record feed_user =
  ruID :: string
  ruAccountID :: string
  ruPassword :: string
  ruEmail :: string
  ruConfirmedAt :: time
  ruApproved :: bool

text \<open>
  The tables, the queue of the client worker, the coming faults of the database, and how many
  ULIDs were made. Of a follow, the two accounts.
\<close>

record feed_state =
  rfAccounts :: "feed_account list"
  rfFollows :: "(string \<times> string) list"
  rfStatuses :: "feed_status list"
  rfThreads :: "string list"
  rfSettings :: "(string \<times> visibility) list"
  rfUsers :: "feed_user list"
  rfQueue :: "(string \<times> feed_status) list"
  rfFaults :: faults
  rfNext :: nat

record to_poll =
  tpAccountID :: string
  tpUsername :: string
  tpURL :: string
  tpLastTweet :: time

record feed_env =
  feConfig :: host_config
  feProtocol :: string
  feParseURL :: "string \<Rightarrow> parsed_url option"
  feFeedAt :: "string \<Rightarrow> feed option"
  feHtmlAt :: "string \<Rightarrow> html_doc option"
  feHash :: "string \<Rightarrow> string"
  feTransport :: "string \<Rightarrow> bool"
  feKeyOK :: bool
  feAvatarOK :: "string \<Rightarrow> bool"
  fePassword :: "string option"
  feNow :: time
  feULID :: "nat \<Rightarrow> string"
  feRespond :: "string \<Rightarrow> string \<Rightarrow> time \<Rightarrow> http_resp option"
  feParseTime :: "string \<Rightarrow> time option"
  feGunzip :: "string \<Rightarrow> string option"
  feInflate :: "string \<Rightarrow> string"
  feParse :: "string \<Rightarrow> feed option"
  feImages :: "string \<Rightarrow> (string \<times> string \<times> string) list option"
  feFetchMedia :: "attachment list \<Rightarrow> attachment list"
  feOrder :: "to_poll list \<Rightarrow> to_poll list"

definition newULID :: "feed_env \<Rightarrow> feed_state \<Rightarrow> string \<times> feed_state" where
  "newULID env st = (feULID env (rfNext st), st\<lparr>rfNext := Suc (rfNext st)\<rparr>)"

definition dbFault :: "feed_state \<Rightarrow> lookup_error option \<times> feed_state" where
  "dbFault st = (case nextFault (rfFaults st) of (e, fs) \<Rightarrow> (e, st\<lparr>rfFaults := fs\<rparr>))"

text \<open>An insertion: refused when a row with one of its unique columns is there.\<close>

definition putRow :: "('v \<Rightarrow> string list) \<Rightarrow> 'v \<Rightarrow> 'v list \<Rightarrow> lookup_error option \<times> 'v list" where
  "putRow keys v rows =
     (if list_ex (\<lambda>w. list_ex (\<lambda>(a, b). a = b \<and> a \<noteq> []) (zip (keys v) (keys w))) rows then (Some LAlreadyExists, rows)
      else (None, rows @ [v]))"

definition putInto :: "('v \<Rightarrow> string list) \<Rightarrow> (feed_state \<Rightarrow> 'v list) \<Rightarrow> ('v list \<Rightarrow> feed_state \<Rightarrow> feed_state) \<Rightarrow> 'v \<Rightarrow> feed_state \<Rightarrow>
    lookup_error option \<times> feed_state" where
  "putInto keys get store v st =
     (case dbFault st of
        (Some e, st1) \<Rightarrow> (Some e, st1)
      | (None, st1) \<Rightarrow> (case putRow keys v (get st1) of (e, rows) \<Rightarrow> (e, store rows st1)))"

definition putAccount :: "feed_account \<Rightarrow> feed_state \<Rightarrow> lookup_error option \<times> feed_state" where
  "putAccount =
     putInto (\<lambda>a. [raID a, raURI a, raURL a, raInboxURI a, raOutboxURI a, raFollowingURI a, raFollowersURI a,
         raFeaturedCollectionURI a, raPublicKeyURI a])
       rfAccounts (\<lambda>rows st. st\<lparr>rfAccounts := rows\<rparr>)"

definition putAccountSettings :: "string \<times> visibility \<Rightarrow> feed_state \<Rightarrow> lookup_error option \<times> feed_state" where
  "putAccountSettings = putInto (\<lambda>s. [fst s]) rfSettings (\<lambda>rows st. st\<lparr>rfSettings := rows\<rparr>)"

definition putUser :: "feed_user \<Rightarrow> feed_state \<Rightarrow> lookup_error option \<times> feed_state" where
  "putUser = putInto (\<lambda>u. [ruID u, ruEmail u, ruAccountID u]) rfUsers (\<lambda>rows st. st\<lparr>rfUsers := rows\<rparr>)"

definition putThread :: "string \<Rightarrow> feed_state \<Rightarrow> lookup_error option \<times> feed_state" where
  "putThread = putInto (\<lambda>i. [i]) rfThreads (\<lambda>rows st. st\<lparr>rfThreads := rows\<rparr>)"

definition putFeedStatus :: "feed_status \<Rightarrow> feed_state \<Rightarrow> lookup_error option \<times> feed_state" where
  "putFeedStatus = putInto (\<lambda>s. [fsID s, fsURI s]) rfStatuses (\<lambda>rows st. st\<lparr>rfStatuses := rows\<rparr>)"

subsection \<open>Replacing the matches of an expression\<close>

text \<open>
  \<open>regexp.ReplaceAllString\<close>, for an expression given by the length of its match at a position:
  the leftmost match is replaced, and the search goes on behind it.
\<close>

fun replaceFrom :: "(nat \<Rightarrow> string \<Rightarrow> nat option) \<Rightarrow> string \<Rightarrow> nat \<Rightarrow> nat \<Rightarrow> string \<Rightarrow> string" where
  "replaceFrom m repl i k [] = []"
| "replaceFrom m repl i (Suc k) (c # s) = replaceFrom m repl (Suc i) k s"
| "replaceFrom m repl i 0 (c # s) =
     (case m i (c # s) of
        Some (Suc n) \<Rightarrow> repl @ replaceFrom m repl (Suc i) n s
      | _ \<Rightarrow> c # replaceFrom m repl (Suc i) 0 s)"

definition replaceAll :: "(nat \<Rightarrow> string \<Rightarrow> nat option) \<Rightarrow> string \<Rightarrow> string \<Rightarrow> string" where
  "replaceAll m repl s = replaceFrom m repl 0 0 s"

text \<open>\<open>baseRg\<close>: only the last alternative is bound to the end.\<close>

definition baseAt :: "nat \<Rightarrow> string \<Rightarrow> nat option" where
  "baseAt i s =
     (let r = takeWhile (\<lambda>c. c \<noteq> CHR ''/'' \<and> c \<noteq> CHR ''.'') (tl s)
      in if s \<noteq> [] \<and> hd s = CHR ''/'' \<and> r \<noteq> [] \<and> prefix ''.xml'' (drop (Suc (length r)) s) then Some (length r + 5)
         else if prefix ''.rss'' s then Some 4
         else if s = ''.atom'' then Some 5
         else None)"

definition cleanHostAt :: "nat \<Rightarrow> string \<Rightarrow> nat option" where
  "cleanHostAt i s = (if i = 0 \<and> prefix ''www.'' s then Some 4 else None)"

definition cleanPathAt :: "nat \<Rightarrow> string \<Rightarrow> nat option" where
  "cleanPathAt i s = (if s \<in> {''/atom.xml'', ''/rss.xml'', ''.xml'', ''.rss'', ''.atom''} then Some (length s) else None)"

definition mastoCharsAt :: "nat \<Rightarrow> string \<Rightarrow> nat option" where
  "mastoCharsAt i s = (if s \<noteq> [] \<and> \<not> userChar (hd s) then Some 1 else None)"

text \<open>
  \<open>hostRg\<close>: the host is part of the expression, where its dots stand for any character, and its
  last character is optional.
\<close>

definition dotMatch :: "string \<Rightarrow> string \<Rightarrow> bool" where
  "dotMatch p s = list_all2 (\<lambda>a b. a = CHR ''.'' \<or> a = b) p s"

definition resourceAt :: "string \<Rightarrow> nat \<Rightarrow> string \<Rightarrow> nat option" where
  "resourceAt host i s =
     (if i = 0 \<and> prefix ''@'' s then Some 1
      else if i = 0 \<and> prefix ''acct:'' s then Some 5
      else if s \<noteq> [] \<and> hd s = CHR ''@'' \<and> (dotMatch host (tl s) \<or> dotMatch (butlast host) (tl s)) then Some (length s)
      else None)"

definition cleanResource :: "string \<Rightarrow> string \<Rightarrow> string" where
  "cleanResource host resource = replaceAll (resourceAt host) [] resource"

subsection \<open>A new feed\<close>

datatype new_error =
    NotAURL | NoDocument | NoFeedLink | InvalidFeed | NoTransport | NoKey | NoAvatar | NoPassword | NoFeed
  | NewDB lookup_error

text \<open>On an error \<open>notExists\<close> answers that there is none.\<close>

definition isUsernameAvailable :: "string \<Rightarrow> feed_state \<Rightarrow> (bool \<times> lookup_error option) \<times> feed_state" where
  "isUsernameAvailable username st =
     (case dbFault st of
        (Some e, st1) \<Rightarrow> ((True, Some e), st1)
      | (None, st1) \<Rightarrow> ((\<not> list_ex (\<lambda>a. raUsername a = username \<and> raDomain a = None) (rfAccounts st1), None), st1))"

text \<open>The base URL, its document, the URL of the feed and the feed.\<close>

definition findFeed :: "feed_env \<Rightarrow> string \<Rightarrow> new_error + (parsed_url \<times> html_doc \<times> parsed_url \<times> feed)" where
  "findFeed env cleaned =
     (case feParseURL env cleaned of
        None \<Rightarrow> Inl NotAURL
      | Some url \<Rightarrow>
          (case feFeedAt env (puString url) of
             None \<Rightarrow>
               (case feHtmlAt env (puString url) of
                  None \<Rightarrow> Inl NoDocument
                | Some doc \<Rightarrow>
                    (case (case hdAtom doc of None \<Rightarrow> hdRss doc | Some href \<Rightarrow> Some href) of
                       None \<Rightarrow> Inl NoFeedLink
                     | Some feedPath \<Rightarrow>
                         (let feedURLStr = ''https://'' @ puHostname url @ feedPath
                          in case feParseURL env feedURLStr of
                               None \<Rightarrow> Inl NotAURL
                             | Some feedURL \<Rightarrow>
                                 (case feFeedAt env feedURLStr of
                                    None \<Rightarrow> Inl InvalidFeed
                                  | Some f \<Rightarrow> Inr (url, doc, feedURL, f)))))
           | Some f \<Rightarrow>
               (case feParseURL env (replaceAll baseAt [] (fdLink f)) of
                  None \<Rightarrow> Inl NotAURL
                | Some baseURL \<Rightarrow>
                    (case feHtmlAt env (puString baseURL) of
                       None \<Rightarrow> Inl NoDocument
                     | Some doc \<Rightarrow> Inr (baseURL, doc, url, f)))))"

definition feedUsername :: "(string \<Rightarrow> string) \<Rightarrow> parsed_url \<Rightarrow> string" where
  "feedUsername hash feedURL =
     (let hostName = replaceAll cleanHostAt [] (puHostname feedURL);
          feedPath = replaceAll cleanPathAt [] (puPath feedURL)
      in if 20 < length feedPath \<or> 0 < length (puRawQuery feedURL)
         then toLower (hostName @ ''.'' @ hash (puPath feedURL @ ''?'' @ puRawQuery feedURL))
         else toLower (hostName @ replaceAll mastoCharsAt ''.'' feedPath))"

record rss_feed =
  rsBaseURL :: parsed_url
  rsDoc :: html_doc
  rsFeedURL :: parsed_url
  rsFeed :: feed
  rsDbUsername :: string

text \<open>The name of an account that is there, or a feed, or an error.\<close>

definition newRssFeed :: "feed_env \<Rightarrow> string \<Rightarrow> feed_state \<Rightarrow>
    (string \<times> rss_feed option \<times> new_error option) \<times> feed_state" where
  "newRssFeed env resource st =
     (let cleaned = cleanResource (cfgHost (feConfig env)) resource;
          asURL = prefix ''http'' cleaned;
          ((available, err), st1) = (if asURL then ((True, None), st) else isUsernameAvailable (toLower cleaned) st)
      in if \<not> available then ((toLower cleaned, None, map_option NewDB err), st1)
         else
           (case findFeed env (if asURL then cleaned else ''https://'' @ cleaned) of
              Inl e \<Rightarrow> (([], None, Some e), st1)
            | Inr (baseURL, doc, feedURL, f) \<Rightarrow>
                (let name = feedUsername (feHash env) feedURL;
                     ((available, err), st2) = isUsernameAvailable name st1
                 in if \<not> available then ((name, None, map_option NewDB err), st2)
                    else (([], Some \<lparr>rsBaseURL = baseURL, rsDoc = doc, rsFeedURL = feedURL, rsFeed = f, rsDbUsername = name\<rparr>, None), st2))))"

definition extractDescription :: "rss_feed \<Rightarrow> string" where
  "extractDescription r =
     (let url = puString (rsFeedURL r);
          description = (if fdDescription (rsFeed r) = [] then (case hdDescription (rsDoc r) of None \<Rightarrow> [] | Some d \<Rightarrow> d)
            else fdDescription (rsFeed r))
      in description @ '' <br> Proxy account for: <a href='' @ [CHR 0x27] @ url @ [CHR 0x27] @ ''>'' @ url @ ''<a>'')"

text \<open>\<open>iconRg\<close> ignores case.\<close>

fun pngIcon :: "string \<Rightarrow> (string \<times> string) list \<Rightarrow> string" where
  "pngIcon hostname [] = []"
| "pngIcon hostname ((rel, href) # icons) =
     (if contains ''icon'' (toLower rel) \<and> 1 < length href then
        (if contains ''http'' href then href else ''https://'' @ hostname @ href)
      else pngIcon hostname icons)"

definition extractIcon :: "host_config \<Rightarrow> rss_feed \<Rightarrow> string" where
  "extractIcon cfg r =
     (case fdImage (rsFeed r) of
        Some url \<Rightarrow> url
      | None \<Rightarrow>
          (let icon = pngIcon (puHostname (rsBaseURL r)) (hdIcons (rsDoc r))
           in if icon = [] then ''http://'' @ cfgHost cfg @ ''/assets/logo.png'' else icon))"

definition feedAccount :: "feed_env \<Rightarrow> string \<Rightarrow> rss_feed \<Rightarrow> feed_account" where
  "feedAccount env accountID r =
     (let uris = generateURIsForAccount (feProtocol env) (feConfig env) (rsDbUsername r)
      in \<lparr>raID = accountID, raUsername = rsDbUsername r, raDomain = None, raDisplayName = fdTitle (rsFeed r),
          raNote = extractDescription r, raBot = True, raLocked = False, raDiscoverable = True,
          raURL = puString (rsFeedURL r), raActorType = ''Person'', raURI = uuUserURI uris,
          raAvatarRemoteURL = extractIcon (feConfig env) r, raPublicKeyURI = uuPublicKeyURI uris,
          raInboxURI = uuInboxURI uris, raOutboxURI = uuOutboxURI uris, raFollowersURI = uuFollowersURI uris,
          raFollowingURI = uuFollowingURI uris, raFeaturedCollectionURI = uuFeaturedCollectionURI uris,
          raFields = [], raFetchedAt = 0\<rparr>)"

definition feedUser :: "feed_env \<Rightarrow> feed_account \<Rightarrow> string \<Rightarrow> feed_user" where
  "feedUser env acct pw =
     \<lparr>ruID = raID acct, ruAccountID = raID acct, ruPassword = pw, ruEmail = raUsername acct @ ''@rss.tooter.com'',
      ruConfirmedAt = feNow env, ruApproved = True\<rparr>"

text \<open>The insertions are no transaction: an error leaves those before it.\<close>

definition createUser :: "feed_env \<Rightarrow> rss_feed \<Rightarrow> feed_state \<Rightarrow> (string \<times> new_error option) \<times> feed_state" where
  "createUser env r st =
     (if \<not> feTransport env [] then (([], Some NoTransport), st)
      else if \<not> feKeyOK env then (([], Some NoKey), st)
      else
        (let (accountID, st1) = newULID env st;
             acct = feedAccount env accountID r
         in if \<not> feAvatarOK env (raAvatarRemoteURL acct) then (([], Some NoAvatar), st1)
            else
              (case putAccountSettings (accountID, VisPublic) st1 of
                 (Some e, st2) \<Rightarrow> (([], Some (NewDB e)), st2)
               | (None, st2) \<Rightarrow>
                   (case putAccount acct st2 of
                      (Some e, st3) \<Rightarrow> (([], Some (NewDB e)), st3)
                    | (None, st3) \<Rightarrow>
                        (case fePassword env of
                           None \<Rightarrow> (([], Some NoPassword), st3)
                         | Some pw \<Rightarrow>
                             (case putUser (feedUser env acct pw) st3 of
                                (e, st4) \<Rightarrow> ((rsDbUsername r, map_option NewDB e), st4)))))))"

definition newUser :: "feed_env \<Rightarrow> string \<Rightarrow> feed_state \<Rightarrow> (string \<times> new_error option) \<times> feed_state" where
  "newUser env resource st =
     (case newRssFeed env resource st of
        ((name, feed, err), st1) \<Rightarrow>
          if name = [] \<and> err = None then
            (case feed of None \<Rightarrow> (([], Some NoFeed), st1) | Some r \<Rightarrow> createUser env r st1)
          else ((name, err), st1))"

subsection \<open>Webfinger\<close>

record webfinger_doc =
  wfSubject :: string
  wfAliases :: "string list"
  wfLinks :: "(string \<times> string) list"

datatype webfinger_answer = WebOK webfinger_doc | WebBadRequest | WebNotAcceptable | WebNotFound

definition webfingerGet :: "host_config \<Rightarrow> string \<Rightarrow> feed_state \<Rightarrow> webfinger_doc option \<times> feed_state" where
  "webfingerGet cfg username st =
     (case dbFault st of
        (Some e, st1) \<Rightarrow> (None, st1)
      | (None, st1) \<Rightarrow>
          (case find (\<lambda>a. raUsername a = toLower username \<and> raDomain a = None) (rfAccounts st1) of
             None \<Rightarrow> (None, st1)
           | Some a \<Rightarrow>
               (Some \<lparr>wfSubject = ''acct:'' @ raUsername a @ ''@'' @ cfgAccountDomain cfg, wfAliases = [raURI a, raURL a],
                  wfLinks = [(''http://webfinger.net/rel/profile-page'', raURL a), (''self'', raURI a)]\<rparr>, st1)))"

definition webfingerGETRequest :: "feed_env \<Rightarrow> bool \<Rightarrow> string option \<Rightarrow> feed_state \<Rightarrow> webfinger_answer \<times> feed_state" where
  "webfingerGETRequest env acceptable query st =
     (if \<not> acceptable then (WebNotAcceptable, st)
      else
        (case query of
           None \<Rightarrow> (WebBadRequest, st)
         | Some resource \<Rightarrow>
             if resource = [] then (WebBadRequest, st)
             else
               (case newUser env resource st of
                  ((_, Some e), st1) \<Rightarrow> (WebBadRequest, st1)
                | ((username, None), st1) \<Rightarrow>
                    (case webfingerGet (feConfig env) username st1 of
                       (None, st2) \<Rightarrow> (WebNotFound, st2) | (Some doc, st2) \<Rightarrow> (WebOK doc, st2)))))"

subsection \<open>Accounts to poll\<close>

text \<open>
  The largest time of creation, or, scanned from \<open>NULL\<close>, the zero time; the rows are the accounts in
  any order.
\<close>

definition lastTweet :: "string \<Rightarrow> feed_status list \<Rightarrow> time" where
  "lastTweet i statuses =
     (case map fsCreatedAt (filter (\<lambda>s. fsAccountID s = i) statuses) of [] \<Rightarrow> 0 | t # ts \<Rightarrow> fold max ts t)"

definition pollable :: "(string \<times> string) list \<Rightarrow> feed_account \<Rightarrow> bool" where
  "pollable follows a \<longleftrightarrow>
     list_ex (\<lambda>(_, target). target = raID a) follows \<and> raActorType a = ''Person'' \<and> raBot a \<and> raDomain a = None"

definition toPollRow :: "feed_state \<Rightarrow> feed_account \<Rightarrow> to_poll" where
  "toPollRow st a =
     \<lparr>tpAccountID = raID a, tpUsername = raUsername a, tpURL = raURL a, tpLastTweet = lastTweet (raID a) (rfStatuses st)\<rparr>"

definition getAccountsToPoll :: "feed_env \<Rightarrow> feed_state \<Rightarrow> to_poll list \<times> lookup_error option \<times> feed_state" where
  "getAccountsToPoll env st =
     (case dbFault st of
        (Some e, st1) \<Rightarrow> ([], Some e, st1)
      | (None, st1) \<Rightarrow> (feOrder env (map (toPollRow st1) (filter (pollable (rfFollows st1)) (rfAccounts st1))), None, st1))"

subsection \<open>Fetching a feed\<close>

datatype fetch_error = FetchFailed | FetchStatus nat | FetchGzip | FetchEncoding string | FetchParse | FetchClose

record http_feed =
  hfFeed :: "feed option"
  hfEtag :: string
  hfLastModified :: time

text \<open>The body as its encoding says, or as it is when the transport has decoded it.\<close>

definition decodeBody :: "feed_env \<Rightarrow> http_resp \<Rightarrow> fetch_error + string" where
  "decodeBody env resp =
     (if hrUncompressed resp then Inr (hrBody resp)
      else if hrEncoding resp = ''gzip'' then
        (case feGunzip env (hrBody resp) of None \<Rightarrow> Inl FetchGzip | Some b \<Rightarrow> Inr b)
      else if hrEncoding resp = ''deflate'' then Inr (feInflate env (hrBody resp))
      else if hrEncoding resp = [] then Inr (hrBody resp)
      else Inl (FetchEncoding (hrEncoding resp)))"

text \<open>The request is conditional always: the pointer to the time is that of a field.\<close>

definition parseURLWithCache :: "feed_env \<Rightarrow> string \<Rightarrow> string \<Rightarrow> time \<Rightarrow> fetch_error + http_feed" where
  "parseURLWithCache env feedURL etag lastModified =
     (case feRespond env feedURL etag lastModified of
        None \<Rightarrow> Inl FetchFailed
      | Some resp \<Rightarrow>
          if hrStatus resp \<notin> {200, 206, 304} then Inl (FetchStatus (hrStatus resp))
          else
            (let modified = (if hrLastModified resp = [] then lastModified
                   else (case feParseTime env (hrLastModified resp) of None \<Rightarrow> lastModified | Some t \<Rightarrow> t));
                 httpFeed = \<lparr>hfFeed = None, hfEtag = hrEtag resp, hfLastModified = modified\<rparr>
             in if hrStatus resp = 304 then Inr httpFeed
                else
                  (case decodeBody env resp of
                     Inl e \<Rightarrow> Inl e
                   | Inr body \<Rightarrow>
                       if hrCloseError resp then Inl FetchClose
                       else
                         (case feParse env body of
                            None \<Rightarrow> Inl FetchParse | Some f \<Rightarrow> Inr (httpFeed\<lparr>hfFeed := Some f\<rparr>)))))"

subsection \<open>A poll\<close>

type_synonym to_create = "feed_account \<times> feed_item"

text \<open>
  The items after the last status. An item without a time is a nil pointer whose method is called:
  \<open>None\<close>, a panic that nothing recovers.
\<close>

fun newItems :: "feed_account \<Rightarrow> time \<Rightarrow> feed_item list \<Rightarrow> to_create list option" where
  "newItems a since [] = Some []"
| "newItems a since (x # xs) =
     (case fiPublished x of
        None \<Rightarrow> None
      | Some t \<Rightarrow> map_option (\<lambda>new. if since < t then (a, x) # new else new) (newItems a since xs))"

definition storedEtag :: "feed_account \<Rightarrow> string" where
  "storedEtag a = (case raFields a of [] \<Rightarrow> [] | (name, v) # _ \<Rightarrow> if name = ''etag'' then v else [])"

text \<open>\<open>UpdateAccount\<close> of the columns \<open>fields\<close> and \<open>fetched_at\<close>.\<close>

definition updateFetched :: "feed_account \<Rightarrow> feed_state \<Rightarrow> lookup_error option \<times> feed_state" where
  "updateFetched a st =
     (case dbFault st of
        (Some e, st1) \<Rightarrow> (Some e, st1)
      | (None, st1) \<Rightarrow>
          (None, st1\<lparr>rfAccounts := map (\<lambda>b. if raID b = raID a then b\<lparr>raFields := raFields a, raFetchedAt := raFetchedAt a\<rparr> else b)
             (rfAccounts st1)\<rparr>))"

definition pollOne :: "feed_env \<Rightarrow> to_poll \<Rightarrow> feed_state \<Rightarrow> (to_create list \<times> feed_state) option" where
  "pollOne env p st =
     (case dbFault st of
        (Some e, st1) \<Rightarrow> Some ([], st1)
      | (None, st1) \<Rightarrow>
          (case find (\<lambda>a. raID a = tpAccountID p) (rfAccounts st1) of
             None \<Rightarrow> Some ([], st1)
           | Some a \<Rightarrow>
               (case parseURLWithCache env (tpURL p) (storedEtag a) (raFetchedAt a) of
                  Inl e \<Rightarrow> Some ([], st1)
                | Inr hf \<Rightarrow>
                    (let a' = a\<lparr>raFetchedAt := hfLastModified hf, raFields := [(''etag'', hfEtag hf)]\<rparr>
                     in case (case hfFeed hf of None \<Rightarrow> Some [] | Some f \<Rightarrow> newItems a' (tpLastTweet p) (fdItems f)) of
                          None \<Rightarrow> None
                        | Some new \<Rightarrow> Some (new, snd (updateFetched a' st1))))))"

fun pollAll :: "feed_env \<Rightarrow> to_poll list \<Rightarrow> feed_state \<Rightarrow> (to_create list \<times> feed_state) option" where
  "pollAll env [] st = Some ([], st)"
| "pollAll env (p # ps) st =
     (case pollOne env p st of
        None \<Rightarrow> None
      | Some (new, st1) \<Rightarrow>
          (case pollAll env ps st1 of None \<Rightarrow> None | Some (rest, st2) \<Rightarrow> Some (new @ rest, st2)))"

definition published :: "to_create \<Rightarrow> time" where
  "published c = the (fiPublished (snd c))"

subsection \<open>A new status\<close>

definition createMediaAttachment :: "feed_env \<Rightarrow> string \<Rightarrow> attachment list" where
  "createMediaAttachment env text =
     (case feImages env text of
        None \<Rightarrow> []
      | Some images \<Rightarrow>
          map (\<lambda>(alt, title, src). \<lparr>atRemoteURL = src, atDescription = (if alt = [] then title else alt)\<rparr>) images)"

definition feedStatus :: "feed_env \<Rightarrow> to_create \<Rightarrow> string \<Rightarrow> string \<Rightarrow> feed_status" where
  "feedStatus env c statusID threadID =
     (let (a, x) = c;
          text = (if fiDescription x = [] then fiContent x else fiDescription x)
      in \<lparr>fsID = statusID,
          fsURI = uuStatusesURI (generateURIsForAccount (feProtocol env) (feConfig env) (raUsername a)) @ ''/'' @ statusID,
          fsURL = fiLink x, fsAttachments = feFetchMedia env (createMediaAttachment env text), fsCreatedAt = published c,
          fsUpdatedAt = feNow env, fsAccountID = raID a, fsAccountURI = raURI a,
          fsContent = ''<p><a href='' @ [CHR 0x22] @ fiLink x @ [CHR 0x22] @ ''>'' @ fiTitle x @ ''</a></p><p>'' @ text @ ''</p>'',
          fsText = fiDescription x, fsVisibility = VisPublic, fsFederated = True, fsBoostable = True, fsReplyable = False,
          fsLikeable = True, fsThreadID = threadID\<rparr>)"

definition putStatus :: "feed_env \<Rightarrow> to_create \<Rightarrow> feed_state \<Rightarrow> new_error option \<times> feed_state" where
  "putStatus env c st =
     (if \<not> feTransport env (raUsername (fst c)) then (Some NoTransport, st)
      else
        (let (statusID, st1) = newULID env st; (threadID, st2) = newULID env st1
         in case putThread threadID st2 of
              (Some e, st3) \<Rightarrow> (Some (NewDB e), st3)
            | (None, st3) \<Rightarrow>
                (let s = feedStatus env c statusID threadID
                 in case putFeedStatus s st3 of
                      (Some e, st4) \<Rightarrow> (Some (NewDB e), st4)
                    | (None, st4) \<Rightarrow> (None, st4\<lparr>rfQueue := rfQueue st4 @ [(raID (fst c), s)]\<rparr>))))"

text \<open>Errors are logged; those of an account or a status do not stop the others.\<close>

fun putAll :: "feed_env \<Rightarrow> to_create list \<Rightarrow> feed_state \<Rightarrow> feed_state" where
  "putAll env [] st = st"
| "putAll env (c # cs) st = putAll env cs (snd (putStatus env c st))"

definition refreshTick :: "feed_env \<Rightarrow> feed_state \<Rightarrow> feed_state option" where
  "refreshTick env st =
     (case getAccountsToPoll env st of
        (toPoll, _, st1) \<Rightarrow>
          (case pollAll env toPoll st1 of
             None \<Rightarrow> None
           | Some (toCreate, st2) \<Rightarrow> Some (putAll env (sort_key published toCreate) st2)))"

text \<open>
  \<open>Start\<close>: what it refuses to start without, naming the flag, and the goroutine it starts, whose
  ticker panics on a period that is not positive.
\<close>

datatype start_outcome = Refuses string | Panics | Polls

definition startTooter :: "string \<Rightarrow> int \<Rightarrow> start_outcome" where
  "startTooter userPassword pollFrequency =
     (if userPassword = [] then Refuses ''napp-user-password''
      else if pollFrequency = 0 then Refuses ''napp-poll-frequency''
      else if pollFrequency < 0 then Panics
      else Polls)"

end
