(* ===== verification/FeedSafety.thy ===== *)
theory FeedSafety
  imports Feeds
begin

text \<open>
  What polls and webfinger queries do: whose statuses a poll posts, which, and in what order;
  when it panics; that a query for a feed makes one account, which its name leads back to.
\<close>

subsection \<open>Single writes\<close>

lemma dbFault_rows:
  "dbFault st = (e, st') \<Longrightarrow> st' = st\<lparr>rfFaults := snd (nextFault (rfFaults st))\<rparr>"
  by (auto simp: dbFault_def split: prod.splits)

lemma dbFault_calm: "rfFaults st = [] \<Longrightarrow> dbFault st = (None, st)"
  by (simp add: dbFault_def nextFault_def)

text \<open>Beside the rows that are written only faults and the count of IDs change.\<close>

definition sameBut :: "feed_state \<Rightarrow> feed_state \<Rightarrow> bool" where
  "sameBut st st' \<longleftrightarrow>
     rfAccounts st' = rfAccounts st \<and> rfFollows st' = rfFollows st \<and> rfSettings st' = rfSettings st \<and> rfUsers st' = rfUsers st"

lemma putRow_cases: "putRow keys v rows = (e, rows') \<Longrightarrow> e = None \<and> rows' = rows @ [v] \<or> e = Some LAlreadyExists \<and> rows' = rows"
  by (auto simp: putRow_def split: if_splits)

lemma putThread_cases:
  assumes "putThread i st = (e, st')"
  shows "\<exists>ts fs. st' = st\<lparr>rfFaults := fs, rfThreads := ts\<rparr>"
proof -
  obtain e1 st1 where d: "dbFault st = (e1, st1)" by fastforce
  obtain e2 ts where p: "putRow (\<lambda>i. [i]) i (rfThreads st1) = (e2, ts)" by fastforce
  have st1: "st1 = st\<lparr>rfFaults := snd (nextFault (rfFaults st))\<rparr>" by (rule dbFault_rows [OF d])
  have "st' = (case e1 of Some _ \<Rightarrow> st1 | None \<Rightarrow> st1\<lparr>rfThreads := ts\<rparr>)"
    using assms d p by (cases e1) (auto simp: putThread_def putInto_def)
  then have "st' = st\<lparr>rfFaults := rfFaults st1, rfThreads := (if e1 = None then ts else rfThreads st)\<rparr>"
    using st1 by (cases e1) simp_all
  then show ?thesis by blast
qed

lemma putFeedStatus_cases:
  assumes "putFeedStatus s st = (e, st')"
  shows "\<exists>fs. st' = st\<lparr>rfFaults := fs, rfStatuses := rfStatuses st @ (if e = None then [s] else [])\<rparr>"
proof -
  obtain e1 st1 where d: "dbFault st = (e1, st1)" by fastforce
  obtain e2 rows where p: "putRow (\<lambda>s. [fsID s, fsURI s]) s (rfStatuses st1) = (e2, rows)" by fastforce
  have st1: "st1 = st\<lparr>rfFaults := snd (nextFault (rfFaults st))\<rparr>" by (rule dbFault_rows [OF d])
  show ?thesis
  proof (cases e1)
    case None
    then have "e = e2" "st' = st1\<lparr>rfStatuses := rows\<rparr>" using assms d p by (auto simp: putFeedStatus_def putInto_def)
    then show ?thesis using putRow_cases [OF p] st1 by auto
  next
    case (Some x)
    then have "e = Some x" "st' = st1" using assms d by (auto simp: putFeedStatus_def putInto_def)
    then show ?thesis using st1 by auto
  qed
qed

text \<open>A status is put, with its message, or not; then no row but that of a thread is new.\<close>

lemma putStatus_cases:
  assumes "putStatus env c st = (e, st')"
  obtains (no) "e \<noteq> None" "rfStatuses st' = rfStatuses st" "rfQueue st' = rfQueue st" "sameBut st st'"
  | (yes) i t where "e = None" "rfStatuses st' = rfStatuses st @ [feedStatus env c i t]"
      "rfQueue st' = rfQueue st @ [(raID (fst c), feedStatus env c i t)]" "sameBut st st'"
proof (cases "feTransport env (raUsername (fst c))")
  case False
  then have "e = Some NoTransport" "st' = st" using assms by (auto simp: putStatus_def)
  then show ?thesis using no by (simp add: sameBut_def)
next
  case True
  let ?i = "feULID env (rfNext st)" and ?t = "feULID env (Suc (rfNext st))"
  let ?st2 = "st\<lparr>rfNext := Suc (Suc (rfNext st))\<rparr>" and ?s = "feedStatus env c ?i ?t"
  obtain e3 st3 where t: "putThread ?t ?st2 = (e3, st3)" by fastforce
  obtain ts fs where st3: "st3 = ?st2\<lparr>rfFaults := fs, rfThreads := ts\<rparr>" using putThread_cases [OF t] by blast
  obtain e4 st4 where s: "putFeedStatus ?s st3 = (e4, st4)" by fastforce
  obtain fs2 where st4: "st4 = st3\<lparr>rfFaults := fs2, rfStatuses := rfStatuses st3 @ (if e4 = None then [?s] else [])\<rparr>"
    using putFeedStatus_cases [OF s] by blast
  have p: "(e, st') = (case e3 of Some x \<Rightarrow> (Some (NewDB x), st3)
      | None \<Rightarrow> (case e4 of Some x \<Rightarrow> (Some (NewDB x), st4) | None \<Rightarrow> (None, st4\<lparr>rfQueue := rfQueue st4 @ [(raID (fst c), ?s)]\<rparr>)))"
    using assms True t s by (simp add: putStatus_def newULID_def Let_def split: option.splits)
  show ?thesis
  proof (cases e3)
    case (Some x)
    then have "e = Some (NewDB x)" "st' = st3" using p by simp_all
    then show ?thesis using no st3 by (simp add: sameBut_def)
  next
    case None
    show ?thesis
    proof (cases e4)
      case (Some x)
      then have "e = Some (NewDB x)" "st' = st4" using p None by simp_all
      then show ?thesis using no st3 st4 Some by (simp add: sameBut_def)
    next
      case noerr: None
      then have "e = None" "st' = st4\<lparr>rfQueue := rfQueue st4 @ [(raID (fst c), ?s)]\<rparr>" using p None by simp_all
      then show ?thesis using yes [of ?i ?t] st3 st4 noerr by (simp add: sameBut_def)
    qed
  qed
qed

lemma sameBut_refl [simp]: "sameBut st st"
  by (simp add: sameBut_def)

lemma sameBut_trans: "sameBut s t \<Longrightarrow> sameBut t u \<Longrightarrow> sameBut s u"
  by (simp add: sameBut_def)

text \<open>What a run of them posts is a part of what was due, in that order.\<close>

lemma putAll_new:
  "\<exists>cs' new. subseq cs' cs \<and> list_all2 (\<lambda>c s. \<exists>i t. s = feedStatus env c i t) cs' new \<and>
     rfStatuses (putAll env cs st) = rfStatuses st @ new \<and>
     rfQueue (putAll env cs st) = rfQueue st @ map (\<lambda>s. (fsAccountID s, s)) new \<and> sameBut st (putAll env cs st)"
proof (induction cs arbitrary: st)
  case Nil
  then show ?case by (intro exI [of _ "[]"]) simp
next
  case (Cons c cs)
  obtain e st1 where p: "putStatus env c st = (e, st1)" by fastforce
  obtain cs' new where IH: "subseq cs' cs" "list_all2 (\<lambda>c s. \<exists>i t. s = feedStatus env c i t) cs' new"
    "rfStatuses (putAll env cs st1) = rfStatuses st1 @ new"
    "rfQueue (putAll env cs st1) = rfQueue st1 @ map (\<lambda>s. (fsAccountID s, s)) new" "sameBut st1 (putAll env cs st1)"
    using Cons.IH by blast
  from p show ?case
  proof (cases rule: putStatus_cases)
    case no
    then show ?thesis
      using IH p sameBut_trans [OF no(4) IH(5)] list_emb_Cons [OF IH(1)] by (intro exI [of _ cs'] exI [of _ new]) simp
  next
    case (yes i t)
    have "fsAccountID (feedStatus env c i t) = raID (fst c)" by (simp add: feedStatus_def Let_def split_beta)
    then show ?thesis
      using IH p yes sameBut_trans [OF yes(4) IH(5)]
      by (intro exI [of _ "c # cs'"] exI [of _ "feedStatus env c i t # new"]) auto
  qed
qed

subsection \<open>What a poll may do\<close>

text \<open>An account but for what the poll keeps in it.\<close>

definition core :: "feed_account \<Rightarrow> feed_account" where
  "core a = a\<lparr>raFields := [], raFetchedAt := 0\<rparr>"

lemma core_simps [simp]:
  "raID (core a) = raID a" "raUsername (core a) = raUsername a" "raDomain (core a) = raDomain a" "raBot (core a) = raBot a"
  "raActorType (core a) = raActorType a" "raURL (core a) = raURL a" "raURI (core a) = raURI a"
  "core (a\<lparr>raFields := fs\<rparr>) = core a" "core (a\<lparr>raFetchedAt := t\<rparr>) = core a"
  by (simp_all add: core_def)

lemma core_eqD: "core a = core b \<Longrightarrow> raID a = raID b \<and> raUsername a = raUsername b \<and> raURI a = raURI b \<and> raURL a = raURL b"
  by (metis core_simps(1,2,6,7))

definition onlyFetched :: "feed_state \<Rightarrow> feed_state \<Rightarrow> bool" where
  "onlyFetched st st' \<longleftrightarrow>
     map core (rfAccounts st') = map core (rfAccounts st) \<and> rfFollows st' = rfFollows st \<and> rfStatuses st' = rfStatuses st \<and>
     rfThreads st' = rfThreads st \<and> rfSettings st' = rfSettings st \<and> rfUsers st' = rfUsers st \<and> rfQueue st' = rfQueue st \<and>
     rfNext st' = rfNext st \<and> (rfFaults st = [] \<longrightarrow> rfFaults st' = [])"

lemma onlyFetched_refl [simp]: "onlyFetched st st"
  by (simp add: onlyFetched_def)

lemma onlyFetched_trans: "onlyFetched s t \<Longrightarrow> onlyFetched t u \<Longrightarrow> onlyFetched s u"
  by (simp add: onlyFetched_def)

lemma onlyFetched_fault: "dbFault st = (e, st') \<Longrightarrow> onlyFetched st st'"
  by (auto simp: dbFault_def onlyFetched_def nextFault_def split: prod.splits list.splits)

lemma updateFetched_only: "onlyFetched st (snd (updateFetched a st))"
proof -
  obtain e st1 where d: "dbFault st = (e, st1)" by fastforce
  have 1: "onlyFetched st st1" by (rule onlyFetched_fault [OF d])
  let ?st2 = "st1\<lparr>rfAccounts := map (\<lambda>b. if raID b = raID a then b\<lparr>raFields := raFields a, raFetchedAt := raFetchedAt a\<rparr> else b)
      (rfAccounts st1)\<rparr>"
  have "onlyFetched st1 ?st2" by (simp add: onlyFetched_def core_def)
  then show ?thesis using 1 d onlyFetched_trans by (cases e) (simp_all add: updateFetched_def)
qed

text \<open>An item that a server may send; one that is new for a row of the accounts to poll.\<close>

definition served :: "feed_env \<Rightarrow> string \<Rightarrow> feed_item \<Rightarrow> bool" where
  "served env url x \<longleftrightarrow>
     (\<exists>etag t hf f. parseURLWithCache env url etag t = Inr hf \<and> hfFeed hf = Some f \<and> x \<in> set (fdItems f))"

definition dueFor :: "feed_env \<Rightarrow> feed_state \<Rightarrow> to_poll \<Rightarrow> to_create \<Rightarrow> bool" where
  "dueFor env st p c \<longleftrightarrow> served env (tpURL p) (snd c) \<and>
     raID (fst c) = tpAccountID p \<and> core (fst c) \<in> core ` set (rfAccounts st) \<and>
     (case fiPublished (snd c) of None \<Rightarrow> False | Some t \<Rightarrow> tpLastTweet p < t)"

lemma newItems_due:
  "newItems a since xs = Some new \<Longrightarrow> c \<in> set new \<Longrightarrow> fst c = a \<and> snd c \<in> set xs \<and> (\<exists>t. fiPublished (snd c) = Some t \<and> since < t)"
  by (induction xs arbitrary: new) (auto split: option.splits if_splits)

lemma pollOne_due:
  assumes "pollOne env p st = Some (new, st')"
  shows "onlyFetched st st'" and "c \<in> set new \<Longrightarrow> dueFor env st p c"
proof -
  obtain e st1 where d: "dbFault st = (e, st1)" by fastforce
  have 1: "onlyFetched st st1" by (rule onlyFetched_fault [OF d])
  have "onlyFetched st st' \<and> (c \<in> set new \<longrightarrow> dueFor env st p c)"
  proof (cases "e = None \<and> (\<exists>a hf. find (\<lambda>a. raID a = tpAccountID p) (rfAccounts st1) = Some a \<and>
      parseURLWithCache env (tpURL p) (storedEtag a) (raFetchedAt a) = Inr hf)")
    case False
    then have "st' = st1" "new = []"
      using assms d by (auto simp: pollOne_def split: option.splits sum.splits)
    then show ?thesis using 1 by simp
  next
    case True
    then obtain a hf where a: "find (\<lambda>a. raID a = tpAccountID p) (rfAccounts st1) = Some a"
      and hf: "parseURLWithCache env (tpURL p) (storedEtag a) (raFetchedAt a) = Inr hf" by blast
    let ?a = "a\<lparr>raFetchedAt := hfLastModified hf, raFields := [(''etag'', hfEtag hf)]\<rparr>"
    have n: "(case hfFeed hf of None \<Rightarrow> Some [] | Some f \<Rightarrow> newItems ?a (tpLastTweet p) (fdItems f)) = Some new"
      and st': "st' = snd (updateFetched ?a st1)"
      using assms d True a hf by (auto simp: pollOne_def Let_def split: option.splits)
    have mem: "a \<in> set (rfAccounts st1)" "raID a = tpAccountID p" using a by (auto simp: find_Some_iff)
    have "dueFor env st p c" if c: "c \<in> set new"
    proof -
      obtain f where f: "hfFeed hf = Some f" using n c by (cases "hfFeed hf") auto
      have "newItems ?a (tpLastTweet p) (fdItems f) = Some new" using n f by simp
      from newItems_due [OF this c] obtain t where t: "fst c = ?a" "snd c \<in> set (fdItems f)" "fiPublished (snd c) = Some t"
        "tpLastTweet p < t" by blast
      have "served env (tpURL p) (snd c)" using hf f t(2) by (auto simp: served_def)
      have "core ` set (rfAccounts st1) = core ` set (rfAccounts st)"
        using 1 by (metis onlyFetched_def list.set_map)
      then have "core a \<in> core ` set (rfAccounts st)" using mem(1) by blast
      then show ?thesis using t mem(2) \<open>served env (tpURL p) (snd c)\<close> by (simp add: dueFor_def)
    qed
    then show ?thesis using onlyFetched_trans [OF 1 updateFetched_only] st' by simp
  qed
  then show "onlyFetched st st'" and "c \<in> set new \<Longrightarrow> dueFor env st p c" by auto
qed

lemma dueFor_later: "onlyFetched st st1 \<Longrightarrow> dueFor env st1 p c \<Longrightarrow> dueFor env st p c"
  unfolding dueFor_def onlyFetched_def by (metis list.set_map)

lemma pollAll_due:
  "pollAll env ps st = Some (new, st') \<Longrightarrow> onlyFetched st st' \<and> (\<forall>c \<in> set new. \<exists>p \<in> set ps. dueFor env st p c)"
proof (induction ps arbitrary: st new)
  case (Cons p ps)
  obtain new1 st1 new2 where 1: "pollOne env p st = Some (new1, st1)" and 2: "pollAll env ps st1 = Some (new2, st')"
    and new: "new = new1 @ new2"
    using Cons.prems by (auto split: option.splits)
  note one = pollOne_due [OF 1] and rest = Cons.IH [OF 2]
  show ?case
    using one onlyFetched_trans [OF one(1), of st'] rest dueFor_later [OF one(1)] new by fastforce
qed simp

subsection \<open>The scope of a poll\<close>

definition orderOK :: "feed_env \<Rightarrow> bool" where
  "orderOK env \<longleftrightarrow> (\<forall>ps. mset (feOrder env ps) = mset ps)"

lemma orderOK_set: "orderOK env \<Longrightarrow> set (feOrder env ps) = set ps"
  by (metis orderOK_def set_mset_mset)

lemma feedStatus_simps [simp]:
  "fsAccountID (feedStatus env c i t) = raID (fst c)" "fsCreatedAt (feedStatus env c i t) = published c"
  "fsVisibility (feedStatus env c i t) = VisPublic" "fsReplyable (feedStatus env c i t) = False"
  "fsURL (feedStatus env c i t) = fiLink (snd c)" "fsID (feedStatus env c i t) = i"
  by (simp_all add: feedStatus_def Let_def split_beta)

text \<open>The rows that a poll goes through.\<close>

definition pollRows :: "feed_env \<Rightarrow> feed_state \<Rightarrow> to_poll list" where
  "pollRows env st = feOrder env (map (toPollRow st) (filter (pollable (rfFollows st)) (rfAccounts st)))"

lemma getAccountsToPoll_rows:
  assumes "getAccountsToPoll env st = (ps, e, st1)"
  shows "onlyFetched st st1" and "ps = [] \<or> ps = pollRows env st" and "rfFaults st = [] \<Longrightarrow> ps = pollRows env st \<and> st1 = st"
proof -
  obtain x s where d: "dbFault st = (x, s)" by fastforce
  have s: "s = st\<lparr>rfFaults := snd (nextFault (rfFaults st))\<rparr>" by (rule dbFault_rows [OF d])
  have "toPollRow s = toPollRow st" "rfFollows s = rfFollows st" "rfAccounts s = rfAccounts st"
    by (simp_all add: s toPollRow_def fun_eq_iff)
  then have "st1 = s" "ps = (if x = None then pollRows env st else [])"
    using assms d by (cases x; auto simp: getAccountsToPoll_def pollRows_def)+
  then show "onlyFetched st st1" and "ps = [] \<or> ps = pollRows env st"
    and "rfFaults st = [] \<Longrightarrow> ps = pollRows env st \<and> st1 = st"
    using onlyFetched_fault [OF d] d dbFault_calm [of st] by auto
qed

lemma pollRows_mem:
  assumes "orderOK env" and "p \<in> set (pollRows env st)"
  obtains a where "a \<in> set (rfAccounts st)" "pollable (rfFollows st) a" "p = toPollRow st a"
  using assms by (auto simp: pollRows_def orderOK_set)

lemma refreshTick_parts:
  assumes "refreshTick env st = Some st'"
  obtains ps e st1 cs st2 where "getAccountsToPoll env st = (ps, e, st1)" "pollAll env ps st1 = Some (cs, st2)"
    "st' = putAll env (sort_key published cs) st2"
  using assms by (auto simp: refreshTick_def split: prod.splits option.splits)

lemma sorted_subseq: "subseq xs ys \<Longrightarrow> sorted (map f ys) \<Longrightarrow> sorted (map f xs)"
  by (metis sorted_wrt_subseq subseq_map)

lemma list_all2_map_eq: "list_all2 P xs ys \<Longrightarrow> (\<And>x y. P x y \<Longrightarrow> f x = g y) \<Longrightarrow> map f xs = map g ys"
  by (induction rule: list_all2_induct) auto

lemma list_all2_from: "list_all2 P xs ys \<Longrightarrow> y \<in> set ys \<Longrightarrow> \<exists>x \<in> set xs. P x y"
  by (induction rule: list_all2_induct) auto

text \<open>\<open>refreshTick_scope\<close> of \<open>FeedProps\<close> says what this is.\<close>

lemma poll_scope:
  assumes "orderOK env" and "refreshTick env st = Some st'"
  shows "\<exists>new. rfStatuses st' = rfStatuses st @ new \<and> sorted (map fsCreatedAt new) \<and>
    rfQueue st' = rfQueue st @ map (\<lambda>s. (fsAccountID s, s)) new \<and>
    (\<forall>s \<in> set new. fsVisibility s = VisPublic \<and> \<not> fsReplyable s \<and>
      (\<exists>a \<in> set (rfAccounts st). raID a = fsAccountID s \<and> pollable (rfFollows st) a \<and>
        (\<exists>x. served env (raURL a) x \<and> fiPublished x = Some (fsCreatedAt s) \<and> fiLink x = fsURL s)) \<and>
      lastTweet (fsAccountID s) (rfStatuses st) < fsCreatedAt s) \<and>
    map core (rfAccounts st') = map core (rfAccounts st) \<and> rfFollows st' = rfFollows st \<and>
    rfSettings st' = rfSettings st \<and> rfUsers st' = rfUsers st"
proof -
  obtain ps e st1 cs st2 where g: "getAccountsToPoll env st = (ps, e, st1)" and p: "pollAll env ps st1 = Some (cs, st2)"
    and st': "st' = putAll env (sort_key published cs) st2" using refreshTick_parts [OF assms(2)] .
  note rows = getAccountsToPoll_rows [OF g] and due = pollAll_due [OF p]
  note only = onlyFetched_trans [OF rows(1) conjunct1 [OF due]]
  obtain cs' new where put: "subseq cs' (sort_key published cs)" "list_all2 (\<lambda>c s. \<exists>i t. s = feedStatus env c i t) cs' new"
    "rfStatuses st' = rfStatuses st2 @ new" "rfQueue st' = rfQueue st2 @ map (\<lambda>s. (fsAccountID s, s)) new" "sameBut st2 st'"
    using putAll_new [of "sort_key published cs" env st2] st' by blast
  have "map fsCreatedAt new = map published cs'" by (rule list_all2_map_eq [OF put(2), symmetric]) auto
  moreover have "sorted (map published cs')" by (rule sorted_subseq [OF put(1)]) simp
  ultimately have srt: "sorted (map fsCreatedAt new)" by simp
  have new: "fsVisibility s = VisPublic \<and> \<not> fsReplyable s \<and>
      (\<exists>a \<in> set (rfAccounts st). raID a = fsAccountID s \<and> pollable (rfFollows st) a \<and>
        (\<exists>x. served env (raURL a) x \<and> fiPublished x = Some (fsCreatedAt s) \<and> fiLink x = fsURL s)) \<and>
      lastTweet (fsAccountID s) (rfStatuses st) < fsCreatedAt s" if s: "s \<in> set new" for s
  proof -
    obtain c i t where c: "c \<in> set cs'" "s = feedStatus env c i t"
      using list_all2_from [OF put(2) s] by blast
    obtain v where "v \<in> set (sort_key published cs)" "c = v" by (rule list_emb_set [OF put(1) c(1)])
    then have "c \<in> set cs" by simp
    then obtain p where p: "p \<in> set ps" "dueFor env st1 p c" using due by blast
    then obtain a where a: "a \<in> set (rfAccounts st)" "pollable (rfFollows st) a" "p = toPollRow st a"
      using rows(2) pollRows_mem [OF assms(1)] by (metis empty_iff list.set(1))
    have d: "raID (fst c) = raID a" "lastTweet (raID a) (rfStatuses st) < published c" "served env (raURL a) (snd c)"
      "fiPublished (snd c) = Some (published c)"
      using p(2) a(3) by (auto simp: dueFor_def toPollRow_def published_def split: option.splits)
    have "\<exists>x. served env (raURL a) x \<and> fiPublished x = Some (fsCreatedAt s) \<and> fiLink x = fsURL s"
      using d(3,4) c(2) by (intro exI [of _ "snd c"]) simp
    then show ?thesis using a(1,2) c(2) d(1,2) by auto
  qed
  show ?thesis
    using put(3-5) only new srt by (intro exI [of _ new]) (simp add: onlyFetched_def sameBut_def)
qed

subsection \<open>The order of the statuses of a feed\<close>

lemma fold_max_ge: "x \<in> set (t # ts) \<Longrightarrow> x \<le> fold max ts (t :: time)"
  by (simp only: Max.set_eq_fold [symmetric]) (simp add: Max_ge)

lemma lastTweet_ge: "s \<in> set ss \<Longrightarrow> fsAccountID s = i \<Longrightarrow> fsCreatedAt s \<le> lastTweet i ss"
proof -
  assume s: "s \<in> set ss" "fsAccountID s = i"
  let ?xs = "map fsCreatedAt (filter (\<lambda>s. fsAccountID s = i) ss)"
  have mem: "fsCreatedAt s \<in> set ?xs" using s by (simp only: set_map set_filter) blast
  obtain t ts where t: "?xs = t # ts" using mem by (metis list.exhaust list.set(1) empty_iff)
  show ?thesis using mem fold_max_ge [of "fsCreatedAt s" t ts] unfolding lastTweet_def t by simp
qed

lemma putInto_statuses:
  assumes "\<And>rows s. rfStatuses (store rows s) = rfStatuses s"
  shows "rfStatuses (snd (putInto keys get store v st)) = rfStatuses st"
proof -
  obtain e st1 where d: "dbFault st = (e, st1)" by fastforce
  have "rfStatuses st1 = rfStatuses st" by (simp add: dbFault_rows [OF d])
  then show ?thesis using d assms by (cases e) (simp_all add: putInto_def split: prod.splits)
qed

lemma put_statuses [simp]:
  "rfStatuses (snd (putAccount a st)) = rfStatuses st" "rfStatuses (snd (putAccountSettings x st)) = rfStatuses st"
  "rfStatuses (snd (putUser u st)) = rfStatuses st"
  by (simp_all add: putAccount_def putAccountSettings_def putUser_def putInto_statuses)

lemma available_statuses [simp]: "rfStatuses (snd (isUsernameAvailable u st)) = rfStatuses st"
proof -
  obtain e st1 where d: "dbFault st = (e, st1)" by fastforce
  have "rfStatuses st1 = rfStatuses st" by (simp add: dbFault_rows [OF d])
  then show ?thesis using d by (cases e) (simp_all add: isUsernameAvailable_def)
qed

lemma newRssFeed_statuses: "rfStatuses (snd (newRssFeed env r st)) = rfStatuses st"
  using available_statuses [of "toLower (cleanResource (cfgHost (feConfig env)) r)" st]
  by (auto simp: newRssFeed_def Let_def split: prod.splits sum.splits if_splits)
     (metis available_statuses snd_conv)+

lemma createUser_statuses: "rfStatuses (snd (createUser env r st)) = rfStatuses st"
proof -
  obtain i st1 where u: "newULID env st = (i, st1)" by fastforce
  have 1: "rfStatuses st1 = rfStatuses st" using u by (auto simp: newULID_def)
  obtain e2 st2 where 2: "putAccountSettings (i, VisPublic) st1 = (e2, st2)" by fastforce
  obtain e3 st3 where 3: "putAccount (feedAccount env i r) st2 = (e3, st3)" by fastforce
  have s2: "rfStatuses st2 = rfStatuses st" using put_statuses(2) [of "(i, VisPublic)" st1] 2 1 by simp
  have s3: "rfStatuses st3 = rfStatuses st" using put_statuses(1) [of "feedAccount env i r" st2] 3 s2 by simp
  have s4: "rfStatuses (snd (putUser u st3)) = rfStatuses st" for u using s3 by simp
  show ?thesis
    using u 1 2 3 s2 s3 s4
    by (simp add: createUser_def Let_def split_beta split: option.splits)
qed

lemma newUser_statuses: "rfStatuses (snd (newUser env r st)) = rfStatuses st"
proof -
  obtain n f e st1 where n: "newRssFeed env r st = ((n, f, e), st1)" by (metis prod.exhaust)
  have "rfStatuses st1 = rfStatuses st" using newRssFeed_statuses [of env r st] n by simp
  then show ?thesis using n by (simp add: newUser_def createUser_statuses split: option.splits)
qed

lemma webfinger_statuses: "rfStatuses (snd (webfingerGETRequest env ok q st)) = rfStatuses st"
proof -
  have g: "rfStatuses (snd (webfingerGet cfg u s)) = rfStatuses s" for cfg u s
  proof -
    obtain e st1 where d: "dbFault s = (e, st1)" by fastforce
    have "rfStatuses st1 = rfStatuses s" by (simp add: dbFault_rows [OF d])
    then show ?thesis using d by (cases e) (simp_all add: webfingerGet_def split: option.splits)
  qed
  show ?thesis
  proof (cases q)
    case (Some r)
    obtain n e st1 where n: "newUser env r st = ((n, e), st1)" by (metis prod.exhaust)
    have 1: "rfStatuses st1 = rfStatuses st" using newUser_statuses [of env r st] n by simp
    obtain d st2 where w: "webfingerGet (feConfig env) n st1 = (d, st2)" by fastforce
    have 2: "rfStatuses st2 = rfStatuses st" using g [of "feConfig env" n st1] w 1 by simp
    show ?thesis using Some n 1 w 2 by (simp add: webfingerGETRequest_def split: option.splits)
  qed (simp add: webfingerGETRequest_def)
qed

text \<open>
  Histories: polls, webfinger queries, and whatever else happens to the tables, as long as no
  other part of the server writes statuses for the accounts; statuses may be deleted.
\<close>

inductive feedReach :: "feed_state \<Rightarrow> bool" where
  start: "rfStatuses st = [] \<Longrightarrow> feedReach st"
| tick: "feedReach st \<Longrightarrow> orderOK env \<Longrightarrow> refreshTick env st = Some st' \<Longrightarrow> feedReach st'"
| webfinger: "feedReach st \<Longrightarrow> feedReach (snd (webfingerGETRequest env ok q st))"
| other: "feedReach st \<Longrightarrow> rfStatuses st' = filter P (rfStatuses st) \<Longrightarrow> feedReach st'"

definition accountStatuses :: "string \<Rightarrow> feed_state \<Rightarrow> feed_status list" where
  "accountStatuses i st = filter (\<lambda>s. fsAccountID s = i) (rfStatuses st)"

text \<open>
  C14. The statuses of a feed are in order: in every history the statuses of an account were made in
  the order of the times of their items.
\<close>

theorem feed_statuses_ordered:
  assumes "feedReach st"
  shows "sorted (map fsCreatedAt (accountStatuses i st))"
  using assms
proof induction
  case (start st)
  then show ?case by (simp add: accountStatuses_def)
next
  case (tick st env st')
  from poll_scope [OF tick.hyps(2,3)] obtain new where
    new: "rfStatuses st' = rfStatuses st @ new" "sorted (map fsCreatedAt new)"
      "\<forall>s \<in> set new. lastTweet (fsAccountID s) (rfStatuses st) < fsCreatedAt s" by blast
  have "sorted (map fsCreatedAt (filter (\<lambda>s. fsAccountID s = i) new))"
    using new(2) sorted_subseq [OF subseq_filter_left] by blast
  moreover have "fsCreatedAt s \<le> fsCreatedAt t"
    if "s \<in> set (accountStatuses i st)" "t \<in> set new" "fsAccountID t = i" for s t
    using that new(3) lastTweet_ge [of s "rfStatuses st" i] by (fastforce simp: accountStatuses_def)
  ultimately show ?case
    using tick.IH new(1) by (auto simp: accountStatuses_def sorted_append)
next
  case (webfinger st env ok q)
  then show ?case by (simp add: accountStatuses_def webfinger_statuses)
next
  case (other st st' P)
  have "accountStatuses i st' = filter P (accountStatuses i st)"
    by (simp add: accountStatuses_def other.hyps(2) conj_commute)
  then show ?case using other.IH sorted_subseq [OF subseq_filter_left] by metis
qed

end
