(* ===== verification/FeedProps.thy ===== *)
theory FeedProps
  imports FeedSafety
begin

text \<open>
  A poll on a database without faults: exactly which items are posted, when it panics, and that a
  second poll of the same feeds posts nothing.
\<close>

subsection \<open>What is fetched and what is due\<close>

definition fetchedItems :: "feed_env \<Rightarrow> feed_state \<Rightarrow> to_poll \<Rightarrow> feed_item list" where
  "fetchedItems env st p =
     (case find (\<lambda>a. raID a = tpAccountID p) (rfAccounts st) of
        None \<Rightarrow> []
      | Some a \<Rightarrow>
          (case parseURLWithCache env (tpURL p) (storedEtag a) (raFetchedAt a) of
             Inl _ \<Rightarrow> []
           | Inr hf \<Rightarrow> (case hfFeed hf of None \<Rightarrow> [] | Some f \<Rightarrow> fdItems f)))"

definition pubTime :: "feed_item \<Rightarrow> time" where
  "pubTime x = the (fiPublished x)"

definition dueItems :: "feed_env \<Rightarrow> feed_state \<Rightarrow> to_poll \<Rightarrow> (string \<times> feed_item) list" where
  "dueItems env st p =
     map (Pair (tpAccountID p)) (filter (\<lambda>x. tpLastTweet p < pubTime x) (fetchedItems env st p))"

definition dated :: "feed_item list \<Rightarrow> bool" where
  "dated xs \<longleftrightarrow> list_all (\<lambda>x. fiPublished x \<noteq> None) xs"

lemma newItems_calm:
  "newItems a since xs = (if dated xs then Some (map (Pair a) (filter (\<lambda>x. since < pubTime x) xs)) else None)"
  by (induction xs) (auto simp: dated_def pubTime_def split: option.splits)

lemma updateFetched_calm:
  "rfFaults st = [] \<Longrightarrow> snd (updateFetched a st) =
     st\<lparr>rfAccounts := map (\<lambda>b. if raID b = raID a then b\<lparr>raFields := raFields a, raFetchedAt := raFetchedAt a\<rparr> else b) (rfAccounts st)\<rparr>"
  by (simp add: updateFetched_def dbFault_calm)

lemma find_map_same:
  "(\<And>b. raID (f b) = raID b) \<Longrightarrow> (\<And>b. raID b = j \<Longrightarrow> f b = b) \<Longrightarrow> find (\<lambda>a. raID a = j) (map f xs) = find (\<lambda>a. raID a = j) xs"
  by (induction xs) auto

lemma fetchedItems_map:
  "(\<And>b. raID (f b) = raID b) \<Longrightarrow> (\<And>b. raID b = tpAccountID q \<Longrightarrow> f b = b) \<Longrightarrow>
    fetchedItems env (st\<lparr>rfAccounts := map f (rfAccounts st)\<rparr>) q = fetchedItems env st q"
  by (simp add: fetchedItems_def find_map_same)

definition postKey :: "to_create \<Rightarrow> string \<times> feed_item" where
  "postKey c = (raID (fst c), snd c)"

text \<open>One account: its due items, or a panic; what is fetched for the others stays.\<close>

lemma pollOne_calm:
  assumes nf: "rfFaults st = []"
  shows "\<not> dated (fetchedItems env st p) \<Longrightarrow> pollOne env p st = None"
    and "dated (fetchedItems env st p) \<Longrightarrow> \<exists>new st'. pollOne env p st = Some (new, st') \<and> map postKey new = dueItems env st p \<and>
      rfFaults st' = [] \<and> (\<forall>q. tpAccountID q \<noteq> tpAccountID p \<longrightarrow> fetchedItems env st' q = fetchedItems env st q)"
proof -
  have "(\<not> dated (fetchedItems env st p) \<longrightarrow> pollOne env p st = None) \<and>
    (dated (fetchedItems env st p) \<longrightarrow> (\<exists>new st'. pollOne env p st = Some (new, st') \<and> map postKey new = dueItems env st p \<and>
      rfFaults st' = [] \<and> (\<forall>q. tpAccountID q \<noteq> tpAccountID p \<longrightarrow> fetchedItems env st' q = fetchedItems env st q)))"
  proof (cases "find (\<lambda>a. raID a = tpAccountID p) (rfAccounts st)")
    case None
    then show ?thesis by (simp add: pollOne_def dbFault_calm [OF nf] fetchedItems_def dueItems_def dated_def nf)
  next
    case (Some a)
    then have ida: "raID a = tpAccountID p" by (auto simp: find_Some_iff)
    show ?thesis
    proof (cases "parseURLWithCache env (tpURL p) (storedEtag a) (raFetchedAt a)")
      case (Inl e)
      then show ?thesis using Some by (simp add: pollOne_def dbFault_calm [OF nf] fetchedItems_def dueItems_def dated_def nf)
    next
      case (Inr hf)
      let ?a = "a\<lparr>raFetchedAt := hfLastModified hf, raFields := [(''etag'', hfEtag hf)]\<rparr>"
      let ?items = "fetchedItems env st p"
      have n: "(case hfFeed hf of None \<Rightarrow> Some [] | Some f \<Rightarrow> newItems ?a (tpLastTweet p) (fdItems f)) =
          (if dated ?items then Some (map (Pair ?a) (filter (\<lambda>x. tpLastTweet p < pubTime x) ?items)) else None)"
        using Some Inr by (simp add: fetchedItems_def newItems_calm dated_def split: option.splits)
      let ?f = "\<lambda>b. if raID b = raID ?a then b\<lparr>raFields := raFields ?a, raFetchedAt := raFetchedAt ?a\<rparr> else b"
      have st': "snd (updateFetched ?a st) = st\<lparr>rfAccounts := map ?f (rfAccounts st)\<rparr>" by (rule updateFetched_calm [OF nf])
      have keep: "fetchedItems env (snd (updateFetched ?a st)) q = fetchedItems env st q"
        if "tpAccountID q \<noteq> tpAccountID p" for q
        unfolding st' by (rule fetchedItems_map) (use that ida in auto)
      have nf': "rfFaults (snd (updateFetched ?a st)) = []" unfolding st' using nf by simp
      have "pollOne env p st = (if dated ?items
          then Some (map (Pair ?a) (filter (\<lambda>x. tpLastTweet p < pubTime x) ?items), snd (updateFetched ?a st)) else None)"
        using Some Inr n by (simp add: pollOne_def dbFault_calm [OF nf] Let_def)
      moreover have "map postKey (map (Pair ?a) (filter (\<lambda>x. tpLastTweet p < pubTime x) ?items)) = dueItems env st p"
        by (simp add: dueItems_def postKey_def ida)
      ultimately show ?thesis using keep nf' by auto
    qed
  qed
  then show "\<not> dated (fetchedItems env st p) \<Longrightarrow> pollOne env p st = None"
    and "dated (fetchedItems env st p) \<Longrightarrow> \<exists>new st'. pollOne env p st = Some (new, st') \<and> map postKey new = dueItems env st p \<and>
      rfFaults st' = [] \<and> (\<forall>q. tpAccountID q \<noteq> tpAccountID p \<longrightarrow> fetchedItems env st' q = fetchedItems env st q)"
    by blast+
qed

lemma pollAll_calm:
  assumes "rfFaults st = []" and "distinct (map tpAccountID ps)"
  shows "if \<forall>p \<in> set ps. dated (fetchedItems env st p)
    then \<exists>cs st'. pollAll env ps st = Some (cs, st') \<and> map postKey cs = concat (map (dueItems env st) ps) \<and> rfFaults st' = []
    else pollAll env ps st = None"
  using assms
proof (induction ps arbitrary: st)
  case (Cons p ps)
  show ?case
  proof (cases "dated (fetchedItems env st p)")
    case False
    then show ?thesis using pollOne_calm(1) [OF Cons.prems(1)] by simp
  next
    case True
    obtain new st1 where 1: "pollOne env p st = Some (new, st1)" "map postKey new = dueItems env st p" "rfFaults st1 = []"
      and keep: "\<And>q. tpAccountID q \<noteq> tpAccountID p \<Longrightarrow> fetchedItems env st1 q = fetchedItems env st q"
      using pollOne_calm(2) [OF Cons.prems(1) True] by blast
    have same: "fetchedItems env st1 q = fetchedItems env st q" "dueItems env st1 q = dueItems env st q" if "q \<in> set ps" for q
    proof -
      have "tpAccountID p \<notin> tpAccountID ` set ps" using Cons.prems(2) by simp
      then have "tpAccountID q \<noteq> tpAccountID p" using that by (metis imageI)
      then show "fetchedItems env st1 q = fetchedItems env st q" by (rule keep)
      then show "dueItems env st1 q = dueItems env st q" by (simp add: dueItems_def)
    qed
    have d: "(\<forall>q \<in> set ps. dated (fetchedItems env st1 q)) = (\<forall>q \<in> set ps. dated (fetchedItems env st q))"
      using same(1) by simp
    have c: "map (dueItems env st1) ps = map (dueItems env st) ps" using same(2) by simp
    have "distinct (map tpAccountID ps)" using Cons.prems(2) by simp
    note IH = Cons.IH [OF 1(3) this, unfolded d c]
    show ?thesis
    proof (cases "\<forall>q \<in> set ps. dated (fetchedItems env st q)")
      case all: True
      then obtain cs st' where "pollAll env ps st1 = Some (cs, st')" "map postKey cs = concat (map (dueItems env st) ps)" "rfFaults st' = []"
        using IH by auto
      then show ?thesis using 1 True all by simp
    next
      case False
      then show ?thesis using IH 1 True by auto
    qed
  qed
qed simp

subsection \<open>Every due item becomes a status\<close>

text \<open>The coming IDs are new, and no status has a URI that ends in one of them.\<close>

definition idsFresh :: "feed_env \<Rightarrow> feed_state \<Rightarrow> bool" where
  "idsFresh env st \<longleftrightarrow>
     inj (feULID env) \<and> (\<forall>n. CHR ''/'' \<notin> set (feULID env n)) \<and>
     (\<forall>n \<ge> rfNext st. feULID env n \<notin> set (rfThreads st) \<and>
        (\<forall>s \<in> set (rfStatuses st). fsID s \<noteq> feULID env n \<and> \<not> suffix (CHR ''/'' # feULID env n) (fsURI s)))"

lemma feedStatus_uri: "\<exists>base. fsURI (feedStatus env c i t) = base @ CHR ''/'' # i"
  by (auto simp: feedStatus_def Let_def split_beta)

lemma takeWhile_rev_slash:
  "CHR ''/'' \<notin> set v \<Longrightarrow> takeWhile (\<lambda>c. c \<noteq> CHR ''/'') (rev (base @ CHR ''/'' # v)) = rev v"
proof -
  assume "CHR ''/'' \<notin> set v"
  then have "\<And>c. c \<in> set (rev v) \<Longrightarrow> c \<noteq> CHR ''/''" by auto
  then have "takeWhile (\<lambda>c. c \<noteq> CHR ''/'') (rev v @ CHR ''/'' # rev base) =
      rev v @ takeWhile (\<lambda>c. c \<noteq> CHR ''/'') (CHR ''/'' # rev base)" by (rule takeWhile_append2)
  then show ?thesis by simp
qed

lemma suffix_slash:
  assumes "suffix (CHR ''/'' # u) (base @ CHR ''/'' # v)" and "CHR ''/'' \<notin> set u" and "CHR ''/'' \<notin> set v"
  shows "u = v"
proof -
  obtain x where "base @ CHR ''/'' # v = x @ CHR ''/'' # u" using assms(1) by (auto simp: suffix_def)
  then have "rev v = rev u" using takeWhile_rev_slash [OF assms(2), of x] takeWhile_rev_slash [OF assms(3), of base] by simp
  then show ?thesis by simp
qed

lemma putInto_new:
  assumes "rfFaults st = []" and "\<And>w. w \<in> set (get st) \<Longrightarrow> \<not> list_ex (\<lambda>(a, b). a = b \<and> a \<noteq> []) (zip (keys v) (keys w))"
  shows "putInto keys get store v st = (None, store (get st @ [v]) st)"
proof -
  have "\<not> list_ex (\<lambda>w. list_ex (\<lambda>(a, b). a = b \<and> a \<noteq> []) (zip (keys v) (keys w))) (get st)"
    using assms(2) by (simp add: list_ex_iff)
  then show ?thesis using assms(1) by (simp add: putInto_def dbFault_calm putRow_def)
qed

lemma putStatus_calm:
  assumes nf: "rfFaults st = []" and fresh: "idsFresh env st" and t: "feTransport env (raUsername (fst c))"
  shows "\<exists>st'. putStatus env c st = (None, st') \<and> rfFaults st' = [] \<and> idsFresh env st' \<and>
    (\<exists>i t. rfStatuses st' = rfStatuses st @ [feedStatus env c i t])"
proof -
  let ?u = "feULID env" and ?n = "rfNext st"
  let ?s = "feedStatus env c (?u ?n) (?u (Suc ?n))"
  let ?st2 = "st\<lparr>rfNext := Suc (Suc ?n)\<rparr>"
  let ?st3 = "?st2\<lparr>rfThreads := rfThreads st @ [?u (Suc ?n)]\<rparr>"
  let ?st4 = "?st3\<lparr>rfStatuses := rfStatuses st @ [?s]\<rparr>"
  let ?st5 = "?st4\<lparr>rfQueue := rfQueue st @ [(raID (fst c), ?s)]\<rparr>"
  have inj: "?u i = ?u j \<longleftrightarrow> i = j" for i j using fresh by (auto simp: idsFresh_def inj_eq)
  have slash: "CHR ''/'' \<notin> set (?u i)" for i using fresh by (simp add: idsFresh_def)
  have new: "?u i \<notin> set (rfThreads st)" "w \<in> set (rfStatuses st) \<Longrightarrow> fsID w \<noteq> ?u i"
    "w \<in> set (rfStatuses st) \<Longrightarrow> \<not> suffix (CHR ''/'' # ?u i) (fsURI w)" if "?n \<le> i" for i w
    using fresh that by (simp_all add: idsFresh_def)
  obtain base where base: "fsURI ?s = base @ CHR ''/'' # ?u ?n" using feedStatus_uri by blast
  have 3: "putThread (?u (Suc ?n)) ?st2 = (None, ?st3)"
  proof -
    have "\<not> list_ex (\<lambda>(a, b). a = b \<and> a \<noteq> []) (zip [?u (Suc ?n)] [w])" if "w \<in> set (rfThreads ?st2)" for w
      using that new(1) [of "Suc ?n"] by auto
    then have "putInto (\<lambda>i. [i]) rfThreads (\<lambda>rows st. st\<lparr>rfThreads := rows\<rparr>) (?u (Suc ?n)) ?st2 =
        (None, ?st2\<lparr>rfThreads := rfThreads ?st2 @ [?u (Suc ?n)]\<rparr>)"
      by (intro putInto_new) (use nf in simp_all)
    then show ?thesis by (simp add: putThread_def)
  qed
  have 4: "putFeedStatus ?s ?st3 = (None, ?st4)"
  proof -
    have "\<not> list_ex (\<lambda>(a, b). a = b \<and> a \<noteq> []) (zip [fsID ?s, fsURI ?s] [fsID w, fsURI w])" if w: "w \<in> set (rfStatuses ?st3)" for w
    proof -
      have w: "w \<in> set (rfStatuses st)" using w by simp
      have "fsURI w \<noteq> fsURI ?s" using new(3) [of ?n w] w base by (auto simp: suffix_def)
      then show ?thesis using new(2) [of ?n w] w by auto
    qed
    then have "putInto (\<lambda>s. [fsID s, fsURI s]) rfStatuses (\<lambda>rows st. st\<lparr>rfStatuses := rows\<rparr>) ?s ?st3 =
        (None, ?st3\<lparr>rfStatuses := rfStatuses ?st3 @ [?s]\<rparr>)"
      by (intro putInto_new) (use nf in simp_all)
    then show ?thesis by (simp add: putFeedStatus_def)
  qed
  have "putStatus env c st = (None, ?st5)"
    using t 3 4 by (simp add: putStatus_def newULID_def Let_def)
  moreover have "idsFresh env ?st5"
    unfolding idsFresh_def
  proof (intro conjI allI impI)
    show "inj (feULID env)" and "CHR ''/'' \<notin> set (?u n)" for n using fresh by (simp_all add: idsFresh_def)
    fix i assume "rfNext ?st5 \<le> i"
    then have i: "Suc (Suc ?n) \<le> i" by simp
    then show "?u i \<notin> set (rfThreads ?st5)" using new(1) [of i] inj by auto
    show "\<forall>s \<in> set (rfStatuses ?st5). fsID s \<noteq> ?u i \<and> \<not> suffix (CHR ''/'' # ?u i) (fsURI s)"
    proof
      fix s assume "s \<in> set (rfStatuses ?st5)"
      then consider "s \<in> set (rfStatuses st)" | "s = ?s" by auto
      then show "fsID s \<noteq> ?u i \<and> \<not> suffix (CHR ''/'' # ?u i) (fsURI s)"
      proof cases
        case 1
        then show ?thesis using new(2,3) [of i s] i by simp
      next
        case 2
        have "?u i \<noteq> ?u ?n" using inj i by auto
        then show ?thesis using 2 base suffix_slash [OF _ slash slash] by auto
      qed
    qed
  qed
  ultimately show ?thesis using nf by (intro exI [of _ ?st5]) auto
qed

definition statusKey :: "feed_status \<Rightarrow> string \<times> string \<times> time" where
  "statusKey s = (fsAccountID s, fsURL s, fsCreatedAt s)"

definition itemKey :: "string \<times> feed_item \<Rightarrow> string \<times> string \<times> time" where
  "itemKey d = (fst d, fiLink (snd d), pubTime (snd d))"

lemma putAll_calm:
  "rfFaults st = [] \<Longrightarrow> idsFresh env st \<Longrightarrow> (\<And>u. feTransport env u) \<Longrightarrow>
    map statusKey (rfStatuses (putAll env cs st)) = map statusKey (rfStatuses st) @ map (itemKey \<circ> postKey) cs"
proof (induction cs arbitrary: st)
  case (Cons c cs)
  obtain st1 i t where 1: "putStatus env c st = (None, st1)" "rfFaults st1 = []" "idsFresh env st1"
    "rfStatuses st1 = rfStatuses st @ [feedStatus env c i t]"
    using putStatus_calm [OF Cons.prems(1,2) Cons.prems(3)] by blast
  have "statusKey (feedStatus env c i t) = itemKey (postKey c)"
    by (simp add: statusKey_def itemKey_def postKey_def published_def pubTime_def)
  then show ?case using Cons.IH [OF 1(2,3) Cons.prems(3)] 1 by simp
qed simp

lemma map_insort_key: "map g (insort_key (k \<circ> g) x xs) = insort_key k (g x) (map g xs)"
  by (induction xs) auto

lemma map_sort_key: "map g (sort_key (k \<circ> g) xs) = sort_key k (map g xs)"
  by (induction xs) (simp_all add: map_insort_key [unfolded comp_def] comp_def)

subsection \<open>A whole poll\<close>

lemma pollRows_distinct:
  assumes "orderOK env" and "distinct (map raID (rfAccounts st))"
  shows "distinct (map tpAccountID (pollRows env st))"
proof -
  let ?ps = "map (toPollRow st) (filter (pollable (rfFollows st)) (rfAccounts st))"
  have "map tpAccountID ?ps = map raID (filter (pollable (rfFollows st)) (rfAccounts st))" by (simp add: toPollRow_def comp_def)
  then have "distinct (map tpAccountID ?ps)" using assms(2) by (simp only: distinct_map_filter)
  moreover have "mset (map tpAccountID (pollRows env st)) = mset (map tpAccountID ?ps)"
    unfolding pollRows_def mset_map [of tpAccountID] using assms(1) by (simp only: orderOK_def)
  ultimately show ?thesis by (metis mset_eq_imp_distinct_iff)
qed

lemma refreshTick_calm:
  assumes nf: "rfFaults st = []"
  shows "refreshTick env st =
    (case pollAll env (pollRows env st) st of None \<Rightarrow> None | Some (cs, st2) \<Rightarrow> Some (putAll env (sort_key published cs) st2))"
proof -
  obtain ps e st1 where g: "getAccountsToPoll env st = (ps, e, st1)" by (metis prod.exhaust)
  show ?thesis using getAccountsToPoll_rows(3) [OF g nf] g by (simp add: refreshTick_def)
qed

lemma not_dated: "\<not> dated xs \<longleftrightarrow> (\<exists>x \<in> set xs. fiPublished x = None)"
  by (simp add: dated_def list_all_iff)

text \<open>
  C17. When a poll panics, and with it the server: exactly when a feed that was fetched for one of the
  accounts has an item without a time.
\<close>

theorem refreshTick_panics:
  assumes "orderOK env" and "rfFaults st = []" and "distinct (map raID (rfAccounts st))"
  shows "refreshTick env st = None \<longleftrightarrow>
    (\<exists>p \<in> set (pollRows env st). \<exists>x \<in> set (fetchedItems env st p). fiPublished x = None)"
proof -
  let ?D = "\<forall>p \<in> set (pollRows env st). dated (fetchedItems env st p)"
  have eq: "(\<exists>p \<in> set (pollRows env st). \<exists>x \<in> set (fetchedItems env st p). fiPublished x = None) \<longleftrightarrow> \<not> ?D"
    by (simp add: not_dated [symmetric])
  note poll = pollAll_calm [OF assms(2) pollRows_distinct [OF assms(1,3)], of env]
  have "pollAll env (pollRows env st) st = None \<longleftrightarrow> \<not> ?D"
  proof (cases ?D)
    case True
    then obtain r where "pollAll env (pollRows env st) st = Some r" using poll unfolding if_P [OF True] by blast
    then show ?thesis using True by simp
  next
    case False
    then show ?thesis using poll unfolding if_not_P [OF False] by blast
  qed
  then show ?thesis unfolding eq using refreshTick_calm [OF assms(2), of env] by (simp split: option.splits)
qed

lemma poll_posts:
  assumes "orderOK env" and nf: "rfFaults st = []" and "distinct (map raID (rfAccounts st))"
    and "idsFresh env st" and "\<And>u. feTransport env u" and dated: "\<forall>p \<in> set (pollRows env st). dated (fetchedItems env st p)"
  shows "\<exists>st'. refreshTick env st = Some st' \<and>
    map statusKey (rfStatuses st') = map statusKey (rfStatuses st) @
      map itemKey (sort_key (pubTime \<circ> snd) (concat (map (dueItems env st) (pollRows env st))))"
proof -
  obtain cs st2 where p: "pollAll env (pollRows env st) st = Some (cs, st2)"
    and cs: "map postKey cs = concat (map (dueItems env st) (pollRows env st))" and nf2: "rfFaults st2 = []"
    using pollAll_calm [OF nf pollRows_distinct [OF assms(1,3)], of env] dated by auto
  have only: "onlyFetched st st2" using pollAll_due [OF p] by blast
  have fresh: "idsFresh env st2" using assms(4) only by (simp add: idsFresh_def onlyFetched_def)
  have st: "rfStatuses st2 = rfStatuses st" using only by (simp add: onlyFetched_def)
  have pub: "published = (pubTime \<circ> snd) \<circ> postKey" by (auto simp: published_def pubTime_def postKey_def)
  have "map statusKey (rfStatuses (putAll env (sort_key published cs) st2)) =
      map statusKey (rfStatuses st) @ map itemKey (map postKey (sort_key published cs))"
    using putAll_calm [OF nf2 fresh assms(5)] st by simp
  also have "map postKey (sort_key published cs) = sort_key (pubTime \<circ> snd) (map postKey cs)"
    unfolding pub by (rule map_sort_key)
  finally show ?thesis using refreshTick_calm [OF nf, of env] p cs by simp
qed

text \<open>
  C11. What a poll posts: on a database without faults, for every followed feed that was fetched
  exactly the items that are newer than the last status of its account, each once, all of them
  in the order of their times, items of one time in the order of the feeds.
\<close>

theorem refreshTick_effect:
  assumes "orderOK env" and "rfFaults st = []" and "distinct (map raID (rfAccounts st))"
    and "idsFresh env st" and "\<And>u. feTransport env u"
    and "\<forall>p \<in> set (pollRows env st). dated (fetchedItems env st p)"
  shows "\<exists>st'. refreshTick env st = Some st' \<and>
    map statusKey (rfStatuses st') = map statusKey (rfStatuses st) @
      map itemKey (sort_key (pubTime \<circ> snd) (concat (map (dueItems env st) (pollRows env st))))"
  by (rule poll_posts [OF assms])


subsection \<open>A second poll\<close>

lemma lastTweet_append:
  assumes "\<And>s. s \<in> set new \<Longrightarrow> fsAccountID s = i \<Longrightarrow> lastTweet i ss < fsCreatedAt s"
  shows "lastTweet i ss \<le> lastTweet i (ss @ new)"
proof (cases "filter (\<lambda>s. fsAccountID s = i) new = []")
  case True
  then show ?thesis by (simp add: lastTweet_def)
next
  case False
  then obtain s where s: "s \<in> set new" "fsAccountID s = i" by (auto simp: filter_empty_conv)
  from assms [OF s] lastTweet_ge [of s "ss @ new" i] s show ?thesis by simp
qed

lemma core_pollable: "core a = core b \<Longrightarrow> pollable fs a = pollable fs b"
  unfolding pollable_def by (metis core_simps(1,3-5))

text \<open>
  A poll settles: when the feeds serve no item that the poll before has not seen, the next poll
  posts nothing, whatever fails in it.
\<close>

theorem refreshTick_settles:
  assumes "orderOK env" and "rfFaults st = []" and "distinct (map raID (rfAccounts st))"
    and "idsFresh env st" and "\<And>u. feTransport env u"
    and "\<forall>p \<in> set (pollRows env st). dated (fetchedItems env st p)"
    and "refreshTick env st = Some st'" and "orderOK env'"
    and "\<And>a x. a \<in> set (rfAccounts st) \<Longrightarrow> served env' (raURL a) x \<Longrightarrow> x \<in> set (fetchedItems env st (toPollRow st a))"
    and "refreshTick env' st' = Some st''"
  shows "rfStatuses st'' = rfStatuses st'"
proof -
  let ?due = "concat (map (dueItems env st) (pollRows env st))"
  have keys: "map statusKey (rfStatuses st') = map statusKey (rfStatuses st) @ map itemKey (sort_key (pubTime \<circ> snd) ?due)"
    using poll_posts [OF assms(1-6)] assms(7) by auto
  obtain new where new: "rfStatuses st' = rfStatuses st @ new"
      "\<forall>s \<in> set new. lastTweet (fsAccountID s) (rfStatuses st) < fsCreatedAt s"
      "map core (rfAccounts st') = map core (rfAccounts st)" "rfFollows st' = rfFollows st"
    using poll_scope [OF assms(1,7)] by blast
  obtain new' where new': "rfStatuses st'' = rfStatuses st' @ new'"
      "\<forall>s \<in> set new'. (\<exists>a \<in> set (rfAccounts st'). raID a = fsAccountID s \<and> pollable (rfFollows st') a \<and>
        (\<exists>x. served env' (raURL a) x \<and> fiPublished x = Some (fsCreatedAt s) \<and> fiLink x = fsURL s)) \<and>
        lastTweet (fsAccountID s) (rfStatuses st') < fsCreatedAt s"
    using poll_scope [OF assms(8,10)] by blast
  have False if n: "s \<in> set new'" for s
  proof -
    let ?i = "fsAccountID s"
    obtain b x where b: "b \<in> set (rfAccounts st')" "raID b = ?i" "pollable (rfFollows st') b" "served env' (raURL b) x"
      "fiPublished x = Some (fsCreatedAt s)" and late: "lastTweet ?i (rfStatuses st') < fsCreatedAt s"
      using bspec [OF new'(2) n] by (elim conjE bexE exE) (rule that)
    obtain a where a: "a \<in> set (rfAccounts st)" "core a = core b"
      using b(1) new(3) by (metis imageE imageI list.set_map)
    have a': "raID a = ?i" "pollable (rfFollows st) a" "served env' (raURL a) x"
      using core_eqD [OF a(2)] core_pollable [OF a(2)] b new(4) by simp_all
    let ?p = "toPollRow st a"
    have p: "?p \<in> set (pollRows env st)" using assms(1) a(1) a'(2) by (simp add: pollRows_def orderOK_set)
    have x: "x \<in> set (fetchedItems env st ?p)" by (rule assms(9) [OF a(1) a'(3)])
    have pub: "pubTime x = fsCreatedAt s" using b(5) by (simp add: pubTime_def)
    show False
    proof (cases "tpLastTweet ?p < pubTime x")
      case True
      then have "x \<in> set (filter (\<lambda>x. tpLastTweet ?p < pubTime x) (fetchedItems env st ?p))" using x by simp
      then have "Pair (tpAccountID ?p) x \<in> set (dueItems env st ?p)" unfolding dueItems_def set_map by (rule imageI)
      moreover have "tpAccountID ?p = ?i" using a'(1) by (simp add: toPollRow_def)
      ultimately have "(?i, x) \<in> set (dueItems env st ?p)" by simp
      then have "(?i, x) \<in> set ?due" unfolding set_concat set_map using p by blast
      then have "(?i, x) \<in> set (sort_key (pubTime \<circ> snd) ?due)" by (simp only: set_sort)
      then have "itemKey (?i, x) \<in> set (map itemKey (sort_key (pubTime \<circ> snd) ?due))" unfolding set_map by (rule imageI)
      then have "itemKey (?i, x) \<in> set (map statusKey (rfStatuses st'))" unfolding keys set_append by (rule UnI2)
      then have "itemKey (?i, x) \<in> statusKey ` set (rfStatuses st')" unfolding set_map .
      then obtain t where t: "t \<in> set (rfStatuses st')" "itemKey (?i, x) = statusKey t" by (rule imageE)
      then have "fsAccountID t = ?i" "fsCreatedAt t = fsCreatedAt s" using pub by (simp_all add: statusKey_def itemKey_def)
      then show False using lastTweet_ge [OF t(1), of ?i] late by simp
    next
      case False
      then have "pubTime x \<le> lastTweet ?i (rfStatuses st)" using a'(1) by (simp add: toPollRow_def)
      also have "\<dots> \<le> lastTweet ?i (rfStatuses st')" unfolding new(1) by (rule lastTweet_append) (use new(2) in auto)
      finally show False using late pub by simp
    qed
  qed
  then have "new' = []" by (metis list.set_intros(1) neq_Nil_conv)
  then show ?thesis using new'(1) by simp
qed

subsection \<open>An example\<close>

definition exItem :: "string \<Rightarrow> time option \<Rightarrow> feed_item" where
  "exItem l t = \<lparr>fiLink = l, fiTitle = ''t'', fiDescription = ''d'', fiContent = [], fiPublished = t\<rparr>"

definition exFeed :: "feed_item list \<Rightarrow> feed" where
  "exFeed xs = \<lparr>fdTitle = ''Feed'', fdDescription = [], fdLink = ''https://a.com'', fdImage = None, fdItems = xs\<rparr>"

definition exURL :: "string \<Rightarrow> string \<Rightarrow> string \<Rightarrow> parsed_url" where
  "exURL host path q = \<lparr>puString = ''https://'' @ host @ path, puHostname = host, puPath = path, puRawQuery = q\<rparr>"

definition exFeedEnv :: "feed_item list \<Rightarrow> feed_env" where
  "exFeedEnv xs = \<lparr>feConfig = \<lparr>cfgHost = ''x.org'', cfgAccountDomain = ''x.org''\<rparr>, feProtocol = ''https'',
     feParseURL = (\<lambda>u. Some (exURL ''a.com'' ''/feed.xml'' [])), feFeedAt = (\<lambda>u. Some (exFeed xs)),
     feHtmlAt = (\<lambda>u. Some \<lparr>hdAtom = None, hdRss = None, hdDescription = None, hdIcons = []\<rparr>), feHash = (\<lambda>_. ''7''),
     feTransport = (\<lambda>_. True), feKeyOK = True, feAvatarOK = (\<lambda>_. True), fePassword = Some ''pw'', feNow = 50,
     feULID = (\<lambda>n. replicate (Suc n) CHR ''A''),
     feRespond = (\<lambda>_ _ _. Some \<lparr>hrStatus = 200, hrEtag = ''e'', hrLastModified = [], hrUncompressed = True, hrEncoding = [],
       hrBody = [], hrCloseError = False\<rparr>), feParseTime = (\<lambda>_. None), feGunzip = (\<lambda>_. None), feInflate = (\<lambda>s. s),
     feParse = (\<lambda>_. Some (exFeed xs)), feImages = (\<lambda>_. None), feFetchMedia = (\<lambda>as. as), feOrder = (\<lambda>ps. ps)\<rparr>"

definition emptyFeeds :: feed_state where
  "emptyFeeds = \<lparr>rfAccounts = [], rfFollows = [], rfStatuses = [], rfThreads = [], rfSettings = [], rfUsers = [], rfQueue = [],
     rfFaults = [], rfNext = 0\<rparr>"

text \<open>Somebody follows the account that a webfinger query has made.\<close>

definition exFeeds :: feed_state where
  "exFeeds = (snd (newUser (exFeedEnv []) ''a.com'' emptyFeeds))\<lparr>rfFollows := [(''me'', ''A'')]\<rparr>"

lemma exFeedEnv_simps [simp]: "orderOK (exFeedEnv xs)" "feTransport (exFeedEnv xs) u"
  by (simp_all add: orderOK_def exFeedEnv_def)

lemma exFeeds_simps: "rfFaults exFeeds = []" "rfStatuses exFeeds = []" "rfThreads exFeeds = []" "map raID (rfAccounts exFeeds) = [''A'']"
  by code_simp+

lemma exFeeds_fresh: "idsFresh (exFeedEnv xs) exFeeds"
proof -
  have "inj (\<lambda>n. replicate (Suc n) CHR ''A'')" by (rule injI) (metis length_replicate nat.inject)
  then show ?thesis by (simp add: idsFresh_def exFeeds_simps exFeedEnv_def)
qed

definition exTwo :: "feed_item list" where
  "exTwo = [exItem ''l1'' (Some 30), exItem ''l2'' (Some 20)]"

lemma exFeeds_rows: "map tpURL (pollRows (exFeedEnv exTwo) exFeeds) = [''https://a.com/feed.xml'']"
    "map (fetchedItems (exFeedEnv exTwo) exFeeds) (pollRows (exFeedEnv exTwo) exFeeds) = [exTwo]"
    "map (dueItems (exFeedEnv exTwo) exFeeds) (pollRows (exFeedEnv exTwo) exFeeds) = [map (Pair ''A'') exTwo]"
  by code_simp+

lemma exTwo_dated: "\<forall>p \<in> set (pollRows (exFeedEnv exTwo) exFeeds). dated (fetchedItems (exFeedEnv exTwo) exFeeds p)"
proof -
  have "list_all dated (map (fetchedItems (exFeedEnv exTwo) exFeeds) (pollRows (exFeedEnv exTwo) exFeeds))"
    unfolding exFeeds_rows by code_simp
  then show ?thesis by (simp add: list_all_iff)
qed

theorem refreshTick_effect_witness:
  "\<exists>st'. refreshTick (exFeedEnv exTwo) exFeeds = Some st' \<and> map statusKey (rfStatuses st') = [(''A'', ''l2'', 20), (''A'', ''l1'', 30)]"
proof -
  have "distinct (map raID (rfAccounts exFeeds))" by (simp add: exFeeds_simps)
  from refreshTick_effect [OF exFeedEnv_simps(1) exFeeds_simps(1) this exFeeds_fresh exFeedEnv_simps(2) exTwo_dated]
  obtain st' where "refreshTick (exFeedEnv exTwo) exFeeds = Some st'"
    "map statusKey (rfStatuses st') = map itemKey (sort_key (pubTime \<circ> snd) (map (Pair ''A'') exTwo))"
    by (auto simp: exFeeds_simps exFeeds_rows)
  moreover have "map itemKey (sort_key (pubTime \<circ> snd) (map (Pair ''A'') exTwo)) = [(''A'', ''l2'', 20), (''A'', ''l1'', 30)]"
    by code_simp
  ultimately show ?thesis by auto
qed

text \<open>The state after that poll.\<close>

definition exPolled :: feed_state where
  "exPolled = the (refreshTick (exFeedEnv exTwo) exFeeds)"

lemma exPolled_eq: "refreshTick (exFeedEnv exTwo) exFeeds = Some exPolled"
proof -
  have "\<not> Option.is_none (refreshTick (exFeedEnv exTwo) exFeeds)" by code_simp
  then show ?thesis unfolding exPolled_def by (cases "refreshTick (exFeedEnv exTwo) exFeeds") auto
qed


theorem refreshTick_panics_witness: "refreshTick (exFeedEnv [exItem ''l3'' None]) exFeeds = None"
proof -
  let ?env = "exFeedEnv [exItem ''l3'' None]"
  have d: "distinct (map raID (rfAccounts exFeeds))" by (simp add: exFeeds_simps)
  have "\<not> list_all (\<lambda>p. list_all (\<lambda>x. fiPublished x \<noteq> None) (fetchedItems ?env exFeeds p)) (pollRows ?env exFeeds)"
    by code_simp
  then have "\<exists>p \<in> set (pollRows ?env exFeeds). \<exists>x \<in> set (fetchedItems ?env exFeeds p). fiPublished x = None"
    by (simp add: list_all_iff)
  with refreshTick_panics [OF exFeedEnv_simps(1) exFeeds_simps(1) d] show ?thesis by blast
qed

lemma served_ex: "served (exFeedEnv xs) url x \<longleftrightarrow> x \<in> set xs"
  by (simp add: served_def parseURLWithCache_def exFeedEnv_def decodeBody_def exFeed_def)

lemma exFeeds_fetched: "a \<in> set (rfAccounts exFeeds) \<Longrightarrow> fetchedItems (exFeedEnv exTwo) exFeeds (toPollRow exFeeds a) = exTwo"
proof -
  have "map (\<lambda>a. fetchedItems (exFeedEnv exTwo) exFeeds (toPollRow exFeeds a)) (rfAccounts exFeeds) = [exTwo]" by code_simp
  then have "(\<lambda>a. fetchedItems (exFeedEnv exTwo) exFeeds (toPollRow exFeeds a)) ` set (rfAccounts exFeeds) = {exTwo}"
    by (metis list.set(1,2) list.set_map)
  then show "a \<in> set (rfAccounts exFeeds) \<Longrightarrow> ?thesis" by blast
qed

theorem refreshTick_settles_witness:
  "map statusKey (rfStatuses (the (refreshTick (exFeedEnv exTwo) exPolled))) = [(''A'', ''l2'', 20), (''A'', ''l1'', 30)]"
proof -
  let ?env = "exFeedEnv exTwo"
  have d: "distinct (map raID (rfAccounts exFeeds))" by (simp add: exFeeds_simps)
  have "\<not> Option.is_none (refreshTick ?env exPolled)" by code_simp
  then obtain st'' where st'': "refreshTick ?env exPolled = Some st''" by (cases "refreshTick ?env exPolled") auto
  have s: "x \<in> set (fetchedItems ?env exFeeds (toPollRow exFeeds a))"
    if "a \<in> set (rfAccounts exFeeds)" "served ?env (raURL a) x" for a x
    using that exFeeds_fetched served_ex by simp
  have "rfStatuses st'' = rfStatuses exPolled"
    by (rule refreshTick_settles [OF exFeedEnv_simps(1) exFeeds_simps(1) d exFeeds_fresh exFeedEnv_simps(2) exTwo_dated exPolled_eq
          exFeedEnv_simps(1) s st''])
  moreover have "map statusKey (rfStatuses exPolled) = [(''A'', ''l2'', 20), (''A'', ''l1'', 30)]" by code_simp
  ultimately show ?thesis using st'' by simp
qed

theorem feed_statuses_ordered_witness: "sorted (map fsCreatedAt (accountStatuses ''A'' exPolled)) \<and> length (rfStatuses exPolled) = 2"
proof
  have "feedReach exFeeds" by (rule feedReach.start) (simp add: exFeeds_simps)
  from feedReach.tick [OF this exFeedEnv_simps(1) exPolled_eq] show "sorted (map fsCreatedAt (accountStatuses ''A'' exPolled))"
    by (rule feed_statuses_ordered)
  show "length (rfStatuses exPolled) = 2" by code_simp
qed

subsection \<open>Items that are lost or come back\<close>

text \<open>An item of the future: what is published until then is not posted.\<close>

lemma future_item_hides:
  "let st = the (refreshTick (exFeedEnv [exItem ''l1'' (Some 99)]) exFeeds);
       st' = the (refreshTick (exFeedEnv [exItem ''l1'' (Some 99), exItem ''l3'' (Some 60)]) st)
   in map fsURL (rfStatuses st) = [''l1''] \<and> map fsURL (rfStatuses st') = [''l1'']"
  by code_simp

text \<open>An item whose insertion fails, when that of a newer one does not.\<close>

lemma failed_item_lost:
  "let st = the (refreshTick (exFeedEnv exTwo) (exFeeds\<lparr>rfFaults := [None, None, None, Some ''lost'']\<rparr>));
       st' = the (refreshTick (exFeedEnv exTwo) st)
   in map fsURL (rfStatuses st) = [''l1''] \<and> rfFaults st = [] \<and> map fsURL (rfStatuses st') = [''l1'']"
  by code_simp

text \<open>The newest status, deleted, is posted again.\<close>

lemma deleted_item_returns:
  "let st = exPolled\<lparr>rfStatuses := filter (\<lambda>s. fsURL s \<noteq> ''l1'') (rfStatuses exPolled)\<rparr>;
       st' = the (refreshTick (exFeedEnv exTwo) st)
   in map fsURL (rfStatuses st) = [''l2''] \<and> map fsURL (rfStatuses st') = [''l2'', ''l1'']"
  by code_simp

end
