(* ===== verification/FeedNames.thy ===== *)
theory FeedNames
  imports FeedProps
begin

text \<open>
  The names of the feeds' accounts: which names are made from the URL of a feed, whether the inbox of
  such an account is recognised, that a name leads back to its account, and what a new feed adds
  to the tables.
\<close>

subsection \<open>Cleaning a resource\<close>

lemma replaceFrom_skip: "replaceFrom m r i (length s) s = []"
  by (induction s arbitrary: i) auto

lemma dotMatch_refl [simp]: "dotMatch h h"
  by (simp add: dotMatch_def list.rel_refl)

lemma resourceAt_none: "0 < i \<or> \<not> prefix ''acct:'' (c # s) \<Longrightarrow> c \<noteq> CHR ''@'' \<Longrightarrow> resourceAt host i (c # s) = None"
  by (auto simp: resourceAt_def)

lemma replaceFrom_resource:
  "CHR ''@'' \<notin> set n \<Longrightarrow> 0 < i \<Longrightarrow>
    replaceFrom (resourceAt host) [] i 0 (n @ s) = n @ replaceFrom (resourceAt host) [] (i + length n) 0 s"
proof (induction n arbitrary: i)
  case (Cons c n)
  then have "c \<noteq> CHR ''@''" by auto
  then have "resourceAt host i (c # n @ s) = None" using Cons.prems(2) by (intro resourceAt_none) auto
  then show ?case using Cons.IH [of "Suc i"] Cons.prems by simp
qed simp

lemma replaceFrom_host: "0 < i \<Longrightarrow> replaceFrom (resourceAt host) [] i 0 (CHR ''@'' # host) = []"
  using replaceFrom_skip by (simp add: resourceAt_def)

text \<open>The three ways to write the name of an account of this server.\<close>

lemma cleanResource_name:
  assumes "usernameRelaxed n"
  shows "cleanResource host n = n" and "cleanResource host (''@'' @ n @ ''@'' @ host) = n"
    and "cleanResource host (''acct:'' @ n @ ''@'' @ host) = n"
proof -
  have ch: "c \<noteq> CHR ''@'' \<and> c \<noteq> CHR '':''" if "c \<in> set n" for c
  proof -
    have "userChar c" using that assms by (simp add: usernameRelaxed_def list_all_iff)
    then show ?thesis by (auto simp: userChar_def lowerChar_def digitClass_def less_eq_char_def)
  qed
  have at: "CHR ''@'' \<notin> set n" and colon: "CHR '':'' \<notin> set n" using ch by auto
  obtain c m where n: "n = c # m" using assms by (cases n) (auto simp: usernameRelaxed_def)
  have "\<not> prefix ''acct:'' n" using colon by (auto simp: prefix_def)
  then have "resourceAt host 0 n = None" using n ch [of c] by (intro resourceAt_none [of 0 c m host, folded n]) auto
  then show "cleanResource host n = n"
    using replaceFrom_resource [of m 1 host "[]"] at n by (simp add: cleanResource_def replaceAll_def)
  have tail: "replaceFrom (resourceAt host) [] i 0 (n @ CHR ''@'' # host) = n" if "0 < i" for i
    using replaceFrom_resource [OF at that, of host "CHR ''@'' # host"] replaceFrom_host [of "i + length n" host] that by simp
  have "resourceAt host 0 (CHR ''@'' # n @ CHR ''@'' # host) = Some (Suc 0)" by (simp add: resourceAt_def)
  then show "cleanResource host (''@'' @ n @ ''@'' @ host) = n"
    using tail [of 1] by (simp add: cleanResource_def replaceAll_def)
  have "resourceAt host 0 (''acct:'' @ n @ CHR ''@'' # host) = Some (Suc (Suc (Suc (Suc (Suc 0)))))" by (simp add: resourceAt_def)
  then show "cleanResource host (''acct:'' @ n @ ''@'' @ host) = n"
    using tail [of 5] by (simp add: cleanResource_def replaceAll_def numeral_eq_Suc)
qed

lemma toLowerC_user: "userChar c \<Longrightarrow> toLowerC c = c"
  by (auto simp: userChar_def lowerChar_def digitClass_def toLowerC_def isUpperC_def less_eq_char_def)

lemma toLower_user: "list_all userChar s \<Longrightarrow> toLower s = s"
  by (induction s) (simp_all add: toLower_def toLowerC_user)

subsection \<open>A name leads back\<close>

definition named :: "string \<Rightarrow> feed_state \<Rightarrow> bool" where
  "named n st \<longleftrightarrow> list_ex (\<lambda>a. raUsername a = n \<and> raDomain a = None) (rfAccounts st)"

lemma available_taken: "isUsernameAvailable u st = ((False, e), st1) \<Longrightarrow> e = None \<and> named u st1"
  by (auto simp: isUsernameAvailable_def named_def split: prod.splits option.splits)

lemma putInto_keeps:
  assumes "putInto keys get store v st = (e, st')" and "\<And>rows s. rfAccounts (store rows s) = rfAccounts s"
  shows "rfAccounts st' = rfAccounts st"
proof -
  obtain e1 st1 where d: "dbFault st = (e1, st1)" by fastforce
  have "rfAccounts st1 = rfAccounts st" by (simp add: dbFault_rows [OF d])
  then show ?thesis using assms d by (cases e1) (auto simp: putInto_def split: prod.splits)
qed

lemma putAccount_adds:
  assumes "putAccount a st = (e, st')"
  shows "rfAccounts st' = rfAccounts st @ (if e = None then [a] else [])"
proof -
  obtain e1 st1 where d: "dbFault st = (e1, st1)" by fastforce
  have 1: "rfAccounts st1 = rfAccounts st" by (simp add: dbFault_rows [OF d])
  show ?thesis
  proof (cases e1)
    case None
    then show ?thesis
      using assms d 1 by (auto simp: putAccount_def putInto_def putRow_def split: prod.splits if_splits)
  next
    case (Some x)
    then show ?thesis using assms d 1 by (auto simp: putAccount_def putInto_def)
  qed
qed

lemma newRssFeed_known:
  assumes "newRssFeed env r st = ((n, f, e), st')"
  shows "e = None \<Longrightarrow> n \<noteq> [] \<Longrightarrow> named n st'" and "f = Some x \<Longrightarrow> n = [] \<and> e = None"
proof -
  let ?cleaned = "cleanResource (cfgHost (feConfig env)) r"
  obtain av err st1 where a: "(if prefix ''http'' ?cleaned then ((True, None), st) else isUsernameAvailable (toLower ?cleaned) st) = ((av, err), st1)"
    by (metis prod.exhaust)
  have "(e = None \<longrightarrow> n \<noteq> [] \<longrightarrow> named n st') \<and> (f = Some x \<longrightarrow> n = [] \<and> e = None)"
  proof (cases av)
    case False
    then have "isUsernameAvailable (toLower ?cleaned) st = ((False, err), st1)" using a by (auto split: if_splits)
    from available_taken [OF this] show ?thesis using assms a False by (auto simp: newRssFeed_def Let_def)
  next
    case True
    show ?thesis
    proof (cases "findFeed env (if prefix ''http'' ?cleaned then ?cleaned else ''https://'' @ ?cleaned)")
      case (Inl err2)
      then have "n = []" "f = None" "e = Some err2" using assms a True by (simp_all add: newRssFeed_def Let_def)
      then show ?thesis by simp
    next
      case (Inr found)
      obtain baseURL doc feedURL fd where found: "found = (baseURL, doc, feedURL, fd)" by (cases found)
      let ?name = "feedUsername (feHash env) feedURL"
      obtain av2 err2 st2 where b: "isUsernameAvailable ?name st1 = ((av2, err2), st2)" by (metis prod.exhaust)
      show ?thesis
      proof (cases av2)
        case False
        then have "n = ?name" "f = None" "st' = st2" using assms a True Inr found b by (simp_all add: newRssFeed_def Let_def)
        then show ?thesis using available_taken b False by simp
      next
        case True2: True
        then have "n = []" "e = None" using assms a True Inr found b by (simp_all add: newRssFeed_def Let_def)
        then show ?thesis by simp
      qed
    qed
  qed
  then show "e = None \<Longrightarrow> n \<noteq> [] \<Longrightarrow> named n st'" and "f = Some x \<Longrightarrow> n = [] \<and> e = None" by blast+
qed

lemma createUser_known:
  assumes "createUser env r st = ((n, None), st')"
  shows "n = rsDbUsername r" and "\<exists>i. rfAccounts st' = rfAccounts st @ [feedAccount env i r]"
proof -
  obtain i st1 where u: "newULID env st = (i, st1)" by fastforce
  have 1: "rfAccounts st1 = rfAccounts st" using u by (auto simp: newULID_def)
  let ?a = "feedAccount env i r"
  obtain e2 st2 where 2: "putAccountSettings (i, VisPublic) st1 = (e2, st2)" by fastforce
  have s2: "rfAccounts st2 = rfAccounts st" using putInto_keeps 2 1 unfolding putAccountSettings_def by fastforce
  obtain e3 st3 where 3: "putAccount ?a st2 = (e3, st3)" by fastforce
  note s3 = putAccount_adds [OF 3]
  obtain pw st4 where ok: "e2 = None" "e3 = None" "putUser (feedUser env ?a pw) st3 = (None, st4)" "n = rsDbUsername r" "st' = st4"
    using assms u 2 3 by (auto simp: createUser_def Let_def split: if_splits option.splits prod.splits)
  have "rfAccounts st4 = rfAccounts st3" using putInto_keeps ok(3) unfolding putUser_def by fastforce
  then show "n = rsDbUsername r" and "\<exists>i. rfAccounts st' = rfAccounts st @ [feedAccount env i r]"
    using ok s2 s3 by auto
qed

lemma newUser_known:
  assumes "newUser env r st = ((n, None), st')" and "n \<noteq> []"
  shows "named n st'"
proof -
  obtain n1 f e1 st1 where a: "newRssFeed env r st = ((n1, f, e1), st1)" by (metis prod.exhaust)
  show ?thesis
  proof (cases "n1 = [] \<and> e1 = None")
    case False
    then have "n = n1" "e1 = None" "st' = st1" using assms(1) a by (auto simp: newUser_def)
    then show ?thesis using newRssFeed_known(1) [OF a] assms(2) by simp
  next
    case True
    then obtain x where x: "f = Some x" "createUser env x st1 = ((n, None), st')"
      using assms(1) a by (auto simp: newUser_def split: option.splits)
    from createUser_known [OF x(2)] show ?thesis by (auto simp: named_def feedAccount_def Let_def)
  qed
qed

lemma newUser_there:
  assumes "named n st" and "rfFaults st = []" and "cleanResource (cfgHost (feConfig env)) r = c" and "toLower c = n"
    and "\<not> prefix ''http'' c" and "n \<noteq> []"
  shows "newUser env r st = ((n, None), st)"
proof -
  have "isUsernameAvailable n st = ((False, None), st)"
    using assms(1,2) by (simp add: isUsernameAvailable_def dbFault_calm named_def)
  then have "newRssFeed env r st = ((n, None, None), st)" using assms(3-5) by (simp add: newRssFeed_def)
  then show ?thesis using assms(6) by (simp add: newUser_def)
qed



subsection \<open>Names and inboxes\<close>

lemma matchPath_anyUser:
  "matchPath inboxPath (''/users/'' @ n @ ''/inbox'') = (if usernameRelaxed n then Some [n] else None)"
proof (cases "usernameRelaxed n")
  case True
  then show ?thesis using matchPath_userPath(2) [OF True, of "''/inbox''" "''inbox''"] by (simp add: inboxPath_def)
next
  case False
  let ?s = "n @ ''/inbox''"
  have "tryTake (matchPath [Lit ''/inbox'']) ?s (length (takeWhile userChar ?s)) = None"
  proof (rule tryTake_None)
    fix k assume k: "0 < k" "k \<le> length (takeWhile userChar ?s)"
    show "matchPath [Lit ''/inbox''] (drop k ?s) = None"
    proof (rule ccontr)
      assume "matchPath [Lit ''/inbox''] (drop k ?s) \<noteq> None"
      then have d: "drop k ?s = ''/inbox''" unfolding matchPath_one_Lit by (metis (full_types))
      then have "take k ?s @ ''/inbox'' = ?s" by (metis append_take_drop_id)
      then have n: "take k ?s = n" by simp
      have "take k ?s = take k (takeWhile userChar ?s)" using k(2)
        by (metis append_take_drop_id takeWhile_eq_take take_take min.absorb1)
      then have "list_all userChar n" using n by (metis in_set_takeD list_all_iff set_takeWhileD)
      moreover have "n \<noteq> []" using n k(1) by auto
      ultimately show False using False by (simp add: usernameRelaxed_def)
    qed
  qed
  then have "matchPath (CapSome userChar # [Lit ''/inbox'']) ?s = None" by simp
  moreover have "matchPath inboxPath (''/users/'' @ ?s) = matchPath (Lit ''users/'' # CapSome userChar # [Lit ''/inbox'']) (''users/'' @ ?s)"
    using matchPath_slash [of "Lit ''users/'' # CapSome userChar # [Lit ''/inbox'']" "''users/'' @ ?s"]
    by (simp add: inboxPath_def under_def userPathPrefix_def)
  ultimately show ?thesis using False by (simp only: matchPath_Lit if_False)
qed

lemma cleanHost: "replaceAll cleanHostAt [] s = (if prefix ''www.'' s then drop 4 s else s)"
proof -
  have idle: "replaceFrom cleanHostAt [] i 0 s = s" if "0 < i" for i s
    using that by (induction s arbitrary: i) (simp_all add: cleanHostAt_def)
  show ?thesis
  proof (cases "prefix ''www.'' s")
    case True
    then obtain t where "s = ''www.'' @ t" by (auto simp: prefix_def)
    then show ?thesis using idle by (simp add: replaceAll_def cleanHostAt_def numeral_eq_Suc)
  next
    case False
    then show ?thesis using idle by (cases s) (auto simp: replaceAll_def cleanHostAt_def)
  qed
qed

lemma mastoChars: "replaceAll mastoCharsAt ''.'' s = map (\<lambda>c. if userChar c then c else CHR ''.'') s"
proof -
  have "replaceFrom mastoCharsAt ''.'' i 0 s = map (\<lambda>c. if userChar c then c else CHR ''.'') s" for i
    by (induction s arbitrary: i) (simp_all add: mastoCharsAt_def)
  then show ?thesis by (simp add: replaceAll_def)
qed

definition strippedHost :: "string \<Rightarrow> string" where
  "strippedHost h = (if prefix ''www.'' h then drop 4 h else h)"

lemma userChar_lower: "userChar c \<Longrightarrow> userChar (toLowerC c)"
  by (simp add: toLowerC_user)

text \<open>Only the host can bring other characters into a name.\<close>

lemma feedUsername_chars:
  assumes "\<And>p. list_all userChar (hash p)"
  shows "\<exists>rest. feedUsername hash u = toLower (strippedHost (puHostname u)) @ rest \<and> list_all userChar rest"
proof -
  have dot: "userChar CHR ''.''" by (simp add: userChar_def)
  have m: "list_all userChar (map (\<lambda>c. if userChar c then c else CHR ''.'') s)" for s
    using dot by (induction s) auto
  have "toLower (CHR ''.'' # hash p) = CHR ''.'' # hash p" for p by (rule toLower_user) (use assms dot in simp)
  moreover have "toLower (a @ b) = toLower a @ toLower b" for a b by (simp add: toLower_def)
  ultimately show ?thesis
    unfolding feedUsername_def Let_def cleanHost mastoChars strippedHost_def [symmetric]
    using toLower_user [OF m] m assms dot by auto
qed

lemma isUpper_toLower: "isUpperC c \<Longrightarrow> userChar (toLowerC c)"
  by (simp add: isUpperC_def toLowerC_def userChar_def lowerChar_def less_eq_char_def)

lemma toLowerC_plain: "c \<noteq> CHR ''?'' \<and> c \<noteq> CHR ''#'' \<Longrightarrow> toLowerC c \<noteq> CHR ''?'' \<and> toLowerC c \<noteq> CHR ''#''"
proof -
  have "isUpperC c \<Longrightarrow> toLowerC c \<noteq> CHR ''?'' \<and> toLowerC c \<noteq> CHR ''#''"
    by (metis isUpper_toLower userChar_plain)
  then show ?thesis if "c \<noteq> CHR ''?'' \<and> c \<noteq> CHR ''#''" using that by (cases "isUpperC c") (auto simp: toLowerC_def)
qed

lemma newRssFeed_name: "newRssFeed env res st = ((n, Some r, e), st') \<Longrightarrow> rsDbUsername r = feedUsername (feHash env) (rsFeedURL r)"
  unfolding newRssFeed_def Let_def by (auto split: if_splits prod.splits sum.splits)

text \<open>
  C15. Who can be delivered to: the inbox that is announced for the account of a new feed is recognised
  as that account's by the server itself exactly when the host of the feed, without a leading
  \<open>www.\<close>, has letters, digits, dots and underscores only. For a host with a hyphen it is not: posts to
  that inbox, follow requests among them, fail.
\<close>

theorem feed_inbox_recognised:
  assumes "newRssFeed env res st = ((n, Some r, e), st')" and "\<And>p. list_all userChar (feHash env p)"
    and "plainHost (feProtocol env) (feConfig env)" and "strippedHost (puHostname (rsFeedURL r)) \<noteq> []"
    and "set (puHostname (rsFeedURL r)) \<inter> {CHR ''?'', CHR ''#'', CHR ''%''} = {}"
  shows "parseInboxPath (urlPath (raInboxURI (feedAccount env i r))) =
    (if list_all (\<lambda>c. userChar (toLowerC c)) (strippedHost (puHostname (rsFeedURL r))) then Some (raUsername (feedAccount env i r)) else None)"
proof -
  let ?h = "strippedHost (puHostname (rsFeedURL r))" and ?n = "rsDbUsername r"
  obtain rest where n: "?n = toLower ?h @ rest" and rest: "list_all userChar rest"
    using feedUsername_chars [of "feHash env" "rsFeedURL r"] assms(2) newRssFeed_name [OF assms(1)] by auto
  have "set ?h \<subseteq> set (puHostname (rsFeedURL r))" by (auto simp: strippedHost_def dest: in_set_dropD)
  then have h: "c \<noteq> CHR ''?'' \<and> c \<noteq> CHR ''#''" if "c \<in> set ?h" for c using that assms(5) by auto
  have "c \<noteq> CHR ''?'' \<and> c \<noteq> CHR ''#''" if "c \<in> set ?n" for c
  proof (cases "c \<in> set rest")
    case True
    then show ?thesis using rest by (auto simp: list_all_iff dest: userChar_plain)
  next
    case False
    then have "c \<in> toLowerC ` set ?h" using that by (simp add: n toLower_def)
    then show ?thesis using h toLowerC_plain by (elim imageE) simp
  qed
  then have "set (''users/'' @ ?n @ ''/inbox'') \<inter> {CHR ''?'', CHR ''#''} = {}" by auto
  then have "urlPath (feProtocol env @ ''://'' @ cfgHost (feConfig env) @ ''/'' @ ''users/'' @ ?n @ ''/inbox'') = ''/'' @ ''users/'' @ ?n @ ''/inbox''"
    using assms(3) by (intro urlPath_build) (auto simp: plainHost_def list_all_iff)
  moreover have "raInboxURI (feedAccount env i r) = feProtocol env @ ''://'' @ cfgHost (feConfig env) @ ''/'' @ ''users/'' @ ?n @ ''/inbox''"
    by (simp add: feedAccount_def generateURIsForAccount_def hostURL_def Let_def)
  ultimately have path: "urlPath (raInboxURI (feedAccount env i r)) = ''/users/'' @ ?n @ ''/inbox''" by simp
  have "usernameRelaxed ?n = list_all (\<lambda>c. userChar (toLowerC c)) ?h"
    using assms(4) rest by (simp add: usernameRelaxed_def n toLower_def list.pred_map comp_def)
  moreover have "raUsername (feedAccount env i r) = ?n" by (simp add: feedAccount_def Let_def)
  ultimately show ?thesis unfolding path parseInboxPath_def matchPath_anyUser by (simp add: oneGroup_def)
qed

text \<open>An environment in which every URL is that of the feed of a host.\<close>

definition hostEnv :: "string \<Rightarrow> string \<Rightarrow> feed_env" where
  "hostEnv host path = (exFeedEnv [])\<lparr>feParseURL := (\<lambda>_. Some (exURL host path []))\<rparr>"

definition hostFeed :: "string \<Rightarrow> rss_feed" where
  "hostFeed host = the (fst (snd (fst (newRssFeed (hostEnv host ''/feed.xml'') host emptyFeeds))))"

lemma hostFeed_found:
  "newRssFeed (hostEnv ''my-blog.com'' ''/feed.xml'') ''my-blog.com'' emptyFeeds = (([], Some (hostFeed ''my-blog.com''), None), emptyFeeds)"
  by code_simp

theorem feed_inbox_recognised_witness:
  "parseInboxPath (urlPath (raInboxURI (feedAccount (hostEnv ''my-blog.com'' ''/feed.xml'') ''A'' (hostFeed ''my-blog.com'')))) = None"
proof -
  let ?env = "hostEnv ''my-blog.com'' ''/feed.xml''" and ?r = "hostFeed ''my-blog.com''"
  have h: "puHostname (rsFeedURL ?r) = ''my-blog.com''" by code_simp
  have bad: "\<not> list_all (\<lambda>c. userChar (toLowerC c)) (strippedHost ''my-blog.com'')" by code_simp
  have "list_all userChar (feHash ?env p)" for p
    by (simp add: hostEnv_def exFeedEnv_def userChar_def digitClass_def less_eq_char_def)
  moreover have "plainHost (feProtocol ?env) (feConfig ?env)" by code_simp
  moreover have "strippedHost (puHostname (rsFeedURL ?r)) \<noteq> []" unfolding h by code_simp
  moreover have "set (puHostname (rsFeedURL ?r)) \<inter> {CHR ''?'', CHR ''#'', CHR ''%''} = {}" unfolding h by simp
  ultimately have "parseInboxPath (urlPath (raInboxURI (feedAccount ?env ''A'' ?r))) =
      (if list_all (\<lambda>c. userChar (toLowerC c)) (strippedHost (puHostname (rsFeedURL ?r))) then Some (raUsername (feedAccount ?env ''A'' ?r)) else None)"
    by (rule feed_inbox_recognised [OF hostFeed_found])
  then show ?thesis unfolding h using bad by (simp only: if_False)
qed

subsection \<open>What a query creates\<close>

text \<open>What a new account is.\<close>

definition freshFeedAccount :: "feed_env \<Rightarrow> string \<Rightarrow> feed_account \<Rightarrow> bool" where
  "freshFeedAccount env n a \<longleftrightarrow>
     raUsername a = n \<and> raDomain a = None \<and> raBot a \<and> \<not> raLocked a \<and> raActorType a = ''Person'' \<and>
     raFields a = [] \<and> raFetchedAt a = 0 \<and> raURI a = uuUserURI (generateURIsForAccount (feProtocol env) (feConfig env) n)"

lemma putInto_ok:
  assumes "putInto keys get store v st = (None, st')" and "rfFaults st = []"
  shows "st' = store (get st @ [v]) st"
  using assms by (auto simp: putInto_def putRow_def dbFault_calm split: if_splits)

lemma createUser_calm:
  assumes "createUser env r st = ((n, None), st')" and "rfFaults st = []"
  defines "i \<equiv> feULID env (rfNext st)"
  shows "\<exists>pw. st' = st\<lparr>rfNext := Suc (rfNext st), rfSettings := rfSettings st @ [(i, VisPublic)],
       rfAccounts := rfAccounts st @ [feedAccount env i r], rfUsers := rfUsers st @ [feedUser env (feedAccount env i r) pw]\<rparr>"
proof -
  let ?a = "feedAccount env i r" and ?st1 = "st\<lparr>rfNext := Suc (rfNext st)\<rparr>"
  have u: "newULID env st = (i, ?st1)" by (simp add: newULID_def i_def)
  obtain st2 st3 pw st4 where 2: "putAccountSettings (i, VisPublic) ?st1 = (None, st2)" and 3: "putAccount ?a st2 = (None, st3)"
    and 4: "putUser (feedUser env ?a pw) st3 = (None, st4)" and end_: "st' = st4"
    using assms(1) u by (auto simp: createUser_def Let_def split: if_splits option.splits prod.splits)
  have s2: "st2 = ?st1\<lparr>rfSettings := rfSettings st @ [(i, VisPublic)]\<rparr>"
    using putInto_ok [OF 2 [unfolded putAccountSettings_def]] assms(2) by simp
  have s3: "st3 = st2\<lparr>rfAccounts := rfAccounts st @ [?a]\<rparr>"
    using putInto_ok [OF 3 [unfolded putAccount_def]] assms(2) s2 by simp
  have "st4 = st3\<lparr>rfUsers := rfUsers st @ [feedUser env ?a pw]\<rparr>"
    using putInto_ok [OF 4 [unfolded putUser_def]] assms(2) s2 s3 by simp
  then show ?thesis using s2 s3 end_ by auto
qed

lemma newRssFeed_calm:
  assumes "newRssFeed env res st = ((n, f, e), st')" and "rfFaults st = []"
  shows "st' = st" and "f = Some r \<Longrightarrow> \<not> named (rsDbUsername r) st"
proof -
  have av: "isUsernameAvailable u st = ((\<not> named u st, None), st)" for u
    using assms(2) by (simp add: isUsernameAvailable_def dbFault_calm named_def)
  show "st' = st"
    using assms(1) by (auto simp: newRssFeed_def Let_def av split: if_splits sum.splits)
  show "f = Some r \<Longrightarrow> \<not> named (rsDbUsername r) st"
    using assms(1) by (auto simp: newRssFeed_def Let_def av split: if_splits sum.splits)
qed

text \<open>
  What a query leaves, on a database without faults. When it is answered with a name, either a
  local account has that name and nothing has changed, or none had it, and exactly one account has
  been added with its settings and its user: local, a bot, not locked, and polled for as soon as
  somebody follows it. Accounts, statuses, follows and queue are otherwise as before.
\<close>

theorem newUser_creates:
  assumes "newUser env res st = ((n, None), st')" and "rfFaults st = []"
  shows "(named n st \<and> st' = st) \<or>
    (\<not> named n st \<and> (\<exists>a pw. freshFeedAccount env n a \<and> (\<forall>f. pollable ((f, raID a) # rfFollows st) a) \<and>
      st' = st\<lparr>rfNext := Suc (rfNext st), rfSettings := rfSettings st @ [(raID a, VisPublic)], rfAccounts := rfAccounts st @ [a],
        rfUsers := rfUsers st @ [feedUser env a pw]\<rparr>))"
proof -
  obtain n1 f e1 st1 where a: "newRssFeed env res st = ((n1, f, e1), st1)" by (metis prod.exhaust)
  note st1 = newRssFeed_calm(1) [OF a assms(2)]
  show ?thesis
  proof (cases "n1 = [] \<and> e1 = None")
    case False
    then have "n = n1" "e1 = None" "st' = st1" using assms(1) a by (auto simp: newUser_def)
    then show ?thesis using newRssFeed_known(1) [OF a] False st1 by simp
  next
    case True
    then obtain r where r: "f = Some r" "createUser env r st = ((n, None), st')"
      using assms(1) a st1 by (auto simp: newUser_def split: option.splits)
    have n: "n = rsDbUsername r" by (rule createUser_known(1) [OF r(2)])
    let ?a = "feedAccount env (feULID env (rfNext st)) r"
    obtain pw where st': "st' = st\<lparr>rfNext := Suc (rfNext st), rfSettings := rfSettings st @ [(raID ?a, VisPublic)],
        rfAccounts := rfAccounts st @ [?a], rfUsers := rfUsers st @ [feedUser env ?a pw]\<rparr>"
      using createUser_calm [OF r(2) assms(2)] by (auto simp: feedAccount_def Let_def)
    have "freshFeedAccount env n ?a" by (simp add: freshFeedAccount_def feedAccount_def n Let_def)
    moreover have "pollable ((x, raID ?a) # rfFollows st) ?a" for x by (simp add: pollable_def feedAccount_def Let_def)
    moreover have "\<not> named n st" using newRssFeed_calm(2) [OF a assms(2) r(1)] n by simp
    ultimately show ?thesis using st' by blast
  qed
qed

theorem newUser_creates_witness:
  "named ''a.com.feed'' emptyFeeds \<or> length (rfAccounts (snd (newUser (exFeedEnv []) ''a.com'' emptyFeeds))) = 1"
proof -
  have "fst (newUser (exFeedEnv []) ''a.com'' emptyFeeds) = (''a.com.feed'', None)" by code_simp
  then have "newUser (exFeedEnv []) ''a.com'' emptyFeeds = ((''a.com.feed'', None), snd (newUser (exFeedEnv []) ''a.com'' emptyFeeds))"
    by (metis prod.collapse)
  moreover have "rfFaults emptyFeeds = []" "rfAccounts emptyFeeds = []" by (simp_all add: emptyFeeds_def)
  ultimately show ?thesis using newUser_creates [of "exFeedEnv []" "''a.com''" emptyFeeds "''a.com.feed''"] by fastforce
qed

subsection \<open>Names that collide, and names that are not found\<close>

text \<open>
  Characters outside the class are replaced before letters are lowered, so that all upper-case letters
  fall together; an absolute link to the feed is put behind the host; and a name that begins with
  \<open>http\<close> is taken for a URL, even if an account has it.
\<close>

lemma names_collide:
  "feedUsername h (exURL ''a.com'' ''/Feed'' []) = feedUsername h (exURL ''a.com'' ''/Seed'' [])"
  "feedUsername h (exURL ''a.com'' ''/a-b'' []) = feedUsername h (exURL ''a.com'' ''/a/b'' [])"
  by code_simp+

lemma http_name_not_found:
  "fst (newUser ((hostEnv ''httpbin.org'' ''/feed'')\<lparr>feFeedAt := (\<lambda>_. None), feHtmlAt := (\<lambda>_. None)\<rparr>) ''acct:httpbin.org.feed@x.org''
     (snd (newUser (hostEnv ''httpbin.org'' ''/feed'') ''httpbin.org/feed'' emptyFeeds))) = ([], Some NoDocument)"
  by code_simp

end
