(* ===== verification/Delivery.thy ===== *)
theory Delivery
  imports Queues
begin

text \<open>
  Deliveries to other servers: the requests that \<open>src/internal/transport/deliver.go\<close> prepares, the HTTP
  client with its retries (\<open>src/internal/httpclient\<close>), and the workers of
  \<open>src/internal/transport/delivery\<close>, which take new requests from an indexed queue and keep those
  to be retried in a backlog of their own.

  What the network answers is an argument of the step that sends. A worker is a program counter;
  between two steps others run, time passes, and the cache of bad hosts forgets.
\<close>

subsection \<open>The client\<close>

text \<open>Errors of \<open>http.Client.Do\<close>; the text of those that are not wrapped is searched.\<close>

datatype transport_error = DeadlineExceeded | Canceled | BodyTooLarge | ReservedAddr | DNSNotFound | OtherText string

definition fatalError :: "transport_error \<Rightarrow> bool" where
  "fatalError e =
     (case e of
        OtherText s \<Rightarrow> contains ''stopped after 10 redirects'' s \<or> contains ''tls: '' s \<or> contains ''x509: '' s
      | _ \<Rightarrow> True)"

text \<open>
  A response: its status, the header \<open>Retry-After\<close> with what \<open>ParseUint\<close> and \<open>ParseTime\<close> make of it,
  zero on an error, and whether its length is above the limit.
\<close>

record http_answer =
  haStatus :: nat
  haRetryAfter :: string
  haSeconds :: nat
  haDate :: time
  haTooLarge :: bool

type_synonym http_outcome = "transport_error + http_answer"

record http_request =
  hqHost :: string
  hqBackoff :: int
  hqAttempts :: nat

definition baseBackoff :: int where
  "baseBackoff = 2 * second"

definition maxRetries :: nat where
  "maxRetries = 5"

definition backOff :: "http_request \<Rightarrow> int \<times> http_request" where
  "backOff r =
     (if hqBackoff r \<le> 0 then
        (let b = wrap64 (baseBackoff * 2 ^ (hqAttempts r + 1)) in (b, r\<lparr>hqBackoff := b\<rparr>))
      else (hqBackoff r, r))"

definition retryAfter :: "time \<Rightarrow> http_answer \<Rightarrow> int \<Rightarrow> int" where
  "retryAfter now a b =
     (if haRetryAfter a = [] then b
      else
        (let b' = (if haSeconds a \<noteq> 0 then int (haSeconds a) * second
               else if now \<le> haDate a then haDate a - now
               else b);
             most = baseBackoff * int maxRetries
         in if most < b' then most else b'))"

text \<open>\<open>do\<close>: whether there is a response, and whether the request may be retried.\<close>

definition clientDo :: "time \<Rightarrow> http_outcome \<Rightarrow> http_request \<Rightarrow> (bool \<times> bool) \<times> http_request" where
  "clientDo now out r =
     (case out of
        Inl e \<Rightarrow> ((False, \<not> fatalError e), r)
      | Inr a \<Rightarrow>
          if 500 \<le> haStatus a \<or> haStatus a = 429 then ((False, True), r\<lparr>hqBackoff := retryAfter now a (hqBackoff r)\<rparr>)
          else if haTooLarge a then ((False, False), r)
          else ((True, True), r))"

definition doOnce :: "time \<Rightarrow> http_outcome \<Rightarrow> string list \<Rightarrow> http_request \<Rightarrow> (bool \<times> bool) \<times> string list \<times> http_request" where
  "doOnce now out bad r =
     (if maxRetries < hqAttempts r then ((False, False), bad, r)
      else
        (case clientDo now out (r\<lparr>hqAttempts := Suc (hqAttempts r), hqBackoff := 0\<rparr>) of
           ((rsp, retry), r') \<Rightarrow>
             if rsp then ((True, retry), bad, r')
             else if \<not> retry then ((False, False), bad, r'\<lparr>hqAttempts := Suc maxRetries\<rparr>)
             else if maxRetries < hqAttempts r' then ((False, False), hqHost r' # bad, r')
             else if hqHost r' \<in> set bad then ((False, False), bad, r'\<lparr>hqAttempts := Suc maxRetries\<rparr>)
             else ((False, True), bad, r')))"

subsection \<open>Preparing deliveries\<close>

text \<open>A delivery; \<open>dlKey\<close> tells it from others, for the statements only.\<close>

record delivery =
  dlKey :: nat
  dlActorID :: string
  dlObjectID :: string
  dlTargetID :: string
  dlRequest :: http_request
  dlNext :: time

text \<open>A field of a serialised activity: its value, or the \<open>id\<close> of its object, if that is a string.\<close>

datatype json_ref = JString string | JObject "string option" | JOther

definition jsonID :: "json_ref \<Rightarrow> string" where
  "jsonID j = (case j of JString s \<Rightarrow> s | JObject (Some s) \<Rightarrow> s | _ \<Rightarrow> [])"

record json_activity =
  jaActor :: json_ref
  jaObject :: json_ref
  jaTarget :: json_ref

record recipient =
  rcHost :: string
  rcURL :: string

text \<open>
  \<open>prepare\<close>: \<open>valid\<close> is whether the request to a URL can be made and passes \<open>ValidateRequest\<close>. That the
  activity can be marshalled as JSON, and the body and its signature, are left out.
\<close>

definition prepareDelivery :: "(string \<Rightarrow> bool) \<Rightarrow> json_activity \<Rightarrow> recipient \<Rightarrow> delivery option" where
  "prepareDelivery valid act to =
     (if valid (rcURL to) then
        Some \<lparr>dlKey = 0, dlActorID = jsonID (jaActor act), dlObjectID = jsonID (jaObject act), dlTargetID = jsonID (jaTarget act),
          dlRequest = \<lparr>hqHost = rcHost to, hqBackoff = 0, hqAttempts = 0\<rparr>, dlNext = 0\<rparr>
      else None)"

definition ownHost :: "host_config \<Rightarrow> recipient \<Rightarrow> bool" where
  "ownHost cfg to \<longleftrightarrow> rcHost to = cfgHost cfg \<or> rcHost to = cfgAccountDomain cfg"

text \<open>\<open>BatchDeliver\<close>: what is pushed, and how many could not be prepared.\<close>

fun batchDeliver :: "host_config \<Rightarrow> (string \<Rightarrow> bool) \<Rightarrow> json_activity \<Rightarrow> recipient list \<Rightarrow> delivery list \<times> nat" where
  "batchDeliver cfg valid act [] = ([], 0)"
| "batchDeliver cfg valid act (to # tos) =
     (case batchDeliver cfg valid act tos of
        (reqs, errs) \<Rightarrow>
          if ownHost cfg to then (reqs, errs)
          else (case prepareDelivery valid act to of None \<Rightarrow> (reqs, Suc errs) | Some d \<Rightarrow> (d # reqs, errs)))"

definition deliver :: "host_config \<Rightarrow> (string \<Rightarrow> bool) \<Rightarrow> json_activity \<Rightarrow> recipient \<Rightarrow> delivery list \<times> nat" where
  "deliver cfg valid act to =
     (if ownHost cfg to then ([], 0)
      else (case prepareDelivery valid act to of None \<Rightarrow> ([], 1) | Some d \<Rightarrow> ([d], 0)))"

definition deliveryIndices :: "delivery sindex list" where
  "deliveryIndices =
     [\<lparr>ixName = ''ActorID'', ixFields = (\<lambda>d. [dlActorID d]), ixMultiple = True, ixAllowZero = False\<rparr>,
      \<lparr>ixName = ''ObjectID'', ixFields = (\<lambda>d. [dlObjectID d]), ixMultiple = True, ixAllowZero = False\<rparr>,
      \<lparr>ixName = ''TargetID'', ixFields = (\<lambda>d. [dlTargetID d]), ixMultiple = True, ixAllowZero = False\<rparr>]"

subsection \<open>Workers\<close>

text \<open>
  Where a worker is: at the head of \<open>next\<close>; after an empty pop with an empty backlog, before \<open>Wait\<close>;
  blocked on a channel; with a delivery, before its backoff is looked at; with a timer, before
  \<open>Wait\<close>; asleep until the timer, a channel or the end; sending; returned.
\<close>

datatype dpc =
    DNext | DEmpty | DBlocked nat | DHave delivery | DTimer delivery | DSleeping delivery nat | DSend delivery | DExited

record dworker =
  dwPc :: dpc
  dwBacklog :: "delivery list"
  dwDone :: bool

text \<open>The keys of deliveries by what became of them, and of every try, are kept for the statements only.\<close>

record dsys =
  dsQueue :: "delivery scache wqueue"
  dsWorkers :: "dworker list"
  dsBad :: "string list"
  dsNow :: time
  dsPushed :: "nat list"
  dsSent :: "nat list"
  dsGivenUp :: "nat list"
  dsDeleted :: "nat list"
  dsLost :: "nat list"
  dsTries :: "nat list"

definition setWorker :: "nat \<Rightarrow> dworker \<Rightarrow> dsys \<Rightarrow> dsys" where
  "setWorker i w s = s\<lparr>dsWorkers := (dsWorkers s)[i := w]\<rparr>"

definition setPc :: "nat \<Rightarrow> dpc \<Rightarrow> dsys \<Rightarrow> dsys" where
  "setPc i pc s = setWorker i ((dsWorkers s ! i)\<lparr>dwPc := pc\<rparr>) s"

definition pcOf :: "nat \<Rightarrow> dsys \<Rightarrow> dpc" where
  "pcOf i s = dwPc (dsWorkers s ! i)"

definition backlogOf :: "nat \<Rightarrow> dsys \<Rightarrow> delivery list" where
  "backlogOf i s = dwBacklog (dsWorkers s ! i)"

definition pushBacklog :: "nat \<Rightarrow> delivery \<Rightarrow> dsys \<Rightarrow> dsys" where
  "pushBacklog i d s = setWorker i ((dsWorkers s ! i)\<lparr>dwPc := DNext, dwBacklog := backlogOf i s @ [d]\<rparr>) s"

text \<open>
  \<open>slices.SortFunc\<close> with a comparison that puts the later time first; of equal times in any order. The
  function \<open>srt\<close> is what it makes of the backlog.
\<close>

definition sortsBacklog :: "(delivery list \<Rightarrow> delivery list) \<Rightarrow> bool" where
  "sortsBacklog srt \<longleftrightarrow> (\<forall>ds. mset (srt ds) = mset ds \<and> sorted_wrt (\<lambda>a b. dlNext b \<le> dlNext a) (srt ds))"

definition nextDelivery :: "(delivery list \<Rightarrow> delivery list) \<Rightarrow> nat \<Rightarrow> dsys \<Rightarrow> dsys" where
  "nextDelivery srt i s =
     (case popNow structPop (dsQueue s) of
        (Some d, w) \<Rightarrow> setPc i (DHave d) (s\<lparr>dsQueue := w\<rparr>)
      | (None, w) \<Rightarrow>
          if backlogOf i s = [] then setPc i DEmpty s
          else
            (case srt (backlogOf i s) of
               [] \<Rightarrow> setPc i DEmpty s
             | d # ds \<Rightarrow> setWorker i ((dsWorkers s ! i)\<lparr>dwPc := DHave d, dwBacklog := ds\<rparr>) s))"

definition waitThen :: "nat \<Rightarrow> (nat \<Rightarrow> dpc) \<Rightarrow> dsys \<Rightarrow> dsys" where
  "waitThen i pc s = (case waitCh (dsQueue s) of (c, w) \<Rightarrow> setPc i (pc c) (s\<lparr>dsQueue := w\<rparr>))"

definition minBackoff :: int where
  "minBackoff = 100 * 10 ^ 6"

definition untilNext :: "time \<Rightarrow> delivery \<Rightarrow> int" where
  "untilNext now d = (if isZeroTime (dlNext d) then 0 else dlNext d - now)"

definition lookAtBackoff :: "nat \<Rightarrow> delivery \<Rightarrow> dsys \<Rightarrow> dsys" where
  "lookAtBackoff i d s = setPc i (if minBackoff < untilNext (dsNow s) d then DTimer d else DSend d) s"

text \<open>The request and what follows; the answer comes at the time \<open>dsNow\<close>.\<close>

definition sendDelivery :: "nat \<Rightarrow> delivery \<Rightarrow> http_outcome \<Rightarrow> dsys \<Rightarrow> dsys" where
  "sendDelivery i d out s =
     (let s1 = s\<lparr>dsTries := dsTries s @ [dlKey d]\<rparr>
      in case doOnce (dsNow s) out (dsBad s) (dlRequest d) of
           ((ok, retry), bad, r) \<Rightarrow>
             (let s2 = s1\<lparr>dsBad := bad\<rparr>
              in if ok then setPc i DNext (s2\<lparr>dsSent := dsSent s @ [dlKey d]\<rparr>)
                 else if \<not> retry then setPc i DNext (s2\<lparr>dsGivenUp := dsGivenUp s @ [dlKey d]\<rparr>)
                 else
                   (case backOff r of (b, r') \<Rightarrow> pushBacklog i (d\<lparr>dlRequest := r', dlNext := dsNow s + b\<rparr>) s2)))"

definition loseDelivery :: "nat \<Rightarrow> dpc \<Rightarrow> delivery \<Rightarrow> dsys \<Rightarrow> dsys" where
  "loseDelivery i pc d s = setPc i pc (s\<lparr>dsLost := dsLost s @ [dlKey d]\<rparr>)"

definition pushDeliveries :: "delivery list \<Rightarrow> dsys \<Rightarrow> dsys" where
  "pushDeliveries ds s =
     s\<lparr>dsQueue := pushWake (structPush deliveryIndices) ds (dsQueue s), dsPushed := dsPushed s @ map dlKey ds\<rparr>"

definition deleteDeliveries :: "delivery sindex \<times> string list \<Rightarrow> dsys \<Rightarrow> dsys" where
  "deleteDeliveries k s =
     (case structDelete k (wqItems (dsQueue s)) of
        (ds, q) \<Rightarrow> s\<lparr>dsQueue := (dsQueue s)\<lparr>wqItems := q\<rparr>, dsDeleted := dsDeleted s @ map dlKey ds\<rparr>)"

definition startWorkers :: "nat \<Rightarrow> dsys \<Rightarrow> dsys" where
  "startWorkers n s =
     (if dsWorkers s \<noteq> [] then s
      else s\<lparr>dsWorkers := replicate n \<lparr>dwPc = DNext, dwBacklog = [], dwDone = False\<rparr>\<rparr>)"

definition dropWorkers :: "dsys \<Rightarrow> dsys" where
  "dropWorkers s =
     s\<lparr>dsWorkers := [], dsLost := dsLost s @ concat (map (\<lambda>w. map dlKey (dwBacklog w)) (dsWorkers s))\<rparr>"

text \<open>A delivery as it is prepared, with a key of its own.\<close>

definition freshDeliveries :: "delivery list \<Rightarrow> dsys \<Rightarrow> bool" where
  "freshDeliveries ds s \<longleftrightarrow> distinct (map dlKey ds) \<and> set (map dlKey ds) \<inter> set (dsPushed s) = {} \<and>
     (\<forall>d \<in> set ds. hqAttempts (dlRequest d) = 0 \<and> dlNext d = 0)"

inductive dstep :: "(delivery list \<Rightarrow> delivery list) \<Rightarrow> dsys \<Rightarrow> dsys \<Rightarrow> bool" for srt where
  push: "freshDeliveries ds s \<Longrightarrow> dstep srt s (pushDeliveries ds s)"
| delete: "dstep srt s (deleteDeliveries k s)"
| tick: "dsNow s \<le> t \<Longrightarrow> dstep srt s (s\<lparr>dsNow := t\<rparr>)"
| forget: "dstep srt s (s\<lparr>dsBad := filter P (dsBad s)\<rparr>)"
| start: "dstep srt s (startWorkers n s)"
| "next": "i < length (dsWorkers s) \<Longrightarrow> pcOf i s = DNext \<Longrightarrow> dstep srt s (nextDelivery srt i s)"
| wait: "i < length (dsWorkers s) \<Longrightarrow> pcOf i s = DEmpty \<Longrightarrow> dstep srt s (waitThen i DBlocked s)"
| wake: "i < length (dsWorkers s) \<Longrightarrow> pcOf i s = DBlocked c \<Longrightarrow> c \<in> set (wqClosed (dsQueue s)) \<Longrightarrow> dstep srt s (setPc i DNext s)"
| cancel: "i < length (dsWorkers s) \<Longrightarrow> pcOf i s = DBlocked c \<Longrightarrow> dwDone (dsWorkers s ! i) \<Longrightarrow> dstep srt s (setPc i DExited s)"
| look: "i < length (dsWorkers s) \<Longrightarrow> pcOf i s = DHave d \<Longrightarrow> dstep srt s (lookAtBackoff i d s)"
| sleep: "i < length (dsWorkers s) \<Longrightarrow> pcOf i s = DTimer d \<Longrightarrow> dstep srt s (waitThen i (DSleeping d) s)"
| pushed: "i < length (dsWorkers s) \<Longrightarrow> pcOf i s = DSleeping d c \<Longrightarrow> c \<in> set (wqClosed (dsQueue s)) \<Longrightarrow>
    dstep srt s (pushBacklog i d s)"
| timer: "i < length (dsWorkers s) \<Longrightarrow> pcOf i s = DSleeping d c \<Longrightarrow> dlNext d \<le> dsNow s \<Longrightarrow> dstep srt s (setPc i (DSend d) s)"
| ended: "i < length (dsWorkers s) \<Longrightarrow> pcOf i s = DSleeping d c \<Longrightarrow> dwDone (dsWorkers s ! i) \<Longrightarrow>
    dstep srt s (loseDelivery i DExited d s)"
| send: "i < length (dsWorkers s) \<Longrightarrow> pcOf i s = DSend d \<Longrightarrow> dstep srt s (sendDelivery i d out s)"
| panic: "i < length (dsWorkers s) \<Longrightarrow> pcOf i s = DSend d \<Longrightarrow> dstep srt s (loseDelivery i DNext d (s\<lparr>dsTries := dsTries s @ [dlKey d]\<rparr>))"
| stop: "i < length (dsWorkers s) \<Longrightarrow> \<forall>j < i. pcOf j s = DExited \<Longrightarrow>
    dstep srt s (setWorker i ((dsWorkers s ! i)\<lparr>dwDone := True\<rparr>) s)"
| stopped: "\<forall>i < length (dsWorkers s). pcOf i s = DExited \<Longrightarrow> dstep srt s (dropWorkers s)"

definition freshSys :: "time \<Rightarrow> dsys" where
  "freshSys now =
     \<lparr>dsQueue = \<lparr>wqItems = [], wqCh = None, wqChans = 0, wqClosed = []\<rparr>, dsWorkers = [], dsBad = [], dsNow = now, dsPushed = [],
      dsSent = [], dsGivenUp = [], dsDeleted = [], dsLost = [], dsTries = []\<rparr>"

definition deliveryReach :: "(delivery list \<Rightarrow> delivery list) \<Rightarrow> time \<Rightarrow> dsys \<Rightarrow> bool" where
  "deliveryReach srt now = (dstep srt)\<^sup>*\<^sup>* (freshSys now)"

end
