(* ===== verification/DeliverySafety.thy ===== *)
theory DeliverySafety
  imports Delivery QueueSafety
begin

text \<open>
  What the delivery workers promise, whatever interleaves: every delivery is in one place, and is
  tried a bounded number of times with bounded pauses. Then two ways in which they wait longer
  than they should.
\<close>

subsection \<open>The deliveries in circulation\<close>

definition pcDelivery :: "dpc \<Rightarrow> delivery list" where
  "pcDelivery pc = (case pc of DHave d \<Rightarrow> [d] | DTimer d \<Rightarrow> [d] | DSleeping d c \<Rightarrow> [d] | DSend d \<Rightarrow> [d] | _ \<Rightarrow> [])"

lemma pcDelivery_simps [simp]: "pcDelivery DNext = []" "pcDelivery DEmpty = []" "pcDelivery (DBlocked c) = []"
    "pcDelivery (DHave d) = [d]" "pcDelivery (DTimer d) = [d]" "pcDelivery (DSleeping d c) = [d]" "pcDelivery (DSend d) = [d]"
    "pcDelivery DExited = []"
  by (simp_all add: pcDelivery_def)

definition heldBy :: "dworker \<Rightarrow> delivery multiset" where
  "heldBy w = mset (pcDelivery (dwPc w)) + mset (dwBacklog w)"

definition queuedIn :: "dsys \<Rightarrow> delivery multiset" where
  "queuedIn s = mset (structContents (wqItems (dsQueue s)))"

definition circulating :: "dsys \<Rightarrow> delivery multiset" where
  "circulating s = queuedIn s + \<Sum>\<^sub># (mset (map heldBy (dsWorkers s)))"

lemma sum_update:
  assumes "i < length ws"
  shows "\<Sum>\<^sub># (mset (map f (ws[i := w]))) + f (ws ! i) = \<Sum>\<^sub># (mset (map f ws)) + f w"
  using assms by (induction ws arbitrary: i) (auto split: nat.split simp: ac_simps)

lemma circulating_setWorker:
  "i < length (dsWorkers s) \<Longrightarrow> circulating (setWorker i w s) + heldBy (dsWorkers s ! i) = circulating s + heldBy w"
  using sum_update [of i "dsWorkers s" heldBy w] by (simp add: circulating_def queuedIn_def setWorker_def ac_simps)

definition maxPause :: int where
  "maxPause = 128 * second"

text \<open>What is known of a delivery that is not done with.\<close>

definition deliveryOK :: "dsys \<Rightarrow> delivery \<Rightarrow> bool" where
  "deliveryOK s d \<longleftrightarrow> hqAttempts (dlRequest d) = count_list (dsTries s) (dlKey d) \<and> hqAttempts (dlRequest d) \<le> maxRetries \<and>
     dlNext d \<le> dsNow s + maxPause"

definition accounted :: "dsys \<Rightarrow> bool" where
  "accounted s \<longleftrightarrow> distinct (dsPushed s) \<and>
     mset (dsPushed s) = image_mset dlKey (circulating s) + mset (dsSent s) + mset (dsGivenUp s) + mset (dsDeleted s) + mset (dsLost s)"

definition deliveryInv :: "dsys \<Rightarrow> bool" where
  "deliveryInv s \<longleftrightarrow> structOK (wqItems (dsQueue s)) \<and> 0 \<le> dsNow s \<and> accounted s \<and> (\<forall>d \<in># circulating s. deliveryOK s d) \<and>
     set (dsTries s) \<subseteq> set (dsPushed s) \<and> (\<forall>k. count_list (dsTries s) k \<le> Suc maxRetries)"

lemma deliveryInv_same:
  assumes "deliveryInv s" and "circulating s' = circulating s" and "structOK (wqItems (dsQueue s'))" and "dsNow s \<le> dsNow s'"
    and "dsPushed s' = dsPushed s" "dsSent s' = dsSent s" "dsGivenUp s' = dsGivenUp s" "dsDeleted s' = dsDeleted s"
    "dsLost s' = dsLost s" "dsTries s' = dsTries s"
  shows "deliveryInv s'"
  using assms by (fastforce simp: deliveryInv_def accounted_def deliveryOK_def)

lemma setWorker_simps [simp]: "dsQueue (setWorker i w s) = dsQueue s" "dsNow (setWorker i w s) = dsNow s"
    "dsPushed (setWorker i w s) = dsPushed s" "dsSent (setWorker i w s) = dsSent s" "dsGivenUp (setWorker i w s) = dsGivenUp s"
    "dsDeleted (setWorker i w s) = dsDeleted s" "dsLost (setWorker i w s) = dsLost s" "dsTries (setWorker i w s) = dsTries s"
    "dsBad (setWorker i w s) = dsBad s" "length (dsWorkers (setWorker i w s)) = length (dsWorkers s)"
  by (simp_all add: setWorker_def)

lemma deliveryInv_setWorker:
  assumes "deliveryInv s" and "i < length (dsWorkers s)" and "heldBy w = heldBy (dsWorkers s ! i)"
  shows "deliveryInv (setWorker i w s)"
  by (rule deliveryInv_same [OF assms(1)])
    (use circulating_setWorker [OF assms(2), of w] assms(1,3) in \<open>simp_all add: deliveryInv_def\<close>)

lemma deliveryInv_setPc:
  assumes "deliveryInv s" and "i < length (dsWorkers s)" and "pcDelivery pc = pcDelivery (pcOf i s)"
  shows "deliveryInv (setPc i pc s)"
  unfolding setPc_def by (rule deliveryInv_setWorker [OF assms(1,2)]) (use assms(3) in \<open>simp add: heldBy_def pcOf_def\<close>)

lemma deliveryInv_wait:
  assumes "deliveryInv s" and "i < length (dsWorkers s)" and "\<And>c. pcDelivery (pc c) = pcDelivery (pcOf i s)"
  shows "deliveryInv (waitThen i pc s)"
proof -
  obtain c w where w: "waitCh (dsQueue s) = (c, w)" by fastforce
  then have items: "wqItems w = wqItems (dsQueue s)" using waitCh_items [of "dsQueue s"] by simp
  have "deliveryInv (s\<lparr>dsQueue := w\<rparr>)"
    by (rule deliveryInv_same [OF assms(1)]) (use assms(1) items in \<open>simp_all add: circulating_def queuedIn_def deliveryInv_def\<close>)
  then show ?thesis unfolding waitThen_def w prod.case
    by (rule deliveryInv_setPc) (use assms(2,3) in \<open>simp_all add: pcOf_def\<close>)
qed

lemma deliveryInv_next:
  assumes "deliveryInv s" and "i < length (dsWorkers s)" and "pcOf i s = DNext" and "sortsBacklog srt"
  shows "deliveryInv (nextDelivery srt i s)"
proof -
  let ?w = "dsWorkers s ! i"
  have ok: "structOK (wqItems (dsQueue s))" using assms(1) by (simp add: deliveryInv_def)
  have pc: "dwPc ?w = DNext" using assms(3) by (simp add: pcOf_def)
  show ?thesis
  proof (cases "structPop (wqItems (dsQueue s))")
    case None
    show ?thesis
    proof (cases "backlogOf i s = []")
      case True
      then show ?thesis using None assms(1-3) by (simp add: nextDelivery_def popNow_def deliveryInv_setPc)
    next
      case False
      have m: "mset (srt (backlogOf i s)) = mset (backlogOf i s)" using assms(4) by (simp add: sortsBacklog_def)
      obtain d ds where d: "srt (backlogOf i s) = d # ds" using m False by (cases "srt (backlogOf i s)") auto
      have "deliveryInv (setWorker i (?w\<lparr>dwPc := DHave d, dwBacklog := ds\<rparr>) s)"
        by (rule deliveryInv_setWorker [OF assms(1,2)]) (use m d pc in \<open>simp add: heldBy_def backlogOf_def\<close>)
      then show ?thesis using None False d by (simp add: nextDelivery_def popNow_def)
    qed
  next
    case (Some a)
    obtain d q where a: "a = (d, q)" by (cases a)
    let ?s = "setPc i (DHave d) (s\<lparr>dsQueue := (dsQueue s)\<lparr>wqItems := q\<rparr>\<rparr>)"
    have q: "structOK q" "structContents (wqItems (dsQueue s)) = d # structContents q"
      using struct.pop_Some [OF ok] Some a by auto
    have c: "circulating (s\<lparr>dsQueue := (dsQueue s)\<lparr>wqItems := q\<rparr>\<rparr>) + {#d#} = circulating s"
      using q(2) by (simp add: circulating_def queuedIn_def)
    have "circulating ?s = circulating s"
      using circulating_setWorker [of i "s\<lparr>dsQueue := (dsQueue s)\<lparr>wqItems := q\<rparr>\<rparr>" "?w\<lparr>dwPc := DHave d\<rparr>"] assms(2) pc c
      by (simp add: setPc_def heldBy_def ac_simps)
    then have "deliveryInv ?s"
      by (rule deliveryInv_same [OF assms(1)]) (use q in \<open>simp_all add: setPc_def\<close>)
    then show ?thesis using Some a by (simp add: nextDelivery_def popNow_def)
  qed
qed

text \<open>A delivery in circulation has a key of its own.\<close>

lemma key_once:
  assumes "accounted s" and "circulating s = add_mset d M" and "e \<in># M"
  shows "dlKey e \<noteq> dlKey d"
proof
  assume "dlKey e = dlKey d"
  then have "dlKey d \<in># image_mset dlKey M" using assms(3) by (metis image_eqI set_image_mset)
  then have "2 \<le> count (image_mset dlKey (circulating s)) (dlKey d)" using assms(2) by (simp add: Suc_le_eq)
  also have "\<dots> \<le> count (mset (dsPushed s)) (dlKey d)" using assms(1) by (simp add: accounted_def)
  also have "\<dots> \<le> 1"
  proof -
    have "distinct (dsPushed s)" using assms(1) by (simp add: accounted_def)
    then show ?thesis by (simp only: distinct_count_atmost_1 split: if_splits) simp
  qed
  finally show False by simp
qed

lemma circulating_hold:
  assumes "i < length (dsWorkers s)" and "pcDelivery (pcOf i s) = [d]" and "pcDelivery pc = []"
  shows "circulating s = add_mset d (circulating (setPc i pc s))"
  using circulating_setWorker [OF assms(1), of "(dsWorkers s ! i)\<lparr>dwPc := pc\<rparr>"] assms(2,3)
  by (simp add: setPc_def heldBy_def pcOf_def)

subsection \<open>The client\<close>

lemma retryAfter_le: "retryAfter now a 0 \<le> 10 * second"
  by (simp add: retryAfter_def Let_def baseBackoff_def maxRetries_def second_def)

lemma doOnce_retry:
  assumes "doOnce now out bad r = ((False, True), bad', r')"
  shows "hqAttempts r' = Suc (hqAttempts r) \<and> hqAttempts r' \<le> maxRetries \<and> hqBackoff r' \<le> 10 * second"
  using assms retryAfter_le
  by (auto simp: doOnce_def clientDo_def second_def split: if_splits prod.splits sum.splits)

lemma wrap64_small: "0 \<le> n \<Longrightarrow> n < 2 ^ 63 \<Longrightarrow> wrap64 n = n"
  by (simp add: wrap64_def)

lemma backOff_bounds:
  assumes "hqAttempts r \<le> maxRetries" and "hqBackoff r \<le> 10 * second" and "backOff r = (b, r')"
  shows "0 < b \<and> b \<le> maxPause \<and> hqAttempts r' = hqAttempts r"
proof (cases "hqBackoff r \<le> 0")
  case True
  let ?n = "baseBackoff * 2 ^ (hqAttempts r + 1)"
  have p: "(2::int) ^ (hqAttempts r + 1) \<le> 2 ^ 6" using assms(1) by (intro power_increasing) (simp_all add: maxRetries_def)
  have n: "0 < ?n" "?n \<le> baseBackoff * 2 ^ 6"
    using p by (auto simp: baseBackoff_def second_def simp del: power_add power_Suc)
  moreover have "baseBackoff * 2 ^ 6 = maxPause" by (simp add: baseBackoff_def maxPause_def)
  moreover have "maxPause < 2 ^ 63" by (simp add: maxPause_def second_def)
  ultimately have "wrap64 ?n = ?n" "0 < ?n \<and> ?n \<le> maxPause" by (simp_all add: wrap64_small)
  then show ?thesis using assms(3) True by (auto simp: backOff_def Let_def)
next
  case False
  then show ?thesis using assms by (auto simp: backOff_def maxPause_def second_def)
qed

lemma backOff_attempts [simp]: "hqAttempts (snd (backOff r)) = hqAttempts r"
  by (simp add: backOff_def Let_def)

text \<open>
  \<open>Do\<close>: the loop around \<open>DoOnce\<close> for requests that are waited for. \<open>answer\<close> and \<open>cancelled\<close> say for each
  try when and what comes back, and whether the context ends in the pause after it. The result:
  whether there is a response, and the number of tries.
\<close>

function doLoop :: "(nat \<Rightarrow> time \<times> http_outcome) \<Rightarrow> (nat \<Rightarrow> bool) \<Rightarrow> nat \<Rightarrow> string list \<Rightarrow> http_request \<Rightarrow> bool \<times> string list \<times> nat" where
  "doLoop answer cancelled n bad r =
     (case doOnce (fst (answer n)) (snd (answer n)) bad r of
        ((True, retry), bad', r') \<Rightarrow> (True, bad', Suc n)
      | ((False, False), bad', r') \<Rightarrow> (False, bad', Suc n)
      | ((False, True), bad', r') \<Rightarrow>
          if cancelled n then (False, bad', Suc n) else doLoop answer cancelled (Suc n) bad' (snd (backOff r')))"
  by pat_completeness auto
termination
  by (relation "measure (\<lambda>(answer, cancelled, n, bad, r). maxRetries - hqAttempts r)")
    (auto dest: doOnce_retry [OF sym] doOnce_retry)

declare doLoop.simps [simp del]

lemma deliveryInv_send:
  assumes "deliveryInv s" and "i < length (dsWorkers s)" and "pcOf i s = DSend d"
  shows "deliveryInv (sendDelivery i d out s)"
proof -
  let ?M = "circulating (setPc i DNext s)" and ?tries = "dsTries s @ [dlKey d]"
  have circ: "circulating s = add_mset d ?M" by (rule circulating_hold [OF assms(2)]) (simp_all add: assms(3))
  have acc: "accounted s" and d: "deliveryOK s d" and others: "\<And>e. e \<in># ?M \<Longrightarrow> deliveryOK s e"
    using assms(1) circ by (simp_all add: deliveryInv_def)
  have M: "deliveryOK (s\<lparr>dsTries := ?tries\<rparr>) e" if "e \<in># ?M" for e
    using others [OF that] key_once [OF acc circ that] by (simp add: deliveryOK_def)
  have "dlKey d \<in># mset (dsPushed s)" using acc circ by (simp add: accounted_def)
  then have tries: "set ?tries \<subseteq> set (dsPushed s)" using assms(1) by (simp add: deliveryInv_def)
  have count: "count_list ?tries k \<le> Suc maxRetries" for k
    using assms(1) d by (auto simp: deliveryInv_def deliveryOK_def)
  obtain ok retry bad r where o: "doOnce (dsNow s) out (dsBad s) (dlRequest d) = ((ok, retry), bad, r)" by (metis prod.exhaust)
  consider (sent) "ok" | (given) "\<not> ok" "\<not> retry" | (again) "\<not> ok" "retry" by blast
  then show ?thesis
  proof cases
    case sent
    let ?s = "setPc i DNext (s\<lparr>dsTries := ?tries, dsBad := bad, dsSent := dsSent s @ [dlKey d]\<rparr>)"
    have c: "circulating ?s = ?M" by (simp add: circulating_def queuedIn_def setPc_def setWorker_def)
    have "deliveryInv ?s"
      using assms(1) circ M tries count unfolding deliveryInv_def c accounted_def
      by (auto simp: setPc_def deliveryOK_def)
    then show ?thesis using o sent by (simp add: sendDelivery_def Let_def)
  next
    case given
    let ?s = "setPc i DNext (s\<lparr>dsTries := ?tries, dsBad := bad, dsGivenUp := dsGivenUp s @ [dlKey d]\<rparr>)"
    have c: "circulating ?s = ?M" by (simp add: circulating_def queuedIn_def setPc_def setWorker_def)
    have "deliveryInv ?s"
      using assms(1) circ M tries count unfolding deliveryInv_def c accounted_def
      by (auto simp: setPc_def deliveryOK_def)
    then show ?thesis using o given by (simp add: sendDelivery_def Let_def)
  next
    case again
    obtain b r' where b: "backOff r = (b, r')" by fastforce
    have r: "hqAttempts r = Suc (hqAttempts (dlRequest d))" "hqAttempts r \<le> maxRetries" "hqBackoff r \<le> 10 * second"
      using doOnce_retry [of "dsNow s" out "dsBad s" "dlRequest d" bad r] o again by simp_all
    note bb = backOff_bounds [OF r(2,3) b]
    let ?d = "d\<lparr>dlRequest := r', dlNext := dsNow s + b\<rparr>"
    let ?s = "pushBacklog i ?d (s\<lparr>dsTries := ?tries, dsBad := bad\<rparr>)"
    have "circulating ?s + heldBy (dsWorkers s ! i) = circulating s + heldBy ((dsWorkers s ! i)\<lparr>dwPc := DNext, dwBacklog := backlogOf i s @ [?d]\<rparr>)"
      using circulating_setWorker [of i "s\<lparr>dsTries := ?tries, dsBad := bad\<rparr>"] assms(2)
      by (simp add: pushBacklog_def backlogOf_def circulating_def queuedIn_def)
    then have c: "circulating ?s = add_mset ?d ?M"
      using assms(3) circ by (simp add: heldBy_def pcOf_def backlogOf_def)
    have "deliveryOK ?s ?d"
      using d r bb by (simp add: deliveryOK_def pushBacklog_def)
    moreover have "e \<in># ?M \<Longrightarrow> deliveryOK ?s e" for e using M [of e] by (simp add: deliveryOK_def pushBacklog_def)
    ultimately have "deliveryInv ?s"
      using assms(1) circ tries count unfolding deliveryInv_def c accounted_def by (auto simp: pushBacklog_def)
    then show ?thesis using o again b by (simp add: sendDelivery_def Let_def)
  qed
qed

lemma deliveryInv_lose:
  assumes "deliveryInv s" and "i < length (dsWorkers s)" and "pcDelivery (pcOf i s) = [d]" and "pcDelivery pc = []"
  shows "deliveryInv (loseDelivery i pc d s)"
proof -
  have circ: "circulating s = add_mset d (circulating (setPc i pc s))" by (rule circulating_hold [OF assms(2-4)])
  have c: "circulating (loseDelivery i pc d s) = circulating (setPc i pc s)"
    by (simp add: loseDelivery_def circulating_def queuedIn_def setPc_def setWorker_def)
  show ?thesis
    using assms(1) circ unfolding deliveryInv_def c accounted_def
    by (auto simp: loseDelivery_def setPc_def deliveryOK_def)
qed

text \<open>A panic counts as a try.\<close>

lemma deliveryInv_panic:
  assumes "deliveryInv s" and "i < length (dsWorkers s)" and "pcOf i s = DSend d"
  shows "deliveryInv (loseDelivery i DNext d (s\<lparr>dsTries := dsTries s @ [dlKey d]\<rparr>))" (is "deliveryInv ?s")
proof -
  let ?M = "circulating (setPc i DNext s)"
  have circ: "circulating s = add_mset d ?M" by (rule circulating_hold [OF assms(2)]) (simp_all add: assms(3))
  have c: "circulating ?s = ?M" by (simp add: loseDelivery_def circulating_def queuedIn_def setPc_def setWorker_def)
  have acc: "accounted s" and d: "deliveryOK s d" and others: "\<And>e. e \<in># ?M \<Longrightarrow> deliveryOK s e"
    using assms(1) circ by (simp_all add: deliveryInv_def)
  have "deliveryOK ?s e" if "e \<in># ?M" for e
    using others [OF that] key_once [OF acc circ that] by (simp add: deliveryOK_def loseDelivery_def setPc_def)
  moreover have "dlKey d \<in># mset (dsPushed s)" using acc circ by (simp add: accounted_def)
  then have "dlKey d \<in> set (dsPushed s)" by simp
  moreover have "count_list (dsTries ?s) k \<le> Suc maxRetries" for k
    using assms(1) d by (auto simp: deliveryInv_def deliveryOK_def loseDelivery_def setPc_def)
  ultimately show ?thesis
    using assms(1) circ unfolding deliveryInv_def c accounted_def by (auto simp: loseDelivery_def setPc_def)
qed

lemma deliveryInv_pushBacklog:
  assumes "deliveryInv s" and "i < length (dsWorkers s)" and "pcOf i s = DSleeping d c"
  shows "deliveryInv (pushBacklog i d s)"
  unfolding pushBacklog_def
  by (rule deliveryInv_setWorker [OF assms(1,2)]) (use assms(3) in \<open>simp add: heldBy_def backlogOf_def pcOf_def\<close>)

lemma deliveryInv_push:
  assumes "deliveryInv s" and "freshDeliveries ds s"
  shows "deliveryInv (pushDeliveries ds s)"
proof -
  have "structOK (wqItems (dsQueue s))" using assms(1) by (simp add: deliveryInv_def)
  note f = struct.fold_push [OF this, of deliveryIndices ds]
  have c: "circulating (pushDeliveries ds s) = circulating s + mset ds"
    using f by (simp add: circulating_def queuedIn_def pushDeliveries_def pushWake_def)
  have "deliveryOK (pushDeliveries ds s) d" if "d \<in> set ds" for d
  proof -
    have "dlKey d \<notin> set (dsTries s)" using assms that by (auto simp: freshDeliveries_def deliveryInv_def)
    then show ?thesis
      using assms that by (auto simp: freshDeliveries_def deliveryInv_def deliveryOK_def pushDeliveries_def count_list_0_iff
          maxPause_def second_def)
  qed
  moreover have "deliveryOK (pushDeliveries ds s) d" if "deliveryOK s d" for d
    using that by (simp add: deliveryOK_def pushDeliveries_def)
  moreover have "distinct (dsPushed s @ map dlKey ds)" using assms by (auto simp: freshDeliveries_def deliveryInv_def accounted_def)
  ultimately show ?thesis
    using assms(1) f unfolding deliveryInv_def c accounted_def
    by (auto simp: pushDeliveries_def pushWake_def)
qed

lemma deliveryInv_delete:
  assumes "deliveryInv s"
  shows "deliveryInv (deleteDeliveries k s)"
proof -
  obtain ds q where d: "structDelete k (wqItems (dsQueue s)) = (ds, q)" by fastforce
  have "structOK (wqItems (dsQueue s))" using assms by (simp add: deliveryInv_def)
  note k = struct.del_keeps [OF this d]
  have c: "circulating s = circulating (deleteDeliveries k s) + mset ds"
    using k d by (simp add: circulating_def queuedIn_def deleteDeliveries_def)
  have "deliveryOK (deleteDeliveries k s) e" if "e \<in># circulating (deleteDeliveries k s)" for e
  proof -
    have "deliveryOK s e" using that assms c by (simp add: deliveryInv_def)
    then show ?thesis using d by (simp add: deliveryOK_def deleteDeliveries_def)
  qed
  then show ?thesis
    using assms k d c by (auto simp: deliveryInv_def accounted_def deleteDeliveries_def)
qed

lemma deliveryInv_start:
  assumes "deliveryInv s"
  shows "deliveryInv (startWorkers n s)"
proof (cases "dsWorkers s = []")
  case True
  have "\<Sum>\<^sub># (mset (map heldBy (replicate n \<lparr>dwPc = DNext, dwBacklog = [], dwDone = False\<rparr>))) = {#}"
    by (induction n) (simp_all add: heldBy_def)
  then have "circulating (startWorkers n s) = circulating s"
    using True by (simp add: startWorkers_def circulating_def queuedIn_def)
  then show ?thesis
    by (rule deliveryInv_same [OF assms]) (use assms in \<open>simp_all add: startWorkers_def deliveryInv_def\<close>)
qed (simp add: assms startWorkers_def)

lemma deliveryInv_drop:
  assumes "deliveryInv s" and "\<forall>i < length (dsWorkers s). pcOf i s = DExited"
  shows "deliveryInv (dropWorkers s)"
proof -
  have "heldBy w = mset (dwBacklog w)" if "w \<in> set (dsWorkers s)" for w
    using that assms(2) by (auto simp: heldBy_def pcOf_def in_set_conv_nth)
  then have "\<Sum>\<^sub># (mset (map heldBy (dsWorkers s))) = mset (concat (map dwBacklog (dsWorkers s)))"
    by (simp add: mset_concat sum_mset_sum_list [symmetric] cong: map_cong image_mset_cong)
  then have c: "circulating s = circulating (dropWorkers s) + mset (concat (map dwBacklog (dsWorkers s)))"
    by (simp add: circulating_def queuedIn_def dropWorkers_def)
  have l: "mset (dsLost (dropWorkers s)) = mset (dsLost s) + image_mset dlKey (mset (concat (map dwBacklog (dsWorkers s))))"
    by (simp add: dropWorkers_def map_concat comp_def flip: mset_map)
  have "deliveryOK (dropWorkers s) e" if "e \<in># circulating (dropWorkers s)" for e
  proof -
    have "deliveryOK s e" using that assms(1) c by (simp add: deliveryInv_def)
    then show ?thesis by (simp add: deliveryOK_def dropWorkers_def)
  qed
  then show ?thesis
    using assms(1) c l by (auto simp: deliveryInv_def accounted_def dropWorkers_def)
qed

lemma deliveryInv_step:
  assumes "dstep srt s s'" and "deliveryInv s" and "sortsBacklog srt"
  shows "deliveryInv s'"
  using assms(1)
proof cases
  case (tick t)
  show ?thesis unfolding tick
    by (rule deliveryInv_same [OF assms(2)]) (use tick(2) assms(2) in \<open>auto simp: circulating_def queuedIn_def deliveryInv_def\<close>)
next
  case (forget P)
  show ?thesis unfolding forget
    by (rule deliveryInv_same [OF assms(2)]) (use assms(2) in \<open>auto simp: circulating_def queuedIn_def deliveryInv_def\<close>)
next
  case (stop i)
  show ?thesis unfolding stop(1)
    by (rule deliveryInv_setWorker [OF assms(2) stop(2)]) (simp add: heldBy_def)
next
  case (look i d)
  then show ?thesis using assms(2) by (auto simp: lookAtBackoff_def intro!: deliveryInv_setPc)
qed (use assms(2,3) in \<open>simp_all add: deliveryInv_push deliveryInv_delete deliveryInv_start deliveryInv_next deliveryInv_wait
    deliveryInv_setPc deliveryInv_pushBacklog deliveryInv_lose deliveryInv_send deliveryInv_panic deliveryInv_drop\<close>)

lemma deliveryReach_inv:
  assumes "deliveryReach srt now s" and "sortsBacklog srt" and "0 \<le> now"
  shows "deliveryInv s"
  using assms(1) unfolding deliveryReach_def
proof induction
  case base
  show ?case
    using assms(3) by (simp add: deliveryInv_def accounted_def freshSys_def circulating_def queuedIn_def structOK_def)
next
  case (step s s')
  then show ?case using deliveryInv_step assms(2) by blast
qed

subsection \<open>Properties\<close>

text \<open>
  C18. No delivery is lost unnoticed or sent twice: in every interleaving each delivery that was pushed
  is in exactly one place. It is in the queue, with one worker, sent, given up by the client,
  dropped by a deletion from the queue, or lost with a worker that was stopped or panicked.
\<close>

theorem deliveries_accounted:
  assumes "deliveryReach srt now s" and "sortsBacklog srt" and "0 \<le> now"
  shows "distinct (dsPushed s) \<and>
    mset (dsPushed s) = image_mset dlKey (circulating s) + mset (dsSent s) + mset (dsGivenUp s) + mset (dsDeleted s) + mset (dsLost s)"
  using deliveryReach_inv [OF assms] by (simp add: deliveryInv_def accounted_def)

text \<open>
  C19. Retries are bounded: a delivery is tried six times at most, and no delivery is put off by more
  than 128 seconds, whatever a server asks for in \<open>Retry-After\<close>.
\<close>

theorem delivery_tries_bounded:
  assumes "deliveryReach srt now s" and "sortsBacklog srt" and "0 \<le> now"
  shows "count_list (dsTries s) k \<le> 6 \<and> (\<forall>d \<in># circulating s. dlNext d \<le> dsNow s + 128 * 10 ^ 9)"
  using deliveryReach_inv [OF assms]
  by (simp add: deliveryInv_def deliveryOK_def maxRetries_def maxPause_def second_def)

definition temporary :: "http_outcome \<Rightarrow> bool" where
  "temporary out \<longleftrightarrow> (case out of Inl e \<Rightarrow> \<not> fatalError e | Inr a \<Rightarrow> 500 \<le> haStatus a \<or> haStatus a = 429)"

definition answered :: "http_outcome \<Rightarrow> bool" where
  "answered out \<longleftrightarrow> (case out of Inl e \<Rightarrow> False | Inr a \<Rightarrow> \<not> (500 \<le> haStatus a \<or> haStatus a = 429) \<and> \<not> haTooLarge a)"

text \<open>
  What the client makes of an answer: every answer below 500 but 429 counts as delivered, an
  error of the client (4xx) as well; a temporary failure may be retried unless it was the last
  of six tries or the host is known to be bad, and the last failure makes the host bad.
\<close>

theorem doOnce_decision:
  assumes "hqAttempts r \<le> maxRetries" and "doOnce now out bad r = ((ok, retry), bad', r')"
  shows "ok = answered out \<and>
    (\<not> ok \<and> retry) = (temporary out \<and> hqAttempts r < maxRetries \<and> hqHost r \<notin> set bad) \<and>
    bad' = (if temporary out \<and> hqAttempts r = maxRetries then hqHost r # bad else bad)"
  using assms
  by (cases out) (auto simp: doOnce_def clientDo_def answered_def temporary_def split: if_splits prod.splits)


text \<open>
  \<open>Do\<close> returns, after six tries at most, and with a response exactly when a try was answered
  before one failed for good: all tries before the last were temporary failures.
\<close>

theorem clientDo_returns:
  assumes "hqAttempts r \<le> maxRetries" and "doLoop answer cancelled n bad r = (ok, bad', m)"
  shows "n < m \<and> m \<le> n + Suc maxRetries - hqAttempts r \<and> ok = answered (snd (answer (m - 1))) \<and>
    (\<forall>k. n \<le> k \<and> k < m - 1 \<longrightarrow> temporary (snd (answer k)) \<and> \<not> cancelled k)"
  using assms
proof (induction "maxRetries - hqAttempts r" arbitrary: n bad r rule: less_induct)
  case less
  obtain ok1 retry bad1 r1 where d: "doOnce (fst (answer n)) (snd (answer n)) bad r = ((ok1, retry), bad1, r1)"
    by (metis prod.exhaust)
  note dec = doOnce_decision [OF less(2) d]
  show ?case
  proof (cases "\<not> ok1 \<and> retry \<and> \<not> cancelled n")
    case False
    then have "m = Suc n" "ok = ok1" using less(3) d by (auto simp: doLoop.simps [of answer cancelled n] split: bool.splits if_splits)
    then show ?thesis using dec less(2) by auto
  next
    case True
    then have loop: "doLoop answer cancelled (Suc n) bad1 (snd (backOff r1)) = (ok, bad', m)"
      using less(3) d by (simp add: doLoop.simps [of answer cancelled n])
    have r1: "hqAttempts r1 = Suc (hqAttempts r)" "hqAttempts r1 \<le> maxRetries"
      using doOnce_retry [of "fst (answer n)" "snd (answer n)" bad r bad1 r1] d True by simp_all
    have IH: "Suc n < m \<and> m \<le> Suc n + Suc maxRetries - hqAttempts r1 \<and> ok = answered (snd (answer (m - 1))) \<and>
        (\<forall>k. Suc n \<le> k \<and> k < m - 1 \<longrightarrow> temporary (snd (answer k)) \<and> \<not> cancelled k)"
      using less(1) [OF _ _ loop] r1 by simp
    have "temporary (snd (answer k)) \<and> \<not> cancelled k" if "n \<le> k" "k < m - 1" for k
      using IH dec True that by (cases "k = n") simp_all
    then show ?thesis using IH r1 by auto
  qed
qed

subsection \<open>A lost wake-up\<close>

definition exDelivery :: delivery where
  "exDelivery = \<lparr>dlKey = 0, dlActorID = ''a'', dlObjectID = ''o'', dlTargetID = [],
     dlRequest = \<lparr>hqHost = ''b.org'', hqBackoff = 0, hqAttempts = 0\<rparr>, dlNext = 0\<rparr>"

text \<open>The worker pops from the empty queue, a delivery is pushed, and the worker waits for the next push.\<close>

definition exEmpty :: dsys where
  "exEmpty = nextDelivery id 0 (startWorkers 1 (freshSys 1))"

definition exPushed :: dsys where
  "exPushed = pushDeliveries [exDelivery] exEmpty"

definition exAsleep :: dsys where
  "exAsleep = waitThen 0 DBlocked exPushed"

lemma exAsleep_reach: "deliveryReach srt 1 exAsleep"
proof -
  let ?s = "startWorkers 1 (freshSys 1)"
  have "dstep srt (freshSys 1) ?s" by (rule dstep.start)
  moreover have "dstep srt ?s (nextDelivery srt 0 ?s)"
    by (rule dstep.next) (simp_all add: startWorkers_def freshSys_def pcOf_def)
  moreover have "nextDelivery srt 0 ?s = exEmpty"
    by (simp add: exEmpty_def nextDelivery_def backlogOf_def startWorkers_def freshSys_def popNow_def structPop_def)
  moreover have "dstep srt exEmpty exPushed" unfolding exPushed_def by (rule dstep.push) code_simp
  moreover have "dstep srt exPushed exAsleep" unfolding exAsleep_def by (rule dstep.wait) code_simp+
  ultimately show ?thesis unfolding deliveryReach_def by (metis converse_rtranclp_into_rtranclp rtranclp.rtrancl_refl)
qed


subsection \<open>Sleeping for the wrong delivery\<close>

definition latestFirst :: "delivery list \<Rightarrow> delivery list" where
  "latestFirst ds = rev (sort_key dlNext ds)"

lemma latestFirst_sorts: "sortsBacklog latestFirst"
proof -
  have "sorted_wrt (\<lambda>a b. dlNext a \<le> dlNext b) (sort_key dlNext ds)" for ds :: "delivery list"
    using sorted_sort_key [of dlNext ds] by (simp add: sorted_map)
  then show ?thesis by (simp add: sortsBacklog_def latestFirst_def sorted_wrt_rev)
qed

text \<open>Two deliveries fail, one with a pause of ten seconds and one of eight.\<close>

definition exFails :: "nat \<Rightarrow> http_outcome" where
  "exFails n = Inr \<lparr>haStatus = 429, haRetryAfter = (if n = 0 then [] else ''10''), haSeconds = n, haDate = 0, haTooLarge = False\<rparr>"

definition exTry :: "nat \<Rightarrow> dsys \<Rightarrow> dsys" where
  "exTry n s =
     (let s1 = nextDelivery latestFirst 0 s
      in case pcOf 0 s1 of DHave d \<Rightarrow> sendDelivery 0 d (exFails n) (lookAtBackoff 0 d s1) | _ \<Rightarrow> s1)"

definition exBacklog :: dsys where
  "exBacklog = exTry 0 (exTry 10 (pushDeliveries [exDelivery, exDelivery\<lparr>dlKey := 1\<rparr>] (startWorkers 1 (freshSys 1))))"

definition exLate :: dsys where
  "exLate =
     (let s1 = nextDelivery latestFirst 0 exBacklog
      in case pcOf 0 s1 of
           DHave d \<Rightarrow> (waitThen 0 (DSleeping d) (lookAtBackoff 0 d s1))\<lparr>dsNow := 9 * second\<rparr>
         | _ \<Rightarrow> s1)"

lemma nextDelivery_same: "length (dsWorkers (nextDelivery srt i s)) = length (dsWorkers s)" "dsNow (nextDelivery srt i s) = dsNow s"
  by (simp_all add: nextDelivery_def popNow_def setPc_def split: option.splits list.splits prod.splits)

lemma exTry_steps:
  assumes "deliveryReach latestFirst t s" and "0 < length (dsWorkers s)" and "pcOf 0 s = DNext"
    and "case pcOf 0 (nextDelivery latestFirst 0 s) of DHave d \<Rightarrow> untilNext (dsNow s) d \<le> minBackoff | _ \<Rightarrow> False"
  shows "deliveryReach latestFirst t (exTry n s)"
proof -
  let ?s1 = "nextDelivery latestFirst 0 s"
  obtain d where d: "pcOf 0 ?s1 = DHave d" "untilNext (dsNow s) d \<le> minBackoff" using assms(4) by (auto split: dpc.splits)
  have len: "0 < length (dsWorkers ?s1)" and now: "dsNow ?s1 = dsNow s" using assms(2) by (simp_all only: nextDelivery_same)
  have "dstep latestFirst s ?s1" by (rule dstep.next [OF assms(2,3)])
  moreover have "dstep latestFirst ?s1 (lookAtBackoff 0 d ?s1)" by (rule dstep.look [OF len d(1)])
  moreover have "dstep latestFirst (lookAtBackoff 0 d ?s1) (exTry n s)"
  proof -
    have "pcOf 0 (lookAtBackoff 0 d ?s1) = DSend d" "0 < length (dsWorkers (lookAtBackoff 0 d ?s1))"
      using d(2) len now by (simp_all add: lookAtBackoff_def pcOf_def setPc_def setWorker_def)
    from dstep.send [OF this(2,1)] show ?thesis by (simp add: exTry_def Let_def d(1))
  qed
  ultimately show ?thesis using assms(1) unfolding deliveryReach_def by (meson rtranclp.rtrancl_into_rtrancl)
qed

lemma exBacklog_reach: "deliveryReach latestFirst 1 exBacklog"
proof -
  let ?s = "startWorkers 1 (freshSys 1)" and ?ds = "[exDelivery, exDelivery\<lparr>dlKey := 1\<rparr>]"
  have "dstep latestFirst (freshSys 1) ?s" by (rule dstep.start)
  moreover have "dstep latestFirst ?s (pushDeliveries ?ds ?s)" by (rule dstep.push) code_simp
  ultimately have "deliveryReach latestFirst 1 (pushDeliveries ?ds ?s)"
    unfolding deliveryReach_def by (meson converse_rtranclp_into_rtranclp rtranclp.rtrancl_refl)
  then have "deliveryReach latestFirst 1 (exTry 10 (pushDeliveries ?ds ?s))"
    by (rule exTry_steps) code_simp+
  then show ?thesis unfolding exBacklog_def by (rule exTry_steps) code_simp+
qed

lemma exLate_reach: "deliveryReach latestFirst 1 exLate"
proof -
  let ?s1 = "nextDelivery latestFirst 0 exBacklog"
  have len: "0 < length (dsWorkers exBacklog)" "0 < length (dsWorkers ?s1)" by code_simp+
  obtain d where d: "pcOf 0 ?s1 = DHave d"
  proof -
    have "case pcOf 0 ?s1 of DHave d \<Rightarrow> True | _ \<Rightarrow> False" by code_simp
    then show ?thesis using that by (auto split: dpc.splits)
  qed
  have "dstep latestFirst exBacklog ?s1" by (rule dstep.next [OF len(1)]) code_simp
  moreover have "dstep latestFirst ?s1 (lookAtBackoff 0 d ?s1)" by (rule dstep.look [OF len(2) d])
  moreover have "dstep latestFirst (lookAtBackoff 0 d ?s1) (waitThen 0 (DSleeping d) (lookAtBackoff 0 d ?s1))"
  proof (rule dstep.sleep)
    show "0 < length (dsWorkers (lookAtBackoff 0 d ?s1))" using len by (simp add: lookAtBackoff_def setPc_def)
    have "case pcOf 0 ?s1 of DHave d \<Rightarrow> minBackoff < untilNext (dsNow ?s1) d | _ \<Rightarrow> False" by code_simp
    then show "pcOf 0 (lookAtBackoff 0 d ?s1) = DTimer d"
      using d len by (simp add: lookAtBackoff_def pcOf_def setPc_def setWorker_def)
  qed
  moreover have "dstep latestFirst (waitThen 0 (DSleeping d) (lookAtBackoff 0 d ?s1)) exLate"
  proof -
    have "dsNow ?s1 \<le> 9 * second" by code_simp
    then have "dsNow (waitThen 0 (DSleeping d) (lookAtBackoff 0 d ?s1)) \<le> 9 * second"
      by (simp add: waitThen_def lookAtBackoff_def setPc_def split: prod.splits)
    from dstep.tick [OF this] show ?thesis by (simp add: exLate_def Let_def d)
  qed
  ultimately show ?thesis using exBacklog_reach unfolding deliveryReach_def by (meson rtranclp.rtrancl_into_rtrancl)
qed

text \<open>The worker sleeps for the delivery that is due in a second and more, beside one that is due.\<close>

lemma due_delivery_waits:
  "deliveryReach latestFirst 1 exLate \<and> (\<exists>d c. pcOf 0 exLate = DSleeping d c \<and> dsNow exLate < dlNext d) \<and>
    (\<exists>e \<in> set (backlogOf 0 exLate). dlNext e < dsNow exLate)"
proof (intro conjI)
  have "case pcOf 0 exLate of DSleeping d c \<Rightarrow> dsNow exLate < dlNext d | _ \<Rightarrow> False" by code_simp
  then show "\<exists>d c. pcOf 0 exLate = DSleeping d c \<and> dsNow exLate < dlNext d" by (auto split: dpc.splits)
  have "list_ex (\<lambda>e. dlNext e < dsNow exLate) (backlogOf 0 exLate)" by code_simp
  then show "\<exists>e \<in> set (backlogOf 0 exLate). dlNext e < dsNow exLate" by (simp add: list_ex_iff)
qed (rule exLate_reach)

subsection \<open>Witnesses\<close>

theorem deliveries_accounted_witness: "distinct (dsPushed exLate) \<and> size (circulating exLate) = 2"
proof -
  have "mset (dsPushed exLate) = {#0, 1#}" "dsSent exLate = []" "dsGivenUp exLate = []" "dsDeleted exLate = []" "dsLost exLate = []"
    by code_simp+
  then have "distinct (dsPushed exLate) \<and> image_mset dlKey (circulating exLate) = {#0, 1#}"
    using deliveries_accounted [OF exLate_reach latestFirst_sorts] by simp
  then show ?thesis by (metis One_nat_def Suc_1 size_add_mset size_empty size_image_mset)
qed

theorem delivery_tries_bounded_witness: "count_list (dsTries exLate) 0 \<le> 6 \<and> length (dsTries exLate) = 2"
proof -
  have "length (dsTries exLate) = 2" by code_simp
  then show ?thesis using delivery_tries_bounded [OF exLate_reach latestFirst_sorts, of 0] by simp
qed

theorem doOnce_decision_witness:
  "fst (doOnce 1 (exFails 10) [''b.org''] (dlRequest exDelivery)) = (False, False)"
proof -
  obtain ok retry bad' r' where d: "doOnce 1 (exFails 10) [''b.org''] (dlRequest exDelivery) = ((ok, retry), bad', r')"
    by (metis prod.exhaust)
  have "hqAttempts (dlRequest exDelivery) \<le> maxRetries" "\<not> answered (exFails 10)" "hqHost (dlRequest exDelivery) \<in> set [''b.org'']"
    by code_simp+
  then have "\<not> ok" "\<not> retry" using doOnce_decision [OF _ d] by blast+
  then show ?thesis using d by simp
qed


theorem clientDo_returns_witness:
  "snd (snd (doLoop (\<lambda>n. (1, exFails 0)) (\<lambda>n. False) 0 [] (dlRequest exDelivery))) \<le> 6"
proof -
  obtain ok bad m where d: "doLoop (\<lambda>n. (1, exFails 0)) (\<lambda>n. False) 0 [] (dlRequest exDelivery) = (ok, bad, m)"
    by (metis prod.exhaust)
  have "hqAttempts (dlRequest exDelivery) \<le> maxRetries" by code_simp
  from clientDo_returns [OF this d] show ?thesis using d by (simp add: maxRetries_def exDelivery_def)
qed

end
