(* ===== verification/Sliced.thy ===== *)
theory Sliced
  imports RelationshipProps
begin

text \<open>
  A table behind a result cache together with the lists of its rows' IDs, group by group: what
  the tables of mutes and of favourites share (\<open>StructCache\<close> and \<open>SliceCache\<close> of
  \<open>src/internal/cache\<close>, as \<open>relationship_mute.go\<close> and \<open>statusfave.go\<close> use them, and the hooks
  \<open>OnInvalidateUserMute\<close> and \<open>OnInvalidateStatusFave\<close> of \<open>invalidate.go\<close>).

  A declaration gives the indices of the cache, the ID of a row and the group whose list it is in.
  The locale \<open>sliced\<close> proves once what the operations do to a coherent state.
\<close>

subsection \<open>Operations\<close>

record 'v sdecl =
  sdIxs :: "'v sindex list"
  sdID :: "'v \<Rightarrow> string"
  sdGroup :: "'v \<Rightarrow> string"

record 'v sliced =
  slTable :: "'v table"
  slIDs :: slices
  slFaults :: faults

definition hookIDs :: "'v sdecl \<Rightarrow> 'v \<Rightarrow> 'v sliced \<Rightarrow> 'v sliced" where
  "hookIDs d v s = s\<lparr>slIDs := invalidateSlices [sdGroup d v] (slIDs s)\<rparr>"

definition slLoad :: "'v sdecl \<Rightarrow> string \<Rightarrow> string list \<Rightarrow> ('v \<Rightarrow> bool) \<Rightarrow> 'v sliced \<Rightarrow> (lookup_error + 'v) \<times> 'v sliced" where
  "slLoad d lookup parts P s =
     (let (r, fs, t) = loadRow (sdIxs d) lookup parts P (slFaults s) (slTable s)
      in (r, s\<lparr>slTable := t, slFaults := fs\<rparr>))"

definition slInvalidate :: "'v sdecl \<Rightarrow> ixkey \<Rightarrow> 'v sliced \<Rightarrow> 'v sliced" where
  "slInvalidate d k s = (let (vs, t) = dropKey k (slTable s) in fold (hookIDs d) vs (s\<lparr>slTable := t\<rparr>))"

definition slStore :: "'v sdecl \<Rightarrow> 'v \<Rightarrow> ('v list \<Rightarrow> faults \<Rightarrow> (lookup_error + 'v list) \<times> faults) \<Rightarrow> 'v sliced \<Rightarrow>
    lookup_error option \<times> 'v sliced" where
  "slStore d v stmt s =
     (let (e, fs, t) = storeRow (sdIxs d) v stmt (slFaults s) (slTable s)
      in (e, hookIDs d v (s\<lparr>slTable := t, slFaults := fs\<rparr>)))"

definition slGroupIDs :: "string \<Rightarrow> page option \<Rightarrow> string list \<Rightarrow> 'v sliced \<Rightarrow> (lookup_error + string list) \<times> 'v sliced" where
  "slGroupIDs g po select s =
     (let (r, fs, m) = loadPagedIDs g po select (slFaults s) (slIDs s) in (r, s\<lparr>slFaults := fs, slIDs := m\<rparr>))"

definition slByIDs :: "'v sdecl \<Rightarrow> string list \<Rightarrow> 'v sliced \<Rightarrow> (lookup_error + 'v list) \<times> 'v sliced" where
  "slByIDs d ids s =
     (let (r, fs, t) = loadRows (idIndex (sdID d)) (sdIxs d) ids (slFaults s) (slTable s)
      in andThen (r, s\<lparr>slTable := t, slFaults := fs\<rparr>) (\<lambda>vs s'. (Inr (orderBy ids (sdID d) vs), s')))"

definition slDelete :: "('v \<Rightarrow> bool) \<Rightarrow> 'v sliced \<Rightarrow> lookup_error option \<times> 'v sliced" where
  "slDelete P s =
     (let (e, fs, t) = execDelete P (slFaults s) (slTable s) in (e, s\<lparr>slTable := t, slFaults := fs\<rparr>))"

text \<open>
  \<open>NewUpsert\<close> with the constraint on the ID (\<open>upsert.go\<close>): an insertion, or an update of all other
  columns of the row that has the ID; the other unique columns are checked in both cases.
\<close>

definition upsertRow :: "'v sdecl \<Rightarrow> 'v \<Rightarrow> 'v list \<Rightarrow> faults \<Rightarrow> (lookup_error + 'v list) \<times> faults" where
  "upsertRow d v rows fs =
     (if list_ex (\<lambda>w. sdID d w = sdID d v) rows then
        (case nextFault fs of
           (Some e, fs') \<Rightarrow> (Inl e, fs')
         | (None, fs') \<Rightarrow>
             ((if hasZero (sdIxs d) v then Inl (LOther ''NOT NULL'')
               else if list_ex (\<lambda>w. sdID d w \<noteq> sdID d v \<and> rowConflict (sdIxs d) v w) rows then Inl LAlreadyExists
               else Inr (map (\<lambda>w. if sdID d w = sdID d v then v else w) rows)), fs'))
      else insertRow (sdIxs d) v rows fs)"

definition putRow :: "('v \<Rightarrow> string) \<Rightarrow> 'v \<Rightarrow> 'v list \<Rightarrow> 'v list" where
  "putRow get v rows =
     (if list_ex (\<lambda>w. get w = get v) rows then map (\<lambda>w. if get w = get v then v else w) rows else rows @ [v])"

subsection \<open>Coherence\<close>

text \<open>\<open>good g rows ids\<close>: the list \<open>ids\<close> may be cached for the group \<open>g\<close> of the table \<open>rows\<close>.\<close>

definition slRows :: "'v sliced \<Rightarrow> 'v list" where
  "slRows s = tbRows (slTable s)"

definition slInv :: "'v sdecl \<Rightarrow> (string \<Rightarrow> 'v list \<Rightarrow> string list \<Rightarrow> bool) \<Rightarrow> 'v sliced \<Rightarrow> bool" where
  "slInv d good s \<longleftrightarrow> tblOK (sdIxs d) (slTable s) \<and> (\<forall>g ids. slIDs s g = Some ids \<longrightarrow> good g (slRows s) ids)"

definition slQuiet :: "'v sdecl \<Rightarrow> 'v sliced \<Rightarrow> 'v sliced \<Rightarrow> bool" where
  "slQuiet d s s' \<longleftrightarrow> quietTable (sdIxs d) (slTable s) (slTable s') \<and> slIDs s' \<subseteq>\<^sub>m slIDs s \<and> slFaults s' = slFaults s"

lemma slQuiet_refl [simp]: "slQuiet d s s"
  by (simp add: slQuiet_def)

lemma slQuiet_trans: "slQuiet d s t \<Longrightarrow> slQuiet d t u \<Longrightarrow> slQuiet d s u"
  unfolding slQuiet_def by (auto intro: quietTable_trans map_le_trans)

lemma slQuiet_hook: "slQuiet d s (hookIDs d v s)"
  by (simp add: slQuiet_def hookIDs_def)

lemma slQuiet_hooks: "slQuiet d s (fold (hookIDs d) vs s)"
  by (induction vs arbitrary: s) (auto intro: slQuiet_trans [OF slQuiet_hook])

lemma hookIDs_simps [simp]: "slTable (hookIDs d v s) = slTable s" "slFaults (hookIDs d v s) = slFaults s"
  "slIDs (hookIDs d v s) (sdGroup d v) = None"
  by (simp_all add: hookIDs_def invalidateSlices_def)

lemma hooks_table [simp]: "slTable (fold (hookIDs d) vs s) = slTable s" "slFaults (fold (hookIDs d) vs s) = slFaults s"
  by (induction vs arbitrary: s) simp_all

lemma slQuiet_rows: "slQuiet d s s' \<Longrightarrow> slRows s' = slRows s"
  by (simp add: slQuiet_def quietTable_def slRows_def)

lemma slQuiet_some: "slQuiet d s s' \<Longrightarrow> slIDs s' g = Some ids \<Longrightarrow> slIDs s g = Some ids"
  unfolding slQuiet_def map_le_def by (metis domI)

lemma slQuiet_inv: "slQuiet d s s' \<Longrightarrow> slInv d good s \<Longrightarrow> slInv d good s'"
  unfolding slInv_def using slQuiet_rows slQuiet_some quietTable_OK by (metis slQuiet_def)

lemma slInv_upd [simp]: "slInv d good (s\<lparr>slFaults := fs\<rparr>) = slInv d good s"
  by (simp add: slInv_def slRows_def)

definition slEvict :: "('v item \<Rightarrow> bool) \<Rightarrow> (string \<Rightarrow> bool) \<Rightarrow> 'v sliced \<Rightarrow> 'v sliced" where
  "slEvict P G s = s\<lparr>slTable := (slTable s)\<lparr>tbCache := filter P (tbCache (slTable s))\<rparr>, slIDs := (\<lambda>g. if G g then slIDs s g else None)\<rparr>"

locale sliced = indexed "sdIxs d" for d :: "'v sdecl" +
  fixes good :: "string \<Rightarrow> 'v list \<Rightarrow> string list \<Rightarrow> bool"
  assumes id_index: "idIndex (sdID d) \<in> set (sdIxs d)"
    and good_group: "good g rows ids \<Longrightarrow> filter (\<lambda>v. sdGroup d v = g) rows' = filter (\<lambda>v. sdGroup d v = g) rows \<Longrightarrow>
      good g rows' ids"
begin

lemma id_unique [simp]: "\<not> ixMultiple (idIndex (sdID d))"
  by (simp add: idIndex_def)

lemma slQuiet_invalidate: "slQuiet d s (slInvalidate d k s)"
proof -
  obtain vs t where k: "dropKey k (slTable s) = (vs, t)" by fastforce
  have "slQuiet d s (s\<lparr>slTable := t\<rparr>)" using quiet_dropKey [of "slTable s" k] k by (simp add: slQuiet_def)
  then show ?thesis using slQuiet_trans [OF _ slQuiet_hooks] by (simp add: slInvalidate_def k)
qed

lemma slInv_invalidate: "slInv d good s \<Longrightarrow> slInv d good (slInvalidate d k s)"
  by (rule slQuiet_inv [OF slQuiet_invalidate])

lemma slRows_invalidate [simp]: "slRows (slInvalidate d k s) = slRows s"
  by (rule slQuiet_rows [OF slQuiet_invalidate])

lemma slFaults_invalidate [simp]: "slFaults (slInvalidate d k s) = slFaults s"
  using slQuiet_invalidate [of s k] by (simp add: slQuiet_def)

lemma slInv_evict: "slInv d good s \<Longrightarrow> slInv d good (slEvict P G s)"
  by (auto simp: slInv_def slEvict_def tblOK_def slRows_def cacheInv_filter split: if_splits)

lemma slLoad_ok:
  assumes "slInv d good s" and "i \<in> set (sdIxs d)" and "\<not> ixMultiple i"
    and "slLoad d (ixName i) parts (\<lambda>v. ixFields i v = parts) s = (r, s')"
  shows "answers r (rowsLookup i parts (slRows s))" and "slInv d good s'" and "slRows s' = slRows s" and "slIDs s' = slIDs s"
    and "slFaults s = [] \<Longrightarrow> r = rowsLookup i parts (slRows s) \<and> slFaults s' = []"
    and "r = Inr v \<Longrightarrow> getValues (ixKey i parts) (tbCache (slTable s')) = [v]"
proof -
  obtain fs t where l: "loadRow (sdIxs d) (ixName i) parts (\<lambda>v. ixFields i v = parts) (slFaults s) (slTable s) = (r, fs, t)"
    and s': "s' = s\<lparr>slTable := t, slFaults := fs\<rparr>"
    using assms(4) by (auto simp: slLoad_def split: prod.splits)
  have tb: "tblOK (sdIxs d) (slTable s)" using assms(1) by (simp add: slInv_def)
  note ok = loadRow_ok [OF tb assms(2,3) l]
  show "answers r (rowsLookup i parts (slRows s))" and "slRows s' = slRows s" and "slIDs s' = slIDs s"
    using ok(1,3) by (simp_all add: slRows_def s')
  then show "slInv d good s'" using assms(1) ok(2) by (simp add: slInv_def s')
  show "r = rowsLookup i parts (slRows s) \<and> slFaults s' = []" if "slFaults s = []"
    using ok(4) that by (simp add: slRows_def s')
  show "getValues (ixKey i parts) (tbCache (slTable s')) = [v]" if "r = Inr v" using ok(5) [OF that] by (simp add: s')
qed

text \<open>A new table: the lists of the groups in which a row changed are gone.\<close>

lemma slInv_change:
  assumes "slInv d good s" and "tblOK (sdIxs d) (slTable s')" and "\<And>g ids. slIDs s' g = Some ids \<Longrightarrow> slIDs s g = Some ids"
    and "\<And>g. slIDs s' g \<noteq> None \<Longrightarrow> filter (\<lambda>v. sdGroup d v = g) (slRows s') = filter (\<lambda>v. sdGroup d v = g) (slRows s)"
  shows "slInv d good s'"
  unfolding slInv_def
proof (intro conjI allI impI)
  show "tblOK (sdIxs d) (slTable s')" by (rule assms(2))
  fix g ids assume "slIDs s' g = Some ids"
  then have "good g (slRows s) ids" and "filter (\<lambda>v. sdGroup d v = g) (slRows s') = filter (\<lambda>v. sdGroup d v = g) (slRows s)"
    using assms(1,3,4) by (auto simp: slInv_def)
  then show "good g (slRows s') ids" by (rule good_group)
qed

lemma hookIDs_some: "slIDs (hookIDs d v s) g = Some ids \<Longrightarrow> slIDs s g = Some ids \<and> g \<noteq> sdGroup d v"
  by (auto simp: hookIDs_def invalidateSlices_def split: if_splits)

text \<open>An insertion, of which the database may check more than the indices of the cache.\<close>

lemma slStore_insert:
  assumes "slInv d good s" and "slStore d v stmt s = (e, s')"
    and "\<And>rows fs. stmt rows fs = insertRow (sdIxs d) v rows fs \<or> (\<exists>err. stmt rows fs = (Inl err, snd (nextFault fs)))"
  shows "slInv d good s'" and "slRows s' = (if e = None then slRows s @ [v] else slRows s)"
proof -
  obtain fs t where st: "storeRow (sdIxs d) v stmt (slFaults s) (slTable s) = (e, fs, t)"
    and s': "s' = hookIDs d v (s\<lparr>slTable := t, slFaults := fs\<rparr>)"
    using assms(2) by (auto simp: slStore_def split: prod.splits)
  have tb: "tblOK (sdIxs d) (slTable s)" using assms(1) by (simp add: slInv_def)
  have t: "tblOK (sdIxs d) t \<and> tbRows t = (if e = None then slRows s @ [v] else slRows s)"
  proof (cases "stmt (slRows s) (slFaults s) = insertRow (sdIxs d) v (slRows s) (slFaults s)")
    case True
    then have "storeRow (sdIxs d) v (insertRow (sdIxs d) v) (slFaults s) (slTable s) = (e, fs, t)"
      using st by (simp add: storeRow_def slRows_def)
    from storeRow_insert [OF tb this] show ?thesis by (simp add: slRows_def)
  next
    case False
    then obtain err where "stmt (slRows s) (slFaults s) = (Inl err, snd (nextFault (slFaults s)))" using assms(3) by blast
    then show ?thesis using st tb by (auto simp: storeRow_def slRows_def)
  qed
  then show "slRows s' = (if e = None then slRows s @ [v] else slRows s)" by (simp add: s' slRows_def)
  show "slInv d good s'"
  proof (rule slInv_change [OF assms(1)])
    show "tblOK (sdIxs d) (slTable s')" using t by (simp add: s')
    show "slIDs s g = Some ids" if "slIDs s' g = Some ids" for g ids
      using hookIDs_some [OF that [unfolded s']] by simp
    show "filter (\<lambda>v. sdGroup d v = g) (slRows s') = filter (\<lambda>v. sdGroup d v = g) (slRows s)" if "slIDs s' g \<noteq> None" for g
      using that hookIDs_some [of v "s\<lparr>slTable := t, slFaults := fs\<rparr>" g] t by (auto simp: s' slRows_def)
  qed
qed

text \<open>An upsert that leaves the indexed columns and the group of a row alone.\<close>

lemma slStore_upsert:
  assumes inv: "slInv d good s" and st: "slStore d v (upsertRow d v) s = (e, s')"
    and same: "\<And>w. w \<in> set (slRows s) \<Longrightarrow> sdID d w = sdID d v \<Longrightarrow>
      sdGroup d w = sdGroup d v \<and> (\<forall>i \<in> set (sdIxs d). ixFields i v = ixFields i w)"
  shows "slInv d good s'" and "slRows s' = (if e = None then putRow (sdID d) v (slRows s) else slRows s)"
proof -
  have "slInv d good s' \<and> slRows s' = (if e = None then putRow (sdID d) v (slRows s) else slRows s)"
  proof (cases "list_ex (\<lambda>w. sdID d w = sdID d v) (slRows s)")
    case False
    have "upsertRow d v (slRows s) fs = insertRow (sdIxs d) v (slRows s) fs" for fs using False by (simp add: upsertRow_def)
    then have st': "slStore d v (insertRow (sdIxs d) v) s = (e, s')" using st by (simp add: slStore_def storeRow_def slRows_def)
    have "slInv d good s'" by (rule slStore_insert(1) [OF inv st']) simp
    moreover have "slRows s' = (if e = None then slRows s @ [v] else slRows s)" by (rule slStore_insert(2) [OF inv st']) simp
    ultimately show ?thesis using False by (simp add: putRow_def)
  next
    case True
    then obtain r where r: "r \<in> set (slRows s)" "sdID d r = sdID d v" by (auto simp: list_ex_iff)
    have tb: "tblOK (sdIxs d) (slTable s)" using inv by (simp add: slInv_def)
    then have tab: "tableOK (sdIxs d) (slRows s)" by (simp add: tblOK_def slRows_def)
    have one: "sdID d w = sdID d v \<longleftrightarrow> w = r" if "w \<in> set (slRows s)" for w
      using tableOK_unique [OF tab id_index id_unique that r(1)] r(2) by (auto simp: idIndex_def)
    obtain fs t where m: "storeRow (sdIxs d) v (upsertRow d v) (slFaults s) (slTable s) = (e, fs, t)"
      and s': "s' = hookIDs d v (s\<lparr>slTable := t, slFaults := fs\<rparr>)"
      using st by (auto simp: slStore_def split: prod.splits)
    have put: "putRow (sdID d) v (slRows s) = map (\<lambda>w. if w = r then v else w) (slRows s)"
      using True one by (auto simp: putRow_def)
    have t: "tblOK (sdIxs d) t \<and> tbRows t = (if e = None then putRow (sdID d) v (slRows s) else slRows s)"
    proof (cases e)
      case None
      let ?stmt = "updateRow (\<lambda>w. sdID d w = sdID d v) (\<lambda>_. v)"
      have m': "storeRow (sdIxs d) v ?stmt (slFaults s) (slTable s) = (None, fs, t)"
        using m None True by (auto simp: storeRow_def upsertRow_def updateRow_def slRows_def split: prod.splits option.splits if_splits)
      have f: "ixFields i v = ixFields i r" if "i \<in> set (sdIxs d)" for i using same [OF r] that by simp
      have o: "sdID d x = sdID d v \<longleftrightarrow> x = r" if "x \<in> set (tbRows (slTable s))" for x using one that by (simp add: slRows_def)
      note up = storeRow_update [OF tb r(1)[unfolded slRows_def] o refl f m']
      show ?thesis using up(1,2) None put by (simp add: slRows_def)
    next
      case (Some err)
      then show ?thesis using m tb by (auto simp: storeRow_def slRows_def split: prod.splits sum.splits)
    qed
    have "slInv d good s'"
    proof (rule slInv_change [OF inv])
      show "tblOK (sdIxs d) (slTable s')" using t by (simp add: s')
      show "slIDs s g = Some ids" if "slIDs s' g = Some ids" for g ids using hookIDs_some [OF that [unfolded s']] by simp
      fix g assume "slIDs s' g \<noteq> None"
      then have g: "g \<noteq> sdGroup d v" by (auto simp: s')
      have "filter (\<lambda>v. sdGroup d v = g) (map (\<lambda>w. if w = r then v else w) xs) = filter (\<lambda>v. sdGroup d v = g) xs" for xs
        using g same [OF r] by (induction xs) auto
      then show "filter (\<lambda>v. sdGroup d v = g) (slRows s') = filter (\<lambda>v. sdGroup d v = g) (slRows s)"
        using t put by (auto simp: s' slRows_def)
    qed
    then show ?thesis using t by (simp add: s' slRows_def)
  qed
  then show "slInv d good s'" and "slRows s' = (if e = None then putRow (sdID d) v (slRows s) else slRows s)" by auto
qed

text \<open>A row with a given key is deleted, and the items under the key are dropped.\<close>

lemma slInv_deleted:
  assumes "slInv d good s" and "i \<in> set (sdIxs d)" and "\<not> ixMultiple i"
    and "slRows s' = filter (\<lambda>v. ixFields i v \<noteq> parts) (slRows s) \<or> slRows s' = slRows s"
    and "cacheInv (sdIxs d) (slRows s) (tbCache (slTable s'))" and "holders (ixKey i parts) (tbCache (slTable s')) = []"
    and "\<And>g ids. slIDs s' g = Some ids \<Longrightarrow> slIDs s g = Some ids"
    and "\<And>v. v \<in> set (slRows s) \<Longrightarrow> ixFields i v = parts \<Longrightarrow> slIDs s' (sdGroup d v) = None"
  shows "slInv d good s'"
proof (rule slInv_change [OF assms(1) _ assms(7)])
  have "tblOK (sdIxs d) (slTable s)" using assms(1) by (simp add: slInv_def)
  then show "tblOK (sdIxs d) (slTable s')"
    by (rule tblOK_deleted [OF _ assms(2,3) assms(4)[unfolded slRows_def] assms(5)[unfolded slRows_def] assms(6)])
  fix g assume g: "slIDs s' g \<noteq> None"
  have "ixFields i v \<noteq> parts" if "v \<in> set (slRows s)" "sdGroup d v = g" for v using assms(8) [OF that(1)] that(2) g by blast
  then have "filter (\<lambda>v. sdGroup d v = g) (filter (\<lambda>v. ixFields i v \<noteq> parts) (slRows s)) = filter (\<lambda>v. sdGroup d v = g) (slRows s)"
    by (simp add: filter_filter) (rule filter_cong, auto)
  then show "filter (\<lambda>v. sdGroup d v = g) (slRows s') = filter (\<lambda>v. sdGroup d v = g) (slRows s)" using assms(4) by auto
qed

lemma slDelete_cases:
  assumes "slDelete P s = (e, s')"
  obtains fs t where "s' = s\<lparr>slTable := t, slFaults := fs\<rparr>" "tbCache t = tbCache (slTable s)"
    "tbRows t = (if e = None then filter (\<lambda>v. \<not> P v) (slRows s) else slRows s)" "slFaults s = [] \<longrightarrow> e = None \<and> fs = []"
proof -
  obtain fs t where x: "execDelete P (slFaults s) (slTable s) = (e, fs, t)" and s': "s' = s\<lparr>slTable := t, slFaults := fs\<rparr>"
    using assms by (auto simp: slDelete_def split: prod.splits)
  show ?thesis by (rule that [OF s']) (use execDelete_cases [OF x] in \<open>simp_all add: slRows_def\<close>)
qed

text \<open>The row is loaded first, so that the invalidation finds it and calls the hook.\<close>

lemma slDelete_loaded:
  assumes inv: "slInv d good s" and i: "i \<in> set (sdIxs d)" "\<not> ixMultiple i"
    and l: "slLoad d (ixName i) parts (\<lambda>v. ixFields i v = parts) s = (Inr v, s1)"
    and P: "\<And>x. P x \<longleftrightarrow> ixFields i x = parts" and x: "slDelete P s1 = (e, s2)"
  shows "slInv d good (slInvalidate d (ixKey i parts) s2)"
    and "slRows s2 = (if e = None then filter (\<lambda>v. ixFields i v \<noteq> parts) (slRows s) else slRows s)"
    and "slFaults s = [] \<Longrightarrow> e = None \<and> slFaults s2 = []"
proof -
  let ?k = "ixKey i parts"
  note ok = slLoad_ok [OF inv i l]
  obtain fs t where s2: "s2 = s1\<lparr>slTable := t, slFaults := fs\<rparr>" and t: "tbCache t = tbCache (slTable s1)"
    "tbRows t = (if e = None then filter (\<lambda>v. \<not> P v) (slRows s1) else slRows s1)" and nf: "slFaults s1 = [] \<longrightarrow> e = None \<and> fs = []"
    by (rule slDelete_cases [OF x])
  show rows: "slRows s2 = (if e = None then filter (\<lambda>v. ixFields i v \<noteq> parts) (slRows s) else slRows s)"
    using t(2) ok(3) P by (simp add: s2 slRows_def)
  show "e = None \<and> slFaults s2 = []" if "slFaults s = []" using nf ok(5) that by (simp add: s2)
  have cinv: "cacheInv (sdIxs d) (slRows s) (tbCache t)" using ok(2,3) t(1) by (simp add: slInv_def tblOK_def slRows_def)
  have uk: "isUnique (sdIxs d) ?k" using isUnique_ixKey i by simp
  obtain vs u where d: "dropKey ?k t = (vs, u)" by fastforce
  have vs: "vs = [v]"
    using d invalidateKey_unique(2) [OF cinv uk] ok(6) t(1) by (auto simp: dropKey_def split: prod.splits)
  have s3: "slInvalidate d ?k s2 = hookIDs d v (s2\<lparr>slTable := u\<rparr>)" by (simp add: slInvalidate_def s2 d vs)
  have tab: "tableOK (sdIxs d) (slRows s)" using inv by (simp add: slInv_def tblOK_def slRows_def)
  have "rowsLookup i parts (slRows s) = Inr v" using ok(1) by (auto simp: answers_def)
  from rowsLookup_Inr [OF this] have v: "v \<in> set (slRows s)" "ixFields i v = parts" by simp_all
  show "slInv d good (slInvalidate d ?k s2)"
  proof (rule slInv_deleted [OF inv i])
    show "slRows (slInvalidate d ?k s2) = filter (\<lambda>v. ixFields i v \<noteq> parts) (slRows s) \<or> slRows (slInvalidate d ?k s2) = slRows s"
      using rows by simp
    have c: "tbCache u = snd (invalidateKey ?k (tbCache t))" using d by (auto simp: dropKey_def split: prod.splits)
    show "cacheInv (sdIxs d) (slRows s) (tbCache (slTable (slInvalidate d ?k s2)))"
      using cacheInv_invalidateKey [OF cinv] by (simp add: s3 c)
    show "holders ?k (tbCache (slTable (slInvalidate d ?k s2))) = []" by (simp add: s3 c holders_invalidateKey)
    show "slIDs s g = Some ids" if "slIDs (slInvalidate d ?k s2) g = Some ids" for g ids
      using hookIDs_some [OF that [unfolded s3]] ok(4) by (simp add: s2)
    show "slIDs (slInvalidate d ?k s2) (sdGroup d w) = None" if "w \<in> set (slRows s)" "ixFields i w = parts" for w
      using tableOK_unique [OF tab i that(1) v(1)] that(2) v(2) by (simp add: s3)
  qed
qed

text \<open>Lists of IDs, and the rows of a list.\<close>

lemma slGroupIDs_ok:
  assumes "slInv d good s" and "good g (slRows s) sel" and "slGroupIDs g po sel s = (r, s')"
  shows "slInv d good s'" and "slTable s' = slTable s"
    and "r = Inr ids \<Longrightarrow> \<exists>all. good g (slRows s) all \<and> ids = pagedIDs po all"
    and "slFaults s = [] \<Longrightarrow> (\<exists>ids. r = Inr ids) \<and> slFaults s' = []"
proof -
  obtain r0 fs m where l: "loadSlice g sel (slFaults s) (slIDs s) = (r0, fs, m)" by (metis prod.exhaust)
  have r0: "(\<exists>all. r0 = Inr all \<and> good g (slRows s) all) \<or> (\<exists>e. r0 = Inl e \<and> slFaults s \<noteq> [])"
    using l assms(1,2) by (cases "slFaults s")
      (auto simp: loadSlice_def slInv_def nextFault_def split: option.splits prod.splits)
  have m: "(\<forall>k ids. m k = Some ids \<longrightarrow> good k (slRows s) ids) \<and> (slFaults s = [] \<longrightarrow> fs = [])"
    using l assms(1,2) by (auto simp: loadSlice_def slInv_def split: option.splits prod.splits if_splits)
  have "(\<exists>all. good g (slRows s) all \<and> r = Inr (pagedIDs po all)) \<or> (\<exists>e. r = Inl e \<and> slFaults s \<noteq> [])"
    using assms(3) l r0 by (auto simp: slGroupIDs_def loadPagedIDs_def pagedIDs_def)
  moreover have "s' = s\<lparr>slFaults := fs, slIDs := m\<rparr>"
    using assms(3) l by (cases r0) (auto simp: slGroupIDs_def loadPagedIDs_def)
  then have "slTable s' = slTable s \<and> (\<forall>k ids. slIDs s' k = Some ids \<longrightarrow> good k (slRows s) ids) \<and>
      (slFaults s = [] \<longrightarrow> slFaults s' = [])" using m by simp
  ultimately show "slInv d good s'" and "slTable s' = slTable s"
    and "r = Inr ids \<Longrightarrow> \<exists>all. good g (slRows s) all \<and> ids = pagedIDs po all"
    and "slFaults s = [] \<Longrightarrow> (\<exists>ids. r = Inr ids) \<and> slFaults s' = []"
    using assms(1) by (auto simp: slInv_def slRows_def)
qed

lemma slByIDs_ok:
  assumes inv: "slInv d good s" and "slByIDs d ids s = (r, s')" and dist: "distinct ids" and sub: "set ids \<subseteq> sdID d ` set (slRows s)"
  shows "slInv d good s'" and "slRows s' = slRows s" and "slIDs s' = slIDs s"
    and "r = Inr vs \<Longrightarrow> vs = map (rowOf (sdID d) (slRows s)) ids"
    and "slFaults s = [] \<Longrightarrow> (\<exists>vs. r = Inr vs) \<and> slFaults s' = []"
proof -
  obtain r0 fs t where l: "loadRows (idIndex (sdID d)) (sdIxs d) ids (slFaults s) (slTable s) = (r0, fs, t)"
    by (metis prod.exhaust)
  have tb: "tblOK (sdIxs d) (slTable s)" using inv by (simp add: slInv_def)
  note ok = loadRows_ok [OF tb id_index id_unique l]
  have m: "(r, s') = andThen (r0, s\<lparr>slTable := t, slFaults := fs\<rparr>) (\<lambda>vs s'. (Inr (orderBy ids (sdID d) vs), s'))"
    using assms(2) l by (simp add: slByIDs_def)
  then have s': "s' = s\<lparr>slTable := t, slFaults := fs\<rparr>" by (cases r0) auto
  show "slRows s' = slRows s" and "slIDs s' = slIDs s" using ok(2) by (simp_all add: s' slRows_def)
  then show "slInv d good s'" using inv ok(1) by (simp add: slInv_def s')
  show "vs = map (rowOf (sdID d) (slRows s)) ids" if rv: "r = Inr vs"
  proof -
    obtain ws where "r0 = Inr ws" "vs = orderBy ids (sdID d) ws" using m rv by (cases r0) auto
    then show ?thesis
      using loadRows_ordered [OF tb id_index id_unique _ l dist sub[unfolded slRows_def]] by (simp add: slRows_def idIndex_def)
  qed
  show "(\<exists>vs. r = Inr vs) \<and> slFaults s' = []" if "slFaults s = []"
    using m ok(5,6) that by (auto simp: s')
qed

lemma distinct_ids: "slInv d good s \<Longrightarrow> distinct (map (sdID d) (filter P (slRows s)))"
  using distinct_column [OF _ id_index id_unique, of "slTable s" "sdID d" P] by (simp add: slInv_def slRows_def idIndex_def)

lemma rowOf_id:
  assumes "slInv d good s" and "v \<in> set (slRows s)"
  shows "rowOf (sdID d) (slRows s) (sdID d v) = v"
proof -
  have "tableOK (sdIxs d) (slRows s)" using assms(1) by (simp add: slInv_def tblOK_def slRows_def)
  moreover have "rowOf (sdID d) (slRows s) (sdID d v) \<in> set (slRows s)"
    "sdID d (rowOf (sdID d) (slRows s) (sdID d v)) = sdID d v"
    using rowOf_mem [of "sdID d v" "sdID d" "slRows s"] assms(2) by simp_all
  ultimately show ?thesis using tableOK_unique [OF _ id_index id_unique _ assms(2)] by (simp add: idIndex_def)
qed

end

end
