(* ===== verification/Mutes.thy ===== *)
theory Mutes
  imports Sliced AccountActions "HOL-Library.AList"
begin

text \<open>
  Mutes: \<open>src/internal/db/bundb/relationship_mute.go\<close> with its caches, the handlers of
  \<open>src/internal/processing/account/mute.go\<close>, and the compiled lists of
  \<open>src/internal/filter/usermute\<close> that timelines ask.

  The clock is an argument of every query that compares with it. As in \<open>AccountActions\<close>, the
  relationship that a handler answers with is looked up in the state after the change; what that
  leaves in the cache of mutes changes no answer.
\<close>

subsection \<open>Rows and lookups\<close>

record user_mute =
  umID :: string
  umExpiresAt :: time
  umAccountID :: string
  umTargetAccountID :: string
  umNotifications :: bool

type_synonym mutestate = "user_mute sliced"

definition userMuteExpired :: "user_mute \<Rightarrow> time \<Rightarrow> bool" where
  "userMuteExpired m now \<longleftrightarrow> \<not> isZeroTime (umExpiresAt m) \<and> \<not> now < umExpiresAt m"

definition muteDecl :: "user_mute sdecl" where
  "muteDecl = \<lparr>sdIxs = [idIndex umID, pairIndex umAccountID umTargetAccountID,
       multiIndex ''AccountID'' umAccountID, multiIndex ''TargetAccountID'' umTargetAccountID],
     sdID = umID, sdGroup = umAccountID\<rparr>"

definition getMuteByID' :: "string \<Rightarrow> mutestate \<Rightarrow> (lookup_error + user_mute) \<times> mutestate" where
  "getMuteByID' i = slLoad muteDecl ''ID'' [i] (\<lambda>m. umID m = i)"

definition getMute' :: "string \<Rightarrow> string \<Rightarrow> mutestate \<Rightarrow> (lookup_error + user_mute) \<times> mutestate" where
  "getMute' src tgt = slLoad muteDecl ''AccountID,TargetAccountID'' [src, tgt]
     (\<lambda>m. umAccountID m = src \<and> umTargetAccountID m = tgt)"

definition populateMute :: "(string \<Rightarrow> lookup_error + account) \<Rightarrow> user_mute \<Rightarrow> lookup_error option" where
  "populateMute acct m = populateErr acct (umAccountID m) (umTargetAccountID m)"

definition getMuteByID where
  "getMuteByID acct i s = populated (populateMute acct) (getMuteByID' i s)"

definition getMute where
  "getMute acct src tgt s = populated (populateMute acct) (getMute' src tgt s)"

definition isMuted :: "string \<Rightarrow> string \<Rightarrow> mutestate \<Rightarrow> (lookup_error + bool) \<times> mutestate" where
  "isMuted src tgt s = andThen (noEntriesOK (getMute' src tgt s)) (\<lambda>m s'. (Inr (m \<noteq> None), s'))"

text \<open>
  The select of the IDs leaves out what has expired. SQLite compares the text of the time with that
  of the date of today, so that it keeps what expires today.
\<close>

definition day :: int where
  "day = 24 * 3600 * second"

definition notYetExpired :: "bool \<Rightarrow> time \<Rightarrow> user_mute \<Rightarrow> bool" where
  "notYetExpired sqlite now m \<longleftrightarrow> isZeroTime (umExpiresAt m) \<or>
     (if sqlite then now - now mod day \<le> umExpiresAt m else now < umExpiresAt m)"

definition newSelectMutes :: "bool \<Rightarrow> time \<Rightarrow> string \<Rightarrow> user_mute list \<Rightarrow> string list" where
  "newSelectMutes sqlite now a rows =
     descIDs (map umID (filter (\<lambda>m. umAccountID m = a \<and> notYetExpired sqlite now m) rows))"

definition getAccountMuteIDs :: "bool \<Rightarrow> time \<Rightarrow> string \<Rightarrow> page option \<Rightarrow> mutestate \<Rightarrow>
    (lookup_error + string list) \<times> mutestate" where
  "getAccountMuteIDs sqlite now a po s = slGroupIDs a po (newSelectMutes sqlite now a (slRows s)) s"

definition getAccountMutes' :: "bool \<Rightarrow> time \<Rightarrow> string \<Rightarrow> page option \<Rightarrow> mutestate \<Rightarrow>
    (lookup_error + user_mute list) \<times> mutestate" where
  "getAccountMutes' sqlite now a po s = andThen (getAccountMuteIDs sqlite now a po s) (slByIDs muteDecl)"

definition getAccountMutes :: "bool \<Rightarrow> time \<Rightarrow> (string \<Rightarrow> lookup_error + account) \<Rightarrow> string \<Rightarrow> page option \<Rightarrow>
    mutestate \<Rightarrow> (lookup_error + user_mute list) \<times> mutestate" where
  "getAccountMutes sqlite now acct a po s =
     andThen (getAccountMutes' sqlite now a po s) (\<lambda>ms s'. (Inr (filter (\<lambda>m. populateMute acct m = None) ms), s'))"

subsection \<open>Changes\<close>

definition putMute :: "user_mute \<Rightarrow> mutestate \<Rightarrow> lookup_error option \<times> mutestate" where
  "putMute m s = slStore muteDecl m (upsertRow muteDecl m) s"

definition deleteMuteByID :: "string \<Rightarrow> mutestate \<Rightarrow> lookup_error option \<times> mutestate" where
  "deleteMuteByID i s =
     (case getMuteByID' i s of
        (Inl e, s1) \<Rightarrow> (if e = LNoEntries then None else Some e, s1)
      | (Inr m, s1) \<Rightarrow>
          (case slDelete (\<lambda>x. umID x = i) s1 of (e, s2) \<Rightarrow> (e, slInvalidate muteDecl (key1 ''ID'' i) s2)))"

definition deleteAccountMutes :: "bool \<Rightarrow> time \<Rightarrow> (string \<Rightarrow> lookup_error + account) \<Rightarrow> string \<Rightarrow> mutestate \<Rightarrow>
    lookup_error option \<times> mutestate" where
  "deleteAccountMutes sqlite now acct a s =
     (case nextFault (slFaults s) of
        (Some e, fs) \<Rightarrow> (Some e, s\<lparr>slFaults := fs\<rparr>)
      | (None, fs) \<Rightarrow>
          (let ids = map umID (filter (\<lambda>m. umAccountID m = a \<or> umTargetAccountID m = a) (slRows s));
               (e, s') =
                 (case getAccountMutes sqlite now acct a None (s\<lparr>slFaults := fs\<rparr>) of
                    (r, s1) \<Rightarrow>
                      if realError r then (Some (projl r), s1)
                      else slDelete (\<lambda>m. umID m \<in> set ids) s1)
           in (e, slInvalidate muteDecl (key1 ''TargetAccountID'' a) (slInvalidate muteDecl (key1 ''AccountID'' a) s'))))"

subsection \<open>The handlers\<close>

record mute_form =
  mfNotifications :: bool
  mfDuration :: "int option"

record mute_proc =
  mpRel :: relstate
  mpMutes :: mutestate

definition onMutes :: "(mutestate \<Rightarrow> 'r \<times> mutestate) \<Rightarrow> mute_proc \<Rightarrow> 'r \<times> mute_proc" where
  "onMutes f mp = (let (r, s) = f (mpMutes mp) in (r, mp\<lparr>mpMutes := s\<rparr>))"

definition muteInfo :: "user_mute \<Rightarrow> mute_info" where
  "muteInfo m = \<lparr>muExpiresAt = umExpiresAt m, muNotifications = umNotifications m\<rparr>"

definition muteRelationshipGet :: "action_env \<Rightarrow> account \<Rightarrow> string \<Rightarrow> mute_proc \<Rightarrow> (http_error + relationship) \<times> mute_proc" where
  "muteRelationshipGet env req tgt mp =
     (let (r, st) = getRelationship (aeNote env) (\<lambda>a b. map_sum id muteInfo (fst (getMute (aeAccount env) a b (mpMutes mp)))) (aeNow env)
            (acID req) tgt (mpRel mp)
      in withCode ErrInternal (r, mp\<lparr>mpRel := st\<rparr>))"

definition getMuteTarget :: "action_env \<Rightarrow> account \<Rightarrow> string \<Rightarrow> mute_proc \<Rightarrow>
    (http_error + account \<times> user_mute option) \<times> mute_proc" where
  "getMuteTarget env req i mp =
     (if acID req = i then (Inl ErrNotAcceptable, mp)
      else
        (case aeAccount env i of
           Inl e \<Rightarrow> (Inl (if e \<noteq> LNoEntries then ErrInternal else ErrNotFound), mp)
         | Inr target \<Rightarrow>
             andThen (withCode ErrInternal (onMutes (\<lambda>s. noEntriesOK (getMute (aeAccount env) (acID req) i s)) mp))
               (\<lambda>m mp'. (Inr (target, m), mp'))))"

text \<open>The product of the duration wraps around.\<close>

definition newMute :: "action_env \<Rightarrow> account \<Rightarrow> string \<Rightarrow> mute_form \<Rightarrow> user_mute option \<Rightarrow> user_mute" where
  "newMute env req i form existing =
     \<lparr>umID = (case existing of Some m \<Rightarrow> umID m | None \<Rightarrow> aeULID env),
      umExpiresAt = (case mfDuration form of None \<Rightarrow> 0 | Some n \<Rightarrow> aeNow env + wrap64 (second * n)),
      umAccountID = acID req, umTargetAccountID = i, umNotifications = mfNotifications form\<rparr>"

definition muteCreate :: "action_env \<Rightarrow> account \<Rightarrow> string \<Rightarrow> mute_form \<Rightarrow> mute_proc \<Rightarrow>
    (http_error + relationship) \<times> mute_proc" where
  "muteCreate env req i form mp =
     andThen (getMuteTarget env req i mp) (\<lambda>(target, existing) mp1.
       if (case existing of
             None \<Rightarrow> False
           | Some m \<Rightarrow> umNotifications m = mfNotifications form \<and> isZeroTime (umExpiresAt m) \<and> mfDuration form = None)
       then muteRelationshipGet env req i mp1
       else
         andThen (withCode ErrInternal (onMutes (\<lambda>s. errOption (putMute (newMute env req i form existing) s)) mp1)) (\<lambda>_ mp2.
           muteRelationshipGet env req i mp2))"

definition muteRemove :: "action_env \<Rightarrow> account \<Rightarrow> string \<Rightarrow> mute_proc \<Rightarrow> (http_error + relationship) \<times> mute_proc" where
  "muteRemove env req i mp =
     andThen (getMuteTarget env req i mp) (\<lambda>(target, existing) mp1.
       case existing of
         None \<Rightarrow> muteRelationshipGet env req i mp1
       | Some m \<Rightarrow>
           andThen (withCode ErrInternal (onMutes (\<lambda>s. errOption (deleteMuteByID (umID m) s)) mp1)) (\<lambda>_ mp2.
             muteRelationshipGet env req i mp2))"

text \<open>
  \<open>MutesGet\<close>: \<open>toAPI\<close> is the conversion of an account, which may fail, and \<open>urlString\<close> prints URLs. An
  item is the muted account with the end of the mute.
\<close>

definition mutesGet :: "action_env \<Rightarrow> bool \<Rightarrow> (string \<Rightarrow> 'a option) \<Rightarrow> (url \<Rightarrow> string) \<Rightarrow> account \<Rightarrow> page option \<Rightarrow>
    mutestate \<Rightarrow> (http_error + ('a \<times> time option) pageableResponse) \<times> mutestate" where
  "mutesGet env sqlite toAPI urlString req po s =
     (case getAccountMutes sqlite (aeNow env) (aeAccount env) (acID req) po s of
        (Inl e, s') \<Rightarrow> (if e \<noteq> LNoEntries then Inl ErrInternal else Inr emptyResponse, s')
      | (Inr ms, s') \<Rightarrow>
          if ms = [] then (Inr emptyResponse, s')
          else
            (let lo = umID (last ms); hi = umID (hd ms);
                 item = (\<lambda>m. if userMuteExpired m (aeNow env) then None
                   else map_option (\<lambda>x. (x, if isZeroTime (umExpiresAt m) then None else Some (umExpiresAt m)))
                     (toAPI (umTargetAccountID m)))
             in (Inr (packageResponse urlString (aeProtocol env) (cfgHost (aeHost env))
                   \<lparr>rpItems = List.map_filter item ms, rpPath = ''/api/v1/mutes'', rpNext = nextPage po lo hi,
                    rpPrev = prevPage po lo hi, rpQuery = Map.empty\<rparr>), s')))"

subsection \<open>Compiled lists\<close>

datatype filter_context = CtxNone | CtxHome | CtxNotifications | CtxPublic | CtxThread | CtxAccount | CtxOther string

record compiled_mute =
  cmuExpiresAt :: time
  cmuNotifications :: bool

definition appliesInContext :: "compiled_mute \<Rightarrow> filter_context \<Rightarrow> bool" where
  "appliesInContext e ctx =
     (case ctx of
        CtxHome \<Rightarrow> True
      | CtxNotifications \<Rightarrow> cmuNotifications e
      | CtxPublic \<Rightarrow> True
      | CtxThread \<Rightarrow> True
      | _ \<Rightarrow> False)"

definition entryExpired :: "compiled_mute \<Rightarrow> time \<Rightarrow> bool" where
  "entryExpired e now \<longleftrightarrow> \<not> isZeroTime (cmuExpiresAt e) \<and> \<not> now < cmuExpiresAt e"

type_synonym compiled_mutes = "(string \<times> compiled_mute) list option"

definition newCompiledUserMuteList :: "user_mute list \<Rightarrow> compiled_mutes" where
  "newCompiledUserMuteList ms =
     Some (fold (\<lambda>m. AList.update (umTargetAccountID m) \<lparr>cmuExpiresAt = umExpiresAt m, cmuNotifications = umNotifications m\<rparr>) ms [])"

definition mutesLen :: "compiled_mutes \<Rightarrow> nat" where
  "mutesLen c = (case c of None \<Rightarrow> 0 | Some m \<Rightarrow> length m)"

definition muteMatches :: "compiled_mutes \<Rightarrow> string \<Rightarrow> filter_context \<Rightarrow> time \<Rightarrow> bool" where
  "muteMatches c a ctx now =
     (case c of
        None \<Rightarrow> False
      | Some m \<Rightarrow> (case map_of m a of None \<Rightarrow> False | Some e \<Rightarrow> appliesInContext e ctx \<and> \<not> entryExpired e now))"

end
