(* ===== verification/StatusFilters.thy ===== *)
theory StatusFilters
  imports Mutes
begin

text \<open>
  Whether mutes and filters hide a status from a reader: \<open>statusToAPIFilterResults\<close> of
  \<open>src/internal/typeutils/internaltofrontend.go\<close> with the filters of \<open>src/internal/gtsmodel/filter.go\<close>.
  The compiled expression of a keyword is a function, \<open>sanitize\<close> is the conversion of HTML to
  text, \<open>toAPI\<close> that of a filter, which may fail.
\<close>

datatype filter_action = ActionNone | ActionWarn | ActionHide

record filter_keyword =
  fkKeyword :: string
  fkRegexp :: "string \<Rightarrow> bool"

record user_filter =
  ufExpiresAt :: time
  ufAction :: filter_action
  ufKeywords :: "filter_keyword list"
  ufStatuses :: "string list"
  ufHome :: "bool option"
  ufNotifications :: "bool option"
  ufPublic :: "bool option"
  ufThread :: "bool option"
  ufAccount :: "bool option"

definition filterExpired :: "user_filter \<Rightarrow> time \<Rightarrow> bool" where
  "filterExpired f now \<longleftrightarrow> \<not> isZeroTime (ufExpiresAt f) \<and> \<not> now < ufExpiresAt f"

definition ptrValueOr :: "'a option \<Rightarrow> 'a \<Rightarrow> 'a" where
  "ptrValueOr p d = (case p of None \<Rightarrow> d | Some v \<Rightarrow> v)"

definition filterAppliesInContext :: "user_filter \<Rightarrow> filter_context \<Rightarrow> bool" where
  "filterAppliesInContext f ctx =
     (case ctx of
        CtxHome \<Rightarrow> ptrValueOr (ufHome f) False
      | CtxNotifications \<Rightarrow> ptrValueOr (ufNotifications f) False
      | CtxPublic \<Rightarrow> ptrValueOr (ufPublic f) False
      | CtxThread \<Rightarrow> ptrValueOr (ufThread f) False
      | CtxAccount \<Rightarrow> ptrValueOr (ufAccount f) False
      | _ \<Rightarrow> False)"

text \<open>The fields of a status that are read here.\<close>

record filter_status =
  fsID :: string
  fsAccountID :: string
  fsInReplyToAccount :: "account option"
  fsMentioned :: "account list"
  fsContent :: string
  fsContentWarning :: string
  fsDescriptions :: "string list"
  fsPollOptions :: "string list"

definition filterableTextFields :: "(string \<Rightarrow> string) \<Rightarrow> filter_status \<Rightarrow> string list" where
  "filterableTextFields sanitize s =
     (if fsContent s \<noteq> [] then [sanitize (fsContent s)] else []) @
     (if fsContentWarning s \<noteq> [] then [fsContentWarning s] else []) @
     filter (\<lambda>x. x \<noteq> []) (fsDescriptions s) @ filter (\<lambda>x. x \<noteq> []) (fsPollOptions s)"

datatype filter_error = HideStatus | FilterError lookup_error

record filter_result =
  frsFilter :: user_filter
  frsKeywords :: "string list"
  frsStatuses :: "string list"

text \<open>The loop over the other accounts: whether all of them are invisible or muted.\<close>

fun allInvisibleOrMuted :: "host_config \<Rightarrow> vis_db \<Rightarrow> account \<Rightarrow> (string \<Rightarrow> bool) \<Rightarrow> account list \<Rightarrow> vis_cache \<Rightarrow>
    (lookup_error + bool) \<times> vis_cache" where
  "allInvisibleOrMuted cfg D req muted [] c = (Inr True, c)"
| "allInvisibleOrMuted cfg D req muted (a # as) c =
     (case accountVisible cfg D (Some req) a c of
        (Inl e, c') \<Rightarrow> (Inl e, c')
      | (Inr visible, c') \<Rightarrow>
          if \<not> visible then allInvisibleOrMuted cfg D req muted as c'
          else if muted (acID a) then allInvisibleOrMuted cfg D req muted as c'
          else (Inr False, c'))"

definition keywordMatches :: "(string \<Rightarrow> string) \<Rightarrow> filter_status \<Rightarrow> user_filter \<Rightarrow> string list" where
  "keywordMatches sanitize s f =
     map fkKeyword (filter (\<lambda>k. list_ex (fkRegexp k) (filterableTextFields sanitize s)) (ufKeywords f))"

definition statusMatches :: "filter_status \<Rightarrow> user_filter \<Rightarrow> string list" where
  "statusMatches s f = (if fsID s \<in> set (ufStatuses f) then [fsID s] else [])"

fun filterResultsLoop :: "(user_filter \<Rightarrow> lookup_error option) \<Rightarrow> (string \<Rightarrow> string) \<Rightarrow> time \<Rightarrow> filter_context \<Rightarrow> filter_status \<Rightarrow>
    user_filter list \<Rightarrow> filter_error + filter_result list" where
  "filterResultsLoop toAPI sanitize now ctx s [] = Inr []"
| "filterResultsLoop toAPI sanitize now ctx s (f # fs) =
     (if \<not> filterAppliesInContext f ctx then filterResultsLoop toAPI sanitize now ctx s fs
      else if filterExpired f now then filterResultsLoop toAPI sanitize now ctx s fs
      else
        (let kws = keywordMatches sanitize s f; sts = statusMatches s f
         in if kws \<noteq> [] \<or> sts \<noteq> [] then
              (case ufAction f of
                 ActionWarn \<Rightarrow>
                   (case toAPI f of
                      Some e \<Rightarrow> Inl (FilterError e)
                    | None \<Rightarrow>
                        (case filterResultsLoop toAPI sanitize now ctx s fs of
                           Inl e \<Rightarrow> Inl e
                         | Inr rs \<Rightarrow> Inr (\<lparr>frsFilter = f, frsKeywords = kws, frsStatuses = sts\<rparr> # rs)))
               | ActionHide \<Rightarrow> Inl HideStatus
               | ActionNone \<Rightarrow> filterResultsLoop toAPI sanitize now ctx s fs)
            else filterResultsLoop toAPI sanitize now ctx s fs))"

definition otherAccounts :: "filter_status \<Rightarrow> account list" where
  "otherAccounts s = (case fsInReplyToAccount s of None \<Rightarrow> [] | Some a \<Rightarrow> [a]) @ fsMentioned s"

definition statusToAPIFilterResults :: "host_config \<Rightarrow> vis_db \<Rightarrow> (user_filter \<Rightarrow> lookup_error option) \<Rightarrow> (string \<Rightarrow> string) \<Rightarrow>
    time \<Rightarrow> filter_status \<Rightarrow> account \<Rightarrow> filter_context \<Rightarrow> user_filter list \<Rightarrow> compiled_mutes \<Rightarrow> vis_cache \<Rightarrow>
    (filter_error + filter_result list) \<times> vis_cache" where
  "statusToAPIFilterResults cfg D toAPI sanitize now s req ctx fs mutes c =
     (if ctx = CtxNone \<or> (fs = [] \<and> mutesLen mutes = 0) \<or> fsAccountID s = acID req then (Inr [], c)
      else if muteMatches mutes (fsAccountID s) ctx now then (Inl HideStatus, c)
      else if otherAccounts s \<noteq> [] then
        (case allInvisibleOrMuted cfg D req (\<lambda>a. muteMatches mutes a ctx now) (otherAccounts s) c of
           (Inl e, c') \<Rightarrow> (Inl (FilterError e), c')
         | (Inr all, c') \<Rightarrow>
             if all then (Inl HideStatus, c') else (filterResultsLoop toAPI sanitize now ctx s fs, c'))
      else (filterResultsLoop toAPI sanitize now ctx s fs, c))"

end
