(* ===== verification/MuteSafety.thy ===== *)
theory MuteSafety
  imports StatusFilters
begin

text \<open>
  What mutes promise. \<open>sliced\<close> is interpreted on their table; histories of the handlers, with faults,
  evictions and time, are the relation \<open>muteReach\<close>. A cached list of IDs may be older than the clock:
  it then holds mutes that have expired since, which the compiled list does not match.
\<close>

subsection \<open>The table of mutes\<close>

definition muteGood :: "time \<Rightarrow> string \<Rightarrow> user_mute list \<Rightarrow> string list \<Rightarrow> bool" where
  "muteGood now a rows ids \<longleftrightarrow> (\<exists>sqlite t. t \<le> now \<and> ids = newSelectMutes sqlite t a rows)"

lemma muteDecl_simps [simp]: "sdID muteDecl = umID" "sdGroup muteDecl = umAccountID"
  "idIndex umID \<in> set (sdIxs muteDecl)" "pairIndex umAccountID umTargetAccountID \<in> set (sdIxs muteDecl)"
  by (simp_all add: muteDecl_def)

lemma muteIxs: "i \<in> set (sdIxs muteDecl) \<Longrightarrow> umID m = umID w \<Longrightarrow> umAccountID m = umAccountID w \<Longrightarrow>
    umTargetAccountID m = umTargetAccountID w \<Longrightarrow> ixFields i m = ixFields i w"
  by (auto simp: muteDecl_def idIndex_def pairIndex_def multiIndex_def)

lemma newSelectMutes_group:
  "filter (\<lambda>m. umAccountID m = a) rows' = filter (\<lambda>m. umAccountID m = a) rows \<Longrightarrow>
    newSelectMutes sqlite now a rows' = newSelectMutes sqlite now a rows"
proof -
  assume eq: "filter (\<lambda>m. umAccountID m = a) rows' = filter (\<lambda>m. umAccountID m = a) rows"
  have f: "filter (\<lambda>m. umAccountID m = a \<and> P m) xs = filter P (filter (\<lambda>m. umAccountID m = a) xs)" for P and xs :: "user_mute list"
    by (induction xs) auto
  show ?thesis by (simp only: newSelectMutes_def f eq)
qed

interpretation mut: sliced muteDecl "muteGood now" for now
proof unfold_locales
  show "distinct (map ixName (sdIxs muteDecl))" "list_ex (\<lambda>i. \<not> ixMultiple i) (sdIxs muteDecl)"
    by (simp_all add: muteDecl_def idIndex_def pairIndex_def multiIndex_def)
  show "idIndex (sdID muteDecl) \<in> set (sdIxs muteDecl)" by simp
  fix g rows ids rows'
  assume "muteGood now g rows ids" and eq: "filter (\<lambda>v. sdGroup muteDecl v = g) rows' = filter (\<lambda>v. sdGroup muteDecl v = g) rows"
  then obtain sqlite t where "t \<le> now" and ids: "ids = newSelectMutes sqlite t g rows" by (auto simp: muteGood_def)
  moreover have "newSelectMutes sqlite t g rows' = newSelectMutes sqlite t g rows"
    by (rule newSelectMutes_group) (use eq in simp)
  ultimately show "muteGood now g rows' ids" unfolding muteGood_def by metis
qed

abbreviation muteInv :: "time \<Rightarrow> mutestate \<Rightarrow> bool" where
  "muteInv now \<equiv> slInv muteDecl (muteGood now)"

lemma muteInv_later: "muteInv now s \<Longrightarrow> now \<le> now' \<Longrightarrow> muteInv now' s"
  unfolding slInv_def muteGood_def by (meson order_trans)

lemma muteGood_ids:
  assumes "muteInv now s" and "muteGood t a (slRows s) ids"
  shows "distinct ids" and "set ids \<subseteq> umID ` set (slRows s)"
proof -
  obtain sqlite t' where "ids = newSelectMutes sqlite t' a (slRows s)" using assms(2) by (auto simp: muteGood_def)
  then have m: "mset ids = mset (map umID (filter (\<lambda>m. umAccountID m = a \<and> notYetExpired sqlite t' m) (slRows s)))"
    by (simp add: newSelectMutes_def descIDs_def)
  have "distinct (map umID (filter (\<lambda>m. umAccountID m = a \<and> notYetExpired sqlite t' m) (slRows s)))"
    using mut.distinct_ids [OF assms(1)] by simp
  then show "distinct ids" using m by (metis mset_eq_imp_distinct_iff)
  show "set ids \<subseteq> umID ` set (slRows s)" using mset_eq_setD [OF m] by auto
qed

text \<open>The mutes in a list: rows of the account, among them all that have not expired.\<close>

lemma muteGood_rows:
  assumes "muteInv now s" and "muteGood now a (slRows s) ids" and "now \<le> t"
  shows "m \<in> set (map (rowOf umID (slRows s)) ids) \<Longrightarrow> m \<in> set (slRows s) \<and> umAccountID m = a"
    and "m \<in> set (slRows s) \<Longrightarrow> umAccountID m = a \<Longrightarrow> \<not> userMuteExpired m t \<Longrightarrow> m \<in> set (map (rowOf umID (slRows s)) ids)"
proof -
  obtain sqlite t' where t': "t' \<le> now" and ids: "ids = newSelectMutes sqlite t' a (slRows s)"
    using assms(2) by (auto simp: muteGood_def)
  have set: "set ids = umID ` {m \<in> set (slRows s). umAccountID m = a \<and> notYetExpired sqlite t' m}"
    by (auto simp: ids newSelectMutes_def descIDs_def)
  have row: "rowOf umID (slRows s) (umID m) = m" if "m \<in> set (slRows s)" for m
    using mut.rowOf_id [OF assms(1)] that by simp
  have sel: "set (map (rowOf umID (slRows s)) ids) = {m \<in> set (slRows s). umAccountID m = a \<and> notYetExpired sqlite t' m}"
    using row by (auto simp: set image_iff)
  have late: "notYetExpired sqlite t' m" if "\<not> userMuteExpired m t" for m
  proof -
    have "t' - t' mod day \<le> t'" by (simp add: day_def second_def)
    then show ?thesis using that t' assms(3) by (auto simp: notYetExpired_def userMuteExpired_def)
  qed
  show "m \<in> set (slRows s) \<and> umAccountID m = a" if "m \<in> set (map (rowOf umID (slRows s)) ids)" using that sel by auto
  show "m \<in> set (map (rowOf umID (slRows s)) ids)" if "m \<in> set (slRows s)" "umAccountID m = a" "\<not> userMuteExpired m t"
    using sel late [OF that(3)] that by auto
qed

subsection \<open>Lookups and changes\<close>

definition muteRow :: "mutestate \<Rightarrow> string \<Rightarrow> string \<Rightarrow> lookup_error + user_mute" where
  "muteRow s a b = rowsLookup (pairIndex umAccountID umTargetAccountID) [a, b] (slRows s)"

lemma getMute'_ok:
  assumes "muteInv now s" and "getMute' a b s = (r, s')"
  shows "answers r (muteRow s a b)" and "muteInv now s'" and "slRows s' = slRows s"
    and "slFaults s = [] \<Longrightarrow> r = muteRow s a b \<and> slFaults s' = []"
proof -
  let ?i = "pairIndex umAccountID umTargetAccountID"
  have "slLoad muteDecl (ixName ?i) [a, b] (\<lambda>v. ixFields ?i v = [a, b]) s = (r, s')"
    using assms(2) by (simp add: getMute'_def pairIndex_def)
  note ok = mut.slLoad_ok [OF assms(1) muteDecl_simps(4) _ this]
  show "answers r (muteRow s a b)" and "muteInv now s'" and "slRows s' = slRows s"
    and "slFaults s = [] \<Longrightarrow> r = muteRow s a b \<and> slFaults s' = []"
    unfolding muteRow_def by (rule ok; simp add: pairIndex_def)+
qed

lemma muteRow_Inr: "muteRow s a b = Inr m \<Longrightarrow> m \<in> set (slRows s) \<and> umAccountID m = a \<and> umTargetAccountID m = b"
  unfolding muteRow_def using rowsLookup_Inr by (fastforce simp: pairIndex_def)

lemma muteRow_Inl: "muteRow s a b = Inl e \<longleftrightarrow> e = LNoEntries \<and> (\<forall>m \<in> set (slRows s). \<not> (umAccountID m = a \<and> umTargetAccountID m = b))"
  unfolding muteRow_def using rowsLookup_Inl [of "pairIndex umAccountID umTargetAccountID" "[a, b]"]
  by (auto simp: pairIndex_def)

lemma muteRow_unique:
  assumes "muteInv now s" and "m \<in> set (slRows s)" "w \<in> set (slRows s)"
    and "umAccountID m = umAccountID w" "umTargetAccountID m = umTargetAccountID w"
  shows "m = w"
proof -
  have "tableOK (sdIxs muteDecl) (slRows s)" using assms(1) by (simp add: slInv_def tblOK_def slRows_def)
  from mut.tableOK_unique [OF this muteDecl_simps(4) _ assms(2,3)] show ?thesis using assms(4,5) by (simp add: pairIndex_def)
qed


lemma mute_id_unique:
  assumes "muteInv now s" and "m \<in> set (slRows s)" "w \<in> set (slRows s)" and "umID m = umID w"
  shows "m = w"
proof -
  have "tableOK (sdIxs muteDecl) (slRows s)" using assms(1) by (simp add: slInv_def tblOK_def slRows_def)
  from mut.tableOK_unique [OF this muteDecl_simps(3) _ assms(2,3)] show ?thesis using assms(4) by (simp add: idIndex_def)
qed

lemma getMute_ok:
  assumes "muteInv now s" and "getMute acct a b s = (r, s')"
  shows "muteInv now s'" and "slRows s' = slRows s"
    and "r = Inr m \<Longrightarrow> muteRow s a b = Inr m"
    and "r = Inl LNoEntries \<Longrightarrow> muteRow s a b = Inl LNoEntries \<or> acct a = Inl LNoEntries \<or> acct b = Inl LNoEntries"
    and "r = Inl e \<Longrightarrow> e \<noteq> LNoEntries \<Longrightarrow> slFaults s = [] \<Longrightarrow> is_err (acct a) \<or> is_err (acct b)"
    and "slFaults s = [] \<Longrightarrow> slFaults s' = []"
proof -
  obtain r0 s0 where g: "getMute' a b s = (r0, s0)" by fastforce
  note ok = getMute'_ok [OF assms(1) g]
  have m: "(r, s') = populated (populateMute acct) (r0, s0)" using assms(2) g by (simp add: getMute_def)
  have s': "s' = s0" using m by (cases r0) (auto simp: populated_def split: option.splits)
  show "muteInv now s'" "slRows s' = slRows s" and "slFaults s = [] \<Longrightarrow> slFaults s' = []" using ok s' by simp_all
  show "muteRow s a b = Inr m" if "r = Inr m"
    using m that ok(1) by (cases r0) (auto simp: populated_def answers_def split: option.splits)
  have row: "umAccountID w = a \<and> umTargetAccountID w = b" if "r0 = Inr w" for w
    using ok(1) that muteRow_Inr by (auto simp: answers_def)
  show "muteRow s a b = Inl LNoEntries \<or> acct a = Inl LNoEntries \<or> acct b = Inl LNoEntries" if "r = Inl LNoEntries"
  proof (cases r0)
    case (Inl e)
    then show ?thesis using m that ok(1) by (auto simp: populated_def answers_def ignoreErrors_def)
  next
    case (Inr w)
    then show ?thesis using m that row [OF Inr]
      by (auto simp: populated_def populateMute_def populateErr_def split: option.splits sum.splits if_splits)
  qed
  show "is_err (acct a) \<or> is_err (acct b)" if "r = Inl e" "e \<noteq> LNoEntries" "slFaults s = []"
  proof (cases r0)
    case (Inl e')
    then have "muteRow s a b = Inl e'" "e' = e" using ok(4) [OF that(3)] m that(1) by (auto simp: populated_def)
    then show ?thesis using muteRow_Inl that(2) by blast
  next
    case (Inr w)
    then show ?thesis using m that row [OF Inr]
      by (auto simp: populated_def populateMute_def populateErr_def split: option.splits sum.splits if_splits)
  qed
qed

lemma putMute_ok:
  assumes "muteInv now s" and "putMute m s = (e, s')"
    and "\<And>w. w \<in> set (slRows s) \<Longrightarrow> umID w = umID m \<Longrightarrow> umAccountID w = umAccountID m \<and> umTargetAccountID w = umTargetAccountID m"
  shows "muteInv now s'" and "slRows s' = (if e = None then putRow umID m (slRows s) else slRows s)"
proof -
  have st: "slStore muteDecl m (upsertRow muteDecl m) s = (e, s')" using assms(2) by (simp add: putMute_def)
  have same: "sdGroup muteDecl w = sdGroup muteDecl m \<and> (\<forall>i \<in> set (sdIxs muteDecl). ixFields i m = ixFields i w)"
    if "w \<in> set (slRows s)" "sdID muteDecl w = sdID muteDecl m" for w
    using assms(3) [OF that(1)] that(2) muteIxs [of _ m w] by simp
  show "muteInv now s'" by (rule mut.slStore_upsert(1) [OF assms(1) st same])
  show "slRows s' = (if e = None then putRow umID m (slRows s) else slRows s)"
    using mut.slStore_upsert(2) [OF assms(1) st same] by simp
qed

lemma deleteMuteByID_ok:
  assumes inv: "muteInv now s" and d: "deleteMuteByID i s = (e, s')"
  shows "muteInv now s'" and "e = None \<Longrightarrow> slRows s' = filter (\<lambda>m. umID m \<noteq> i) (slRows s)"
    and "e \<noteq> None \<Longrightarrow> slRows s' = slRows s"
    and "slFaults s = [] \<Longrightarrow> e = None \<and> slFaults s' = []"
proof -
  let ?i = "idIndex umID :: user_mute sindex"
  obtain r s1 where g: "getMuteByID' i s = (r, s1)" by fastforce
  then have l: "slLoad muteDecl (ixName ?i) [i] (\<lambda>v. ixFields ?i v = [i]) s = (r, s1)"
    by (simp add: getMuteByID'_def idIndex_def)
  have u: "\<not> ixMultiple ?i" by (simp add: idIndex_def)
  note ok = mut.slLoad_ok [OF inv muteDecl_simps(3) u l]
  have "muteInv now s' \<and> (if e = None then slRows s' = filter (\<lambda>m. umID m \<noteq> i) (slRows s) else slRows s' = slRows s) \<and>
      (slFaults s = [] \<longrightarrow> e = None \<and> slFaults s' = [])"
  proof (cases r)
    case (Inl err)
    then have s': "s' = s1" "e = (if err = LNoEntries then None else Some err)" using d g by (auto simp: deleteMuteByID_def)
    have "filter (\<lambda>m. umID m \<noteq> i) (slRows s) = slRows s" if "err = LNoEntries"
    proof -
      have "rowsLookup ?i [i] (slRows s) = Inl LNoEntries" using ok(1) Inl that by (auto simp: answers_def ignoreErrors_def)
      then have "\<forall>m \<in> set (slRows s). ixFields ?i m \<noteq> [i]" using rowsLookup_Inl by metis
      then show ?thesis by (simp add: filter_id_conv idIndex_def)
    qed
    moreover have "err = LNoEntries" if "slFaults s = []" using ok(5) [OF that] Inl rowsLookup_error by metis
    ultimately show ?thesis using s' ok(2,3,5) by auto
  next
    case (Inr m)
    obtain e2 s2 where x: "slDelete (\<lambda>x. umID x = i) s1 = (e2, s2)" by fastforce
    have k: "key1 ''ID'' i = ixKey ?i [i]" by (rule key_ixKey(1))
    have "(e, s') = (e2, slInvalidate muteDecl (ixKey ?i [i]) s2)"
      using d by (simp add: deleteMuteByID_def g Inr x flip: k)
    then have s': "s' = slInvalidate muteDecl (ixKey ?i [i]) s2" "e = e2" by simp_all
    have P: "umID y = i \<longleftrightarrow> ixFields ?i y = [i]" for y by (simp add: idIndex_def)
    note del = mut.slDelete_loaded [OF inv muteDecl_simps(3) u l[unfolded Inr] P x]
    show ?thesis using del by (auto simp: s' idIndex_def)
  qed
  then show "muteInv now s'" and "e = None \<Longrightarrow> slRows s' = filter (\<lambda>m. umID m \<noteq> i) (slRows s)"
    and "e \<noteq> None \<Longrightarrow> slRows s' = slRows s"
    and "slFaults s = [] \<Longrightarrow> e = None \<and> slFaults s' = []" by auto
qed

lemma getAccountMutes'_ok:
  assumes inv: "muteInv now s" and g: "getAccountMutes' sqlite now a po s = (r, s')"
  shows "muteInv now s'" and "slRows s' = slRows s"
    and "po = None \<Longrightarrow> r = Inr ms \<Longrightarrow> \<exists>ids. muteGood now a (slRows s) ids \<and> ms = map (rowOf umID (slRows s)) ids"
    and "po = None \<Longrightarrow> slFaults s = [] \<Longrightarrow> (\<exists>ms. r = Inr ms) \<and> slFaults s' = []"
proof -
  have good: "muteGood now a (slRows s) (newSelectMutes sqlite now a (slRows s))" unfolding muteGood_def by blast
  obtain r0 s0 where i: "slGroupIDs a po (newSelectMutes sqlite now a (slRows s)) s = (r0, s0)" by fastforce
  note ids = mut.slGroupIDs_ok [OF inv good i]
  have rows0: "slRows s0 = slRows s" using ids(2) by (simp add: slRows_def)
  have "muteInv now s' \<and> slRows s' = slRows s \<and>
    (po = None \<longrightarrow> (\<forall>ms. r = Inr ms \<longrightarrow> (\<exists>ids. muteGood now a (slRows s) ids \<and> ms = map (rowOf umID (slRows s)) ids)) \<and>
      (slFaults s = [] \<longrightarrow> (\<exists>ms. r = Inr ms) \<and> slFaults s' = []))"
  proof (cases r0)
    case (Inl e)
    then have "r = Inl e" "s' = s0" using g i by (simp_all add: getAccountMutes'_def getAccountMuteIDs_def)
    then show ?thesis using ids(1,4) rows0 Inl by (cases "slFaults s = []") simp_all
  next
    case (Inr l)
    obtain all where all: "muteGood now a (slRows s) all" "l = pagedIDs po all" using ids(3) [OF Inr] by blast
    have by_ids: "slByIDs muteDecl l s0 = (r, s')" using g i Inr by (simp add: getAccountMutes'_def getAccountMuteIDs_def)
    note dist = muteGood_ids [OF inv all(1)]
    have "distinct l" "set l \<subseteq> sdID muteDecl ` set (slRows s0)"
      using pagedIDs_sub(2) [OF dist(1)] pagedIDs_sub(1) [of po all] dist(2) by (auto simp: all(2) rows0)
    note rows = mut.slByIDs_ok [OF ids(1) by_ids this]
    have "pagedIDs None all = all" by (simp add: pagedIDs_def pageSlice_def getOrder_def)
    then show ?thesis using rows rows0 all ids(4) by auto
  qed
  then show "muteInv now s'" and "slRows s' = slRows s"
    and "po = None \<Longrightarrow> r = Inr ms \<Longrightarrow> \<exists>ids. muteGood now a (slRows s) ids \<and> ms = map (rowOf umID (slRows s)) ids"
    and "po = None \<Longrightarrow> slFaults s = [] \<Longrightarrow> (\<exists>ms. r = Inr ms) \<and> slFaults s' = []" by blast+
qed

subsection \<open>The handlers\<close>

definition pairOf :: "string \<Rightarrow> string \<Rightarrow> user_mute \<Rightarrow> bool" where
  "pairOf a b m \<longleftrightarrow> umAccountID m = a \<and> umTargetAccountID m = b"

lemma muteRelationshipGet_mutes: "mpMutes (snd (muteRelationshipGet env req i mp)) = mpMutes mp"
  by (auto simp: muteRelationshipGet_def withCode_def split: prod.splits sum.splits)

lemma muteRelationshipGet_muting:
  assumes "muteRelationshipGet env req i mp = (Inr rel, mp')"
  shows "(\<exists>m. fst (getMute (aeAccount env) (acID req) i (mpMutes mp)) = Inr m \<and>
      rlMuting rel = (\<not> userMuteExpired m (aeNow env)) \<and>
      rlMutingNotifications rel = (\<not> userMuteExpired m (aeNow env) \<and> umNotifications m)) \<or>
    fst (getMute (aeAccount env) (acID req) i (mpMutes mp)) = Inl LNoEntries \<and> \<not> rlMuting rel \<and> \<not> rlMutingNotifications rel"
  using assms
  by (cases "fst (getMute (aeAccount env) (acID req) i (mpMutes mp))")
    (auto simp: muteRelationshipGet_def withCode_def getRelationship_def andThen_def noEntriesOK_def muteInfo_def muteExpired_def
      userMuteExpired_def split: prod.splits sum.splits if_splits)

lemma getMuteTarget_ok:
  assumes "muteInv now (mpMutes mp)" and "getMuteTarget env req i mp = (r, mp')"
  shows "muteInv now (mpMutes mp')" and "slRows (mpMutes mp') = slRows (mpMutes mp)"
    and "r = Inr (target, existing) \<Longrightarrow> acID req \<noteq> i \<and> aeAccount env i = Inr target"
    and "r = Inr (target, Some m) \<Longrightarrow> muteRow (mpMutes mp) (acID req) i = Inr m"
    and "r = Inr (target, None) \<Longrightarrow> aeAccount env (acID req) = Inr a \<Longrightarrow> muteRow (mpMutes mp) (acID req) i = Inl LNoEntries"
proof -
  obtain r0 s0 where g: "getMute (aeAccount env) (acID req) i (mpMutes mp) = (r0, s0)" by fastforce
  note ok = getMute_ok [OF assms(1) g]
  have m: "mp' = mp \<or> mp' = mp\<lparr>mpMutes := s0\<rparr>"
    using assms(2) g by (cases r0) (auto simp: getMuteTarget_def onMutes_def noEntriesOK_def withCode_def split: if_splits sum.splits)
  then show "muteInv now (mpMutes mp')" and "slRows (mpMutes mp') = slRows (mpMutes mp)" using assms(1) ok(1,2) by auto
  show *: "acID req \<noteq> i \<and> aeAccount env i = Inr target" if "r = Inr (target, existing)" for target existing
    using assms(2) g that by (cases r0) (auto simp: getMuteTarget_def onMutes_def noEntriesOK_def withCode_def split: if_splits sum.splits)
  have e: "noEntriesOK (r0, s0) = (Inr existing, s0)" if "r = Inr (target, existing)" for target existing
    using assms(2) g that by (cases r0) (auto simp: getMuteTarget_def onMutes_def noEntriesOK_def withCode_def split: if_splits sum.splits)
  show "muteRow (mpMutes mp) (acID req) i = Inr m" if "r = Inr (target, Some m)"
    using e [OF that] ok(3) by (auto simp: noEntriesOK_def split: sum.splits if_splits)
  show "muteRow (mpMutes mp) (acID req) i = Inl LNoEntries" if "r = Inr (target, None)" "aeAccount env (acID req) = Inr a"
    using e [OF that(1)] ok(4) * [OF that(1)] that(2) by (auto simp: noEntriesOK_def split: sum.splits if_splits)
qed

lemma newMute_simps [simp]: "umAccountID (newMute env req i form m) = acID req" "umTargetAccountID (newMute env req i form m) = i"
  "umNotifications (newMute env req i form m) = mfNotifications form" "umID (newMute env req i form (Some w)) = umID w"
  "umID (newMute env req i form None) = aeULID env"
  by (simp_all add: newMute_def)

lemma putRow_set:
  assumes "muteInv now s" and "slRows s' = putRow umID (newMute env req i form existing) (slRows s)" and "muteInv now s'"
    and "existing = None \<Longrightarrow> \<forall>m \<in> set (slRows s). umID m \<noteq> aeULID env"
    and "\<And>m. existing = Some m \<Longrightarrow> muteRow s (acID req) i = Inr m"
  shows "set (slRows s') = insert (newMute env req i form existing) {m \<in> set (slRows s). \<not> pairOf (acID req) i m}"
proof (cases existing)
  case None
  let ?n = "newMute env req i form existing"
  have rows: "slRows s' = slRows s @ [?n]" using assms(2,4) None by (auto simp: putRow_def list_ex_iff)
  have "\<not> pairOf (acID req) i m" if m: "m \<in> set (slRows s)" for m
  proof
    assume "pairOf (acID req) i m"
    then have "m = ?n" using muteRow_unique [OF assms(3), of m ?n] rows m by (simp add: pairOf_def)
    then have "umID m = aeULID env" using None by simp
    then show False using assms(4) None m by blast
  qed
  then show ?thesis using rows by auto
next
  case (Some m)
  let ?n = "newMute env req i form existing"
  have m: "m \<in> set (slRows s)" "pairOf (acID req) i m" using muteRow_Inr [OF assms(5) [OF Some]] by (simp_all add: pairOf_def)
  have one: "pairOf (acID req) i w \<longleftrightarrow> w = m" if "w \<in> set (slRows s)" for w
    using muteRow_unique [OF assms(1) that m(1)] m(2) by (auto simp: pairOf_def)
  have id: "umID w = umID ?n \<longleftrightarrow> w = m" if "w \<in> set (slRows s)" for w
    using mute_id_unique [OF assms(1) that m(1)] Some by auto
  have "slRows s' = map (\<lambda>w. if w = m then ?n else w) (slRows s)"
    using assms(2) id m(1) by (auto simp: putRow_def list_ex_iff)
  then show ?thesis using one m by auto
qed

lemma muteCreate_ok:
  assumes inv: "muteInv now (mpMutes mp)" and fresh: "\<forall>m \<in> set (slRows (mpMutes mp)). umID m \<noteq> aeULID env"
    and c: "muteCreate env req i form mp = (r, mp')"
  shows "muteInv now (mpMutes mp')"
    and "r = Inr rel \<Longrightarrow> (\<exists>existing. set (slRows (mpMutes mp')) =
      insert (newMute env req i form existing) {m \<in> set (slRows (mpMutes mp)). \<not> pairOf (acID req) i m}) \<and>
      (\<exists>mp0 target. mpMutes mp0 = mpMutes mp' \<and> muteRelationshipGet env req i mp0 = (Inr rel, mp') \<and>
        acID req \<noteq> i \<and> aeAccount env i = Inr target)"
    and "r = Inl e \<Longrightarrow> e \<noteq> ErrInternal \<Longrightarrow> slRows (mpMutes mp') = slRows (mpMutes mp)"
proof -
  obtain r1 mp1 where t: "getMuteTarget env req i mp = (r1, mp1)" by fastforce
  note tgt = getMuteTarget_ok [OF inv t]
  have get: "mpMutes mp'' = mpMutes x" if "muteRelationshipGet env req i x = (q, mp'')" for x q mp''
    using muteRelationshipGet_mutes [of env req i x] that by simp
  have "muteInv now (mpMutes mp') \<and> (\<forall>rel. r = Inr rel \<longrightarrow> (\<exists>existing. set (slRows (mpMutes mp')) =
      insert (newMute env req i form existing) {m \<in> set (slRows (mpMutes mp)). \<not> pairOf (acID req) i m}) \<and>
      (\<exists>mp0 target. mpMutes mp0 = mpMutes mp' \<and> muteRelationshipGet env req i mp0 = (Inr rel, mp') \<and>
        acID req \<noteq> i \<and> aeAccount env i = Inr target)) \<and>
      (\<forall>e. r = Inl e \<longrightarrow> e \<noteq> ErrInternal \<longrightarrow> slRows (mpMutes mp') = slRows (mpMutes mp))"
  proof (cases r1)
    case (Inl e)
    then have "r = Inl e" "mp' = mp1" using c t by (simp_all add: muteCreate_def)
    then show ?thesis using tgt(1,2) by simp
  next
    case (Inr te)
    obtain target existing where te: "te = (target, existing)" by fastforce
    note found = tgt(3) [OF Inr [unfolded te]]
    let ?same = "case existing of None \<Rightarrow> False
        | Some m \<Rightarrow> umNotifications m = mfNotifications form \<and> isZeroTime (umExpiresAt m) \<and> mfDuration form = None"
    show ?thesis
    proof (cases ?same)
      case True
      then obtain m where m: "existing = Some m" "umNotifications m = mfNotifications form" "umExpiresAt m = 0" "mfDuration form = None"
        by (auto simp: isZeroTime_def split: option.splits)
      have g: "muteRelationshipGet env req i mp1 = (r, mp')" using c True by (simp add: muteCreate_def t Inr te)
      have mr: "muteRow (mpMutes mp) (acID req) i = Inr m" by (rule tgt(4)) (simp add: Inr te m(1))
      note row = muteRow_Inr [OF mr]
      have new: "newMute env req i form existing = m" using m row by (simp add: newMute_def)
      have "set (slRows (mpMutes mp)) = insert m {m \<in> set (slRows (mpMutes mp)). \<not> pairOf (acID req) i m}"
        using row muteRow_unique [OF inv] by (auto simp: pairOf_def)
      then have set: "set (slRows (mpMutes mp')) = insert (newMute env req i form existing) {m \<in> set (slRows (mpMutes mp)). \<not> pairOf (acID req) i m}"
        using get [OF g] tgt(2) new by simp
      have m': "mpMutes mp' = mpMutes mp1" by (rule get [OF g])
        show ?thesis
        proof (intro conjI allI impI)
          show "muteInv now (mpMutes mp')" using tgt(1) m' by simp
          show "\<exists>existing. set (slRows (mpMutes mp')) =
            insert (newMute env req i form existing) {m \<in> set (slRows (mpMutes mp)). \<not> pairOf (acID req) i m}"
            by (rule exI) (rule set)
          show "\<exists>mp0 target. mpMutes mp0 = mpMutes mp' \<and> muteRelationshipGet env req i mp0 = (Inr rel, mp') \<and>
            acID req \<noteq> i \<and> aeAccount env i = Inr target" if "r = Inr rel" for rel
            by (rule exI [of _ mp1], rule exI [of _ target]) (use tgt(1) m' g found that in simp)
          show "slRows (mpMutes mp') = slRows (mpMutes mp)" if "r = Inl e" "e \<noteq> ErrInternal" for e
            using m' tgt(2) that by simp
        qed
    next
      case False
      let ?n = "newMute env req i form existing"
      obtain pe s2 where p: "putMute ?n (mpMutes mp1) = (pe, s2)" by fastforce
      have ids: "umAccountID w = umAccountID ?n \<and> umTargetAccountID w = umTargetAccountID ?n"
        if "w \<in> set (slRows (mpMutes mp1))" "umID w = umID ?n" for w
      proof (cases existing)
        case None
        then show ?thesis using that fresh tgt(2) by simp
      next
        case (Some m)
        have mr: "muteRow (mpMutes mp) (acID req) i = Inr m" by (rule tgt(4)) (simp add: Inr te Some)
        note row = muteRow_Inr [OF mr]
        have "w = m" using mute_id_unique [OF inv, of w m] that row tgt(2) Some by simp
        then show ?thesis using row by simp
      qed
      note put = putMute_ok [OF tgt(1) p ids]
      have red: "muteCreate env req i form mp =
          andThen (withCode ErrInternal (onMutes (\<lambda>s. errOption (putMute ?n s)) mp1)) (\<lambda>_ mp2. muteRelationshipGet env req i mp2)"
        using False by (simp add: muteCreate_def t Inr te)
      show ?thesis
      proof (cases pe)
        case (Some err)
        then have "(r, mp') = (Inl ErrInternal, mp1\<lparr>mpMutes := s2\<rparr>)"
          using c red p by (simp add: onMutes_def errOption_def withCode_def)
        then show ?thesis using put(1) by simp
      next
        case None
        let ?mp2 = "mp1\<lparr>mpMutes := s2\<rparr>"
        have g: "muteRelationshipGet env req i ?mp2 = (r, mp')"
          using c red p None by (simp add: onMutes_def errOption_def withCode_def)
        have m': "mpMutes mp' = s2" using get [OF g] by simp
        have "set (slRows s2) = insert ?n {m \<in> set (slRows (mpMutes mp1)). \<not> pairOf (acID req) i m}"
        proof (rule putRow_set [OF tgt(1) _ put(1)])
          show "slRows s2 = putRow umID ?n (slRows (mpMutes mp1))" using put(2) None by simp
          show "\<forall>m \<in> set (slRows (mpMutes mp1)). umID m \<noteq> aeULID env" using fresh tgt(2) by simp
          show "muteRow (mpMutes mp1) (acID req) i = Inr m" if "existing = Some m" for m
            using tgt(4) [of target m] tgt(2) that by (simp add: Inr te muteRow_def)
        qed
        then have set: "set (slRows (mpMutes mp')) = insert ?n {m \<in> set (slRows (mpMutes mp)). \<not> pairOf (acID req) i m}"
          using m' tgt(2) by simp
        have err: "r \<noteq> Inl e" if "e \<noteq> ErrInternal" for e
          using g that by (auto simp: muteRelationshipGet_def withCode_def split: prod.splits sum.splits)
        show ?thesis
        proof (intro conjI allI impI)
          show "muteInv now (mpMutes mp')" using put(1) m' by simp
          show "\<exists>existing. set (slRows (mpMutes mp')) =
            insert (newMute env req i form existing) {m \<in> set (slRows (mpMutes mp)). \<not> pairOf (acID req) i m}"
            by (rule exI) (rule set)
          show "\<exists>mp0 target. mpMutes mp0 = mpMutes mp' \<and> muteRelationshipGet env req i mp0 = (Inr rel, mp') \<and>
            acID req \<noteq> i \<and> aeAccount env i = Inr target" if "r = Inr rel" for rel
            by (rule exI [of _ ?mp2], rule exI [of _ target]) (use put(1) m' g found that in simp)
          show "slRows (mpMutes mp') = slRows (mpMutes mp)" if "r = Inl e" "e \<noteq> ErrInternal" for e
            by (rule notE [OF err [OF that(2)] that(1)])
        qed
      qed
    qed
  qed
  then show "muteInv now (mpMutes mp')"
    and "r = Inr rel \<Longrightarrow> (\<exists>existing. set (slRows (mpMutes mp')) =
      insert (newMute env req i form existing) {m \<in> set (slRows (mpMutes mp)). \<not> pairOf (acID req) i m}) \<and>
      (\<exists>mp0 target. mpMutes mp0 = mpMutes mp' \<and> muteRelationshipGet env req i mp0 = (Inr rel, mp') \<and>
        acID req \<noteq> i \<and> aeAccount env i = Inr target)"
    and "r = Inl e \<Longrightarrow> e \<noteq> ErrInternal \<Longrightarrow> slRows (mpMutes mp') = slRows (mpMutes mp)" by blast+
qed

lemma muteRemove_ok:
  assumes inv: "muteInv now (mpMutes mp)" and c: "muteRemove env req i mp = (r, mp')"
  shows "muteInv now (mpMutes mp')"
    and "r = Inr rel \<Longrightarrow> aeAccount env (acID req) = Inr a \<Longrightarrow>
      set (slRows (mpMutes mp')) = {m \<in> set (slRows (mpMutes mp)). \<not> pairOf (acID req) i m} \<and>
      (\<exists>mp0 target. mpMutes mp0 = mpMutes mp' \<and> muteRelationshipGet env req i mp0 = (Inr rel, mp') \<and>
        acID req \<noteq> i \<and> aeAccount env i = Inr target)"
proof -
  obtain r1 mp1 where t: "getMuteTarget env req i mp = (r1, mp1)" by fastforce
  note tgt = getMuteTarget_ok [OF inv t]
  have get: "mpMutes mp'' = mpMutes x" if "muteRelationshipGet env req i x = (q, mp'')" for x q mp''
    using muteRelationshipGet_mutes [of env req i x] that by simp
  have "muteInv now (mpMutes mp') \<and> (r = Inr rel \<longrightarrow> aeAccount env (acID req) = Inr a \<longrightarrow>
      set (slRows (mpMutes mp')) = {m \<in> set (slRows (mpMutes mp)). \<not> pairOf (acID req) i m} \<and>
      (\<exists>mp0 target. mpMutes mp0 = mpMutes mp' \<and> muteRelationshipGet env req i mp0 = (Inr rel, mp') \<and>
        acID req \<noteq> i \<and> aeAccount env i = Inr target))"
  proof (cases r1)
    case (Inl e)
    then have "r = Inl e" "mp' = mp1" using c t by (simp_all add: muteRemove_def)
    then show ?thesis using tgt(1) by simp
  next
    case (Inr te)
    obtain target existing where te: "te = (target, existing)" by fastforce
    note found = tgt(3) [OF Inr [unfolded te]]
    show ?thesis
    proof (cases existing)
      case None
      have g: "muteRelationshipGet env req i mp1 = (r, mp')" using c by (simp add: muteRemove_def t Inr te None)
      have m': "mpMutes mp' = mpMutes mp1" by (rule get [OF g])
      have "muteRow (mpMutes mp) (acID req) i = Inl LNoEntries" if "aeAccount env (acID req) = Inr a"
        by (rule tgt(5) [OF _ that]) (simp add: Inr te None)
      then have "set (slRows (mpMutes mp')) = {m \<in> set (slRows (mpMutes mp)). \<not> pairOf (acID req) i m}"
        if "aeAccount env (acID req) = Inr a" using that m' tgt(2) muteRow_Inl by (auto simp: pairOf_def)
      moreover have "\<exists>mp0 target. mpMutes mp0 = mpMutes mp' \<and> muteRelationshipGet env req i mp0 = (Inr rel, mp') \<and>
          acID req \<noteq> i \<and> aeAccount env i = Inr target" if "r = Inr rel"
        by (rule exI [of _ mp1], rule exI [of _ target]) (use m' g found that in simp)
      ultimately show ?thesis using tgt(1) m' by simp
    next
      case (Some m)
      have mr: "muteRow (mpMutes mp) (acID req) i = Inr m" by (rule tgt(4)) (simp add: Inr te Some)
      note row = muteRow_Inr [OF mr]
      obtain pe s2 where p: "deleteMuteByID (umID m) (mpMutes mp1) = (pe, s2)" by fastforce
      note del = deleteMuteByID_ok [OF tgt(1) p]
      have red: "muteRemove env req i mp =
          andThen (withCode ErrInternal (onMutes (\<lambda>s. errOption (deleteMuteByID (umID m) s)) mp1)) (\<lambda>_ mp2. muteRelationshipGet env req i mp2)"
        by (simp add: muteRemove_def t Inr te Some)
      show ?thesis
      proof (cases pe)
        case (Some err)
        then have "(r, mp') = (Inl ErrInternal, mp1\<lparr>mpMutes := s2\<rparr>)"
          using c red p by (simp add: onMutes_def errOption_def withCode_def)
        then show ?thesis using del(1) by simp
      next
        case None
        let ?mp2 = "mp1\<lparr>mpMutes := s2\<rparr>"
        have g: "muteRelationshipGet env req i ?mp2 = (r, mp')"
          using c red p None by (simp add: onMutes_def errOption_def withCode_def)
        have m': "mpMutes mp' = s2" using get [OF g] by simp
        have one: "umID w = umID m \<longleftrightarrow> pairOf (acID req) i w" if "w \<in> set (slRows (mpMutes mp))" for w
          using mute_id_unique [OF inv that, of m] muteRow_unique [OF inv that, of m] row by (auto simp: pairOf_def)
        have "set (slRows (mpMutes mp')) = {m \<in> set (slRows (mpMutes mp)). \<not> pairOf (acID req) i m}"
          using del(2) [OF None] m' one tgt(2) by auto
        moreover have "\<exists>mp0 target. mpMutes mp0 = mpMutes mp' \<and> muteRelationshipGet env req i mp0 = (Inr rel, mp') \<and>
            acID req \<noteq> i \<and> aeAccount env i = Inr target" if "r = Inr rel"
          by (rule exI [of _ ?mp2], rule exI [of _ target]) (use m' g found that in simp)
        ultimately show ?thesis using del(1) m' by simp
      qed
    qed
  qed
  then show "muteInv now (mpMutes mp')"
    and "r = Inr rel \<Longrightarrow> aeAccount env (acID req) = Inr a \<Longrightarrow>
      set (slRows (mpMutes mp')) = {m \<in> set (slRows (mpMutes mp)). \<not> pairOf (acID req) i m} \<and>
      (\<exists>mp0 target. mpMutes mp0 = mpMutes mp' \<and> muteRelationshipGet env req i mp0 = (Inr rel, mp') \<and>
        acID req \<noteq> i \<and> aeAccount env i = Inr target)" by blast+
qed

subsection \<open>Histories\<close>

definition noMutes :: "faults \<Rightarrow> mutestate" where
  "noMutes fs = \<lparr>slTable = \<lparr>tbRows = [], tbCache = []\<rparr>, slIDs = Map.empty, slFaults = fs\<rparr>"

text \<open>
  The handlers, the listings that timelines and clients ask for, lookups, evictions, whatever
  changes the relationships, and the clock. A new mute has an ID that no mute has.
\<close>

inductive muteReach :: "time \<Rightarrow> mute_proc \<Rightarrow> bool" where
  start: "muteReach now \<lparr>mpRel = st, mpMutes = noMutes fs\<rparr>"
| create: "muteReach t mp \<Longrightarrow> t \<le> aeNow env \<Longrightarrow> \<forall>m \<in> set (slRows (mpMutes mp)). umID m \<noteq> aeULID env \<Longrightarrow>
    muteReach (aeNow env) (snd (muteCreate env req i form mp))"
| remove: "muteReach t mp \<Longrightarrow> t \<le> aeNow env \<Longrightarrow> muteReach (aeNow env) (snd (muteRemove env req i mp))"
| list: "muteReach t mp \<Longrightarrow> t \<le> now \<Longrightarrow>
    muteReach now (mp\<lparr>mpMutes := snd (getAccountMutes' sqlite now a po (mpMutes mp))\<rparr>)"
| listing: "muteReach t mp \<Longrightarrow> t \<le> aeNow env \<Longrightarrow>
    muteReach (aeNow env) (mp\<lparr>mpMutes := snd (mutesGet env sqlite (toAPI :: string \<Rightarrow> string option) urlString req po (mpMutes mp))\<rparr>)"
| lookup: "muteReach t mp \<Longrightarrow> muteReach t (mp\<lparr>mpMutes := snd (getMute acct a b (mpMutes mp))\<rparr>)"
| evict: "muteReach t mp \<Longrightarrow> muteReach t (mp\<lparr>mpMutes := slEvict P G (mpMutes mp)\<rparr>)"
| relationships: "muteReach t mp \<Longrightarrow> muteReach t (mp\<lparr>mpRel := st\<rparr>)"
| tick: "muteReach t mp \<Longrightarrow> t \<le> now \<Longrightarrow> muteReach now mp"

lemma mutesGet_state: "snd (mutesGet env sqlite toAPI urlString req po s) = snd (getAccountMutes' sqlite (aeNow env) (acID req) po s)"
  by (cases "getAccountMutes' sqlite (aeNow env) (acID req) po s" rule: prod.exhaust; cases "fst (getAccountMutes' sqlite (aeNow env) (acID req) po s)")
    (auto simp: mutesGet_def getAccountMutes_def Let_def)

lemma muteReach_inv: "muteReach now mp \<Longrightarrow> muteInv now (mpMutes mp)"
proof (induction rule: muteReach.induct)
  case (start now st fs)
  then show ?case by (simp add: noMutes_def slInv_def tblOK_def slRows_def tableOK_def)
next
  case (create t mp env req i form)
  then show ?case using muteCreate_ok(1) [OF muteInv_later] by (metis prod.collapse)
next
  case (remove t mp env req i)
  then show ?case using muteRemove_ok(1) [OF muteInv_later] by (metis prod.collapse)
next
  case (list t mp now sqlite a po)
  then show ?case using getAccountMutes'_ok(1) [OF muteInv_later] by (metis mute_proc.select_convs(2) mute_proc.update_convs(2) mute_proc.surjective prod.collapse)
next
  case (listing t mp env sqlite toAPI urlString req po)
  then show ?case using getAccountMutes'_ok(1) [OF muteInv_later] by (simp add: mutesGet_state) (metis prod.collapse)
next
  case (lookup t mp acct a b)
  then show ?case using getMute_ok(1) by simp (metis prod.collapse)
next
  case (evict t mp P G)
  then show ?case using mut.slInv_evict by simp
next
  case (relationships t mp st)
  then show ?case by simp
next
  case (tick t mp now)
  then show ?case using muteInv_later by blast
qed

subsection \<open>Compiled lists\<close>

lemma compiled_lookup:
  assumes "\<And>m w. m \<in> set ms \<Longrightarrow> w \<in> set ms \<Longrightarrow> umTargetAccountID m = umTargetAccountID w \<Longrightarrow> m = w"
  shows "map_of (the (newCompiledUserMuteList ms)) b =
    map_option (\<lambda>m. \<lparr>cmuExpiresAt = umExpiresAt m, cmuNotifications = umNotifications m\<rparr>) (find (\<lambda>m. umTargetAccountID m = b) ms)"
proof -
  let ?e = "\<lambda>m. \<lparr>cmuExpiresAt = umExpiresAt m, cmuNotifications = umNotifications m\<rparr>"
  have "map_of (fold (\<lambda>m. AList.update (umTargetAccountID m) (?e m)) ms al) b =
      (case find (\<lambda>m. umTargetAccountID m = b) ms of Some m \<Rightarrow> Some (?e m) | None \<Rightarrow> map_of al b)" for al
    using assms
  proof (induction ms arbitrary: al)
    case (Cons m ms)
    have "find (\<lambda>w. umTargetAccountID w = b) ms = None \<or> find (\<lambda>w. umTargetAccountID w = b) ms = Some m"
      if "umTargetAccountID m = b"
    proof (cases "find (\<lambda>w. umTargetAccountID w = b) ms")
      case (Some w)
      then have "w \<in> set ms" "umTargetAccountID w = b" by (auto simp: find_Some_iff)
      then show ?thesis using Cons(2) [of w m] that Some by simp
    qed simp
    then show ?case using Cons by (auto simp: update_conv' split: option.splits)
  qed simp
  from this [of "[]"] show ?thesis by (simp add: newCompiledUserMuteList_def split: option.splits)
qed

definition mutedIn :: "user_mute list \<Rightarrow> string \<Rightarrow> string \<Rightarrow> filter_context \<Rightarrow> time \<Rightarrow> bool" where
  "mutedIn rows a b ctx t \<longleftrightarrow> list_ex (\<lambda>m. pairOf a b m \<and> \<not> userMuteExpired m t \<and>
     appliesInContext \<lparr>cmuExpiresAt = umExpiresAt m, cmuNotifications = umNotifications m\<rparr> ctx) rows"

lemma compiled_current:
  assumes inv: "muteInv now s" and g: "getAccountMutes' sqlite now a None s = (Inr ms, s')" and t: "now \<le> t"
  shows "muteMatches (newCompiledUserMuteList ms) b ctx t = mutedIn (slRows s) a b ctx t"
proof -
  obtain ids where ids: "muteGood now a (slRows s) ids" "ms = map (rowOf umID (slRows s)) ids"
    using getAccountMutes'_ok(3) [OF inv g refl refl] by blast
  have in1: "m \<in> set (slRows s) \<and> umAccountID m = a" if "m \<in> set ms" for m using muteGood_rows(1) [OF inv ids(1) t] ids(2) that by blast
  have in2: "m \<in> set ms" if "m \<in> set (slRows s)" "umAccountID m = a" "\<not> userMuteExpired m t" for m
    using muteGood_rows(2) [OF inv ids(1) t that] ids(2) by blast
  have uniq: "m = w" if "m \<in> set ms" "w \<in> set ms" "umTargetAccountID m = umTargetAccountID w" for m w
    using muteRow_unique [OF inv, of m w] in1 [OF that(1)] in1 [OF that(2)] that(3) by simp
  let ?f = "find (\<lambda>m. umTargetAccountID m = b) ms"
  have look: "map_of (the (newCompiledUserMuteList ms)) b =
      map_option (\<lambda>m. \<lparr>cmuExpiresAt = umExpiresAt m, cmuNotifications = umNotifications m\<rparr>) ?f"
    by (rule compiled_lookup) (rule uniq)
  have mm: "muteMatches (newCompiledUserMuteList ms) b ctx t = (case ?f of None \<Rightarrow> False
      | Some m \<Rightarrow> appliesInContext \<lparr>cmuExpiresAt = umExpiresAt m, cmuNotifications = umNotifications m\<rparr> ctx \<and> \<not> userMuteExpired m t)"
    using look by (simp add: muteMatches_def newCompiledUserMuteList_def entryExpired_def userMuteExpired_def split: option.splits)
  show ?thesis
  proof (cases ?f)
    case None
    then have "\<forall>m \<in> set ms. umTargetAccountID m \<noteq> b" by (simp add: find_None_iff)
    then have "\<not> mutedIn (slRows s) a b ctx t" using in2 by (auto simp: mutedIn_def list_ex_iff pairOf_def)
    then show ?thesis using mm None by simp
  next
    case (Some m)
    then have m: "m \<in> set ms" "umTargetAccountID m = b" by (auto simp: find_Some_iff)
    have "w = m" if "w \<in> set (slRows s)" "pairOf a b w" for w
      using muteRow_unique [OF inv that(1), of m] in1 [OF m(1)] m(2) that(2) by (simp add: pairOf_def)
    then have "mutedIn (slRows s) a b ctx t \<longleftrightarrow> \<not> userMuteExpired m t \<and>
        appliesInContext \<lparr>cmuExpiresAt = umExpiresAt m, cmuNotifications = umNotifications m\<rparr> ctx"
      using in1 [OF m(1)] m(2) by (auto simp: mutedIn_def list_ex_iff pairOf_def)
    then show ?thesis using mm Some by auto
  qed
qed

text \<open>
  C6. Mutes are current: after any history of mutes, with faults, evictions and time, a lookup of a
  mute answers the table, and the compiled list that a timeline gets matches an account in a context
  at a time exactly when the table has a mute of it for the context that has not expired by then,
  although the list of IDs may have been cached long before.
\<close>

theorem mutes_current:
  assumes "muteReach now mp" and "getAccountMutes' sqlite now a None (mpMutes mp) = (r, s')" and "now \<le> t"
  shows "answers (fst (getMute' a b (mpMutes mp))) (muteRow (mpMutes mp) a b) \<and>
    (\<forall>ms. r = Inr ms \<longrightarrow> muteMatches (newCompiledUserMuteList ms) b ctx t = mutedIn (slRows (mpMutes mp)) a b ctx t) \<and>
    (slFaults (mpMutes mp) = [] \<longrightarrow> is_err r = False)"
proof -
  note inv = muteReach_inv [OF assms(1)]
  have "answers (fst (getMute' a b (mpMutes mp))) (muteRow (mpMutes mp) a b)"
    using getMute'_ok(1) [OF inv] by (metis prod.collapse)
  moreover have "is_err r = False" if "slFaults (mpMutes mp) = []"
    using getAccountMutes'_ok(4) [OF inv assms(2) refl that] by auto
  moreover have "muteMatches (newCompiledUserMuteList ms) b ctx t = mutedIn (slRows (mpMutes mp)) a b ctx t" if "r = Inr ms" for ms
    by (rule compiled_current [OF inv assms(2)[unfolded that] assms(3)])
  ultimately show ?thesis by blast
qed

text \<open>
  C7. Muting: a mute that is answered with success leaves exactly one mute of the target by the
  requester, with the settings asked for and the end that the duration gives, every other mute as it
  was, and the answer says so, unless the product of the duration has wrapped around.
\<close>

theorem muteCreate_effect:
  assumes "muteReach now mp" and "now \<le> aeNow env" and "\<forall>m \<in> set (slRows (mpMutes mp)). umID m \<noteq> aeULID env"
    and "aeAccount env (acID req) = Inr a" and "muteCreate env req i form mp = (Inr rel, mp')"
  shows "\<exists>m. set (slRows (mpMutes mp')) = insert m {w \<in> set (slRows (mpMutes mp)). \<not> pairOf (acID req) i w} \<and>
    pairOf (acID req) i m \<and> umNotifications m = mfNotifications form \<and>
    umExpiresAt m = (case mfDuration form of None \<Rightarrow> 0 | Some n \<Rightarrow> aeNow env + wrap64 (second * n)) \<and>
    rlMuting rel = (\<not> userMuteExpired m (aeNow env)) \<and>
    rlMutingNotifications rel = (rlMuting rel \<and> mfNotifications form)"
proof -
  have inv: "muteInv (aeNow env) (mpMutes mp)" by (rule muteInv_later [OF muteReach_inv [OF assms(1)] assms(2)])
  note ok = muteCreate_ok [OF inv assms(3,5)]
  obtain existing where rows: "set (slRows (mpMutes mp')) =
      insert (newMute env req i form existing) {m \<in> set (slRows (mpMutes mp)). \<not> pairOf (acID req) i m}"
    using ok(2) [OF refl] by blast
  obtain mp0 target where g: "mpMutes mp0 = mpMutes mp'" "muteRelationshipGet env req i mp0 = (Inr rel, mp')"
    and target: "aeAccount env i = Inr target"
    using ok(2) [OF refl] by blast
  let ?n = "newMute env req i form existing"
  obtain r s where l: "getMute (aeAccount env) (acID req) i (mpMutes mp') = (r, s)" by fastforce
  note get = getMute_ok [OF ok(1) l]
  have n: "pairOf (acID req) i ?n" by (simp add: pairOf_def)
  have there: "muteRow (mpMutes mp') (acID req) i \<noteq> Inl e" for e using rows n by (auto simp: muteRow_Inl pairOf_def)
  have "r \<noteq> Inl LNoEntries" using get(4) there assms(4) target by auto
  then obtain m where m: "r = Inr m" "rlMuting rel = (\<not> userMuteExpired m (aeNow env))"
      "rlMutingNotifications rel = (\<not> userMuteExpired m (aeNow env) \<and> umNotifications m)"
    using muteRelationshipGet_muting [OF g(2)] l g(1) by auto
  have "m = ?n" using muteRow_unique [OF ok(1), of m ?n] muteRow_Inr [OF get(3) [OF m(1)]] rows by simp
  then show ?thesis using rows n m by (intro exI [of _ ?n]) (simp add: newMute_def)
qed

text \<open>
  Unmuting: an unmute that is answered with success leaves no mute of the target by the requester
  and every other mute as it was, and the answer says so.
\<close>

theorem muteRemove_effect:
  assumes "muteReach now mp" and "now \<le> aeNow env" and "aeAccount env (acID req) = Inr a"
    and "muteRemove env req i mp = (Inr rel, mp')"
  shows "set (slRows (mpMutes mp')) = {w \<in> set (slRows (mpMutes mp)). \<not> pairOf (acID req) i w} \<and>
    \<not> rlMuting rel \<and> \<not> rlMutingNotifications rel"
proof -
  have inv: "muteInv (aeNow env) (mpMutes mp)" by (rule muteInv_later [OF muteReach_inv [OF assms(1)] assms(2)])
  note ok = muteRemove_ok [OF inv assms(4)]
  have rows: "set (slRows (mpMutes mp')) = {m \<in> set (slRows (mpMutes mp)). \<not> pairOf (acID req) i m}"
    using ok(2) [OF refl assms(3)] by blast
  obtain mp0 where g: "mpMutes mp0 = mpMutes mp'" "muteRelationshipGet env req i mp0 = (Inr rel, mp')"
    using ok(2) [OF refl assms(3)] by blast
  obtain r s where l: "getMute (aeAccount env) (acID req) i (mpMutes mp') = (r, s)" by fastforce
  note get = getMute_ok [OF ok(1) l]
  have "r \<noteq> Inr m" for m
    using get(3) [of m] muteRow_Inr [of "mpMutes mp'" "acID req" i m] rows by (auto simp: pairOf_def)
  then show ?thesis using muteRelationshipGet_muting [OF g(2)] l g(1) rows by auto
qed

subsection \<open>Hidden statuses\<close>

lemma allInvisibleOrMuted_ok:
  assumes "visAgrees cfg R D c" and "validReq R (Some req)" and "\<forall>a \<in> set as. validAcct R a"
    and "allInvisibleOrMuted cfg D req muted as c = (r, c')"
  shows "visAgrees cfg R D c'"
    and "r = Inr True \<Longrightarrow> a \<in> set as \<Longrightarrow> isAccountVisibleTo cfg D (Some req) a = Inr False \<or> muted (acID a)"
    and "r = Inr False \<Longrightarrow> \<exists>a \<in> set as. isAccountVisibleTo cfg D (Some req) a = Inr True \<and> \<not> muted (acID a)"
proof -
  have "visAgrees cfg R D c' \<and>
    (r = Inr True \<longrightarrow> (\<forall>a \<in> set as. isAccountVisibleTo cfg D (Some req) a = Inr False \<or> muted (acID a))) \<and>
    (r = Inr False \<longrightarrow> (\<exists>a \<in> set as. isAccountVisibleTo cfg D (Some req) a = Inr True \<and> \<not> muted (acID a)))"
    using assms(1,3,4)
  proof (induction "as" arbitrary: c)
    case (Cons x xs)
    obtain v c1 where v: "accountVisible cfg D (Some req) x c = (v, c1)" by fastforce
    have ok: "v = isAccountVisibleTo cfg D (Some req) x" "visAgrees cfg R D c1"
      using accountVisible_ok [OF assms(2) _ Cons(2) v] Cons(3) by auto
    show ?case
    proof (cases v)
      case (Inl e)
      then show ?thesis using Cons(4) v ok by auto
    next
      case (Inr b)
      show ?thesis
      proof (cases "b \<and> \<not> muted (acID x)")
        case True
        then show ?thesis using Cons(4) v Inr ok by auto
      next
        case False
        then have "allInvisibleOrMuted cfg D req muted xs c1 = (r, c')" using Cons(4) v Inr by (auto split: if_splits)
        from Cons(1) [OF ok(2) _ this] show ?thesis using Cons(3) ok False Inr by auto
      qed
    qed
  qed auto
  then show "visAgrees cfg R D c'"
    and "r = Inr True \<Longrightarrow> a \<in> set as \<Longrightarrow> isAccountVisibleTo cfg D (Some req) a = Inr False \<or> muted (acID a)"
    and "r = Inr False \<Longrightarrow> \<exists>a \<in> set as. isAccountVisibleTo cfg D (Some req) a = Inr True \<and> \<not> muted (acID a)" by blast+
qed

text \<open>A filter in force that the status hits.\<close>

definition hits :: "(string \<Rightarrow> string) \<Rightarrow> time \<Rightarrow> filter_context \<Rightarrow> filter_status \<Rightarrow> user_filter \<Rightarrow> bool" where
  "hits sanitize now ctx s f \<longleftrightarrow> filterAppliesInContext f ctx \<and> \<not> filterExpired f now \<and>
     (fsID s \<in> set (ufStatuses f) \<or>
      list_ex (\<lambda>k. list_ex (fkRegexp k) (filterableTextFields sanitize s)) (ufKeywords f))"

lemma hits_matches: "hits sanitize now ctx s f \<longleftrightarrow> filterAppliesInContext f ctx \<and> \<not> filterExpired f now \<and>
    (keywordMatches sanitize s f \<noteq> [] \<or> statusMatches s f \<noteq> [])"
  by (auto simp: hits_def keywordMatches_def statusMatches_def filter_empty_conv list_ex_iff)

lemma filterResultsLoop_ok:
  "(filterResultsLoop toAPI sanitize now ctx s fs = Inl HideStatus \<longrightarrow> (\<exists>f \<in> set fs. hits sanitize now ctx s f \<and> ufAction f = ActionHide)) \<and>
   (\<forall>rs. filterResultsLoop toAPI sanitize now ctx s fs = Inr rs \<longrightarrow>
      (\<forall>f \<in> set fs. hits sanitize now ctx s f \<longrightarrow> ufAction f \<noteq> ActionHide) \<and>
      map frsFilter rs = filter (\<lambda>f. hits sanitize now ctx s f \<and> ufAction f = ActionWarn) fs)"
proof (induction fs)
  case (Cons f fs)
  show ?case
  proof (cases "hits sanitize now ctx s f")
    case False
    then have "filterResultsLoop toAPI sanitize now ctx s (f # fs) = filterResultsLoop toAPI sanitize now ctx s fs"
      by (auto simp: hits_matches Let_def)
    then show ?thesis using Cons False by simp
  next
    case True
    then have h: "filterAppliesInContext f ctx" "\<not> filterExpired f now"
        "keywordMatches sanitize s f \<noteq> [] \<or> statusMatches s f \<noteq> []" by (simp_all add: hits_matches)
    show ?thesis
    proof (cases "ufAction f")
      case ActionNone
      then show ?thesis using Cons True h by (simp add: Let_def)
    next
      case ActionWarn
      show ?thesis
      proof (cases "toAPI f")
        case None
        then show ?thesis using Cons True h ActionWarn by (auto simp: Let_def split: sum.splits)
      next
        case (Some e)
        then show ?thesis using h ActionWarn by (simp add: Let_def)
      qed
    next
      case ActionHide
      then show ?thesis using True h by (auto simp: Let_def)
    qed
  qed
qed simp

text \<open>What a reader with filters or mutes is not shown.\<close>

definition hiddenFrom :: "host_config \<Rightarrow> vis_db \<Rightarrow> user_mute list \<Rightarrow> (string \<Rightarrow> string) \<Rightarrow> time \<Rightarrow> filter_status \<Rightarrow> account \<Rightarrow>
    filter_context \<Rightarrow> user_filter list \<Rightarrow> bool" where
  "hiddenFrom cfg D rows sanitize now s req ctx fs \<longleftrightarrow>
     mutedIn rows (acID req) (fsAccountID s) ctx now \<or>
     otherAccounts s \<noteq> [] \<and> list_all (\<lambda>a. isAccountVisibleTo cfg D (Some req) a = Inr False \<or>
       mutedIn rows (acID req) (acID a) ctx now) (otherAccounts s) \<or>
     list_ex (\<lambda>f. hits sanitize now ctx s f \<and> ufAction f = ActionHide) fs"


subsection \<open>An example\<close>

definition exMuteEnv :: "time \<Rightarrow> string \<Rightarrow> action_env" where
  "exMuteEnv now u = \<lparr>aeHost = exHost, aeProtocol = ''https'', aeDB = exDB, aeAccount = exLookup,
     aeNote = (\<lambda>_ _. Inl LNoEntries), aeMute = (\<lambda>_ _. Inl LNoEntries), aeNow = now, aeNewID = Some u, aeULID = u\<rparr>"

definition exUnmuted :: mute_proc where
  "exUnmuted = \<lparr>mpRel = exState, mpMutes = noMutes []\<rparr>"

definition exTenSeconds :: mute_form where
  "exTenSeconds = \<lparr>mfNotifications = False, mfDuration = Some 10\<rparr>"

definition exMuted :: mute_proc where
  "exMuted = snd (muteCreate (exMuteEnv 5 ''m1'') (exAcct ''a'') ''b'' exTenSeconds exUnmuted)"

lemma exUnmuted_reach: "muteReach 5 exUnmuted"
  unfolding exUnmuted_def by (rule muteReach.start)

lemma exMuteEnv_simps [simp]: "aeNow (exMuteEnv t u) = t" "aeULID (exMuteEnv t u) = u" "aeAccount (exMuteEnv t u) i = Inr (exAcct i)"
  by (simp_all add: exMuteEnv_def exLookup_def)

lemma exMuted_reach: "muteReach 5 exMuted"
  using muteReach.create [OF exUnmuted_reach, of "exMuteEnv 5 ''m1''"]
  by (simp add: exMuted_def) (simp add: exUnmuted_def noMutes_def slRows_def)

definition exMute :: user_mute where
  "exMute = \<lparr>umID = ''m1'', umExpiresAt = 10000000005, umAccountID = ''a'', umTargetAccountID = ''b'',
     umNotifications = False\<rparr>"

lemma exMuted_list: "getAccountMutes' True 5 ''a'' None (mpMutes exMuted) =
    (Inr [exMute],
     snd (getAccountMutes' True 5 ''a'' None (mpMutes exMuted)))"
  by (rule prod_eqI) (simp, code_simp, simp)

theorem mutes_current_witness:
  "muteMatches (newCompiledUserMuteList [exMute]) ''b'' CtxHome 6 \<and>
   \<not> muteMatches (newCompiledUserMuteList [exMute]) ''b'' CtxHome 10000000005"
proof -
  have "mutedIn (slRows (mpMutes exMuted)) ''a'' ''b'' CtxHome 6" "\<not> mutedIn (slRows (mpMutes exMuted)) ''a'' ''b'' CtxHome 10000000005"
    by code_simp+
  then show ?thesis
    using mutes_current [OF exMuted_reach exMuted_list, of 6 "''b''" CtxHome]
      mutes_current [OF exMuted_reach exMuted_list, of 10000000005 "''b''" CtxHome] by simp
qed

theorem muteCreate_effect_witness:
  "case muteCreate (exMuteEnv 5 ''m1'') (exAcct ''a'') ''b'' exTenSeconds exUnmuted of
     (Inr rel, mp') \<Rightarrow> rlMuting rel \<and> \<not> rlMutingNotifications rel | _ \<Rightarrow> False"
proof -
  have "\<not> is_err (fst (muteCreate (exMuteEnv 5 ''m1'') (exAcct ''a'') ''b'' exTenSeconds exUnmuted))" by code_simp
  then obtain rel mp' where m: "muteCreate (exMuteEnv 5 ''m1'') (exAcct ''a'') ''b'' exTenSeconds exUnmuted = (Inr rel, mp')"
    by (cases "muteCreate (exMuteEnv 5 ''m1'') (exAcct ''a'') ''b'' exTenSeconds exUnmuted") (auto simp: is_err_def split: sum.splits)
  have fresh: "\<forall>m \<in> set (slRows (mpMutes exUnmuted)). umID m \<noteq> aeULID (exMuteEnv 5 ''m1'')"
    by (simp add: exUnmuted_def noMutes_def slRows_def)
  have "acID (exAcct ''a'') = ''a''" by code_simp
  then have "rlMuting rel \<and> \<not> rlMutingNotifications rel"
    using muteCreate_effect [OF exUnmuted_reach _ fresh _ m]
    by (auto simp: userMuteExpired_def isZeroTime_def exTenSeconds_def wrap64_def second_def)
  then show ?thesis by (simp add: m)
qed

theorem muteRemove_effect_witness:
  "case muteRemove (exMuteEnv 6 ''m2'') (exAcct ''a'') ''b'' exMuted of
     (Inr rel, mp') \<Rightarrow> slRows (mpMutes mp') = [] \<and> \<not> rlMuting rel | _ \<Rightarrow> False"
proof -
  have "\<not> is_err (fst (muteRemove (exMuteEnv 6 ''m2'') (exAcct ''a'') ''b'' exMuted))" by code_simp
  then obtain rel mp' where m: "muteRemove (exMuteEnv 6 ''m2'') (exAcct ''a'') ''b'' exMuted = (Inr rel, mp')"
    by (cases "muteRemove (exMuteEnv 6 ''m2'') (exAcct ''a'') ''b'' exMuted") (auto simp: is_err_def split: sum.splits)
  have "list_all (pairOf (acID (exAcct ''a'')) ''b'') (slRows (mpMutes exMuted))" by code_simp
  then have "{w \<in> set (slRows (mpMutes exMuted)). \<not> pairOf (acID (exAcct ''a'')) ''b'' w} = {}"
    by (simp add: list_all_iff)
  then have "set (slRows (mpMutes mp')) = {} \<and> \<not> rlMuting rel"
    using muteRemove_effect [OF exMuted_reach _ _ m] by simp
  then show ?thesis by (simp add: m)
qed

definition exMutedStatus :: filter_status where
  "exMutedStatus = \<lparr>fsID = ''s'', fsAccountID = ''b'', fsInReplyToAccount = None, fsMentioned = [], fsContent = ''hi'',
     fsContentWarning = [], fsDescriptions = [], fsPollOptions = []\<rparr>"

definition isHide :: "filter_error + filter_result list \<Rightarrow> bool" where
  "isHide r = (case r of Inl HideStatus \<Rightarrow> True | _ \<Rightarrow> False)"

definition isShown :: "filter_error + filter_result list \<Rightarrow> bool" where
  "isShown r = (case r of Inr [] \<Rightarrow> True | _ \<Rightarrow> False)"

definition exFiltered :: "vis_db \<Rightarrow> filter_status \<Rightarrow> filter_context \<Rightarrow> user_mute list \<Rightarrow> filter_error + filter_result list" where
  "exFiltered D s ctx ms = fst (statusToAPIFilterResults exHost D (\<lambda>_. None) id 6 s (exAcct ''a'') ctx []
     (newCompiledUserMuteList ms) (\<lambda>_. None))"

lemma hides_code:
  "isHide (exFiltered exDB exMutedStatus CtxHome [exMute])" "isShown (exFiltered exDB exMutedStatus CtxNotifications [exMute])"
  by code_simp+


text \<open>
  The check of a discussion among accounts that the reader cannot see is made only for readers who
  have some filter or mute: one of an account that has nothing to do with the status hides it.
\<close>

definition exDiscussion :: filter_status where
  "exDiscussion = exMutedStatus\<lparr>fsInReplyToAccount := Some (exAcct ''c'')\<rparr>"

definition exBlockedDB :: vis_db where
  "exBlockedDB = exDB\<lparr>dbEitherBlocked := (\<lambda>x y. Inr (y = ''c''))\<rparr>"

lemma unrelated_mute_hides:
  "isShown (exFiltered exBlockedDB exDiscussion CtxHome [])"
  "isHide (exFiltered exBlockedDB exDiscussion CtxHome [exMute\<lparr>umTargetAccountID := ''z''\<rparr>])"
  by code_simp+

text \<open>\<open>DeleteAccountMutes\<close> leaves a deleted mute in the cache.\<close>

definition exTwoMutes :: mute_proc where
  "exTwoMutes = snd (muteCreate (exMuteEnv 6 ''m2'') (exAcct ''a'') ''d'' exTenSeconds exMuted)"

lemma deleteAccountMutes_stale:
  "case deleteAccountMutes True 7 exLookup ''a'' (mpMutes exTwoMutes) of
     (e, s) \<Rightarrow> e = None \<and> slRows s = [] \<and> (fst (isMuted ''a'' ''b'' s) = Inr True \<or> fst (isMuted ''a'' ''d'' s) = Inr True)"
  by code_simp

end
