(* ===== verification/Spam.thy ===== *)
theory Spam
  imports RelationshipHistory
begin

text \<open>
  Which statuses sent to an inbox go on to the worker: the filter of
  \<open>src/internal/filter/spam/statusable.go\<close>, with the comparison of domain names that it takes from
  \<open>src/vendor/github.com/miekg/dns/labels.go\<close>, and its caller \<open>createStatusable\<close> of
  \<open>src/internal/federation/federatingdb/create.go\<close>. What is extracted from a status is a record.
\<close>

subsection \<open>Names in common\<close>

text \<open>
  A dot separates two labels unless an odd number of backslashes stands before it. The last
  character of a name never does.
\<close>

definition separatorAt :: "string \<Rightarrow> nat \<Rightarrow> bool" where
  "separatorAt s i \<longleftrightarrow> s ! i = CHR ''.'' \<and> even (length (takeWhile (\<lambda>c. c = CHR 0x5C) (rev (take i s))))"

definition nextLabel :: "string \<Rightarrow> nat \<Rightarrow> nat option" where
  "nextLabel s off = map_option Suc (find (separatorAt s) [off..<length s - 1])"

lemma nextLabel_later: "nextLabel s off = Some n \<Longrightarrow> off < n \<and> n < length s"
  by (auto simp: nextLabel_def find_Some_iff)

function splitFrom :: "string \<Rightarrow> nat \<Rightarrow> nat list" where
  "splitFrom s off = (case nextLabel s off of None \<Rightarrow> [] | Some n \<Rightarrow> n # splitFrom s n)"
  by pat_completeness auto
termination
  by (relation "measure (\<lambda>(s, off). length s - off)") (auto dest: nextLabel_later)

declare splitFrom.simps [simp del]

definition splitName :: "string \<Rightarrow> nat list" where
  "splitName s = (if s = ''.'' then [] else 0 # splitFrom s 0)"

definition lowerASCII :: "char \<Rightarrow> char" where
  "lowerASCII c = (if 65 \<le> (of_char c :: nat) \<and> (of_char c :: nat) \<le> 90 then char_of ((of_char c :: nat) + 32) else c)"

definition equalLabels :: "string \<Rightarrow> string \<Rightarrow> bool" where
  "equalLabels a b \<longleftrightarrow> map lowerASCII a = map lowerASCII b"

text \<open>The labels from the right, each but the last of a name with its dot.\<close>

definition labelsFromRight :: "string \<Rightarrow> string list" where
  "labelsFromRight s =
     (let idx = splitName s
      in rev (map (\<lambda>(a, b). take (b - a) (drop a s)) (zip idx (tl idx @ [length s]))))"

fun equalPrefix :: "('a \<Rightarrow> 'a \<Rightarrow> bool) \<Rightarrow> 'a list \<Rightarrow> 'a list \<Rightarrow> nat" where
  "equalPrefix eq (x # xs) (y # ys) = (if eq x y then Suc (equalPrefix eq xs ys) else 0)"
| "equalPrefix eq _ _ = 0"

definition compareDomainName :: "string \<Rightarrow> string \<Rightarrow> nat" where
  "compareDomainName a b =
     (if a = ''.'' \<or> b = ''.'' then 0 else equalPrefix equalLabels (labelsFromRight a) (labelsFromRight b))"

subsection \<open>Mentions\<close>

record raw_mention =
  rmNameString :: string
  rmTargetURI :: string

record prepped_mention =
  pmTargetURI :: string
  pmDomain :: string
  pmUser :: string
  pmLocal :: bool

record statusable =
  sbMentions :: "raw_mention list"
  sbAttachments :: nat
  sbHashtags :: "string list"
  sbSummary :: string
  sbContent :: string
  sbAttributedTo :: "string list"
  sbID :: string

text \<open>
  \<open>seMentionName\<close> is \<open>FindStringSubmatch\<close> of the expression \<open>MentionName\<close>, \<open>seLinks\<close> the matches of
  \<open>LinkScheme\<close>, \<open>seParseHost\<close> the host of a URL that parses, \<open>seEqualFold\<close> is \<open>strings.EqualFold\<close>.
\<close>

record spam_env =
  seHost :: string
  seAccountDomain :: string
  seSpamFilter :: bool
  seMentionName :: "string \<Rightarrow> string list"
  seParseHost :: "string \<Rightarrow> string option"
  seEqualFold :: "string \<Rightarrow> string \<Rightarrow> bool"
  seLinks :: "string \<Rightarrow> string list"
  seByURI :: "string \<Rightarrow> lookup_error + account"
  seByName :: "string \<Rightarrow> string \<Rightarrow> lookup_error + account"
  seURI :: "account \<Rightarrow> string"
  seURL :: "account \<Rightarrow> string"

definition extractNamestringParts :: "(string \<Rightarrow> string list) \<Rightarrow> string \<Rightarrow> (string \<times> string) option" where
  "extractNamestringParts match s =
     (case match s of
        [_, user] \<Rightarrow> Some (user, [])
      | [_, user, host] \<Rightarrow> Some (user, host)
      | _ \<Rightarrow> None)"

definition prepMention :: "spam_env \<Rightarrow> raw_mention \<Rightarrow> prepped_mention option" where
  "prepMention env m =
     (case (if rmNameString m \<noteq> [] then extractNamestringParts (seMentionName env) (rmNameString m) else Some ([], [])) of
        None \<Rightarrow> None
      | Some (user, domain) \<Rightarrow>
          (case (if rmTargetURI m \<noteq> [] then map_option (\<lambda>h. if domain = [] then h else domain) (seParseHost env (rmTargetURI m))
                 else Some domain) of
             None \<Rightarrow> None
           | Some d \<Rightarrow> Some \<lparr>pmTargetURI = rmTargetURI m, pmDomain = d, pmUser = user,
               pmLocal = (d = seHost env \<or> d = seAccountDomain env)\<rparr>))"

definition prepMentions :: "spam_env \<Rightarrow> raw_mention list \<Rightarrow> prepped_mention list" where
  "prepMentions env ms = List.map_filter (prepMention env) ms"

definition targetsReceiver :: "spam_env \<Rightarrow> account \<Rightarrow> prepped_mention \<Rightarrow> bool" where
  "targetsReceiver env recv m \<longleftrightarrow>
     pmTargetURI m \<noteq> [] \<and> (pmTargetURI m = seURI env recv \<or> pmTargetURI m = seURL env recv) \<or>
     pmLocal m \<and> seEqualFold env (pmUser m) (acUsername recv)"

definition isMentioned :: "spam_env \<Rightarrow> account \<Rightarrow> prepped_mention list \<Rightarrow> bool" where
  "isMentioned env recv ms \<longleftrightarrow> list_ex (targetsReceiver env recv) ms"

subsection \<open>Whom the receiver knows\<close>

definition lockedFollowedBy :: "account \<Rightarrow> account \<Rightarrow> relstate \<Rightarrow> (lookup_error + bool) \<times> relstate" where
  "lockedFollowedBy recv req st = (if \<not> acLocked recv then (Inr False, st) else isFollowing (acID req) (acID recv) st)"

text \<open>The account of a mention: \<open>None\<close> is no account, or an error that is only logged.\<close>

definition mentionedAccount :: "spam_env \<Rightarrow> prepped_mention \<Rightarrow> account option" where
  "mentionedAccount env m =
     (if pmTargetURI m \<noteq> [] then (case seByURI env (pmTargetURI m) of Inl _ \<Rightarrow> None | Inr a \<Rightarrow> Some a)
      else if pmUser m \<noteq> [] then (case seByName env (pmUser m) (pmDomain m) of Inl _ \<Rightarrow> None | Inr a \<Rightarrow> Some a)
      else None)"

definition knowsMention :: "spam_env \<Rightarrow> account \<Rightarrow> prepped_mention \<Rightarrow> relstate \<Rightarrow> bool \<times> relstate" where
  "knowsMention env recv m st =
     (case mentionedAccount env m of
        None \<Rightarrow> (False, st)
      | Some a \<Rightarrow>
          if acID a = acID recv then (False, st)
          else
            (case isFollowing (acID recv) (acID a) st of
               (Inl _, st1) \<Rightarrow> (False, st1)
             | (Inr True, st1) \<Rightarrow> (True, st1)
             | (Inr False, st1) \<Rightarrow>
                 (case isFollowRequested (acID recv) (acID a) st1 of
                    (Inl _, st2) \<Rightarrow> (False, st2)
                  | (Inr b, st2) \<Rightarrow> (b, st2))))"

fun knowsOneMentioned :: "spam_env \<Rightarrow> account \<Rightarrow> prepped_mention list \<Rightarrow> relstate \<Rightarrow> bool \<times> relstate" where
  "knowsOneMentioned env recv [] st = (False, st)"
| "knowsOneMentioned env recv (m # ms) st =
     (case knowsMention env recv m st of
        (True, st') \<Rightarrow> (True, st')
      | (False, st') \<Rightarrow> knowsOneMentioned env recv ms st')"

subsection \<open>Links\<close>

definition mentionLink :: "spam_env \<Rightarrow> string \<times> string \<Rightarrow> prepped_mention \<Rightarrow> bool" where
  "mentionLink env link m =
     (case link of (str, host) \<Rightarrow>
        seEqualFold env str (pmTargetURI m) \<or> host = pmDomain m \<or> 2 \<le> compareDomainName host (pmDomain m))"

definition errantLinks :: "spam_env \<Rightarrow> statusable \<Rightarrow> prepped_mention list \<Rightarrow> bool" where
  "errantLinks env sb ms =
     (let links = List.map_filter (\<lambda>l. map_option (Pair l) (seParseHost env l))
            (seLinks env (sbSummary sb @ '' '' @ sbContent sb))
      in list_ex (\<lambda>l. \<not> list_ex (seEqualFold env (fst l)) (sbHashtags sb) \<and> \<not> list_ex (mentionLink env l) ms) links)"

subsection \<open>The decision\<close>

datatype spam_verdict = LooksOK | NotRelevant | LooksSpam

definition statusableOK :: "spam_env \<Rightarrow> account \<Rightarrow> account \<Rightarrow> statusable \<Rightarrow> relstate \<Rightarrow>
    (lookup_error + spam_verdict) \<times> relstate" where
  "statusableOK env recv req sb st =
     andThen (isFollowing (acID recv) (acID req) st) (\<lambda>follows st1.
       if follows then (Inr LooksOK, st1)
       else
         (let ms = prepMentions env (sbMentions sb)
          in if \<not> isMentioned env recv ms then (Inr NotRelevant, st1)
             else if \<not> seSpamFilter env then (Inr LooksOK, st1)
             else
               andThen (lockedFollowedBy recv req st1) (\<lambda>followedBy st2.
                 if followedBy then (Inr LooksOK, st2)
                 else if 5 \<le> length ms then (Inr LooksSpam, st2)
                 else
                   (case knowsOneMentioned env recv ms st2 of (knowsOne, st3) \<Rightarrow>
                      if knowsOne then (Inr LooksOK, st3)
                      else if sbAttachments sb \<noteq> 0 then (Inr LooksSpam, st3)
                      else if errantLinks env sb ms then (Inr LooksSpam, st3)
                      else (Inr LooksOK, st3)))))"

subsection \<open>Statuses of an activity\<close>

record status_msg =
  sgIRI :: "string option"
  sgObject :: "statusable option"
  sgReceiving :: account
  sgRequesting :: account

record create_state =
  csRel :: relstate
  csQueue :: "status_msg list"

definition isSender :: "spam_env \<Rightarrow> statusable \<Rightarrow> account \<Rightarrow> bool" where
  "isSender env sb req \<longleftrightarrow> seURI env req \<in> set (sbAttributedTo sb)"

definition createStatusable :: "spam_env \<Rightarrow> account \<Rightarrow> account \<Rightarrow> statusable \<Rightarrow> bool \<Rightarrow> create_state \<Rightarrow>
    lookup_error option \<times> create_state" where
  "createStatusable env recv req sb forwarded cs =
     (case statusableOK env recv req sb (csRel cs) of
        (Inl e, st) \<Rightarrow> (Some e, cs\<lparr>csRel := st\<rparr>)
      | (Inr NotRelevant, st) \<Rightarrow> (None, cs\<lparr>csRel := st\<rparr>)
      | (Inr LooksSpam, st) \<Rightarrow> (None, cs\<lparr>csRel := st\<rparr>)
      | (Inr LooksOK, st) \<Rightarrow>
          (None, cs\<lparr>csRel := st, csQueue := csQueue cs @
            [if forwarded then \<lparr>sgIRI = Some (sbID sb), sgObject = None, sgReceiving = recv, sgRequesting = req\<rparr>
             else \<lparr>sgIRI = None, sgObject = Some sb, sgReceiving = recv, sgRequesting = req\<rparr>]\<rparr>))"

fun createStatusables :: "spam_env \<Rightarrow> account \<Rightarrow> account \<Rightarrow> statusable list \<Rightarrow> create_state \<Rightarrow>
    lookup_error list \<times> create_state" where
  "createStatusables env recv req [] cs = ([], cs)"
| "createStatusables env recv req (sb # sbs) cs =
     (let forwarded = \<not> isSender env sb req;
          (e, cs1) = createStatusable env recv req sb forwarded cs;
          (es, cs2) = createStatusables env recv req sbs cs1
      in ((case e of None \<Rightarrow> [] | Some x \<Rightarrow> [x]) @ es, cs2))"

end
