(* ===== verification/SpamSafety.thy ===== *)
theory SpamSafety
  imports Spam
begin

text \<open>
  What the spam filter decides, against the relationship tables, in any state of their caches and
  with faults; what reaches the queue of the worker; and the labels that two names share.
\<close>

subsection \<open>Names in common\<close>

definition plainName :: "string \<Rightarrow> bool" where
  "plainName s \<longleftrightarrow> CHR 0x5C \<notin> set s \<and> (s \<noteq> [] \<longrightarrow> last s \<noteq> CHR ''.'')"

lemma splitFrom_filter: "splitFrom s off = map Suc (filter (separatorAt s) [off..<length s - 1])"
proof (induction s off rule: splitFrom.induct)
  case (1 s off)
  show ?case
  proof (cases "find (separatorAt s) [off..<length s - 1]")
    case None
    then have "filter (separatorAt s) [off..<length s - 1] = []" by (auto simp: find_None_iff filter_empty_conv)
    then show ?thesis using None by (simp add: splitFrom.simps nextLabel_def)
  next
    case (Some i)
    then have nl: "nextLabel s off = Some (Suc i)" by (simp add: nextLabel_def)
    obtain k where k: "k < length [off..<length s - 1]" "separatorAt s i" "[off..<length s - 1] ! k = i"
      "\<forall>j<k. \<not> separatorAt s ([off..<length s - 1] ! j)" using Some by (auto simp: find_Some_iff)
    then have i: "off \<le> i" "i < length s - 1" "\<forall>j. off \<le> j \<and> j < i \<longrightarrow> \<not> separatorAt s j"
    proof -
      have i: "i = off + k" "off + k < length s - 1" using k(1,3) by auto
      then show "off \<le> i" "i < length s - 1" by auto
      show "\<forall>j. off \<le> j \<and> j < i \<longrightarrow> \<not> separatorAt s j"
      proof (intro allI impI)
        fix j assume j: "off \<le> j \<and> j < i"
        then have "j - off < k" using i by auto
        with k(4) have "\<not> separatorAt s ([off..<length s - 1] ! (j - off))" by simp
        then show "\<not> separatorAt s j" using i j by simp
      qed
    qed
    have "[off..<length s - 1] = [off..<i] @ i # [Suc i..<length s - 1]"
      using i(1,2) by (metis le_add_diff_inverse less_imp_le upt_add_eq_append upt_conv_Cons)
    moreover have "filter (separatorAt s) [off..<i] = []" using i(3) by (auto simp: filter_empty_conv)
    ultimately show ?thesis using 1 [OF nl] nl k(2) by (subst splitFrom.simps) simp
  qed
qed

definition pieces :: "nat list \<Rightarrow> string \<Rightarrow> string list" where
  "pieces idx s = map (\<lambda>(a, b). take (b - a) (drop a s)) (zip idx (tl idx @ [length s]))"

definition dotIdx :: "string \<Rightarrow> nat list" where
  "dotIdx s = 0 # map Suc (filter (\<lambda>i. s ! i = CHR ''.'') [0..<length s - 1])"

lemma splitName_plain: "plainName s \<Longrightarrow> splitName s = dotIdx s"
proof -
  assume p: "plainName s"
  have "takeWhile (\<lambda>c. c = CHR 0x5C) xs = []" if "set xs \<subseteq> set s" for xs
    using that p by (cases xs) (auto simp: plainName_def)
  then have "takeWhile (\<lambda>c. c = CHR 0x5C) (rev (take i s)) = []" for i
    using set_take_subset [of i s] by simp
  then have "separatorAt s = (\<lambda>i. s ! i = CHR ''.'')" by (simp add: separatorAt_def fun_eq_iff)
  then show ?thesis using p by (auto simp: splitName_def dotIdx_def splitFrom_filter plainName_def)
qed

lemma dotIdx_Cons: "s \<noteq> [] \<Longrightarrow> dotIdx (c # s) = 0 # (if c = CHR ''.'' then [1] else []) @ map Suc (tl (dotIdx s))"
proof -
  assume "s \<noteq> []"
  then have "[0..<length s] = 0 # map Suc [0..<length s - 1]" by (simp add: map_Suc_upt upt_conv_Cons)
  then show ?thesis by (simp add: dotIdx_def filter_map o_def)
qed

lemma pieces_shift: "pieces (map Suc idx) (c # s) = pieces idx s"
proof (cases idx)
  case (Cons a as)
  have "zip (map Suc (a # as)) (map Suc (as @ [length s])) = map (map_prod Suc Suc) (zip (a # as) (as @ [length s]))"
    by (simp only: zip_map_map map_prod_def)
  then show ?thesis by (simp add: pieces_def Cons o_def map_prod_def split_beta)
qed (simp add: pieces_def)

lemma pieces_Cons: "pieces (a # is) s = take (hd (is @ [length s]) - a) (drop a s) # pieces is s"
  by (cases "is") (simp_all add: pieces_def)

lemma pieces_dotIdx_Cons:
  assumes "s \<noteq> []"
  shows "pieces (dotIdx (c # s)) (c # s) =
    (if c = CHR ''.'' then [c] # pieces (dotIdx s) s
     else (c # hd (pieces (dotIdx s) s)) # tl (pieces (dotIdx s) s))"
proof -
  obtain t where t: "dotIdx s = 0 # t" by (simp add: dotIdx_def)
  show ?thesis
  proof (cases "c = CHR ''.''")
    case True
    then have "dotIdx (c # s) = 0 # map Suc (dotIdx s)" using dotIdx_Cons [OF assms] t by simp
    then show ?thesis using True t by (simp only: pieces_Cons pieces_shift) simp
  next
    case False
    have "dotIdx (c # s) = 0 # map Suc t" using False dotIdx_Cons [OF assms] t by simp
    moreover have "hd (map Suc t @ [length (c # s)]) = Suc (hd (t @ [length s]))" by (cases t) auto
    ultimately show ?thesis using False t pieces_shift [of t c s] by (simp add: pieces_Cons [of 0])
  qed
qed

definition dotted :: "string list \<Rightarrow> string list" where
  "dotted ps = map (\<lambda>p. p @ ''.'') (butlast ps) @ [last ps]"

lemma pieces_dotted: "(s \<noteq> [] \<longrightarrow> last s \<noteq> CHR ''.'') \<Longrightarrow> pieces (dotIdx s) s = dotted (splitOn CHR ''.'' s)"
proof (induction s)
  case (Cons c s)
  show ?case
  proof (cases "s = []")
    case True
    then show ?thesis using Cons by (simp add: dotIdx_def pieces_def dotted_def)
  next
    case False
    then have ih: "pieces (dotIdx s) s = dotted (splitOn CHR ''.'' s)" using Cons by simp
    obtain p ps where p: "splitOn CHR ''.'' s = p # ps" by (cases "splitOn CHR ''.'' s") auto
    show ?thesis unfolding pieces_dotIdx_Cons [OF False] ih using p by (cases ps) (simp_all add: dotted_def)
  qed
qed (simp add: dotIdx_def pieces_def dotted_def)

lemma equalPrefix_map: "equalPrefix eq (map f xs) (map f ys) = equalPrefix (\<lambda>x y. eq (f x) (f y)) xs ys"
  by (induction "\<lambda>x y. eq (f x) (f y)" xs ys rule: equalPrefix.induct) auto

lemma labelsFromRight_plain:
  assumes "plainName s"
  shows "labelsFromRight s = last (splitOn CHR ''.'' s) # map (\<lambda>p. p @ ''.'') (rev (butlast (splitOn CHR ''.'' s)))"
proof -
  have "labelsFromRight s = rev (pieces (dotIdx s) s)"
    by (simp add: labelsFromRight_def splitName_plain [OF assms] pieces_def Let_def)
  then show ?thesis using pieces_dotted [of s] assms by (simp add: plainName_def dotted_def rev_map)
qed

text \<open>
  C40. The vendored comparison of names is the one on their labels: for names without backslashes and
  without a dot at the end it is the number of labels, split at dots, that the names share from the right up to
  the first that differ, whatever their case.
\<close>

theorem compareDomainName_labels:
  assumes "plainName a" and "plainName b"
  shows "compareDomainName a b = equalPrefix equalLabels (rev (splitOn CHR ''.'' a)) (rev (splitOn CHR ''.'' b))"
proof -
  have r: "rev (splitOn CHR ''.'' s) = last (splitOn CHR ''.'' s) # rev (butlast (splitOn CHR ''.'' s))" for s
    by (metis append_butlast_last_id rev_eq_Cons_iff rev_rev_ident splitOn_not_Nil)
  have "equalLabels (x @ ''.'') (y @ ''.'') = equalLabels x y" for x y by (simp add: equalLabels_def)
  then show ?thesis
    using assms unfolding r
    by (auto simp: compareDomainName_def labelsFromRight_plain equalPrefix_map) (auto simp: plainName_def)
qed

theorem compareDomainName_labels_witness: "compareDomainName ''a.Example.org'' ''b.b.example.ORG'' = 2"
  using compareDomainName_labels [of "''a.Example.org''" "''b.b.example.ORG''"] by (simp add: plainName_def) code_simp

subsection \<open>The decision\<close>

definition knownMention :: "spam_env \<Rightarrow> account \<Rightarrow> relstate \<Rightarrow> prepped_mention \<Rightarrow> bool" where
  "knownMention env recv st m =
     (case mentionedAccount env m of
        None \<Rightarrow> False
      | Some a \<Rightarrow> acID a \<noteq> acID recv \<and>
          (followingIn (tbRows (rsFollows st)) (acID recv) (acID a) \<or> requestedIn (tbRows (rsRequests st)) (acID recv) (acID a)))"

text \<open>A state that only reads lead to.\<close>

definition onlyRead :: "host_config \<Rightarrow> rows \<Rightarrow> vis_db \<Rightarrow> relstate \<Rightarrow> relstate \<Rightarrow> bool" where
  "onlyRead cfg R base st st' \<longleftrightarrow> relInv cfg R base st' \<and> sameData st st' \<and> (rsFaults st = [] \<longrightarrow> rsFaults st' = [])"

lemma onlyRead_trans: "onlyRead cfg R base s t \<Longrightarrow> onlyRead cfg R base t u \<Longrightarrow> onlyRead cfg R base s u"
  unfolding onlyRead_def by (metis sameData_trans)

lemma onlyRead_refl: "relInv cfg R base st \<Longrightarrow> onlyRead cfg R base st st"
  by (simp add: onlyRead_def sameData_def)

lemma isFollowing_read:
  assumes "relInv cfg R base st" and "isFollowing a b st = (r, st')"
  shows "onlyRead cfg R base st st'" and "r = Inr f \<Longrightarrow> f = followingIn (tbRows (rsFollows st)) a b"
    and "rsFaults st = [] \<Longrightarrow> r = Inr (followingIn (tbRows (rsFollows st)) a b)"
  using readOK_isFollowing [OF assms(1), of a b] assms(2) by (auto simp: readOK_def onlyRead_def answers_def)

lemma isFollowRequested_read:
  assumes "relInv cfg R base st" and "isFollowRequested a b st = (r, st')"
  shows "onlyRead cfg R base st st'" and "r = Inr f \<Longrightarrow> f = requestedIn (tbRows (rsRequests st)) a b"
    and "rsFaults st = [] \<Longrightarrow> r = Inr (requestedIn (tbRows (rsRequests st)) a b)"
  using readOK_isFollowRequested [OF assms(1), of a b] assms(2) by (auto simp: readOK_def onlyRead_def answers_def)

lemma knownMention_read: "onlyRead cfg R base st st' \<Longrightarrow> knownMention env recv st' = knownMention env recv st"
  by (simp add: fun_eq_iff knownMention_def onlyRead_def sameData_def split: option.split)

lemma knowsMention_ok:
  assumes "relInv cfg R base st" and "knowsMention env recv m st = (b, st')"
  shows "onlyRead cfg R base st st'" and "b \<Longrightarrow> knownMention env recv st m"
    and "rsFaults st = [] \<Longrightarrow> b = knownMention env recv st m"
proof -
  have "onlyRead cfg R base st st' \<and> (b \<longrightarrow> knownMention env recv st m) \<and> (rsFaults st = [] \<longrightarrow> b = knownMention env recv st m)"
  proof (cases "\<exists>a. mentionedAccount env m = Some a \<and> acID a \<noteq> acID recv")
    case False
    then have "\<not> b \<and> st' = st" and "\<not> knownMention env recv st m"
      using assms(2) by (cases "mentionedAccount env m"; simp add: knowsMention_def knownMention_def)+
    then show ?thesis using onlyRead_refl [OF assms(1)] by simp
  next
    case True
    then obtain a where a: "mentionedAccount env m = Some a" "acID a \<noteq> acID recv" by blast
    obtain f s1 where f: "isFollowing (acID recv) (acID a) st = (f, s1)" by fastforce
    note fr = isFollowing_read [OF assms(1) f]
    obtain q s2 where q: "isFollowRequested (acID recv) (acID a) s1 = (q, s2)" by fastforce
    have inv1: "relInv cfg R base s1" using fr(1) by (simp add: onlyRead_def)
    note qr = isFollowRequested_read [OF inv1 q]
    have same: "tbRows (rsRequests s1) = tbRows (rsRequests st)" "rsFaults st = [] \<Longrightarrow> rsFaults s1 = []"
      using fr(1) by (auto simp: onlyRead_def sameData_def)
    have b: "(b, st') = (case f of Inl _ \<Rightarrow> (False, s1) | Inr True \<Rightarrow> (True, s1)
        | Inr False \<Rightarrow> (case q of Inl _ \<Rightarrow> (False, s2) | Inr b \<Rightarrow> (b, s2)))"
      using assms(2) a f q by (auto simp: knowsMention_def split: sum.splits bool.splits)
    have rd: "onlyRead cfg R base st s2" by (rule onlyRead_trans [OF fr(1) qr(1)])
    show ?thesis
    proof (cases f)
      case (Inl e)
      then show ?thesis using b fr(1,3) by auto
    next
      case (Inr g)
      show ?thesis
      proof (cases g)
        case True
        then show ?thesis using b Inr fr(1) fr(2) [OF Inr] a by (simp add: knownMention_def)
      next
        case False
        then show ?thesis using b Inr rd fr(2) [OF Inr] qr(2,3) same a by (cases q) (auto simp: knownMention_def)
      qed
    qed
  qed
  then show "onlyRead cfg R base st st'" and "b \<Longrightarrow> knownMention env recv st m"
    and "rsFaults st = [] \<Longrightarrow> b = knownMention env recv st m" by auto
qed

lemma knowsOneMentioned_ok:
  assumes "relInv cfg R base st" and "knowsOneMentioned env recv ms st = (b, st')"
  shows "onlyRead cfg R base st st' \<and> (b \<longrightarrow> list_ex (knownMention env recv st) ms) \<and>
    (rsFaults st = [] \<longrightarrow> b = list_ex (knownMention env recv st) ms)"
  using assms
proof (induction ms arbitrary: st)
  case Nil
  then show ?case by (auto intro: onlyRead_refl)
next
  case (Cons m ms)
  obtain k s1 where k: "knowsMention env recv m st = (k, s1)" by fastforce
  note ok = knowsMention_ok [OF Cons(2) k]
  show ?case
  proof (cases k)
    case True
    then show ?thesis using Cons(3) k ok by simp
  next
    case False
    then have rest: "knowsOneMentioned env recv ms s1 = (b, st')" using Cons(3) k by simp
    have inv: "relInv cfg R base s1" using ok(1) by (simp add: onlyRead_def)
    have f: "rsFaults st = [] \<Longrightarrow> rsFaults s1 = []" using ok(1) by (simp add: onlyRead_def)
    from Cons(1) [OF inv rest] show ?thesis
      using ok(3) False f onlyRead_trans [OF ok(1)] unfolding knownMention_read [OF ok(1)] by auto
  qed
qed

text \<open>What the receiver wants to get, on the tables.\<close>

definition wanted :: "spam_env \<Rightarrow> account \<Rightarrow> account \<Rightarrow> statusable \<Rightarrow> relstate \<Rightarrow> bool" where
  "wanted env recv req sb st =
     (let ms = prepMentions env (sbMentions sb); follows = followingIn (tbRows (rsFollows st))
      in follows (acID recv) (acID req) \<or>
         isMentioned env recv ms \<and>
           (\<not> seSpamFilter env \<or> acLocked recv \<and> follows (acID req) (acID recv) \<or>
            length ms \<le> 4 \<and> (list_ex (knownMention env recv st) ms \<or> sbAttachments sb = 0 \<and> \<not> errantLinks env sb ms)))"

lemma statusableOK_ok:
  assumes "relInv cfg R base st" and "statusableOK env recv req sb st = (v, st')"
  shows "onlyRead cfg R base st st'" and "v = Inr LooksOK \<Longrightarrow> wanted env recv req sb st"
    and "v = Inr NotRelevant \<Longrightarrow> \<not> followingIn (tbRows (rsFollows st)) (acID recv) (acID req) \<and>
      \<not> isMentioned env recv (prepMentions env (sbMentions sb))"
    and "rsFaults st = [] \<Longrightarrow> v = Inr (if wanted env recv req sb st then LooksOK
      else if isMentioned env recv (prepMentions env (sbMentions sb)) then LooksSpam else NotRelevant)"
proof -
  let ?ms = "prepMentions env (sbMentions sb)"
  let ?F = "followingIn (tbRows (rsFollows st))"
  obtain f s1 where f: "isFollowing (acID recv) (acID req) st = (f, s1)" by fastforce
  note fr = isFollowing_read [OF assms(1) f]
  have inv1: "relInv cfg R base s1" and rows1: "tbRows (rsFollows s1) = tbRows (rsFollows st)"
    and calm1: "rsFaults st = [] \<Longrightarrow> rsFaults s1 = []" using fr(1) by (auto simp: onlyRead_def sameData_def)
  obtain l s2 where l: "lockedFollowedBy recv req s1 = (l, s2)" by fastforce
  have lr: "onlyRead cfg R base s1 s2" "l = Inr b \<Longrightarrow> b = (acLocked recv \<and> ?F (acID req) (acID recv))"
      "rsFaults st = [] \<Longrightarrow> l = Inr (acLocked recv \<and> ?F (acID req) (acID recv))" for b
  proof -
    have "onlyRead cfg R base s1 s2 \<and> (\<forall>b. l = Inr b \<longrightarrow> b = (acLocked recv \<and> ?F (acID req) (acID recv))) \<and>
      (rsFaults st = [] \<longrightarrow> l = Inr (acLocked recv \<and> ?F (acID req) (acID recv)))"
    proof (cases "acLocked recv")
      case True
      then have i: "isFollowing (acID req) (acID recv) s1 = (l, s2)" using l by (simp add: lockedFollowedBy_def)
      show ?thesis using isFollowing_read(1) [OF inv1 i] isFollowing_read(2) [OF inv1 i, unfolded rows1]
          isFollowing_read(3) [OF inv1 i, unfolded rows1] calm1 True by blast
    next
      case False
      then show ?thesis using l onlyRead_refl [OF inv1] by (auto simp: lockedFollowedBy_def)
    qed
    then show "onlyRead cfg R base s1 s2" "l = Inr b \<Longrightarrow> b = (acLocked recv \<and> ?F (acID req) (acID recv))"
      "rsFaults st = [] \<Longrightarrow> l = Inr (acLocked recv \<and> ?F (acID req) (acID recv))" for b by blast+
  qed
  have rd2: "onlyRead cfg R base st s2" by (rule onlyRead_trans [OF fr(1) lr(1)])
  then have inv2: "relInv cfg R base s2" and calm2: "rsFaults st = [] \<Longrightarrow> rsFaults s2 = []" by (auto simp: onlyRead_def)
  obtain k s3 where k: "knowsOneMentioned env recv ?ms s2 = (k, s3)" by fastforce
  note kr = knowsOneMentioned_ok [OF inv2 k, unfolded knownMention_read [OF rd2]]
  have rd3: "onlyRead cfg R base st s3" using onlyRead_trans [OF rd2] kr by blast
  have res: "(v, st') =
      (case f of Inl e \<Rightarrow> (Inl e, s1) | Inr fo \<Rightarrow>
       if fo then (Inr LooksOK, s1) else if \<not> isMentioned env recv ?ms then (Inr NotRelevant, s1)
       else if \<not> seSpamFilter env then (Inr LooksOK, s1)
       else (case l of Inl e \<Rightarrow> (Inl e, s2) | Inr fb \<Rightarrow>
         if fb then (Inr LooksOK, s2) else if 5 \<le> length ?ms then (Inr LooksSpam, s2)
         else if k then (Inr LooksOK, s3) else if sbAttachments sb \<noteq> 0 then (Inr LooksSpam, s3)
         else if errantLinks env sb ?ms then (Inr LooksSpam, s3) else (Inr LooksOK, s3)))"
    unfolding assms(2) [symmetric] statusableOK_def f by (cases f; cases l) (simp_all add: l k Let_def)
  show "onlyRead cfg R base st st'" using res fr(1) rd2 rd3 by (auto split: sum.splits if_splits)
  show "v = Inr LooksOK \<Longrightarrow> wanted env recv req sb st"
    using res fr(2) lr(2) kr by (auto simp: wanted_def Let_def split: sum.splits if_splits)
  show "v = Inr NotRelevant \<Longrightarrow> \<not> ?F (acID recv) (acID req) \<and> \<not> isMentioned env recv ?ms"
    using res fr(2) by (auto split: sum.splits if_splits)
  show "v = Inr (if wanted env recv req sb st then LooksOK else if isMentioned env recv ?ms then LooksSpam else NotRelevant)"
    if c: "rsFaults st = []"
  proof -
    have k: "k = list_ex (knownMention env recv st) ?ms" using kr calm2 [OF c] by simp
    have "v = Inr (if ?F (acID recv) (acID req) then LooksOK else if \<not> isMentioned env recv ?ms then NotRelevant
        else if \<not> seSpamFilter env \<or> acLocked recv \<and> ?F (acID req) (acID recv) then LooksOK
        else if 5 \<le> length ?ms then LooksSpam else if k then LooksOK
        else if sbAttachments sb \<noteq> 0 \<or> errantLinks env sb ?ms then LooksSpam else LooksOK)"
      using res [THEN arg_cong [of _ _ fst]] unfolding fr(3) [OF c] lr(3) [OF c] sum.case fst_conv
      by (simp only: if_distrib [of fst] if_distrib [of Inr] fst_conv split: if_split) blast
    moreover have "length ?ms \<le> 4 \<longleftrightarrow> \<not> 5 \<le> length ?ms" by (rule iffI) linarith+
    ultimately show ?thesis unfolding wanted_def Let_def k by (simp only: split: if_split) blast
  qed
qed


subsection \<open>What reaches the worker\<close>

definition statusMsg :: "spam_env \<Rightarrow> account \<Rightarrow> account \<Rightarrow> statusable \<Rightarrow> status_msg" where
  "statusMsg env recv req sb =
     (if isSender env sb req then \<lparr>sgIRI = None, sgObject = Some sb, sgReceiving = recv, sgRequesting = req\<rparr>
      else \<lparr>sgIRI = Some (sbID sb), sgObject = None, sgReceiving = recv, sgRequesting = req\<rparr>)"

lemma createStatusable_ok:
  assumes "relInv cfg R base (csRel cs)" and "createStatusable env recv req sb (\<not> isSender env sb req) cs = (e, cs')"
  shows "onlyRead cfg R base (csRel cs) (csRel cs') \<and>
    (csQueue cs' = csQueue cs \<or> csQueue cs' = csQueue cs @ [statusMsg env recv req sb] \<and> wanted env recv req sb (csRel cs)) \<and>
    (rsFaults (csRel cs) = [] \<longrightarrow> e = None \<and>
      csQueue cs' = csQueue cs @ (if wanted env recv req sb (csRel cs) then [statusMsg env recv req sb] else []))"
proof -
  obtain v st where v: "statusableOK env recv req sb (csRel cs) = (v, st)" by fastforce
  note ok = statusableOK_ok [OF assms(1) v]
  have res: "(e, cs') = (case v of Inl e \<Rightarrow> (Some e, cs\<lparr>csRel := st\<rparr>)
      | Inr w \<Rightarrow> (None, cs\<lparr>csRel := st, csQueue := csQueue cs @ (if w = LooksOK then [statusMsg env recv req sb] else [])\<rparr>))"
    unfolding assms(2) [symmetric] createStatusable_def v
    by (cases v; cases "projr v") (simp_all add: statusMsg_def)
  show ?thesis
  proof (cases v)
    case (Inl x)
    then have "rsFaults (csRel cs) \<noteq> []" using ok(4) by auto
    then show ?thesis using res ok(1) Inl by simp
  next
    case (Inr w)
    then have w: "w = LooksOK \<Longrightarrow> wanted env recv req sb (csRel cs)" using ok(2) by simp
    have "rsFaults (csRel cs) = [] \<Longrightarrow> wanted env recv req sb (csRel cs) \<longleftrightarrow> w = LooksOK" using ok(4) Inr by (auto split: if_splits)
    then show ?thesis using res ok(1) Inr w by (cases "w = LooksOK") auto
  qed
qed

lemma wanted_read: "onlyRead cfg R base st st' \<Longrightarrow> wanted env recv req sb st' = wanted env recv req sb st"
  unfolding wanted_def knownMention_read by (simp add: onlyRead_def sameData_def)

lemma createStatusables_ok:
  assumes "relInv cfg R base (csRel cs)" and "createStatusables env recv req sbs cs = (es, cs')"
  shows "onlyRead cfg R base (csRel cs) (csRel cs') \<and>
    (\<exists>xs. csQueue cs' = csQueue cs @ map (statusMsg env recv req) xs \<and> subseq xs sbs \<and>
      (\<forall>x \<in> set xs. wanted env recv req x (csRel cs)) \<and>
      (rsFaults (csRel cs) = [] \<longrightarrow> es = [] \<and> xs = filter (\<lambda>x. wanted env recv req x (csRel cs)) sbs))"
  using assms
proof (induction sbs arbitrary: cs es cs')
  case Nil
  then show ?case by (auto intro: onlyRead_refl)
next
  case (Cons sb sbs)
  obtain e cs1 where c: "createStatusable env recv req sb (\<not> isSender env sb req) cs = (e, cs1)" by fastforce
  obtain es2 cs2 where r: "createStatusables env recv req sbs cs1 = (es2, cs2)" by fastforce
  have res: "cs' = cs2" "es = (case e of None \<Rightarrow> [] | Some x \<Rightarrow> [x]) @ es2" using Cons(3) c r by (simp_all add: Let_def)
  note one = createStatusable_ok [OF Cons(2) c]
  have rd: "onlyRead cfg R base (csRel cs) (csRel cs1)" using one by blast
  then have inv1: "relInv cfg R base (csRel cs1)" and calm: "rsFaults (csRel cs) = [] \<Longrightarrow> rsFaults (csRel cs1) = []"
    by (auto simp: onlyRead_def)
  note ih = Cons(1) [OF inv1 r, unfolded wanted_read [OF rd]]
  have rd2: "onlyRead cfg R base (csRel cs) (csRel cs2)" by (rule onlyRead_trans [OF rd conjunct1 [OF ih]])
  obtain xs where xs: "csQueue cs2 = csQueue cs1 @ map (statusMsg env recv req) xs \<and> subseq xs sbs \<and>
      (\<forall>x \<in> set xs. wanted env recv req x (csRel cs)) \<and>
      (rsFaults (csRel cs1) = [] \<longrightarrow> es2 = [] \<and> xs = filter (\<lambda>x. wanted env recv req x (csRel cs)) sbs)"
    using conjunct2 [OF ih] ..
  have part: "?case" if ys: "csQueue cs1 @ map (statusMsg env recv req) xs = csQueue cs @ map (statusMsg env recv req) ys"
      "subseq ys (sb # sbs)" "\<forall>x \<in> set ys. wanted env recv req x (csRel cs)"
      "rsFaults (csRel cs) = [] \<Longrightarrow> e = None \<and> ys = (if wanted env recv req sb (csRel cs) then [sb] else []) @ xs" for ys
  proof (intro conjI exI [of _ ys] impI)
    assume f: "rsFaults (csRel cs) = []"
    have e: "es2 = []" "xs = filter (\<lambda>x. wanted env recv req x (csRel cs)) sbs" using xs calm [OF f] by blast+
    show "es = []" using conjunct1 [OF ys(4) [OF f]] e(1) res(2) by simp
    show "ys = filter (\<lambda>x. wanted env recv req x (csRel cs)) (sb # sbs)" using conjunct2 [OF ys(4) [OF f]] unfolding e(2) by simp
  next
    show "onlyRead cfg R base (csRel cs) (csRel cs')" using rd2 unfolding res(1) .
    show "csQueue cs' = csQueue cs @ map (statusMsg env recv req) ys" using conjunct1 [OF xs] ys(1) unfolding res(1) by (rule trans)
    show "subseq ys (sb # sbs)" "\<forall>x \<in> set ys. wanted env recv req x (csRel cs)" by (fact ys)+
  qed
  show ?case
  proof (cases "csQueue cs1 = csQueue cs")
    case True
    have "e = None \<and> \<not> wanted env recv req sb (csRel cs)" if "rsFaults (csRel cs) = []"
      using one that True by (simp split: if_splits)
    then show ?thesis using True xs by (intro part [of xs]) (simp_all add: list_emb_Cons)
  next
    case False
    then have q: "csQueue cs1 = csQueue cs @ [statusMsg env recv req sb]" "wanted env recv req sb (csRel cs)" using one by blast+
    have "e = None" if "rsFaults (csRel cs) = []" using one that by blast
    then show ?thesis using q xs by (intro part [of "sb # xs"]) simp_all
  qed
qed

text \<open>
  C9. Statuses of a \<open>Create\<close>: whatever fails, the worker gets statuses of the activity that the receiver
  wants, in their order and once each, and nothing else; a status that the sender did not write is passed on by its
  ID alone. Without faults it gets all that are wanted. No table changes.
\<close>

theorem createStatusables_effect:
  assumes "relReach cfg R base acct (csRel cs)" and "createStatusables env recv req sbs cs = (es, cs')"
  shows "sameData (csRel cs) (csRel cs') \<and>
    (\<exists>xs. csQueue cs' = csQueue cs @ map (statusMsg env recv req) xs \<and> subseq xs sbs \<and>
      (\<forall>x \<in> set xs. wanted env recv req x (csRel cs)) \<and>
      (rsFaults (csRel cs) = [] \<longrightarrow> es = [] \<and> xs = filter (\<lambda>x. wanted env recv req x (csRel cs)) sbs))"
  using createStatusables_ok [OF relReach_inv [OF assms(1)] assms(2)] unfolding onlyRead_def by blast

subsection \<open>An example\<close>

definition exSpamEnv :: spam_env where
  "exSpamEnv = \<lparr>seHost = ''here.org'', seAccountDomain = ''here.org'', seSpamFilter = True,
     seMentionName = (\<lambda>s. [s, ''z'', ''here.org'']), seParseHost = (\<lambda>u. Some (drop 8 u)), seEqualFold = (=),
     seLinks = (\<lambda>s. [drop 1 s]), seByURI = (\<lambda>_. Inl LNoEntries), seByName = (\<lambda>_ _. Inl LNoEntries),
     seURI = acID, seURL = acID\<rparr>"

definition exMention :: "string \<Rightarrow> raw_mention" where
  "exMention i = \<lparr>rmNameString = [], rmTargetURI = i\<rparr>"

text \<open>A status of \<open>x\<close> to \<open>a\<close>, and one to \<open>a\<close> and a made-up account.\<close>

definition exSpamStatus :: "raw_mention list \<Rightarrow> statusable" where
  "exSpamStatus ms = \<lparr>sbMentions = ms, sbAttachments = 0, sbHashtags = [], sbSummary = [], sbContent = ''https://shop.co.uk'',
     sbAttributedTo = [''x''], sbID = ''s''\<rparr>"

lemma exSpam_verdicts:
  "fst (statusableOK exSpamEnv (exAcct ''a'') (exAcct ''x'') (exSpamStatus [exMention ''a'']) exState) = Inr LooksSpam"
  "fst (statusableOK exSpamEnv (exAcct ''a'') (exAcct ''x'') (exSpamStatus []) exState) = Inr NotRelevant"
  "fst (statusableOK exSpamEnv (exAcct ''b'') (exAcct ''a'') (exSpamStatus []) exState) = Inr LooksOK"
  by code_simp+


theorem createStatusables_effect_witness:
  "map sgIRI (csQueue (snd (createStatusables exSpamEnv (exAcct ''b'') (exAcct ''a'') [exSpamStatus []] \<lparr>csRel = exState, csQueue = []\<rparr>)))
     = [Some ''s'']"
proof -
  let ?c = "createStatusables exSpamEnv (exAcct ''b'') (exAcct ''a'') [exSpamStatus []] \<lparr>csRel = exState, csQueue = []\<rparr>"
  have reach: "relReach exHost exRows exDB exLookup (csRel \<lparr>csRel = exState, csQueue = []\<rparr>)" using exState_reach by simp
  have "wanted exSpamEnv (exAcct ''b'') (exAcct ''a'') (exSpamStatus []) exState" by code_simp
  moreover have "statusMsg exSpamEnv (exAcct ''b'') (exAcct ''a'') (exSpamStatus []) =
      \<lparr>sgIRI = Some ''s'', sgObject = None, sgReceiving = exAcct ''b'', sgRequesting = exAcct ''a''\<rparr>" by code_simp
  moreover have "rsFaults exState = []" by (simp add: exState_def)
  ultimately show ?thesis
    using createStatusables_effect [OF reach, of exSpamEnv "exAcct ''b''" "exAcct ''a''" "[exSpamStatus []]" "fst ?c" "snd ?c"]
    by auto
qed

text \<open>
  A link is taken for one of a mentioned account if the two hosts share two labels, and the
  mentioned account need not exist. So a mention of any account of the host, or of any
  other host under \<open>co.uk\<close>, makes the same status pass.
\<close>

lemma madeup_mention_passes:
  "fst (statusableOK exSpamEnv (exAcct ''a'') (exAcct ''x'') (exSpamStatus [exMention ''a'', exMention ''https://news.co.uk'']) exState)
     = Inr LooksOK"
  by code_simp

end
